(* ===== verification/Lens_Prelude.thy ===== *)
theory Lens_Prelude
  imports Main
begin

text \<open>
  Shared vocabulary of the development: the JavaScript string and array operations the
  renderer uses, on lists, and the lemmas about them that the components share.

  A JavaScript string is a list of code units. Where the code looks at characters, the
  model uses HOL's \<open>char\<close>, that is the code units U+0000 to U+00FF; where it only moves
  text around, the definitions are polymorphic and hold for any code units.
\<close>

named_theorems js_simps \<open>evaluation rules of the JavaScript string and array operations\<close>

section \<open>Slices\<close>

text \<open>\<open>xs.slice(i, j)\<close> for indices that are not negative: both are clamped to the length.\<close>

definition slice :: "'a list \<Rightarrow> nat \<Rightarrow> nat \<Rightarrow> 'a list" where
  "slice xs i j = take (j - i) (drop i xs)"

text \<open>\<open>xs.substring(i, j)\<close>: as \<open>slice\<close>, but the bounds are swapped when they are reversed.\<close>

definition substring :: "'a list \<Rightarrow> nat \<Rightarrow> nat \<Rightarrow> 'a list" where
  "substring xs i j = slice xs (min i j) (max i j)"

lemma slice_0 [simp, js_simps]: "slice xs 0 j = take j xs"
  by (simp add: slice_def)

lemma slice_refl [simp, js_simps]: "slice xs i i = []"
  by (simp add: slice_def)

lemma slice_Nil [simp, js_simps]: "slice [] i j = []"
  by (simp add: slice_def)

lemma slice_to_end [simp]: "length xs \<le> j \<Longrightarrow> slice xs i j = drop i xs"
  by (simp add: slice_def)

lemma length_slice [simp]: "j \<le> length xs \<Longrightarrow> length (slice xs i j) = j - i"
  by (simp add: slice_def)

lemma substring_slice: "i \<le> j \<Longrightarrow> substring xs i j = slice xs i j"
  by (simp add: substring_def min_def max_def)

lemma slice_append_drop: "i \<le> j \<Longrightarrow> slice xs i j @ drop j xs = drop i xs"
  by (simp add: slice_def append_take_drop_id flip: drop_drop[of "j - i" i xs, simplified])
     (metis append_take_drop_id drop_drop le_add_diff_inverse2)

lemma take_append_slice: "i \<le> j \<Longrightarrow> take i xs @ slice xs i j = take j xs"
  by (metis slice_def le_add_diff_inverse take_add)

lemma take_slice_drop: "i \<le> j \<Longrightarrow> take i xs @ slice xs i j @ drop j xs = xs"
  by (simp add: slice_append_drop)

section \<open>Repeating a partial step\<close>

primrec iter_opt :: "('s \<Rightarrow> 's option) \<Rightarrow> nat \<Rightarrow> 's \<Rightarrow> 's option" where
  "iter_opt f 0 s = Some s"
| "iter_opt f (Suc n) s = Option.bind (f s) (iter_opt f n)"

lemma iter_opt_Suc_last: "iter_opt f (Suc n) s = Option.bind (iter_opt f n s) f"
proof (induction n arbitrary: s)
  case 0
  show ?case by (cases "f s") simp_all
next
  case (Suc n)
  then show ?case by (cases "f s") simp_all
qed

section \<open>Splitting and joining\<close>

text \<open>\<open>xs.split(sep)\<close> and \<open>xss.join(sep)\<close> for a separator of one code unit.\<close>

fun split_on :: "'a \<Rightarrow> 'a list \<Rightarrow> 'a list list" where
  "split_on sep [] = [[]]"
| "split_on sep (c # cs) =
     (if c = sep then [] # split_on sep cs
      else (c # hd (split_on sep cs)) # tl (split_on sep cs))"

fun join_with :: "'a \<Rightarrow> 'a list list \<Rightarrow> 'a list" where
  "join_with sep [] = []"
| "join_with sep [l] = l"
| "join_with sep (l # ls) = l @ sep # join_with sep ls"

lemma split_on_nonempty [simp]: "split_on sep xs \<noteq> []"
  by (cases xs) auto

lemma join_with_Cons: "ls \<noteq> [] \<Longrightarrow> join_with sep (l # ls) = l @ sep # join_with sep ls"
  by (cases ls) auto

lemma join_split [simp]: "join_with sep (split_on sep xs) = xs"
proof (induction xs)
  case (Cons c cs)
  then show ?case
    by (cases "split_on sep cs"; cases "tl (split_on sep cs)") (auto simp: join_with_Cons)
qed simp

lemma split_on_no_sep: "l \<in> set (split_on sep xs) \<Longrightarrow> sep \<notin> set l"
proof (induction xs arbitrary: l)
  case (Cons c cs)
  then show ?case
    by (cases "split_on sep cs") (auto split: if_splits)
qed simp

lemma split_on_plain: "sep \<notin> set l \<Longrightarrow> split_on sep l = [l]"
  by (induction l) auto

lemma split_on_append: "sep \<notin> set l \<Longrightarrow> split_on sep (l @ sep # xs) = l # split_on sep xs"
  by (induction l) auto

lemma split_join:
  "ls \<noteq> [] \<Longrightarrow> \<forall>l \<in> set ls. sep \<notin> set l \<Longrightarrow> split_on sep (join_with sep ls) = ls"
  by (induction sep ls rule: join_with.induct) (auto simp: split_on_plain split_on_append)

lemma length_split_on: "length (split_on sep xs) = Suc (count_list xs sep)"
  by (induction xs) auto

section \<open>Searching for a substring\<close>

definition matches_at :: "'c list \<Rightarrow> 'c list \<Rightarrow> nat \<Rightarrow> bool" where
  "matches_at hay needle i \<longleftrightarrow> take (length needle) (drop i hay) = needle"

text \<open>\<open>hay.indexOf(needle, from)\<close>, \<open>None\<close> for -1.\<close>

definition indexOf :: "'c list \<Rightarrow> 'c list \<Rightarrow> nat \<Rightarrow> nat option" where
  "indexOf hay needle i = List.find (matches_at hay needle) [i..<Suc (length hay)]"

lemma find_upt_None: "List.find P [i..<n] = None \<Longrightarrow> i \<le> j \<Longrightarrow> j < n \<Longrightarrow> \<not> P j"
  by (auto simp: find_None_iff)

lemma find_upt_Some:
  assumes "List.find P [i..<n] = Some p"
  shows "i \<le> p \<and> p < n \<and> P p \<and> (\<forall>j. i \<le> j \<and> j < p \<longrightarrow> \<not> P j)"
  using assms by (auto simp: find_Some_iff) (metis le_add_diff_inverse less_diff_conv2 nth_upt
    order_less_trans add_less_cancel_left diff_less_mono)

lemma matches_at_bound:
  assumes "matches_at hay needle i" "needle \<noteq> []"
  shows "i + length needle \<le> length hay"
proof -
  have "length (take (length needle) (drop i hay)) = length needle"
    using assms(1) by (simp add: matches_at_def)
  then have "min (length hay - i) (length needle) = length needle" by simp
  moreover have "0 < length needle" using assms(2) by simp
  ultimately show ?thesis by linarith
qed

lemma indexOf_SomeD:
  assumes "indexOf hay needle i = Some p"
  shows "i \<le> p \<and> matches_at hay needle p \<and> (\<forall>j. i \<le> j \<and> j < p \<longrightarrow> \<not> matches_at hay needle j)"
  using find_upt_Some[OF assms[unfolded indexOf_def]] by blast

lemma indexOf_NoneD: "indexOf hay needle i = None \<Longrightarrow> i \<le> j \<Longrightarrow> j \<le> length hay \<Longrightarrow> \<not> matches_at hay needle j"
  unfolding indexOf_def by (erule find_upt_None) simp_all

section \<open>Numbers as text\<close>

text \<open>\<open>n.toString(base)\<close> for a number that is not negative, and reading it back.\<close>

definition digit_char :: "nat \<Rightarrow> char" where
  "digit_char d = char_of (if d < 10 then 48 + d else 87 + d)"

definition char_digit :: "char \<Rightarrow> nat" where
  "char_digit c = (let n = of_char c in if n < 58 then n - 48 else n - 87)"

function show_base :: "nat \<Rightarrow> nat \<Rightarrow> string" where
  "show_base b n = (if n < b \<or> b < 2 then [digit_char n] else show_base b (n div b) @ [digit_char (n mod b)])"
  by pat_completeness auto
termination by (relation "measure snd") (auto intro: div_less_dividend)

declare show_base.simps [simp del]

definition read_base :: "nat \<Rightarrow> string \<Rightarrow> nat" where
  "read_base b s = foldl (\<lambda>n c. b * n + char_digit c) 0 s"

abbreviation show_nat :: "nat \<Rightarrow> string" where "show_nat \<equiv> show_base 10"

definition show_int :: "int \<Rightarrow> string" where
  "show_int i = (if i < 0 then CHR ''-'' # show_nat (nat (- i)) else show_nat (nat i))"

lemma of_digit_char: "d < 36 \<Longrightarrow> (of_char (digit_char d) :: nat) = (if d < 10 then 48 + d else 87 + d)"
  by (simp add: digit_char_def)

lemma char_digit_char: "d < 36 \<Longrightarrow> char_digit (digit_char d) = d"
  by (simp add: char_digit_def of_digit_char)

lemma read_show_base: "2 \<le> b \<Longrightarrow> b \<le> 36 \<Longrightarrow> read_base b (show_base b n) = n"
proof (induction b n rule: show_base.induct)
  case (1 b n)
  show ?case
  proof (cases "n < b")
    case True
    with "1.prems" show ?thesis by (subst show_base.simps) (simp add: read_base_def char_digit_char)
  next
    case False
    with 1 have "read_base b (show_base b (n div b)) = n div b" by simp
    moreover have "n mod b < 36" using mod_less_divisor[of b n] "1.prems" by linarith
    ultimately show ?thesis
      using False "1.prems" by (subst show_base.simps) (simp add: read_base_def char_digit_char)
  qed
qed

lemma show_base_inject: "2 \<le> b \<Longrightarrow> b \<le> 36 \<Longrightarrow> show_base b m = show_base b n \<longleftrightarrow> m = n"
  by (metis read_show_base)

lemma show_base_chars:
  "2 \<le> b \<Longrightarrow> b \<le> 36 \<Longrightarrow> c \<in> set (show_base b n) \<Longrightarrow> \<exists>d < b. c = digit_char d"
proof (induction b n rule: show_base.induct)
  case (1 b n)
  show ?case
  proof (cases "n < b")
    case True
    with "1.prems" show ?thesis by (subst (asm) show_base.simps) auto
  next
    case False
    then have "c = digit_char (n mod b) \<or> c \<in> set (show_base b (n div b))"
      using "1.prems" by (subst (asm) show_base.simps) auto
    moreover have "n mod b < b" using "1.prems" by simp
    ultimately show ?thesis using "1.IH" False "1.prems"(1,2) by (metis not_less)
  qed
qed

lemma show_base_nonempty [simp]: "show_base b n \<noteq> []"
  by (subst show_base.simps) simp

lemma show_nat_digits: "c \<in> set (show_nat n) \<Longrightarrow> 48 \<le> (of_char c :: nat) \<and> (of_char c :: nat) \<le> 57"
  using show_base_chars[of 10 c n] by (auto simp: of_digit_char)

lemma show_nat_no_char: "\<not> (48 \<le> (of_char c :: nat) \<and> (of_char c :: nat) \<le> 57) \<Longrightarrow> c \<notin> set (show_nat n)"
  using show_nat_digits by blast

text \<open>What follows the last separator of two equal texts is equal.\<close>

lemma last_part_inject:
  assumes "xs @ sep # s = ys @ sep # s'" "sep \<notin> set s" "sep \<notin> set s'"
  shows "s = s'"
proof -
  have "rev s @ sep # rev xs = rev s' @ sep # rev ys" using arg_cong[OF assms(1), of rev] by simp
  moreover have "takeWhile (\<lambda>c. c \<noteq> sep) (us @ sep # zs) = us" if "sep \<notin> set us" for us zs
    using that by (induction us) auto
  ultimately have "rev s = rev s'" using assms(2,3) by (metis set_rev)
  then show ?thesis by simp
qed

end
