(* ===== verification/Undo_History.thy ===== *)
theory Undo_History
  imports Lens_Prelude
begin

text \<open>
  The editor's undo history, \<open>frontend/src/mibeditor/history.js\<close>: the diff that records an
  edit, the rule that groups a run of typing into one step, and the bounded stack of
  entries with its cursor. The lemmas show that a diff, hinted or not, is an exact patch;
  that the stack always replays to the document on screen; that undo and redo walk the
  list of documents it stands for; and that the stack never exceeds its bound.
\<close>

section \<open>Edits\<close>

definition COALESCE_MS :: int where "COALESCE_MS = 600"
definition MAX_DEPTH :: nat where "MAX_DEPTH = 300"
definition HINT_WINDOW :: nat where "HINT_WINDOW = 256"

text \<open>One edit: at an offset, some text removed and some inserted.\<close>

record 'c edit =
  ed_at :: nat
  ed_removed :: "'c list"
  ed_inserted :: "'c list"

text \<open>The textarea's selection.\<close>

record selection =
  sel_start :: int
  sel_end :: int

text \<open>An entry of the stack: the edit, the caret on both sides, its time, and whether it is closed.\<close>

record 'c entry = "'c edit" +
  selBefore :: "selection option"
  selAfter :: "selection option"
  time :: int
  atomic :: bool

text \<open>The scans of \<open>exactDiff\<close>: the common prefix, then the common suffix beyond it.\<close>

function scan_prefix :: "'c list \<Rightarrow> 'c list \<Rightarrow> nat \<Rightarrow> nat \<Rightarrow> nat" where
  "scan_prefix before after start mx =
     (if start < mx \<and> before ! start = after ! start
      then scan_prefix before after (Suc start) mx else start)"
  by pat_completeness auto
termination by (relation "measure (\<lambda>(b, a, start, mx). mx - start)") auto

function scan_suffix :: "'c list \<Rightarrow> 'c list \<Rightarrow> nat \<Rightarrow> nat \<Rightarrow> nat \<Rightarrow> nat \<times> nat" where
  "scan_suffix before after start endBefore endAfter =
     (if start < endBefore \<and> start < endAfter \<and> before ! (endBefore - 1) = after ! (endAfter - 1)
      then scan_suffix before after start (endBefore - 1) (endAfter - 1)
      else (endBefore, endAfter))"
  by pat_completeness auto
termination by (relation "measure (\<lambda>(b, a, start, eb, ea). eb)") auto

declare scan_prefix.simps [simp del] scan_suffix.simps [simp del]

definition exactDiff :: "'c list \<Rightarrow> 'c list \<Rightarrow> 'c edit" where
  "exactDiff before after =
     (let start = scan_prefix before after 0 (min (length before) (length after));
          (endBefore, endAfter) = scan_suffix before after start (length before) (length after)
      in \<lparr>ed_at = start, ed_removed = slice before start endBefore,
          ed_inserted = slice after start endAfter\<rparr>)"

text \<open>
  \<open>hintedDiff\<close>: the window of 256 code units on either side of the caret, or nothing when
  the text outside the window changed. \<open>hiAfter\<close> may be negative, so it is an integer.
\<close>

definition hintedDiff :: "'c list \<Rightarrow> 'c list \<Rightarrow> nat \<Rightarrow> 'c edit option" where
  "hintedDiff before after hint =
     (let delta = int (length after) - int (length before);
          lo = min (min hint (length before)) (length after) - HINT_WINDOW
      in if substring before 0 lo \<noteq> substring after 0 lo then None
      else let hiBefore = min (length before) (hint + HINT_WINDOW);
               hiAfter = int hiBefore + delta
      in if hiAfter < int lo \<or> hiAfter > int (length after) then None
      else if drop hiBefore before \<noteq> drop (nat hiAfter) after then None
      else let d = exactDiff (substring before lo hiBefore) (substring after lo (nat hiAfter))
      in Some (d\<lparr>ed_at := lo + ed_at d\<rparr>))"

definition diff :: "'c list \<Rightarrow> 'c list \<Rightarrow> int \<Rightarrow> 'c edit" where
  "diff before after hint =
     (if hint \<ge> 0
      then (case hintedDiff before after (nat hint) of
              Some fast \<Rightarrow> fast
            | None \<Rightarrow> exactDiff before after)
      else exactDiff before after)"

text \<open>What undo and redo do to the text with one entry.\<close>

definition apply_edit :: "('c, 'z) edit_scheme \<Rightarrow> 'c list \<Rightarrow> 'c list" where
  "apply_edit e t = take (ed_at e) t @ ed_inserted e @ drop (ed_at e + length (ed_removed e)) t"

definition revert_edit :: "('c, 'z) edit_scheme \<Rightarrow> 'c list \<Rightarrow> 'c list" where
  "revert_edit e t = take (ed_at e) t @ ed_removed e @ drop (ed_at e + length (ed_inserted e)) t"

section \<open>Runs of typing\<close>

text \<open>The class \<open>[\s{}(),;:"']\<close>; \<open>\s\<close> on the code units up to U+00FF.\<close>

definition is_space :: "char \<Rightarrow> bool" where
  "is_space c \<longleftrightarrow> of_char c \<in> {9, 10, 11, 12, 13, 32, 160 :: nat}"

definition BOUNDARY :: "char \<Rightarrow> bool" where
  "BOUNDARY c \<longleftrightarrow> is_space c \<or> c \<in> set ''{}(),;:'' \<or> c = CHR 0x22 \<or> c = CHR 0x27"

definition shouldCoalesce :: "char entry option \<Rightarrow> char edit \<Rightarrow> int \<Rightarrow> bool \<Rightarrow> bool" where
  "shouldCoalesce lastE next now atom =
     (case lastE of None \<Rightarrow> False | Some l \<Rightarrow>
        if atom \<or> atomic l then False
        else if now - time l > COALESCE_MS then False
        else let lastIsInsert = ed_removed l = [] \<and> ed_inserted l \<noteq> [];
                 nextIsInsert = ed_removed next = [] \<and> ed_inserted next \<noteq> [];
                 lastIsDelete = ed_inserted l = [] \<and> ed_removed l \<noteq> [];
                 nextIsDelete = ed_inserted next = [] \<and> ed_removed next \<noteq> []
        in if lastIsInsert \<and> nextIsInsert
           then if ed_at next \<noteq> ed_at l + length (ed_inserted l) then False
                else \<not> BOUNDARY (last (ed_inserted l))
           else if lastIsDelete \<and> nextIsDelete
           then if ed_at next + length (ed_removed next) \<noteq> ed_at l then False
                else \<not> BOUNDARY (hd (ed_removed next))
           else False)"

section \<open>The stack\<close>

record history =
  base :: string
  entries :: "char entry list"
  cursor :: nat

definition createHistory :: "string \<Rightarrow> history" where
  "createHistory initial = \<lparr>base = initial, entries = [], cursor = 0\<rparr>"

definition reset :: "history \<Rightarrow> string \<Rightarrow> history" where
  "reset h text = h\<lparr>base := text, entries := [], cursor := 0\<rparr>"

text \<open>\<open>Math.min(selBefore?.start ?? -1, selAfter?.start ?? MAX_SAFE_INTEGER)\<close>, or -1 when negative.\<close>

definition hint_of :: "selection option \<Rightarrow> selection option \<Rightarrow> int" where
  "hint_of sb sa =
     (let hint = min (case sb of None \<Rightarrow> -1 | Some s \<Rightarrow> sel_start s)
                     (case sa of None \<Rightarrow> 9007199254740991 | Some s \<Rightarrow> sel_start s)
      in if hint \<ge> 0 then hint else -1)"

text \<open>Extending the open run in place.\<close>

definition extend_run :: "char entry \<Rightarrow> char edit \<Rightarrow> int \<Rightarrow> selection option \<Rightarrow> char entry" where
  "extend_run l d now sa =
     (if ed_removed l = []
      then l\<lparr>ed_inserted := ed_inserted l @ ed_inserted d\<rparr>
      else l\<lparr>ed_at := ed_at d, ed_removed := ed_removed d @ ed_removed l\<rparr>)
     \<lparr>time := now, selAfter := sa\<rparr>"

text \<open>Folding the oldest entry into the base once the stack is too deep.\<close>

definition fold_oldest :: "history \<Rightarrow> history" where
  "fold_oldest h =
     (if length (entries h) > MAX_DEPTH
      then (case entries h of
              [] \<Rightarrow> h
            | oldest # es \<Rightarrow> h\<lparr>base := apply_edit oldest (base h), entries := es, cursor := length es\<rparr>)
      else h)"

definition record_edit ::
  "history \<Rightarrow> string \<Rightarrow> string \<Rightarrow> selection option \<Rightarrow> selection option \<Rightarrow> bool \<Rightarrow> int \<Rightarrow> history" where
  "record_edit h before after sb sa atom now =
     (if before = after then h
      else let d = diff before after (hint_of sb sa)
      in if ed_removed d = [] \<and> ed_inserted d = [] then h
      else let es = (if cursor h < length (entries h) then take (cursor h) (entries h) else entries h);
               l = (if es = [] then None else Some (last es))
      in if shouldCoalesce l d now atom
         then h\<lparr>entries := butlast es @ [extend_run (last es) d now sa]\<rparr>
         else let es' = es @ [\<lparr>ed_at = ed_at d, ed_removed = ed_removed d, ed_inserted = ed_inserted d,
                               selBefore = sb, selAfter = sa, time = now, atomic = atom\<rparr>]
              in fold_oldest (h\<lparr>entries := es', cursor := length es'\<rparr>))"

definition undo :: "history \<Rightarrow> string \<Rightarrow> (history \<times> string \<times> selection option) option" where
  "undo h current =
     (if cursor h = 0 then None
      else let e = entries h ! (cursor h - 1)
           in Some (h\<lparr>cursor := cursor h - 1\<rparr>, revert_edit e current, selBefore e))"

definition redo :: "history \<Rightarrow> string \<Rightarrow> (history \<times> string \<times> selection option) option" where
  "redo h current =
     (if cursor h \<ge> length (entries h) then None
      else let e = entries h ! cursor h
           in Some (h\<lparr>cursor := cursor h + 1\<rparr>, apply_edit e current, selAfter e))"

definition breakRun :: "history \<Rightarrow> history" where
  "breakRun h =
     (if entries h = [] then h
      else h\<lparr>entries := butlast (entries h) @ [(last (entries h))\<lparr>atomic := True\<rparr>]\<rparr>)"

definition canUndo :: "history \<Rightarrow> bool" where "canUndo h \<longleftrightarrow> cursor h > 0"
definition canRedo :: "history \<Rightarrow> bool" where "canRedo h \<longleftrightarrow> cursor h < length (entries h)"
definition depth :: "history \<Rightarrow> nat" where "depth h = length (entries h)"

section \<open>A diff is an exact patch\<close>

definition fits :: "('c, 'z) edit_scheme \<Rightarrow> 'c list \<Rightarrow> bool" where
  "fits e t \<longleftrightarrow> ed_at e + length (ed_removed e) \<le> length t \<and>
     slice t (ed_at e) (ed_at e + length (ed_removed e)) = ed_removed e"

definition is_patch :: "('c, 'z) edit_scheme \<Rightarrow> 'c list \<Rightarrow> 'c list \<Rightarrow> bool" where
  "is_patch e before after \<longleftrightarrow> fits e before \<and> apply_edit e before = after"

lemma fits_iff:
  "fits e t \<longleftrightarrow> (\<exists>p s. t = p @ ed_removed e @ s \<and> length p = ed_at e)"
proof
  assume f: "fits e t"
  let ?j = "ed_at e + length (ed_removed e)"
  have "t = take (ed_at e) t @ slice t (ed_at e) ?j @ drop ?j t"
    using take_slice_drop[of "ed_at e" ?j t] by simp
  with f show "\<exists>p s. t = p @ ed_removed e @ s \<and> length p = ed_at e"
    by (intro exI[of _ "take (ed_at e) t"] exI[of _ "drop ?j t"]) (auto simp: fits_def)
qed (auto simp: fits_def slice_def)

lemma apply_edit_split:
  "length p = ed_at e \<Longrightarrow> apply_edit e (p @ ed_removed e @ s) = p @ ed_inserted e @ s"
  by (simp add: apply_edit_def)

lemma revert_edit_split:
  "length p = ed_at e \<Longrightarrow> revert_edit e (p @ ed_inserted e @ s) = p @ ed_removed e @ s"
  by (simp add: revert_edit_def)

lemma revert_apply: "fits e t \<Longrightarrow> revert_edit e (apply_edit e t) = t"
  by (auto simp: fits_iff apply_edit_split revert_edit_split)

lemma is_patchI:
  "before = p @ ed_removed e @ s \<Longrightarrow> after = p @ ed_inserted e @ s \<Longrightarrow> length p = ed_at e \<Longrightarrow>
   is_patch e before after"
  by (auto simp: is_patch_def fits_iff apply_edit_split)

lemma is_patchE:
  assumes "is_patch e before after"
  obtains p s where "before = p @ ed_removed e @ s" "after = p @ ed_inserted e @ s" "length p = ed_at e"
  using assms by (auto simp: is_patch_def fits_iff apply_edit_split)

lemma scan_prefix_spec:
  assumes "start \<le> mx" "mx \<le> length before" "mx \<le> length after"
    and "take start before = take start after"
  shows "let r = scan_prefix before after start mx in
           start \<le> r \<and> r \<le> mx \<and> take r before = take r after \<and>
           (r < mx \<longrightarrow> before ! r \<noteq> after ! r)"
  using assms
proof (induction before after start mx rule: scan_prefix.induct)
  case (1 before after start mx)
  show ?case
  proof (cases "start < mx \<and> before ! start = after ! start")
    case True
    with 1 have "take (Suc start) before = take (Suc start) after"
      by (simp add: take_Suc_conv_app_nth)
    with True 1 show ?thesis
      by (auto simp: scan_prefix.simps[of before after start mx] Let_def)
  qed (use 1 in \<open>auto simp: scan_prefix.simps[of before after start mx] Let_def\<close>)
qed

lemma drop_pred_eq:
  assumes "0 < i" "i \<le> length xs" "0 < j" "j \<le> length ys"
    and "xs ! (i - 1) = ys ! (j - 1)" and "drop i xs = drop j ys"
  shows "drop (i - 1) xs = drop (j - 1) ys"
proof -
  have "drop (i - 1) xs = xs ! (i - 1) # drop i xs" "drop (j - 1) ys = ys ! (j - 1) # drop j ys"
    using assms(1-4) by (simp_all add: Cons_nth_drop_Suc[symmetric])
  with assms show ?thesis by simp
qed

lemma scan_suffix_spec:
  assumes "start \<le> endBefore" "start \<le> endAfter" "endBefore \<le> length before" "endAfter \<le> length after"
    and "drop endBefore before = drop endAfter after"
  shows "let (eb, ea) = scan_suffix before after start endBefore endAfter in
           start \<le> eb \<and> start \<le> ea \<and> eb \<le> endBefore \<and> ea \<le> endAfter \<and>
           drop eb before = drop ea after \<and>
           (start < eb \<and> start < ea \<longrightarrow> before ! (eb - 1) \<noteq> after ! (ea - 1))"
  using assms
proof (induction before after start endBefore endAfter rule: scan_suffix.induct)
  case (1 before after start eb ea)
  show ?case
  proof (cases "start < eb \<and> start < ea \<and> before ! (eb - 1) = after ! (ea - 1)")
    case True
    with 1 have dr: "drop (eb - 1) before = drop (ea - 1) after"
      by (intro drop_pred_eq) auto
    have "let (eb', ea') = scan_suffix before after start (eb - 1) (ea - 1) in
        start \<le> eb' \<and> start \<le> ea' \<and> eb' \<le> eb - 1 \<and> ea' \<le> ea - 1 \<and>
        drop eb' before = drop ea' after \<and>
        (start < eb' \<and> start < ea' \<longrightarrow> before ! (eb' - 1) \<noteq> after ! (ea' - 1))"
      by (rule "1.IH") (use True "1.prems" dr in auto)
    then show ?thesis
      unfolding scan_suffix.simps[of before after start eb ea] if_P[OF True]
      by (auto split: prod.splits)
  qed (use 1 in \<open>auto simp: scan_suffix.simps[of before after start eb ea]\<close>)
qed

text \<open>What the two scans give together: a common prefix, a common suffix, and maximality.\<close>

lemma exactDiff_split:
  fixes before after :: "'c list"
  defines "d \<equiv> exactDiff before after"
  shows "\<exists>p s. before = p @ ed_removed d @ s \<and> after = p @ ed_inserted d @ s \<and> length p = ed_at d \<and>
     (ed_removed d \<noteq> [] \<and> ed_inserted d \<noteq> [] \<longrightarrow>
        hd (ed_removed d) \<noteq> hd (ed_inserted d) \<and> last (ed_removed d) \<noteq> last (ed_inserted d))"
proof -
  let ?mx = "min (length before) (length after)"
  let ?r = "scan_prefix before after 0 ?mx"
  obtain eb ea where sc: "scan_suffix before after ?r (length before) (length after) = (eb, ea)"
    by fastforce
  have p: "?r \<le> ?mx" "take ?r before = take ?r after" "?r < ?mx \<longrightarrow> before ! ?r \<noteq> after ! ?r"
    using scan_prefix_spec[of 0 ?mx before after] by (auto simp: Let_def)
  have s: "?r \<le> eb" "?r \<le> ea" "eb \<le> length before" "ea \<le> length after"
    "drop eb before = drop ea after" "?r < eb \<and> ?r < ea \<longrightarrow> before ! (eb - 1) \<noteq> after ! (ea - 1)"
    using scan_suffix_spec[of ?r "length before" "length after" before after] p(1) sc by auto
  have d: "d = \<lparr>ed_at = ?r, ed_removed = slice before ?r eb, ed_inserted = slice after ?r ea\<rparr>"
    unfolding d_def exactDiff_def Let_def sc by simp
  have b: "before = take ?r before @ slice before ?r eb @ drop eb before"
    using take_slice_drop[OF s(1), of before] by simp
  have a: "after = take ?r before @ slice after ?r ea @ drop eb before"
    using take_slice_drop[OF s(2), of after] p(2) s(5) by simp
  have m: "hd (slice before ?r eb) \<noteq> hd (slice after ?r ea) \<and>
           last (slice before ?r eb) \<noteq> last (slice after ?r ea)"
    if ne: "slice before ?r eb \<noteq> []" "slice after ?r ea \<noteq> []"
  proof -
    from ne have lt: "?r < eb" "?r < ea"
      by (auto simp: slice_def)
    with s p(3) show ?thesis
      by (auto simp: slice_def hd_drop_conv_nth last_conv_nth)
  qed
  show ?thesis
    unfolding d using a b m p(1) by (intro exI[of _ "take ?r before"] exI[of _ "drop eb before"]) auto
qed

lemma exactDiff_patch: "is_patch (exactDiff before after) before after"
  using exactDiff_split[of before after] by (auto intro: is_patchI)

lemma hintedDiff_patch:
  assumes h: "hintedDiff before after hint = Some d"
  shows "is_patch d before after"
proof -
  define lo where "lo = min (min hint (length before)) (length after) - HINT_WINDOW"
  define hb where "hb = min (length before) (hint + HINT_WINDOW)"
  define ha where "ha = nat (int hb + (int (length after) - int (length before)))"
  let ?d = "exactDiff (substring before lo hb) (substring after lo ha)"
  note h' = h[unfolded hintedDiff_def Let_def, folded lo_def hb_def, folded ha_def]
  from h' have pre: "substring before 0 lo = substring after 0 lo"
    and bnd: "int lo \<le> int hb + (int (length after) - int (length before))"
    and post: "drop hb before = drop ha after" and d: "d = ?d\<lparr>ed_at := lo + ed_at ?d\<rparr>"
    by (simp_all split: if_splits)
  have le: "lo \<le> hb" "lo \<le> ha" "lo \<le> length before"
    using bnd by (auto simp: lo_def hb_def ha_def)
  obtain p s where w: "substring before lo hb = p @ ed_removed ?d @ s"
      "substring after lo ha = p @ ed_inserted ?d @ s" "length p = ed_at ?d"
    using exactDiff_patch is_patchE by blast
  have "before = take lo before @ (p @ ed_removed ?d @ s) @ drop hb before"
    using take_slice_drop[OF le(1), of before] w(1) le(1) by (simp add: substring_slice)
  moreover have "after = take lo before @ (p @ ed_inserted ?d @ s) @ drop hb before"
    using take_slice_drop[OF le(2), of after] w(2) le pre post by (simp add: substring_slice)
  ultimately show ?thesis
    unfolding d using w(3) le(3)
    by (intro is_patchI[where p = "take lo before @ p" and s = "s @ drop hb before"]) auto
qed

lemma diff_patch: "is_patch (diff before after hint) before after"
  by (auto simp: diff_def exactDiff_patch hintedDiff_patch split: option.splits)

lemma diff_fits: "fits (diff before after hint) before"
  and apply_diff: "apply_edit (diff before after hint) before = after"
  using diff_patch[of before after hint] by (auto simp: is_patch_def)

lemma diff_nonempty:
  "before \<noteq> after \<Longrightarrow> \<not> (ed_removed (diff before after hint) = [] \<and> ed_inserted (diff before after hint) = [])"
  using diff_patch[of before after hint] by (auto elim!: is_patchE)

section \<open>The stack replays to the document\<close>

definition replay :: "string \<Rightarrow> char entry list \<Rightarrow> string" where
  "replay t es = fold apply_edit es t"

fun chain :: "string \<Rightarrow> char entry list \<Rightarrow> bool" where
  "chain t [] = True"
| "chain t (e # es) = (fits e t \<and> chain (apply_edit e t) es)"

text \<open>The invariant between the stack and the text in the editor.\<close>

definition hist_ok :: "history \<Rightarrow> string \<Rightarrow> bool" where
  "hist_ok h text \<longleftrightarrow> chain (base h) (entries h) \<and> cursor h \<le> length (entries h) \<and>
     length (entries h) \<le> MAX_DEPTH \<and> text = replay (base h) (take (cursor h) (entries h))"

lemma replay_simps [simp]:
  "replay t [] = t" "replay t (e # es) = replay (apply_edit e t) es"
  "replay t (es @ fs) = replay (replay t es) fs"
  by (simp_all add: replay_def)

lemma chain_append [simp]: "chain t (es @ fs) \<longleftrightarrow> chain t es \<and> chain (replay t es) fs"
  by (induction es arbitrary: t) auto

lemma chain_take: "chain t es \<Longrightarrow> chain t (take n es)"
  by (metis append_take_drop_id chain_append)

lemma chain_nth: "chain t es \<Longrightarrow> n < length es \<Longrightarrow> fits (es ! n) (replay t (take n es))"
  by (metis chain.simps(2) chain_append id_take_nth_drop)

lemma replay_take_Suc:
  "n < length es \<Longrightarrow> replay t (take (Suc n) es) = apply_edit (es ! n) (replay t (take n es))"
  by (simp add: take_Suc_conv_app_nth)

text \<open>Extending a run composes the two edits it stands for.\<close>

lemma shouldCoalesce_cases:
  assumes "shouldCoalesce (Some l) d now atom"
  shows "(ed_removed l = [] \<and> ed_removed d = [] \<and> ed_at d = ed_at l + length (ed_inserted l)) \<or>
         (ed_inserted l = [] \<and> ed_removed l \<noteq> [] \<and> ed_inserted d = [] \<and>
          ed_at d + length (ed_removed d) = ed_at l)"
  using assms by (auto simp: shouldCoalesce_def Let_def split: if_splits)

lemma extend_run_patch:
  assumes c: "shouldCoalesce (Some l) d now atom"
    and l: "is_patch l t u" and d: "is_patch d u v"
  shows "is_patch (extend_run l d now sa) t v"
proof -
  obtain p s where l': "t = p @ ed_removed l @ s" "u = p @ ed_inserted l @ s" "length p = ed_at l"
    using l by (rule is_patchE)
  obtain q r where d': "u = q @ ed_removed d @ r" "v = q @ ed_inserted d @ r" "length q = ed_at d"
    using d by (rule is_patchE)
  from shouldCoalesce_cases[OF c] show ?thesis
  proof (elim disjE conjE)
    assume i: "ed_removed l = []" "ed_removed d = []" "ed_at d = ed_at l + length (ed_inserted l)"
    then have "q = p @ ed_inserted l" "r = s"
      using l' d' append_eq_append_conv[of q "p @ ed_inserted l" r s] by auto
    with i l' d' show ?thesis
      by (intro is_patchI[where p = p and s = s]) (auto simp: extend_run_def)
  next
    assume i: "ed_inserted l = []" "ed_removed l \<noteq> []" "ed_inserted d = []"
      "ed_at d + length (ed_removed d) = ed_at l"
    then have "p = q @ ed_removed d" "r = s"
      using l' d' append_eq_append_conv[of "q @ ed_removed d" p r s] by auto
    with i l' d' show ?thesis
      by (intro is_patchI[where p = q and s = s]) (auto simp: extend_run_def)
  qed
qed

lemma fold_oldest_ok:
  assumes "chain (base h) (entries h)" "cursor h = length (entries h)"
    "length (entries h) \<le> Suc MAX_DEPTH" "t = replay (base h) (entries h)"
  shows "hist_ok (fold_oldest h) t"
proof (cases "entries h")
  case Nil
  with assms show ?thesis by (simp add: fold_oldest_def hist_ok_def)
next
  case (Cons e es)
  with assms show ?thesis by (auto simp: fold_oldest_def hist_ok_def)
qed

text \<open>The entries that are still applied once the undone ones are dropped.\<close>

definition applied :: "history \<Rightarrow> char entry list" where
  "applied h = take (cursor h) (entries h)"

lemma truncated_eq_applied:
  "cursor h \<le> length (entries h) \<Longrightarrow>
   (if cursor h < length (entries h) then take (cursor h) (entries h) else entries h) = applied h"
  by (simp add: applied_def)

definition coalesces :: "history \<Rightarrow> string \<Rightarrow> string \<Rightarrow> selection option \<Rightarrow> selection option \<Rightarrow> bool \<Rightarrow> int \<Rightarrow> bool" where
  "coalesces h before after sb sa atom now \<longleftrightarrow>
     shouldCoalesce (if applied h = [] then None else Some (last (applied h)))
       (diff before after (hint_of sb sa)) now atom"

lemma coalesces_nonempty: "coalesces h b a sb sa atom now \<Longrightarrow> applied h \<noteq> []"
  by (auto simp: coalesces_def shouldCoalesce_def)

text \<open>The two outcomes of recording a change, over the applied entries.\<close>

lemma record_edit_push:
  assumes "cursor h \<le> length (entries h)" "before \<noteq> after" "\<not> coalesces h before after sb sa atom now"
  shows "\<exists>e. is_patch e before after \<and>
     record_edit h before after sb sa atom now =
       fold_oldest (h\<lparr>entries := applied h @ [e], cursor := Suc (length (applied h))\<rparr>)"
proof -
  let ?d = "diff before after (hint_of sb sa)"
  let ?e = "\<lparr>ed_at = ed_at ?d, ed_removed = ed_removed ?d, ed_inserted = ed_inserted ?d,
             selBefore = sb, selAfter = sa, time = now, atomic = atom\<rparr>"
  have "is_patch ?e before after"
    using diff_patch[of before after "hint_of sb sa"]
    by (simp add: is_patch_def fits_def apply_edit_def)
  with assms diff_nonempty[OF assms(2)] show ?thesis
    by (intro exI[of _ ?e])
       (auto simp: record_edit_def Let_def truncated_eq_applied coalesces_def)
qed

lemma record_edit_extend:
  assumes "cursor h \<le> length (entries h)" "before \<noteq> after" "coalesces h before after sb sa atom now"
  shows "record_edit h before after sb sa atom now =
    h\<lparr>entries := butlast (applied h) @
       [extend_run (last (applied h)) (diff before after (hint_of sb sa)) now sa]\<rparr>"
  using assms diff_nonempty[OF assms(2), of "hint_of sb sa"] coalesces_nonempty[OF assms(3)]
  by (auto simp add: record_edit_def Let_def truncated_eq_applied coalesces_def)

lemma record_edit_same [simp]: "record_edit h t t sb sa atom now = h"
  by (simp add: record_edit_def)

section \<open>Every operation keeps the invariant\<close>

lemma hist_okD:
  assumes "hist_ok h t"
  shows "chain (base h) (entries h)" "cursor h \<le> length (entries h)" "length (entries h) \<le> MAX_DEPTH"
    "t = replay (base h) (applied h)" "chain (base h) (applied h)" "length (applied h) \<le> MAX_DEPTH"
    "length (applied h) = cursor h"
  using assms by (auto simp: hist_ok_def applied_def chain_take)

lemma createHistory_ok: "hist_ok (createHistory t) t"
  by (simp add: hist_ok_def createHistory_def)

lemma reset_ok: "hist_ok (reset h t) t"
  by (simp add: hist_ok_def reset_def)

lemma record_edit_ok:
  assumes ok: "hist_ok h before"
  shows "hist_ok (record_edit h before after sb sa atom now) after"
proof (cases "before = after")
  case True
  with ok show ?thesis by simp
next
  case ne: False
  note H = hist_okD[OF ok]
  show ?thesis
  proof (cases "coalesces h before after sb sa atom now")
    case False
    obtain e where e: "is_patch e before after" and r: "record_edit h before after sb sa atom now =
        fold_oldest (h\<lparr>entries := applied h @ [e], cursor := Suc (length (applied h))\<rparr>)"
      using record_edit_push[OF H(2) ne False] by blast
    show ?thesis
      unfolding r by (rule fold_oldest_ok) (use H e in \<open>auto simp: is_patch_def\<close>)
  next
    case True
    let ?l = "last (applied h)" and ?p = "butlast (applied h)"
    have sp: "applied h = ?p @ [?l]"
      using coalesces_nonempty[OF True] by simp
    have l: "is_patch ?l (replay (base h) ?p) before"
      using H(4,5) sp by (metis chain.simps(2) chain_append is_patch_def replay_simps(1,2,3))
    have "shouldCoalesce (Some ?l) (diff before after (hint_of sb sa)) now atom"
      using True coalesces_nonempty[OF True] by (simp add: coalesces_def)
    from extend_run_patch[OF this l diff_patch]
    have e: "is_patch (extend_run ?l (diff before after (hint_of sb sa)) now sa) (replay (base h) ?p) after"
      (is "is_patch ?e _ _") .
    have "chain (base h) ?p"
      using H(5) sp by (metis chain_append)
    moreover have "length ?p + 1 = cursor h"
      using H(7) sp by (metis length_append_singleton Suc_eq_plus1)
    ultimately show ?thesis
      unfolding record_edit_extend[OF H(2) ne True] using e H(2,3)
      by (auto simp: hist_ok_def is_patch_def)
  qed
qed

lemma undo_ok:
  assumes ok: "hist_ok h t" and c: "cursor h = Suc n"
  shows "\<exists>h' t' s. undo h t = Some (h', t', s) \<and> hist_ok h' t' \<and> cursor h' = n \<and>
     entries h' = entries h \<and> base h' = base h \<and> (\<exists>s'. redo h' t' = Some (h, t, s'))"
proof -
  let ?e = "entries h ! n" and ?u = "replay (base h) (take n (entries h))"
  from ok c have n: "n < length (entries h)" and ch: "chain (base h) (entries h)"
    by (auto simp: hist_ok_def)
  have t: "t = apply_edit ?e ?u"
    using ok c n replay_take_Suc by (simp add: hist_ok_def)
  then have r: "revert_edit ?e t = ?u"
    using revert_apply[OF chain_nth[OF ch n]] by simp
  have "hist_ok (h\<lparr>cursor := n\<rparr>) ?u"
    using ok n by (simp add: hist_ok_def)
  moreover have "undo h t = Some (h\<lparr>cursor := n\<rparr>, ?u, selBefore ?e)"
    using c r by (simp add: undo_def Let_def)
  moreover have "redo (h\<lparr>cursor := n\<rparr>) ?u = Some (h, t, selAfter ?e)"
    using c n t by (simp add: redo_def Let_def)
  ultimately show ?thesis by auto
qed

lemma redo_ok:
  assumes ok: "hist_ok h t" and c: "cursor h < length (entries h)"
  shows "\<exists>h' t' s. redo h t = Some (h', t', s) \<and> hist_ok h' t' \<and> cursor h' = Suc (cursor h) \<and>
     entries h' = entries h \<and> base h' = base h \<and> (\<exists>s'. undo h' t' = Some (h, t, s'))"
proof -
  let ?e = "entries h ! cursor h"
  from ok have ch: "chain (base h) (entries h)" and t: "t = replay (base h) (take (cursor h) (entries h))"
    by (auto simp: hist_ok_def)
  have r: "revert_edit ?e (apply_edit ?e t) = t"
    unfolding t by (rule revert_apply[OF chain_nth[OF ch c]])
  have "hist_ok (h\<lparr>cursor := Suc (cursor h)\<rparr>) (apply_edit ?e t)"
    using ok c by (simp add: hist_ok_def replay_take_Suc)
  moreover have "redo h t = Some (h\<lparr>cursor := Suc (cursor h)\<rparr>, apply_edit ?e t, selAfter ?e)"
    using c by (simp add: redo_def Let_def)
  moreover have "undo (h\<lparr>cursor := Suc (cursor h)\<rparr>) (apply_edit ?e t) = Some (h, t, selBefore ?e)"
    using r by (simp add: undo_def Let_def)
  ultimately show ?thesis by auto
qed

lemma undo_SomeD: "undo h t = Some (h', t', s) \<Longrightarrow> \<exists>n. cursor h = Suc n"
  by (cases "cursor h") (auto simp: undo_def)

lemma redo_SomeD: "redo h t = Some (h', t', s) \<Longrightarrow> cursor h < length (entries h)"
  by (auto simp: redo_def split: if_splits)

lemma chain_close_last:
  "chain t (es @ [e\<lparr>atomic := b\<rparr>]) = chain t (es @ [e])"
  by (simp add: fits_def)

lemma replay_close_last:
  "replay t (es @ [e\<lparr>atomic := b\<rparr>]) = replay t (es @ [e])"
  by (simp add: apply_edit_def)

lemma breakRun_ok:
  assumes ok: "hist_ok h t"
  shows "hist_ok (breakRun h) t"
proof (cases "entries h = []")
  case True
  with ok show ?thesis by (simp add: breakRun_def)
next
  case False
  then obtain es e where es: "entries h = es @ [e]" by (cases "entries h" rule: rev_cases) auto
  then have b: "breakRun h = h\<lparr>entries := es @ [e\<lparr>atomic := True\<rparr>]\<rparr>"
    by (simp add: breakRun_def)
  have "replay (base h) (take (cursor h) (es @ [e\<lparr>atomic := True\<rparr>])) =
        replay (base h) (take (cursor h) (es @ [e]))"
    by (cases "cursor h \<le> length es") (auto simp: replay_close_last simp del: replay_simps)
  with ok es show ?thesis
    unfolding b hist_ok_def by (auto simp: chain_close_last simp del: chain_append replay_simps)
qed

section \<open>The abstract history: the documents and a position\<close>

text \<open>
  What the stack stands for: the documents it can show, oldest first, and which of them
  is on screen. The three operations on it are what a person expects of undo.
\<close>

fun docs_from :: "string \<Rightarrow> char entry list \<Rightarrow> string list" where
  "docs_from t [] = [t]"
| "docs_from t (e # es) = t # docs_from (apply_edit e t) es"

definition documents :: "history \<Rightarrow> string list" where
  "documents h = docs_from (base h) (entries h)"

definition timeline :: "history \<Rightarrow> string list \<times> nat" where
  "timeline h = (documents h, cursor h)"

text \<open>A new step: the undone documents go, and the oldest one when there are too many.\<close>

definition spec_push :: "string list \<times> nat \<Rightarrow> string \<Rightarrow> string list \<times> nat" where
  "spec_push tl_i after =
     (let ds = take (Suc (snd tl_i)) (fst tl_i) @ [after]
      in if length ds > Suc MAX_DEPTH then (tl ds, length ds - 2) else (ds, length ds - 1))"

text \<open>A continued run: the document on screen is replaced.\<close>

definition spec_extend :: "string list \<times> nat \<Rightarrow> string \<Rightarrow> string list \<times> nat" where
  "spec_extend tl_i after = (take (snd tl_i) (fst tl_i) @ [after], snd tl_i)"

lemma length_docs_from [simp]: "length (docs_from t es) = Suc (length es)"
  by (induction es arbitrary: t) auto

lemma docs_from_snoc: "docs_from t (es @ [e]) = docs_from t es @ [replay t (es @ [e])]"
  by (induction es arbitrary: t) auto

lemma take_docs_from: "n \<le> length es \<Longrightarrow> take (Suc n) (docs_from t es) = docs_from t (take n es)"
proof (induction es arbitrary: t n)
  case (Cons e es)
  then show ?case by (cases n) auto
qed simp

lemma docs_from_nth: "n \<le> length es \<Longrightarrow> docs_from t es ! n = replay t (take n es)"
proof (induction es arbitrary: t n)
  case (Cons e es)
  then show ?case by (cases n) auto
qed simp

lemma documents_cursor: "hist_ok h t \<Longrightarrow> documents h ! cursor h = t"
  by (simp add: documents_def hist_ok_def docs_from_nth)

lemma timeline_fold_oldest:
  assumes "cursor h = length (entries h)"
  shows "timeline (fold_oldest h) =
    (if length (documents h) > Suc MAX_DEPTH then (tl (documents h), length (documents h) - 2)
     else (documents h, length (documents h) - 1))"
  using assms by (cases "entries h") (auto simp: timeline_def documents_def fold_oldest_def)

lemma timeline_push:
  assumes ok: "hist_ok h before" and ne: "before \<noteq> after"
    and c: "\<not> coalesces h before after sb sa atom now"
  shows "timeline (record_edit h before after sb sa atom now) = spec_push (timeline h) after"
proof -
  note H = hist_okD[OF ok]
  obtain e where e: "is_patch e before after" and r: "record_edit h before after sb sa atom now =
      fold_oldest (h\<lparr>entries := applied h @ [e], cursor := Suc (length (applied h))\<rparr>)"
    using record_edit_push[OF H(2) ne c] by blast
  have a: "replay (base h) (applied h @ [e]) = after"
    using e H(4) by (simp add: is_patch_def)
  have "documents (h\<lparr>entries := applied h @ [e], cursor := Suc (length (applied h))\<rparr>) =
        take (Suc (cursor h)) (documents h) @ [after]"
    using a H(2) by (simp add: documents_def docs_from_snoc take_docs_from applied_def del: replay_simps)
  then show ?thesis
    unfolding r by (subst timeline_fold_oldest) (auto simp: spec_push_def timeline_def Let_def)
qed

lemma timeline_extend:
  assumes ok: "hist_ok h before" and ne: "before \<noteq> after"
    and c: "coalesces h before after sb sa atom now"
  shows "timeline (record_edit h before after sb sa atom now) = spec_extend (timeline h) after"
proof -
  note H = hist_okD[OF ok]
  let ?e = "extend_run (last (applied h)) (diff before after (hint_of sb sa)) now sa"
  let ?h' = "record_edit h before after sb sa atom now"
  obtain k where k: "cursor h = Suc k"
    using coalesces_nonempty[OF c] H(7) by (cases "cursor h") auto
  have r: "?h' = h\<lparr>entries := butlast (applied h) @ [?e]\<rparr>"
    by (rule record_edit_extend[OF H(2) ne c])
  have b: "butlast (applied h) = take k (entries h)"
    using k H(2) by (simp add: applied_def butlast_take)
  have "after = documents ?h' ! cursor ?h'"
    using documents_cursor[OF record_edit_ok[OF ok]] by metis
  also have "\<dots> = replay (base h) (take k (entries h) @ [?e])"
    using k H(2) by (simp add: r b documents_def docs_from_nth del: replay_simps)
  finally have a: "replay (base h) (take k (entries h) @ [?e]) = after" by simp
  have "documents ?h' = take (Suc k) (documents h) @ [after]"
    using k H(2) a by (simp add: r b documents_def docs_from_snoc take_docs_from del: replay_simps)
  then show ?thesis
    using k by (simp add: timeline_def spec_extend_def r)
qed

section \<open>The contract of an undo stack\<close>

text \<open>
  What the editor relies on: recording keeps the stack in step with the text, and undo
  and redo are inverse steps that exist exactly while there is something to undo or redo.
\<close>

locale undo_stack =
  fixes push :: "'h \<Rightarrow> 't \<Rightarrow> 't \<Rightarrow> 'm \<Rightarrow> 'h"
    and bwd :: "'h \<times> 't \<Rightarrow> ('h \<times> 't) option"
    and fwd :: "'h \<times> 't \<Rightarrow> ('h \<times> 't) option"
    and ok :: "'h \<Rightarrow> 't \<Rightarrow> bool"
    and past :: "'h \<Rightarrow> nat"
    and future :: "'h \<Rightarrow> nat"
  assumes push_ok: "ok h t \<Longrightarrow> ok (push h t t' m) t'"
    and bwd_none: "ok h t \<Longrightarrow> past h = 0 \<Longrightarrow> bwd (h, t) = None"
    and bwd_some: "ok h t \<Longrightarrow> past h = Suc n \<Longrightarrow>
      \<exists>h' t'. bwd (h, t) = Some (h', t') \<and> ok h' t' \<and> past h' = n \<and>
        future h' = Suc (future h) \<and> fwd (h', t') = Some (h, t)"
    and fwd_none: "ok h t \<Longrightarrow> future h = 0 \<Longrightarrow> fwd (h, t) = None"
    and fwd_some: "ok h t \<Longrightarrow> future h = Suc n \<Longrightarrow>
      \<exists>h' t'. fwd (h, t) = Some (h', t') \<and> ok h' t' \<and> future h' = n \<and>
        past h' = Suc (past h) \<and> bwd (h', t') = Some (h, t)"
begin

lemma backs_then_fwds:
  "ok h t \<Longrightarrow> n \<le> past h \<Longrightarrow>
   \<exists>h' t'. iter_opt bwd n (h, t) = Some (h', t') \<and> ok h' t' \<and> past h' = past h - n \<and>
     future h' = future h + n \<and> iter_opt fwd n (h', t') = Some (h, t)"
proof (induction n arbitrary: h t)
  case (Suc n)
  then obtain p where p: "past h = Suc p" by (cases "past h") auto
  obtain h1 t1 where one: "bwd (h, t) = Some (h1, t1)" "ok h1 t1" "past h1 = p"
      "future h1 = Suc (future h)" "fwd (h1, t1) = Some (h, t)"
    using bwd_some[OF Suc.prems(1) p] by blast
  obtain h2 t2 where two: "iter_opt bwd n (h1, t1) = Some (h2, t2)" "ok h2 t2"
      "past h2 = past h1 - n" "future h2 = future h1 + n" "iter_opt fwd n (h2, t2) = Some (h1, t1)"
    using Suc.IH[OF one(2)] Suc.prems(2) p one(3) by auto
  have "iter_opt fwd (Suc n) (h2, t2) = Some (h, t)"
    using two(5) one(5) by (simp only: iter_opt_Suc_last) simp
  moreover have "iter_opt bwd (Suc n) (h, t) = Some (h2, t2)"
    using one(1) two(1) by simp
  ultimately show ?case using two one p Suc.prems(2) by auto
qed simp

lemma backs_exhausted: "ok h t \<Longrightarrow> past h < n \<Longrightarrow> iter_opt bwd n (h, t) = None"
proof (induction n arbitrary: h t)
  case (Suc n)
  show ?case
  proof (cases "past h")
    case 0
    with bwd_none[OF Suc.prems(1)] show ?thesis by simp
  next
    case (Suc p)
    obtain h1 t1 where "bwd (h, t) = Some (h1, t1)" "ok h1 t1" "past h1 = p"
      using bwd_some[OF Suc.prems(1) Suc] by blast
    with Suc.IH[of h1 t1] Suc.prems(2) Suc show ?thesis by simp
  qed
qed simp

end

text \<open>
  A stack that also says which documents it holds: undo and redo move the position and
  leave the documents alone.
\<close>

locale undo_stack_view = undo_stack push bwd fwd ok past future
  for push :: "'h \<Rightarrow> 't \<Rightarrow> 't \<Rightarrow> 'm \<Rightarrow> 'h"
    and bwd :: "'h \<times> 't \<Rightarrow> ('h \<times> 't) option"
    and fwd :: "'h \<times> 't \<Rightarrow> ('h \<times> 't) option"
    and ok :: "'h \<Rightarrow> 't \<Rightarrow> bool"
    and past :: "'h \<Rightarrow> nat"
    and future :: "'h \<Rightarrow> nat" +
  fixes docs :: "'h \<Rightarrow> 't list"
  assumes docs_now: "ok h t \<Longrightarrow> docs h ! past h = t"
    and docs_bwd: "bwd (h, t) = Some (h', t') \<Longrightarrow> docs h' = docs h"
    and docs_fwd: "fwd (h, t) = Some (h', t') \<Longrightarrow> docs h' = docs h"
begin

lemma docs_backs: "iter_opt bwd n (h, t) = Some (h', t') \<Longrightarrow> docs h' = docs h"
proof (induction n arbitrary: h t)
  case (Suc n)
  then obtain h1 t1 where "bwd (h, t) = Some (h1, t1)" "iter_opt bwd n (h1, t1) = Some (h', t')"
    by (auto split: bind_splits)
  with Suc.IH[of h1 t1] docs_bwd show ?case by simp
qed simp

lemma backs_show_document:
  assumes "ok h t" "n \<le> past h"
  shows "\<exists>h' t'. iter_opt bwd n (h, t) = Some (h', t') \<and> t' = docs h ! (past h - n) \<and>
     iter_opt fwd n (h', t') = Some (h, t)"
proof -
  obtain h' t' where b: "iter_opt bwd n (h, t) = Some (h', t')" "ok h' t'" "past h' = past h - n"
      "iter_opt fwd n (h', t') = Some (h, t)"
    using backs_then_fwds[OF assms] by blast
  with docs_now[OF b(2)] docs_backs[OF b(1)] show ?thesis by auto
qed

end

definition undo_text :: "history \<times> string \<Rightarrow> (history \<times> string) option" where
  "undo_text s = map_option (\<lambda>(h, t, sel). (h, t)) (undo (fst s) (snd s))"

definition redo_text :: "history \<times> string \<Rightarrow> (history \<times> string) option" where
  "redo_text s = map_option (\<lambda>(h, t, sel). (h, t)) (redo (fst s) (snd s))"

interpretation us: undo_stack
  "\<lambda>h t t' (sb, sa, atom, now). record_edit h t t' sb sa atom now"
  undo_text redo_text hist_ok cursor "\<lambda>h. length (entries h) - cursor h"
proof (unfold_locales, goal_cases)
  case (1 h t t' m)
  then show ?case by (auto simp: record_edit_ok split: prod.split)
next
  case (2 h t)
  then show ?case by (simp add: undo_text_def undo_def)
next
  case (3 h t n)
  then obtain h' t' s s' where u: "undo h t = Some (h', t', s)" "hist_ok h' t'" "cursor h' = n"
      "entries h' = entries h" "redo h' t' = Some (h, t, s')"
    using undo_ok by blast
  moreover have "cursor h \<le> length (entries h)" using 3 by (simp add: hist_ok_def)
  ultimately show ?case using 3 by (auto simp: undo_text_def redo_text_def)
next
  case (4 h t)
  then show ?case by (simp add: redo_text_def redo_def hist_ok_def)
next
  case (5 h t n)
  then obtain h' t' s s' where u: "redo h t = Some (h', t', s)" "hist_ok h' t'"
      "cursor h' = Suc (cursor h)" "entries h' = entries h" "undo h' t' = Some (h, t, s')"
    using redo_ok[of h t] by fastforce
  then show ?case using 5 by (auto simp: undo_text_def redo_text_def)
qed

interpretation uv: undo_stack_view
  "\<lambda>h t t' (sb, sa, atom, now). record_edit h t t' sb sa atom now"
  undo_text redo_text hist_ok cursor "\<lambda>h. length (entries h) - cursor h" documents
proof (unfold_locales, goal_cases)
  case (1 h t)
  then show ?case by (rule documents_cursor)
qed (auto simp: documents_def undo_text_def redo_text_def undo_def redo_def Let_def split: if_splits)

section \<open>An editing session\<close>

text \<open>
  The editor drives the history with the text it shows: each change is recorded from the
  text as it was to the text as it is, and undo and redo replace the text by their answer.
\<close>

inductive editor_step :: "history \<times> string \<Rightarrow> history \<times> string \<Rightarrow> bool" where
  typed: "editor_step (h, t) (record_edit h t t' sb sa atom now, t')"
| undone: "undo h t = Some (h', t', s) \<Longrightarrow> editor_step (h, t) (h', t')"
| redone: "redo h t = Some (h', t', s) \<Longrightarrow> editor_step (h, t) (h', t')"
| broken: "editor_step (h, t) (breakRun h, t)"
| replaced: "editor_step (h, t) (reset h t', t')"

inductive_cases editor_stepE: "editor_step (h, t) (h', t')"

inductive editor_reach :: "history \<times> string \<Rightarrow> bool" where
  opened: "editor_reach (createHistory t, t)"
| stepped: "editor_reach s \<Longrightarrow> editor_step s s' \<Longrightarrow> editor_reach s'"

lemma undo_keeps_ok: "undo h t = Some (h', t', s) \<Longrightarrow> hist_ok h t \<Longrightarrow> hist_ok h' t'"
  using undo_SomeD undo_ok by fastforce

lemma redo_keeps_ok: "redo h t = Some (h', t', s) \<Longrightarrow> hist_ok h t \<Longrightarrow> hist_ok h' t'"
  using redo_SomeD redo_ok by fastforce

lemma editor_step_ok: "editor_step (h, t) (h', t') \<Longrightarrow> hist_ok h t \<Longrightarrow> hist_ok h' t'"
  by (elim editor_stepE) (auto simp: record_edit_ok breakRun_ok reset_ok intro: undo_keeps_ok redo_keeps_ok)

lemma editor_reach_ok: "editor_reach s \<Longrightarrow> hist_ok (fst s) (snd s)"
proof (induction rule: editor_reach.induct)
  case (stepped s s')
  then show ?case using editor_step_ok[of "fst s" "snd s" "fst s'" "snd s'"] by simp
qed (simp add: createHistory_ok)

section \<open>Properties\<close>

text \<open>
  C1. The diff the history records is an exact patch: whatever the caret hint, applying it
  to the text before gives the text after, and reverting it there gives the text before.
\<close>

theorem diff_exact:
  fixes before after :: "'c list"
  shows "apply_edit (diff before after hint) before = after \<and>
    revert_edit (diff before after hint) after = before"
  using apply_diff[of before after hint] revert_apply[OF diff_fits, of before after hint] by simp

text \<open>
  In every state an editing session reaches, the bounded stack replays from its base
  to the text on screen, the cursor is inside it and it holds at most 300 entries.
\<close>

theorem session_replays:
  assumes "editor_reach (h, t)"
  shows "replay (base h) (take (cursor h) (entries h)) = t \<and> chain (base h) (entries h) \<and>
    cursor h \<le> length (entries h) \<and> length (entries h) \<le> 300"
  using editor_reach_ok[OF assms] by (simp add: hist_ok_def MAX_DEPTH_def)

theorem session_replays_witness:
  "replay ''ab'' (take 1 (entries (record_edit (createHistory ''ab'') ''ab'' ''axb'' None None False 0))) = ''axb''"
proof -
  have "editor_reach (record_edit (createHistory ''ab'') ''ab'' ''axb'' None None False 0, ''axb'')"
    (is "editor_reach (?h, _)")
    by (rule editor_reach.stepped[OF editor_reach.opened editor_step.typed])
  note r = session_replays[OF this]
  have "base ?h = ''ab''" "cursor ?h = 1"
    by code_simp+
  with r show ?thesis by simp
qed

text \<open>
  Undo walks back through the documents the stack holds and redo walks forward through
  the same ones: after \<open>n\<close> undos, as many as there are steps, the text is the document \<open>n\<close>
  places earlier, and \<open>n\<close> redos restore both the text and the stack; one undo more fails.
\<close>

theorem undo_redo_walk:
  assumes "editor_reach (h, t)"
  shows "\<forall>n. (n \<le> cursor h \<longrightarrow>
      (\<exists>h' t'. iter_opt undo_text n (h, t) = Some (h', t') \<and> t' = documents h ! (cursor h - n) \<and>
         iter_opt redo_text n (h', t') = Some (h, t))) \<and>
    (cursor h < n \<longrightarrow> iter_opt undo_text n (h, t) = None)"
  using editor_reach_ok[OF assms] uv.backs_show_document us.backs_exhausted by simp

theorem undo_redo_walk_witness:
  "\<exists>h' t'. iter_opt undo_text 1 (record_edit (createHistory ''ab'') ''ab'' ''axb'' None None False 0, ''axb'')
     = Some (h', t') \<and> t' = ''ab''"
proof -
  have "editor_reach (record_edit (createHistory ''ab'') ''ab'' ''axb'' None None False 0, ''axb'')"
    (is "editor_reach (?h, _)")
    by (rule editor_reach.stepped[OF editor_reach.opened editor_step.typed])
  note w = undo_redo_walk[OF this, THEN spec[of _ 1], THEN conjunct1]
  have "cursor ?h = 1" "documents ?h ! 0 = ''ab''"
    by code_simp+
  with w show ?thesis by auto
qed

text \<open>
  Recording refines the abstract history: a change that continues the open run replaces
  the document on screen, any other change drops the undone documents and appends the new
  one, discarding the oldest beyond the bound; recording no change is no step at all.
\<close>

theorem record_refines_timeline:
  assumes "hist_ok h before"
  shows "timeline (record_edit h before after sb sa atom now) =
    (if before = after then timeline h
     else if coalesces h before after sb sa atom now then spec_extend (timeline h) after
     else spec_push (timeline h) after)"
  using timeline_push[OF assms] timeline_extend[OF assms] by simp

theorem record_refines_timeline_witness:
  "timeline (record_edit (record_edit (createHistory ''a'') ''a'' ''ab'' None None False 0)
      ''ab'' ''abc'' None None False 100) = ([''a'', ''abc''], 1)"
proof -
  let ?h = "record_edit (createHistory ''a'') ''a'' ''ab'' None None False 0"
  have ok: "hist_ok ?h ''ab''"
    by (rule record_edit_ok[OF createHistory_ok])
  have c: "coalesces ?h ''ab'' ''abc'' None None False 100"
    and t: "spec_extend (timeline ?h) ''abc'' = ([''a'', ''abc''], 1)"
    by code_simp+
  show ?thesis
    unfolding record_refines_timeline[OF ok] using c t by simp
qed

end
