(* ===== verification/Text_Search.thy ===== *)
theory Text_Search
  imports Lens_Prelude "HOL-Library.Sublist"
begin

text \<open>
  Find and replace over the editor buffer, \<open>frontend/src/mibeditor/search.js\<close>. Code units
  are of any type \<open>'c\<close>; \<open>toLowerCase\<close> is the letter-by-letter mapping \<open>lc\<close> of the Unicode
  tables, an argument, since one code unit may become several (U+0130 becomes two). The
  search loops may not end (an empty needle), so they carry fuel and answer an option; the
  fuel given is proved enough. The lemmas show that the fast and the slow path compute one
  greedy scan, and that replacing by offsets is the recursive replacement.
\<close>

section \<open>The search\<close>

definition MAX_MATCHES :: nat where "MAX_MATCHES = 2000"

definition toLowerCase :: "('c \<Rightarrow> 'c list) \<Rightarrow> 'c list \<Rightarrow> 'c list" where
  "toLowerCase lc s = concat (map lc s)"

text \<open>\<open>out.length < limit\<close>; \<open>None\<close> is the limit \<open>Infinity\<close>.\<close>

definition below :: "nat \<Rightarrow> nat option \<Rightarrow> bool" where
  "below n limit = (case limit of None \<Rightarrow> True | Some l \<Rightarrow> n < l)"

fun indexOf_loop ::
  "nat \<Rightarrow> 'c list \<Rightarrow> 'c list \<Rightarrow> nat option \<Rightarrow> nat option \<Rightarrow> nat list \<Rightarrow> nat list option" where
  "indexOf_loop 0 hay needle limit pos out = None"
| "indexOf_loop (Suc fuel) hay needle limit pos out =
     (case pos of
        None \<Rightarrow> Some out
      | Some i \<Rightarrow>
          if below (length out) limit
          then indexOf_loop fuel hay needle limit (indexOf hay needle (i + length needle)) (out @ [i])
          else Some out)"

fun compare_loop ::
  "nat \<Rightarrow> ('c \<Rightarrow> 'c list) \<Rightarrow> 'c list \<Rightarrow> nat \<Rightarrow> 'c list \<Rightarrow> nat option \<Rightarrow> nat \<Rightarrow> nat list \<Rightarrow> nat list option" where
  "compare_loop 0 lc hay termLength needle limit i out = None"
| "compare_loop (Suc fuel) lc hay termLength needle limit i out =
     (if i + termLength \<le> length hay \<and> below (length out) limit
      then if toLowerCase lc (slice hay i (i + termLength)) = needle
           then compare_loop fuel lc hay termLength needle limit (i + termLength) (out @ [i])
           else compare_loop fuel lc hay termLength needle limit (i + 1) out
      else Some out)"

definition findMatches ::
  "('c \<Rightarrow> 'c list) \<Rightarrow> 'c list \<Rightarrow> 'c list \<Rightarrow> nat option \<Rightarrow> bool \<Rightarrow> nat list option" where
  "findMatches lc hay trm limit caseSensitive =
     (if trm = [] then Some []
      else if caseSensitive
      then indexOf_loop (length hay + 2) hay trm limit (indexOf hay trm 0) []
      else let lower = toLowerCase lc hay; needle = toLowerCase lc trm
      in if length lower = length hay
         then indexOf_loop (length hay + 2) lower needle limit (indexOf lower needle 0) []
         else compare_loop (length hay + 2) lc hay (length trm) needle limit 0 [])"

definition findAllMatches :: "('c \<Rightarrow> 'c list) \<Rightarrow> 'c list \<Rightarrow> 'c list \<Rightarrow> bool \<Rightarrow> nat list option" where
  "findAllMatches lc hay trm caseSensitive = findMatches lc hay trm None caseSensitive"

fun replace_loop :: "'c list \<Rightarrow> nat \<Rightarrow> 'c list \<Rightarrow> nat list \<Rightarrow> nat \<Rightarrow> 'c list \<Rightarrow> 'c list" where
  "replace_loop text w replacement [] la out = out @ drop la text"
| "replace_loop text w replacement (i # ms) la out =
     replace_loop text w replacement ms (i + w) (out @ slice text la i @ replacement)"

definition applyReplaceAll :: "'c list \<Rightarrow> nat list \<Rightarrow> nat \<Rightarrow> 'c list \<Rightarrow> 'c list" where
  "applyReplaceAll text ms termLength replacement =
     (if ms = [] \<or> termLength = 0 then text else replace_loop text termLength replacement ms 0 [])"

text \<open>JavaScript's \<open>%\<close> takes the sign of the dividend.\<close>

definition js_rem :: "int \<Rightarrow> int \<Rightarrow> int" where
  "js_rem a b = sgn a * (\<bar>a\<bar> mod \<bar>b\<bar>)"

definition nextIndex :: "int \<Rightarrow> int \<Rightarrow> bool \<Rightarrow> int" where
  "nextIndex current tot backwards =
     (if tot \<le> 0 then 0
      else js_rem (js_rem (current + (if backwards then -1 else 1)) tot + tot) tot)"

section \<open>The greedy scan\<close>

text \<open>
  The reference: positions \<open>i, i+1, \<dots>\<close> below \<open>n\<close>, left to right, where \<open>m\<close> holds, the scan
  going on \<open>w\<close> places after each.
\<close>

function greedy :: "(nat \<Rightarrow> bool) \<Rightarrow> nat \<Rightarrow> nat \<Rightarrow> nat \<Rightarrow> nat list" where
  "greedy m w n i =
     (if i < n \<and> 0 < w then (if m i then i # greedy m w n (i + w) else greedy m w n (i + 1)) else [])"
  by pat_completeness auto
termination by (relation "measure (\<lambda>(m, w, n, i). n - i)") auto

declare greedy.simps [simp del]

definition take_limit :: "nat option \<Rightarrow> 'a list \<Rightarrow> 'a list" where
  "take_limit limit xs = (case limit of None \<Rightarrow> xs | Some l \<Rightarrow> take l xs)"

lemma greedy_hit: "m i \<Longrightarrow> i < n \<Longrightarrow> 0 < w \<Longrightarrow> greedy m w n i = i # greedy m w n (i + w)"
  and greedy_miss: "\<not> m i \<Longrightarrow> greedy m w n i = greedy m w n (i + 1)"
  and greedy_end: "n \<le> i \<Longrightarrow> greedy m w n i = []"
  by (simp_all add: greedy.simps[of m w n i] greedy.simps[of m w n "Suc i"])

lemma greedy_none: "(\<And>j. i \<le> j \<Longrightarrow> j < n \<Longrightarrow> \<not> m j) \<Longrightarrow> greedy m w n i = []"
proof (induction "n - i" arbitrary: i)
  case (Suc d)
  then show ?case by (simp add: greedy_miss)
qed (simp add: greedy_end)

lemma greedy_skip:
  "(\<And>j. i \<le> j \<Longrightarrow> j < k \<Longrightarrow> \<not> m j) \<Longrightarrow> i \<le> k \<Longrightarrow> greedy m w n i = greedy m w n k"
proof (induction "k - i" arbitrary: i)
  case (Suc d)
  then show ?case by (simp add: greedy_miss)
qed simp

lemma greedy_idle: "\<not> (i < n \<and> 0 < w) \<Longrightarrow> greedy m w n i = []"
  unfolding greedy.simps[of m w n i] by (rule if_not_P)

lemma greedy_member: "p \<in> set (greedy m w n i) \<Longrightarrow> m p \<and> i \<le> p \<and> p < n"
proof (induction m w n i rule: greedy.induct)
  case (1 m w n i)
  then have i: "i < n" "0 < w"
    using greedy_idle[of i n w m] by fastforce+
  show ?case
  proof (cases "m i")
    case True
    with "1.prems" i consider "p = i" | "p \<in> set (greedy m w n (i + w))"
      by (auto simp: greedy_hit)
    then show ?thesis
      using "1.IH"(1) True i by cases auto
  next
    case False
    with "1.prems" have "p \<in> set (greedy m w n (i + 1))" by (simp add: greedy_miss)
    with "1.IH"(2) False i show ?thesis by simp
  qed
qed

lemma greedy_apart: "sorted_wrt (\<lambda>p q. p + w \<le> q) (greedy m w n i)"
proof (induction m w n i rule: greedy.induct)
  case (1 m w n i)
  show ?case
  proof (cases "i < n \<and> 0 < w")
    case True
    with 1 show ?thesis
      by (cases "m i") (auto simp: greedy_hit greedy_miss dest!: greedy_member)
  qed (simp add: greedy_idle)
qed

lemma greedy_complete:
  "0 < w \<Longrightarrow> m p \<Longrightarrow> i \<le> p \<Longrightarrow> p < n \<Longrightarrow> \<exists>q \<in> set (greedy m w n i). q \<le> p \<and> p < q + w"
proof (induction m w n i rule: greedy.induct)
  case (1 m w n i)
  then have i: "i < n \<and> 0 < w" by simp
  show ?case
  proof (cases "m i")
    case True
    show ?thesis
    proof (cases "p < i + w")
      case False
      with 1 True i have "\<exists>q \<in> set (greedy m w n (i + w)). q \<le> p \<and> p < q + w" by simp
      with True i show ?thesis by (auto simp: greedy_hit)
    qed (use True i 1 in \<open>auto simp: greedy_hit\<close>)
  next
    case False
    with 1 i have "i + 1 \<le> p" by (metis Suc_eq_plus1 Suc_leI le_neq_implies_less)
    with 1 i False show ?thesis by (simp add: greedy_miss)
  qed
qed

lemma greedy_cong: "(\<And>j. i \<le> j \<Longrightarrow> j < n \<Longrightarrow> m j = m' j) \<Longrightarrow> greedy m w n i = greedy m' w n i"
proof (induction m w n i rule: greedy.induct)
  case (1 m w n i)
  show ?case
  proof (cases "i < n \<and> 0 < w")
    case True
    with "1.prems" have mm: "m i = m' i" by simp
    with True 1 show ?thesis
      by (cases "m i") (simp_all add: greedy_hit greedy_miss)
  qed (simp add: greedy_idle)
qed

section \<open>The loops compute the greedy scan\<close>

definition take_rest :: "nat option \<Rightarrow> nat list \<Rightarrow> nat list \<Rightarrow> nat list" where
  "take_rest limit out xs = (case limit of None \<Rightarrow> xs | Some l \<Rightarrow> take (l - length out) xs)"

lemma take_rest_Nil [simp]: "take_rest limit out [] = []"
  "take_rest limit [] xs = take_limit limit xs"
  by (auto simp: take_rest_def take_limit_def split: option.splits)

lemma take_rest_stop: "\<not> below (length out) limit \<Longrightarrow> take_rest limit out xs = []"
  by (auto simp: take_rest_def below_def split: option.splits)

lemma take_rest_step:
  "below (length out) limit \<Longrightarrow> out @ take_rest limit out (x # xs) = (out @ [x]) @ take_rest limit (out @ [x]) xs"
  by (auto simp: take_rest_def below_def take_Cons' split: option.splits)

lemma indexOf_loop_greedy:
  assumes "needle \<noteq> []"
  shows "Suc (length hay) - i + 1 \<le> fuel \<Longrightarrow>
    indexOf_loop fuel hay needle limit (indexOf hay needle i) out =
      Some (out @ take_rest limit out (greedy (matches_at hay needle) (length needle) (length hay) i))"
proof (induction fuel arbitrary: i out)
  case (Suc fuel)
  let ?g = "greedy (matches_at hay needle) (length needle) (length hay)"
  show ?case
  proof (cases "indexOf hay needle i")
    case None
    then have "?g i = []"
      by (intro greedy_none) (auto simp: indexOf_def simp del: upt_Suc dest: find_upt_None)
    with None show ?thesis by simp
  next
    case (Some p)
    then have p: "i \<le> p" "p \<le> length hay" "matches_at hay needle p"
        "\<forall>j. i \<le> j \<and> j < p \<longrightarrow> \<not> matches_at hay needle j"
      using find_upt_Some[of "matches_at hay needle" i "Suc (length hay)" p] by (auto simp: indexOf_def)
    have "0 < length needle" using assms by simp
    with matches_at_bound[OF p(3) assms] have "p < length hay" by linarith
    with p assms have "?g i = p # ?g (p + length needle)"
      using greedy_skip[of i p "matches_at hay needle"] greedy_hit[of "matches_at hay needle" p] by simp
    moreover have "Suc (length hay) - (p + length needle) + 1 \<le> fuel"
      using Suc.prems p(1,2) assms by (cases needle) auto
    ultimately show ?thesis
      using Suc.IH[of "p + length needle" "out @ [p]"] Some
      by (cases "below (length out) limit")
         (simp_all add: take_rest_stop take_rest_step[simplified])
  qed
qed simp

definition folded_match :: "('c \<Rightarrow> 'c list) \<Rightarrow> 'c list \<Rightarrow> 'c list \<Rightarrow> nat \<Rightarrow> bool" where
  "folded_match lc hay trm i \<longleftrightarrow> i + length trm \<le> length hay \<and>
     toLowerCase lc (slice hay i (i + length trm)) = toLowerCase lc trm"

lemma compare_loop_greedy:
  assumes "trm \<noteq> []"
  shows "Suc (length hay) - i + 1 \<le> fuel \<Longrightarrow>
    compare_loop fuel lc hay (length trm) (toLowerCase lc trm) limit i out =
      Some (out @ take_rest limit out (greedy (folded_match lc hay trm) (length trm) (length hay) i))"
proof (induction fuel arbitrary: i out)
  case (Suc fuel)
  let ?m = "folded_match lc hay trm"
  let ?g = "greedy ?m (length trm) (length hay)"
  consider (stop) "\<not> below (length out) limit" | (past) "length hay < i + length trm"
    | (hit) "below (length out) limit" "?m i"
    | (miss) "below (length out) limit" "i + length trm \<le> length hay" "\<not> ?m i"
    by linarith
  then show ?case
  proof cases
    case stop
    then show ?thesis by (simp add: take_rest_stop)
  next
    case past
    then have "?g i = []" by (intro greedy_none) (auto simp: folded_match_def)
    with past show ?thesis by simp
  next
    case hit
    then have le: "i + length trm \<le> length hay"
      and eq: "toLowerCase lc (slice hay i (i + length trm)) = toLowerCase lc trm"
      by (simp_all add: folded_match_def)
    have "0 < length trm" using assms by simp
    with hit le have "?g i = i # ?g (i + length trm)" by (intro greedy_hit) linarith+
    moreover have "Suc (length hay) - (i + length trm) + 1 \<le> fuel"
      using Suc.prems assms le by (cases trm) auto
    ultimately show ?thesis
      using Suc.IH[of "i + length trm" "out @ [i]"] hit le eq
      by (simp add: take_rest_step[simplified])
  next
    case miss
    moreover have "Suc (length hay) - (i + 1) + 1 \<le> fuel"
      using Suc.prems miss assms by (cases trm) auto
    ultimately show ?thesis
      using Suc.IH[of "i + 1" out] by (simp add: folded_match_def greedy_miss)
  qed
qed simp

text \<open>Where folding keeps lengths, a match in the folded text is a folded match.\<close>

lemma toLowerCase_single:
  "\<forall>c \<in> set s. length (lc c) = 1 \<Longrightarrow> toLowerCase lc s = map (\<lambda>c. hd (lc c)) s"
  by (induction s) (auto simp: toLowerCase_def length_Suc_conv)

lemma length_toLowerCase_ge: "\<forall>c. lc c \<noteq> [] \<Longrightarrow> length s \<le> length (toLowerCase lc s)"
proof (induction s)
  case (Cons c s)
  then show ?case by (cases "lc c") (auto simp: toLowerCase_def)
qed (simp add: toLowerCase_def)

lemma same_length_single:
  "\<forall>c. lc c \<noteq> [] \<Longrightarrow> length (toLowerCase lc s) = length s \<Longrightarrow> \<forall>c \<in> set s. length (lc c) = 1"
proof (induction s)
  case (Cons c s)
  have "length (lc c) \<ge> 1" using Cons.prems(1) by (cases "lc c") auto
  moreover have "length s \<le> length (toLowerCase lc s)"
    using Cons.prems(1) by (rule length_toLowerCase_ge)
  moreover have "length (lc c) + length (toLowerCase lc s) = Suc (length s)"
    using Cons.prems(2) by (simp add: toLowerCase_def)
  ultimately have "length (lc c) = 1" "length (toLowerCase lc s) = length s" by auto
  with Cons.IH[OF Cons.prems(1)] show ?case by simp
qed simp

lemma map_slice: "map f (slice xs i j) = slice (map f xs) i j"
  by (simp add: slice_def take_map drop_map)

lemma set_slice: "set (slice xs i j) \<subseteq> set xs"
  by (auto simp: slice_def dest: in_set_takeD in_set_dropD)

lemma fast_match:
  assumes "\<forall>c. lc c \<noteq> []" "length (toLowerCase lc hay) = length hay" "\<forall>c \<in> set trm. length (lc c) = 1"
    "trm \<noteq> []"
  shows "matches_at (toLowerCase lc hay) (toLowerCase lc trm) i = folded_match lc hay trm i"
proof -
  let ?f = "\<lambda>c. hd (lc c)"
  have h: "\<forall>c \<in> set hay. length (lc c) = 1" using same_length_single[OF assms(1,2)] .
  then have s: "\<forall>c \<in> set (slice hay i (i + length trm)). length (lc c) = 1"
    using set_slice by fastforce
  have "folded_match lc hay trm i \<longleftrightarrow> i + length trm \<le> length hay \<and>
      slice (map ?f hay) i (i + length trm) = map ?f trm"
    by (simp add: folded_match_def toLowerCase_single[OF s] toLowerCase_single[OF assms(3)] map_slice)
  then show ?thesis
    using matches_at_bound[of "map ?f hay" "map ?f trm" i] assms(4)
    by (auto simp: toLowerCase_single[OF h] toLowerCase_single[OF assms(3)] matches_at_def slice_def)
qed

section \<open>Replacing\<close>

text \<open>The reference: replace at the head where the term stands there, else go one place on.\<close>

function replace_ref :: "'c list \<Rightarrow> 'c list \<Rightarrow> 'c list \<Rightarrow> 'c list" where
  "replace_ref trm r text =
     (if text = [] \<or> trm = [] then text
      else if prefix trm text then r @ replace_ref trm r (drop (length trm) text)
      else hd text # replace_ref trm r (tl text))"
  by pat_completeness auto
termination by (relation "measure (\<lambda>(t, r, x). length x)") auto

declare replace_ref.simps [simp del]

lemma replace_ref_hit:
  "prefix trm text \<Longrightarrow> trm \<noteq> [] \<Longrightarrow> replace_ref trm r text = r @ replace_ref trm r (drop (length trm) text)"
  by (subst replace_ref.simps) auto

lemma replace_ref_miss:
  "\<not> prefix trm text \<Longrightarrow> text \<noteq> [] \<Longrightarrow> replace_ref trm r text = hd text # replace_ref trm r (tl text)"
  by (subst replace_ref.simps) auto

lemma replace_ref_Nil [simp]: "replace_ref trm r [] = []"
  by (subst replace_ref.simps) simp

lemma matches_at_prefix: "matches_at hay needle i \<longleftrightarrow> prefix needle (drop i hay)"
  by (auto simp: matches_at_def prefix_def) (metis append_take_drop_id)

lemma slice_snoc: "la \<le> i \<Longrightarrow> i < length xs \<Longrightarrow> slice xs la (Suc i) = slice xs la i @ [xs ! i]"
  by (simp add: slice_def Suc_diff_le take_Suc_conv_app_nth)

lemma replace_loop_greedy:
  assumes "trm \<noteq> []"
  shows "la \<le> i \<Longrightarrow> i \<le> length text \<Longrightarrow>
    replace_loop text (length trm) r (greedy (matches_at text trm) (length trm) (length text) i) la out =
      out @ slice text la i @ replace_ref trm r (drop i text)"
proof (induction "length text - i" arbitrary: i la out rule: less_induct)
  case less
  let ?g = "greedy (matches_at text trm) (length trm) (length text)"
  have w: "0 < length trm" using assms by simp
  consider "i = length text" | (hit) "i < length text" "matches_at text trm i"
    | (miss) "i < length text" "\<not> matches_at text trm i"
    using less.prems by linarith
  then show ?case
  proof cases
    case 1
    with less.prems show ?thesis by (simp add: greedy_end)
  next
    case hit
    then have b: "i + length trm \<le> length text" using matches_at_bound assms by blast
    have "replace_loop text (length trm) r (?g (i + length trm)) (i + length trm) (out @ slice text la i @ r) =
        (out @ slice text la i @ r) @ slice text (i + length trm) (i + length trm) @
          replace_ref trm r (drop (i + length trm) text)"
      by (rule less.hyps) (use hit b w in linarith)+
    with hit w assms show ?thesis
      by (simp add: greedy_hit replace_ref_hit matches_at_prefix add.commute)
  next
    case miss
    have "replace_loop text (length trm) r (?g (Suc i)) la out =
        out @ slice text la (Suc i) @ replace_ref trm r (drop (Suc i) text)"
      by (rule less.hyps) (use miss less.prems in auto)
    with miss less.prems show ?thesis
      by (simp add: greedy_miss slice_snoc replace_ref_miss matches_at_prefix hd_drop_conv_nth drop_Suc tl_drop)
  qed
qed

lemma replace_ref_none: "greedy (matches_at text trm) (length trm) (length text) 0 = [] \<Longrightarrow> trm \<noteq> [] \<Longrightarrow>
  replace_ref trm r text = text"
  using replace_loop_greedy[of trm 0 0 "text" r "[]"] by simp

lemma findMatches_greedy_eq:
  assumes "trm \<noteq> []" and "\<forall>c. lc c \<noteq> []" and "\<forall>c \<in> set trm. length (lc c) = 1"
  shows "findMatches lc text trm limit cs =
    Some (take_limit limit (greedy (if cs then matches_at text trm else folded_match lc text trm)
      (length trm) (length text) 0))"
proof -
  have f: "greedy (matches_at (toLowerCase lc text) (toLowerCase lc trm)) (length trm) (length text) 0 =
      greedy (folded_match lc text trm) (length trm) (length text) 0"
    if "length (toLowerCase lc text) = length text"
    using fast_match[OF assms(2) that assms(3,1)] by (intro greedy_cong) simp
  have len: "length (toLowerCase lc trm) = length trm"
    using toLowerCase_single[OF assms(3)] by simp
  then have ne: "toLowerCase lc trm \<noteq> []" using assms(1) by (metis length_0_conv)
  consider (exact) "cs" | (fast) "\<not> cs" "length (toLowerCase lc text) = length text"
    | (slow) "\<not> cs" "length (toLowerCase lc text) \<noteq> length text" by blast
  then show ?thesis
  proof cases
    case exact
    with assms(1) indexOf_loop_greedy[OF assms(1), of "text" 0 "length text + 2" limit "[]"]
    show ?thesis by (simp add: findMatches_def)
  next
    case fast
    with assms(1) indexOf_loop_greedy[OF ne, of "toLowerCase lc text" 0 "length text + 2" limit "[]"]
    show ?thesis by (simp add: findMatches_def len f)
  next
    case slow
    with assms(1) compare_loop_greedy[OF assms(1), of "text" 0 "length text + 2" lc limit "[]"]
    show ?thesis by (simp add: findMatches_def)
  qed
qed

lemma findAllMatches_exact:
  "trm \<noteq> [] \<Longrightarrow> findAllMatches lc text trm True =
     Some (greedy (matches_at text trm) (length trm) (length text) 0)"
  using indexOf_loop_greedy[of trm "text" 0 "length text + 2" None "[]"]
  by (simp add: findAllMatches_def findMatches_def take_limit_def)

lemma js_rem_nonneg: "0 \<le> a \<Longrightarrow> 0 < b \<Longrightarrow> js_rem a b = a mod b"
  by (cases "a = 0") (simp_all add: js_rem_def)

lemma nextIndex_mod:
  assumes "0 \<le> current" "0 < tot"
  shows "nextIndex current tot backwards = (current + (if backwards then -1 else 1)) mod tot"
proof (cases "current = 0 \<and> backwards")
  case True
  have "js_rem (-1) tot = - (1 mod tot)"
    using assms(2) by (simp add: js_rem_def)
  with True assms(2) show ?thesis
    by (cases "tot = 1") (simp_all add: nextIndex_def js_rem_nonneg zmod_minus1)
next
  case False
  then have "0 \<le> current + (if backwards then -1 else 1)" using assms(1) by auto
  with assms(2) show ?thesis by (simp add: nextIndex_def js_rem_nonneg pos_mod_sign del: add_neg_numeral_special)
qed

section \<open>Properties\<close>

text \<open>
  A search returns, and both of its paths, the folded text and the slice by slice
  comparison, answer the same greedy left-to-right scan of the positions where the term
  stands, cut at the limit. Folding must not empty a letter, and must keep the length of
  each letter of the term.
\<close>

theorem findMatches_greedy:
  assumes "trm \<noteq> []" and "\<forall>c. lc c \<noteq> []" and "\<forall>c \<in> set trm. length (lc c) = 1"
  shows "findMatches lc text trm limit cs =
    Some (take_limit limit (greedy (if cs then matches_at text trm else folded_match lc text trm)
      (length trm) (length text) 0))"
  using assms by (rule findMatches_greedy_eq)

theorem findMatches_greedy_witness:
  "findMatches (\<lambda>c::nat. if c = 304 then [105, 775] else [c]) [304, 97, 97, 97] [97] (Some 2) False
     = Some [1, 2]"
proof -
  have g: "greedy (folded_match (\<lambda>c::nat. if c = 304 then [105, 775] else [c]) [304, 97, 97, 97] [97])
      (length [97 :: nat]) (length [304, 97, 97, 97 :: nat]) 0 = [1, 2, 3]"
    by code_simp
  show ?thesis
    by (subst findMatches_greedy) (use g in \<open>simp_all add: take_limit_def\<close>)
qed

text \<open>
  The matches are ascending and never overlap, each is a place where the term stands,
  and without a limit no occurrence is missed: every other one overlaps a match before it.
\<close>

theorem findAllMatches_complete:
  assumes "trm \<noteq> []" and "\<forall>c. lc c \<noteq> []" and "\<forall>c \<in> set trm. length (lc c) = 1"
    and found: "findAllMatches lc text trm cs = Some ms"
  shows "sorted_wrt (\<lambda>p q. p + length trm \<le> q) ms \<and>
    (\<forall>p \<in> set ms. if cs then matches_at text trm p else folded_match lc text trm p) \<and>
    (\<forall>p. (if cs then matches_at text trm p else folded_match lc text trm p) \<longrightarrow>
      (\<exists>q \<in> set ms. q \<le> p \<and> p < q + length trm))"
proof -
  let ?m = "if cs then matches_at text trm else folded_match lc text trm"
  have ms: "ms = greedy ?m (length trm) (length text) 0"
    using found findMatches_greedy_eq[OF assms(1-3)] by (simp add: findAllMatches_def take_limit_def)
  have b: "p < length text" if "?m p" for p
    using that matches_at_bound[of "text" trm p] assms(1)
    by (cases trm) (auto simp: folded_match_def split: if_splits)
  show ?thesis
    unfolding ms using greedy_apart[of "length trm" ?m] greedy_member[of _ ?m] greedy_complete[of "length trm" ?m]
      b assms(1) by (auto split: if_splits)
qed

theorem findAllMatches_complete_witness:
  "\<exists>q \<in> set [0, 2]. q \<le> (1::nat) \<and> 1 < q + length ''aa''"
proof -
  have f: "findAllMatches (\<lambda>c. [c]) ''aaaa'' ''aa'' True = Some [0, 2]"
    and m: "matches_at ''aaaa'' ''aa'' 1"
    by code_simp+
  have "\<forall>p. (if True then matches_at ''aaaa'' ''aa'' p else folded_match (\<lambda>c. [c]) ''aaaa'' ''aa'' p) \<longrightarrow>
      (\<exists>q \<in> set [0, 2]. q \<le> p \<and> p < q + length ''aa'')"
    by (rule findAllMatches_complete[OF _ _ _ f, THEN conjunct2, THEN conjunct2]) auto
  with m show ?thesis by simp
qed

lemma applyReplaceAll_ref:
  "\<exists>ms. findAllMatches lc text trm True = Some ms \<and>
     applyReplaceAll text ms (length trm) r = replace_ref trm r text"
proof (cases "trm = []")
  case True
  then show ?thesis
    by (subst replace_ref.simps) (simp add: findAllMatches_def findMatches_def applyReplaceAll_def)
next
  case False
  with replace_loop_greedy[OF False, of 0 0 "text" r "[]"] replace_ref_none[OF _ False, of "text" r]
  show ?thesis by (auto simp: findAllMatches_exact applyReplaceAll_def)
qed

text \<open>
  Replace-all by offsets is the recursive replacement: a case-sensitive search returns,
  and rebuilding the buffer from its offsets replaces each occurrence, left to right, once,
  never looking inside what was inserted.
\<close>

theorem replace_all_reference:
  "\<exists>ms. findAllMatches lc text trm True = Some ms \<and>
     applyReplaceAll text ms (length trm) r = replace_ref trm r text"
  by (rule applyReplaceAll_ref)

text \<open>
  Folding by length fails for the term: U+0130 folds to two code units, so a hit in the
  folded text is two long while \<open>applyReplaceAll\<close> is given the term's length, one, and the
  combining dot of the hit survives the replacement.
\<close>

theorem dotted_capital_term:
  "findAllMatches (\<lambda>c::nat. if c = 304 then [105, 775] else [c]) [105, 775, 120] [304] False = Some [0]
   \<and> applyReplaceAll [105, 775, 120 :: nat] [0] (length [304 :: nat]) [98] = [98, 775, 120]"
  by code_simp

end
