(* ===== verification/Text_Metrics.thy ===== *)
theory Text_Metrics
  imports Complex_Main Lens_Prelude
begin

text \<open>
  Positions inside the editor, \<open>frontend/src/mibeditor/metrics.js\<close>: visual columns with tabs,
  the index of line starts and its binary search, the word around an offset, and the pixel
  arithmetic in both directions. Pixel sizes are rational numbers, exact where the code
  has doubles; measuring a character's width is the browser's and is not modelled. The
  lemmas show that the binary search answers as the direct count does, and that a pixel
  position leads back to the character it was computed from.
\<close>

section \<open>Columns and lines\<close>

definition TAB_SIZE :: nat where "TAB_SIZE = 4"

definition NL :: char where "NL = CHR 0x0A"
definition TAB :: char where "TAB = CHR 0x09"

definition visual_step :: "nat \<Rightarrow> char \<Rightarrow> nat" where
  "visual_step visual c = (if c = TAB then visual + (TAB_SIZE - visual mod TAB_SIZE) else visual + 1)"

fun visual_scan :: "nat \<Rightarrow> string \<Rightarrow> nat" where
  "visual_scan visual [] = visual"
| "visual_scan visual (c # cs) = visual_scan (visual_step visual c) cs"

text \<open>\<open>n || 1\<close> for a number.\<close>

definition or_one :: "int \<Rightarrow> int" where "or_one n = (if n = 0 then 1 else n)"

definition visualColumn :: "string \<Rightarrow> int \<Rightarrow> nat" where
  "visualColumn lineText column =
     (let upto = max 0 (min (or_one column - 1) (int (length lineText)))
      in visual_scan 0 (take (nat upto) lineText))"

record pixels =
  px_x :: rat
  px_y :: rat

definition positionOf :: "string list \<Rightarrow> int \<Rightarrow> int \<Rightarrow> rat \<Rightarrow> rat \<Rightarrow> pixels" where
  "positionOf ls line column cw lh =
     (let i = nat (max 0 (or_one line - 1)); txt = (if i < length ls then ls ! i else [])
      in \<lparr>px_x = of_nat (visualColumn txt column) * cw, px_y = of_int (or_one line - 1) * lh\<rparr>)"

fun starts_loop :: "nat \<Rightarrow> string list \<Rightarrow> nat list" where
  "starts_loop offs [] = []"
| "starts_loop offs (l # ls) = offs # starts_loop (offs + length l + 1) ls"

definition lineStarts :: "string list \<Rightarrow> nat list" where
  "lineStarts ls = starts_loop 0 ls"

text \<open>The largest index whose start is not beyond the offset, by bisection.\<close>

function bisect :: "nat list \<Rightarrow> int \<Rightarrow> nat \<Rightarrow> nat \<Rightarrow> nat" where
  "bisect starts offset lo hi =
     (if lo < hi
      then let mid = (lo + hi + 1) div 2
           in if int (starts ! mid) \<le> offset then bisect starts offset mid hi
              else bisect starts offset lo (mid - 1)
      else lo)"
  by pat_completeness auto
termination by (relation "measure (\<lambda>(s, q, lo, hi). hi - lo)") auto

declare bisect.simps [simp del]

definition lineColumnFrom :: "nat list \<Rightarrow> int \<Rightarrow> int \<times> int" where
  "lineColumnFrom starts offset =
     (if offset \<le> 0 \<or> starts = [] then (1, 1)
      else let lo = bisect starts offset 0 (length starts - 1)
           in (int lo + 1, offset - int (starts ! lo) + 1))"

definition lineColumnAt :: "string \<Rightarrow> int \<Rightarrow> int \<times> int" where
  "lineColumnAt txt offset =
     (let ls = split_on NL (take (nat (max 0 offset)) txt)
      in (int (length ls), int (length (last ls)) + 1))"

section \<open>The word under the caret\<close>

text \<open>The class \<open>[A-Za-z0-9_-]\<close>.\<close>

definition is_alnum :: "char \<Rightarrow> bool" where
  "is_alnum c = (let n = of_char c :: nat in 48 \<le> n \<and> n \<le> 57 \<or> 65 \<le> n \<and> n \<le> 90 \<or> 97 \<le> n \<and> n \<le> 122)"

definition isPart :: "char \<Rightarrow> bool" where
  "isPart c \<longleftrightarrow> is_alnum c \<or> c = CHR ''_'' \<or> c = CHR ''-''"

fun word_start :: "string \<Rightarrow> nat \<Rightarrow> nat" where
  "word_start txt 0 = 0"
| "word_start txt (Suc i) = (if isPart (txt ! i) then word_start txt i else Suc i)"

function word_end :: "string \<Rightarrow> nat \<Rightarrow> nat" where
  "word_end txt i = (if i < length txt \<and> isPart (txt ! i) then word_end txt (Suc i) else i)"
  by pat_completeness auto
termination by (relation "measure (\<lambda>(t, i). length t - i)") auto

declare word_end.simps [simp del]

definition wordAt :: "string \<Rightarrow> int \<Rightarrow> string \<times> nat \<times> nat" where
  "wordAt txt offset =
     (let at0 = nat (max 0 (min offset (int (length txt))));
          s = word_start txt at0; e = word_end txt at0
      in (slice txt s e, s, e))"

section \<open>From pixels to an offset\<close>

fun col_scan :: "int \<Rightarrow> nat \<Rightarrow> nat \<Rightarrow> string \<Rightarrow> nat" where
  "col_scan target visual col [] = col"
| "col_scan target visual col (c # cs) =
     (if int visual < target then col_scan target (visual_step visual c) (col + 1) cs else col)"

text \<open>\<open>Math.round\<close> rounds halves up: the floor of \<open>x + 1/2\<close>.\<close>

definition offsetAt :: "string list \<Rightarrow> rat \<Rightarrow> rat \<Rightarrow> rat \<Rightarrow> rat \<Rightarrow> nat option" where
  "offsetAt ls px py cw lh =
     (let line = \<lfloor>py / lh\<rfloor>
      in if line < 0 \<or> line \<ge> int (length ls) then None
         else let target = \<lfloor>px / cw + 1 / 2\<rfloor>;
                  col = col_scan target 0 0 (ls ! nat line)
              in Some (sum_list (map (\<lambda>l. length l + 1) (take (nat line) ls)) + col))"

section \<open>The index of line starts\<close>

lemma length_starts_loop [simp]: "length (starts_loop b ls) = length ls"
  by (induction ls arbitrary: b) auto

lemma starts_loop_nth:
  "i < length ls \<Longrightarrow> starts_loop b ls ! i = b + sum_list (map (\<lambda>l. length l + 1) (take i ls))"
proof (induction ls arbitrary: b i)
  case (Cons l ls)
  then show ?case by (cases i) auto
qed simp

lemma starts_loop_ge: "x \<in> set (starts_loop b ls) \<Longrightarrow> b \<le> x"
  by (induction ls arbitrary: b) fastforce+

lemma starts_loop_sorted: "sorted_wrt (<) (starts_loop b ls)"
  by (induction ls arbitrary: b) (auto dest!: starts_loop_ge)

lemma bisect_spec:
  assumes "lo \<le> hi" "hi < length starts" "int (starts ! lo) \<le> offset" "sorted_wrt (<) starts"
    and "hi + 1 < length starts \<Longrightarrow> offset < int (starts ! (hi + 1))"
  shows "let r = bisect starts offset lo hi in lo \<le> r \<and> r \<le> hi \<and> int (starts ! r) \<le> offset \<and>
    (r + 1 < length starts \<longrightarrow> offset < int (starts ! (r + 1)))"
  using assms
proof (induction starts offset lo hi rule: bisect.induct)
  case (1 starts offset lo hi)
  show ?case
  proof (cases "lo < hi")
    case True
    define mid where "mid = (lo + hi + 1) div 2"
    have mid: "lo < mid" "mid \<le> hi" using True by (auto simp: mid_def)
    show ?thesis
    proof (cases "int (starts ! mid) \<le> offset")
      case t: True
      have "let r = bisect starts offset mid hi in mid \<le> r \<and> r \<le> hi \<and> int (starts ! r) \<le> offset \<and>
          (r + 1 < length starts \<longrightarrow> offset < int (starts ! (r + 1)))"
        by (rule "1.IH"(1)) (use True t mid "1.prems" in \<open>auto simp: mid_def\<close>)
      moreover have "bisect starts offset lo hi = bisect starts offset mid hi"
        using True t by (subst bisect.simps) (simp add: Let_def mid_def)
      ultimately show ?thesis using mid by (simp add: Let_def)
    next
      case f: False
      have "let r = bisect starts offset lo (mid - 1) in lo \<le> r \<and> r \<le> mid - 1 \<and> int (starts ! r) \<le> offset \<and>
          (r + 1 < length starts \<longrightarrow> offset < int (starts ! (r + 1)))"
        by (rule "1.IH"(2)) (use True f mid "1.prems" in \<open>auto simp: mid_def\<close>)
      moreover have "bisect starts offset lo hi = bisect starts offset lo (mid - 1)"
        using True f by (subst bisect.simps) (simp add: Let_def mid_def)
      ultimately show ?thesis using mid by (simp add: Let_def) linarith
    qed
  next
    case False
    then have "bisect starts offset lo hi = lo" by (subst bisect.simps) simp
    with 1 False show ?thesis by (simp add: Let_def)
  qed
qed

section \<open>Both resolvers find the line an offset is on\<close>

definition on_line :: "string \<Rightarrow> int \<Rightarrow> nat \<Rightarrow> bool" where
  "on_line txt offset k \<longleftrightarrow>
     (let starts = lineStarts (split_on NL txt)
      in k < length starts \<and> int (starts ! k) \<le> offset \<and>
         (k + 1 < length starts \<longrightarrow> offset < int (starts ! (k + 1))))"

lemma on_line_unique:
  assumes "on_line txt offset j" "on_line txt offset k"
  shows "j = k"
proof -
  let ?s = "lineStarts (split_on NL txt)"
  have mono: "a < b \<Longrightarrow> b < length ?s \<Longrightarrow> ?s ! a < ?s ! b" for a b
    using starts_loop_sorted sorted_wrt_nth_less unfolding lineStarts_def by blast
  have "\<not> a < b" if "on_line txt offset a" "on_line txt offset b" for a b
  proof
    assume ab: "a < b"
    with that have "offset < int (?s ! (a + 1))" "int (?s ! b) \<le> offset" "b < length ?s"
      by (auto simp: on_line_def Let_def)
    moreover have "?s ! (a + 1) \<le> ?s ! b"
      using ab mono[of "a + 1" b] \<open>b < length ?s\<close> by (cases "a + 1 = b") auto
    ultimately show False by linarith
  qed
  with assms show ?thesis by (metis linorder_neqE_nat)
qed

lemma split_take_start:
  assumes "ls \<noteq> []" "\<forall>l \<in> set ls. NL \<notin> set l" "offs \<le> length (join_with NL ls)"
  defines "ll \<equiv> split_on NL (take offs (join_with NL ls))"
  shows "length ll \<le> length ls \<and> starts_loop b ls ! (length ll - 1) + length (last ll) = b + offs \<and>
    (length ll < length ls \<longrightarrow> b + offs < starts_loop b ls ! length ll)"
  using assms(1-3) unfolding ll_def
proof (induction ls arbitrary: offs b)
  case (Cons l ls)
  have nl: "NL \<notin> set (take n l)" for n using Cons.prems(2) by (auto dest: in_set_takeD)
  show ?case
  proof (cases "ls = [] \<or> offs \<le> length l")
    case True
    then have t: "take offs (join_with NL (l # ls)) = take offs l" "offs \<le> length l"
      using Cons.prems(3) by (cases ls; auto simp: join_with_Cons)+
    then show ?thesis
      unfolding t split_on_plain[OF nl] by (cases ls) auto
  next
    case False
    then obtain n where n: "offs = length l + 1 + n" "ls \<noteq> []"
      by (metis add.commute add.left_commute less_iff_Suc_add linorder_not_le plus_1_eq_Suc)
    let ?ll = "split_on NL (take n (join_with NL ls))"
    have "take offs (join_with NL (l # ls)) = l @ NL # take n (join_with NL ls)"
      using n by (simp add: join_with_Cons)
    then have e: "split_on NL (take offs (join_with NL (l # ls))) = l # ?ll"
      using Cons.prems(2) by (simp add: split_on_append)
    have "length ?ll \<le> length ls \<and>
        starts_loop (b + length l + 1) ls ! (length ?ll - 1) + length (last ?ll) = b + length l + 1 + n \<and>
        (length ?ll < length ls \<longrightarrow> b + length l + 1 + n < starts_loop (b + length l + 1) ls ! length ?ll)"
      by (rule Cons.IH) (use n Cons.prems in \<open>auto simp: join_with_Cons\<close>)
    moreover obtain m where "length ?ll = Suc m" by (metis length_split_on)
    ultimately show ?thesis using n e by auto
  qed
qed simp

text \<open>What the editor asks of a resolver: the line an offset is on, and how far along it.\<close>

locale line_resolver =
  fixes locate :: "string \<Rightarrow> int \<Rightarrow> int \<times> int"
  assumes locate_on: "0 \<le> offset \<Longrightarrow> offset \<le> int (length txt) \<Longrightarrow>
    \<exists>k. on_line txt offset k \<and>
      locate txt offset = (int k + 1, offset - int (lineStarts (split_on NL txt) ! k) + 1)"
begin

lemma locate_unique:
  assumes "on_line txt offset k" "0 \<le> offset" "offset \<le> int (length txt)"
  shows "locate txt offset = (int k + 1, offset - int (lineStarts (split_on NL txt) ! k) + 1)"
  using locate_on[OF assms(2,3)] on_line_unique[OF assms(1)] by auto

lemma locate_bounds:
  assumes "0 \<le> offset" "offset \<le> int (length txt)" "locate txt offset = (line, column)"
  shows "1 \<le> line \<and> line \<le> int (length (split_on NL txt)) \<and> 1 \<le> column"
  using locate_on[OF assms(1,2)] assms(3) by (auto simp: on_line_def Let_def lineStarts_def)

lemma locate_inverse:
  assumes "0 \<le> offset" "offset \<le> int (length txt)" "locate txt offset = (line, column)"
  shows "int (lineStarts (split_on NL txt) ! nat (line - 1)) + column - 1 = offset"
  using locate_on[OF assms(1,2)] assms(3) by auto

end

interpretation direct: line_resolver lineColumnAt
proof
  fix q :: int and t :: string
  assume o: "0 \<le> q" "q \<le> int (length t)"
  have no: "\<forall>l \<in> set (split_on NL t). NL \<notin> set l" by (auto dest: split_on_no_sep)
  let ?ls = "split_on NL t" and ?ll = "split_on NL (take (nat q) t)"
  have s: "length ?ll \<le> length ?ls \<and> starts_loop 0 ?ls ! (length ?ll - 1) + length (last ?ll) = nat q \<and>
      (length ?ll < length ?ls \<longrightarrow> nat q < starts_loop 0 ?ls ! length ?ll)"
    using split_take_start[OF split_on_nonempty no, of "nat q" 0] o by simp
  obtain m where m: "length ?ll = Suc m" by (metis length_split_on)
  have "on_line t q m"
    using s m o by (auto simp: on_line_def Let_def lineStarts_def)
  moreover have "lineColumnAt t q = (int m + 1, q - int (lineStarts ?ls ! m) + 1)"
    using s m o by (auto simp: lineColumnAt_def Let_def lineStarts_def)
  ultimately show "\<exists>k. on_line t q k \<and>
      lineColumnAt t q = (int k + 1, q - int (lineStarts ?ls ! k) + 1)" by blast
qed

interpretation indexed: line_resolver "\<lambda>t. lineColumnFrom (lineStarts (split_on NL t))"
proof
  fix q :: int and t :: string
  assume o: "0 \<le> q" "q \<le> int (length t)"
  let ?s = "lineStarts (split_on NL t)"
  have ne: "0 < length ?s" by (simp add: lineStarts_def)
  have srt: "sorted_wrt (<) ?s" unfolding lineStarts_def by (rule starts_loop_sorted)
  have z: "?s ! 0 = 0" using ne by (simp add: lineStarts_def starts_loop_nth)
  let ?r = "bisect ?s q 0 (length ?s - 1)"
  have r: "let r = ?r in 0 \<le> r \<and> r \<le> length ?s - 1 \<and> int (?s ! r) \<le> q \<and>
      (r + 1 < length ?s \<longrightarrow> q < int (?s ! (r + 1)))"
    by (rule bisect_spec) (use o ne z srt in auto)
  then have "?r \<le> length ?s - 1" by (simp add: Let_def)
  with ne have "?r < length ?s" by linarith
  with r have on: "on_line t q ?r" by (simp add: on_line_def Let_def)
  show "\<exists>k. on_line t q k \<and>
      lineColumnFrom ?s q = (int k + 1, q - int (?s ! k) + 1)"
  proof (cases "q = 0")
    case True
    have "on_line t 0 0"
      using ne z sorted_wrt_nth_less[OF srt, of 0 1] by (auto simp: on_line_def Let_def)
    with True z show ?thesis by (intro exI[of _ 0]) (simp add: lineColumnFrom_def)
  next
    case False
    with on o ne show ?thesis by (intro exI[of _ ?r]) (auto simp: lineColumnFrom_def Let_def)
  qed
qed

section \<open>Words and pixels\<close>

lemma word_start_spec:
  "i \<le> length t \<Longrightarrow> word_start t i \<le> i \<and> (\<forall>k. word_start t i \<le> k \<and> k < i \<longrightarrow> isPart (t ! k)) \<and>
     (0 < word_start t i \<longrightarrow> \<not> isPart (t ! (word_start t i - 1)))"
proof (induction t i rule: word_start.induct)
  case (2 t i)
  then show ?case by (auto simp: less_Suc_eq)
qed simp

lemma word_end_spec:
  "i \<le> length t \<Longrightarrow> i \<le> word_end t i \<and> word_end t i \<le> length t \<and>
     (\<forall>k. i \<le> k \<and> k < word_end t i \<longrightarrow> isPart (t ! k)) \<and>
     (word_end t i < length t \<longrightarrow> \<not> isPart (t ! word_end t i))"
proof (induction t i rule: word_end.induct)
  case (1 t i)
  show ?case
  proof (cases "i < length t \<and> isPart (t ! i)")
    case True
    then have "word_end t i = word_end t (Suc i)" by (subst word_end.simps) simp
    moreover have "isPart (t ! k)" if "i \<le> k" "k < word_end t (Suc i)" for k
      using that True "1.IH" by (cases "k = i") auto
    ultimately show ?thesis using "1.IH" True by auto
  next
    case False
    then have "word_end t i = i" unfolding word_end.simps[of t i] by (rule if_not_P)
    with False "1.prems" show ?thesis by auto
  qed
qed

lemma visual_step_gt: "v < visual_step v c"
  using mod_less_divisor[of 4 v] by (simp add: visual_step_def TAB_SIZE_def) linarith

lemma visual_scan_append: "visual_scan v (xs @ ys) = visual_scan (visual_scan v xs) ys"
  by (induction xs arbitrary: v) auto

lemma visual_scan_ge: "v + length xs \<le> visual_scan v xs"
proof (induction xs arbitrary: v)
  case (Cons c cs)
  from Cons[of "visual_step v c"] visual_step_gt[of v c] show ?case by simp
qed simp

text \<open>Walking a line up to the visual column of a prefix stops at that prefix.\<close>

lemma col_scan_prefix:
  "col_scan (int (visual_scan v xs)) v col (xs @ ys) = col + length xs"
proof (induction xs arbitrary: v col)
  case Nil
  show ?case by (cases ys) auto
next
  case (Cons c cs)
  have "v < visual_scan (visual_step v c) cs"
    using visual_step_gt[of v c] visual_scan_ge[of "visual_step v c" cs] by linarith
  with Cons show ?case by simp
qed

lemma visualColumn_take:
  "1 \<le> column \<Longrightarrow> column \<le> int (length l) + 1 \<Longrightarrow>
   visualColumn l column = visual_scan 0 (take (nat (column - 1)) l)"
  by (simp add: visualColumn_def or_one_def min_def max_def)

section \<open>Properties\<close>

text \<open>
  C2. The binary search over the precomputed line starts answers, for every offset in the
  text, exactly the line and column that counting newlines up to the offset does.
\<close>

theorem lineColumnFrom_eq_lineColumnAt:
  assumes "0 \<le> q" "q \<le> int (length t)"
  shows "lineColumnFrom (lineStarts (split_on NL t)) q = lineColumnAt t q"
  using direct.locate_on[OF assms] indexed.locate_unique[OF _ assms] by auto

theorem lineColumnFrom_eq_lineColumnAt_witness:
  "lineColumnFrom (lineStarts (split_on NL [CHR ''a'', NL, CHR ''b''])) 3 = (2, 2)"
  by (subst lineColumnFrom_eq_lineColumnAt) (simp_all add: lineColumnAt_def NL_def)

text \<open>
  The position the editor shows leads back to the offset: the start of the reported
  line plus the column less one, and the line exists.
\<close>

theorem lineColumn_inverse:
  assumes "0 \<le> q" "q \<le> int (length t)" "lineColumnFrom (lineStarts (split_on NL t)) q = (line, column)"
  shows "int (lineStarts (split_on NL t) ! nat (line - 1)) + column - 1 = q \<and>
    1 \<le> line \<and> line \<le> int (length (split_on NL t)) \<and> 1 \<le> column"
  using indexed.locate_inverse[OF assms] indexed.locate_bounds[OF assms] by simp

theorem lineColumn_inverse_witness:
  "int (lineStarts (split_on NL [CHR ''a'', NL, CHR ''b'']) ! nat (2 - 1)) + 2 - 1 = 3"
proof -
  have "lineColumnFrom (lineStarts (split_on NL [CHR ''a'', NL, CHR ''b''])) 3 = (2, 2)"
    by code_simp
  from lineColumn_inverse[OF _ _ this] show ?thesis by simp
qed

text \<open>
  A pixel position computed for a place in the text, tabs included, is resolved back to
  exactly that place, for any character width and line height.
\<close>

theorem offsetAt_positionOf:
  assumes "1 \<le> line" "line \<le> int (length ls)" "1 \<le> column"
    "column \<le> int (length (ls ! nat (line - 1))) + 1" "0 < cw" "0 < lh"
  shows "offsetAt ls (px_x (positionOf ls line column cw lh)) (px_y (positionOf ls line column cw lh)) cw lh
    = Some (lineStarts ls ! nat (line - 1) + nat (column - 1))"
proof -
  let ?i = "nat (line - 1)" and ?n = "nat (column - 1)"
  let ?l = "ls ! ?i"
  have i: "?i < length ls" using assms(1,2) by linarith
  have n: "?n \<le> length ?l" using assms(3,4) by linarith
  have or1: "or_one line = line" using assms(1) by (simp add: or_one_def)
  have p: "positionOf ls line column cw lh =
      \<lparr>px_x = of_nat (visual_scan 0 (take ?n ?l)) * cw, px_y = of_int (line - 1) * lh\<rparr>"
    using i assms(1) visualColumn_take[OF assms(3,4)]
    by (simp add: positionOf_def or1 Let_def max_def)
  have y: "\<lfloor>of_int (line - 1) * lh / lh\<rfloor> = line - 1"
    using assms(6) by (metis floor_of_int less_irrefl nonzero_mult_div_cancel_right)
  have half: "\<lfloor>of_int k + 1 / 2 :: rat\<rfloor> = k" for k
    by linarith
  have x: "\<lfloor>of_nat (visual_scan 0 (take ?n ?l)) * cw / cw + 1 / 2\<rfloor> = int (visual_scan 0 (take ?n ?l))"
    using assms(5) half[of "int (visual_scan 0 (take ?n ?l))"] by simp
  have c: "col_scan (int (visual_scan 0 (take ?n ?l))) 0 0 ?l = ?n"
    using col_scan_prefix[of 0 "take ?n ?l" 0 "drop ?n ?l"] n by simp
  show ?thesis
    using assms(1,2) i
    unfolding offsetAt_def p pixels.simps y Let_def x c
    by (simp add: lineStarts_def starts_loop_nth)
qed

theorem offsetAt_positionOf_witness:
  "offsetAt [''ab'', TAB # ''c''] 12 10 3 10 = Some (3 + 1)"
proof -
  have "offsetAt [''ab'', TAB # ''c''] (px_x (positionOf [''ab'', TAB # ''c''] 2 2 3 10))
      (px_y (positionOf [''ab'', TAB # ''c''] 2 2 3 10)) 3 10 =
      Some (lineStarts [''ab'', TAB # ''c''] ! nat (2 - 1) + nat (2 - 1))"
    by (rule offsetAt_positionOf) simp_all
  then show ?thesis
    by (simp add: positionOf_def visualColumn_def or_one_def visual_step_def TAB_SIZE_def lineStarts_def Let_def)
qed

text \<open>
  The word under the caret is the maximal run of identifier characters around it: the
  caret is inside or at its edge, all of it are such characters, and neither neighbour is.
\<close>

theorem wordAt_maximal:
  assumes "0 \<le> q" "q \<le> int (length t)" "wordAt t q = (w, s, e)"
  shows "w = slice t s e \<and> int s \<le> q \<and> q \<le> int e \<and> e \<le> length t \<and>
    (\<forall>k. s \<le> k \<and> k < e \<longrightarrow> isPart (t ! k)) \<and>
    (0 < s \<longrightarrow> \<not> isPart (t ! (s - 1))) \<and> (e < length t \<longrightarrow> \<not> isPart (t ! e))"
proof -
  have q: "nat (max 0 (min q (int (length t)))) = nat q" "nat q \<le> length t"
    using assms(1,2) by auto
  from assms(3) have d: "w = slice t s e" "s = word_start t (nat q)" "e = word_end t (nat q)"
    by (auto simp: wordAt_def Let_def q(1))
  have "isPart (t ! k)" if "s \<le> k" "k < e" for k
    using that word_start_spec[OF q(2)] word_end_spec[OF q(2)] d by (cases "k < nat q") auto
  with word_start_spec[OF q(2)] word_end_spec[OF q(2)] d assms(1) show ?thesis by auto
qed

theorem wordAt_maximal_witness:
  "wordAt ''a ifIndex b'' 4 = (''ifIndex'', 2, 9) \<and> \<not> isPart (''a ifIndex b'' ! 9)"
proof -
  have w: "wordAt ''a ifIndex b'' 4 = (''ifIndex'', 2, 9)"
    by code_simp
  from wordAt_maximal[OF _ _ w] show ?thesis using w by simp
qed

end
