(* ===== verification/Smi_Tokenize.thy ===== *)
theory Smi_Tokenize
  imports Text_Metrics
begin

text \<open>
  The SMI highlighter, \<open>frontend/src/mibeditor/tokenize.js\<close>, and the visible window it is
  drawn through, \<open>render.js\<close>. A line is consumed token by token: one iteration of the loop
  of \<open>highlight\<close> is \<open>hl_token\<close>, which gives the markup it appends, how much of the line it
  consumed and whether the scan is inside a string afterwards. The lemmas show that the
  markup's text content is exactly the text, and that starting in the middle of a file from
  \<open>stringStateAt\<close> gives the same markup as starting at its top, where no word touches a
  comment.
\<close>

section \<open>Vocabulary\<close>

definition DQ :: char where "DQ = CHR 0x22"

definition MACROS :: "string list" where
  "MACROS = [''MODULE-IDENTITY'', ''OBJECT-IDENTITY'', ''OBJECT-TYPE'', ''NOTIFICATION-TYPE'',
     ''TEXTUAL-CONVENTION'', ''OBJECT-GROUP'', ''NOTIFICATION-GROUP'', ''MODULE-COMPLIANCE'',
     ''AGENT-CAPABILITIES'', ''TRAP-TYPE'']"

definition CLAUSES :: "string list" where
  "CLAUSES = [''DEFINITIONS'', ''BEGIN'', ''END'', ''IMPORTS'', ''EXPORTS'', ''FROM'',
     ''SYNTAX'', ''UNITS'', ''MAX-ACCESS'', ''ACCESS'', ''MIN-ACCESS'', ''STATUS'',
     ''DESCRIPTION'', ''REFERENCE'', ''INDEX'', ''AUGMENTS'', ''IMPLIED'', ''DEFVAL'',
     ''LAST-UPDATED'', ''ORGANIZATION'', ''CONTACT-INFO'', ''REVISION'',
     ''OBJECTS'', ''NOTIFICATIONS'', ''OBJECT'', ''MODULE'', ''MANDATORY-GROUPS'',
     ''GROUP'', ''WRITE-SYNTAX'', ''PRODUCT-RELEASE'', ''SUPPORTS'', ''VARIABLES'',
     ''IDENTIFIER'', ''SEQUENCE'', ''OF'', ''CHOICE'', ''SIZE'']"

definition TYPES :: "string list" where
  "TYPES = [''INTEGER'', ''Integer32'', ''Unsigned32'', ''Counter32'', ''Counter64'', ''Gauge32'',
     ''TimeTicks'', ''OCTET'', ''STRING'', ''OBJECT'', ''NULL'', ''BITS'', ''IpAddress'',
     ''Opaque'', ''DisplayString'', ''TruthValue'', ''RowStatus'', ''PhysAddress'',
     ''MacAddress'', ''TimeStamp'', ''TimeInterval'', ''DateAndTime'', ''AutonomousType'',
     ''TestAndIncr'', ''RowPointer'', ''StorageType'', ''TDomain'', ''TAddress'']"

definition VALUES :: "string list" where
  "VALUES = [''read-only'', ''read-write'', ''read-create'', ''not-accessible'',
     ''accessible-for-notify'', ''write-only'',
     ''current'', ''deprecated'', ''obsolete'', ''mandatory'', ''optional'',
     ''true'', ''false'']"

definition is_digit :: "char \<Rightarrow> bool" where
  "is_digit c = (let n = of_char c :: nat in 48 \<le> n \<and> n \<le> 57)"

definition ESCAPES :: "char \<Rightarrow> string" where
  "ESCAPES c = (if c = CHR ''&'' then ''&amp;'' else if c = CHR ''<'' then ''&lt;''
     else if c = CHR ''>'' then ''&gt;'' else [c])"

definition escapeHtml :: "string \<Rightarrow> string" where
  "escapeHtml s = concat (map ESCAPES s)"

definition classifyWord :: "string \<Rightarrow> string option" where
  "classifyWord word =
     (if word \<in> set MACROS then Some ''mac''
      else if word \<in> set CLAUSES then Some ''kw''
      else if word \<in> set TYPES then Some ''ty''
      else if word \<in> set VALUES then Some ''val''
      else if word \<noteq> [] \<and> list_all is_digit word then Some ''num''
      else None)"

definition span :: "string \<Rightarrow> string \<Rightarrow> string" where
  "span cls body = ''<span class='' @ [DQ] @ cls @ [DQ] @ ''>'' @ body @ ''</span>''"

section \<open>The string state at an offset\<close>

text \<open>The inner loop: past the comment that opened two places before \<open>j\<close>.\<close>

function comment_skip :: "string \<Rightarrow> nat \<Rightarrow> nat" where
  "comment_skip t j =
     (if j < length t \<and> t ! j \<noteq> NL
      then if t ! j = CHR ''-'' \<and> Suc j < length t \<and> t ! Suc j = CHR ''-'' then j + 2
           else comment_skip t (Suc j)
      else j)"
  by pat_completeness auto
termination by (relation "measure (\<lambda>(t, j). length t - j)") auto

declare comment_skip.simps [simp del]

lemma comment_skip_ge: "j \<le> comment_skip t j"
proof (induction t j rule: comment_skip.induct)
  case (1 t j)
  then show ?case by (subst comment_skip.simps) auto
qed

function state_loop :: "string \<Rightarrow> nat \<Rightarrow> nat \<Rightarrow> bool \<Rightarrow> bool" where
  "state_loop t stop i inString =
     (if i < stop
      then if inString then state_loop t stop (i + 1) (t ! i \<noteq> DQ)
           else if t ! i = DQ then state_loop t stop (i + 1) True
           else if t ! i = CHR ''-'' \<and> Suc i < length t \<and> t ! Suc i = CHR ''-''
           then state_loop t stop (comment_skip t (i + 2)) False
           else state_loop t stop (i + 1) False
      else inString)"
  by pat_completeness auto
termination
  by (relation "measure (\<lambda>(t, stop, i, s). stop - i)")
     (auto intro!: diff_less_mono2 intro: less_le_trans[OF _ comment_skip_ge])

declare state_loop.simps [simp del]

definition stringStateAt :: "string \<Rightarrow> int \<Rightarrow> bool" where
  "stringStateAt t index = state_loop t (nat (max 0 (min index (int (length t))))) 0 False"

section \<open>Highlighting\<close>

definition hl_token :: "bool \<Rightarrow> string \<Rightarrow> string \<times> nat \<times> bool" where
  "hl_token inString line =
     (let ch = hd line in
      if inString
      then (case indexOf line [DQ] 0 of
              None \<Rightarrow> (span ''str'' (escapeHtml line), length line, True)
            | Some e \<Rightarrow> (span ''str'' (escapeHtml (take (e + 1) line)), e + 1, False))
      else if ch = DQ then (span ''str'' ''&quot;'', 1, True)
      else if ch = CHR ''-'' \<and> 1 < length line \<and> line ! 1 = CHR ''-''
      then let e = (case indexOf line ''--'' 2 of None \<Rightarrow> length line | Some c \<Rightarrow> c + 2)
           in (span ''com'' (escapeHtml (take e line)), e, False)
      else if is_alnum ch
      then let word = takeWhile isPart line
           in (case classifyWord word of
                 Some cls \<Rightarrow> span cls (escapeHtml word)
               | None \<Rightarrow> escapeHtml word, length word, False)
      else if ch = CHR '':'' \<and> take 3 line = ''::='' then (span ''op'' ''::='', 3, False)
      else if ch \<in> set ''{}(),;|'' then (span ''pun'' (escapeHtml [ch]), 1, False)
      else (escapeHtml [ch], 1, False))"

lemma matches_at_pos: "matches_at hay needle p \<Longrightarrow> needle \<noteq> [] \<Longrightarrow> p + length needle \<le> length hay"
  by (rule matches_at_bound)

lemma hl_token_consumes:
  assumes "line \<noteq> []" "hl_token b line = (m, n, st)"
  shows "0 < n \<and> n \<le> length line"
proof -
  have dq: "indexOf line [DQ] 0 = Some e \<Longrightarrow> e + 1 \<le> length line" for e
    by (drule indexOf_SomeD) (auto dest: matches_at_pos)
  have cm: "indexOf line ''--'' 2 = Some c \<Longrightarrow> c + 2 \<le> length line" for c
    by (drule indexOf_SomeD) (auto dest: matches_at_pos)
  have w: "is_alnum (hd line) \<Longrightarrow> takeWhile isPart line \<noteq> []"
    using assms(1) by (cases line) (auto simp: isPart_def)
  have w2: "length (takeWhile isPart line) \<le> length line" by (rule length_takeWhile_le)
  have op: "take 3 line = ''::='' \<Longrightarrow> 3 \<le> length line"
    by (drule arg_cong[where f = length]) simp
  show ?thesis
    using assms dq cm w w2 op
    by (auto simp: hl_token_def Let_def Suc_leI split: if_splits option.splits)
qed

function hl_line :: "bool \<Rightarrow> string \<Rightarrow> string \<times> bool" where
  "hl_line inString line =
     (if line = [] then ([], inString)
      else let tok = hl_token inString line;
               rest = hl_line (snd (snd tok)) (drop (fst (snd tok)) line)
           in (fst tok @ fst rest, snd rest))"
  by pat_completeness auto
termination
proof (relation "measure (\<lambda>(s, l). length l)", goal_cases)
  case (2 inString line x)
  then show ?case
    using hl_token_consumes[of line inString "fst x" "fst (snd x)" "snd (snd x)"] by simp
qed simp

declare hl_line.simps [simp del]

fun hl_lines :: "bool \<Rightarrow> string list \<Rightarrow> string list" where
  "hl_lines inString [] = []"
| "hl_lines inString (l # ls) = fst (hl_line inString l) # hl_lines (snd (hl_line inString l)) ls"

definition highlight :: "string \<Rightarrow> bool \<Rightarrow> string" where
  "highlight t startInString = join_with NL (hl_lines startInString (split_on NL t))"

text \<open>\<open>renderWindow\<close>: \<open>first\<close> and \<open>last\<close> come from the scroll position and are clamped.\<close>

definition renderWindow :: "string \<Rightarrow> string list \<Rightarrow> int \<Rightarrow> int \<Rightarrow> string" where
  "renderWindow t allLines first0 last0 =
     (if t = [] then []
      else let n = int (length allLines);
               first = max 0 (min first0 n);
               la = min (max last0 first) n;
               offset = sum_list (map (\<lambda>l. length l + 1) (take (nat first) allLines));
               windowText = join_with NL (slice allLines (nat first) (nat la))
           in replicate (nat first) NL
              @ highlight windowText (stringStateAt t (int offset))
              @ replicate (nat (max 0 (n - la))) NL)"

section \<open>The text a browser shows for the markup\<close>

text \<open>Tags are dropped and the four character references are decoded.\<close>

function text_content :: "string \<Rightarrow> string" where
  "text_content html =
     (if html = [] then []
      else if hd html = CHR ''<'' then text_content (tl (dropWhile (\<lambda>c. c \<noteq> CHR ''>'') html))
      else if take 5 html = ''&amp;'' then CHR ''&'' # text_content (drop 5 html)
      else if take 4 html = ''&lt;'' then CHR ''<'' # text_content (drop 4 html)
      else if take 4 html = ''&gt;'' then CHR ''>'' # text_content (drop 4 html)
      else if take 6 html = ''&quot;'' then DQ # text_content (drop 6 html)
      else hd html # text_content (tl html))"
  by pat_completeness auto
termination
proof (relation "measure length", goal_cases)
  case (2 html)
  have "length (dropWhile (\<lambda>c. c \<noteq> CHR ''>'') html) \<le> length html" by (rule length_dropWhile_le)
  moreover have "length (tl xs) \<le> length xs - 1" for xs :: string by simp
  moreover have "0 < length html" using 2 by simp
  ultimately show ?case unfolding in_measure by (metis (no_types, lifting) One_nat_def Suc_pred
    diff_le_mono le_imp_less_Suc le_trans)
qed (simp_all only: in_measure length_drop length_greater_0_conv diff_less zero_less_numeral length_tl zero_less_one wf_measure simp_thms)

declare text_content.simps [simp del]

lemma text_content_Nil [simp]: "text_content [] = []"
  by (subst text_content.simps) simp

lemma text_content_tag:
  assumes "CHR ''>'' \<notin> set tag"
  shows "text_content (CHR ''<'' # tag @ CHR ''>'' # r) = text_content r"
proof -
  have "dropWhile (\<lambda>c. c \<noteq> CHR ''>'') (CHR ''<'' # tag @ CHR ''>'' # r) = CHR ''>'' # r"
    using assms by (induction tag) auto
  then show ?thesis by (subst text_content.simps) simp
qed

lemma text_content_plain:
  "c \<noteq> CHR ''<'' \<Longrightarrow> c \<noteq> CHR ''&'' \<Longrightarrow> text_content (c # r) = c # text_content r"
  by (subst text_content.simps) simp

lemma text_content_refs:
  "text_content (''&amp;'' @ r) = CHR ''&'' # text_content r"
  "text_content (''&lt;'' @ r) = CHR ''<'' # text_content r"
  "text_content (''&gt;'' @ r) = CHR ''>'' # text_content r"
  "text_content (''&quot;'' @ r) = DQ # text_content r"
  by (subst text_content.simps, simp)+

lemma text_content_escape: "text_content (escapeHtml s @ r) = s @ text_content r"
proof (induction s)
  case (Cons c s)
  have "text_content (ESCAPES c @ x) = c # text_content x" for x
    using text_content_refs[of x] by (auto simp: ESCAPES_def text_content_plain)
  with Cons show ?case by (simp add: escapeHtml_def)
qed (simp add: escapeHtml_def)

lemma text_content_span:
  assumes "CHR ''>'' \<notin> set cls" "\<And>x. text_content (body @ x) = s @ text_content x"
  shows "text_content (span cls body @ r) = s @ text_content r"
proof -
  have "text_content (span cls body @ r) = text_content (body @ ''</span>'' @ r)"
    using text_content_tag[of "''span class='' @ [DQ] @ cls @ [DQ]" "body @ ''</span>'' @ r"] assms(1)
    by (simp add: span_def DQ_def)
  also have "\<dots> = s @ text_content r"
    using text_content_tag[of "''/span''" r] by (simp add: assms(2))
  finally show ?thesis .
qed

section \<open>The markup carries the text\<close>

lemma text_content_word:
  "text_content ((case classifyWord w of Some cls \<Rightarrow> span cls (escapeHtml w) | None \<Rightarrow> escapeHtml w) @ r)
   = w @ text_content r"
proof (cases "classifyWord w")
  case (Some cls)
  then have "CHR ''>'' \<notin> set cls" by (auto simp: classifyWord_def split: if_splits)
  with Some show ?thesis by (simp add: text_content_span text_content_escape)
qed (simp add: text_content_escape)

lemma hl_token_content:
  assumes "line \<noteq> []" "hl_token b line = (m, n, st)"
  shows "text_content (m @ r) = take n line @ text_content r"
proof -
  have quot: "text_content (span ''str'' ''&quot;'' @ r) = DQ # text_content r"
    using text_content_span[of "''str''" "''&quot;''" "[DQ]" r] text_content_refs(4) by simp
  have op: "text_content (span ''op'' ''::='' @ r) = ''::='' @ text_content r"
    by (rule text_content_span) (simp_all add: text_content_plain)
  have one: "take 1 line = [hd line]" "take (Suc 0) line = [hd line]"
    using assms(1) by (cases line; simp)+
  have sp: "CHR ''>'' \<notin> set cls \<Longrightarrow> text_content (span cls (escapeHtml s) @ r) = s @ text_content r"
    for cls s by (rule text_content_span) (simp_all add: text_content_escape)
  have w: "take (length (takeWhile isPart line)) line = takeWhile isPart line"
    by (metis append_eq_conv_conj takeWhile_dropWhile_id)
  show ?thesis
    using assms(2) text_content_word[of "takeWhile isPart line" r]
    by (auto simp: hl_token_def Let_def quot op sp w one text_content_escape
        split: if_splits option.splits)
qed

lemma hl_line_content: "text_content (fst (hl_line b line) @ r) = line @ text_content r"
proof (induction b line arbitrary: r rule: hl_line.induct)
  case (1 b line)
  show ?case
  proof (cases "line = []")
    case False
    obtain m n st where tok: "hl_token b line = (m, n, st)" by (cases "hl_token b line")
    from hl_token_content[OF False tok] "1.IH"[OF False tok[symmetric]] show ?thesis
      by (subst hl_line.simps) (simp add: False tok Let_def)
  qed (simp add: hl_line.simps)
qed

lemma hl_lines_content: "text_content (join_with NL (hl_lines b ls)) = join_with NL ls"
proof (induction ls arbitrary: b rule: induct_list012)
  case (2 l)
  show ?case using hl_line_content[of b l "[]"] by simp
next
  case (3 l k ls)
  have "text_content (NL # r) = NL # text_content r" for r
    by (rule text_content_plain) (simp_all add: NL_def)
  with 3 show ?case by (simp add: hl_line_content)
qed simp

section \<open>Starting in the middle\<close>

text \<open>The string state after whole lines, and the texts in which no word runs into a comment.\<close>

definition state_after :: "bool \<Rightarrow> string list \<Rightarrow> bool" where
  "state_after = foldl (\<lambda>b l. snd (hl_line b l))"

definition dashes :: "string \<Rightarrow> nat \<Rightarrow> bool" where
  "dashes t k \<longleftrightarrow> Suc k < length t \<and> t ! k = CHR ''-'' \<and> t ! Suc k = CHR ''-''"

definition clear_word :: "string \<Rightarrow> bool" where
  "clear_word w = list_all (\<lambda>k. \<not> dashes w k) [0..<length w]"

function clear_line :: "bool \<Rightarrow> string \<Rightarrow> bool" where
  "clear_line inString line =
     (if line = [] then True
      else (\<not> inString \<and> is_alnum (hd line) \<longrightarrow> clear_word (takeWhile isPart line)) \<and>
           clear_line (snd (snd (hl_token inString line))) (drop (fst (snd (hl_token inString line))) line))"
  by pat_completeness auto
termination
proof (relation "measure (\<lambda>(s, l). length l)", goal_cases)
  case (2 inString line)
  then show ?case
    using hl_token_consumes[of line inString "fst (hl_token inString line)"
      "fst (snd (hl_token inString line))" "snd (snd (hl_token inString line))"] by simp
qed simp

declare clear_line.simps [simp del]

fun clear_lines :: "bool \<Rightarrow> string list \<Rightarrow> bool" where
  "clear_lines b [] = True"
| "clear_lines b (l # ls) = (clear_line b l \<and> clear_lines (snd (hl_line b l)) ls)"

lemma comment_skip_run:
  assumes "j \<le> k" "k \<le> length t" "\<forall>l. j \<le> l \<and> l < k \<longrightarrow> t ! l \<noteq> NL \<and> \<not> dashes t l"
  shows "comment_skip t j = comment_skip t k"
  using assms
proof (induction k rule: dec_induct)
  case (step n)
  then have "comment_skip t n = comment_skip t (Suc n)"
    by (subst comment_skip.simps) (auto simp: dashes_def)
  with step show ?case by simp
qed simp

lemma state_loop_in_string:
  assumes "i \<le> k" "k \<le> stop" "\<forall>l. i \<le> l \<and> l < k \<longrightarrow> t ! l \<noteq> DQ"
  shows "state_loop t stop i True = state_loop t stop k True"
  using assms
proof (induction k rule: dec_induct)
  case (step n)
  then have "state_loop t stop n True = state_loop t stop (Suc n) True"
    by (subst state_loop.simps) simp
  with step show ?case by simp
qed simp

lemma state_loop_plain:
  assumes "i \<le> k" "k \<le> stop" "\<forall>l. i \<le> l \<and> l < k \<longrightarrow> t ! l \<noteq> DQ \<and> \<not> dashes t l"
  shows "state_loop t stop i False = state_loop t stop k False"
  using assms
proof (induction k rule: dec_induct)
  case (step n)
  then have "state_loop t stop n False = state_loop t stop (Suc n) False"
    by (subst state_loop.simps) (auto simp: dashes_def)
  with step show ?case by simp
qed simp

lemma state_loop_open: "i < stop \<Longrightarrow> t ! i = DQ \<Longrightarrow> state_loop t stop i b = state_loop t stop (Suc i) (\<not> b)"
  by (subst state_loop.simps) (simp add: DQ_def)

lemma state_loop_comment:
  "i < stop \<Longrightarrow> dashes t i \<Longrightarrow> state_loop t stop i False = state_loop t stop (comment_skip t (i + 2)) False"
  by (subst state_loop.simps) (simp add: dashes_def DQ_def)

text \<open>A token seen from inside the text it was cut from.\<close>

lemma in_text:
  assumes "drop i t = line @ rest" "i \<le> length t" "k < length line"
  shows "t ! (i + k) = line ! k"
  using assms by (metis nth_append nth_drop)

lemma dashes_in_text:
  assumes "drop i t = line @ rest" "i \<le> length t" "rest = [] \<or> hd rest = NL" "k < length line"
  shows "dashes t (i + k) = dashes line k"
proof (cases "Suc k < length line")
  case True
  then show ?thesis
    using in_text[OF assms(1,2,4)] in_text[OF assms(1,2), of "Suc k"] arg_cong[OF assms(1), of length]
    by (auto simp: dashes_def)
next
  case False
  with assms(4) have k: "Suc k = length line" by linarith
  have "dashes t (i + k) \<Longrightarrow> False"
  proof -
    assume d: "dashes t (i + k)"
    then have "rest \<noteq> []" using arg_cong[OF assms(1), of length] k by (auto simp: dashes_def)
    moreover have "t ! Suc (i + k) = (line @ rest) ! length line"
      using assms(1,2) k by (metis add_Suc_right nth_drop)
    ultimately have "t ! Suc (i + k) = NL" using assms(3) by (simp add: nth_append hd_conv_nth)
    with d show False by (simp add: dashes_def NL_def)
  qed
  with k show ?thesis by (auto simp: dashes_def)
qed

lemma matches_dashes: "matches_at line ''--'' k = dashes line k"
proof (cases "Suc k < length line")
  case True
  then have "take 2 (drop k line) = [line ! k, line ! Suc k]"
    by (metis (no_types, lifting) Cons_nth_drop_Suc Suc_lessD numeral_2_eq_2 take0 take_Suc_Cons)
  then show ?thesis using True by (simp add: matches_at_def dashes_def numeral_2_eq_2)
qed (auto simp: dashes_def dest: matches_at_bound)

lemma matches_quote: "matches_at line [DQ] k \<longleftrightarrow> k < length line \<and> line ! k = DQ"
  by (cases "k < length line") (auto simp: matches_at_def take_Suc_conv_app_nth Cons_nth_drop_Suc[symmetric]
     simp del: Cons_nth_drop_Suc)

text \<open>\<open>line\<close> stands at offset \<open>i\<close> of the text and runs to the end of its line.\<close>

definition line_at :: "string \<Rightarrow> nat \<Rightarrow> string \<Rightarrow> bool" where
  "line_at t i line \<longleftrightarrow> i \<le> length t \<and> NL \<notin> set line \<and>
     (\<exists>rest. drop i t = line @ rest \<and> (rest = [] \<or> hd rest = NL))"

lemma line_at_nth:
  assumes "line_at t i line" "i \<le> l" "l < i + length line"
  shows "t ! l = line ! (l - i)" "dashes t l = dashes line (l - i)" "t ! l \<noteq> NL" "l < length t"
proof -
  from assms(1) obtain rest where d: "i \<le> length t" "drop i t = line @ rest"
      "rest = [] \<or> hd rest = NL" "NL \<notin> set line"
    by (auto simp: line_at_def)
  have k: "l - i < length line" "i + (l - i) = l" using assms by auto
  show "t ! l = line ! (l - i)" using in_text[OF d(2,1) k(1)] k(2) by simp
  with d(4) k(1) show "t ! l \<noteq> NL" by (metis nth_mem)
  show "dashes t l = dashes line (l - i)" using dashes_in_text[OF d(2,1,3) k(1)] k(2) by simp
  show "l < length t" using arg_cong[OF d(2), of length] k assms(3) by simp
qed

lemma line_at_end:
  assumes "line_at t i line"
  shows "i + length line \<le> length t" "i + length line < length t \<Longrightarrow> t ! (i + length line) = NL"
proof -
  from assms obtain rest where d: "i \<le> length t" "drop i t = line @ rest" "rest = [] \<or> hd rest = NL"
    by (auto simp: line_at_def)
  show "i + length line \<le> length t" using arg_cong[OF d(2), of length] d(1) by simp
  assume "i + length line < length t"
  then have "rest \<noteq> []" using arg_cong[OF d(2), of length] by auto
  moreover have "t ! (i + length line) = (line @ rest) ! length line" using d by (metis nth_drop)
  ultimately show "t ! (i + length line) = NL" using d(3) by (simp add: nth_append hd_conv_nth)
qed

lemma comment_skip_unclosed:
  assumes "line_at t i line" "2 \<le> length line" "indexOf line ''--'' 2 = None"
  shows "comment_skip t (i + 2) = i + length line"
proof -
  have "t ! l \<noteq> NL \<and> \<not> dashes t l" if "i + 2 \<le> l" "l < i + length line" for l
    using indexOf_NoneD[OF assms(3), of "l - i"] that line_at_nth[OF assms(1), of l]
    by (simp add: matches_dashes)
  then have "comment_skip t (i + 2) = comment_skip t (i + length line)"
    using assms(2) line_at_end(1)[OF assms(1)] by (intro comment_skip_run) auto
  also have "\<dots> = i + length line"
    using line_at_end[OF assms(1)] by (subst comment_skip.simps) auto
  finally show ?thesis .
qed

lemma comment_skip_closed:
  assumes "line_at t i line" "indexOf line ''--'' 2 = Some c"
  shows "comment_skip t (i + 2) = i + (c + 2)"
proof -
  from indexOf_SomeD[OF assms(2)]
  have c: "2 \<le> c" "dashes line c" "\<And>k. 2 \<le> k \<Longrightarrow> k < c \<Longrightarrow> \<not> dashes line k"
    by (auto simp: matches_dashes)
  then have cl: "c < length line" by (simp add: dashes_def)
  have "t ! l \<noteq> NL \<and> \<not> dashes t l" if "i + 2 \<le> l" "l < i + c" for l
    using c(3)[of "l - i"] cl that line_at_nth[OF assms(1), of l] by simp
  then have "comment_skip t (i + 2) = comment_skip t (i + c)"
    using c cl line_at_end(1)[OF assms(1)] by (intro comment_skip_run) auto
  also have "\<dots> = i + c + 2"
    using line_at_nth[OF assms(1), of "i + c"] cl c(2)
    by (subst comment_skip.simps) (auto simp: dashes_def NL_def)
  finally show ?thesis by simp
qed

lemma word_has_no_dashes:
  assumes "clear_word (takeWhile isPart line)" "k < length (takeWhile isPart line)"
  shows "line ! k \<noteq> DQ \<and> \<not> dashes line k"
proof -
  let ?w = "takeWhile isPart line"
  have w: "line ! j = ?w ! j \<and> isPart (line ! j)" if "j < length ?w" for j
    using that by (metis nth_mem set_takeWhileD takeWhile_nth)
  have "Suc k < length ?w" if dd: "dashes line k"
  proof (rule ccontr)
    assume "\<not> Suc k < length ?w"
    then have e: "length ?w = Suc k" using assms(2) by linarith
    moreover from dd have "length ?w < length line" unfolding e by (simp add: dashes_def)
    ultimately have "\<not> isPart (line ! Suc k)" using nth_length_takeWhile[of isPart line] by simp
    with dd show False by (simp add: dashes_def isPart_def)
  qed
  then have "\<not> dashes line k"
    using w[of k] w[of "Suc k"] assms by (auto simp: dashes_def clear_word_def list_all_iff)
  with w[OF assms(2)] show ?thesis by (auto simp: DQ_def isPart_def is_alnum_def)
qed

lemma state_loop_token:
  assumes ne: "line \<noteq> []" and tok: "hl_token b line = (m, n, st)"
    and cl: "\<not> b \<Longrightarrow> is_alnum (hd line) \<Longrightarrow> clear_word (takeWhile isPart line)"
    and l: "line_at t i line" and stop: "i + length line \<le> stop"
  shows "state_loop t stop i b = state_loop t stop (i + n) st"
proof -
  note at = line_at_nth[OF l]
  have "0 < length line" using ne by simp
  with stop have pos: "0 < length line" "i < stop" by linarith+
  have hd0: "hd line = line ! 0" "t ! i = line ! 0"
    using ne at[of i] by (simp_all add: hd_conv_nth)
  consider (unclosed) "b" "indexOf line [DQ] 0 = None" | (closed) e where "b" "indexOf line [DQ] 0 = Some e"
    | (quote) "\<not> b" "hd line = DQ" | (comment) "\<not> b" "dashes line 0"
    | (word) "\<not> b" "hd line \<noteq> DQ" "\<not> dashes line 0" "is_alnum (hd line)"
    | (other) "\<not> b" "hd line \<noteq> DQ" "\<not> dashes line 0" "\<not> is_alnum (hd line)"
    by (cases b; cases "indexOf line [DQ] 0") auto
  then show ?thesis
  proof cases
    case unclosed
    then have n: "n = length line" "st" using tok by (auto simp: hl_token_def Let_def)
    have "t ! k \<noteq> DQ" if "i \<le> k" "k < i + length line" for k
    proof -
      have "k - i < length line" using that by linarith
      with indexOf_NoneD[OF unclosed(2), of "k - i"] at(1)[OF that] show ?thesis
        by (simp add: matches_quote)
    qed
    with stop unclosed(1) n show ?thesis using state_loop_in_string[of i "i + n" stop t] by simp
  next
    case (closed e)
    then have n: "n = e + 1" "\<not> st" using tok by (auto simp: hl_token_def Let_def)
    from indexOf_SomeD[OF closed(2)]
    have e: "e < length line" "line ! e = DQ" "\<And>k. k < e \<Longrightarrow> line ! k \<noteq> DQ"
      by (auto simp: matches_quote)
    have "t ! k \<noteq> DQ" if "i \<le> k" "k < i + e" for k
      using e(1) e(3)[of "k - i"] that at(1)[of k] by simp
    then have "state_loop t stop i True = state_loop t stop (i + e) True"
      using e(1) stop by (intro state_loop_in_string) auto
    also have "\<dots> = state_loop t stop (Suc (i + e)) False"
      using state_loop_open[of "i + e" stop t True] e stop at(1)[of "i + e"] by simp
    finally show ?thesis using closed(1) n by simp
  next
    case quote
    then have "n = 1" "st" using tok by (auto simp: hl_token_def Let_def)
    with quote show ?thesis using state_loop_open[of i stop t False] pos hd0 by simp
  next
    case comment
    with tok hd0 have n: "n = (case indexOf line ''--'' 2 of None \<Rightarrow> length line | Some c \<Rightarrow> c + 2)" "\<not> st"
      by (auto simp: hl_token_def Let_def DQ_def dashes_def)
    have "comment_skip t (i + 2) = i + n"
      using comment n(1) comment_skip_unclosed[OF l] comment_skip_closed[OF l]
      by (cases "indexOf line ''--'' 2") (auto simp: dashes_def)
    with comment n(2) show ?thesis
      using state_loop_comment[of i stop t] at(2)[of i] pos by simp
  next
    case word
    let ?w = "takeWhile isPart line"
    have n: "n = length ?w" "\<not> st"
      using tok word pos by (auto simp: hl_token_def Let_def dashes_def hd0)
    have wl: "length ?w \<le> length line" by (rule length_takeWhile_le)
    have "t ! k \<noteq> DQ \<and> \<not> dashes t k" if "i \<le> k" "k < i + length ?w" for k
      using word_has_no_dashes[OF cl[OF word(1,4)], of "k - i"] that at(1,2)[of k] wl by simp
    then show ?thesis using word(1) n wl stop state_loop_plain[of i "i + n" stop t] by simp
  next
    case other
    have n: "n = 1 \<or> n = 3 \<and> take 3 line = ''::=''" "\<not> st"
      using tok other pos by (auto simp: hl_token_def Let_def dashes_def hd0 split: if_splits)
    have op: "length line \<ge> 3 \<and> line ! 0 = CHR '':'' \<and> line ! 1 = CHR '':'' \<and> line ! 2 = CHR ''=''"
      if "take 3 line = ''::=''"
      using that by (cases line; cases "tl line"; cases "tl (tl line)") (auto simp: numeral_3_eq_3)
    have "t ! k \<noteq> DQ \<and> \<not> dashes t k" if "i \<le> k" "k < i + n" for k
    proof -
      from that n(1) have "k - i = 0 \<or> n = 3 \<and> (k - i = 1 \<or> k - i = 2)" by linarith
      then show ?thesis
        using at(1,2)[of k] op n(1) that other pos hd0 by (auto simp: dashes_def DQ_def)
    qed
    moreover have "n \<le> length line" using n(1) op pos(1) by (auto simp: Suc_le_eq)
    ultimately show ?thesis using other(1) n(2) stop state_loop_plain[of i "i + n" stop t] by simp
  qed
qed

lemma line_at_drop:
  assumes "line_at t i line" "n \<le> length line"
  shows "line_at t (i + n) (drop n line)"
proof -
  from assms obtain rest where "i \<le> length t" "NL \<notin> set line" "drop i t = line @ rest" "rest = [] \<or> hd rest = NL"
    by (auto simp: line_at_def)
  moreover from this have "drop (i + n) t = drop n line @ rest"
    using assms(2) by (metis add.commute append_eq_conv_conj drop_append drop_drop diff_is_0_eq drop0)
  ultimately show ?thesis
    using assms(2) line_at_end(1)[OF assms(1)] by (auto simp: line_at_def dest: in_set_dropD)
qed

lemma state_loop_line:
  assumes "clear_line b line" "line_at t i line" "i + length line \<le> stop"
  shows "state_loop t stop i b = state_loop t stop (i + length line) (snd (hl_line b line))"
  using assms
proof (induction b line arbitrary: i rule: hl_line.induct)
  case (1 b line)
  show ?case
  proof (cases "line = []")
    case False
    obtain m n st where tok: "hl_token b line = (m, n, st)" by (cases "hl_token b line")
    have n: "0 < n" "n \<le> length line" using hl_token_consumes[OF False tok] by auto
    from "1.prems"(1) False tok
    have cl: "\<not> b \<Longrightarrow> is_alnum (hd line) \<Longrightarrow> clear_word (takeWhile isPart line)" "clear_line st (drop n line)"
      by (subst (asm) clear_line.simps, simp)+
    have "state_loop t stop i b = state_loop t stop (i + n) st"
      by (rule state_loop_token[OF False tok cl(1) "1.prems"(2,3)])
    also have "\<dots> = state_loop t stop (i + n + length (drop n line)) (snd (hl_line st (drop n line)))"
      using "1.IH"[OF False tok[symmetric]] cl(2) line_at_drop[OF "1.prems"(2) n(2)] n "1.prems"(3) tok by simp
    also have "\<dots> = state_loop t stop (i + length line) (snd (hl_line b line))"
      using n(2) by (subst (2) hl_line.simps) (simp add: False tok Let_def)
    finally show ?thesis .
  qed (simp add: hl_line.simps)
qed

lemma state_loop_lines:
  assumes "drop i t = join_with NL (xs @ ys)" "ys \<noteq> []" "i \<le> length t" "\<forall>l \<in> set xs. NL \<notin> set l"
    "clear_lines b xs" "i + (\<Sum>l\<leftarrow>xs. length l + 1) \<le> stop"
  shows "state_loop t stop i b = state_loop t stop (i + (\<Sum>l\<leftarrow>xs. length l + 1)) (state_after b xs)"
  using assms
proof (induction xs arbitrary: i b)
  case (Cons x xs)
  let ?j = "i + length x" and ?b = "snd (hl_line b x)"
  have d: "drop i t = x @ NL # join_with NL (xs @ ys)"
    using Cons.prems(1,2) by (simp add: join_with_Cons)
  then have at: "line_at t i x" using Cons.prems(3,4) by (auto simp: line_at_def)
  have len: "length t - i = length x + 1 + length (join_with NL (xs @ ys))"
    using arg_cong[OF d, of length] by simp
  have d2: "drop (Suc ?j) t = join_with NL (xs @ ys)"
    using arg_cong[OF d, of "drop (Suc (length x))"] by (simp add: add.commute)
  have "state_loop t stop i b = state_loop t stop ?j ?b"
    using Cons.prems(5,6) by (intro state_loop_line[OF _ at]) simp_all
  also have "\<dots> = state_loop t stop (Suc ?j) ?b"
  proof -
    have "t ! ?j = NL" using line_at_end(2)[OF at] len Cons.prems(3) by simp
    then have "\<forall>l. ?j \<le> l \<and> l < Suc ?j \<longrightarrow> t ! l \<noteq> DQ \<and> \<not> dashes t l"
      by (auto simp: less_Suc_eq_le NL_def DQ_def dashes_def dest: le_antisym)
    moreover have "Suc ?j \<le> stop" using Cons.prems(6) by simp
    ultimately show ?thesis
      using state_loop_in_string[of ?j "Suc ?j" stop t] state_loop_plain[of ?j "Suc ?j" stop t]
      by (cases ?b) simp_all
  qed
  also have "\<dots> = state_loop t stop (Suc ?j + (\<Sum>l\<leftarrow>xs. length l + 1)) (state_after ?b xs)"
    using Cons.prems d2 len by (intro Cons.IH) auto
  finally show ?case by (simp add: state_after_def add.assoc)
qed (simp add: state_after_def)

lemma stringStateAt_lines:
  assumes "split_on NL t = xs @ ys" "ys \<noteq> []" "clear_lines False xs"
  shows "stringStateAt t (int (\<Sum>l\<leftarrow>xs. length l + 1)) = state_after False xs"
proof -
  let ?o = "\<Sum>l\<leftarrow>xs. length l + 1"
  have t: "t = join_with NL (xs @ ys)" using join_split[of NL t] assms(1) by simp
  have "length (join_with NL (zs @ ys)) = (\<Sum>l\<leftarrow>zs. length l + 1) + length (join_with NL ys)" for zs
    using assms(2) by (induction zs) (simp_all add: join_with_Cons)
  then have len: "?o \<le> length t" using t by simp
  have "state_loop t ?o 0 False = state_loop t ?o (0 + ?o) (state_after False xs)"
    using assms split_on_no_sep[of _ NL t] t by (intro state_loop_lines) auto
  also have "\<dots> = state_after False xs" by (subst state_loop.simps) simp
  finally show ?thesis using len by (simp add: stringStateAt_def min_def)
qed


text \<open>The markup of a line has no newline of its own.\<close>

lemma hl_token_no_newline:
  assumes "line \<noteq> []" "NL \<notin> set line" "hl_token b line = (m, n, st)"
  shows "NL \<notin> set m"
proof -
  have esc: "NL \<notin> set s \<Longrightarrow> NL \<notin> set (escapeHtml s)" for s
    by (auto simp: escapeHtml_def ESCAPES_def NL_def)
  have sp: "NL \<notin> set cls \<Longrightarrow> NL \<notin> set s \<Longrightarrow> NL \<notin> set (span cls s)" for cls s
    by (auto simp: span_def NL_def DQ_def)
  have cw: "classifyWord w = Some cls \<Longrightarrow> NL \<notin> set cls" for w cls
    by (auto simp: classifyWord_def NL_def split: if_splits)
  have "NL \<notin> set (take k line)" "NL \<notin> set (takeWhile isPart line)" "hd line \<noteq> NL" for k
    using assms(2) hd_in_set[OF assms(1)] by (auto dest: in_set_takeD set_takeWhileD)
  with assms(2,3) esc sp cw show ?thesis
    by (auto simp: hl_token_def Let_def NL_def intro!: sp esc split: if_splits option.splits)
qed

lemma hl_line_no_newline: "NL \<notin> set line \<Longrightarrow> NL \<notin> set (fst (hl_line b line))"
proof (induction b line rule: hl_line.induct)
  case (1 b line)
  show ?case
  proof (cases "line = []")
    case False
    obtain m n st where tok: "hl_token b line = (m, n, st)" by (cases "hl_token b line")
    have "NL \<notin> set (drop n line)" using "1.prems" by (auto dest: in_set_dropD)
    with "1.IH"[OF False tok[symmetric]] hl_token_no_newline[OF False "1.prems" tok] show ?thesis
      by (subst hl_line.simps) (simp add: False tok Let_def)
  qed (simp add: hl_line.simps)
qed

lemma hl_lines_no_newline: "\<forall>l \<in> set ls. NL \<notin> set l \<Longrightarrow> \<forall>m \<in> set (hl_lines b ls). NL \<notin> set m"
  by (induction ls arbitrary: b) (auto simp: hl_line_no_newline)

lemma hl_lines_append: "hl_lines b (xs @ ys) = hl_lines b xs @ hl_lines (state_after b xs) ys"
  by (induction xs arbitrary: b) (simp_all add: state_after_def)

lemma length_hl_lines [simp]: "length (hl_lines b ls) = length ls"
  by (induction ls arbitrary: b) simp_all

lemma clear_lines_append: "clear_lines b (xs @ ys) \<Longrightarrow> clear_lines b xs"
  by (induction xs arbitrary: b) simp_all

lemma join_with_blanks:
  "ls \<noteq> [] \<Longrightarrow> replicate n sep @ join_with sep ls = join_with sep (replicate n [] @ ls)"
  "ls \<noteq> [] \<Longrightarrow> join_with sep ls @ replicate n sep = join_with sep (ls @ replicate n [])"
proof -
  show "ls \<noteq> [] \<Longrightarrow> replicate n sep @ join_with sep ls = join_with sep (replicate n [] @ ls)"
    by (induction n) (simp_all add: join_with_Cons)
  have "replicate n sep = join_with sep ([] # replicate n [])" by (induction n) (simp_all add: join_with_Cons)
  then show "ls \<noteq> [] \<Longrightarrow> join_with sep ls @ replicate n sep = join_with sep (ls @ replicate n [])"
    by (induction ls rule: induct_list012; cases n) (simp_all add: join_with_Cons)
qed


section \<open>Properties\<close>

text \<open>
  C3. The markup's text content is character for character the text, whatever the text and
  whatever state the scan starts in: nothing is added, dropped, collapsed or reordered, and
  nothing of the text is read as markup.
\<close>

theorem highlight_text_content: "text_content (highlight t b) = t"
  by (simp add: highlight_def hl_lines_content)

text \<open>
  C4. Painting only the lines from \<open>first\<close> to \<open>last\<close> gives, between blank lines that keep the
  height, exactly the markup those lines have when the whole file is highlighted, as long as
  no word above the window runs into a comment.
\<close>

theorem renderWindow_lines:
  assumes "t \<noteq> []" "first < la" "la \<le> length (split_on NL t)" "clear_lines False (split_on NL t)"
  shows "split_on NL (renderWindow t (split_on NL t) (int first) (int la)) =
    replicate first [] @ slice (hl_lines False (split_on NL t)) first la @
    replicate (length (split_on NL t) - la) []"
proof -
  define ls where "ls = split_on NL t"
  define xs where "xs = take first ls"
  define win where "win = slice ls first la"
  have ne: "win \<noteq> []" "drop first ls \<noteq> []" using assms(2,3) by (auto simp: win_def ls_def slice_def)
  have ls: "ls = xs @ drop first ls" "drop first ls = win @ drop la ls"
    using assms(2) slice_append_drop[of first la ls] by (simp_all add: xs_def win_def)
  have nl: "\<forall>l \<in> set ls. NL \<notin> set l" using split_on_no_sep[of _ NL t] by (auto simp: ls_def)
  then have nw: "\<forall>l \<in> set win. NL \<notin> set l" using ls by (metis Un_iff set_append)
  have "clear_lines False xs" using assms(4) ls(1) clear_lines_append by (metis ls_def)
  then have st: "stringStateAt t (int (\<Sum>l\<leftarrow>xs. length l + 1)) = state_after False xs"
    using ls(1) ne(2) by (intro stringStateAt_lines[where ys = "drop first ls"]) (simp_all add: ls_def[symmetric])
  have hl: "highlight (join_with NL win) b = join_with NL (hl_lines b win)" for b
    by (simp add: highlight_def split_join ne nw)
  have "slice (hl_lines False ls) first la = hl_lines (state_after False xs) win"
  proof -
    have "hl_lines False ls = hl_lines False xs @ hl_lines (state_after False xs) win @
        hl_lines (state_after (state_after False xs) win) (drop la ls)"
      using ls hl_lines_append by metis
    moreover have "length xs = first" "length win = la - first"
      using assms(2,3) by (simp_all add: xs_def win_def ls_def)
    ultimately show ?thesis by (simp add: slice_def)
  qed
  moreover have "renderWindow t ls (int first) (int la) =
      join_with NL (replicate first [] @ hl_lines (state_after False xs) win @ replicate (length ls - la) [])"
    (is "_ = join_with NL ?out")
  proof -
    have "hl_lines b win \<noteq> []" for b using ne by (cases win) auto
    then show ?thesis
      using assms(1-3) st hl
      by (simp add: renderWindow_def Let_def min_def max_def win_def[symmetric] xs_def[symmetric]
          ls_def[symmetric] join_with_blanks nat_diff_distrib)
  qed
  moreover have "split_on NL (join_with NL ?out) = ?out"
    using hl_lines_no_newline[OF nw] ne by (intro split_join) (cases win, auto)
  ultimately show ?thesis by (simp add: ls_def)
qed

theorem renderWindow_lines_witness:
  "split_on NL (renderWindow (''-- a'' @ NL # DQ # NL # ''OF'') [''-- a'', [DQ], ''OF''] 2 3) =
    [[], [], span ''str'' ''OF'']"
proof -
  have s: "split_on NL (''-- a'' @ NL # DQ # NL # ''OF'') = [''-- a'', [DQ], ''OF'']" by code_simp
  have "clear_lines False [''-- a'', [DQ], ''OF'']" by code_simp
  then have "split_on NL (renderWindow (''-- a'' @ NL # DQ # NL # ''OF'') [''-- a'', [DQ], ''OF''] 2 3) =
      replicate 2 [] @ slice (hl_lines False [''-- a'', [DQ], ''OF'']) 2 3 @ replicate (3 - 3) []"
    using renderWindow_lines[of "''-- a'' @ NL # DQ # NL # ''OF''" 2 3] unfolding s by simp
  also have "\<dots> = [[], [], span ''str'' ''OF'']" by code_simp
  finally show ?thesis .
qed

text \<open>
  The two scanners disagree where a word runs into a comment, as in \<open>END--\<close> followed by a
  quote: \<open>highlight\<close> takes the dashes into the word and sees the quote open a string, while
  \<open>stringStateAt\<close> sees the comment and reports no string, so the next line is painted in
  two ways.
\<close>

theorem glued_comment_disagrees:
  "snd (hl_line False (''END--'' @ [DQ])) \<and> \<not> stringStateAt (''END--'' @ [DQ] @ [NL] @ ''OF'') 7 \<and>
   hl_lines False [''END--'' @ [DQ], ''OF''] ! 1 = span ''str'' ''OF'' \<and>
   renderWindow (''END--'' @ [DQ] @ [NL] @ ''OF'') [''END--'' @ [DQ], ''OF''] 1 2 = NL # span ''kw'' ''OF''"
proof (intro conjI)
  show "snd (hl_line False (''END--'' @ [DQ]))" by code_simp
  show st: "\<not> stringStateAt (''END--'' @ [DQ] @ [NL] @ ''OF'') 7" by code_simp
  show "hl_lines False [''END--'' @ [DQ], ''OF''] ! 1 = span ''str'' ''OF''" by code_simp
  have "highlight ''OF'' False = span ''kw'' ''OF''" by code_simp
  with st show "renderWindow (''END--'' @ [DQ] @ [NL] @ ''OF'') [''END--'' @ [DQ], ''OF''] 1 2 = NL # span ''kw'' ''OF''"
    by (simp add: renderWindow_def slice_def)
qed

text \<open>
  When the view is scrolled beyond a buffer that became shorter, the mirror is drawn
  without an error but comes out one line taller than the text.
\<close>

theorem renderWindow_beyond_end:
  assumes "t \<noteq> []" "int (length (split_on NL t)) \<le> first"
  shows "length (split_on NL (renderWindow t (split_on NL t) first la)) = length (split_on NL t) + 1"
proof -
  have "highlight [] b = []" for b by (simp add: highlight_def hl_line.simps)
  then have "renderWindow t (split_on NL t) first la = replicate (length (split_on NL t)) NL"
    using assms by (simp add: renderWindow_def Let_def min_def max_def)
  moreover have "count_list (replicate n c) c = n" for n and c :: char by (induction n) auto
  ultimately show ?thesis by (simp only: length_split_on)
qed

theorem renderWindow_beyond_end_witness:
  "length (split_on NL (renderWindow ''a'' (split_on NL ''a'') 7 9)) = 2"
  using renderWindow_beyond_end[of "''a''" 7 9] by (simp add: NL_def)

end
