(* ===== verification/Burst_Gate.thy ===== *)
theory Burst_Gate
  imports Lens_Prelude
begin

text \<open>
  The rate gate in front of everything a trap can trigger, \<open>frontend/src/utils/burst.js\<close>.
  The clock is an argument of \<open>offer\<close>; the timer is the time at which it falls due, and
  \<open>setTimeout\<close> is modelled as the platform has it: it fires once, at or after that time,
  possibly late. A run is any interleaving of offers, timer firings and resets under a clock
  that does not go backwards. The lemmas show that every event is passed, reported in a
  summary, still pending or dropped by a reset, and how often events can pass.
\<close>

section \<open>The gate\<close>

record gate =
  windowEnds :: int
  suppressed :: nat
  timer :: "int option"

definition createBurstGate :: gate where
  "createBurstGate = \<lparr>windowEnds = 0, suppressed = 0, timer = None\<rparr>"

definition flush :: "gate \<Rightarrow> nat option \<times> gate" where
  "flush g = (if suppressed g > 0 then Some (suppressed g) else None,
     g\<lparr>timer := None, suppressed := 0, windowEnds := 0\<rparr>)"

definition offer :: "int \<Rightarrow> int \<Rightarrow> gate \<Rightarrow> bool \<times> gate" where
  "offer windowMs t g =
     (if windowEnds g \<le> t
      then (True, g\<lparr>windowEnds := t + windowMs,
              timer := (case timer g of None \<Rightarrow> Some (t + windowMs) | Some h \<Rightarrow> Some h)\<rparr>)
      else (False, g\<lparr>suppressed := suppressed g + 1\<rparr>))"

definition reset_gate :: "gate \<Rightarrow> gate" where
  "reset_gate g = g\<lparr>timer := None, suppressed := 0, windowEnds := 0\<rparr>"

definition pending :: "gate \<Rightarrow> nat" where "pending g = suppressed g"

definition capNewestFirst :: "'a list \<Rightarrow> nat \<Rightarrow> 'a list" where
  "capNewestFirst list mx = (if length list \<le> mx then list else slice list 0 mx)"

lemma capNewestFirst_take [simp]: "capNewestFirst xs n = take n xs"
  by (simp add: capNewestFirst_def)

section \<open>Runs\<close>

text \<open>What a run shows to the outside, newest first.\<close>

datatype gate_event = Passed int | Held | Summary nat | Dropped nat

record gate_run =
  clock :: int
  gate_of :: gate
  seen :: "gate_event list"

inductive gate_step :: "int \<Rightarrow> gate_run \<Rightarrow> gate_run \<Rightarrow> bool" for w where
  offer_passes: "clock s \<le> t \<Longrightarrow> offer w t (gate_of s) = (True, g) \<Longrightarrow>
    gate_step w s \<lparr>clock = t, gate_of = g, seen = Passed t # seen s\<rparr>"
| offer_held: "clock s \<le> t \<Longrightarrow> offer w t (gate_of s) = (False, g) \<Longrightarrow>
    gate_step w s \<lparr>clock = t, gate_of = g, seen = Held # seen s\<rparr>"
| fires: "clock s \<le> t \<Longrightarrow> timer (gate_of s) = Some due \<Longrightarrow> due \<le> t \<Longrightarrow>
    gate_step w s \<lparr>clock = t, gate_of = snd (flush (gate_of s)),
      seen = (case fst (flush (gate_of s)) of None \<Rightarrow> seen s | Some n \<Rightarrow> Summary n # seen s)\<rparr>"

inductive gate_reach :: "int \<Rightarrow> gate_run \<Rightarrow> bool" for w where
  start: "0 \<le> t \<Longrightarrow> gate_reach w \<lparr>clock = t, gate_of = createBurstGate, seen = []\<rparr>"
| step: "gate_reach w s \<Longrightarrow> gate_step w s s' \<Longrightarrow> gate_reach w s'"
| resets: "gate_reach w s \<Longrightarrow>
    gate_reach w (s\<lparr>gate_of := reset_gate (gate_of s), seen := Dropped (suppressed (gate_of s)) # seen s\<rparr>)"

inductive_cases gate_stepE: "gate_step w s s'"

fun is_passed :: "gate_event \<Rightarrow> bool" where
  "is_passed (Passed t) = True" | "is_passed _ = False"

definition held_count :: "gate_event list \<Rightarrow> nat" where "held_count evs = count_list evs Held"

fun told :: "gate_event \<Rightarrow> nat" where
  "told (Summary n) = n" | "told (Dropped n) = n" | "told _ = 0"

definition told_count :: "gate_event list \<Rightarrow> nat" where "told_count evs = sum_list (map told evs)"

lemmas gate_defs = offer_def flush_def reset_gate_def createBurstGate_def held_count_def told_count_def

text \<open>The times at which events passed since the last reset, newest first.\<close>

fun passes :: "gate_event list \<Rightarrow> int list" where
  "passes [] = []"
| "passes (Passed t # evs) = t # passes evs"
| "passes (Dropped n # evs) = []"
| "passes (_ # evs) = passes evs"

section \<open>Invariants\<close>

text \<open>Any three consecutive passes span at least a window.\<close>

fun spaced :: "int \<Rightarrow> int list \<Rightarrow> bool" where
  "spaced w (a # b # c # ts) = (b \<le> a \<and> c + w \<le> a \<and> spaced w (b # c # ts))"
| "spaced w [a, b] = (b \<le> a)"
| "spaced w _ = True"

fun rested :: "int \<Rightarrow> int list \<Rightarrow> bool" where
  "rested w (a # b # ts) = (b + w \<le> a)"
| "rested w _ = False"

text \<open>
  With a timer running the window ends a window after the last pass, and the timer falls due
  then, unless it is a late one, in which case the last two passes lie a window apart. After
  a timer fired, the window after the last pass is over, unless it was a late one.
\<close>

definition gate_inv :: "int \<Rightarrow> gate_run \<Rightarrow> bool" where
  "gate_inv w s \<longleftrightarrow> 0 \<le> clock s \<and> spaced w (passes (seen s)) \<and>
     (case passes (seen s) of
        [] \<Rightarrow> windowEnds (gate_of s) = 0 \<and> timer (gate_of s) = None
      | t # ts \<Rightarrow> t \<le> clock s \<and>
          (case timer (gate_of s) of
             None \<Rightarrow> windowEnds (gate_of s) = 0 \<and> (t + w \<le> clock s \<or> rested w (t # ts))
           | Some due \<Rightarrow> windowEnds (gate_of s) = t + w \<and> (t + w \<le> due \<or> rested w (t # ts))))"

lemma spaced_push:
  "spaced w (t # ts) \<Longrightarrow> t \<le> t' \<Longrightarrow> t + w \<le> t' \<or> rested w (t # ts) \<Longrightarrow> spaced w (t' # t # ts)"
  by (cases ts; cases "tl ts") auto

lemma gate_step_inv:
  assumes "gate_step w s s'" "gate_inv w s"
  shows "gate_inv w s'"
  using assms
proof (cases rule: gate_step.cases)
  case (offer_passes t g)
  with assms(2) show ?thesis
    by (cases "passes (seen s)")
       (auto simp: gate_inv_def offer_def spaced_push split: if_splits option.splits)
next
  case (offer_held t g)
  with assms(2) show ?thesis
    by (cases "passes (seen s)") (auto simp: gate_inv_def offer_def split: if_splits option.splits)
next
  case (fires t due)
  with assms(2) show ?thesis
    by (cases "passes (seen s)") (auto simp: gate_inv_def flush_def split: if_splits option.splits)
qed

lemma gate_reach_inv: "gate_reach w s \<Longrightarrow> gate_inv w s"
proof (induction rule: gate_reach.induct)
  case (step s s')
  then show ?case by (blast intro: gate_step_inv)
qed (auto simp: gate_inv_def gate_defs)

lemma spaced_in_window: "spaced w ts \<Longrightarrow> length (filter (\<lambda>t. a \<le> t \<and> t < a + w) ts) \<le> 2"
proof (induction w ts rule: spaced.induct)
  case (1 w x y z ts)
  show ?case
  proof (cases "a \<le> x \<and> x < a + w")
    case True
    have "u \<le> z" if "spaced w (y # z # ts)" "u \<in> set ts" for u
      using that by (induction "ts" arbitrary: y z) (auto, (case_tac ts; fastforce)+)
    with 1 True have "\<not> a \<le> u" if "u \<in> set (z # ts)" for u using that by fastforce
    then have "filter (\<lambda>t. a \<le> t \<and> t < a + w) (z # ts) = []" by (auto simp: filter_empty_conv)
    then show ?thesis by simp
  next
    case False
    then have "filter (\<lambda>t. a \<le> t \<and> t < a + w) (x # y # z # ts) = filter (\<lambda>t. a \<le> t \<and> t < a + w) (y # z # ts)"
      by simp
    with 1 show ?thesis by simp
  qed
qed auto

lemma gate_reach_balance: "gate_reach w s \<Longrightarrow> held_count (seen s) = told_count (seen s) + suppressed (gate_of s)"
proof (induction rule: gate_reach.induct)
  case (step s s')
  from step(2) step(3) show ?case
    by (cases rule: gate_step.cases) (auto simp: gate_defs split: if_splits)
qed (auto simp: gate_defs)

section \<open>Properties\<close>

text \<open>
  C10. Nothing is lost in silence: in every run, late timers and resets included, the events
  the gate held back are exactly those reported in summaries, those dropped by a reset and
  those still pending.
\<close>

theorem gate_accounts_for_every_event:
  assumes "gate_reach w s"
  shows "count_list (seen s) Held = told_count (seen s) + pending (gate_of s)"
  using gate_reach_balance[OF assms] by (simp add: held_count_def pending_def)

text \<open>A run: two traps in one window, the summary, and a trap that leads the next window.\<close>

definition sample_run :: gate_run where
  "sample_run = \<lparr>clock = 3500, gate_of = \<lparr>windowEnds = 6500, suppressed = 0, timer = Some 6500\<rparr>,
     seen = [Passed 3500, Summary 1, Held, Passed 100]\<rparr>"

lemma sample_run_reach: "gate_reach 3000 sample_run"
proof -
  let ?g1 = "\<lparr>windowEnds = 3100, suppressed = 0, timer = Some 3100\<rparr>"
  have "gate_reach 3000 \<lparr>clock = 0, gate_of = createBurstGate, seen = []\<rparr>"
    by (rule gate_reach.start) simp
  moreover have "gate_step 3000 \<lparr>clock = 0, gate_of = createBurstGate, seen = []\<rparr>
      \<lparr>clock = 100, gate_of = ?g1, seen = [Passed 100]\<rparr>"
    using gate_step.offer_passes[of "\<lparr>clock = 0, gate_of = createBurstGate, seen = []\<rparr>" 100 3000 ?g1]
    by (simp add: gate_defs)
  moreover have "gate_step 3000 \<lparr>clock = 100, gate_of = ?g1, seen = [Passed 100]\<rparr>
      \<lparr>clock = 200, gate_of = ?g1\<lparr>suppressed := 1\<rparr>, seen = [Held, Passed 100]\<rparr>"
    using gate_step.offer_held[of "\<lparr>clock = 100, gate_of = ?g1, seen = [Passed 100]\<rparr>" 200 3000 "?g1\<lparr>suppressed := 1\<rparr>"]
    by (simp add: gate_defs)
  moreover have "gate_step 3000 \<lparr>clock = 200, gate_of = ?g1\<lparr>suppressed := 1\<rparr>, seen = [Held, Passed 100]\<rparr>
      \<lparr>clock = 3100, gate_of = createBurstGate, seen = [Summary 1, Held, Passed 100]\<rparr>"
    using gate_step.fires[of "\<lparr>clock = 200, gate_of = ?g1\<lparr>suppressed := 1\<rparr>, seen = [Held, Passed 100]\<rparr>" 3100 3100 3000]
    by (simp add: gate_defs)
  moreover have "gate_step 3000 \<lparr>clock = 3100, gate_of = createBurstGate, seen = [Summary 1, Held, Passed 100]\<rparr> sample_run"
    using gate_step.offer_passes[of "\<lparr>clock = 3100, gate_of = createBurstGate, seen = [Summary 1, Held, Passed 100]\<rparr>"
        3500 3000 "\<lparr>windowEnds = 6500, suppressed = 0, timer = Some 6500\<rparr>"]
    by (simp add: gate_defs sample_run_def)
  ultimately show ?thesis by (meson gate_reach.step)
qed

theorem gate_accounts_for_every_event_witness:
  "count_list (seen sample_run) Held = 1 \<and> told_count (seen sample_run) + pending (gate_of sample_run) = 1"
  using gate_accounts_for_every_event[OF sample_run_reach] by (simp add: sample_run_def)

text \<open>
  However fast events are offered and however late the timers are, at most two pass in
  any stretch of time shorter than the window (between resets).
\<close>

theorem gate_rate_bound:
  assumes "gate_reach w s"
  shows "length (filter (\<lambda>t. a \<le> t \<and> t < a + w) (passes (seen s))) \<le> 2"
  using gate_reach_inv[OF assms] by (auto simp: gate_inv_def intro: spaced_in_window)

theorem gate_rate_bound_witness:
  "length (filter (\<lambda>t. 100 \<le> t \<and> t < 100 + 3000) (passes (seen sample_run))) \<le> 2 \<and>
   passes (seen sample_run) = [3500, 100]"
  using gate_rate_bound[OF sample_run_reach, of 100] by (simp add: sample_run_def)

end
