(* ===== verification/Js_Value.thy ===== *)
theory Js_Value
  imports Complex_Main Lens_Prelude
begin

text \<open>
  JavaScript values as the renderer gets them from \<open>JSON.parse\<close>, from local storage and from
  the bridge, and the operations the code applies to them: property access, the spread
  \<open>{...a, ...b}\<close>, truthiness and \<open>??\<close>. An object is the list of its properties in insertion
  order, so that the order \<open>JSON.stringify\<close> would write them in is part of the value. Numbers
  are rationals; reading a property of something that is not an object gives \<open>JUndef\<close>, as
  the optional chaining \<open>?.\<close> does.
\<close>

datatype jsval =
    JUndef
  | JNull
  | JBool bool
  | JNum rat
  | JStr string
  | JArr "jsval list"
  | JObj "(string \<times> jsval) list"

type_synonym fields = "(string \<times> jsval) list"

section \<open>Properties of an object\<close>

definition fget :: "fields \<Rightarrow> string \<Rightarrow> jsval" where
  "fget fs k = (case map_of fs k of None \<Rightarrow> JUndef | Some v \<Rightarrow> v)"

fun jget :: "jsval \<Rightarrow> string \<Rightarrow> jsval" where
  "jget (JObj fs) k = fget fs k"
| "jget _ k = JUndef"

text \<open>Assignment keeps the place of a property that exists and appends a new one.\<close>

fun fset :: "string \<Rightarrow> jsval \<Rightarrow> fields \<Rightarrow> fields" where
  "fset k v [] = [(k, v)]"
| "fset k v ((k', v') # fs) = (if k = k' then (k, v) # fs else (k', v') # fset k v fs)"

definition spread :: "fields \<Rightarrow> fields \<Rightarrow> fields" where
  "spread a b = foldl (\<lambda>fs (k, v). fset k v fs) a b"

definition fdel :: "string \<Rightarrow> fields \<Rightarrow> fields" where
  "fdel k fs = filter (\<lambda>(k', v). k' \<noteq> k) fs"

lemma fget_lookup: "fget [] k = JUndef" "fget ((a, v) # fs) k = (if k = a then v else fget fs k)"
  by (simp_all add: fget_def)

lemma map_of_fset: "map_of (fset k v fs) = (map_of fs)(k \<mapsto> v)"
  by (induction k v fs rule: fset.induct) (auto simp: fun_eq_iff)

lemma fget_fset [simp]: "fget (fset k v fs) k' = (if k' = k then v else fget fs k')"
  by (simp add: fget_def map_of_fset)

lemma map_of_spread: "distinct (map fst b) \<Longrightarrow> map_of (spread a b) = map_of a ++ map_of b"
proof (induction b arbitrary: a)
  case (Cons p b)
  obtain k v where p: "p = (k, v)" by (cases p)
  have "map_of (spread a ((k, v) # b)) = (map_of a)(k \<mapsto> v) ++ map_of b"
    using Cons p by (simp add: spread_def map_of_fset)
  moreover have "map_of b k = None" using Cons.prems p by (simp add: map_of_eq_None_iff)
  ultimately show ?case by (auto simp: p map_add_def fun_eq_iff split: option.splits)
qed (simp add: spread_def)

lemma fget_spread_None: "k \<notin> fst ` set b \<Longrightarrow> fget (spread a b) k = fget a k"
  by (induction b arbitrary: a) (auto simp: spread_def)

lemma fget_fdel [simp]: "fget (fdel k fs) k' = (if k' = k then JUndef else fget fs k')"
  by (induction fs) (auto simp: fdel_def fget_def)

section \<open>Conversions\<close>

fun truthy :: "jsval \<Rightarrow> bool" where
  "truthy JUndef = False"
| "truthy JNull = False"
| "truthy (JBool b) = b"
| "truthy (JNum q) = (q \<noteq> 0)"
| "truthy (JStr s) = (s \<noteq> [])"
| "truthy (JArr _) = True"
| "truthy (JObj _) = True"

text \<open>\<open>a ?? b\<close> and \<open>a || b\<close>.\<close>

definition nullish :: "jsval \<Rightarrow> bool" where "nullish v \<longleftrightarrow> v = JUndef \<or> v = JNull"

definition coalesce :: "jsval \<Rightarrow> jsval \<Rightarrow> jsval" where
  "coalesce a b = (if nullish a then b else a)"

definition jor :: "jsval \<Rightarrow> jsval \<Rightarrow> jsval" where
  "jor a b = (if truthy a then a else b)"

fun elems :: "jsval \<Rightarrow> jsval list" where
  "elems (JArr xs) = xs"
| "elems _ = []"

fun is_array :: "jsval \<Rightarrow> bool" where
  "is_array (JArr xs) = True"
| "is_array _ = False"

fun is_object :: "jsval \<Rightarrow> bool" where
  "is_object (JObj fs) = True"
| "is_object _ = False"

fun fields_of :: "jsval \<Rightarrow> fields" where
  "fields_of (JObj fs) = fs"
| "fields_of _ = []"

text \<open>\<open>{...v, k: x}\<close>: spreading something that is not an object adds nothing.\<close>

definition jset :: "string \<Rightarrow> jsval \<Rightarrow> jsval \<Rightarrow> jsval" where
  "jset k x v = JObj (fset k x (fields_of v))"

lemma jget_fields: "jget v k = fget (fields_of v) k"
  by (cases v) (simp_all add: fget_def)

lemma jget_jset [simp]: "jget (jset k x v) k' = (if k' = k then x else jget v k')"
  by (simp add: jset_def jget_fields)

lemma truthy_jget_object: "truthy (jget v k) \<Longrightarrow> is_object v"
  by (cases v) simp_all

end
