(* ===== verification/Live_Feeds.thy ===== *)
theory Live_Feeds
  imports Burst_Gate Js_Value
begin

text \<open>
  The lists that grow while the program runs: the toasts of \<open>stores/notifications.js\<close>, the
  SNMP history of \<open>stores/historyStore.js\<close>, the saved queries of \<open>stores/queriesStore.js\<close> and
  the favourites of \<open>stores/favoritesStore.js\<close> (all under \<open>frontend/src\<close>). Entries are objects,
  clocks, random numbers and what the backend answers are arguments, and the calls a store
  makes to the backend are part of its state, newest first. What the lists share, a bound
  and the newest first, is the locale \<open>capped_feed\<close>.
\<close>

section \<open>A list fed from the front\<close>

locale capped_feed =
  fixes push :: "'a \<Rightarrow> 'a list \<Rightarrow> 'a list" and bound :: nat
  assumes push: "push x xs = take bound (x # xs)"
begin

lemma bounded: "length (push x xs) \<le> bound"
  by (simp add: push)

lemma feeds: "length xs \<le> bound \<Longrightarrow> fold push ys xs = take bound (rev ys @ xs)"
proof (induction ys arbitrary: xs)
  case (Cons y ys)
  have "fold push (y # ys) xs = take bound (rev ys @ take bound (y # xs))"
    using Cons.IH[of "push y xs"] bounded[of y xs] by (simp add: push[of y xs] del: take_Suc_Cons)
  also have "\<dots> = take bound (rev ys @ y # xs)"
  proof -
    have "min (bound - length ys) bound = bound - length ys" by simp
    then show ?thesis by (simp only: take_append take_take length_rev)
  qed
  finally show ?case by simp
qed simp

text \<open>After any number of additions the list holds the newest entries, in order, and no others.\<close>

lemma holds_newest: "fold push ys [] = take bound (rev ys)"
  using feeds[of "[]" ys] by simp

lemma keeps_distinct: "distinct (map k (rev ys @ xs)) \<Longrightarrow> length xs \<le> bound \<Longrightarrow> distinct (map k (fold push ys xs))"
  unfolding feeds by (metis distinct_take take_map)

end

section \<open>Toasts\<close>

definition MAX_TOASTS :: nat where "MAX_TOASTS = 6"

record 'm toast =
  toast_id :: string
  toast_message :: 'm
  toast_type :: string

text \<open>The list is oldest first; a timer is its due time and the toast it removes.\<close>

record 'm toasts =
  shown :: "'m toast list"
  toastSeq :: nat
  toast_timers :: "(nat \<times> string) list"

definition no_toasts :: "'m toasts" where
  "no_toasts = \<lparr>shown = [], toastSeq = 0, toast_timers = []\<rparr>"

definition toast_add :: "nat \<Rightarrow> 'm \<Rightarrow> string \<Rightarrow> nat \<Rightarrow> 'm toasts \<Rightarrow> 'm toasts" where
  "toast_add now message ty timeout s =
     (let i = show_nat now @ ''-'' @ show_nat (toastSeq s);
          nxt = shown s @ [\<lparr>toast_id = i, toast_message = message, toast_type = ty\<rparr>]
      in \<lparr>shown = (if length nxt > MAX_TOASTS then drop (length nxt - MAX_TOASTS) nxt else nxt),
          toastSeq = toastSeq s + 1,
          toast_timers = (if timeout \<noteq> 0 then (now + timeout, i) # toast_timers s else toast_timers s)\<rparr>)"

definition toast_remove :: "string \<Rightarrow> 'm toasts \<Rightarrow> 'm toasts" where
  "toast_remove i s = s\<lparr>shown := filter (\<lambda>n. toast_id n \<noteq> i) (shown s)\<rparr>"

inductive toast_reach :: "'m toasts \<Rightarrow> bool" where
  empty: "toast_reach no_toasts"
| adds: "toast_reach s \<Longrightarrow> toast_reach (toast_add now message ty timeout s)"
| dismisses: "toast_reach s \<Longrightarrow> toast_reach (toast_remove i s)"
| expires: "toast_reach s \<Longrightarrow> (due, i) \<in> set (toast_timers s) \<Longrightarrow>
    toast_reach (toast_remove i (s\<lparr>toast_timers := removeAll (due, i) (toast_timers s)\<rparr>))"

text \<open>The identifiers carry the sequence number after their last hyphen.\<close>

definition stamped :: "nat \<Rightarrow> string \<Rightarrow> bool" where
  "stamped n i \<longleftrightarrow> (\<exists>pre k. k < n \<and> i = pre @ ''-'' @ show_nat k)"

lemma stamped_fresh: "stamped n i \<Longrightarrow> i \<noteq> pre @ ''-'' @ show_nat n"
proof
  assume "stamped n i" "i = pre @ ''-'' @ show_nat n"
  then obtain pre' k where k: "k < n" "pre' @ CHR ''-'' # show_nat k = pre @ CHR ''-'' # show_nat n"
    by (auto simp: stamped_def)
  have "CHR ''-'' \<notin> set (show_nat m)" for m by (rule show_nat_no_char) simp
  with last_part_inject[OF k(2)] k(1) show_base_inject[of 10 k n] show False by simp
qed

lemma stamped_Suc: "stamped n i \<Longrightarrow> stamped (Suc n) i" "stamped (Suc n) (pre @ ''-'' @ show_nat n)"
  by (auto simp: stamped_def) (metis less_Suc_eq)

definition toast_inv :: "'m toasts \<Rightarrow> bool" where
  "toast_inv s \<longleftrightarrow> length (shown s) \<le> MAX_TOASTS \<and> distinct (map toast_id (shown s)) \<and>
     (\<forall>n \<in> set (shown s). stamped (toastSeq s) (toast_id n))"

lemma toast_remove_inv: "toast_inv s \<Longrightarrow> toast_inv (toast_remove i s)"
  by (auto simp: toast_inv_def toast_remove_def distinct_map_filter intro: le_trans[OF length_filter_le])

lemma toast_add_inv:
  assumes "toast_inv s"
  shows "toast_inv (toast_add now message ty timeout s)"
proof -
  let ?i = "show_nat now @ ''-'' @ show_nat (toastSeq s)"
  have fresh: "?i \<notin> toast_id ` set (shown s)" proof
    assume "?i \<in> toast_id ` set (shown s)"
    then have "stamped (toastSeq s) ?i" using assms unfolding toast_inv_def by (metis imageE)
    then show False using stamped_fresh by blast
  qed
  define nxt where "nxt = shown s @ [\<lparr>toast_id = ?i, toast_message = message, toast_type = ty\<rparr>]"
  have nxt: "distinct (map toast_id nxt)" "\<forall>n \<in> set nxt. stamped (Suc (toastSeq s)) (toast_id n)"
    using assms fresh stamped_Suc unfolding nxt_def toast_inv_def by auto
  obtain k where k: "shown (toast_add now message ty timeout s) = drop k nxt" "length (drop k nxt) \<le> MAX_TOASTS"
  proof (cases "length nxt > MAX_TOASTS")
    case True
    with that[of "length nxt - MAX_TOASTS"] show ?thesis by (simp add: toast_add_def nxt_def Let_def)
  next
    case False
    with that[of 0] show ?thesis by (simp add: toast_add_def nxt_def Let_def)
  qed
  have "distinct (map toast_id (drop k nxt))" using nxt(1) by (metis distinct_drop drop_map)
  moreover have "toastSeq (toast_add now message ty timeout s) = Suc (toastSeq s)"
    by (simp add: toast_add_def Let_def)
  moreover have "\<forall>n \<in> set (drop k nxt). stamped (Suc (toastSeq s)) (toast_id n)"
    using nxt(2) by (meson in_set_dropD)
  ultimately show ?thesis using k unfolding toast_inv_def by simp
qed

lemma toast_reach_inv: "toast_reach s \<Longrightarrow> toast_inv s"
proof (induction rule: toast_reach.induct)
  case (expires s due i)
  have "toast_inv (s\<lparr>toast_timers := removeAll (due, i) (toast_timers s)\<rparr>)"
    using expires.IH by (simp add: toast_inv_def)
  then show ?case by (rule toast_remove_inv)
qed (simp_all add: toast_add_inv toast_remove_inv, simp add: toast_inv_def no_toasts_def)

section \<open>The SNMP history\<close>

definition MAX_HISTORY_ENTRIES :: nat where "MAX_HISTORY_ENTRIES = 2000"

datatype hist_call =
    SaveHistoryEntry fields
  | DeleteHistoryEntry jsval
  | DeleteHistoryEntries "jsval list"
  | ClearHistoryBackend
  | ImportHistoryEntries "fields list"

record hist =
  entries :: "fields list"
  histSeq :: nat
  hist_calls :: "hist_call list"
  live_key :: "string option"
  backup_key :: "string option"

definition hist_push :: "fields \<Rightarrow> fields list \<Rightarrow> fields list" where
  "hist_push e history = slice (e # history) 0 MAX_HISTORY_ENTRIES"

definition hist_add :: "nat \<Rightarrow> string \<Rightarrow> fields \<Rightarrow> hist \<Rightarrow> hist" where
  "hist_add now stamp entry h =
     (let newEntry = spread [(''id'', JStr (show_nat now @ ''-'' @ show_nat (histSeq h))),
                             (''timestamp'', JStr stamp)] entry
      in h\<lparr>entries := hist_push newEntry (entries h), histSeq := histSeq h + 1,
           hist_calls := SaveHistoryEntry newEntry # hist_calls h\<rparr>)"

definition hist_clear :: "hist \<Rightarrow> hist" where
  "hist_clear h = h\<lparr>entries := [], hist_calls := ClearHistoryBackend # hist_calls h\<rparr>"

definition hist_remove :: "jsval \<Rightarrow> hist \<Rightarrow> hist" where
  "hist_remove i h = h\<lparr>entries := filter (\<lambda>e. fget e ''id'' \<noteq> i) (entries h),
     hist_calls := DeleteHistoryEntry i # hist_calls h\<rparr>"

definition hist_removeMany :: "jsval list \<Rightarrow> hist \<Rightarrow> hist" where
  "hist_removeMany ids h = h\<lparr>entries := filter (\<lambda>e. fget e ''id'' \<notin> set ids) (entries h),
     hist_calls := DeleteHistoryEntries ids # hist_calls h\<rparr>"

text \<open>
  \<open>JSON.parse\<close> and \<open>String\<close> are arguments: \<open>parse\<close> gives \<open>None\<close> where it throws. Whether the
  import into the database succeeded is \<open>imported\<close>. A history is stored as an array of
  objects.
\<close>

definition with_string_id :: "(jsval \<Rightarrow> string) \<Rightarrow> jsval \<Rightarrow> fields" where
  "with_string_id str e = fset ''id'' (JStr (str (jget e ''id''))) (fields_of e)"

definition migrateLegacy ::
  "(string \<Rightarrow> jsval option) \<Rightarrow> (jsval \<Rightarrow> string) \<Rightarrow> bool \<Rightarrow> hist \<Rightarrow> fields list \<times> hist" where
  "migrateLegacy parse str imported h =
     (case live_key h of
        None \<Rightarrow> ([], h)
      | Some legacy \<Rightarrow>
          if legacy = [] then ([], h)
          else (case parse legacy of
                  None \<Rightarrow> ([], h)
                | Some v \<Rightarrow>
                    if \<not> is_array v \<or> elems v = [] then ([], h\<lparr>live_key := None\<rparr>)
                    else if list_ex nullish (elems v) then ([], h)
                    else let normalized = map (with_string_id str) (elems v);
                             h' = h\<lparr>hist_calls := ImportHistoryEntries normalized # hist_calls h\<rparr>
                         in if imported
                            then (normalized, h'\<lparr>backup_key := Some legacy, live_key := None\<rparr>)
                            else ([], h')))"

text \<open>
  The end of \<open>init\<close>: \<open>loaded\<close> is what \<open>LoadHistory\<close> answered (\<open>None\<close>: it failed; \<open>Some None\<close>: not
  an array), and \<open>h\<close> is the store at that time, with what was added meanwhile.
\<close>

definition merge_pending :: "fields list \<Rightarrow> fields list \<Rightarrow> fields list" where
  "merge_pending current loaded =
     filter (\<lambda>e. fget e ''id'' \<notin> (\<lambda>x. fget x ''id'') ` set loaded) current @ loaded"

definition hist_init ::
  "(string \<Rightarrow> jsval option) \<Rightarrow> (jsval \<Rightarrow> string) \<Rightarrow> bool \<Rightarrow> fields list option option \<Rightarrow> hist \<Rightarrow> hist" where
  "hist_init parse str imported loaded h =
     (case loaded of
        None \<Rightarrow>
          (let raw = (case live_key h of Some (c # cs) \<Rightarrow> Some (c # cs) | _ \<Rightarrow> backup_key h)
           in h\<lparr>entries := (case raw of
                  Some (c # cs) \<Rightarrow> (case parse (c # cs) of Some v \<Rightarrow> map fields_of (elems v) | None \<Rightarrow> [])
                | _ \<Rightarrow> [])\<rparr>)
      | Some r \<Rightarrow>
          (let l = (case r of None \<Rightarrow> [] | Some xs \<Rightarrow> xs);
               (l', h') = (if l = [] then migrateLegacy parse str imported h else (l, h))
           in h'\<lparr>entries := merge_pending (entries h') l'\<rparr>))"

definition hist_import ::
  "(string \<Rightarrow> jsval option) \<Rightarrow> (jsval \<Rightarrow> string) \<Rightarrow> nat \<Rightarrow> bool \<Rightarrow> bool \<Rightarrow> fields list option option \<Rightarrow> string
    \<Rightarrow> hist \<Rightarrow> bool \<times> hist" where
  "hist_import parse str now cleared imported loaded jsonString h =
     (case parse jsonString of
        None \<Rightarrow> (False, h)
      | Some v \<Rightarrow>
          if \<not> is_array v then (False, h)
          else let renumber = (\<lambda>(out, n) e.
                      if nullish (jget e ''id'')
                      then (out @ [fset ''id'' (JStr (show_nat now @ ''-'' @ show_nat n)) (fields_of e)], n + 1)
                      else (out @ [with_string_id str e], n));
                   readable = takeWhile (\<lambda>e. \<not> nullish e) (elems v);
                   (normalized, n) = foldl renumber ([], histSeq h) readable;
                   h1 = h\<lparr>histSeq := n\<rparr>;
                   h2 = h1\<lparr>hist_calls := ClearHistoryBackend # hist_calls h1\<rparr>;
                   h3 = h2\<lparr>hist_calls := ImportHistoryEntries normalized # hist_calls h2\<rparr>
               in if readable \<noteq> elems v then (False, h1)
                  else if \<not> cleared then (False, h2)
                  else (case (imported, loaded) of
                          (True, Some r) \<Rightarrow>
                            (True, h3\<lparr>entries := (case r of Some xs \<Rightarrow> xs | None \<Rightarrow> normalized)\<rparr>)
                        | _ \<Rightarrow> (False, h3)))"

interpretation history: capped_feed hist_push MAX_HISTORY_ENTRIES
  by unfold_locales (simp add: hist_push_def)


lemma merge_pending_keeps:
  "e \<in> set current \<Longrightarrow> \<exists>e' \<in> set (merge_pending current loaded). fget e' ''id'' = fget e ''id''"
  by (cases "fget e ''id'' \<in> (\<lambda>x. fget x ''id'') ` set loaded")
     (auto simp: merge_pending_def image_iff)

lemma merge_pending_distinct:
  assumes "distinct (map (\<lambda>e. fget e ''id'') current)" "distinct (map (\<lambda>e. fget e ''id'') loaded)"
  shows "distinct (map (\<lambda>e. fget e ''id'') (merge_pending current loaded))"
  using assms by (auto simp: merge_pending_def distinct_map_filter)

section \<open>Saved queries\<close>

definition MAX_QUERIES :: nat where "MAX_QUERIES = 100"

text \<open>\<open>stored\<close> is what local storage holds; a write that fails is caught and leaves it.\<close>

record store =
  items :: "fields list"
  stored :: "fields list option"

definition save_items :: "bool \<Rightarrow> fields list \<Rightarrow> store \<Rightarrow> store" where
  "save_items written xs s = \<lparr>items = xs, stored = (if written then Some xs else stored s)\<rparr>"

definition load_items :: "store \<Rightarrow> store" where
  "load_items s = (case stored s of Some xs \<Rightarrow> s\<lparr>items := xs\<rparr> | None \<Rightarrow> s)"

definition query_push :: "fields \<Rightarrow> fields list \<Rightarrow> fields list" where
  "query_push q qs = slice (q # qs) 0 MAX_QUERIES"

definition query_add :: "bool \<Rightarrow> rat \<Rightarrow> string \<Rightarrow> fields \<Rightarrow> store \<Rightarrow> store" where
  "query_add written i stamp query s =
     save_items written
       (query_push (spread [(''id'', JNum i), (''createdAt'', JStr stamp), (''lastUsedAt'', JStr stamp)] query) (items s)) s"

definition query_remove :: "bool \<Rightarrow> jsval \<Rightarrow> store \<Rightarrow> store" where
  "query_remove written i s = save_items written (filter (\<lambda>q. fget q ''id'' \<noteq> i) (items s)) s"

definition query_markUsed :: "bool \<Rightarrow> jsval \<Rightarrow> string \<Rightarrow> store \<Rightarrow> store" where
  "query_markUsed written i stamp s =
     save_items written (map (\<lambda>q. if fget q ''id'' = i then fset ''lastUsedAt'' (JStr stamp) q else q) (items s)) s"

interpretation queries: capped_feed query_push MAX_QUERIES
  by unfold_locales (simp add: query_push_def)

section \<open>Favourites\<close>

definition favorite_add :: "bool \<Rightarrow> rat \<Rightarrow> jsval \<Rightarrow> jsval \<Rightarrow> store \<Rightarrow> store" where
  "favorite_add written now node path s =
     (if list_ex (\<lambda>f. fget f ''oid'' = jget node ''oid'') (items s) then s
      else save_items written (items s @
        [[(''oid'', jget node ''oid''), (''name'', jget node ''name''), (''type'', jget node ''mibType''),
          (''path'', jor path (jget node ''name'')), (''addedAt'', JNum now)]]) s)"

definition favorite_remove :: "bool \<Rightarrow> jsval \<Rightarrow> store \<Rightarrow> store" where
  "favorite_remove written i s = save_items written (filter (\<lambda>f. fget f ''oid'' \<noteq> i) (items s)) s"

definition isFavorite :: "jsval \<Rightarrow> fields list \<Rightarrow> bool" where
  "isFavorite i favorites = list_ex (\<lambda>f. fget f ''oid'' = i) favorites"

definition favorites_clear :: "store \<Rightarrow> store" where
  "favorites_clear s = \<lparr>items = [], stored = None\<rparr>"

definition favorites_import :: "(string \<Rightarrow> jsval option) \<Rightarrow> bool \<Rightarrow> string \<Rightarrow> store \<Rightarrow> bool \<times> store" where
  "favorites_import parse written jsonString s =
     (case parse jsonString of
        None \<Rightarrow> (False, s)
      | Some v \<Rightarrow> if is_array v then (True, save_items written (map fields_of (elems v)) s) else (False, s))"

text \<open>A favourite is toggled by its identifier, which at most one entry has.\<close>

lemma favorite_add_is: "isFavorite (jget node ''oid'') (items (favorite_add w now node path s))"
  by (auto simp: isFavorite_def favorite_add_def save_items_def fget_def list_ex_iff)

lemma favorite_add_distinct:
  "distinct (map (\<lambda>f. fget f ''oid'') (items s)) \<Longrightarrow>
   distinct (map (\<lambda>f. fget f ''oid'') (items (favorite_add w now node path s)))"
  by (auto simp: favorite_add_def save_items_def fget_def list_ex_iff)

lemma favorite_add_remove:
  assumes "\<not> isFavorite (jget node ''oid'') (items s)"
  shows "items (favorite_remove w' (jget node ''oid'') (favorite_add w now node path s)) = items s"
  using assms by (auto simp: favorite_add_def favorite_remove_def save_items_def isFavorite_def
      list_ex_iff fget_def filter_id_conv)

section \<open>Properties\<close>

text \<open>
  Whatever is raised, dismissed or expires, in whatever order and at whatever times, at
  most six toasts are shown and no two share an identifier, so that dismissing one never
  takes another with it.
\<close>

theorem toasts_bounded_and_distinct:
  assumes "toast_reach s"
  shows "length (shown s) \<le> 6 \<and> distinct (map toast_id (shown s)) \<and>
    (\<forall>n \<in> set (shown s). shown (toast_remove (toast_id n) s) = remove1 n (shown s))"
proof -
  have i: "toast_inv s" by (rule toast_reach_inv[OF assms])
  have "filter (\<lambda>x. toast_id x \<noteq> toast_id n) xs = remove1 n xs"
    if "distinct (map toast_id xs)" "n \<in> set xs" for n :: "'a toast" and xs
    using that
  proof (induction xs)
    case (Cons x xs)
    then show ?case
      by (cases "x = n") (auto intro!: filter_True, metis image_eqI)
  qed simp
  with i show ?thesis by (simp add: toast_inv_def MAX_TOASTS_def toast_remove_def)
qed

theorem toasts_bounded_and_distinct_witness:
  "distinct (map toast_id (shown (toast_add 7 ''a'' ''info'' 5000 (toast_add 7 ''b'' ''info'' 0 no_toasts))))"
proof -
  have "toast_reach (toast_add 7 ''a'' ''info'' 5000 (toast_add 7 ''b'' ''info'' 0 no_toasts))"
    by (intro toast_reach.adds toast_reach.empty)
  from toasts_bounded_and_distinct[OF this] show ?thesis by simp
qed

text \<open>
  Loading the stored history while operations are running loses none of them: the
  entries added meanwhile stand in front, in their order, each once, and the loaded ones
  follow unchanged.
\<close>

theorem history_init_keeps_pending:
  assumes "loaded \<noteq> []" "distinct (map (\<lambda>e. fget e ''id'') (entries h))"
    "distinct (map (\<lambda>e. fget e ''id'') loaded)"
  shows "\<exists>pend. entries (hist_init parse str imported (Some (Some loaded)) h) = pend @ loaded \<and>
      set pend \<subseteq> set (entries h) \<and>
      (\<forall>e \<in> set (entries h). fget e ''id'' \<in> (\<lambda>x. fget x ''id'') ` set (pend @ loaded)) \<and>
      distinct (map (\<lambda>e. fget e ''id'') (pend @ loaded))"
proof -
  have "entries (hist_init parse str imported (Some (Some loaded)) h) = merge_pending (entries h) loaded"
    using assms(1) by (simp add: hist_init_def)
  with merge_pending_distinct[OF assms(2,3)] show ?thesis
    by (intro exI[of _ "filter (\<lambda>e. fget e ''id'' \<notin> (\<lambda>x. fget x ''id'') ` set loaded) (entries h)"])
       (auto simp: merge_pending_def)
qed


theorem history_init_keeps_pending_witness:
  "\<exists>pend. entries (hist_init (\<lambda>s. None) (\<lambda>v. []) True (Some (Some [[(''id'', JStr ''1'')]]))
      \<lparr>entries = [[(''id'', JStr ''2'')]], histSeq = 3, hist_calls = [], live_key = None, backup_key = None\<rparr>)
    = pend @ [[(''id'', JStr ''1'')]] \<and> pend \<noteq> []"
  using history_init_keeps_pending[of "[[(''id'', JStr ''1'')]]"
      "\<lparr>entries = [[(''id'', JStr ''2'')]], histSeq = 3, hist_calls = [], live_key = None, backup_key = None\<rparr>"
      "\<lambda>s. None" "\<lambda>v. []" True]
  by (auto simp: fget_def)

text \<open>When loading fails, the entries added meanwhile are dropped from the list on screen.\<close>

lemma history_init_failure_drops_pending:
  "entries (hist_init parse str imported None
     \<lparr>entries = [[(''id'', JStr ''2'')]], histSeq = 3, hist_calls = [], live_key = None, backup_key = None\<rparr>) = []"
  by (simp add: hist_init_def)

end
