(* ===== verification/Event_Journal.thy ===== *)
theory Event_Journal
  imports Live_Feeds
begin

text \<open>
  The event journal's list on screen, \<open>frontend/src/stores/eventsStore.js\<close>. An asynchronous
  operation is two steps, what it does before its \<open>await\<close> and what it does with the answer,
  so that the steps of several operations and the live events from the backend interleave
  freely. The lemmas show that the list never holds an event twice, and that the visible
  list together with its cursor is always the newest part of the journal with no event
  skipped, as long as no page is in flight while the list is cut.
\<close>

section \<open>State\<close>

record jevent =
  ev_id :: string
  ev_seq :: nat
  ev_category :: string
  ev_session :: string
  ev_severity :: string
  ev_acked :: bool

record jfilter =
  f_categories :: "string list"
  f_unackedOnly :: bool
  f_sessionId :: string

definition no_filter :: jfilter where
  "no_filter = \<lparr>f_categories = [], f_unackedOnly = False, f_sessionId = []\<rparr>"

record page =
  p_items :: "jevent list"
  p_total :: nat
  p_nextCursor :: nat

record journal =
  j_items :: "jevent list"
  j_total :: nat
  j_nextCursor :: nat
  j_loading :: bool
  j_error :: "string option"
  j_filter :: jfilter
  j_unacked :: nat

definition matchesFilter :: "jevent \<Rightarrow> jfilter \<Rightarrow> bool" where
  "matchesFilter ev f =
     (if f_categories f \<noteq> [] \<and> ev_category ev \<notin> set (f_categories f) then False
      else if f_unackedOnly f \<and> ev_acked ev then False
      else if f_sessionId f \<noteq> [] \<and> ev_session ev \<noteq> f_sessionId f then False
      else True)"

section \<open>Operations\<close>

definition refreshCounts :: "nat option \<Rightarrow> journal \<Rightarrow> journal" where
  "refreshCounts c s = (case c of Some n \<Rightarrow> s\<lparr>j_unacked := n\<rparr> | None \<Rightarrow> s)"

definition load_begin :: "jfilter \<Rightarrow> journal \<Rightarrow> journal" where
  "load_begin f s = s\<lparr>j_loading := True, j_error := None, j_filter := f\<rparr>"

definition load_end :: "jfilter \<Rightarrow> string + page \<Rightarrow> journal \<Rightarrow> journal" where
  "load_end f answer s =
     (case answer of
        Inr p \<Rightarrow> s\<lparr>j_items := p_items p, j_total := p_total p, j_nextCursor := p_nextCursor p,
                   j_loading := False, j_error := None, j_filter := f\<rparr>
      | Inl e \<Rightarrow> s\<lparr>j_loading := False, j_error := Some e\<rparr>)"

fun dedupe_loop :: "string list \<Rightarrow> jevent list \<Rightarrow> jevent list" where
  "dedupe_loop known [] = []"
| "dedupe_loop known (e # es) =
     (if ev_id e \<in> set known then dedupe_loop known es else e # dedupe_loop (ev_id e # known) es)"

definition dedupeById :: "jevent list \<Rightarrow> jevent list" where
  "dedupeById es = dedupe_loop [] es"

text \<open>The query \<open>loadMore\<close> sends, if it sends one: the filter and cursor it read.\<close>

definition loadMore_begin :: "journal \<Rightarrow> (jfilter \<times> nat) option \<times> journal" where
  "loadMore_begin s =
     (if j_nextCursor s = 0 \<or> j_loading s then (None, s)
      else (Some (j_filter s, j_nextCursor s), s\<lparr>j_loading := True\<rparr>))"

definition loadMore_end :: "string + page \<Rightarrow> journal \<Rightarrow> journal" where
  "loadMore_end answer s =
     (case answer of
        Inr p \<Rightarrow> s\<lparr>j_items := dedupeById (j_items s @ p_items p),
                   j_total := (if p_total p \<noteq> 0 then p_total p else j_total s),
                   j_nextCursor := p_nextCursor p, j_loading := False\<rparr>
      | Inl e \<Rightarrow> s\<lparr>j_loading := False, j_error := Some e\<rparr>)"

definition ack :: "string list \<Rightarrow> journal \<Rightarrow> journal" where
  "ack ids s = (if ids = [] then s else
     s\<lparr>j_items := map (\<lambda>e. if ev_id e \<in> set ids then e\<lparr>ev_acked := True\<rparr> else e) (j_items s)\<rparr>)"

definition remove_events :: "string list \<Rightarrow> journal \<Rightarrow> journal" where
  "remove_events ids s = (if ids = [] then s else
     s\<lparr>j_items := filter (\<lambda>e. ev_id e \<notin> set ids) (j_items s)\<rparr>)"

definition MAX_LIVE_ITEMS :: nat where "MAX_LIVE_ITEMS = 2000"

definition on_event :: "jevent \<Rightarrow> journal \<Rightarrow> journal" where
  "on_event ev s0 =
     (let s = s0\<lparr>j_unacked := j_unacked s0 + (if ev_acked ev then 0 else 1)\<rparr> in
      if j_nextCursor s \<noteq> 0 \<and> j_items s = [] then s
      else if \<not> matchesFilter ev (j_filter s) then s
      else if list_ex (\<lambda>e. ev_id e = ev_id ev) (j_items s) then s
      else let xs = ev # j_items s in
           if length xs \<le> MAX_LIVE_ITEMS then s\<lparr>j_items := xs, j_total := j_total s + 1\<rparr>
           else let kept = slice xs 0 MAX_LIVE_ITEMS in
                s\<lparr>j_items := kept, j_total := j_total s + 1,
                  j_nextCursor := (if ev_seq (last kept) \<noteq> 0 then ev_seq (last kept) else j_nextCursor s)\<rparr>)"

section \<open>Announcing an incident\<close>

definition NOTIFY_FROM :: "string list" where "NOTIFY_FROM = [''major'', ''critical'']"
definition NOTIFY_COOLDOWN_MS :: nat where "NOTIFY_COOLDOWN_MS = 30000"

record announcement =
  an_toast :: bool
  an_native :: bool
  an_sound :: bool

definition silent :: announcement where
  "silent = \<lparr>an_toast = False, an_native = False, an_sound = False\<rparr>"

text \<open>The toast and the notification raised, and when the desktop was last notified.\<close>

definition announce :: "bool \<Rightarrow> bool \<Rightarrow> nat \<Rightarrow> jevent \<Rightarrow> nat \<Rightarrow> announcement \<times> nat" where
  "announce systemNotifications alertSound now ev lastNotifiedAt =
     (if ev_acked ev \<or> ev_severity ev \<notin> set NOTIFY_FROM then (silent, lastNotifiedAt)
      else if int now - int lastNotifiedAt < int NOTIFY_COOLDOWN_MS
      then (silent\<lparr>an_toast := True\<rparr>, lastNotifiedAt)
      else (\<lparr>an_toast = True, an_native = systemNotifications,
             an_sound = systemNotifications \<and> alertSound\<rparr>, now))"

lemma announce_cooldown:
  "an_native (fst (announce sysn sound now ev lastAt)) \<Longrightarrow> lastAt + NOTIFY_COOLDOWN_MS \<le> now"
  by (auto simp: announce_def silent_def split: if_splits)

section \<open>No event twice\<close>

definition ids :: "jevent list \<Rightarrow> string list" where "ids es = map ev_id es"

lemma dedupe_loop_ids:
  "distinct (ids (dedupe_loop known es)) \<and> set (ids (dedupe_loop known es)) = set (ids es) - set known"
  by (induction known es rule: dedupe_loop.induct) (auto simp: ids_def)

lemma dedupe_loop_distinct:
  "distinct (ids es) \<Longrightarrow> set (ids es) \<inter> set known = {} \<Longrightarrow> dedupe_loop known es = es"
  by (induction known es rule: dedupe_loop.induct) (auto simp: ids_def)

lemma dedupe_loop_append:
  "distinct (ids xs) \<Longrightarrow> set (ids xs) \<inter> set known = {} \<Longrightarrow>
   dedupe_loop known (xs @ ys) = xs @ dedupe_loop (rev (ids xs) @ known) ys"
  by (induction known xs rule: dedupe_loop.induct) (auto simp: ids_def)

text \<open>
  A step of the store: the parts of its operations, in any interleaving. A page the backend
  answers holds no event twice.
\<close>

inductive journal_step :: "journal \<Rightarrow> journal \<Rightarrow> bool" where
  "journal_step s (load_begin f s)"
| "distinct (ids (p_items p)) \<Longrightarrow> journal_step s (load_end f (Inr p) s)"
| "journal_step s (load_end f (Inl e) s)"
| "journal_step s (snd (loadMore_begin s))"
| "journal_step s (loadMore_end answer s)"
| "journal_step s (ack i s)"
| "journal_step s (remove_events i s)"
| "journal_step s (on_event ev s)"
| "journal_step s (refreshCounts c s)"

definition empty_journal :: journal where
  "empty_journal = \<lparr>j_items = [], j_total = 0, j_nextCursor = 0, j_loading = False,
     j_error = None, j_filter = no_filter, j_unacked = 0\<rparr>"

inductive journal_reach :: "journal \<Rightarrow> bool" where
  start: "journal_reach empty_journal"
| step: "journal_reach s \<Longrightarrow> journal_step s s' \<Longrightarrow> journal_reach s'"

lemma on_event_items:
  "j_items (on_event ev s) = j_items s \<or>
   ev_id ev \<notin> set (ids (j_items s)) \<and> j_items (on_event ev s) = take MAX_LIVE_ITEMS (ev # j_items s)"
  by (auto simp: on_event_def Let_def list_ex_iff ids_def)

lemma journal_step_distinct:
  assumes "journal_step s s'" "distinct (ids (j_items s))"
  shows "distinct (ids (j_items s'))"
  using assms
proof (cases rule: journal_step.cases)
  case (8 ev)
  have "distinct (ids (take n (ev # j_items s)))" if "ev_id ev \<notin> set (ids (j_items s))" for n
    using that assms(2) unfolding ids_def take_map[symmetric] by (intro distinct_take) simp
  with 8 assms(2) on_event_items[of ev s] show ?thesis by auto
next
  case (5 answer)
  with assms(2) dedupe_loop_ids[of "[]"] show ?thesis
    by (cases answer) (simp_all add: loadMore_end_def dedupeById_def)
next
  case (6 i)
  have "ev_id (if b then e\<lparr>ev_acked := True\<rparr> else e) = ev_id e" for b e by simp
  then have "ids (map (\<lambda>e. if ev_id e \<in> set i then e\<lparr>ev_acked := True\<rparr> else e) es) = ids es" for es
    by (simp add: ids_def)
  with 6 assms(2) show ?thesis by (simp add: ack_def)
next
  case (7 i)
  with assms(2) show ?thesis by (simp add: remove_events_def ids_def distinct_map_filter)
qed (auto simp: load_begin_def load_end_def loadMore_begin_def refreshCounts_def split: option.splits)

section \<open>The list and the journal it is a view of\<close>

text \<open>
  The journal in the database, newest first, and the page the backend answers to a query
  (\<open>QueryEvents\<close> in \<open>pkg/storage/events.go\<close>): the first \<open>limit\<close> matching rows below the
  cursor, and a next cursor when the page is full.
\<close>

definition query_page :: "jevent list \<Rightarrow> jfilter \<Rightarrow> nat \<Rightarrow> nat \<Rightarrow> page" where
  "query_page rows f before limit =
     (let m = filter (\<lambda>e. matchesFilter e f) rows;
          xs = take limit (if before > 0 then filter (\<lambda>e. ev_seq e < before) m else m)
      in \<lparr>p_items = xs, p_total = length m,
          p_nextCursor = (if length xs = limit then ev_seq (last xs) else 0)\<rparr>)"

definition journal_rows :: "jevent list \<Rightarrow> bool" where
  "journal_rows rows \<longleftrightarrow> sorted_wrt (\<lambda>a b. ev_seq b < ev_seq a) rows \<and>
     distinct (ids rows) \<and> (\<forall>e \<in> set rows. 0 < ev_seq e)"

definition matching :: "jevent list \<Rightarrow> journal \<Rightarrow> jevent list" where
  "matching rows s = filter (\<lambda>e. matchesFilter e (j_filter s)) rows"

text \<open>
  The journal and the window: a query replaces the list, an event is stored and then
  emitted, and a further page arrives, events in between or not, while the cursor it was
  asked for is still the list's.
\<close>

inductive view :: "jevent list \<Rightarrow> journal \<Rightarrow> bool" where
  loaded: "journal_rows rows \<Longrightarrow> 0 < limit \<Longrightarrow>
    view rows (load_end f (Inr (query_page rows f 0 limit)) (load_begin f s))"
| live: "view rows s \<Longrightarrow> journal_rows (ev # rows) \<Longrightarrow> view (ev # rows) (on_event ev s)"
| more: "view rows s \<Longrightarrow> 0 < limit \<Longrightarrow> j_nextCursor s = c \<Longrightarrow> c \<noteq> 0 \<Longrightarrow>
    view rows (loadMore_end (Inr (query_page rows (j_filter s) c limit)) s)"
| asks: "view rows s \<Longrightarrow> view rows (snd (loadMore_begin s))"
| fails: "view rows s \<Longrightarrow> view rows (loadMore_end (Inl e) s)"

definition view_inv :: "jevent list \<Rightarrow> journal \<Rightarrow> bool" where
  "view_inv rows s \<longleftrightarrow> journal_rows rows \<and>
     (if j_nextCursor s = 0 then j_items s = matching rows s
      else j_items s \<noteq> [] \<and> ev_seq (last (j_items s)) = j_nextCursor s \<and>
        (\<exists>rest. matching rows s = j_items s @ rest))"

lemma journal_rows_filter: "journal_rows rows \<Longrightarrow> journal_rows (filter P rows)"
  by (auto simp: journal_rows_def sorted_wrt_filter ids_def distinct_map_filter)

lemma below_cursor:
  assumes "journal_rows (xs @ rest)" "xs \<noteq> []"
  shows "filter (\<lambda>e. ev_seq e < ev_seq (last xs)) (xs @ rest) = rest"
proof -
  have "\<not> ev_seq e < ev_seq (last xs)" if "e \<in> set xs" for e
  proof -
    have "xs = butlast xs @ [last xs]" using assms(2) by simp
    then have "sorted_wrt (\<lambda>a b. ev_seq b < ev_seq a) (butlast xs @ [last xs])"
      using assms(1) by (simp add: journal_rows_def sorted_wrt_append)
    then show ?thesis using that assms(2)
      by (metis (no_types, lifting) append_butlast_last_id in_set_conv_decomp_first less_asym
          less_irrefl list.set_intros(1) set_ConsD sorted_wrt_append Un_iff set_append empty_iff list.set(1))
  qed
  moreover have "\<forall>e \<in> set rest. ev_seq e < ev_seq (last xs)"
    using assms by (simp add: journal_rows_def sorted_wrt_append)
  ultimately show ?thesis by (simp add: filter_empty_conv filter_id_conv)
qed

text \<open>A full page is a prefix of what it was cut from, and its last row is the new cursor.\<close>

lemma page_cursor:
  assumes "0 < limit" "\<forall>e \<in> set m. 0 < ev_seq e"
  shows "let xs = take limit m; c = (if length xs = limit then ev_seq (last xs) else 0) in
    if c = 0 then xs = m else xs \<noteq> [] \<and> ev_seq (last xs) = c"
proof (cases "length (take limit m) = limit")
  case True
  then have "take limit m \<noteq> []" using assms(1) by auto
  moreover from this have "last (take limit m) \<in> set m" by (meson in_set_takeD last_in_set)
  ultimately show ?thesis using True assms(2) by (auto simp: Let_def)
qed (auto simp: Let_def)

lemma view_inv_live:
  assumes "view_inv rows s" "journal_rows (ev # rows)"
  shows "view_inv (ev # rows) (on_event ev s)"
proof -
  let ?m = "matching rows s"
  have pos: "0 < ev_seq e" if "e \<in> set (ev # rows)" for e
    using assms(2) that by (auto simp: journal_rows_def)
  have sub: "set (j_items s) \<subseteq> set rows"
    using assms(1) by (auto simp: view_inv_def matching_def split: if_splits dest!: arg_cong[where f = set])
  have fresh: "\<not> list_ex (\<lambda>e. ev_id e = ev_id ev) (j_items s)"
    using assms(2) sub by (auto simp: journal_rows_def ids_def list_ex_iff) (metis image_eqI subsetD)
  have guard: "\<not> (j_nextCursor s \<noteq> 0 \<and> j_items s = [])"
    using assms(1) by (auto simp: view_inv_def split: if_splits)
  show ?thesis
  proof (cases "matchesFilter ev (j_filter s) \<and> length (ev # j_items s) > MAX_LIVE_ITEMS")
    case True
    define kept where "kept = take MAX_LIVE_ITEMS (ev # j_items s)"
    have k: "kept \<noteq> []" "last kept \<in> set (ev # rows)"
    proof -
      show "kept \<noteq> []" by (simp add: kept_def MAX_LIVE_ITEMS_def)
      then have "last kept \<in> set (ev # j_items s)" unfolding kept_def by (meson in_set_takeD last_in_set)
      with sub show "last kept \<in> set (ev # rows)" by auto
    qed
    have "\<exists>rest. ev # ?m = (ev # j_items s) @ rest"
      using assms(1) by (auto simp: view_inv_def split: if_splits)
    then obtain rest where "ev # ?m = kept @ rest"
      unfolding kept_def by (metis append.assoc append_take_drop_id)
    moreover have s': "j_items (on_event ev s) = kept" "j_nextCursor (on_event ev s) = ev_seq (last kept)"
        "j_filter (on_event ev s) = j_filter s"
      using True fresh guard pos[OF k(2)] unfolding kept_def
      by (simp_all add: on_event_def Let_def del: take_Suc_Cons split: if_split) auto
    moreover have "matching (ev # rows) (on_event ev s) = ev # ?m"
      using True s'(3) by (simp add: matching_def)
    ultimately show ?thesis using k pos[OF k(2)] assms(2) by (auto simp: view_inv_def)
  next
    case False
    then show ?thesis
      using assms fresh guard
      by (auto simp: view_inv_def on_event_def Let_def matching_def)
  qed
qed


lemma view_inv_page:
  assumes "view_inv rows s" "0 < limit" "j_nextCursor s = c" "c \<noteq> 0"
  shows "view_inv rows (loadMore_end (Inr (query_page rows (j_filter s) c limit)) s)"
proof -
  from assms obtain rest where m: "matching rows s = j_items s @ rest" "j_items s \<noteq> []"
      "ev_seq (last (j_items s)) = c" "journal_rows rows"
    by (auto simp: view_inv_def)
  have jm: "journal_rows (j_items s @ rest)" using journal_rows_filter[OF m(4)] m(1) unfolding matching_def by metis
  have r: "filter (\<lambda>e. ev_seq e < c) (matching rows s) = rest" using below_cursor[OF jm m(2)] m(1,3) by simp
  let ?xs = "take limit rest"
  have d: "dedupeById (j_items s @ ?xs) = j_items s @ ?xs"
    using jm unfolding dedupeById_def
    by (intro dedupe_loop_distinct) (auto simp: journal_rows_def ids_def distinct_map inj_on_subset[OF _ set_take_subset]
      dest!: in_set_takeD)
  have p: "p_items (query_page rows (j_filter s) c limit) = ?xs"
      "p_nextCursor (query_page rows (j_filter s) c limit) = (if length ?xs = limit then ev_seq (last ?xs) else 0)"
    using r assms(4) by (simp_all add: query_page_def Let_def matching_def)
  have pos: "\<forall>e \<in> set rest. 0 < ev_seq e" using jm by (simp add: journal_rows_def)
  define s' where "s' = loadMore_end (Inr (query_page rows (j_filter s) c limit)) s"
  have s': "j_items s' = j_items s @ ?xs"
      "j_nextCursor s' = (if length ?xs = limit then ev_seq (last ?xs) else 0)"
      "matching rows s' = (j_items s @ ?xs) @ drop limit rest"
    using d p m(1) by (simp_all add: s'_def loadMore_end_def matching_def)
  show ?thesis
    using page_cursor[OF assms(2) pos] m(2,4) s' unfolding s'_def[symmetric] view_inv_def Let_def
    by (cases "j_nextCursor s' = 0") (simp_all add: last_append, metis append_take_drop_id)
qed

lemma view_inv_load:
  assumes "journal_rows rows" "0 < limit"
  shows "view_inv rows (load_end f (Inr (query_page rows f 0 limit)) (load_begin f s))"
proof -
  let ?m = "filter (\<lambda>e. matchesFilter e f) rows"
  have "\<forall>e \<in> set ?m. 0 < ev_seq e" using assms(1) by (simp add: journal_rows_def)
  from page_cursor[OF assms(2) this] assms(1) show ?thesis
    by (auto simp: view_inv_def load_end_def query_page_def Let_def matching_def split: if_splits)
       (metis append_take_drop_id)+
qed

lemma view_view_inv: "view rows s \<Longrightarrow> view_inv rows s"
proof (induction rule: view.induct)
  case (asks rows s)
  then show ?case by (auto simp: view_inv_def loadMore_begin_def matching_def)
next
  case (fails rows s e)
  then show ?case by (auto simp: view_inv_def loadMore_end_def matching_def)
qed (simp_all add: view_inv_load view_inv_live view_inv_page)

section \<open>Properties\<close>

text \<open>
  In every interleaving of loading, paging, acknowledging, deleting and live events, the
  list never holds two events with one identifier, on which the keyed list would throw.
\<close>

theorem journal_never_repeats:
  assumes "journal_reach s"
  shows "distinct (map ev_id (j_items s))"
proof -
  have "distinct (ids (j_items s))"
    using assms by induction (simp_all add: empty_journal_def ids_def[of "[]"] journal_step_distinct)
  then show ?thesis by (simp add: ids_def)
qed

definition sample_event :: "nat \<Rightarrow> jevent" where
  "sample_event n = \<lparr>ev_id = show_nat n, ev_seq = n, ev_category = ''trap'', ev_session = [],
     ev_severity = ''major'', ev_acked = False\<rparr>"

theorem journal_never_repeats_witness:
  "distinct (map ev_id (j_items (on_event (sample_event 1) (on_event (sample_event 1) empty_journal))))"
proof -
  have "journal_reach (on_event (sample_event 1) (on_event (sample_event 1) empty_journal))"
    by (rule journal_reach.step[OF journal_reach.step[OF journal_reach.start]]; rule journal_step.intros)
  then show ?thesis by (rule journal_never_repeats)
qed



text \<open>
  A journal of two rows more than the list may hold, its first page, and the event that cuts
  the list while the next page is asked for.
\<close>

definition full_rows :: "jevent list" where
  "full_rows = map sample_event (rev [1..<MAX_LIVE_ITEMS + 3])"

definition full_view :: journal where
  "full_view = load_end no_filter (Inr (query_page full_rows no_filter 0 MAX_LIVE_ITEMS)) (load_begin no_filter empty_journal)"

definition cutting_event :: jevent where
  "cutting_event = sample_event (MAX_LIVE_ITEMS + 3)"

lemma sample_event_simps:
  "ev_seq (sample_event n) = n" "ev_id (sample_event n) = show_nat n" "matchesFilter (sample_event n) no_filter"
  by (simp_all add: sample_event_def matchesFilter_def no_filter_def)

lemma sample_events_match:
  "filter (\<lambda>e. matchesFilter e no_filter) (map sample_event xs) = map sample_event xs"
  by (simp add: sample_event_simps filter_id_conv)

lemma sample_rows: "journal_rows (map sample_event (rev [1..<n]))"
  by (auto simp: journal_rows_def ids_def sample_event_simps distinct_map inj_on_def show_base_inject
      sorted_wrt_map sorted_wrt_rev)

lemma take_newest:
  assumes "k \<le> Suc k'"
  shows "take N (map sample_event (rev [k..<N + Suc k'])) = map sample_event (rev [Suc k'..<N + Suc k'])"
proof -
  have "rev [k..<N + Suc k'] = rev [Suc k'..<N + Suc k'] @ rev [k..<Suc k']"
    using upt_add_eq_append[OF assms, of N] by (simp add: add.commute flip: rev_append del: upt_Suc)
  then show ?thesis by (simp add: take_map del: upt_Suc)
qed

lemma full_view_simps:
  "j_items full_view = map sample_event (rev [3..<MAX_LIVE_ITEMS + 3])" "j_nextCursor full_view = 3"
  "j_filter full_view = no_filter" "\<not> j_loading full_view"
proof -
  let ?items = "map sample_event (rev [3..<MAX_LIVE_ITEMS + 3])"
  have "take MAX_LIVE_ITEMS full_rows = ?items"
    using take_newest[of 1 2 MAX_LIVE_ITEMS] by (simp add: full_rows_def numeral_3_eq_3 del: upt_Suc)
  moreover have "filter (\<lambda>e. matchesFilter e no_filter) full_rows = full_rows"
    unfolding full_rows_def by (rule sample_events_match)
  moreover have "length full_rows = MAX_LIVE_ITEMS + 2" by (simp add: full_rows_def del: upt_Suc)
  moreover have pos: "0 < MAX_LIVE_ITEMS" by (simp add: MAX_LIVE_ITEMS_def)
  from pos have "ev_seq (last ?items) = 3"
    by (simp add: sample_event_simps last_map last_rev hd_upt del: upt_Suc)
  ultimately have "query_page full_rows no_filter 0 MAX_LIVE_ITEMS =
      \<lparr>p_items = ?items, p_total = MAX_LIVE_ITEMS + 2, p_nextCursor = 3\<rparr>"
    by (simp add: query_page_def Let_def del: upt_Suc)
  then show "j_items full_view = ?items" "j_nextCursor full_view = 3"
      "j_filter full_view = no_filter" "\<not> j_loading full_view"
    by (simp_all add: full_view_def load_end_def)
qed

lemma full_view_view: "view full_rows full_view"
  unfolding full_view_def full_rows_def
  by (rule view.loaded[OF sample_rows]) (simp add: MAX_LIVE_ITEMS_def)

lemma full_view_cut:
  "j_items (on_event cutting_event (snd (loadMore_begin full_view))) = map sample_event (rev [4..<MAX_LIVE_ITEMS + 4])"
proof -
  let ?s = "snd (loadMore_begin full_view)"
  have s: "j_items ?s = j_items full_view" "j_nextCursor ?s = 3" "j_filter ?s = no_filter"
    by (simp_all add: loadMore_begin_def full_view_simps)
  have fresh: "\<not> list_ex (\<lambda>e. ev_id e = ev_id cutting_event) (j_items full_view)"
    by (auto simp: cutting_event_def full_view_simps list_ex_iff sample_event_simps show_base_inject)
  have "length (j_items full_view) = MAX_LIVE_ITEMS" by (simp add: full_view_simps)
  moreover from this have "j_items full_view \<noteq> []" by (auto simp: MAX_LIVE_ITEMS_def)
  ultimately have "j_items (on_event cutting_event ?s) = take MAX_LIVE_ITEMS (cutting_event # j_items full_view)"
    using s fresh by (simp add: on_event_def Let_def cutting_event_def sample_event_simps del: take_Suc_Cons)
  also have "cutting_event # j_items full_view = map sample_event (rev [3..<MAX_LIVE_ITEMS + Suc 3])"
  proof -
    have "[3..<MAX_LIVE_ITEMS + Suc 3] = [3..<MAX_LIVE_ITEMS + 3] @ [MAX_LIVE_ITEMS + 3]"
      unfolding add_Suc_right by (rule upt_Suc_append) simp
    then show ?thesis
      by (simp only: full_view_simps cutting_event_def rev_append rev.simps append.simps list.map)
  qed
  finally show ?thesis using take_newest[of 3 3 MAX_LIVE_ITEMS] by (simp del: upt_Suc)
qed

lemma filter_kept: "j_filter (on_event ev s) = j_filter s" "j_filter (snd (loadMore_begin s)) = j_filter s"
  by (simp_all add: on_event_def loadMore_begin_def Let_def)

lemma next_page:
  "query_page (cutting_event # full_rows) no_filter 3 1 =
     \<lparr>p_items = [sample_event 2], p_total = length (cutting_event # full_rows), p_nextCursor = 2\<rparr>"
proof -
  have "[1..<MAX_LIVE_ITEMS + 3] = [1, 2] @ [3..<MAX_LIVE_ITEMS + 3]"
    by (simp add: upt_conv_Cons numeral_3_eq_3 numeral_2_eq_2 del: upt_Suc)
  then have low: "filter (\<lambda>e. ev_seq e < 3) (cutting_event # full_rows) = [sample_event 2, sample_event 1]"
    by (simp add: full_rows_def cutting_event_def sample_event_simps filter_empty_conv del: upt_Suc)
  have "filter (\<lambda>e. matchesFilter e no_filter) (cutting_event # full_rows) = cutting_event # full_rows"
    using sample_events_match[of "(MAX_LIVE_ITEMS + 3) # rev [1..<MAX_LIVE_ITEMS + 3]"]
    by (simp only: full_rows_def cutting_event_def list.map)
  then show ?thesis unfolding query_page_def Let_def by (simp only: low) (simp add: sample_event_simps)
qed

text \<open>
  A live event that cuts the list while a page is in flight opens a hole after all: the
  page's cursor replaces the repaired one, and the event that was cut is neither on screen
  nor in any page still to come.
\<close>

theorem cut_in_flight_skips:
  "\<exists>rows s ev s' lost. view rows s \<and> fst (loadMore_begin s) = Some (j_filter s, j_nextCursor s) \<and>
     s' = loadMore_end (Inr (query_page (ev # rows) (j_filter s) (j_nextCursor s) 1))
            (on_event ev (snd (loadMore_begin s))) \<and>
     lost \<in> set rows \<and> matchesFilter lost (j_filter s') \<and> lost \<notin> set (j_items s') \<and>
     \<not> (j_nextCursor s' \<noteq> 0 \<and> ev_seq lost < j_nextCursor s')"
proof -
  define s' where "s' = loadMore_end (Inr (query_page (cutting_event # full_rows) no_filter 3 1))
      (on_event cutting_event (snd (loadMore_begin full_view)))"
  have s': "j_items s' = dedupeById (map sample_event (rev [4..<MAX_LIVE_ITEMS + 4]) @ [sample_event 2])"
      "j_nextCursor s' = 2" "j_filter s' = no_filter"
    by (simp_all add: s'_def loadMore_end_def next_page[unfolded One_nat_def] full_view_cut full_view_simps filter_kept)
  have "set (ids (j_items s')) = show_nat ` ({4..<MAX_LIVE_ITEMS + 4} \<union> {2})"
    unfolding s'(1) dedupeById_def
    using dedupe_loop_ids[of "[]" "map sample_event (rev [4..<MAX_LIVE_ITEMS + 4]) @ [sample_event 2]"]
    by (auto simp: ids_def sample_event_simps simp del: upt_Suc)
  then have "show_nat 3 \<notin> set (ids (j_items s'))" by (auto simp: show_base_inject)
  then have "sample_event 3 \<notin> set (j_items s')"
    using sample_event_simps(2)[of 3] by (metis ids_def image_eqI list.set_map)
  moreover have "sample_event 3 \<in> set full_rows" by (auto simp: full_rows_def MAX_LIVE_ITEMS_def simp del: upt_Suc)
  moreover have "fst (loadMore_begin full_view) = Some (no_filter, 3)" by (simp add: loadMore_begin_def full_view_simps)
  ultimately show ?thesis
    using full_view_view s' sample_event_simps
    by (intro exI[of _ full_rows] exI[of _ full_view] exI[of _ cutting_event] exI[of _ s'] exI[of _ "sample_event 3"])
       (simp add: s'_def full_view_simps)
qed

end
