(* ===== verification/Trap_Feed.thy ===== *)
theory Trap_Feed
  imports Live_Feeds "HOL-Library.Sublist"
begin

text \<open>
  The trap store, \<open>frontend/src/stores/trapStore.js\<close>: what a received trap does to the window
  (a toast, a notification of the desktop with its lookup of the trap's name, an entry of the
  live list), starting and stopping the listener, and keeping the listener's SNMPv3 users in
  step with the settings. Translated messages are a key and its parameters, and the answers
  of the backend are arguments. The lemmas show that the two gates run as \<open>Burst_Gate\<close> has
  them, whatever the window does in between.
\<close>

section \<open>State\<close>

datatype message = Msg string "(string \<times> string) list"

record 'u trap_store =
  isListening :: bool
  traps :: "fields list"
  isPanelVisible :: bool
  isWindowFocused :: bool
  refused :: "(string \<times> string) list"
  appliedUsers :: "'u list option"
  trapSeq :: nat
  trapToastGate :: gate
  nativeTrapGate :: gate
  trap_toasts :: "message toasts"
  natives :: "message list"
  lookups :: "(nat \<times> string) list"

definition trap_store_init :: "fields list \<Rightarrow> 'u trap_store" where
  "trap_store_init initialTraps =
     \<lparr>isListening = False, traps = initialTraps, isPanelVisible = False, isWindowFocused = True,
      refused = [], appliedUsers = None, trapSeq = 0, trapToastGate = createBurstGate,
      nativeTrapGate = createBurstGate, trap_toasts = no_toasts, natives = [], lookups = []\<rparr>"

record trap_settings =
  nativeNotifications :: bool
  maxCount :: nat

definition MAX_TRAPS_DEFAULT :: nat where "MAX_TRAPS_DEFAULT = 1000"
definition toast_windowMs :: int where "toast_windowMs = 3000"
definition native_windowMs :: int where "native_windowMs = 10000"

definition nextTrapId :: "nat \<Rightarrow> nat \<Rightarrow> string" where
  "nextTrapId now k = ''t'' @ show_base 36 now @ ''-'' @ show_nat k"

definition add_toast :: "nat \<Rightarrow> message \<Rightarrow> string \<Rightarrow> 'u trap_store \<Rightarrow> 'u trap_store" where
  "add_toast now m ty s = s\<lparr>trap_toasts := toast_add now m ty 5000 (trap_toasts s)\<rparr>"

section \<open>A received trap\<close>

text \<open>\<open>str\<close> is \<open>String\<close>, \<open>details\<close> what \<open>GetOidDetails\<close> answers, \<open>None\<close> where it throws.\<close>

definition ends_with :: "string \<Rightarrow> string \<Rightarrow> bool" where
  "ends_with ending s \<longleftrightarrow> length ending \<le> length s \<and> drop (length s - length ending) s = ending"

definition is_trap_oid :: "(jsval \<Rightarrow> string) \<Rightarrow> jsval \<Rightarrow> bool" where
  "is_trap_oid str v =
     (let i = jget v ''oid'' in
      i = JStr ''snmpTrapOID.0'' \<or> i = JStr ''.1.3.6.1.6.3.1.1.4.1.0'' \<or> i = JStr ''1.3.6.1.6.3.1.1.4.1.0'' \<or>
      truthy i \<and> ends_with ''.1.6.3.1.1.4.1.0'' (str i))"

definition strip_dot :: "string \<Rightarrow> string" where
  "strip_dot s = (case s of CHR ''.'' # cs \<Rightarrow> cs | _ \<Rightarrow> s)"

definition or_text :: "(jsval \<Rightarrow> string) \<Rightarrow> jsval \<Rightarrow> string \<Rightarrow> string" where
  "or_text str v d = (if truthy v then str v else d)"

definition native_step ::
  "(jsval \<Rightarrow> string) \<Rightarrow> (string \<Rightarrow> jsval option) \<Rightarrow> nat \<Rightarrow> fields \<Rightarrow> 'u trap_store \<Rightarrow> 'u trap_store" where
  "native_step str details now trap s =
     (let var = List.find (is_trap_oid str) (elems (fget trap ''variables''));
          title = ''SNMP '' @ or_text str (fget trap ''pduType'') ''Trap'' @ '' from '' @ str (fget trap ''source'')
      in case var of
           None \<Rightarrow> s\<lparr>natives := Msg title [(''body'', ''Check application for details.'')] # natives s\<rparr>
         | Some v \<Rightarrow>
             let oidValue = strip_dot (str (jget v ''value''));
                 body = (case details oidValue of
                           None \<Rightarrow> oidValue
                         | Some d \<Rightarrow> if truthy (jget d ''name'')
                             then str (jget d ''name'') @ '' ('' @ oidValue @ '')'' else oidValue)
             in s\<lparr>lookups := (now, oidValue) # lookups s,
                  natives := Msg title [(''body'', if body = [] then ''Check application for details.'' else body)] # natives s\<rparr>)"

definition prepend_trap :: "(jsval \<Rightarrow> string) \<Rightarrow> trap_settings \<Rightarrow> nat \<Rightarrow> string \<Rightarrow> fields \<Rightarrow> 'u trap_store \<Rightarrow> 'u trap_store" where
  "prepend_trap str cfg now stamp trap s =
     (let has_id = truthy (fget trap ''id'');
          enriched = fset ''timestamp'' (jor (fget trap ''timestamp'') (JStr stamp))
            (fset ''pduType'' (jor (fget trap ''pduType'') (JStr ''Trap''))
            (fset ''id'' (if has_id then fget trap ''id'' else JStr (nextTrapId now (trapSeq s))) trap));
          mx = (if maxCount cfg = 0 then MAX_TRAPS_DEFAULT else maxCount cfg);
          newTraps = enriched # traps s
      in s\<lparr>trapSeq := trapSeq s + (if has_id then 0 else 1),
           traps := (if length newTraps > mx then slice newTraps 0 mx else newTraps)\<rparr>)"

definition toast_part :: "(jsval \<Rightarrow> string) \<Rightarrow> nat \<Rightarrow> fields \<Rightarrow> 'u trap_store \<Rightarrow> 'u trap_store" where
  "toast_part str now trap s =
     (if \<not> isPanelVisible s
      then let (ok, g) = offer toast_windowMs (int now) (trapToastGate s); s' = s\<lparr>trapToastGate := g\<rparr>
           in if ok
              then add_toast now (Msg ''traps.newTrapReceived''
                     [(''type'', or_text str (fget trap ''pduType'') ''Trap''), (''source'', str (fget trap ''source''))])
                     ''info'' s'
              else s'
      else s)"

definition native_part ::
  "(jsval \<Rightarrow> string) \<Rightarrow> (string \<Rightarrow> jsval option) \<Rightarrow> trap_settings \<Rightarrow> nat \<Rightarrow> fields \<Rightarrow> 'u trap_store \<Rightarrow> 'u trap_store" where
  "native_part str details cfg now trap s =
     (if nativeNotifications cfg \<and> \<not> isWindowFocused s
      then let (ok, g) = offer native_windowMs (int now) (nativeTrapGate s); s' = s\<lparr>nativeTrapGate := g\<rparr>
           in if ok then native_step str details now trap s' else s'
      else s)"

definition on_new_trap ::
  "(jsval \<Rightarrow> string) \<Rightarrow> (string \<Rightarrow> jsval option) \<Rightarrow> trap_settings \<Rightarrow> nat \<Rightarrow> string \<Rightarrow> fields
    \<Rightarrow> 'u trap_store \<Rightarrow> 'u trap_store" where
  "on_new_trap str details cfg now stamp trap s =
     prepend_trap str cfg now stamp trap (native_part str details cfg now trap (toast_part str now trap s))"

text \<open>The trailing summaries of the two gates, when their timers fire.\<close>

definition toast_summary :: "nat \<Rightarrow> 'u trap_store \<Rightarrow> 'u trap_store" where
  "toast_summary now s =
     (let (n, g) = flush (trapToastGate s); s' = s\<lparr>trapToastGate := g\<rparr> in
      case n of None \<Rightarrow> s'
      | Some k \<Rightarrow> add_toast now (Msg ''traps.moreTrapsReceived'' [(''count'', show_nat k)]) ''info'' s')"

definition native_summary :: "'u trap_store \<Rightarrow> 'u trap_store" where
  "native_summary s =
     (let (n, g) = flush (nativeTrapGate s); s' = s\<lparr>nativeTrapGate := g\<rparr> in
      case n of None \<Rightarrow> s'
      | Some k \<Rightarrow> s'\<lparr>natives := Msg ''SnmpLens'' [(''traps.moreTrapsReceived'', show_nat k)] # natives s'\<rparr>)"

section \<open>The listener and its users\<close>

record listener_info =
  li_refused :: "(string \<times> string) list"
  li_restarted :: bool
  li_users :: nat

definition reportRefused :: "nat \<Rightarrow> listener_info \<Rightarrow> bool \<Rightarrow> 'u trap_store \<Rightarrow> 'u trap_store" where
  "reportRefused now info announce s =
     (let s' = s\<lparr>refused := li_refused info\<rparr> in
      if \<not> announce then s'
      else foldl (\<lambda>st (user, reason). add_toast now
             (Msg ''profiles.trapUserRefused'' [(''user'', user), (''reason'', reason)]) ''warning'' st)
             s' (li_refused info))"

definition start_listener ::
  "nat \<Rightarrow> string \<Rightarrow> 'u list \<Rightarrow> string + listener_info \<Rightarrow> 'u trap_store \<Rightarrow> 'u trap_store" where
  "start_listener now port users answer s =
     (case answer of
        Inr info \<Rightarrow> reportRefused now info True
          (add_toast now (Msg ''traps.listenerStarted'' [(''port'', port)]) ''success''
            (s\<lparr>appliedUsers := Some users, isListening := True\<rparr>))
      | Inl e \<Rightarrow> add_toast now (Msg ''traps.listenerStartFailed'' [(''error'', e)]) ''error'' s)"

definition stop_listener :: "nat \<Rightarrow> string + unit \<Rightarrow> 'u trap_store \<Rightarrow> 'u trap_store" where
  "stop_listener now answer s =
     (case answer of
        Inr _ \<Rightarrow> add_toast now (Msg ''traps.listenerStopped2'' []) ''info'' (s\<lparr>isListening := False\<rparr>)
      | Inl e \<Rightarrow> add_toast now (Msg ''traps.listenerStopFailed'' [(''error'', e)]) ''error'' s)"

definition clearTraps :: "nat \<Rightarrow> 'u trap_store \<Rightarrow> 'u trap_store" where
  "clearTraps now s = add_toast now (Msg ''traps.allCleared'' []) ''info'' (s\<lparr>traps := []\<rparr>)"

definition on_trap_error :: "nat \<Rightarrow> string \<Rightarrow> 'u trap_store \<Rightarrow> 'u trap_store" where
  "on_trap_error now e s =
     add_toast now (Msg ''traps.listenerError'' [(''error'', e)]) ''error'' (s\<lparr>isListening := False\<rparr>)"

definition setPanelVisibility :: "bool \<Rightarrow> 'u trap_store \<Rightarrow> 'u trap_store" where
  "setPanelVisibility b s = s\<lparr>isPanelVisible := b\<rparr>"

definition setWindowFocus :: "bool \<Rightarrow> 'u trap_store \<Rightarrow> 'u trap_store" where
  "setWindowFocus b s = s\<lparr>isWindowFocused := b\<rparr>"

text \<open>The users to send, if any, and the state while the call runs; then its answer.\<close>

definition sync_begin :: "bool \<Rightarrow> 'u list \<Rightarrow> 'u trap_store \<Rightarrow> 'u list option \<times> 'u trap_store" where
  "sync_begin keychain_ok users s =
     (if \<not> keychain_ok then (None, s)
      else if appliedUsers s = Some users then (None, s)
      else (Some users, s\<lparr>appliedUsers := Some users\<rparr>))"

definition sync_end :: "nat \<Rightarrow> string + listener_info \<Rightarrow> 'u trap_store \<Rightarrow> 'u trap_store" where
  "sync_end now answer s =
     (case answer of
        Inr info \<Rightarrow>
          (let s1 = (if li_restarted info
                     then add_toast now (Msg ''profiles.trapUsersApplied'' [(''count'', show_nat (li_users info))]) ''info'' s
                     else s)
           in reportRefused now info (li_restarted info \<or> isListening s1) s1)
      | Inl e \<Rightarrow> on_trap_error now e s)"

section \<open>A window under fire\<close>

definition trap_limit :: "trap_settings \<Rightarrow> nat" where
  "trap_limit cfg = (if maxCount cfg = 0 then MAX_TRAPS_DEFAULT else maxCount cfg)"

text \<open>
  Traps arrive at any times under a clock that does not go backwards, timers fire when due
  or later, and everything else the window does happens in between. \<open>B\<close> bounds the limits
  the settings had.
\<close>

inductive trap_run :: "(jsval \<Rightarrow> string) \<Rightarrow> (string \<Rightarrow> jsval option) \<Rightarrow> nat \<Rightarrow> nat \<Rightarrow> 'u trap_store \<Rightarrow> bool"
  for str details B where
  start: "length initialTraps \<le> B \<Longrightarrow> trap_run str details B now (trap_store_init initialTraps)"
| arrives: "trap_run str details B c s \<Longrightarrow> c \<le> now \<Longrightarrow> trap_limit cfg \<le> B \<Longrightarrow>
    trap_run str details B now (on_new_trap str details cfg now stamp trap s)"
| toast_timer: "trap_run str details B c s \<Longrightarrow> c \<le> now \<Longrightarrow> timer (trapToastGate s) = Some due \<Longrightarrow>
    due \<le> int now \<Longrightarrow> trap_run str details B now (toast_summary now s)"
| native_timer: "trap_run str details B c s \<Longrightarrow> c \<le> now \<Longrightarrow> timer (nativeTrapGate s) = Some due \<Longrightarrow>
    due \<le> int now \<Longrightarrow> trap_run str details B now (native_summary s)"
| dismisses: "trap_run str details B c s \<Longrightarrow>
    trap_run str details B c (s\<lparr>trap_toasts := toast_remove i (trap_toasts s)\<rparr>)"
| panel: "trap_run str details B c s \<Longrightarrow> trap_run str details B c (setPanelVisibility b s)"
| focus: "trap_run str details B c s \<Longrightarrow> trap_run str details B c (setWindowFocus b s)"
| clears: "trap_run str details B c s \<Longrightarrow> trap_run str details B c (clearTraps c s)"
| errs: "trap_run str details B c s \<Longrightarrow> trap_run str details B c (on_trap_error c e s)"
| starts: "trap_run str details B c s \<Longrightarrow> trap_run str details B c (start_listener c port users answer s)"
| stops: "trap_run str details B c s \<Longrightarrow> trap_run str details B c (stop_listener c r s)"
| syncs: "trap_run str details B c s \<Longrightarrow> trap_run str details B c (snd (sync_begin ok users s))"
| synced: "trap_run str details B c s \<Longrightarrow> trap_run str details B c (sync_end c answer s)"

text \<open>What a step may not touch, and what it must keep.\<close>

definition same_gate :: "'u trap_store \<Rightarrow> 'u trap_store \<Rightarrow> bool" where
  "same_gate s s' \<longleftrightarrow> nativeTrapGate s' = nativeTrapGate s \<and> lookups s' = lookups s \<and>
     (length (traps s') \<le> length (traps s)) \<and> (toast_inv (trap_toasts s) \<longrightarrow> toast_inv (trap_toasts s'))"

lemma same_gate_trans: "same_gate s s' \<Longrightarrow> same_gate s' s'' \<Longrightarrow> same_gate s s''"
  by (auto simp: same_gate_def)

lemma same_gate_intros:
  "same_gate s (add_toast now m ty s)"
  "same_gate s (s\<lparr>refused := r\<rparr>)" "same_gate s (s\<lparr>isListening := b\<rparr>)"
  "same_gate s (s\<lparr>appliedUsers := u\<rparr>)" "same_gate s (s\<lparr>isPanelVisible := b\<rparr>)"
  "same_gate s (s\<lparr>isWindowFocused := b\<rparr>)" "same_gate s (s\<lparr>traps := []\<rparr>)"
  "same_gate s (s\<lparr>trapToastGate := g\<rparr>)" "same_gate s (s\<lparr>trap_toasts := toast_remove i (trap_toasts s)\<rparr>)"
  "same_gate s s"
  by (simp_all add: same_gate_def add_toast_def toast_add_inv toast_remove_inv)

lemma same_gate_reportRefused: "same_gate s (reportRefused now info a s)"
proof -
  have "same_gate st (foldl (\<lambda>st (user, reason). add_toast now (m user reason) ''warning'' st) st rs)"
    for st :: "'a trap_store" and rs :: "(string \<times> string) list" and m
  proof (induction rs arbitrary: st)
    case (Cons r rs)
    obtain u e where "r = (u, e)" by (cases r)
    with same_gate_trans[OF same_gate_intros(1) Cons] show ?case by simp
  qed (simp add: same_gate_intros)
  from same_gate_trans[OF same_gate_intros(2) this] show ?thesis
    by (simp add: reportRefused_def Let_def same_gate_intros)
qed

lemmas same_gates = same_gate_intros same_gate_reportRefused

lemma same_gate_ops:
  "same_gate s (setPanelVisibility b s)" "same_gate s (setWindowFocus b s)" "same_gate s (clearTraps c s)"
  "same_gate s (on_trap_error c e s)" "same_gate s (start_listener c port users answer s)"
  "same_gate s (stop_listener c r s)" "same_gate s (snd (sync_begin ok users s))"
  "same_gate s (sync_end c answer s)" "same_gate s (toast_summary c s)"
proof -
  note tr = same_gate_trans[OF _ same_gate_intros(1)]
  show err: "same_gate s (on_trap_error c e s)" for e unfolding on_trap_error_def by (intro tr same_gates)
  show "same_gate s (setPanelVisibility b s)" "same_gate s (setWindowFocus b s)"
    unfolding setPanelVisibility_def setWindowFocus_def by (rule same_gates)+
  show "same_gate s (clearTraps c s)" unfolding clearTraps_def by (intro tr same_gates)
  show "same_gate s (snd (sync_begin ok users s))" by (simp add: sync_begin_def same_gates)
  show "same_gate s (stop_listener c r s)"
    by (cases r) (auto simp: stop_listener_def intro: tr same_gates)
  have "same_gate s (s\<lparr>appliedUsers := Some users, isListening := True\<rparr>)" by (simp add: same_gate_def)
  then show "same_gate s (start_listener c port users answer s)"
    by (cases answer) (auto simp: start_listener_def intro: tr same_gates same_gate_trans[OF _ same_gate_reportRefused])
  show "same_gate s (sync_end c answer s)"
    using err same_gate_trans[OF same_gate_intros(1) same_gate_reportRefused]
    by (cases answer) (auto simp: sync_end_def Let_def same_gates)
  show "same_gate s (toast_summary c s)"
    using tr[OF same_gate_intros(8)] by (auto simp: toast_summary_def Let_def same_gates split: prod.splits option.splits)
qed

definition trap_inv :: "nat \<Rightarrow> nat \<Rightarrow> 'u trap_store \<Rightarrow> bool" where
  "trap_inv B c s \<longleftrightarrow> toast_inv (trap_toasts s) \<and> length (traps s) \<le> B \<and>
     (\<exists>r. gate_reach native_windowMs r \<and> clock r \<le> int c \<and> gate_of r = nativeTrapGate s \<and>
       subseq (map (\<lambda>l. int (fst l)) (lookups s)) (passes (seen r)))"

lemma trap_inv_same: "same_gate s s' \<Longrightarrow> trap_inv B c s \<Longrightarrow> c \<le> c' \<Longrightarrow> trap_inv B c' s'"
  by (fastforce simp: trap_inv_def same_gate_def)


lemma toast_part_same: "same_gate s (toast_part str now trap s)"
  using same_gate_trans[OF same_gate_intros(8) same_gate_intros(1)]
  by (auto simp: toast_part_def Let_def same_gates split: prod.splits)

lemma native_part_inv:
  assumes "trap_inv B c s" "c \<le> now"
  shows "trap_inv B now (native_part str details cfg now trap s)"
proof -
  from assms obtain r where r: "gate_reach native_windowMs r" "clock r \<le> int now" "gate_of r = nativeTrapGate s"
      "subseq (map (\<lambda>l. int (fst l)) (lookups s)) (passes (seen r))"
    by (auto simp: trap_inv_def)
  obtain ok g where o: "offer native_windowMs (int now) (nativeTrapGate s) = (ok, g)"
    by (cases "offer native_windowMs (int now) (nativeTrapGate s)")
  let ?r = "\<lparr>clock = int now, gate_of = g, seen = (if ok then Passed (int now) else Held) # seen r\<rparr>"
  have st: "gate_reach native_windowMs ?r"
    using gate_step.offer_passes[OF r(2), of native_windowMs g] gate_step.offer_held[OF r(2), of native_windowMs g]
      o r(3) gate_reach.step[OF r(1)] by (cases ok) simp_all
  have "subseq (map (\<lambda>l. int (fst l)) (lookups (native_step str details now trap s'))) (int now # passes (seen r))"
    if "lookups s' = lookups s" for s' :: "'a trap_store"
    using that r(4) by (auto simp: native_step_def Let_def split: option.splits)
  moreover have "toast_inv (trap_toasts s)" "length (traps s) \<le> B" using assms(1) by (auto simp: trap_inv_def)
  moreover have "trap_toasts (native_step str details now trap s') = trap_toasts s' \<and>
      traps (native_step str details now trap s') = traps s' \<and>
      nativeTrapGate (native_step str details now trap s') = nativeTrapGate s'" for s' :: "'a trap_store"
    by (auto simp: native_step_def Let_def split: option.splits)
  moreover have "trap_inv B now s" using assms trap_inv_same[OF same_gate_intros(10)] by blast
  ultimately show ?thesis
    using st o r(4) by (cases ok) (auto simp: native_part_def Let_def trap_inv_def intro!: exI[of _ ?r])
qed

lemma native_summary_inv:
  assumes "trap_inv B c s" "c \<le> now" "timer (nativeTrapGate s) = Some due" "due \<le> int now"
  shows "trap_inv B now (native_summary s)"
proof -
  from assms obtain r where r: "gate_reach native_windowMs r" "clock r \<le> int now" "gate_of r = nativeTrapGate s"
      "subseq (map (\<lambda>l. int (fst l)) (lookups s)) (passes (seen r))"
    by (auto simp: trap_inv_def)
  let ?r = "\<lparr>clock = int now, gate_of = snd (flush (gate_of r)),
      seen = (case fst (flush (gate_of r)) of None \<Rightarrow> seen r | Some n \<Rightarrow> Summary n # seen r)\<rparr>"
  have "gate_reach native_windowMs ?r"
    using gate_reach.step[OF r(1) gate_step.fires[OF r(2)]] assms(3,4) r(3) by simp
  moreover have "passes (seen ?r) = passes (seen r)" by (simp split: option.splits)
  moreover have "toast_inv (trap_toasts s)" "length (traps s) \<le> B" using assms(1) by (auto simp: trap_inv_def)
  ultimately show ?thesis
    using r(3,4)
    by (auto simp: native_summary_def Let_def trap_inv_def split: prod.splits option.splits intro!: exI[of _ ?r])
qed

lemma prepend_trap_inv:
  "trap_inv B c s \<Longrightarrow> trap_limit cfg \<le> B \<Longrightarrow> trap_inv B c (prepend_trap str cfg now stamp trap s)"
  by (auto simp: prepend_trap_def trap_inv_def trap_limit_def Let_def)

lemma trap_run_inv: "trap_run str details B c s \<Longrightarrow> trap_inv B c s"
proof (induction rule: trap_run.induct)
  case (start initialTraps now)
  have "gate_reach native_windowMs \<lparr>clock = 0, gate_of = createBurstGate, seen = []\<rparr>"
    by (rule gate_reach.start) simp
  with start show ?case
    by (auto simp: trap_inv_def trap_store_init_def toast_inv_def no_toasts_def
        intro!: exI[of _ "\<lparr>clock = 0, gate_of = createBurstGate, seen = []\<rparr>"])
next
  case (arrives c s now cfg stamp trap)
  then have "trap_inv B c (toast_part str now trap s)" by (blast intro: trap_inv_same[OF toast_part_same])
  with arrives show ?case by (simp add: on_new_trap_def prepend_trap_inv native_part_inv)
qed (blast intro: native_summary_inv trap_inv_same[OF same_gates(9)] trap_inv_same[OF same_gate_ops(1)]
    trap_inv_same[OF same_gate_ops(2)] trap_inv_same[OF same_gate_ops(3)] trap_inv_same[OF same_gate_ops(4)]
    trap_inv_same[OF same_gate_ops(5)] trap_inv_same[OF same_gate_ops(6)] trap_inv_same[OF same_gate_ops(7)]
    trap_inv_same[OF same_gate_ops(8)] trap_inv_same[OF same_gate_ops(9)])+

section \<open>Properties\<close>

text \<open>
  However fast traps arrive and whatever else the window does, at most two lookups of a
  trap's name reach the backend in any ten seconds, at most six toasts are shown, and the
  live list stays within the limit of the settings.
\<close>

theorem trap_flood_bounded:
  assumes "trap_run str details B c s"
  shows "length (filter (\<lambda>l. a \<le> int (fst l) \<and> int (fst l) < a + 10000) (lookups s)) \<le> 2 \<and>
    length (shown (trap_toasts s)) \<le> 6 \<and> length (traps s) \<le> B"
proof -
  from trap_run_inv[OF assms] obtain r where r: "gate_reach native_windowMs r"
      "subseq (map (\<lambda>l. int (fst l)) (lookups s)) (passes (seen r))"
      and b: "toast_inv (trap_toasts s)" "length (traps s) \<le> B"
    by (auto simp: trap_inv_def)
  let ?P = "\<lambda>t. a \<le> t \<and> t < a + native_windowMs"
  have "length (filter ?P (map (\<lambda>l. int (fst l)) (lookups s))) \<le> length (filter ?P (passes (seen r)))"
    by (rule list_emb_length[OF subseq_filter[OF r(2)]])
  also have "\<dots> \<le> 2" using gate_reach_inv[OF r(1)] by (auto simp: gate_inv_def intro: spaced_in_window)
  finally show ?thesis
    using b by (simp add: filter_map o_def native_windowMs_def toast_inv_def MAX_TOASTS_def)
qed

definition sample_trap :: fields where
  "sample_trap = [(''source'', JStr ''10.0.0.1''),
     (''variables'', JArr [JObj [(''oid'', JStr ''snmpTrapOID.0''), (''value'', JStr ''.1.3'')]])]"

theorem trap_flood_bounded_witness:
  "length (traps (on_new_trap (\<lambda>v. ''x'') (\<lambda>i. None) \<lparr>nativeNotifications = True, maxCount = 5\<rparr> 20 ''now'' sample_trap
     (setWindowFocus False (trap_store_init [] :: nat trap_store)))) \<le> 5"
proof -
  have "trap_run (\<lambda>v. ''x'') (\<lambda>i. None) 5 20
      (on_new_trap (\<lambda>v. ''x'') (\<lambda>i. None) \<lparr>nativeNotifications = True, maxCount = 5\<rparr> 20 ''now'' sample_trap
        (setWindowFocus False (trap_store_init [] :: nat trap_store)))"
    by (rule trap_run.arrives[where c = 0], rule trap_run.focus, rule trap_run.start)
      (simp_all add: trap_limit_def)
  from trap_flood_bounded[OF this] show ?thesis by blast
qed

end
