(* ===== verification/Csv_Export.thy ===== *)
theory Csv_Export
  imports Text_Metrics
begin

text \<open>
  The CSV escaping every export goes through, \<open>escapeCSV\<close> in \<open>frontend/src/utils/csv.js\<close>, and a
  reader of RFC 4180 records it is measured against. The two regular expressions are the
  recognisers \<open>formula_lead\<close> and \<open>strict_number\<close>. The download itself is the browser's.
\<close>

section \<open>Escaping\<close>

definition QT :: char where "QT = CHR 0x22"
definition CR :: char where "CR = CHR 0x0D"

definition is_dec :: "char \<Rightarrow> bool" where
  "is_dec c = (let n = of_char c :: nat in 48 \<le> n \<and> n \<le> 57)"

text \<open>\<open>FORMULA_LEAD\<close>.\<close>

definition formula_char :: "char \<Rightarrow> bool" where
  "formula_char c \<longleftrightarrow> c \<in> set ''=+-@'' \<or> c = TAB \<or> c = CR"

fun formula_lead :: "string \<Rightarrow> bool" where
  "formula_lead [] = False"
| "formula_lead (c # cs) = formula_char c"

text \<open>\<open>STRICT_NUMBER\<close>: a sign, digits with an optional point or a point with digits, an exponent.\<close>

definition skip_sign :: "string \<Rightarrow> string" where
  "skip_sign s = (case s of c # cs \<Rightarrow> if c = CHR ''+'' \<or> c = CHR ''-'' then cs else s | [] \<Rightarrow> [])"

definition all_digits :: "string \<Rightarrow> bool" where
  "all_digits s \<longleftrightarrow> s \<noteq> [] \<and> list_all is_dec s"

definition is_exponent :: "string \<Rightarrow> bool" where
  "is_exponent s = (case s of [] \<Rightarrow> True
     | c # cs \<Rightarrow> (c = CHR ''e'' \<or> c = CHR ''E'') \<and> all_digits (skip_sign cs))"

definition strict_number :: "string \<Rightarrow> bool" where
  "strict_number s =
     (let t = skip_sign s; whole = takeWhile is_dec t; r = dropWhile is_dec t in
      if whole \<noteq> []
      then is_exponent (case r of c # cs \<Rightarrow> if c = CHR ''.'' then dropWhile is_dec cs else r | [] \<Rightarrow> [])
      else (case r of
              c # cs \<Rightarrow> c = CHR ''.'' \<and> takeWhile is_dec cs \<noteq> [] \<and> is_exponent (dropWhile is_dec cs)
            | [] \<Rightarrow> False))"

definition neutralise :: "string \<Rightarrow> string" where
  "neutralise s = (if formula_lead s \<and> \<not> strict_number s then CHR 0x27 # s else s)"

definition needs_quotes :: "char \<Rightarrow> bool" where
  "needs_quotes c \<longleftrightarrow> c = QT \<or> c = CHR '','' \<or> c = CHR '';'' \<or> c = CR \<or> c = NL"

definition double_quotes :: "string \<Rightarrow> string" where
  "double_quotes s = concat (map (\<lambda>c. if c = QT then [QT, QT] else [c]) s)"

definition escapeCSV :: "string \<Rightarrow> string" where
  "escapeCSV val =
     (let s = neutralise val in
      if list_ex needs_quotes s then [QT] @ double_quotes s @ [QT] else s)"

section \<open>Reading\<close>

text \<open>
  A reader of records: fields between commas, records between newlines, a field that starts
  with a quote runs to the closing one, and a doubled quote inside it is a quote.
\<close>

fun read_csv :: "bool \<Rightarrow> string \<Rightarrow> string list \<Rightarrow> string \<Rightarrow> string list list" where
  "read_csv q f r [] = [r @ [f]]"
| "read_csv True f r (c # cs) =
     (if c = QT
      then (case cs of d # ds \<Rightarrow> if d = QT then read_csv True (f @ [QT]) r ds else read_csv False f r cs
                     | [] \<Rightarrow> read_csv False f r cs)
      else read_csv True (f @ [c]) r cs)"
| "read_csv False f r (c # cs) =
     (if c = CHR '','' then read_csv False [] (r @ [f]) cs
      else if c = NL then (r @ [f]) # read_csv False [] [] cs
      else if c = QT \<and> f = [] then read_csv True [] r cs
      else read_csv False (f @ [c]) r cs)"

definition csv_records :: "string \<Rightarrow> string list list" where
  "csv_records s = read_csv False [] [] s"

definition csv_text :: "string list list \<Rightarrow> string" where
  "csv_text rows = join_with NL (map (\<lambda>row. join_with CHR '','' (map escapeCSV row)) rows)"

lemma read_quoted:
  "read_csv True f r (double_quotes s @ QT # rest) = read_csv True (f @ s) r (QT # rest)"
proof (induction s arbitrary: f)
  case (Cons c s)
  then show ?case by (cases "c = QT"; cases rest) (simp_all add: double_quotes_def)
qed (simp add: double_quotes_def)

lemma read_plain:
  "\<not> list_ex needs_quotes s \<Longrightarrow> read_csv False f r (s @ rest) = read_csv False (f @ s) r rest"
  by (induction s arbitrary: f) (auto simp: needs_quotes_def)

text \<open>A field followed by a separator or the end is read as one field.\<close>

lemma read_field:
  assumes "rest = [] \<or> hd rest = CHR '','' \<or> hd rest = NL"
  shows "read_csv False [] r (escapeCSV s @ rest) = read_csv False (neutralise s) r rest"
proof (cases "list_ex needs_quotes (neutralise s)")
  case True
  have "read_csv True f r (QT # rest) = read_csv False f r rest" for f
    using assms by (cases rest) (auto simp: QT_def NL_def)
  with True show ?thesis
    by (simp add: escapeCSV_def Let_def read_quoted) (simp add: QT_def NL_def read_quoted[unfolded QT_def])
next
  case False
  then show ?thesis by (simp add: escapeCSV_def Let_def read_plain)
qed

lemma read_row:
  assumes "row \<noteq> []" "rest = [] \<or> hd rest = NL"
  shows "read_csv False [] r (join_with CHR '','' (map escapeCSV row) @ rest) =
    (case rest of [] \<Rightarrow> [r @ map neutralise row]
     | c # cs \<Rightarrow> (r @ map neutralise row) # read_csv False [] [] cs)"
  using assms(1)
proof (induction row arbitrary: r rule: induct_list012)
  case (2 s)
  have "read_csv False [] r (escapeCSV s @ rest) = read_csv False (neutralise s) r rest"
    using assms(2) by (intro read_field) auto
  with assms(2) show ?case by (cases rest) (auto simp: NL_def)
next
  case (3 s t row)
  have "read_csv False [] r (escapeCSV s @ CHR '','' # x) = read_csv False [] (r @ [neutralise s]) x" for x
    by (subst read_field) simp_all
  with 3 show ?case by (cases rest) simp_all
qed simp

lemma read_rows:
  "rows \<noteq> [] \<Longrightarrow> \<forall>row \<in> set rows. row \<noteq> [] \<Longrightarrow> csv_records (csv_text rows) = map (map neutralise) rows"
proof (induction rows rule: induct_list012)
  case (2 row)
  then show ?case using read_row[of row "[]" "[]"] by (simp add: csv_records_def csv_text_def)
next
  case (3 row row' rows)
  have "csv_records (csv_text (row # row' # rows)) = map neutralise row # csv_records (csv_text (row' # rows))"
    using 3 read_row[of row "NL # csv_text (row' # rows)" "[]"] by (simp add: csv_records_def csv_text_def)
  with 3 show ?case by simp
qed simp

lemma neutralise_safe: "formula_lead (neutralise s) \<Longrightarrow> strict_number (neutralise s)"
  by (auto simp: neutralise_def formula_char_def TAB_def CR_def split: if_splits)

section \<open>Properties\<close>



text \<open>The guard looks at the first character only, so leading spaces keep a formula a formula.\<close>

lemma space_is_not_neutralised: "neutralise '' =1+1'' = '' =1+1''"
  by code_simp

text \<open>Quoting the escaped text once more, as one export does, shifts the columns.\<close>

lemma quoted_twice_splits:
  "csv_records ([QT] @ ''Error: '' @ escapeCSV ''a,b'' @ [QT]) \<noteq> [[''Error: a,b'']]"
  by code_simp

end
