(* ===== verification/Js_Sort.thy ===== *)
theory Js_Sort
  imports Main "HOL-Library.Multiset"
begin

text \<open>
  \<open>Array.prototype.sort\<close> with a comparator, as the renderer uses it for table rows, series and
  module lists: the stable permutation sorted by the comparator. Then the rows of a list filed in
  a \<open>Map\<close> under a key, its keys in insertion order, and \<open>[...new Set(xs)]\<close>.
\<close>

text \<open>\<open>Array.prototype.sort\<close> is stable: insertion from the right keeps equal rows in order.\<close>

fun insert_by :: "('a \<Rightarrow> 'a \<Rightarrow> int) \<Rightarrow> 'a \<Rightarrow> 'a list \<Rightarrow> 'a list" where
  "insert_by cmp x [] = [x]"
| "insert_by cmp x (y # ys) = (if cmp x y \<le> 0 then x # y # ys else y # insert_by cmp x ys)"

definition stable_sort :: "('a \<Rightarrow> 'a \<Rightarrow> int) \<Rightarrow> 'a list \<Rightarrow> 'a list" where
  "stable_sort cmp xs = foldr (insert_by cmp) xs []"

lemma length_insert_by: "length (insert_by cmp x ys) = Suc (length ys)"
  by (induction ys) auto

lemma set_insert_by: "set (insert_by cmp x ys) = insert x (set ys)"
  by (induction ys) auto

lemma sorted_insert_by:
  assumes "\<And>a b. cmp a b \<le> 0 \<or> cmp b a \<le> 0" "\<And>a b c. cmp a b \<le> 0 \<Longrightarrow> cmp b c \<le> 0 \<Longrightarrow> cmp a c \<le> 0"
    "sorted_wrt (\<lambda>a b. cmp a b \<le> 0) ys"
  shows "sorted_wrt (\<lambda>a b. cmp a b \<le> 0) (insert_by cmp x ys)"
  using assms(3)
proof (induction ys)
  case (Cons y ys)
  show ?case
  proof (cases "cmp x y \<le> 0")
    case True
    with Cons.prems assms(2) show ?thesis by (auto intro: assms(2))
  next
    case False
    with Cons assms(1)[of x y] show ?thesis by (auto simp: set_insert_by)
  qed
qed simp

lemma stable_sort_sorts:
  assumes "\<And>a b. cmp a b \<le> 0 \<or> cmp b a \<le> 0" "\<And>a b c. cmp a b \<le> 0 \<Longrightarrow> cmp b c \<le> 0 \<Longrightarrow> cmp a c \<le> 0"
  shows "sorted_wrt (\<lambda>a b. cmp a b \<le> 0) (stable_sort cmp xs)"
  unfolding stable_sort_def by (induction xs) (auto intro: sorted_insert_by[OF assms])

lemma set_stable_sort: "set (stable_sort cmp xs) = set xs" "length (stable_sort cmp xs) = length xs"
  by (induction xs) (auto simp: stable_sort_def set_insert_by length_insert_by)

lemma mset_stable_sort: "mset (stable_sort cmp xs) = mset xs"
proof -
  have "mset (insert_by cmp x ys) = add_mset x (mset ys)" for x ys by (induction ys) auto
  then show ?thesis by (induction xs) (auto simp: stable_sort_def)
qed

section \<open>Filing under a key\<close>

text \<open>Rows filed under their key, the keys in the order they are met.\<close>

definition file_under :: "('a \<Rightarrow> 'k) \<Rightarrow> ('k \<times> 'a list) list \<Rightarrow> 'a \<Rightarrow> ('k \<times> 'a list) list" where
  "file_under key groups x =
     (case map_of groups (key x) of
        Some xs \<Rightarrow> map (\<lambda>(k, ys). if k = key x then (k, ys @ [x]) else (k, ys)) groups
      | None \<Rightarrow> groups @ [(key x, [x])])"

lemma filed:
  "map_of (foldl (file_under key) [] xs) k = (if k \<in> key ` set xs then Some (filter (\<lambda>x. key x = k) xs) else None) \<and>
   distinct (map fst (foldl (file_under key) [] xs))"
proof (induction xs arbitrary: k rule: rev_induct)
  case (snoc x xs)
  let ?g = "foldl (file_under key) [] xs"
  have ih: "\<And>k. map_of ?g k = (if k \<in> key ` set xs then Some (filter (\<lambda>x. key x = k) xs) else None)" "distinct (map fst ?g)"
    using snoc by auto
  show ?case
  proof (cases "key x \<in> key ` set xs")
    case True
    let ?f = "\<lambda>(k, ys). if k = key x then (k, ys @ [x]) else (k, ys)"
    have step: "foldl (file_under key) [] (xs @ [x]) = map ?f ?g" using True by (simp add: file_under_def ih(1))
    have "map_of (map ?f g) k = (case map_of g k of None \<Rightarrow> None | Some ys \<Rightarrow> Some (if k = key x then ys @ [x] else ys))" for g
      by (induction g) auto
    moreover have "distinct (map fst (map ?f ?g))"
    proof -
      have e: "map fst (map ?f ?g) = map fst ?g" by (auto simp: case_prod_beta)
      show ?thesis unfolding e by (rule ih(2))
    qed
    ultimately show ?thesis unfolding step using ih(1) True by auto
  next
    case False
    then have step: "foldl (file_under key) [] (xs @ [x]) = ?g @ [(key x, [x])]" by (simp add: file_under_def ih(1))
    have "key x \<notin> fst ` set ?g" using ih(1)[of "key x"] False by (simp add: map_of_eq_None_iff)
    moreover have "filter (\<lambda>y. key y = key x) xs = []" using False by (metis (mono_tags) filter_False imageI)
    ultimately show ?thesis unfolding step using ih False by (auto simp: map_add_def split: option.splits)
  qed
qed simp

lemma filed_groups:
  "(k, ys) \<in> set (foldl (file_under key) [] xs) \<longleftrightarrow> k \<in> key ` set xs \<and> ys = filter (\<lambda>x. key x = k) xs"
  using filed[of key xs k] by (metis (no_types, lifting) map_of_SomeD map_of_is_SomeI option.distinct(1) option.inject)

text \<open>\<open>[...new Set(xs)]\<close>: the first of equal elements is kept.\<close>

definition dedup :: "'a list \<Rightarrow> 'a list" where
  "dedup xs = rev (remdups (rev xs))"

lemma dedup_simps [simp]: "set (dedup xs) = set xs" "distinct (dedup xs)"
  by (simp_all add: dedup_def)

end
