(* ===== verification/Table_Rows.thy ===== *)
theory Table_Rows
  imports Lens_Prelude Js_Sort Complex_Main "HOL-Library.AList" "HOL-Library.Sublist"
begin

text \<open>
  From a walk to a conceptual table and back to a SET: \<open>frontend/src/operations/tableRows.js\<close>.
  A JavaScript \<open>Map\<close> and an object used as one are association lists in insertion order,
  updated by \<open>AList.update\<close>. The lemmas show which cell a result lands in, and that the
  varbinds of a new row are the ones RFC 2579 needs, RowStatus last.
\<close>

section \<open>Matching\<close>

definition stripDot :: "string \<Rightarrow> string" where
  "stripDot i = (if i \<noteq> [] \<and> hd i = CHR ''.'' then tl i else i)"

record column_def =
  cd_name :: string
  cd_oid :: string
  cd_syntax :: string
  cd_wireType :: string
  cd_isIndex :: bool

definition matches_column :: "string \<Rightarrow> column_def \<Rightarrow> bool" where
  "matches_column itemOid col \<longleftrightarrow> prefix (stripDot (cd_oid col) @ ''.'') itemOid"

definition matchColumn :: "string \<Rightarrow> column_def list \<Rightarrow> (column_def \<times> string) option" where
  "matchColumn i columnDefs =
     (let itemOid = stripDot i in
      case List.find (matches_column itemOid) columnDefs of
        None \<Rightarrow> None
      | Some col \<Rightarrow> Some (col, drop (length (stripDot (cd_oid col)) + 1) itemOid))"

section \<open>The pivot\<close>

record 'v walk_item =
  wi_oid :: string
  wi_value :: 'v
  wi_type :: string

record 'v cell =
  cell_value :: 'v
  cell_type :: string
  cell_fullOid :: string

type_synonym 'v cells = "(string \<times> 'v cell) list"

definition row_of :: "(string \<times> 'v cells) list \<Rightarrow> string \<Rightarrow> 'v cells" where
  "row_of rowMap k = (case map_of rowMap k of Some c \<Rightarrow> c | None \<Rightarrow> [])"

definition pivot_step ::
  "column_def list \<Rightarrow> (string \<times> 'v cells) list \<Rightarrow> 'v walk_item \<Rightarrow> (string \<times> 'v cells) list" where
  "pivot_step columnDefs rowMap item =
     (case matchColumn (wi_oid item) columnDefs of
        None \<Rightarrow> rowMap
      | Some (col, inst) \<Rightarrow>
          AList.update inst
            (AList.update (cd_oid col)
              \<lparr>cell_value = wi_value item, cell_type = wi_type item, cell_fullOid = wi_oid item\<rparr>
              (row_of rowMap inst)) rowMap)"

record table_column =
  tc_name :: string
  tc_oid :: string
  tc_syntax :: string

record 'v trow =
  r_index :: string
  r_cells :: "'v cells"

record 'v table =
  t_columns :: "table_column list"
  t_rows :: "'v trow list"

definition buildTableData :: "'v walk_item list \<Rightarrow> column_def list \<Rightarrow> 'v table" where
  "buildTableData walkResults columnDefs =
     \<lparr>t_columns = map (\<lambda>c. \<lparr>tc_name = cd_name c, tc_oid = cd_oid c, tc_syntax = cd_syntax c\<rparr>) columnDefs,
      t_rows = map (\<lambda>(i, c). \<lparr>r_index = i, r_cells = c\<rparr>) (foldl (pivot_step columnDefs) [] walkResults)\<rparr>"

section \<open>Decoded indexes\<close>

record 'p decoded =
  d_raw :: string
  d_parts :: "'p list"
  d_error :: string

record ('v, 'p) drow =
  dr_row :: "'v trow"
  dr_parts :: "'p list option"
  dr_error :: string

definition usable_index :: "'p decoded list \<Rightarrow> (string \<times> string) list option \<Rightarrow> bool" where
  "usable_index decs indexParts \<longleftrightarrow>
     (\<exists>ps. indexParts = Some ps \<and> ps \<noteq> []) \<and> list_ex (\<lambda>d. d_error d = [] \<and> d_parts d \<noteq> []) decs"

text \<open>The rows with their index parts, and the index columns.\<close>

definition withDecodedIndexes ::
  "'v table \<Rightarrow> 'p decoded list \<Rightarrow> (string \<times> string) list option
    \<Rightarrow> ('v, 'p) drow list \<times> (string \<times> string) list option" where
  "withDecodedIndexes t decs indexParts =
     (let byRaw = foldl (\<lambda>m d. AList.update (d_raw d) d m) [] decs; ok = usable_index decs indexParts in
      (map (\<lambda>row. case map_of byRaw (r_index row) of
              None \<Rightarrow> \<lparr>dr_row = row, dr_parts = None, dr_error = []\<rparr>
            | Some d \<Rightarrow>
                if \<not> ok \<or> d_error d \<noteq> [] \<or> d_parts d = []
                then \<lparr>dr_row = row, dr_parts = None, dr_error = d_error d\<rparr>
                else \<lparr>dr_row = row, dr_parts = Some (d_parts d), dr_error = []\<rparr>) (t_rows t),
       if ok then indexParts else None))"

section \<open>Sorting\<close>

text \<open>
  A sort key is a text and, where it reads as one, a number (\<open>NaN\<close> is \<open>None\<close>).
  \<open>Number\<close> of a cell's value and \<open>localeCompare\<close> are arguments.
\<close>

record sort_key =
  sk_text :: string
  sk_num :: "rat option"

definition compare_keys :: "(string \<Rightarrow> string \<Rightarrow> int) \<Rightarrow> sort_key \<Rightarrow> sort_key \<Rightarrow> int" where
  "compare_keys localeCompare a b =
     (case (sk_num a, sk_num b) of
        (Some x, Some y) \<Rightarrow> (if x < y then -1 else if x = y then 0 else 1)
      | _ \<Rightarrow> localeCompare (sk_text a) (sk_text b))"

definition partNumber :: "'v trow \<Rightarrow> rat option" where
  "partNumber row =
     (if r_index row \<noteq> [] \<and> list_all (\<lambda>c. 48 \<le> (of_char c :: nat) \<and> (of_char c :: nat) \<le> 57) (r_index row)
      then Some (of_nat (read_base 10 (r_index row))) else None)"

definition sortRows ::
  "(string \<Rightarrow> string \<Rightarrow> int) \<Rightarrow> ('r \<Rightarrow> sort_key) option \<Rightarrow> bool \<Rightarrow> 'r list \<Rightarrow> 'r list" where
  "sortRows localeCompare key ascending rows =
     (case key of
        None \<Rightarrow> rows
      | Some k \<Rightarrow> stable_sort (\<lambda>a b. let cmp = compare_keys localeCompare (k a) (k b)
                                       in if ascending then cmp else - cmp) rows)"

section \<open>Creating and destroying a row\<close>

record table_info =
  ti_columns :: "column_def list"
  ti_rowStatusOid :: string

record varbind =
  vb_oid :: string
  vb_value :: string
  vb_type :: string

definition or_else :: "string \<Rightarrow> string \<Rightarrow> string" where
  "or_else a b = (if a \<noteq> [] then a else b)"

fun column_varbinds :: "string \<Rightarrow> string \<Rightarrow> (string \<rightharpoonup> string) \<Rightarrow> column_def list \<Rightarrow> varbind list" where
  "column_varbinds rowStatusOid inst vals [] = []"
| "column_varbinds rowStatusOid inst vals (col # cols) =
     (let rest = column_varbinds rowStatusOid inst vals cols in
      if cd_isIndex col then rest
      else if cd_oid col = rowStatusOid then rest
      else (case vals (cd_oid col) of
              None \<Rightarrow> rest
            | Some v \<Rightarrow> if v = [] then rest
                else \<lparr>vb_oid = cd_oid col @ ''.'' @ inst, vb_value = v,
                      vb_type = or_else (cd_wireType col) (cd_syntax col)\<rparr> # rest))"

definition buildRowVarbinds :: "table_info \<Rightarrow> string \<Rightarrow> (string \<rightharpoonup> string) \<Rightarrow> nat \<Rightarrow> varbind list" where
  "buildRowVarbinds info inst vals status =
     column_varbinds (ti_rowStatusOid info) inst vals (ti_columns info) @
     [\<lparr>vb_oid = ti_rowStatusOid info @ ''.'' @ inst, vb_value = show_nat status, vb_type = ''RowStatus''\<rparr>]"

definition buildDestroyVarbinds :: "table_info \<Rightarrow> string \<Rightarrow> varbind list" where
  "buildDestroyVarbinds info inst =
     [\<lparr>vb_oid = ti_rowStatusOid info @ ''.'' @ inst, vb_value = ''6'', vb_type = ''RowStatus''\<rparr>]"

section \<open>The cell of a result\<close>

lemma matchColumn_SomeD:
  assumes "matchColumn i cols = Some (col, inst)"
  shows "col \<in> set cols \<and> stripDot i = stripDot (cd_oid col) @ ''.'' @ inst"
proof -
  from assms have "List.find (matches_column (stripDot i)) cols = Some col"
      "inst = drop (length (stripDot (cd_oid col)) + 1) (stripDot i)"
    by (auto simp: matchColumn_def Let_def split: option.splits)
  then show ?thesis by (auto simp: find_Some_iff matches_column_def prefix_def)
qed

text \<open>The cell at a row and a column, if there is one.\<close>

definition cell_at :: "(string \<times> 'v cells) list \<Rightarrow> string \<Rightarrow> string \<Rightarrow> 'v cell option" where
  "cell_at rowMap inst col = Option.bind (map_of rowMap inst) (\<lambda>c. map_of c col)"

lemma cell_at_pivot_step:
  "cell_at (pivot_step cols m item) inst col =
     (case matchColumn (wi_oid item) cols of
        Some (c, i) \<Rightarrow> if i = inst \<and> cd_oid c = col
          then Some \<lparr>cell_value = wi_value item, cell_type = wi_type item, cell_fullOid = wi_oid item\<rparr>
          else cell_at m inst col
      | None \<Rightarrow> cell_at m inst col)"
  by (auto simp: pivot_step_def cell_at_def row_of_def update_conv' split: option.splits prod.splits)

text \<open>The result a cell shows: the last one of the walk that matches its column and row.\<close>

definition hits :: "column_def list \<Rightarrow> string \<Rightarrow> string \<Rightarrow> 'v walk_item \<Rightarrow> bool" where
  "hits cols inst col item \<longleftrightarrow>
     (case matchColumn (wi_oid item) cols of Some (c, i) \<Rightarrow> i = inst \<and> cd_oid c = col | None \<Rightarrow> False)"

lemma cell_at_pivot:
  "cell_at (foldl (pivot_step cols) m items) inst col =
     (case filter (hits cols inst col) items of
        [] \<Rightarrow> cell_at m inst col
      | x # xs \<Rightarrow> let item = last (x # xs) in
          Some \<lparr>cell_value = wi_value item, cell_type = wi_type item, cell_fullOid = wi_oid item\<rparr>)"
proof (induction items arbitrary: m)
  case (Cons i items)
  have step: "cell_at (pivot_step cols m i) inst col =
      (if hits cols inst col i
       then Some \<lparr>cell_value = wi_value i, cell_type = wi_type i, cell_fullOid = wi_oid i\<rparr>
       else cell_at m inst col)"
    by (auto simp: cell_at_pivot_step hits_def split: option.splits prod.splits)
  show ?case
    unfolding foldl_Cons Cons.IH step
    by (cases "filter (hits cols inst col) items") (simp_all add: Let_def)
qed simp

lemma distinct_pivot:
  "distinct (map fst m) \<Longrightarrow> distinct (map fst (foldl (pivot_step cols) m items))"
proof (induction items arbitrary: m)
  case (Cons i items)
  have "distinct (map fst (pivot_step cols m i))"
    using Cons.prems by (auto simp: pivot_step_def distinct_update split: option.splits prod.splits)
  with Cons.IH show ?case by simp
qed simp

lemma column_varbinds_set:
  "vb \<in> set (column_varbinds rs inst vals cols) \<longleftrightarrow>
     (\<exists>col \<in> set cols. \<not> cd_isIndex col \<and> cd_oid col \<noteq> rs \<and>
        (\<exists>v. vals (cd_oid col) = Some v \<and> v \<noteq> [] \<and>
          vb = \<lparr>vb_oid = cd_oid col @ ''.'' @ inst, vb_value = v,
                vb_type = or_else (cd_wireType col) (cd_syntax col)\<rparr>))"
  by (induction rs inst vals cols rule: column_varbinds.induct) (auto simp: Let_def split: option.splits)

lemma column_varbinds_oids:
  "map vb_oid (column_varbinds rs inst vals cols) =
     map (\<lambda>c. cd_oid c @ ''.'' @ inst)
       (filter (\<lambda>c. \<not> cd_isIndex c \<and> cd_oid c \<noteq> rs \<and> vals (cd_oid c) \<notin> {None, Some []}) cols)"
  by (induction rs inst vals cols rule: column_varbinds.induct) (auto simp: Let_def split: option.splits)

section \<open>Properties\<close>

text \<open>
  C13. Every cell of the table is the walk's last result for exactly its column and row: the
  result's identifier is the column's, a dot, and the row's index. A result that matches no
  column is in no cell, and no row appears twice.
\<close>

theorem table_cells_exact:
  shows "distinct (map r_index (t_rows (buildTableData items cols))) \<and>
    (\<forall>row \<in> set (t_rows (buildTableData items cols)). \<forall>col.
      map_of (r_cells row) col =
        (case filter (hits cols (r_index row) col) items of
           [] \<Rightarrow> None
         | x # xs \<Rightarrow> Some \<lparr>cell_value = wi_value (last (x # xs)), cell_type = wi_type (last (x # xs)),
                            cell_fullOid = wi_oid (last (x # xs))\<rparr>)) \<and>
    (\<forall>item \<in> set items. \<forall>col inst. matchColumn (wi_oid item) cols = Some (col, inst) \<longrightarrow>
      (\<exists>row \<in> set (t_rows (buildTableData items cols)). r_index row = inst \<and> cd_oid col \<in> fst ` set (r_cells row)) \<and>
      stripDot (wi_oid item) = stripDot (cd_oid col) @ ''.'' @ inst)"
proof -
  let ?m = "foldl (pivot_step cols) [] items"
  have rows: "t_rows (buildTableData items cols) = map (\<lambda>(i, c). \<lparr>r_index = i, r_cells = c\<rparr>) ?m"
    by (simp add: buildTableData_def)
  have d: "distinct (map fst ?m)" by (rule distinct_pivot) simp
  have cell: "cell_at ?m inst col = map_of c col" if "(inst, c) \<in> set ?m" for inst c col
    using d that by (simp add: cell_at_def map_of_eq_Some_iff[THEN iffD2])
  have val: "cell_at ?m inst col = (case filter (hits cols inst col) items of [] \<Rightarrow> None
      | x # xs \<Rightarrow> Some \<lparr>cell_value = wi_value (last (x # xs)), cell_type = wi_type (last (x # xs)),
                         cell_fullOid = wi_oid (last (x # xs))\<rparr>)" for inst col
    by (simp add: cell_at_pivot Let_def cell_at_def[of "[]"] cong: list.case_cong)
  have "map r_index (t_rows (buildTableData items cols)) = map fst ?m"
    unfolding rows by (simp add: case_prod_unfold o_def)
  moreover have "\<exists>row \<in> set (t_rows (buildTableData items cols)). r_index row = inst \<and> cd_oid col \<in> fst ` set (r_cells row)"
    if "item \<in> set items" "matchColumn (wi_oid item) cols = Some (col, inst)" for item col inst
  proof -
    have "filter (hits cols inst (cd_oid col)) items \<noteq> []"
      using that by (auto simp: hits_def filter_empty_conv intro!: bexI[of _ item])
    then obtain x where "cell_at ?m inst (cd_oid col) = Some x" unfolding val by (cases "filter (hits cols inst (cd_oid col)) items") auto
    then obtain c where "map_of ?m inst = Some c" "map_of c (cd_oid col) = Some x"
      by (auto simp: cell_at_def bind_eq_Some_conv)
    then have "(inst, c) \<in> set ?m" "cd_oid col \<in> fst ` set c" by (auto dest!: map_of_SomeD simp: rev_image_eqI)
    then show ?thesis unfolding rows by force
  qed
  moreover have "map_of (r_cells row) col = cell_at ?m (r_index row) col"
    if "row \<in> set (t_rows (buildTableData items cols))" for row col
  proof -
    from that obtain i c where "row = \<lparr>r_index = i, r_cells = c\<rparr>" "(i, c) \<in> set ?m" by (auto simp: rows)
    with cell show ?thesis by simp
  qed
  moreover have "stripDot (wi_oid item) = stripDot (cd_oid col) @ ''.'' @ inst"
    if "matchColumn (wi_oid item) cols = Some (col, inst)" for item :: "'a walk_item" and col inst
    using matchColumn_SomeD[OF that] by simp
  ultimately show ?thesis using d unfolding val[symmetric] by simp
qed

definition sample_column :: column_def where
  "sample_column = \<lparr>cd_name = ''ifDescr'', cd_oid = ''1.2'', cd_syntax = [], cd_wireType = [], cd_isIndex = False\<rparr>"

theorem table_cells_exact_witness:
  "\<exists>row \<in> set (t_rows (buildTableData [\<lparr>wi_oid = ''.1.2.7'', wi_value = True, wi_type = []\<rparr>] [sample_column])).
     r_index row = ''7''"
proof -
  have "matchColumn ''.1.2.7'' [sample_column] = Some (sample_column, ''7'')"
    by (simp add: matchColumn_def sample_column_def matches_column_def stripDot_def)
  with table_cells_exact[of "[\<lparr>wi_oid = ''.1.2.7'', wi_value = True, wi_type = []\<rparr>]" "[sample_column]"]
  show ?thesis by auto
qed

text \<open>
  The SET that creates a row writes every value given for a column of the table that is
  neither an index nor the row status, once, at the row's instance, and the row status last.
\<close>

theorem row_varbinds_exact:
  assumes "distinct (map cd_oid (ti_columns info))"
  shows "last (buildRowVarbinds info inst vals status) =
      \<lparr>vb_oid = ti_rowStatusOid info @ ''.'' @ inst, vb_value = show_nat status, vb_type = ''RowStatus''\<rparr> \<and>
    distinct (map vb_oid (buildRowVarbinds info inst vals status)) \<and>
    (\<forall>col \<in> set (ti_columns info). \<forall>v.
      (\<exists>vb \<in> set (butlast (buildRowVarbinds info inst vals status)).
         vb_oid vb = cd_oid col @ ''.'' @ inst \<and> vb_value vb = v) \<longleftrightarrow>
      \<not> cd_isIndex col \<and> cd_oid col \<noteq> ti_rowStatusOid info \<and> vals (cd_oid col) = Some v \<and> v \<noteq> [])"
proof -
  let ?rs = "ti_rowStatusOid info" and ?cols = "ti_columns info"
  let ?vbs = "column_varbinds ?rs inst vals ?cols"
  have b: "buildRowVarbinds info inst vals status =
      ?vbs @ [\<lparr>vb_oid = ?rs @ ''.'' @ inst, vb_value = show_nat status, vb_type = ''RowStatus''\<rparr>]"
    by (simp add: buildRowVarbinds_def)
  let ?P = "\<lambda>c. \<not> cd_isIndex c \<and> cd_oid c \<noteq> ?rs \<and> vals (cd_oid c) \<notin> {None, Some []}"
  have "map vb_oid ?vbs = map (\<lambda>s. s @ ''.'' @ inst) (map cd_oid (filter ?P ?cols))"
    by (simp add: column_varbinds_oids)
  moreover have "distinct (map cd_oid (filter ?P ?cols))" using assms by (rule distinct_map_filter)
  ultimately have "distinct (map vb_oid ?vbs)" by (simp add: distinct_map inj_on_def)
  moreover have "?rs @ ''.'' @ inst \<notin> set (map vb_oid ?vbs)" unfolding column_varbinds_oids by auto
  ultimately have d: "distinct (map vb_oid (buildRowVarbinds info inst vals status))" unfolding b by simp
  have "(\<exists>vb \<in> set ?vbs. vb_oid vb = cd_oid col @ ''.'' @ inst \<and> vb_value vb = v) \<longleftrightarrow>
      \<not> cd_isIndex col \<and> cd_oid col \<noteq> ?rs \<and> vals (cd_oid col) = Some v \<and> v \<noteq> []"
    if "col \<in> set ?cols" for col v
  proof -
    have "c = col" if "c \<in> set ?cols" "cd_oid c = cd_oid col" for c
      using assms that \<open>col \<in> set ?cols\<close> by (auto simp: distinct_map inj_on_def)
    then have "(\<exists>vb \<in> set ?vbs. vb_oid vb = cd_oid col @ ''.'' @ inst \<and> vb_value vb = v) \<Longrightarrow>
        \<not> cd_isIndex col \<and> cd_oid col \<noteq> ?rs \<and> vals (cd_oid col) = Some v \<and> v \<noteq> []"
      unfolding Bex_def column_varbinds_set by (elim exE conjE bexE) (simp, metis)
    moreover have "\<not> cd_isIndex col \<and> cd_oid col \<noteq> ?rs \<and> vals (cd_oid col) = Some v \<and> v \<noteq> [] \<Longrightarrow>
        \<exists>vb \<in> set ?vbs. vb_oid vb = cd_oid col @ ''.'' @ inst \<and> vb_value vb = v"
      using that
      by (intro bexI[of _ "\<lparr>vb_oid = cd_oid col @ ''.'' @ inst, vb_value = v,
            vb_type = or_else (cd_wireType col) (cd_syntax col)\<rparr>"]) (simp, unfold column_varbinds_set, blast)
    ultimately show ?thesis by blast
  qed
  with d show ?thesis unfolding b by simp
qed

theorem row_varbinds_exact_witness:
  "vb_oid (last (buildRowVarbinds \<lparr>ti_columns = [\<lparr>cd_name = ''a'', cd_oid = ''1.1'', cd_syntax = [], cd_wireType = ''Integer'',
      cd_isIndex = False\<rparr>], ti_rowStatusOid = ''1.9''\<rparr> ''5'' [''1.1'' \<mapsto> ''7''] 4)) = ''1.9.5''"
  using row_varbinds_exact[of "\<lparr>ti_columns = [\<lparr>cd_name = ''a'', cd_oid = ''1.1'', cd_syntax = [],
      cd_wireType = ''Integer'', cd_isIndex = False\<rparr>], ti_rowStatusOid = ''1.9''\<rparr>" "''5''" "[''1.1'' \<mapsto> ''7'']" 4]
  by simp

end
