(* ===== verification/Js_Text.thy ===== *)
theory Js_Text
  imports Lens_Prelude
begin

text \<open>
  The string methods the renderer uses to read what an operator typed: \<open>trim\<close>,
  \<open>toLowerCase\<close>, \<open>startsWith\<close> and the digit class of its regular expressions, on the code
  units U+0000 to U+00FF.
\<close>

definition code :: "char \<Rightarrow> nat" where "code c = of_char c"

text \<open>White space of ECMAScript below U+0100: tab to carriage return, space, no-break space.\<close>

definition is_space :: "char \<Rightarrow> bool" where
  "is_space c \<longleftrightarrow> 9 \<le> code c \<and> code c \<le> 13 \<or> code c = 32 \<or> code c = 160"

definition trim :: "string \<Rightarrow> string" where
  "trim s = rev (dropWhile is_space (rev (dropWhile is_space s)))"

definition lower_char :: "char \<Rightarrow> char" where
  "lower_char c =
     (if 65 \<le> code c \<and> code c \<le> 90 \<or> 192 \<le> code c \<and> code c \<le> 222 \<and> code c \<noteq> 215
      then char_of (code c + 32) else c)"

definition toLowerCase :: "string \<Rightarrow> string" where
  "toLowerCase s = map lower_char s"

definition is_ascii_digit :: "char \<Rightarrow> bool" where
  "is_ascii_digit c \<longleftrightarrow> 48 \<le> code c \<and> code c \<le> 57"

definition starts_with :: "'a list \<Rightarrow> 'a list \<Rightarrow> bool" where
  "starts_with s pre \<longleftrightarrow> take (length pre) s = pre"

text \<open>The part of a string before the first separator, and after it.\<close>

fun cut_at :: "'a \<Rightarrow> 'a list \<Rightarrow> 'a list \<times> 'a list option" where
  "cut_at sep [] = ([], None)"
| "cut_at sep (c # cs) =
     (if c = sep then ([], Some cs) else (c # fst (cut_at sep cs), snd (cut_at sep cs)))"

lemma cut_at_fst: "sep \<notin> set (fst (cut_at sep s))"
  by (induction s) auto

lemma cut_at_plain: "sep \<notin> set s \<Longrightarrow> cut_at sep s = (s, None)"
  by (induction s) auto

lemma cut_at_append: "sep \<notin> set s \<Longrightarrow> cut_at sep (s @ sep # r) = (s, Some r)"
  by (induction s) auto

lemma hd_split_on: "hd (split_on sep s) = fst (cut_at sep s)"
  by (induction s) auto

lemma trim_decomp: "\<exists>a b. s = a @ trim s @ b \<and> list_all is_space a \<and> list_all is_space b"
proof -
  let ?d = "dropWhile is_space s"
  have "?d = trim s @ rev (takeWhile is_space (rev ?d))"
    unfolding trim_def by (metis rev_append rev_rev_ident takeWhile_dropWhile_id)
  then have "s = takeWhile is_space s @ trim s @ rev (takeWhile is_space (rev ?d))"
    using takeWhile_dropWhile_id[of is_space s] by (metis append.assoc)
  moreover have "list_all is_space (takeWhile is_space xs)" for xs
    by (auto simp: list_all_iff dest: set_takeWhileD)
  ultimately show ?thesis by (metis list_all_rev)
qed

lemma set_trim: "set (trim s) \<subseteq> set s"
  by (auto simp: trim_def dest!: set_dropWhileD)

text \<open>A text with no white space at either end is trimmed already.\<close>

definition trimmed :: "string \<Rightarrow> bool" where
  "trimmed s \<longleftrightarrow> s = [] \<or> \<not> is_space (hd s) \<and> \<not> is_space (last s)"

lemma trim_trimmed:
  assumes "trimmed s"
  shows "trim s = s"
proof -
  have d: "dropWhile is_space xs = xs" if "xs = [] \<or> \<not> is_space (hd xs)" for xs
    using that by (cases xs) auto
  have "dropWhile is_space s = s" using assms unfolding trimmed_def by (intro d) blast
  moreover have "dropWhile is_space (rev s) = rev s"
    using assms unfolding trimmed_def by (intro d) (metis hd_rev rev_is_Nil_conv)
  ultimately show ?thesis unfolding trim_def by simp
qed

lemma trimmed_trim: "trimmed (trim s)"
proof (cases "trim s = []")
  case False
  let ?d = "dropWhile is_space s"
  let ?e = "dropWhile is_space (rev ?d)"
  have t: "trim s = rev ?e" by (simp add: trim_def)
  with False have ne: "?e \<noteq> []" by simp
  then have l: "\<not> is_space (last (trim s))" unfolding t last_rev by (rule hd_dropWhile)
  have d: "?d \<noteq> []" using ne by (metis dropWhile.simps(1) rev.simps(1))
  have "?d = trim s @ rev (takeWhile is_space (rev ?d))"
    unfolding t by (simp only: rev_append[symmetric] takeWhile_dropWhile_id rev_rev_ident)
  then have "hd ?d = hd (trim s)" using False by (metis hd_append2)
  with hd_dropWhile[OF d] l show ?thesis by (simp add: trimmed_def)
qed (simp add: trimmed_def)

lemma trim_trim [simp]: "trim (trim s) = trim s"
  by (rule trim_trimmed[OF trimmed_trim])

lemma lower_char_fixed: "code c < 65 \<Longrightarrow> lower_char c = c"
  by (simp add: lower_char_def)

lemma toLowerCase_append: "toLowerCase (a @ b) = toLowerCase a @ toLowerCase b"
  by (simp add: toLowerCase_def)

lemma toLowerCase_show_nat: "toLowerCase (show_nat n) = show_nat n"
  unfolding toLowerCase_def
proof (rule map_idI)
  fix c
  assume "c \<in> set (show_nat n)"
  then have "(of_char c :: nat) \<le> 57" using show_nat_digits by blast
  then show "lower_char c = c" by (intro lower_char_fixed) (simp add: code_def)
qed

end
