(* ===== verification/Credential_Profiles.thy ===== *)
theory Credential_Profiles
  imports Js_Value Js_Text
begin

text \<open>
  Credential profiles, \<open>frontend/src/utils/credentialProfiles.js\<close> and the choices of
  \<open>snmpSecurity.js\<close>. Profiles and settings are JavaScript values, as they come from local
  storage; random bytes are an argument. The lemmas show that what is stored is well formed
  and holds no secret it does not use, that a target's profile leaves with the profile, and
  that a free name is always found.
\<close>

section \<open>The SNMPv3 choices\<close>

definition SEC_LEVELS :: "string list" where
  "SEC_LEVELS = [''NoAuthNoPriv'', ''AuthNoPriv'', ''AuthPriv'']"

definition AUTH_PROTOCOLS :: "(string \<times> string) list" where
  "AUTH_PROTOCOLS = [(''MD5'', ''MD5''), (''SHA'', ''SHA''), (''SHA224'', ''SHA-224''),
     (''SHA256'', ''SHA-256''), (''SHA384'', ''SHA-384''), (''SHA512'', ''SHA-512'')]"

definition PRIV_PROTOCOLS :: "(string \<times> string) list" where
  "PRIV_PROTOCOLS = [(''DES'', ''DES''), (''AES'', ''AES-128''), (''AES192C'', ''AES-192''),
     (''AES256C'', ''AES-256''), (''AES192'', ''AES-192 (Blumenthal)''), (''AES256'', ''AES-256 (Blumenthal)'')]"

definition usesAuth :: "string \<Rightarrow> bool" where
  "usesAuth level \<longleftrightarrow> level = ''AuthNoPriv'' \<or> level = ''AuthPriv''"

definition usesPriv :: "string \<Rightarrow> bool" where
  "usesPriv level \<longleftrightarrow> level = ''AuthPriv''"

definition protocolLabel :: "(string \<times> string) list \<Rightarrow> string \<Rightarrow> string" where
  "protocolLabel list v = (case map_of list v of Some (c # cs) \<Rightarrow> c # cs | _ \<Rightarrow> v)"

lemma usesPriv_usesAuth: "usesPriv level \<Longrightarrow> usesAuth level"
  by (simp add: usesAuth_def usesPriv_def)

text \<open>The levels in order, each with what it uses.\<close>

datatype sec_level = NoAuthNoPriv | AuthNoPriv | AuthPriv

instantiation sec_level :: linorder
begin

fun level_rank :: "sec_level \<Rightarrow> nat" where
  "level_rank NoAuthNoPriv = 0" | "level_rank AuthNoPriv = 1" | "level_rank AuthPriv = 2"

definition less_eq_sec_level :: "sec_level \<Rightarrow> sec_level \<Rightarrow> bool" where
  "a \<le> b \<longleftrightarrow> level_rank a \<le> level_rank b"

definition less_sec_level :: "sec_level \<Rightarrow> sec_level \<Rightarrow> bool" where
  "a < b \<longleftrightarrow> level_rank a < level_rank b"

instance
proof
  fix a b c :: sec_level
  show "a \<le> b \<Longrightarrow> b \<le> a \<Longrightarrow> a = b"
    by (cases a; cases b) (simp_all add: less_eq_sec_level_def)
qed (auto simp: less_eq_sec_level_def less_sec_level_def)

end

definition level_name :: "sec_level \<Rightarrow> string" where
  "level_name l = SEC_LEVELS ! level_rank l"

lemma uses_by_level:
  "usesAuth (level_name l) \<longleftrightarrow> AuthNoPriv \<le> l" "usesPriv (level_name l) \<longleftrightarrow> AuthPriv \<le> l"
  by (cases l; simp add: level_name_def SEC_LEVELS_def usesAuth_def usesPriv_def less_eq_sec_level_def)+

section \<open>A profile\<close>

definition PROFILE_VERSIONS :: "string list" where "PROFILE_VERSIONS = [''v1'', ''v2c'', ''v3'']"
definition DEFAULT_REF :: string where "DEFAULT_REF = ''default''"
definition MAX_NAME :: nat where "MAX_NAME = 64"
definition MAX_USER :: nat where "MAX_USER = 32"
definition MIN_PASSPHRASE :: nat where "MIN_PASSPHRASE = 8"

definition id_pattern :: "string \<Rightarrow> bool" where
  "id_pattern s \<longleftrightarrow> take 2 s = ''p-'' \<and> 4 \<le> length (drop 2 s) \<and> length (drop 2 s) \<le> 32 \<and>
     list_all (\<lambda>c. 97 \<le> code c \<and> code c \<le> 122 \<or> is_ascii_digit c) (drop 2 s)"

definition V3_FIELDS :: "string list" where
  "V3_FIELDS = [''user'', ''secLevel'', ''authProto'', ''authPass'', ''privProto'', ''privPass'', ''contextName'']"

definition NEW_V3 :: fields where
  "NEW_V3 = [(''user'', JStr []), (''secLevel'', JStr ''AuthPriv''), (''authProto'', JStr ''SHA''),
     (''authPass'', JStr []), (''privProto'', JStr ''AES''), (''privPass'', JStr []), (''contextName'', JStr [])]"

definition NO_V3 :: fields where
  "NO_V3 = [(''user'', JStr []), (''secLevel'', JStr ''NoAuthNoPriv''), (''authProto'', JStr []),
     (''authPass'', JStr []), (''privProto'', JStr []), (''privPass'', JStr []), (''contextName'', JStr [])]"

fun str :: "jsval \<Rightarrow> string" where
  "str (JStr s) = s"
| "str _ = []"

definition randomSuffix :: "nat list \<Rightarrow> string" where
  "randomSuffix bytes =
     take 10 (concat (map (\<lambda>b. replicate (2 - length (show_base 36 b)) CHR ''0'' @ show_base 36 b) bytes))"

text \<open>The loop draws until an id is free; \<open>draws\<close> are the successive random bytes.\<close>

definition newProfileId :: "nat list list \<Rightarrow> jsval list \<Rightarrow> string option" where
  "newProfileId draws profiles =
     List.find (\<lambda>i. JStr i \<notin> (\<lambda>p. jget p ''id'') ` set profiles) (map (\<lambda>b. ''p-'' @ randomSuffix b) draws)"

definition blankProfile :: "string \<Rightarrow> string \<Rightarrow> fields" where
  "blankProfile i version =
     (let ver = (if version \<in> set PROFILE_VERSIONS then version else ''v2c'');
          p = [(''id'', JStr i), (''name'', JStr []), (''version'', JStr ver)]
      in if ver = ''v3'' then p @ [(''v3'', JObj NEW_V3), (''acceptTraps'', JBool True)]
         else p @ [(''community'', JStr [])])"

definition pick :: "string list \<Rightarrow> jsval \<Rightarrow> string \<Rightarrow> string" where
  "pick choices v d = (if str v \<in> set choices \<and> v = JStr (str v) then str v else d)"

definition normalise_v3 :: "jsval \<Rightarrow> fields" where
  "normalise_v3 v =
     (let secLevel = pick SEC_LEVELS (jget v ''secLevel'') ''AuthPriv'' in
      [(''user'', JStr (str (jget v ''user''))),
       (''secLevel'', JStr secLevel),
       (''authProto'', JStr (pick (map fst AUTH_PROTOCOLS) (jget v ''authProto'') ''SHA'')),
       (''authPass'', JStr (if usesAuth secLevel then str (jget v ''authPass'') else [])),
       (''privProto'', JStr (pick (map fst PRIV_PROTOCOLS) (jget v ''privProto'') ''AES'')),
       (''privPass'', JStr (if usesPriv secLevel then str (jget v ''privPass'') else [])),
       (''contextName'', JStr (str (jget v ''contextName'')))])"

definition normaliseProfile :: "jsval \<Rightarrow> fields option" where
  "normaliseProfile raw =
     (let i = jget raw ''id''; ver = jget raw ''version'' in
      if \<not> is_object raw then None
      else if i \<noteq> JStr (str i) \<or> \<not> id_pattern (str i) then None
      else if ver \<noteq> JStr (str ver) \<or> str ver \<notin> set PROFILE_VERSIONS then None
      else let out = [(''id'', i), (''name'', JStr (take MAX_NAME (str (jget raw ''name'')))), (''version'', ver)] in
        if str ver \<noteq> ''v3'' then Some (out @ [(''community'', JStr (str (jget raw ''community'')))])
        else Some (out @ [(''v3'', JObj (normalise_v3 (jget raw ''v3''))),
                          (''acceptTraps'', JBool (jget raw ''acceptTraps'' \<noteq> JBool False))]))"

fun normalise_loop :: "jsval list \<Rightarrow> jsval list \<Rightarrow> fields list" where
  "normalise_loop taken [] = []"
| "normalise_loop taken (raw # rest) =
     (case normaliseProfile raw of
        None \<Rightarrow> normalise_loop taken rest
      | Some p \<Rightarrow> if fget p ''id'' \<in> set taken then normalise_loop taken rest
                  else p # normalise_loop (fget p ''id'' # taken) rest)"

definition normaliseProfiles :: "jsval \<Rightarrow> fields list" where
  "normaliseProfiles list = (if is_array list then normalise_loop [] (elems list) else [])"

section \<open>Using a profile\<close>

text \<open>\<open>p && p.id === id\<close> for the profiles of the settings.\<close>

definition profiles_of :: "jsval \<Rightarrow> jsval list" where
  "profiles_of settings = elems (jget settings ''credentialProfiles'')"

definition findProfile :: "jsval \<Rightarrow> jsval \<Rightarrow> jsval option" where
  "findProfile settings i =
     (if \<not> truthy i then None
      else List.find (\<lambda>p. truthy p \<and> jget p ''id'' = i) (profiles_of settings))"

definition profileIdentity :: "jsval \<Rightarrow> fields" where
  "profileIdentity profile =
     (if jget profile ''version'' = JStr ''v3''
      then [(''snmpVersion'', JStr ''v3''), (''community'', JStr []),
            (''v3'', JObj (spread NO_V3 (fields_of (jget profile ''v3''))))]
      else [(''snmpVersion'', jget profile ''version''), (''community'', jor (jget profile ''community'') (JStr [])),
            (''v3'', JObj NO_V3)])"

definition withProfile :: "jsval \<Rightarrow> jsval \<Rightarrow> fields" where
  "withProfile settings i =
     (case findProfile settings i of
        None \<Rightarrow> fset ''credentialRef'' (JStr DEFAULT_REF) (fields_of settings)
      | Some p \<Rightarrow> fset ''credentialRef'' (jget p ''id'') (spread (fields_of settings) (profileIdentity p)))"

definition hasCustomCredentials :: "jsval \<Rightarrow> bool" where
  "hasCustomCredentials override \<longleftrightarrow> truthy override \<and>
     (jget override ''community'' \<noteq> JUndef \<or> jget override ''snmpVersion'' \<noteq> JUndef \<or> jget override ''v3'' \<noteq> JUndef)"

definition profileUsage :: "jsval \<Rightarrow> jsval \<Rightarrow> string list" where
  "profileUsage settings i =
     map fst (filter (\<lambda>(a, ov). truthy ov \<and> jget ov ''profile'' = i) (fields_of (jget settings ''targetOverrides'')))"

text \<open>\<open>id\<close> is \<open>JNull\<close> to take the profile away.\<close>

definition assignProfile :: "fields \<Rightarrow> string \<Rightarrow> jsval \<Rightarrow> fields" where
  "assignProfile overrides address i =
     (let current = fields_of (fget overrides address);
          current' = (if truthy i
             then fset ''profile'' i (fdel ''v3'' (fdel ''snmpVersion'' (fdel ''community'' current)))
             else fdel ''profile'' current)
      in if current' \<noteq> [] then fset address (JObj current') overrides else fdel address overrides)"

definition removeProfile :: "jsval \<Rightarrow> jsval \<Rightarrow> fields" where
  "removeProfile settings i =
     (let overrides = foldl (\<lambda>ovs a. assignProfile ovs a JNull)
            (fields_of (jget settings ''targetOverrides'')) (profileUsage settings i)
      in fset ''targetOverrides'' (JObj overrides)
           (fset ''credentialProfiles'' (JArr (filter (\<lambda>p. jget p ''id'' \<noteq> i) (profiles_of settings)))
             (fields_of settings)))"

section \<open>Names\<close>

definition name_key :: "jsval \<Rightarrow> string" where
  "name_key p = toLowerCase (trim (str (jor (jget p ''name'') (JStr []))))"

definition candidate :: "string \<Rightarrow> nat \<Rightarrow> string" where
  "candidate stem n = (let ending = '' '' @ show_nat n in take (MAX_NAME - length ending) stem @ ending)"

partial_function (option) name_loop :: "string set \<Rightarrow> string \<Rightarrow> nat \<Rightarrow> string option" where
  "name_loop taken stem n =
     (if toLowerCase (candidate stem n) \<notin> taken then Some (candidate stem n)
      else name_loop taken stem (n + 1))"

definition uniqueName :: "string \<Rightarrow> jsval list \<Rightarrow> jsval \<Rightarrow> string option" where
  "uniqueName base profiles exceptId =
     (let taken = name_key ` set (filter (\<lambda>p. jget p ''id'' \<noteq> exceptId) profiles);
          stem = take MAX_NAME (trim base)
      in if toLowerCase stem \<notin> taken then Some stem else name_loop taken stem 2)"

section \<open>Validation\<close>

definition octets :: "string \<Rightarrow> nat" where
  "octets s = sum_list (map (\<lambda>c. if code c < 128 then 1 else 2) s)"

record verdict =
  vd_errors :: "(string \<times> string) list"
  vd_warnings :: "(string \<times> string) list"

definition sfield :: "jsval \<Rightarrow> string \<Rightarrow> string" where
  "sfield v k = str (jget v k)"

definition name_errors :: "jsval \<Rightarrow> jsval list \<Rightarrow> (string \<times> string) list" where
  "name_errors profile profiles =
     (let name = trim (sfield profile ''name'') in
      if name = [] then [(''name'', ''profiles.err.nameRequired'')]
      else if MAX_NAME < length name then [(''name'', ''profiles.err.nameTooLong'')]
      else if list_ex (\<lambda>p. jget p ''id'' \<noteq> jget profile ''id'' \<and> name_key p = toLowerCase name) profiles
      then [(''name'', ''profiles.err.nameTaken'')]
      else [])"

definition pass_errors :: "string \<Rightarrow> string \<Rightarrow> string \<Rightarrow> (string \<times> string) list \<times> (string \<times> string) list" where
  "pass_errors field required pass =
     (if pass = [] then ([(field, required)], [])
      else if length pass < MIN_PASSPHRASE then ([], [(field, ''profiles.warn.shortPass'')])
      else ([], []))"

definition validateProfile :: "jsval \<Rightarrow> jsval list \<Rightarrow> verdict" where
  "validateProfile profile profiles =
     (let e0 = name_errors profile profiles in
      if jget profile ''version'' \<noteq> JStr ''v3''
      then \<lparr>vd_errors = e0 @ (if truthy (jget profile ''community'') then []
              else [(''community'', ''profiles.err.communityRequired'')]), vd_warnings = []\<rparr>
      else
        let v = jget profile ''v3''; level = sfield v ''secLevel'';
            e1 = (if sfield v ''user'' = [] then [(''user'', ''profiles.err.userRequired'')]
                  else if MAX_USER < octets (sfield v ''user'') then [(''user'', ''profiles.err.userTooLong'')] else []);
            (e2, w2) = (if usesAuth level
                        then pass_errors ''authPass'' ''profiles.err.authPassRequired'' (sfield v ''authPass'') else ([], []));
            w3 = (if usesAuth level \<and> sfield v ''authProto'' = ''MD5'' then [(''authProto'', ''profiles.warn.md5'')] else []);
            (e4, w4) = (if usesPriv level
                        then pass_errors ''privPass'' ''profiles.err.privPassRequired'' (sfield v ''privPass'') else ([], []));
            w5 = (if usesPriv level \<and> sfield v ''privProto'' = ''DES'' then [(''privProto'', ''profiles.warn.des'')] else [])
        in \<lparr>vd_errors = e0 @ e1 @ e2 @ e4, vd_warnings = w2 @ w3 @ w4 @ w5\<rparr>)"

section \<open>The trap listener's users\<close>

definition trap_user :: "jsval \<Rightarrow> fields" where
  "trap_user v3 =
     (let level = jor (jget v3 ''secLevel'') (JStr ''NoAuthNoPriv'') in
      [(''user'', jget v3 ''user''), (''secLevel'', level),
       (''authProto'', if usesAuth (str level) then jor (jget v3 ''authProto'') (JStr []) else JStr []),
       (''authPass'', if usesAuth (str level) then jor (jget v3 ''authPass'') (JStr []) else JStr []),
       (''privProto'', if usesPriv (str level) then jor (jget v3 ''privProto'') (JStr []) else JStr []),
       (''privPass'', if usesPriv (str level) then jor (jget v3 ''privPass'') (JStr []) else JStr []),
       (''contextName'', JStr [])])"

definition add_user :: "fields list \<Rightarrow> jsval \<Rightarrow> fields list" where
  "add_user out v3 =
     (if \<not> truthy (jget v3 ''user'') then out
      else if trap_user v3 \<in> set out then out else out @ [trap_user v3])"

definition accepted_v3 :: "jsval \<Rightarrow> jsval list" where
  "accepted_v3 settings =
     (if jget (jget settings ''traps'') ''acceptDefaultUser'' \<noteq> JBool False then [jget settings ''v3''] else []) @
     map (\<lambda>p. jget p ''v3'')
       (filter (\<lambda>p. truthy p \<and> jget p ''version'' = JStr ''v3'' \<and> jget p ''acceptTraps'' \<noteq> JBool False)
         (profiles_of settings))"

definition trapUsers :: "jsval \<Rightarrow> fields list" where
  "trapUsers settings = foldl add_user [] (accepted_v3 settings)"

record reception =
  rc_ref :: jsval
  rc_name :: jsval
  rc_user :: jsval
  rc_level :: jsval
  rc_accepted :: bool

definition trapReception :: "jsval \<Rightarrow> reception list" where
  "trapReception settings =
     (let v3 = jget settings ''v3'' in
      (if truthy (jget v3 ''user'')
       then [\<lparr>rc_ref = JStr DEFAULT_REF, rc_name = JStr [], rc_user = jget v3 ''user'',
              rc_level = jor (jget v3 ''secLevel'') (JStr []),
              rc_accepted = (jget (jget settings ''traps'') ''acceptDefaultUser'' \<noteq> JBool False)\<rparr>] else []) @
      map (\<lambda>p. \<lparr>rc_ref = jget p ''id'', rc_name = jget p ''name'', rc_user = jget (jget p ''v3'') ''user'',
                rc_level = jor (jget (jget p ''v3'') ''secLevel'') (JStr []),
                rc_accepted = (jget p ''acceptTraps'' \<noteq> JBool False)\<rparr>)
        (filter (\<lambda>p. truthy p \<and> jget p ''version'' = JStr ''v3'' \<and> truthy (jget (jget p ''v3'') ''user''))
          (profiles_of settings)))"

section \<open>What changed\<close>

definition identityKey :: "jsval \<Rightarrow> string" where
  "identityKey identity =
     join_with CHR '' '' (map str
       (coalesce (jget identity ''snmpVersion'') (JStr []) # coalesce (jget identity ''community'') (JStr []) #
        map (\<lambda>f. coalesce (jget (jget identity ''v3'') f) (JStr [])) V3_FIELDS))"

definition default_identity :: "jsval \<Rightarrow> jsval" where
  "default_identity s = JObj [(''community'', coalesce (jget s ''community'') (JStr [])),
     (''v3'', jor (jget s ''v3'') (JObj []))]"

definition profile_refs :: "jsval \<Rightarrow> jsval \<Rightarrow> jsval list" where
  "profile_refs before after =
     map (\<lambda>p. jget p ''id'') (filter (\<lambda>p.
       case map_of (rev (map (\<lambda>q. (jget q ''id'', q)) (profiles_of before))) (jget p ''id'') of
         None \<Rightarrow> False
       | Some old \<Rightarrow> identityKey (JObj (profileIdentity old)) \<noteq> identityKey (JObj (profileIdentity p)))
       (profiles_of after))"

definition changedCredentialRefs :: "jsval \<Rightarrow> jsval \<Rightarrow> jsval set" where
  "changedCredentialRefs before after =
     (if identityKey (default_identity before) \<noteq> identityKey (default_identity after)
      then {JStr DEFAULT_REF} else {}) \<union> set (profile_refs before after)"

section \<open>What is stored is clean\<close>

text \<open>
  A clean profile: an id of the right form, one kind of credential, known protocols, and no
  passphrase above its security level.
\<close>

definition clean_profile :: "fields \<Rightarrow> bool" where
  "clean_profile p \<longleftrightarrow>
     (\<exists>i. fget p ''id'' = JStr i \<and> id_pattern i) \<and>
     (\<exists>n. fget p ''name'' = JStr n \<and> length n \<le> MAX_NAME) \<and>
     (if fget p ''version'' = JStr ''v3''
      then fget p ''community'' = JUndef \<and>
        (\<exists>level. jget (fget p ''v3'') ''secLevel'' = JStr level \<and> level \<in> set SEC_LEVELS \<and>
          (\<not> usesAuth level \<longrightarrow> jget (fget p ''v3'') ''authPass'' = JStr []) \<and>
          (\<not> usesPriv level \<longrightarrow> jget (fget p ''v3'') ''privPass'' = JStr []))
      else fget p ''version'' \<in> {JStr ''v1'', JStr ''v2c''} \<and> fget p ''v3'' = JUndef)"

lemma pick_in: "d \<in> set cs \<Longrightarrow> pick cs v d \<in> set cs"
  by (simp add: pick_def)

lemma pick_again: "pick cs v d \<in> set cs \<Longrightarrow> pick cs (JStr (pick cs v d)) d' = pick cs v d"
  by (simp add: pick_def)

lemma pick_level: "pick SEC_LEVELS v ''AuthPriv'' \<in> set SEC_LEVELS"
  by (rule pick_in) (simp add: SEC_LEVELS_def)

lemma normalise_v3_again: "normalise_v3 (JObj (normalise_v3 v)) = normalise_v3 v"
proof -
  have "pick (map fst AUTH_PROTOCOLS) x ''SHA'' \<in> set (map fst AUTH_PROTOCOLS)"
    "pick (map fst PRIV_PROTOCOLS) x ''AES'' \<in> set (map fst PRIV_PROTOCOLS)" for x
    by (intro pick_in; simp add: AUTH_PROTOCOLS_def PRIV_PROTOCOLS_def)+
  then show ?thesis
    by (simp add: normalise_v3_def Let_def fget_def pick_again pick_level)
qed

lemma normaliseProfile_SomeD:
  assumes "normaliseProfile raw = Some p"
  shows "\<exists>i ver n. id_pattern i \<and> ver \<in> set PROFILE_VERSIONS \<and> length n \<le> MAX_NAME \<and>
    jget raw ''id'' = JStr i \<and>
    p = [(''id'', JStr i), (''name'', JStr n), (''version'', JStr ver)] @
      (if ver = ''v3'' then [(''v3'', JObj (normalise_v3 (jget raw ''v3''))),
                             (''acceptTraps'', JBool (jget raw ''acceptTraps'' \<noteq> JBool False))]
       else [(''community'', JStr (str (jget raw ''community'')))])"
proof -
  from assms have "jget raw ''id'' = JStr (str (jget raw ''id''))" "id_pattern (str (jget raw ''id''))"
      "jget raw ''version'' = JStr (str (jget raw ''version''))" "str (jget raw ''version'') \<in> set PROFILE_VERSIONS"
    by (simp_all add: normaliseProfile_def Let_def split: if_splits)
  with assms show ?thesis
    by (intro exI[of _ "str (jget raw ''id'')"] exI[of _ "str (jget raw ''version'')"]
        exI[of _ "take MAX_NAME (str (jget raw ''name''))"])
       (simp add: normaliseProfile_def Let_def split: if_splits)
qed

lemma normalise_clean: "normaliseProfile raw = Some p \<Longrightarrow> clean_profile p"
  using pick_level[of "jget (jget raw ''v3'') ''secLevel''"]
  by (auto dest!: normaliseProfile_SomeD simp: clean_profile_def PROFILE_VERSIONS_def fget_def
      normalise_v3_def Let_def)

lemma normalise_again:
  assumes "normaliseProfile raw = Some p"
  shows "normaliseProfile (JObj p) = Some p"
proof -
  from normaliseProfile_SomeD[OF assms] obtain i ver n where p: "id_pattern i" "ver \<in> set PROFILE_VERSIONS"
      "length n \<le> MAX_NAME" "p = [(''id'', JStr i), (''name'', JStr n), (''version'', JStr ver)] @
      (if ver = ''v3'' then [(''v3'', JObj (normalise_v3 (jget raw ''v3''))),
                             (''acceptTraps'', JBool (jget raw ''acceptTraps'' \<noteq> JBool False))]
       else [(''community'', JStr (str (jget raw ''community'')))])"
    by blast
  show ?thesis unfolding p(4) using p(1-3)
    by (cases "ver = ''v3''") (simp_all add: normaliseProfile_def Let_def fget_def normalise_v3_again)
qed

lemma normalise_loop_sound:
  "p \<in> set (normalise_loop taken raws) \<Longrightarrow> (\<exists>raw \<in> set raws. normaliseProfile raw = Some p) \<and> fget p ''id'' \<notin> set taken"
  by (induction taken raws rule: normalise_loop.induct) (auto split: option.splits if_splits)

lemma normalise_loop_distinct: "distinct (map (\<lambda>p. fget p ''id'') (normalise_loop taken raws))"
proof (induction taken raws rule: normalise_loop.induct)
  case (2 taken raw rest)
  then show ?case using normalise_loop_sound by (fastforce split: option.splits)
qed simp

lemma normalise_loop_again:
  "\<forall>p \<in> set ps. normaliseProfile (JObj p) = Some p \<Longrightarrow> distinct (map (\<lambda>p. fget p ''id'') ps) \<Longrightarrow>
   (\<lambda>p. fget p ''id'') ` set ps \<inter> set taken = {} \<Longrightarrow> normalise_loop taken (map JObj ps) = ps"
  by (induction ps arbitrary: taken) auto


lemma normaliseProfiles_again:
  "normaliseProfiles (JArr (map JObj (normaliseProfiles list))) = normaliseProfiles list"
proof -
  have "normaliseProfile (JObj p) = Some p" if "p \<in> set (normalise_loop [] xs)" for p xs
    using normalise_loop_sound[OF that] normalise_again by blast
  then have "normalise_loop [] (map JObj (normalise_loop [] xs)) = normalise_loop [] xs" for xs
    using normalise_loop_distinct[of "[]" xs] by (intro normalise_loop_again) auto
  from this[of "elems list"] show ?thesis by (simp add: normaliseProfiles_def)
qed

section \<open>Taking a profile away\<close>

definition without_profile :: "jsval \<Rightarrow> jsval option" where
  "without_profile ov = (let c = fdel ''profile'' (fields_of ov) in if c = [] then None else Some (JObj c))"

lemma map_of_fdel: "map_of (fdel k fs) = (map_of fs)(k := None)"
  by (induction fs) (auto simp: fdel_def fun_eq_iff)

lemma assign_none:
  "map_of (assignProfile ovs a JNull) = (map_of ovs)(a := without_profile (fget ovs a))"
  by (simp add: assignProfile_def Let_def without_profile_def map_of_fset map_of_fdel)

lemma assign_none_all:
  "distinct as \<Longrightarrow> map_of (foldl (\<lambda>ovs a. assignProfile ovs a JNull) ovs as) =
     (\<lambda>a. if a \<in> set as then without_profile (fget ovs a) else map_of ovs a)"
proof (induction as arbitrary: ovs)
  case (Cons a as)
  have "fget (assignProfile ovs a JNull) b = fget ovs b" if "b \<noteq> a" for b
    using that by (simp add: fget_def assign_none)
  note other = this
  show ?case
  proof (rule ext)
    fix x
    show "map_of (foldl (\<lambda>ovs a. assignProfile ovs a JNull) ovs (a # as)) x =
        (if x \<in> set (a # as) then without_profile (fget ovs x) else map_of ovs x)"
      using Cons other[of x] by (cases "x = a") (simp_all add: assign_none)
  qed
qed simp

section \<open>A free name\<close>

lemma candidate_inject: "toLowerCase (candidate s m) = toLowerCase (candidate s n) \<Longrightarrow> m = n"
proof -
  assume eq: "toLowerCase (candidate s m) = toLowerCase (candidate s n)"
  have "lower_char CHR '' '' = CHR '' ''" by (rule lower_char_fixed) (simp add: code_def)
  then have "toLowerCase '' '' = '' ''" by (simp add: toLowerCase_def)
  then have "toLowerCase (candidate s k) =
      toLowerCase (take (MAX_NAME - length ('' '' @ show_nat k)) s) @ CHR '' '' # show_nat k" for k
    unfolding candidate_def Let_def toLowerCase_append toLowerCase_show_nat by simp
  moreover have "CHR '' '' \<notin> set (show_nat k)" for k by (rule show_nat_no_char) simp
  ultimately have "show_nat m = show_nat n" using eq last_part_inject by metis
  then show "m = n" using show_base_inject[of 10 m n] by simp
qed

lemma name_loop_ends:
  assumes "finite taken"
  shows "\<exists>k. name_loop taken s n = Some (candidate s k) \<and> toLowerCase (candidate s k) \<notin> taken"
proof -
  have "inj (\<lambda>k. toLowerCase (candidate s k))" by (rule injI) (rule candidate_inject)
  then have "infinite ((\<lambda>k. toLowerCase (candidate s k)) ` {n..})"
    using finite_image_iff[OF inj_on_subset[OF _ subset_UNIV]] infinite_Ici by blast
  then have "\<not> (\<lambda>k. toLowerCase (candidate s k)) ` {n..} \<subseteq> taken" using assms finite_subset by blast
  then obtain k where k: "n \<le> k" "toLowerCase (candidate s k) \<notin> taken" by auto
  then show ?thesis
  proof (induction "k - n" arbitrary: n)
    case 0
    then show ?case by (intro exI[of _ k]) (subst name_loop.simps, simp)
  next
    case (Suc d)
    show ?case
    proof (cases "toLowerCase (candidate s n) \<in> taken")
      case True
      then have "name_loop taken s n = name_loop taken s (n + 1)" by (subst name_loop.simps) simp
      with Suc show ?thesis by simp
    next
      case False
      then show ?thesis by (intro exI[of _ n]) (subst name_loop.simps, simp)
    qed
  qed
qed

section \<open>The listener's users\<close>

lemma add_user_set:
  "set (foldl add_user out vs) = set out \<union> trap_user ` {v \<in> set vs. truthy (jget v ''user'')}"
  by (induction vs arbitrary: out) (auto simp: add_user_def)

lemma add_user_distinct: "distinct out \<Longrightarrow> distinct (foldl add_user out vs)"
  by (induction vs arbitrary: out) (auto simp: add_user_def)

text \<open>Every accepted user is heard, once, and no passphrase goes to the listener above its level.\<close>

lemma trapUsers_exact:
  "distinct (trapUsers settings) \<and>
   set (trapUsers settings) = trap_user ` {v \<in> set (accepted_v3 settings). truthy (jget v ''user'')}"
  by (simp add: trapUsers_def add_user_set add_user_distinct)

lemma trap_user_secrets:
  "\<not> usesAuth (str (fget (trap_user v) ''secLevel'')) \<Longrightarrow> fget (trap_user v) ''authPass'' = JStr []"
  "\<not> usesPriv (str (fget (trap_user v) ''secLevel'')) \<Longrightarrow> fget (trap_user v) ''privPass'' = JStr []"
  by (simp_all add: trap_user_def Let_def fget_def)

section \<open>Properties\<close>

text \<open>
  C14. Whatever was in local storage, the profiles kept are well formed: an id of the right
  form and no id twice, one kind of credential, known protocols, and no passphrase above the
  security level; and keeping them again changes nothing.
\<close>

theorem profiles_stored_clean:
  "(\<forall>p \<in> set (normaliseProfiles list). clean_profile p) \<and>
   distinct (map (\<lambda>p. fget p ''id'') (normaliseProfiles list)) \<and>
   normaliseProfiles (JArr (map JObj (normaliseProfiles list))) = normaliseProfiles list"
  using normalise_loop_sound[of _ "[]"] normalise_clean normaliseProfiles_again[of list]
  by (fastforce simp: normaliseProfiles_def normalise_loop_distinct)

definition raw_profile :: jsval where
  "raw_profile = JObj [(''id'', JStr ''p-abcd''), (''version'', JStr ''v3''), (''community'', JStr ''public''),
     (''v3'', JObj [(''user'', JStr ''ops''), (''secLevel'', JStr ''AuthNoPriv''), (''authPass'', JStr ''secret''),
        (''privPass'', JStr ''hidden'')])]"

theorem profiles_stored_clean_witness:
  "map (\<lambda>p. jget (fget p ''v3'') ''privPass'') (normaliseProfiles (JArr [raw_profile, JNull, raw_profile])) = [JStr []]
   \<and> clean_profile (hd (normaliseProfiles (JArr [raw_profile, JNull, raw_profile])))"
proof
  show one: "map (\<lambda>p. jget (fget p ''v3'') ''privPass'') (normaliseProfiles (JArr [raw_profile, JNull, raw_profile])) = [JStr []]"
    by code_simp
  then have "normaliseProfiles (JArr [raw_profile, JNull, raw_profile]) \<noteq> []" by auto
  then show "clean_profile (hd (normaliseProfiles (JArr [raw_profile, JNull, raw_profile])))"
    using profiles_stored_clean[of "JArr [raw_profile, JNull, raw_profile]"] hd_in_set by blast
qed

text \<open>
  Deleting a profile takes it from every target that had it and from nothing else: such a
  target keeps its other overrides, or has none left, and every other target and setting is
  as before.
\<close>

theorem removeProfile_forgets:
  assumes "distinct (map fst (fields_of (jget settings ''targetOverrides'')))" "truthy i"
  shows "(\<forall>a. map_of (fields_of (fget (removeProfile settings i) ''targetOverrides'')) a =
      (case map_of (fields_of (jget settings ''targetOverrides'')) a of
         None \<Rightarrow> None
       | Some ov \<Rightarrow> if truthy ov \<and> jget ov ''profile'' = i then without_profile ov else Some ov)) \<and>
    findProfile (JObj (removeProfile settings i)) i = None \<and>
    (\<forall>k. k \<notin> {''targetOverrides'', ''credentialProfiles''} \<longrightarrow> fget (removeProfile settings i) k = jget settings k)"
proof -
  let ?ovs = "fields_of (jget settings ''targetOverrides'')"
  have usage: "distinct (profileUsage settings i)"
    using assms(1) unfolding profileUsage_def by (rule distinct_map_filter)
  have "a \<in> set (profileUsage settings i) \<longleftrightarrow>
      (\<exists>ov. map_of ?ovs a = Some ov \<and> truthy ov \<and> jget ov ''profile'' = i)" for a
    using assms(1) by (force simp: profileUsage_def)
  then have "map_of (foldl (\<lambda>ovs a. assignProfile ovs a JNull) ?ovs (profileUsage settings i)) a =
      (case map_of ?ovs a of None \<Rightarrow> None
       | Some ov \<Rightarrow> if truthy ov \<and> jget ov ''profile'' = i then without_profile ov else Some ov)" for a
    unfolding assign_none_all[OF usage] by (auto simp: fget_def split: option.splits)
  moreover have "findProfile (JObj (removeProfile settings i)) i = None"
    by (auto simp: findProfile_def profiles_of_def removeProfile_def find_None_iff Let_def)
  ultimately show ?thesis by (auto simp: removeProfile_def Let_def jget_fields)
qed

theorem removeProfile_forgets_witness:
  "map_of (fields_of (fget (removeProfile (JObj [(''targetOverrides'', JObj [(''10.0.0.1'',
     JObj [(''profile'', JStr ''p-abcd''), (''port'', JNum 1161)])])]) (JStr ''p-abcd'')) ''targetOverrides'')) ''10.0.0.1''
   = Some (JObj [(''port'', JNum 1161)])"
  using removeProfile_forgets[of "JObj [(''targetOverrides'', JObj [(''10.0.0.1'',
     JObj [(''profile'', JStr ''p-abcd''), (''port'', JNum 1161)])])]" "JStr ''p-abcd''"]
  by (simp add: fget_def without_profile_def fdel_def)


text \<open>A name cut at a space is returned as free although the validator will find it taken.\<close>

lemma cut_name_is_taken:
  "let base = replicate 63 CHR ''a'' @ '' b''; p = JObj [(''id'', JStr ''p-1''), (''name'', JStr (replicate 63 CHR ''a''))] in
   \<exists>nm. uniqueName base [p] JNull = Some nm \<and>
     name_errors (JObj [(''id'', JStr ''p-2''), (''name'', JStr nm)]) [p] = [(''name'', ''profiles.err.nameTaken'')]"
proof -
  let ?nm = "replicate 63 CHR ''a'' @ '' ''"
  have "take MAX_NAME (trim (replicate 63 CHR ''a'' @ '' b'')) = ?nm" by code_simp
  moreover have "toLowerCase ?nm \<noteq> name_key (JObj [(''id'', JStr ''p-1''), (''name'', JStr (replicate 63 CHR ''a''))])"
    by code_simp
  ultimately have "uniqueName (replicate 63 CHR ''a'' @ '' b'')
      [JObj [(''id'', JStr ''p-1''), (''name'', JStr (replicate 63 CHR ''a''))]] JNull = Some ?nm"
    by (simp add: uniqueName_def fget_def)
  moreover have "name_errors (JObj [(''id'', JStr ''p-2''), (''name'', JStr ?nm)])
      [JObj [(''id'', JStr ''p-1''), (''name'', JStr (replicate 63 CHR ''a''))]] = [(''name'', ''profiles.err.nameTaken'')]"
    by code_simp
  ultimately show ?thesis by auto
qed

definition spaced_profile :: "string \<Rightarrow> string \<Rightarrow> jsval" where
  "spaced_profile priv ctx = JObj [(''credentialProfiles'', JArr [JObj [(''id'', JStr ''p-abcd''),
     (''version'', JStr ''v3''), (''v3'', JObj [(''user'', JStr ''ops''), (''secLevel'', JStr ''AuthPriv''),
       (''privPass'', JStr priv), (''contextName'', JStr ctx)])]])]"

text \<open>
  The comparison that decides which sessions are restarted can miss a change: its key
  joins the fields with a space, and a passphrase may hold one, so moving a word from the
  privacy passphrase to the context name leaves the key as it was.
\<close>

theorem change_not_seen:
  "profileIdentity (elems (jget (spaced_profile ''river stone'' ''lan'') ''credentialProfiles'') ! 0) \<noteq>
   profileIdentity (elems (jget (spaced_profile ''river'' ''stone lan'') ''credentialProfiles'') ! 0) \<and>
   changedCredentialRefs (spaced_profile ''river stone'' ''lan'') (spaced_profile ''river'' ''stone lan'') = {}"
proof
  show "profileIdentity (elems (jget (spaced_profile ''river stone'' ''lan'') ''credentialProfiles'') ! 0) \<noteq>
      profileIdentity (elems (jget (spaced_profile ''river'' ''stone lan'') ''credentialProfiles'') ! 0)"
    by code_simp
  have "identityKey (default_identity (spaced_profile ''river stone'' ''lan'')) =
      identityKey (default_identity (spaced_profile ''river'' ''stone lan''))" by code_simp
  moreover have "profile_refs (spaced_profile ''river stone'' ''lan'') (spaced_profile ''river'' ''stone lan'') = []"
    by code_simp
  ultimately show "changedCredentialRefs (spaced_profile ''river stone'' ''lan'') (spaced_profile ''river'' ''stone lan'') = {}"
    by (simp add: changedCredentialRefs_def)
qed

end
