(* ===== verification/Targets.thy ===== *)
theory Targets
  imports Credential_Profiles "HOL-Library.AList" "HOL-Library.Multiset"
begin

text \<open>
  From the targets an operator typed to the requests that are sent:
  \<open>frontend/src/utils/targets.js\<close> and \<open>snmpParams.js\<close>. The lemmas show where the identity and
  the port of a request come from, and that grouping sends every target once, with targets
  that would be asked in the same way.
\<close>

section \<open>The targets text\<close>

definition NEWLINE :: char where "NEWLINE = CHR 0x0A"

definition getTargetsAsArray :: "string \<Rightarrow> string list" where
  "getTargetsAsArray targetsString =
     (if targetsString = [] then []
      else map (\<lambda>t. trim (hd (split_on CHR ''#'' t)))
        (filter (\<lambda>t. length t > 0 \<and> \<not> starts_with t ''//'')
          (map trim (split_on NEWLINE targetsString))))"

record target_line =
  tl_address :: string
  tl_label :: string
  tl_enabled :: bool

fun parse_lines :: "string list \<Rightarrow> string list \<Rightarrow> target_line list" where
  "parse_lines known [] = []"
| "parse_lines known (raw # rest) =
     (let line = trim raw in
      if line = [] then parse_lines known rest
      else let enabled = (\<not> starts_with line ''//'');
               body = (if enabled then line else trim (drop 2 line));
               (a, r) = cut_at CHR ''#'' body;
               address = trim a
           in if address = [] \<or> address \<in> set known then parse_lines known rest
              else \<lparr>tl_address = address, tl_label = (case r of None \<Rightarrow> [] | Some l \<Rightarrow> trim l),
                    tl_enabled = enabled\<rparr> # parse_lines (address # known) rest)"

definition parseTargetLines :: "string \<Rightarrow> target_line list" where
  "parseTargetLines targetsString =
     (if targetsString = [] then [] else parse_lines [] (split_on NEWLINE targetsString))"

definition label_step :: "(string \<times> string) list \<Rightarrow> string \<Rightarrow> (string \<times> string) list" where
  "label_step labels raw =
     (let t = trim raw; line = trim (if starts_with t ''//'' then drop 2 t else t) in
      case cut_at CHR ''#'' line of
        (a, None) \<Rightarrow> labels
      | (a, Some l) \<Rightarrow> if line \<noteq> [] \<and> trim a \<noteq> [] \<and> trim l \<noteq> [] then AList.update (trim a) (trim l) labels else labels)"

definition getTargetLabels :: "string \<Rightarrow> (string \<times> string) list" where
  "getTargetLabels targetsString = (if targetsString = [] then [] else foldl label_step [] (split_on NEWLINE targetsString))"

text \<open>\<open>anonymizeIp\<close> is an argument here; a label that is empty counts as none.\<close>

definition displayTarget :: "(string \<Rightarrow> string) \<Rightarrow> string \<Rightarrow> (string \<times> string) list \<Rightarrow> bool \<Rightarrow> string" where
  "displayTarget anonymizeIp address labels anon =
     (if anon then anonymizeIp address
      else case map_of labels address of Some (c # cs) \<Rightarrow> c # cs | _ \<Rightarrow> address)"

definition targetTitle :: "(string \<Rightarrow> string) \<Rightarrow> string \<Rightarrow> bool \<Rightarrow> string" where
  "targetTitle anonymizeIp address anon = (if anon then anonymizeIp address else address)"

section \<open>The port a target names\<close>

definition port_digits :: "string \<Rightarrow> bool" where
  "port_digits ds \<longleftrightarrow> 1 \<le> length ds \<and> length ds \<le> 5 \<and> list_all is_ascii_digit ds"

text \<open>The two regular expressions: a bracketed literal, or a name without colons and brackets.\<close>

definition port_text :: "string \<Rightarrow> string option" where
  "port_text t =
     (if starts_with t ''[''
      then (case cut_at CHR '']'' (tl t) of
              (inner, Some (c # ds)) \<Rightarrow> if inner \<noteq> [] \<and> c = CHR '':'' \<and> port_digits ds then Some ds else None
            | _ \<Rightarrow> None)
      else (case cut_at CHR '':'' t of
              (h, Some ds) \<Rightarrow> if h \<noteq> [] \<and> CHR ''['' \<notin> set h \<and> CHR '']'' \<notin> set h \<and> port_digits ds then Some ds else None
            | _ \<Rightarrow> None))"

definition portOf :: "string \<Rightarrow> nat option" where
  "portOf target =
     (case port_text (trim target) of
        None \<Rightarrow> None
      | Some ds \<Rightarrow> let port = read_base 10 ds in if 1 \<le> port \<and> port \<le> 65535 then Some port else None)"

section \<open>The settings of one request\<close>

definition with_named_port :: "string \<Rightarrow> fields \<Rightarrow> fields" where
  "with_named_port address s =
     (case portOf address of Some p \<Rightarrow> fset ''port'' (JNum (of_nat p)) s | None \<Rightarrow> s)"

definition opt_field :: "string \<Rightarrow> jsval \<Rightarrow> fields" where
  "opt_field k v = (if v = JUndef then [] else [(k, v)])"

definition identity_of :: "jsval \<Rightarrow> jsval \<Rightarrow> fields" where
  "identity_of settings overrides =
     (case findProfile settings (jget overrides ''profile'') of
        Some profile \<Rightarrow> fset ''credentialRef'' (jget profile ''id'') (profileIdentity profile)
      | None \<Rightarrow>
          if hasCustomCredentials overrides
          then opt_field ''community'' (jget overrides ''community'') @
               opt_field ''snmpVersion'' (jget overrides ''snmpVersion'') @
               [(''v3'', JObj (spread (fields_of (jget settings ''v3'')) (fields_of (jget overrides ''v3'')))),
                (''credentialRef'', JStr [])]
          else [(''credentialRef'', JStr DEFAULT_REF)])"

definition getEffectiveSettings :: "jsval \<Rightarrow> string \<Rightarrow> fields" where
  "getEffectiveSettings settings address =
     (let overrides = jget (jget settings ''targetOverrides'') address in
      with_named_port address
        (if \<not> truthy overrides then fset ''credentialRef'' (JStr DEFAULT_REF) (fields_of settings)
         else spread (spread (fields_of settings) (identity_of settings overrides))
           (opt_field ''port'' (jget overrides ''port'') @ opt_field ''timeout'' (jget overrides ''timeout'') @
            opt_field ''retries'' (jget overrides ''retries''))))"

definition group_key :: "fields \<Rightarrow> jsval" where
  "group_key eff = JObj [(''ref'', fget eff ''credentialRef''), (''community'', fget eff ''community''),
     (''snmpVersion'', fget eff ''snmpVersion''), (''port'', fget eff ''port''), (''timeout'', fget eff ''timeout''),
     (''retries'', fget eff ''retries''), (''v3'', fget eff ''v3'')]"

record group =
  g_targets :: "string list"
  g_settings :: fields

text \<open>\<open>key\<close> is \<open>JSON.stringify\<close> of the group key of an address; \<open>eff\<close> its settings.\<close>

definition group_step ::
  "(string \<Rightarrow> 'k) \<Rightarrow> (string \<Rightarrow> fields) \<Rightarrow> ('k \<times> group) list \<Rightarrow> string \<Rightarrow> ('k \<times> group) list" where
  "group_step key eff groups addr =
     (let g = (case map_of groups (key addr) of Some g \<Rightarrow> g | None \<Rightarrow> \<lparr>g_targets = [], g_settings = eff addr\<rparr>)
      in AList.update (key addr) (g\<lparr>g_targets := g_targets g @ [addr]\<rparr>) groups)"

definition groupTargets :: "(jsval \<Rightarrow> 'k) \<Rightarrow> jsval \<Rightarrow> string list \<Rightarrow> group list" where
  "groupTargets stringify settings addresses =
     map snd (foldl (group_step (\<lambda>a. stringify (group_key (getEffectiveSettings settings a)))
       (getEffectiveSettings settings)) [] addresses)"

definition usesOwnIdentifiers :: "jsval \<Rightarrow> string list \<Rightarrow> bool" where
  "usesOwnIdentifiers settings addresses =
     list_ex (\<lambda>a. fget (getEffectiveSettings settings a) ''credentialRef'' \<noteq> JStr DEFAULT_REF) addresses"

definition groupTargetsByConfig :: "(jsval \<Rightarrow> 'k) \<Rightarrow> jsval \<Rightarrow> group list" where
  "groupTargetsByConfig stringify settings =
     groupTargets stringify settings (getTargetsAsArray (str (jget settings ''targets'')))"

section \<open>Requests\<close>

definition v3Params :: "jsval \<Rightarrow> fields" where
  "v3Params v3 =
     (let f = (\<lambda>k. jor (jget v3 k) (JStr [])) in
      [(''User'', f ''user''), (''AuthPass'', f ''authPass''), (''AuthProto'', f ''authProto''),
       (''PrivPass'', f ''privPass''), (''PrivProto'', f ''privProto''), (''SecLevel'', f ''secLevel''),
       (''ContextName'', f ''contextName'')])"

definition buildV3Params :: "jsval \<Rightarrow> fields" where
  "buildV3Params settings = v3Params (jor (jget settings ''v3'') (JObj []))"

definition buildSnmpRequest :: "jsval \<Rightarrow> string list \<Rightarrow> string \<Rightarrow> fields" where
  "buildSnmpRequest settings targets i =
     [(''targets'', JArr (map JStr targets)), (''oid'', JStr i), (''community'', jget settings ''community''),
      (''version'', jget settings ''snmpVersion''), (''port'', jget settings ''port''),
      (''timeout'', jget settings ''timeout''), (''retries'', jget settings ''retries''),
      (''v3'', JObj (buildV3Params settings))]"

definition buildSetRequest :: "jsval \<Rightarrow> string list \<Rightarrow> string \<Rightarrow> jsval \<Rightarrow> jsval \<Rightarrow> fields" where
  "buildSetRequest settings targets i v valueType =
     spread (buildSnmpRequest settings targets i) [(''value'', v), (''valueType'', valueType)]"

definition buildSetMultiRequest :: "jsval \<Rightarrow> string list \<Rightarrow> jsval list \<Rightarrow> fields" where
  "buildSetMultiRequest settings targets vars =
     spread (buildSnmpRequest settings targets []) [(''vars'', JArr vars)]"

definition buildGetBulkRequest :: "jsval \<Rightarrow> string list \<Rightarrow> string \<Rightarrow> jsval \<Rightarrow> jsval \<Rightarrow> fields" where
  "buildGetBulkRequest settings targets i nonRepeaters maxRepetitions =
     spread (buildSnmpRequest settings targets i)
       [(''nonRepeaters'', nonRepeaters), (''maxRepetitions'', maxRepetitions)]"

definition buildTestRequest :: "jsval \<Rightarrow> string \<Rightarrow> fields" where
  "buildTestRequest settings target =
     [(''target'', JStr target), (''community'', jget settings ''community''),
      (''version'', jget settings ''snmpVersion''), (''port'', jget settings ''port''),
      (''timeout'', jget settings ''timeout''), (''v3'', JObj (buildV3Params settings))]"

definition buildDiscoverRequest :: "jsval \<Rightarrow> string \<Rightarrow> jsval \<Rightarrow> fields" where
  "buildDiscoverRequest settings cidr timeout =
     [(''cidr'', JStr cidr), (''community'', jget settings ''community''),
      (''version'', jget settings ''snmpVersion''), (''port'', jget settings ''port''),
      (''timeout'', timeout), (''v3'', JObj (buildV3Params settings))]"

definition buildTrapListenerRequest :: "jsval \<Rightarrow> fields" where
  "buildTrapListenerRequest settings =
     [(''port'', jget settings ''trapPort''),
      (''users'', JArr (map (\<lambda>u. JObj (v3Params (JObj u))) (trapUsers settings)))]"

definition buildMonitorConnection :: "jsval \<Rightarrow> fields" where
  "buildMonitorConnection settings =
     [(''port'', jget settings ''port''), (''timeoutSec'', jget settings ''timeout''),
      (''retries'', jget settings ''retries''), (''community'', jget settings ''community''),
      (''v3'', JObj (buildV3Params settings)), (''profile'', coalesce (jget settings ''credentialRef'') (JStr []))]"

section \<open>Grouping is a partition\<close>

definition group_inv :: "(string \<Rightarrow> 'k) \<Rightarrow> (string \<Rightarrow> fields) \<Rightarrow> ('k \<times> group) list \<Rightarrow> bool" where
  "group_inv key eff gs \<longleftrightarrow> distinct (map fst gs) \<and>
     (\<forall>(k, g) \<in> set gs. g_targets g \<noteq> [] \<and> (\<forall>a \<in> set (g_targets g). key a = k) \<and> g_settings g = eff (hd (g_targets g)))"

definition sent :: "('k \<times> group) list \<Rightarrow> string multiset" where
  "sent gs = (\<Sum>(k, g) \<leftarrow> gs. mset (g_targets g))"

lemma sent_Cons [simp]: "sent ((k, g) # gs) = mset (g_targets g) + sent gs"
  by (simp add: sent_def)

lemma sent_Nil [simp]: "sent [] = {#}"
  by (simp add: sent_def)

lemma sent_update:
  "distinct (map fst gs) \<Longrightarrow>
   sent (AList.update k g gs) + (case map_of gs k of Some g' \<Rightarrow> mset (g_targets g') | None \<Rightarrow> {#}) =
   sent gs + mset (g_targets g)"
proof (induction gs)
  case (Cons p gs)
  obtain i h where p: "p = (i, h)" by (cases p)
  show ?case
  proof (cases "i = k")
    case True
    then have "map_of gs k = None" using Cons.prems p by (simp add: map_of_eq_None_iff)
    with True p show ?thesis by (simp add: add_ac)
  next
    case False
    with Cons p show ?thesis by (simp add: add.assoc)
  qed
qed simp

lemma group_step_sent:
  assumes "group_inv key eff gs"
  shows "sent (group_step key eff gs a) = sent gs + {#a#}"
proof (cases "map_of gs (key a)")
  case None
  with assms sent_update[of gs "key a" "\<lparr>g_targets = [a], g_settings = eff a\<rparr>"]
  show ?thesis by (simp add: group_inv_def group_step_def)
next
  case (Some g)
  with assms sent_update[of gs "key a" "g\<lparr>g_targets := g_targets g @ [a]\<rparr>"]
  have "sent (group_step key eff gs a) + mset (g_targets g) = (sent gs + {#a#}) + mset (g_targets g)"
    by (simp add: group_inv_def group_step_def add_ac)
  then show ?thesis by (rule add_right_imp_eq)
qed

lemma group_step_inv:
  assumes "group_inv key eff gs"
  shows "group_inv key eff (group_step key eff gs a)"
proof -
  define g where "g = (case map_of gs (key a) of Some g \<Rightarrow> g | None \<Rightarrow> \<lparr>g_targets = [], g_settings = eff a\<rparr>)"
  have g: "(\<forall>b \<in> set (g_targets g). key b = key a) \<and> g_settings g = eff (hd (g_targets g @ [a]))"
    using assms by (cases "map_of gs (key a)") (auto simp: g_def group_inv_def dest!: map_of_SomeD)
  have "(k, h) \<in> set (AList.update (key a) (g\<lparr>g_targets := g_targets g @ [a]\<rparr>) gs) \<Longrightarrow>
      (k, h) = (key a, g\<lparr>g_targets := g_targets g @ [a]\<rparr>) \<or> (k, h) \<in> set gs" for k h
    by (induction gs) (auto split: if_splits)
  with assms g show ?thesis
    unfolding group_inv_def group_step_def Let_def g_def[symmetric] by (fastforce simp: distinct_update)
qed

lemma group_all:
  "group_inv key eff gs \<Longrightarrow> group_inv key eff (foldl (group_step key eff) gs as) \<and>
     sent (foldl (group_step key eff) gs as) = sent gs + mset as"
  by (induction as arbitrary: gs) (simp_all add: group_step_inv group_step_sent)

section \<open>What a request says\<close>

definition or_undef :: "jsval \<Rightarrow> jsval \<Rightarrow> jsval" where
  "or_undef a b = (if a = JUndef then b else a)"

lemma fget_spread:
  "distinct (map fst b) \<Longrightarrow> fget (spread a b) k = (case map_of b k of Some v \<Rightarrow> v | None \<Rightarrow> fget a k)"
  by (simp add: fget_def map_of_spread map_add_def split: option.splits)

lemma falsy_fields: "\<not> truthy v \<Longrightarrow> jget v k = JUndef"
  by (cases v) simp_all

lemma identity_of_distinct: "distinct (map fst (identity_of settings ov))"
proof -
  have "distinct (map fst (fset k v (profileIdentity p)))" for k v p
    by (auto simp: profileIdentity_def split: if_splits)
  then show ?thesis
    by (auto simp: identity_of_def opt_field_def split: option.splits)
qed

lemma identity_of_profile:
  assumes "findProfile settings (jget ov ''profile'') = Some p"
  shows "map_of (identity_of settings ov) = (map_of (profileIdentity p))(''credentialRef'' \<mapsto> jget p ''id'')"
  using assms by (simp add: identity_of_def map_of_fset)

lemma transport_distinct:
  "distinct (map fst (opt_field ''port'' a @ opt_field ''timeout'' b @ opt_field ''retries'' c))"
  by (simp add: opt_field_def)

lemma transport_map_of:
  "map_of (opt_field ''port'' a @ opt_field ''timeout'' b @ opt_field ''retries'' c) k =
     (if k = ''port'' \<and> a \<noteq> JUndef then Some a else if k = ''timeout'' \<and> b \<noteq> JUndef then Some b
      else if k = ''retries'' \<and> c \<noteq> JUndef then Some c else None)"
  by (simp add: opt_field_def)

lemma effective_fget:
  "fget (getEffectiveSettings settings address) k =
     (let ov = jget (jget settings ''targetOverrides'') address in
      if k = ''port'' \<and> portOf address \<noteq> None then JNum (of_nat (the (portOf address)))
      else if k \<in> {''port'', ''timeout'', ''retries''} \<and> jget ov k \<noteq> JUndef then jget ov k
      else case map_of (identity_of settings ov) k of Some v \<Rightarrow> v | None \<Rightarrow> jget settings k)"
proof -
  let ?ov = "jget (jget settings ''targetOverrides'') address"
  have plain: "identity_of settings v = [(''credentialRef'', JStr DEFAULT_REF)]" if "\<not> truthy v" for v
    using that by (simp add: identity_of_def findProfile_def hasCustomCredentials_def falsy_fields)
  show ?thesis
  proof (cases "truthy ?ov")
    case True
    let ?id = "identity_of settings ?ov"
    let ?tr = "opt_field ''port'' (jget ?ov ''port'') @ opt_field ''timeout'' (jget ?ov ''timeout'') @
        opt_field ''retries'' (jget ?ov ''retries'')"
    have "fget (spread (spread (fields_of settings) ?id) ?tr) k =
        (if k \<in> {''port'', ''timeout'', ''retries''} \<and> jget ?ov k \<noteq> JUndef then jget ?ov k
         else case map_of ?id k of Some v \<Rightarrow> v | None \<Rightarrow> jget settings k)"
      unfolding fget_spread[OF transport_distinct] fget_spread[OF identity_of_distinct] transport_map_of
      by (auto simp: jget_fields[of settings] split: option.splits)
    then show ?thesis
      using True by (simp add: getEffectiveSettings_def with_named_port_def Let_def split: option.splits)
  next
    case False
    then show ?thesis
      by (simp add: getEffectiveSettings_def with_named_port_def plain falsy_fields jget_fields[of settings]
          Let_def split: option.splits)
  qed
qed

section \<open>Properties\<close>

text \<open>
  C16. A request to a target says who it is from exactly one place: the target's profile when
  it has one that exists, else its own overrides, else the default identifiers; and it goes
  to the port the target names, else the override's, else the default one.
\<close>

theorem effective_identity:
  "let ov = jget (jget settings ''targetOverrides'') address; e = fget (getEffectiveSettings settings address) in
   (case findProfile settings (jget ov ''profile'') of
      Some p \<Rightarrow> e ''credentialRef'' = jget p ''id'' \<and> e ''community'' = fget (profileIdentity p) ''community'' \<and>
        e ''snmpVersion'' = fget (profileIdentity p) ''snmpVersion'' \<and> e ''v3'' = fget (profileIdentity p) ''v3''
    | None \<Rightarrow>
        if hasCustomCredentials ov
        then e ''credentialRef'' = JStr [] \<and>
          e ''community'' = or_undef (jget ov ''community'') (jget settings ''community'') \<and>
          e ''snmpVersion'' = or_undef (jget ov ''snmpVersion'') (jget settings ''snmpVersion'') \<and>
          e ''v3'' = JObj (spread (fields_of (jget settings ''v3'')) (fields_of (jget ov ''v3'')))
        else e ''credentialRef'' = JStr DEFAULT_REF \<and> e ''community'' = jget settings ''community'' \<and>
          e ''snmpVersion'' = jget settings ''snmpVersion'' \<and> e ''v3'' = jget settings ''v3'') \<and>
   e ''port'' = (case portOf address of Some n \<Rightarrow> JNum (of_nat n) | None \<Rightarrow> or_undef (jget ov ''port'') (jget settings ''port''))"
proof -
  have port: "map_of (identity_of settings ov) ''port'' = None" for ov
    by (auto simp: identity_of_def map_of_fset profileIdentity_def opt_field_def split: option.splits)
  show ?thesis
  proof (cases "findProfile settings (jget (jget (jget settings ''targetOverrides'') address) ''profile'')")
    case None
    then show ?thesis
      by (auto simp: Let_def effective_fget port identity_of_def opt_field_def or_undef_def split: option.splits)
  next
    case (Some p)
    have "map_of (profileIdentity p) k = Some (fget (profileIdentity p) k)"
      if "k \<in> {''community'', ''snmpVersion'', ''v3''}" for k
      using that by (auto simp: profileIdentity_def fget_def)
    moreover have "map_of (profileIdentity p) ''port'' = None" by (simp add: profileIdentity_def)
    ultimately show ?thesis using Some
      by (simp add: Let_def effective_fget port identity_of_profile or_undef_def split: option.splits)
  qed
qed

text \<open>
  Grouping sends every target exactly once, in groups whose targets would all be asked in
  the same way, and no two groups would be.
\<close>

theorem groupTargets_partition:
  "(\<Sum>g \<leftarrow> groupTargets stringify settings addresses. mset (g_targets g)) = mset addresses \<and>
   distinct (map (\<lambda>g. stringify (group_key (g_settings g))) (groupTargets stringify settings addresses)) \<and>
   (\<forall>g \<in> set (groupTargets stringify settings addresses). g_targets g \<noteq> [] \<and>
      (\<forall>a \<in> set (g_targets g). stringify (group_key (getEffectiveSettings settings a)) = stringify (group_key (g_settings g))))"
proof -
  let ?key = "\<lambda>a. stringify (group_key (getEffectiveSettings settings a))" and ?eff = "getEffectiveSettings settings"
  let ?gs = "foldl (group_step ?key ?eff) [] addresses"
  have inv: "group_inv ?key ?eff ?gs" and s: "sent ?gs = mset addresses"
    using group_all[of ?key ?eff "[]" addresses] by (simp_all add: group_inv_def)
  have k: "fst p = stringify (group_key (g_settings (snd p)))" if "p \<in> set ?gs" for p
    using inv that by (cases p) (force simp: group_inv_def)
  then have "map (\<lambda>p. stringify (group_key (g_settings (snd p)))) ?gs = map fst ?gs" by simp
  moreover have "sent ?gs = (\<Sum>g \<leftarrow> map snd ?gs. mset (g_targets g))" by (simp add: sent_def case_prod_unfold o_def)
  moreover have "g_targets (snd p) \<noteq> [] \<and> (\<forall>a \<in> set (g_targets (snd p)). ?key a = fst p)" if "p \<in> set ?gs" for p
    using inv that by (cases p) (force simp: group_inv_def)
  moreover have "distinct (map (\<lambda>p. stringify (group_key (g_settings (snd p)))) ?gs)"
    using inv calculation(1) unfolding group_inv_def by metis
  moreover have "groupTargets stringify settings addresses = map snd ?gs" by (simp add: groupTargets_def)
  ultimately show ?thesis using s k by (auto simp: o_def)
qed

theorem groupTargets_partition_witness:
  "(\<Sum>g \<leftarrow> groupTargets (\<lambda>v. v) (JObj []) [''10.0.0.1'', ''10.0.0.2:1161'', ''10.0.0.3'']. mset (g_targets g)) =
   mset [''10.0.0.1'', ''10.0.0.2:1161'', ''10.0.0.3'']"
  using groupTargets_partition[of "\<lambda>v. v" "JObj []" "[''10.0.0.1'', ''10.0.0.2:1161'', ''10.0.0.3'']"] by blast

text \<open>
  A line that holds only a label is sent as a request to the empty address, although the
  list of targets the other screens show has no such target.
\<close>

theorem label_only_line_is_a_target:
  "getTargetsAsArray ''# core switches'' = [[]] \<and> parseTargetLines ''# core switches'' = []"
  by code_simp

end
