(* ===== verification/Credential_Sealing.thy ===== *)
theory Credential_Sealing
  imports Credential_Profiles
begin

text \<open>
  Sealing the credentials kept in local storage: \<open>frontend/src/utils/crypto.js\<close> and the saving
  and loading of \<open>stores/settingsStore.js\<close>. A sensitive field is a key and the path to it. The
  vault that seals and opens is the backend's (\<open>SettingsSeal\<close>, \<open>SettingsOpen\<close>), an argument
  whose documented behaviour is \<open>vault_ok\<close>. The lemmas show that saving never destroys a
  stored credential it could not seal, and that what is sealed opens to what it was.
\<close>

section \<open>Nested values\<close>

datatype pstep = Key string | Idx nat

fun get_path :: "jsval \<Rightarrow> pstep list \<Rightarrow> jsval" where
  "get_path v [] = v"
| "get_path v (Key k # p) = get_path (jget v k) p"
| "get_path v (Idx i # p) = get_path (if i < length (elems v) then elems v ! i else JUndef) p"

text \<open>As \<open>setNestedValue\<close> does, a missing object on the way is created.\<close>

fun set_path :: "jsval \<Rightarrow> pstep list \<Rightarrow> jsval \<Rightarrow> jsval" where
  "set_path v [] x = x"
| "set_path v (Key k # p) x = jset k (set_path (jget v k) p x) v"
| "set_path v (Idx i # p) x = JArr ((elems v)[i := set_path (elems v ! i) p x])"

fun in_range :: "jsval \<Rightarrow> pstep list \<Rightarrow> bool" where
  "in_range v [] = True"
| "in_range v (Key k # p) = in_range (jget v k) p"
| "in_range v (Idx i # p) = (i < length (elems v) \<and> in_range (elems v ! i) p)"

fun diverge :: "pstep list \<Rightarrow> pstep list \<Rightarrow> bool" where
  "diverge (Key a # p) (Key b # q) = (a \<noteq> b \<or> diverge p q)"
| "diverge (Idx a # p) (Idx b # q) = (a \<noteq> b \<or> diverge p q)"
| "diverge _ _ = False"

lemma diverge_sym: "diverge p q = diverge q p"
  by (induction p q rule: diverge.induct) auto

lemma get_set_same: "in_range v p \<Longrightarrow> get_path (set_path v p x) p = x"
  by (induction v p rule: in_range.induct) auto

lemma get_set_other: "diverge p q \<Longrightarrow> get_path (set_path v p x) q = get_path v q"
proof (induction p q arbitrary: v rule: diverge.induct)
  case (2 a p b q)
  then show ?case by (cases "a = b"; cases "b < length (elems v)") auto
qed auto

lemma in_range_set: "diverge p q \<Longrightarrow> in_range v q \<Longrightarrow> in_range (set_path v p x) q"
proof (induction p q arbitrary: v rule: diverge.induct)
  case (2 a p b q)
  then show ?case by (cases "a = b") auto
qed auto

definition writes :: "jsval \<Rightarrow> (pstep list \<times> jsval) list \<Rightarrow> jsval" where
  "writes = foldl (\<lambda>v (p, x). set_path v p x)"

lemma writes_other: "\<forall>(p, x) \<in> set ws. diverge p q \<Longrightarrow> get_path (writes v ws) q = get_path v q"
  by (induction ws arbitrary: v) (auto simp: writes_def get_set_other)

lemma writes_same:
  assumes "sorted_wrt diverge (map fst ws)" "\<forall>(p, x) \<in> set ws. in_range v p" "(q, y) \<in> set ws"
  shows "get_path (writes v ws) q = y"
  using assms
proof (induction ws arbitrary: v)
  case (Cons w ws)
  obtain p x where w: "w = (p, x)" by (cases w)
  have later: "diverge p p'" if "(p', x') \<in> set ws" for p' x'
    using Cons.prems(1) that w by (force simp: image_iff)
  have step: "writes v (w # ws) = writes (set_path v p x) ws" by (simp add: writes_def w)
  show ?case
  proof (cases "(q, y) \<in> set ws")
    case True
    have "\<forall>(p', x') \<in> set ws. in_range (set_path v p x) p'"
      using Cons.prems(2) later in_range_set by fastforce
    with Cons True show ?thesis unfolding step by simp
  next
    case False
    then have q: "q = p" "y = x" using Cons.prems(3) w by auto
    have "\<forall>(p', x') \<in> set ws. diverge p' p" using later diverge_sym by fast
    then have "get_path (writes (set_path v p x) ws) p = get_path (set_path v p x) p" by (rule writes_other)
    also have "\<dots> = x" using Cons.prems(2) w by (intro get_set_same) simp
    finally show ?thesis using q step by simp
  qed
qed simp

section \<open>The sensitive fields\<close>

definition jhas :: "jsval \<Rightarrow> string \<Rightarrow> bool" where
  "jhas v k \<longleftrightarrow> k \<in> fst ` set (fields_of v)"

type_synonym slot = "string \<times> pstep list"

text \<open>The fields an override or a profile has: its community, and the passphrases of its v3 block.\<close>

definition own_slots :: "string \<Rightarrow> pstep list \<Rightarrow> jsval \<Rightarrow> slot list" where
  "own_slots key path v =
     (if jhas v ''community'' then [(key @ ''.community'', path @ [Key ''community''])] else []) @
     (if truthy (jget v ''v3'')
      then (if jhas (jget v ''v3'') ''authPass''
            then [(key @ ''.v3.authPass'', path @ [Key ''v3'', Key ''authPass''])] else []) @
           (if jhas (jget v ''v3'') ''privPass''
            then [(key @ ''.v3.privPass'', path @ [Key ''v3'', Key ''privPass''])] else [])
      else [])"

definition SENSITIVE_PATHS :: "slot list" where
  "SENSITIVE_PATHS = [(''community'', [Key ''community'']), (''v3.authPass'', [Key ''v3'', Key ''authPass'']),
     (''v3.privPass'', [Key ''v3'', Key ''privPass''])]"

definition override_slots :: "string \<times> jsval \<Rightarrow> slot list" where
  "override_slots = (\<lambda>(addr, ov). own_slots (''o:'' @ addr) [Key ''targetOverrides'', Key addr] ov)"

definition profile_slots :: "nat \<times> jsval \<Rightarrow> slot list" where
  "profile_slots = (\<lambda>(i, p). case jget p ''id'' of
     JStr n \<Rightarrow> own_slots (''p:'' @ n) [Key ''credentialProfiles'', Idx i] p
   | _ \<Rightarrow> [])"

definition fields_slots :: "jsval \<Rightarrow> slot list" where
  "fields_slots settings =
     SENSITIVE_PATHS @
     concat (map override_slots (fields_of (jget settings ''targetOverrides''))) @
     concat (map profile_slots (List.enumerate 0 (elems (jget settings ''credentialProfiles''))))"

lemma own_slots_path:
  "(k, p) \<in> set (own_slots key path v) \<Longrightarrow>
     \<exists>q \<in> {[Key ''community''], [Key ''v3'', Key ''authPass''], [Key ''v3'', Key ''privPass'']}. p = path @ q"
  by (auto simp: own_slots_def split: if_splits)

lemma diverge_append: "diverge (path @ p) (path @ q) = diverge p q"
proof (induction path)
  case (Cons s path)
  then show ?case by (cases s) auto
qed simp

lemma own_slots_diverge: "sorted_wrt diverge (map snd (own_slots key path v))"
  by (auto simp: own_slots_def diverge_append)

lemma sorted_wrt_concat:
  "\<forall>xs \<in> set xss. sorted_wrt R xs \<Longrightarrow>
   sorted_wrt (\<lambda>xs ys. \<forall>x \<in> set xs. \<forall>y \<in> set ys. R x y) xss \<Longrightarrow> sorted_wrt R (concat xss)"
  by (induction xss) (auto simp: sorted_wrt_append)

lemma sorted_wrt_map_distinct:
  assumes "\<And>a b. f a \<noteq> f b \<Longrightarrow> R (g a) (g b)" "distinct (map f xs)"
  shows "sorted_wrt R (map g xs)"
  using assms(2)
proof (induction xs)
  case (Cons a xs)
  have "R (g a) (g b)" if "b \<in> set xs" for b
    using Cons.prems that by (intro assms(1)) auto
  with Cons show ?case by simp
qed simp

text \<open>The settings as the store has them: no address twice among the overrides.\<close>

definition settings_ok :: "jsval \<Rightarrow> bool" where
  "settings_ok settings \<longleftrightarrow> distinct (map fst (fields_of (jget settings ''targetOverrides'')))"

lemma override_slots_diverge:
  assumes "distinct (map fst ovs)"
  shows "sorted_wrt diverge (map snd (concat (map override_slots ovs)))"
proof -
  have "diverge p q" if "(k, p) \<in> set (override_slots a)" "(j, q) \<in> set (override_slots b)" "fst a \<noteq> fst b" for a b k j p q
    using that by (auto simp: override_slots_def split: prod.splits dest!: own_slots_path)
  then have "sorted_wrt (\<lambda>xs ys. \<forall>x \<in> set xs. \<forall>y \<in> set ys. diverge x y) (map (\<lambda>a. map snd (override_slots a)) ovs)"
    using assms by (intro sorted_wrt_map_distinct[where f = fst]) auto
  then have "sorted_wrt diverge (concat (map (\<lambda>a. map snd (override_slots a)) ovs))"
    by (intro sorted_wrt_concat) (auto simp: override_slots_def own_slots_diverge split: prod.splits)
  then show ?thesis by (simp add: map_concat o_def)
qed

lemma profile_slots_diverge: "sorted_wrt diverge (map snd (concat (map profile_slots (List.enumerate n ps))))"
proof -
  have "diverge p q" if "(k, p) \<in> set (profile_slots a)" "(j, q) \<in> set (profile_slots b)" "fst a \<noteq> fst b" for a b k j p q
    using that by (auto simp: profile_slots_def split: prod.splits jsval.splits dest!: own_slots_path)
  then have "sorted_wrt (\<lambda>xs ys. \<forall>x \<in> set xs. \<forall>y \<in> set ys. diverge x y)
      (map (\<lambda>a. map snd (profile_slots a)) (List.enumerate n ps))"
    by (intro sorted_wrt_map_distinct[where f = fst]) (auto simp: map_fst_enumerate)
  then have "sorted_wrt diverge (concat (map (\<lambda>a. map snd (profile_slots a)) (List.enumerate n ps)))"
    by (intro sorted_wrt_concat) (auto simp: profile_slots_def own_slots_diverge split: prod.splits jsval.splits)
  then show ?thesis by (simp add: map_concat o_def)
qed

lemma slot_heads:
  "p \<in> snd ` set (concat (map override_slots ovs)) \<Longrightarrow> \<exists>r. p = Key ''targetOverrides'' # r"
  "p \<in> snd ` set (concat (map profile_slots ps)) \<Longrightarrow> \<exists>r. p = Key ''credentialProfiles'' # r"
  "p \<in> snd ` set SENSITIVE_PATHS \<Longrightarrow> \<exists>k r. p = Key k # r \<and> k \<in> {''community'', ''v3''}"
  by (auto simp: override_slots_def profile_slots_def SENSITIVE_PATHS_def
      split: prod.splits jsval.splits dest!: own_slots_path)

lemma slots_diverge:
  assumes "settings_ok settings"
  shows "sorted_wrt diverge (map snd (fields_slots settings))"
proof -
  let ?o = "concat (map override_slots (fields_of (jget settings ''targetOverrides'')))"
  let ?p = "concat (map profile_slots (List.enumerate 0 (elems (jget settings ''credentialProfiles''))))"
  have apart: "diverge p q" if "p \<in> snd ` set SENSITIVE_PATHS" "q \<in> snd ` set ?o \<union> snd ` set ?p" for p q
    using slot_heads(3)[OF that(1)] that(2) slot_heads(1,2) by fastforce
  have apart2: "diverge p q" if "p \<in> snd ` set ?o" "q \<in> snd ` set ?p" for p q
    using slot_heads(1)[OF that(1)] slot_heads(2)[OF that(2)] by auto
  have "sorted_wrt diverge (map snd SENSITIVE_PATHS)" by (simp add: SENSITIVE_PATHS_def)
  moreover have "sorted_wrt diverge (map snd ?o)"
    using assms unfolding settings_ok_def by (rule override_slots_diverge)
  moreover have "sorted_wrt diverge (map snd ?p)" by (rule profile_slots_diverge)
  moreover have "\<forall>p \<in> set (map snd SENSITIVE_PATHS). \<forall>q \<in> set (map snd ?o @ map snd ?p). diverge p q"
    using apart unfolding set_append set_map by blast
  moreover have "\<forall>p \<in> set (map snd ?o). \<forall>q \<in> set (map snd ?p). diverge p q"
    using apart2 unfolding set_map by blast
  ultimately show ?thesis unfolding fields_slots_def map_append sorted_wrt_append by blast
qed


text \<open>The clone: \<open>JSON.parse(JSON.stringify(v))\<close> drops undefined properties and nulls undefined
  elements.\<close>

fun json_clone :: "jsval \<Rightarrow> jsval" where
  "json_clone (JArr xs) = JArr (map (\<lambda>x. if x = JUndef then JNull else json_clone x) xs)"
| "json_clone (JObj fs) = JObj (map (\<lambda>(k, x). (k, json_clone x)) (filter (\<lambda>(k, x). x \<noteq> JUndef) fs))"
| "json_clone v = v"

text \<open>\<open>'community' in v\<close> throws on a primitive.\<close>

definition is_holder :: "jsval \<Rightarrow> bool" where
  "is_holder v \<longleftrightarrow> is_object v \<or> is_array v"

definition own_readable :: "jsval \<Rightarrow> bool" where
  "own_readable v \<longleftrightarrow> is_holder v \<and> (truthy (jget v ''v3'') \<longrightarrow> is_holder (jget v ''v3''))"

definition fields_readable :: "jsval \<Rightarrow> bool" where
  "fields_readable settings \<longleftrightarrow>
     (\<forall>(addr, ov) \<in> set (fields_of (jget settings ''targetOverrides'')). own_readable ov) \<and>
     (\<forall>p \<in> set (elems (jget settings ''credentialProfiles'')).
        (case jget p ''id'' of JStr n \<Rightarrow> own_readable p | _ \<Rightarrow> True))"

section \<open>Sealing and opening\<close>

datatype cred_state = Ok | Locked | Nostore

definition PREFIX :: string where "PREFIX = ''enc:''"

fun isEncrypted :: "jsval \<Rightarrow> bool" where
  "isEncrypted (JStr s) = starts_with s PREFIX"
| "isEncrypted _ = False"

fun text_of :: "jsval \<Rightarrow> string" where
  "text_of (JStr s) = s"
| "text_of _ = []"

definition stored_under :: "jsval \<Rightarrow> string \<Rightarrow> jsval" where
  "stored_under previous k =
     (if is_holder previous
      then case map_of (rev (map (\<lambda>(k, p). (k, get_path previous p)) (fields_slots previous))) k of
             None \<Rightarrow> JUndef | Some v \<Rightarrow> v
      else JUndef)"

definition carryForward :: "jsval \<Rightarrow> slot list \<Rightarrow> jsval \<Rightarrow> jsval" where
  "carryForward clone slots previous =
     writes clone (map (\<lambda>(k, p). (p, JStr (text_of (stored_under previous k)))) slots)"

text \<open>The vault: \<open>None\<close> when the bridge rejects. \<open>encryptSettings\<close> is \<open>None\<close> when it throws.\<close>

type_synonym vault = "string list \<Rightarrow> string list option"

definition seal_writes :: "slot list \<Rightarrow> string list \<Rightarrow> string list \<Rightarrow> (pstep list \<times> jsval) list" where
  "seal_writes slots vs sealed =
     map (\<lambda>((k, p), v, s). (p, JStr s)) (filter (\<lambda>((k, p), v, s). v \<noteq> [] \<or> s \<noteq> []) (zip slots (zip vs sealed)))"

definition encryptSettings :: "cred_state \<Rightarrow> vault \<Rightarrow> jsval \<Rightarrow> jsval \<Rightarrow> jsval option" where
  "encryptSettings state seal settings previous =
     (let c = json_clone settings; slots = fields_slots c;
          vs = map (\<lambda>(k, p). text_of (get_path c p)) slots
      in if \<not> fields_readable c then None
         else if state \<noteq> Ok
         then (if fields_readable previous then Some (carryForward c slots previous) else None)
         else map_option (\<lambda>sealed. writes c (seal_writes slots vs sealed)) (seal vs))"

definition blankSealed :: "jsval \<Rightarrow> slot list \<Rightarrow> jsval" where
  "blankSealed v slots =
     writes v (map (\<lambda>(k, p). (p, JStr [])) (filter (\<lambda>(k, p). isEncrypted (get_path v p)) slots))"

text \<open>What \<open>SettingsKeyStatus\<close> answers: the call fails, or the backend with its two flags.\<close>

record key_status =
  ks_backend :: string
  ks_available :: bool
  ks_error :: bool

definition refreshStatus :: "key_status option \<Rightarrow> cred_state \<Rightarrow> bool \<times> cred_state" where
  "refreshStatus answer state = (case answer of
     None \<Rightarrow> (False, Nostore)
   | Some st \<Rightarrow> if \<not> ks_available st then (False, Nostore)
               else if ks_error st then (False, Locked)
               else (True, state))"

text \<open>The legacy key in local storage: absent, unusable, or a key to hand over. The key is removed
  once the vault has adopted it and opened the first sealed value with it.\<close>

datatype legacy = NoKey | BadKey | Key_k string

definition migrateLegacyKey :: "(string \<Rightarrow> bool) \<Rightarrow> vault \<Rightarrow> jsval \<Rightarrow> legacy \<Rightarrow> legacy" where
  "migrateLegacyKey adopt opn settings old = (case old of
     NoKey \<Rightarrow> NoKey
   | BadKey \<Rightarrow> NoKey
   | Key_k k \<Rightarrow>
       (let sealed = filter isEncrypted (map (\<lambda>(k, p). get_path settings p) (fields_slots settings))
        in if adopt k \<and> (sealed = [] \<or> opn [text_of (hd sealed)] \<noteq> None) then NoKey else old))"

text \<open>\<open>opened[i]\<close> is undefined past the end of what the vault returned.\<close>

definition answer_at :: "string list \<Rightarrow> nat \<Rightarrow> jsval" where
  "answer_at xs i = (if i < length xs then JStr (xs ! i) else JUndef)"

definition open_writes :: "slot list \<Rightarrow> string list \<Rightarrow> (pstep list \<times> jsval) list" where
  "open_writes slots opened = map (\<lambda>(i, k, p). (p, answer_at opened i)) (List.enumerate 0 slots)"

definition decryptSettings :: "bool \<Rightarrow> vault \<Rightarrow> cred_state \<Rightarrow> jsval \<Rightarrow> cred_state \<times> jsval" where
  "decryptSettings usable opn state settings =
     (let slots = fields_slots settings;
          vs = map (\<lambda>(k, p). get_path settings p) slots
      in if \<not> (\<exists>v \<in> set vs. isEncrypted v) then (if usable then Ok else state, settings)
         else if \<not> usable then (state, blankSealed settings slots)
         else case opn (map text_of vs) of
                Some opened \<Rightarrow> (Ok, writes settings (open_writes slots opened))
              | None \<Rightarrow> (Locked, blankSealed settings slots))"

definition canPersistCredentials :: "cred_state \<Rightarrow> bool" where
  "canPersistCredentials state \<longleftrightarrow> state = Ok"


section \<open>The settings store\<close>

definition blank_v3 :: jsval where
  "blank_v3 = JObj [(''user'', JStr []), (''authProto'', JStr ''MD5''), (''authPass'', JStr []),
     (''privProto'', JStr ''DES''), (''privPass'', JStr []), (''secLevel'', JStr ''NoAuthNoPriv''), (''contextName'', JStr [])]"

definition defaults :: fields where
  "defaults = [(''targets'', JStr ''127.0.0.1''), (''snmpVersion'', JStr ''v2c''), (''port'', JNum 161),
     (''trapPort'', JNum 162), (''timeout'', JNum 5), (''retries'', JNum 1), (''community'', JStr ''public''),
     (''autoGetEnabled'', JBool False), (''autoFillSetEnabled'', JBool False), (''skipSetConfirm'', JBool False),
     (''locale'', JStr []), (''theme'', JStr ''system''), (''targetOverrides'', JObj []),
     (''credentialProfiles'', JArr []),
     (''targetGroups'', JArr [JObj [(''id'', JStr ''default''), (''name'', JStr ''Default'')]]),
     (''targetGroupAssignments'', JObj []),
     (''traps'', JObj [(''persist'', JBool False), (''maxCount'', JNum 1000), (''nativeNotifications'', JBool True),
                      (''acceptDefaultUser'', JBool True)]),
     (''polling'', JObj [(''retentionDays'', JNum 30), (''autoResume'', JBool False)]),
     (''monitor'', JObj [(''systemNotifications'', JBool False), (''alertSound'', JBool False)]),
     (''updates'', JObj [(''autoCheck'', JBool True)]), (''v3'', blank_v3)]"

definition default_group :: "fields \<Rightarrow> fields \<Rightarrow> string \<times> jsval \<Rightarrow> fields" where
  "default_group saved merged = (\<lambda>(key, v). case v of
     JObj d \<Rightarrow> fset key (case fget saved key of JObj over \<Rightarrow> JObj (spread d over) | _ \<Rightarrow> JObj d) merged
   | _ \<Rightarrow> merged)"

definition withDefaults :: "fields \<Rightarrow> fields \<Rightarrow> fields" where
  "withDefaults base saved = foldl (default_group saved) (spread base saved) base"

definition initialSettings :: "jsval \<Rightarrow> fields" where
  "initialSettings raw =
     (let s = (if truthy raw then withDefaults defaults (fields_of raw) else defaults)
      in fset ''anonymousMode'' (JBool False)
           (fset ''credentialProfiles'' (JArr (map JObj (normaliseProfiles (fget s ''credentialProfiles'')))) s))"

text \<open>The store: what the views see, the blob on disk, and the saves whose sealing has not come back.
  A save publishes at once; what it sealed is written when the bridge answers.\<close>

record sstore =
  published :: jsval
  disk :: "jsval option"
  sealing :: "jsval option list"

definition blob :: "sstore \<Rightarrow> jsval" where
  "blob st = (case disk st of None \<Rightarrow> JNull | Some v \<Rightarrow> v)"

definition save_start :: "cred_state \<Rightarrow> vault \<Rightarrow> jsval \<Rightarrow> sstore \<Rightarrow> sstore" where
  "save_start state seal settings st =
     st\<lparr>published := settings, sealing := sealing st @ [encryptSettings state seal settings (blob st)]\<rparr>"

definition save_end :: "nat \<Rightarrow> sstore \<Rightarrow> sstore" where
  "save_end i st = (if i < length (sealing st)
     then st\<lparr>disk := (case sealing st ! i of Some v \<Rightarrow> Some v | None \<Rightarrow> disk st),
             sealing := take i (sealing st) @ drop (Suc i) (sealing st)\<rparr>
     else st)"

definition save :: "cred_state \<Rightarrow> vault \<Rightarrow> jsval \<Rightarrow> sstore \<Rightarrow> sstore" where
  "save state seal settings st = save_end (length (sealing st)) (save_start state seal settings st)"

definition reset :: "sstore \<Rightarrow> sstore" where
  "reset st = st\<lparr>disk := None, published := JObj defaults\<rparr>"

text \<open>\<open>forgetCredentials\<close> drops the legacy key and asks the backend to drop its own, whose refusal
  changes nothing here.\<close>

definition forgetCredentials :: "legacy \<Rightarrow> legacy" where
  "forgetCredentials old = NoKey"


section \<open>Saving while the vault is shut\<close>

lemma own_slots_in_range: "(k, path @ q) \<in> set (own_slots key path v) \<Longrightarrow> in_range u q"
  by (auto simp: own_slots_def split: if_splits)

lemma fields_slots_in_range:
  assumes "(k, p) \<in> set (fields_slots settings)"
  shows "in_range settings p"
proof -
  consider "(k, p) \<in> set SENSITIVE_PATHS"
    | a where "(k, p) \<in> set (override_slots a)"
    | i v where "(i, v) \<in> set (List.enumerate 0 (elems (jget settings ''credentialProfiles'')))"
        "(k, p) \<in> set (profile_slots (i, v))"
    using assms by (auto simp: fields_slots_def)
  then show ?thesis
  proof cases
    case 3
    then show ?thesis
      by (auto simp: profile_slots_def in_set_enumerate_eq split: jsval.splits dest!: own_slots_path)
  qed (auto simp: SENSITIVE_PATHS_def override_slots_def split: prod.splits dest!: own_slots_path)
qed

lemma slot_write:
  assumes "settings_ok c" "(k, p) \<in> set (fields_slots c)"
  shows "get_path (writes c (map (\<lambda>(k, p). (p, f k p)) (fields_slots c))) p = f k p"
proof (rule writes_same)
  show "sorted_wrt diverge (map fst (map (\<lambda>(k, p). (p, f k p)) (fields_slots c)))"
    using slots_diverge[OF assms(1)] by (simp add: o_def case_prod_beta)
  show "\<forall>(p, x) \<in> set (map (\<lambda>(k, p). (p, f k p)) (fields_slots c)). in_range c p"
    using fields_slots_in_range by fastforce
qed (use assms(2) in force)

lemma stored_under_slot:
  assumes "distinct (map fst (fields_slots previous))" "(k, p) \<in> set (fields_slots previous)" "is_holder previous"
  shows "stored_under previous k = get_path previous p"
proof -
  let ?l = "map (\<lambda>(k, p). (k, get_path previous p)) (fields_slots previous)"
  have "distinct (map fst ?l)" using assms(1) by (simp add: o_def case_prod_beta)
  then have "map_of (rev ?l) k = Some (get_path previous p)"
    using assms(2) by (intro map_of_is_SomeI) (force simp: rev_map[symmetric])+
  with assms(3) show ?thesis by (simp add: stored_under_def)
qed

lemma save_blob:
  "blob (save state seal settings st) =
     (case encryptSettings state seal settings (blob st) of None \<Rightarrow> blob st | Some v \<Rightarrow> v)"
  by (auto simp: save_def save_start_def save_end_def blob_def nth_append split: option.splits)

text \<open>
  C17. A save while the vault is locked or absent puts back every stored credential exactly as it
  was, under its own key, whatever the settings in memory hold and wherever the override or the
  profile has moved.
\<close>

theorem locked_save_keeps_credentials:
  assumes "state \<noteq> Ok" "settings_ok (json_clone settings)"
    and "fields_readable (json_clone settings)" "fields_readable (blob st)"
    and "distinct (map fst (fields_slots (blob st)))"
    and "(k, p) \<in> set (fields_slots (json_clone settings))" "(k, p') \<in> set (fields_slots (blob st))"
    and "is_object (blob st)" "get_path (blob st) p' = JStr s"
  shows "get_path (blob (save state seal settings st)) p = JStr s"
proof -
  have "encryptSettings state seal settings (blob st)
      = Some (carryForward (json_clone settings) (fields_slots (json_clone settings)) (blob st))"
    using assms by (simp add: encryptSettings_def Let_def)
  moreover have "stored_under (blob st) k = JStr s"
    using stored_under_slot[OF assms(5,7)] assms(8,9) by (simp add: is_holder_def)
  ultimately show ?thesis
    using slot_write[OF assms(2,6), of "\<lambda>k p. JStr (text_of (stored_under (blob st) k))"]
    by (simp add: save_blob carryForward_def)
qed

definition stored_example :: jsval where
  "stored_example = JObj [(''community'', JStr ''enc:AA''),
     (''targetOverrides'', JObj [(''r1'', JObj [(''community'', JStr ''enc:BB'')])])]"

definition locked_example :: jsval where
  "locked_example = JObj [(''community'', JStr []),
     (''targetOverrides'', JObj [(''r0'', JObj [(''port'', JNum 1161)]), (''r1'', JObj [(''community'', JStr [])])])]"

lemmas example_defs = stored_example_def locked_example_def fields_slots_def SENSITIVE_PATHS_def
  override_slots_def own_slots_def jhas_def fget_def

theorem locked_save_keeps_credentials_witness:
  "get_path (blob (save Locked (\<lambda>_. None) locked_example \<lparr>published = JNull, disk = Some stored_example, sealing = []\<rparr>))
     [Key ''targetOverrides'', Key ''r1'', Key ''community''] = JStr ''enc:BB''"
  by (rule locked_save_keeps_credentials[where k = "''o:r1.community''" and p' = "[Key ''targetOverrides'', Key ''r1'', Key ''community'']"])
     (auto simp: example_defs settings_ok_def fields_readable_def blob_def is_holder_def own_readable_def)


section \<open>What is sealed opens to what it was\<close>

lemma jhas_jset [simp]: "jhas (jset k x v) k' \<longleftrightarrow> k' = k \<or> jhas v k'"
proof -
  have "fst ` set (fset k x fs) = insert k (fst ` set fs)" for fs
    by (induction k x fs rule: fset.induct) auto
  then show ?thesis by (auto simp: jhas_def jset_def)
qed

lemma truthy_jset [simp]: "truthy (jset k x v)" by (simp add: jset_def)

lemma own_slots_set:
  assumes "(k, p) \<in> set (own_slots key path v)" "p = path @ q"
  shows "own_slots key path' (set_path v q (JStr x)) = own_slots key path' v"
    and "jget (set_path v q (JStr x)) ''id'' = jget v ''id''"
  using assms by (auto simp: own_slots_def split: if_splits)

lemma fset_map:
  assumes "distinct (map fst fs)" "k \<in> fst ` set fs"
  shows "fset k x fs = map (\<lambda>(a, b). if a = k then (a, x) else (a, b)) fs"
  using assms
proof (induction fs)
  case (Cons f fs)
  obtain a b where f: "f = (a, b)" by (cases f)
  show ?case
  proof (cases "a = k")
    case True
    then have "map (\<lambda>(a, b). if a = k then (a, x) else (a, b)) fs = fs"
      using Cons.prems(1) f by (intro map_idI) force
    with True f show ?thesis by simp
  qed (use Cons f in auto)
qed simp

lemma concat_overrides_set:
  assumes "distinct (map fst ovs)" "(addr, ov) \<in> set ovs"
    and "(k, [Key ''targetOverrides'', Key addr] @ q) \<in> set (override_slots (addr, ov))"
  shows "map override_slots (fset addr (set_path ov q (JStr x)) ovs) = map override_slots ovs"
proof -
  have "override_slots (if a = addr then (a, set_path ov q (JStr x)) else (a, b)) = override_slots (a, b)"
    if "(a, b) \<in> set ovs" for a b
  proof (cases "a = addr")
    case True
    then have "b = ov" using that assms(1,2) by (auto dest: eq_key_imp_eq_value)
    with True assms(3) own_slots_set(1)[where path = "[Key ''targetOverrides'', Key addr]" and v = ov]
    show ?thesis by (simp add: override_slots_def)
  qed simp
  then have "map override_slots (map (\<lambda>(a, b). if a = addr then (a, set_path ov q (JStr x)) else (a, b)) ovs)
      = map override_slots ovs" by (auto simp: case_prod_beta)
  with assms(1,2) show ?thesis by (subst fset_map) force+
qed

lemma map_profiles_set:
  assumes "i < length ps" "(k, [Key ''credentialProfiles'', Idx i] @ q) \<in> set (profile_slots (i, ps ! i))"
  shows "map profile_slots (List.enumerate 0 (ps[i := set_path (ps ! i) q (JStr x)])) = map profile_slots (List.enumerate 0 ps)"
proof (rule nth_equalityI)
  fix j assume "j < length (map profile_slots (List.enumerate 0 (ps[i := set_path (ps ! i) q (JStr x)])))"
  then have j: "j < length ps" by simp
  have "profile_slots (i, set_path (ps ! i) q (JStr x)) = profile_slots (i, ps ! i)"
  proof -
    obtain n where n: "jget (ps ! i) ''id'' = JStr n"
        "(k, [Key ''credentialProfiles'', Idx i] @ q) \<in> set (own_slots (''p:'' @ n) [Key ''credentialProfiles'', Idx i] (ps ! i))"
      using assms(2) by (cases "jget (ps ! i) ''id''") (simp_all add: profile_slots_def)
    show ?thesis using n(1) own_slots_set[OF n(2) refl] by (simp add: profile_slots_def)
  qed
  with j show "map profile_slots (List.enumerate 0 (ps[i := set_path (ps ! i) q (JStr x)])) ! j
      = map profile_slots (List.enumerate 0 ps) ! j"
    by (cases "j = i") (simp_all add: nth_enumerate_eq)
qed simp

text \<open>Writing a string into a slot leaves the slots as they were.\<close>

lemma fields_slots_set:
  assumes "settings_ok c" "(k, p) \<in> set (fields_slots c)"
  shows "fields_slots (set_path c p (JStr x)) = fields_slots c \<and> settings_ok (set_path c p (JStr x))"
proof -
  let ?ovs = "fields_of (jget c ''targetOverrides'')" and ?ps = "elems (jget c ''credentialProfiles'')"
  consider "(k, p) \<in> set SENSITIVE_PATHS"
    | addr ov where "(addr, ov) \<in> set ?ovs" "(k, p) \<in> set (override_slots (addr, ov))"
    | i where "i < length ?ps" "(k, p) \<in> set (profile_slots (i, ?ps ! i))"
    using assms(2) by (auto simp: fields_slots_def in_set_enumerate_eq)
  then show ?thesis
  proof cases
    case 1
    then show ?thesis
      using assms(1) by (auto simp: SENSITIVE_PATHS_def fields_slots_def settings_ok_def)
  next
    case (2 addr ov)
    have d: "distinct (map fst ?ovs)" using assms(1) by (simp add: settings_ok_def)
    obtain q where q: "p = [Key ''targetOverrides'', Key addr] @ q"
      using 2(2) by (auto simp: override_slots_def dest!: own_slots_path)
    have ov: "jget (jget c ''targetOverrides'') addr = ov"
      using 2(1) d by (simp add: jget_fields fget_def)
    have "fst ` set ?ovs = insert addr (fst ` set ?ovs)" using 2(1) by force
    then have "distinct (map fst (fset addr y ?ovs))" for y
      using d 2(1) by (subst fset_map) (auto simp: case_prod_beta o_def distinct_map inj_on_def)
    with concat_overrides_set[OF d 2(1), of k q x] 2(2) q ov show ?thesis
      by (simp add: fields_slots_def settings_ok_def) (simp add: jset_def)
  next
    case (3 i)
    obtain q where q: "p = [Key ''credentialProfiles'', Idx i] @ q"
      using 3(2) by (auto simp: profile_slots_def split: jsval.splits dest!: own_slots_path)
    with map_profiles_set[OF 3(1), of k q x] 3 assms(1) show ?thesis
      by (simp add: fields_slots_def settings_ok_def)
  qed
qed


lemma writes_slots:
  assumes "settings_ok c" "\<forall>(p, x) \<in> set ws. p \<in> snd ` set (fields_slots c) \<and> (\<exists>s. x = JStr s)"
  shows "fields_slots (writes c ws) = fields_slots c \<and> settings_ok (writes c ws)"
  using assms
proof (induction ws arbitrary: c)
  case (Cons w ws)
  obtain p k s where w: "w = (p, JStr s)" "(k, p) \<in> set (fields_slots c)" using Cons.prems(2) by (cases w) force
  have c: "fields_slots (set_path c p (JStr s)) = fields_slots c" "settings_ok (set_path c p (JStr s))"
    using fields_slots_set[OF Cons.prems(1) w(2)] by auto
  have "\<forall>(p', x) \<in> set ws. p' \<in> snd ` set (fields_slots (set_path c p (JStr s))) \<and> (\<exists>s. x = JStr s)"
    using Cons.prems(2) c(1) by simp
  from Cons.IH[OF c(2) this] c(1) w(1) show ?case by (simp add: writes_def)
qed (simp add: writes_def)

text \<open>The backend's vault: it seals values one by one, empty values stay empty, others get the prefix,
  and what it sealed it opens. Values that already look sealed are left out: it passes them through.\<close>

definition plain :: "string list \<Rightarrow> bool" where
  "plain vs \<longleftrightarrow> (\<forall>v \<in> set vs. \<not> isEncrypted (JStr v))"

definition vault_ok :: "vault \<Rightarrow> vault \<Rightarrow> bool" where
  "vault_ok seal opn \<longleftrightarrow> (\<forall>vs sealed. plain vs \<longrightarrow> seal vs = Some sealed \<longrightarrow>
     list_all2 (\<lambda>v s. if v = [] then s = [] else isEncrypted (JStr s)) vs sealed \<and> opn sealed = Some vs)"

lemma seal_writes_mem:
  assumes "length vs = length slots" "length sealed = length slots"
  shows "(p, x) \<in> set (seal_writes slots vs sealed) \<longleftrightarrow>
    (\<exists>j < length slots. p = snd (slots ! j) \<and> x = JStr (sealed ! j) \<and> \<not> (vs ! j = [] \<and> sealed ! j = []))"
proof
  assume "(p, x) \<in> set (seal_writes slots vs sealed)"
  then obtain k v s where z: "((k, p), v, s) \<in> set (zip slots (zip vs sealed))" "v \<noteq> [] \<or> s \<noteq> []" "x = JStr s"
    by (auto simp: seal_writes_def)
  from z(1) obtain j where "j < length slots" "slots ! j = (k, p)" "vs ! j = v" "sealed ! j = s"
    using assms by (auto simp: in_set_conv_nth)
  with z(2,3) show "\<exists>j < length slots. p = snd (slots ! j) \<and> x = JStr (sealed ! j) \<and> \<not> (vs ! j = [] \<and> sealed ! j = [])"
    by auto
next
  assume "\<exists>j < length slots. p = snd (slots ! j) \<and> x = JStr (sealed ! j) \<and> \<not> (vs ! j = [] \<and> sealed ! j = [])"
  then obtain j where j: "j < length slots" "p = snd (slots ! j)" "x = JStr (sealed ! j)" "\<not> (vs ! j = [] \<and> sealed ! j = [])"
    by blast
  then have "(slots ! j, vs ! j, sealed ! j) \<in> set (zip slots (zip vs sealed))"
    using assms by (auto simp: set_zip)
  then show "(p, x) \<in> set (seal_writes slots vs sealed)"
    unfolding seal_writes_def set_map using j
    by (intro image_eqI[of _ _ "(slots ! j, vs ! j, sealed ! j)"]) (auto simp: case_prod_beta)
qed

lemma sealed_slots:
  assumes "settings_ok c" "length sealed = length (fields_slots c)" "i < length (fields_slots c)"
    and "\<And>j. j < length (fields_slots c) \<Longrightarrow> get_path c (snd (fields_slots c ! j)) = JStr (vs ! j)"
    and "length vs = length (fields_slots c)"
  shows "get_path (writes c (seal_writes (fields_slots c) vs sealed)) (snd (fields_slots c ! i)) = JStr (sealed ! i)"
proof -
  let ?sl = "fields_slots c"
  let ?z = "filter (\<lambda>((k, p), v, s). v \<noteq> [] \<or> s \<noteq> []) (zip ?sl (zip vs sealed))"
  have sorted: "sorted_wrt (\<lambda>a b. diverge (snd (fst a)) (snd (fst b))) (zip ?sl (zip vs sealed))"
    using slots_diverge[OF assms(1)] assms(2,5) by (simp add: sorted_wrt_iff_nth_less)
  then have sorted_z: "sorted_wrt (\<lambda>a b. diverge (snd (fst a)) (snd (fst b))) ?z" by (rule sorted_wrt_filter)
  obtain k p where sl: "?sl ! i = (k, p)" by force
  show ?thesis
  proof (cases "vs ! i = [] \<and> sealed ! i = []")
    case True
    have "diverge p' p" if w: "(p', x) \<in> set (seal_writes ?sl vs sealed)" for p' x
    proof -
      obtain j where j: "j < length ?sl" "snd (?sl ! j) = p'" "\<not> (vs ! j = [] \<and> sealed ! j = [])"
        using w assms(2,5) by (auto simp: seal_writes_mem)
      then have "j \<noteq> i" using True by auto
      then show ?thesis
        using sorted_wrt_nth_less[OF slots_diverge[OF assms(1)], of i j]
          sorted_wrt_nth_less[OF slots_diverge[OF assms(1)], of j i] j(1,2) assms(3) sl
        by (cases "j < i") (auto simp: diverge_sym[of p' p])
    qed
    then show ?thesis using writes_other[of _ p c] assms(4)[OF assms(3)] sl True by force
  next
    case False
    have "(p, JStr (sealed ! i)) \<in> set (seal_writes ?sl vs sealed)"
      unfolding seal_writes_mem[OF assms(5,2)] using assms(3) False sl by (intro exI[of _ i]) auto
    moreover have "sorted_wrt diverge (map fst (seal_writes ?sl vs sealed))"
      using sorted_z by (simp add: seal_writes_def o_def case_prod_beta sorted_wrt_map)
    moreover have "\<forall>(p, x) \<in> set (seal_writes ?sl vs sealed). in_range c p"
      by (auto simp: seal_writes_def dest!: set_zip_leftD intro: fields_slots_in_range)
    ultimately show ?thesis using writes_same sl by fastforce
  qed
qed


lemma opened_slots:
  assumes "settings_ok c" "length opened = length (fields_slots c)" "i < length (fields_slots c)"
  shows "get_path (writes c (open_writes (fields_slots c) opened)) (snd (fields_slots c ! i)) = JStr (opened ! i)"
proof (rule writes_same)
  show "sorted_wrt diverge (map fst (open_writes (fields_slots c) opened))"
    using slots_diverge[OF assms(1)]
    by (simp add: open_writes_def sorted_wrt_iff_nth_less nth_enumerate_eq case_prod_beta)
  show "\<forall>(p, x) \<in> set (open_writes (fields_slots c) opened). in_range c p"
    by (auto simp: open_writes_def enumerate_eq_zip dest!: set_zip_rightD intro: fields_slots_in_range)
  show "(snd (fields_slots c ! i), JStr (opened ! i)) \<in> set (open_writes (fields_slots c) opened)"
    using assms(2,3) unfolding open_writes_def set_map
    by (intro image_eqI[of _ _ "(i, fields_slots c ! i)"])
       (auto simp: answer_at_def in_set_enumerate_eq case_prod_beta)
qed

text \<open>
  C18. What a save writes while the vault is open, the next start reads back: every credential that
  was held in plain text has its value again in its own place, and the vault is usable.
\<close>

theorem sealed_settings_open_again:
  assumes "vault_ok seal opn" "settings_ok (json_clone settings)"
    and "encryptSettings Ok seal settings previous = Some stored"
    and "\<forall>(k, p) \<in> set (fields_slots (json_clone settings)).
           get_path (json_clone settings) p = JStr (text_of (get_path (json_clone settings) p)) \<and>
           \<not> isEncrypted (get_path (json_clone settings) p)"
    and "(k, p) \<in> set (fields_slots (json_clone settings))"
  shows "get_path (snd (decryptSettings True opn state stored)) p = get_path (json_clone settings) p \<and>
    fst (decryptSettings True opn state stored) = Ok"
proof -
  let ?c = "json_clone settings"
  let ?sl = "fields_slots ?c"
  let ?vs = "map (\<lambda>(k, p). text_of (get_path ?c p)) ?sl"
  obtain sealed where sealed: "seal ?vs = Some sealed" "stored = writes ?c (seal_writes ?sl ?vs sealed)"
    using assms(3) by (auto simp: encryptSettings_def Let_def split: if_splits)
  have held: "get_path ?c (snd (?sl ! j)) = JStr (?vs ! j)" "\<not> isEncrypted (JStr (?vs ! j))" if "j < length ?sl" for j
    using assms(4) nth_mem[OF that] that by (auto simp: case_prod_beta)
  then have "plain ?vs" unfolding plain_def by (metis in_set_conv_nth length_map)
  with assms(1) sealed(1) have v: "list_all2 (\<lambda>v s. if v = [] then s = [] else isEncrypted (JStr s)) ?vs sealed"
    "opn sealed = Some ?vs" by (simp_all add: vault_ok_def)
  have len: "length sealed = length ?sl" using v(1) by (simp add: list_all2_lengthD[symmetric])
  have slots: "fields_slots stored = ?sl \<and> settings_ok stored"
    unfolding sealed(2) using len
    by (intro writes_slots assms(2)) (fastforce simp: seal_writes_mem)
  have at: "get_path stored (snd (?sl ! j)) = JStr (sealed ! j)" if "j < length ?sl" for j
    unfolding sealed(2) using held len that by (intro sealed_slots assms(2)) auto
  then have read: "map (\<lambda>(k, p). get_path stored p) ?sl = map JStr sealed"
    using len by (intro nth_equalityI) (auto simp: case_prod_beta)
  obtain i where i: "i < length ?sl" "?sl ! i = (k, p)" using assms(5) by (metis in_set_conv_nth)
  show ?thesis
  proof (cases "\<exists>v \<in> set (map JStr sealed). isEncrypted v")
    case True
    then have "decryptSettings True opn state stored = (Ok, writes stored (open_writes ?sl ?vs))"
      unfolding decryptSettings_def Let_def conjunct1[OF slots] read
      using v(2) by (simp add: o_def)
    with opened_slots[of stored ?vs i] slots i held(1)[OF i(1)] show ?thesis by simp
  next
    case False
    then have "\<not> isEncrypted (JStr (sealed ! i))" using i(1) len by (metis in_set_conv_nth length_map nth_map)
    with list_all2_nthD[OF v(1), of i] i(1) have "?vs ! i = []" "sealed ! i = []"
      by (simp_all split: if_splits)
    moreover have "decryptSettings True opn state stored = (Ok, stored)"
      unfolding decryptSettings_def Let_def conjunct1[OF slots] read using False by simp
    ultimately show ?thesis using at[OF i(1)] held(1)[OF i(1)] i(2) by simp
  qed
qed


definition toy_seal :: vault where
  "toy_seal vs = Some (map (\<lambda>v. if v = [] then [] else PREFIX @ v) vs)"

definition toy_open :: vault where
  "toy_open vs = Some (map (\<lambda>v. if starts_with v PREFIX then drop 4 v else v) vs)"

lemma toy_vault: "vault_ok toy_seal toy_open"
  by (auto simp: vault_ok_def toy_seal_def toy_open_def list_all2_conv_all_nth starts_with_def PREFIX_def intro!: map_idI)

definition open_example :: jsval where
  "open_example = JObj [(''community'', JStr ''public''), (''v3'', JObj [(''authPass'', JStr ''aa''), (''privPass'', JStr [])]),
     (''targetOverrides'', JObj [(''r1'', JObj [(''community'', JStr ''x'')])])]"

theorem sealed_settings_open_again_witness:
  "get_path (snd (decryptSettings True toy_open Locked
     (the (encryptSettings Ok toy_seal open_example JNull))))
     [Key ''targetOverrides'', Key ''r1'', Key ''community''] = JStr ''x''"
proof -
  have enc: "encryptSettings Ok toy_seal open_example JNull = Some (the (encryptSettings Ok toy_seal open_example JNull))"
    by (simp add: encryptSettings_def Let_def open_example_def fields_readable_def own_readable_def is_holder_def toy_seal_def fget_def)
  have "get_path (snd (decryptSettings True toy_open Locked
     (the (encryptSettings Ok toy_seal open_example JNull))))
     [Key ''targetOverrides'', Key ''r1'', Key ''community'']
     = get_path (json_clone open_example) [Key ''targetOverrides'', Key ''r1'', Key ''community'']"
    by (rule conjunct1[OF sealed_settings_open_again[OF toy_vault _ enc, where k = "''o:r1.community''"]])
      (auto simp: open_example_def example_defs settings_ok_def starts_with_def PREFIX_def)
  then show ?thesis by (simp add: open_example_def fget_def)
qed

section \<open>Saves that overlap\<close>

text \<open>A community typed in for a target while the vault is shut is stored as an empty one.\<close>

lemma override_entered_while_locked:
  "get_path (blob (save Locked seal (JObj [(''community'', JStr ''public''),
       (''targetOverrides'', JObj [(''r1'', JObj [(''community'', JStr ''new'')])])])
     \<lparr>published = JNull, disk = Some (JObj [(''community'', JStr ''enc:AA'')]), sealing = []\<rparr>))
     [Key ''targetOverrides'', Key ''r1'', Key ''community''] = JStr []"
  unfolding save_blob by (simp add: encryptSettings_def Let_def blob_def fields_readable_def own_readable_def is_holder_def
      carryForward_def stored_under_def example_defs writes_def jset_def)

text \<open>
  A save whose values could not be sealed leaves the stored settings as they are; a save that
  was sealed leaves on disk what it sealed. But when two saves overlap and the bridge answers them
  in the other order, the disk ends with the older settings while the views show the newer ones.
\<close>

theorem overlapping_saves:
  assumes "sealing st = []" "encryptSettings Ok seal a (blob st) = Some sa" "encryptSettings Ok seal b (blob st) = Some sb"
  shows "let st' = save_start Ok seal b (save_start Ok seal a st)
         in disk (save_end 0 (save_end 0 st')) = Some sb \<and> disk (save_end 0 (save_end 1 st')) = Some sa \<and>
            published (save_end 0 (save_end 1 st')) = b \<and>
            (encryptSettings state seal' c (blob st) = None \<longrightarrow> disk (save state seal' c st) = disk st)"
  using assms by (simp_all add: save_def save_start_def save_end_def blob_def)

theorem overlapping_saves_witness:
  "disk (save Ok (\<lambda>_. None) open_example \<lparr>published = JNull, disk = Some locked_example, sealing = []\<rparr>) = Some locked_example"
proof -
  let ?st = "\<lparr>published = JNull, disk = Some locked_example, sealing = []\<rparr>"
  have enc: "encryptSettings Ok toy_seal open_example (blob ?st) = Some (the (encryptSettings Ok toy_seal open_example (blob ?st)))"
    by (simp add: encryptSettings_def Let_def open_example_def fields_readable_def own_readable_def is_holder_def toy_seal_def fget_def)
  have "disk (save Ok (\<lambda>_. None) open_example ?st) = disk ?st"
    using overlapping_saves[OF _ enc enc, where state = Ok and seal' = "\<lambda>_. None" and c = open_example]
    by (simp add: encryptSettings_def Let_def)
  then show ?thesis by simp
qed

end
