(* ===== verification/Mib_Graph.thy ===== *)
theory Mib_Graph
  imports Lens_Prelude Js_Text Js_Sort
begin

text \<open>
  The modules a folder of MIBs needs: \<open>frontend/src/utils/mibGraph.js\<close> (the import graph drawn
  as a tree) and \<open>mibDependencies.js\<close> (the missing modules of a load). The arrays Go may send
  as \<open>null\<close> are empty lists, a missing string is the empty one. The lemmas show that a tree not
  cut by its depth limit shows exactly the modules reachable from its root, each expanded once.
\<close>

section \<open>The import graph\<close>

record gnode =
  g_module :: string
  g_file :: string
  g_present :: bool
  g_loaded :: bool
  g_imports :: "string list"
  g_importedBy :: "string list"

datatype mod_status = MISSING | NOT_LOADED | LOADED

definition statusOf :: "gnode option \<Rightarrow> mod_status" where
  "statusOf node = (case node of
     None \<Rightarrow> MISSING
   | Some n \<Rightarrow> if \<not> g_present n then MISSING else if g_loaded n then LOADED else NOT_LOADED)"

definition rootsOf :: "gnode list \<Rightarrow> gnode list" where
  "rootsOf list =
     (let roots = filter (\<lambda>n. g_present n \<and> g_importedBy n = []) list
      in if roots \<noteq> [] then roots else filter g_present list)"

text \<open>\<open>byModule\<close>: of two nodes for one module the later one; a module without a node is absent.\<close>

definition absent_node :: "string \<Rightarrow> gnode" where
  "absent_node m = \<lparr>g_module = m, g_file = [], g_present = False, g_loaded = False, g_imports = [], g_importedBy = []\<rparr>"

definition node_of :: "gnode list \<Rightarrow> string \<Rightarrow> gnode" where
  "node_of nodes m = (case map_of (rev (map (\<lambda>n. (g_module n, n)) nodes)) m of Some n \<Rightarrow> n | None \<Rightarrow> absent_node m)"

datatype item = Item (it_module: string) (it_file: string) (it_status: mod_status) (it_depth: nat)
  (it_cycle: bool) (it_repeated: bool) (it_children: "item list")

definition DEFAULT_DEPTH :: nat where "DEFAULT_DEPTH = 12"

text \<open>\<open>build\<close>, with the levels left instead of the depth, and the set \<open>expanded\<close> it updates as a
  list; \<open>build_all\<close> is its loop over the imports.\<close>

function build ::
    "(string \<Rightarrow> gnode) \<Rightarrow> nat \<Rightarrow> nat \<Rightarrow> string list \<Rightarrow> string \<Rightarrow> string list \<Rightarrow> item \<times> string list"
and build_all ::
    "(string \<Rightarrow> gnode) \<Rightarrow> nat \<Rightarrow> nat \<Rightarrow> string list \<Rightarrow> string list \<Rightarrow> string list \<Rightarrow> item list \<times> string list" where
  "build node left depth path m expanded =
     (let cycle = m \<in> set path; repeated = m \<notin> set path \<and> m \<in> set expanded;
          item = Item m (g_file (node m)) (statusOf (Some (node m))) depth cycle repeated
      in if cycle \<or> repeated \<or> left = 0 then (item [], expanded)
         else (let (cs, e) = build_all node (left - 1) (depth + 1) (m # path) (g_imports (node m)) (m # expanded)
               in (item cs, e)))"
| "build_all node left depth path [] expanded = ([], expanded)"
| "build_all node left depth path (d # ds) expanded =
     (let (c, e) = build node left depth path d expanded; (cs, e') = build_all node left depth path ds e
      in (c # cs, e'))"
  by pat_completeness auto

termination
  by (relation "(\<lambda>x. case x of Inl (_, left, _) \<Rightarrow> 2 * left | Inr (_, left, _, _, ds, _) \<Rightarrow> 2 * left + 1)
        <*mlex*> measure (\<lambda>x. case x of Inl _ \<Rightarrow> 0 | Inr (_, left, _, _, ds, _) \<Rightarrow> length ds)")
     (auto simp: mlex_prod_def)

definition treeFrom :: "gnode list \<Rightarrow> string \<Rightarrow> nat \<Rightarrow> item" where
  "treeFrom nodes root maxDepth = fst (build (node_of nodes) maxDepth 0 [] root [])"

fun flattenTree :: "item \<Rightarrow> item list" where
  "flattenTree (Item m f s d cy re cs) = Item m f s d cy re cs # concat (map flattenTree cs)"

record graph_summary =
  gs_modules :: nat
  gs_missing :: nat
  gs_notLoaded :: nat
  gs_roots :: nat

definition graphSummary :: "gnode list \<Rightarrow> graph_summary" where
  "graphSummary list =
     \<lparr>gs_modules = length list,
      gs_missing = length (filter (\<lambda>n. statusOf (Some n) = MISSING) list),
      gs_notLoaded = length (filter (\<lambda>n. statusOf (Some n) = NOT_LOADED) list),
      gs_roots = length (rootsOf list)\<rparr>"


section \<open>What the tree shows\<close>

abbreviation flat :: "item list \<Rightarrow> item list" where
  "flat cs \<equiv> concat (map flattenTree cs)"

text \<open>An item whose imports are drawn below it, and a tree in which the depth limit cut nothing.\<close>

definition opened :: "nat \<Rightarrow> item \<Rightarrow> bool" where
  "opened N i \<longleftrightarrow> \<not> it_cycle i \<and> \<not> it_repeated i \<and> it_depth i < N"

definition uncut :: "nat \<Rightarrow> item list \<Rightarrow> bool" where
  "uncut N xs \<longleftrightarrow> (\<forall>i \<in> set xs. it_cycle i \<or> it_repeated i \<or> it_depth i < N)"

definition imports_rel :: "(string \<Rightarrow> gnode) \<Rightarrow> (string \<times> string) set" where
  "imports_rel node = {(m, d). d \<in> set (g_imports (node m))}"

lemma imports_relI: "d \<in> set (g_imports (node m)) \<Longrightarrow> (m, d) \<in> imports_rel node"
  by (simp add: imports_rel_def)

lemma build_leaf:
  "m \<in> set path \<or> m \<in> set E \<or> left = 0 \<Longrightarrow> build node left depth path m E =
     (Item m (g_file (node m)) (statusOf (Some (node m))) depth (m \<in> set path) (m \<notin> set path \<and> m \<in> set E) [], E)"
  by (auto simp: Let_def)

lemma build_node:
  assumes "\<not> (m \<in> set path \<or> m \<in> set E \<or> left = 0)"
  shows "build node left depth path m E =
     (let r = build_all node (left - 1) (depth + 1) (m # path) (g_imports (node m)) (m # E)
      in (Item m (g_file (node m)) (statusOf (Some (node m))) depth False False (fst r), snd r))"
  using assms by (simp add: Let_def case_prod_beta)

lemma build_all_Cons:
  "build_all node left depth path (d # ds) E =
     (let b = build node left depth path d E; r = build_all node left depth path ds (snd b)
      in (fst b # fst r, snd r))"
  by (simp add: Let_def case_prod_beta)

lemmas build_eqs = build_leaf build_node build_all_Cons Let_def
declare build.simps [simp del] build_all.simps(2) [simp del]

lemma build_induct [case_names leaf node nil cons]:
  assumes "\<And>left depth path m E. m \<in> set path \<or> m \<in> set E \<or> left = 0 \<Longrightarrow> P left depth path m E"
    and "\<And>left depth path m E. \<not> (m \<in> set path \<or> m \<in> set E \<or> left = 0) \<Longrightarrow>
      Q (left - 1) (depth + 1) (m # path) (g_imports (node m)) (m # E) \<Longrightarrow> P left depth path m E"
    and "\<And>left depth path E. Q left depth path [] E"
    and "\<And>left depth path d ds E. P left depth path d E \<Longrightarrow> Q left depth path ds (snd (build node left depth path d E)) \<Longrightarrow>
      Q left depth path (d # ds) E"
  shows "P left depth path m E" "Q left depth path ds E"
proof -
  have "(n = node \<longrightarrow> P left depth path m E)" "(n = node \<longrightarrow> Q left depth path ds E)" for n
  proof (induction n left depth path m E and n left depth path ds E rule: build_build_all.induct)
    case (1 n left depth path m E)
    then show ?case using assms(1,2)[of m path E left depth] by auto
  next
    case (3 n left depth path d ds E)
    then show ?case using assms(4)[of left depth path d E ds] prod.collapse by blast
  qed (use assms(3) in auto)
  then show "P left depth path m E" "Q left depth path ds E" by blast+
qed

lemma build_expands:
  "depth + left = N \<Longrightarrow> snd (build node left depth path m E)
     = rev (map it_module (filter (opened N) (flattenTree (fst (build node left depth path m E))))) @ E"
  "depth + left = N \<Longrightarrow> snd (build_all node left depth path ds E)
     = rev (map it_module (filter (opened N) (flat (fst (build_all node left depth path ds E))))) @ E"
  by (induction left depth path m E and left depth path ds E rule: build_induct[where node = node])
     (auto simp: build_eqs opened_def)

lemma build_distinct:
  "distinct E \<Longrightarrow> distinct (snd (build node left depth path m E))"
  "distinct E \<Longrightarrow> distinct (snd (build_all node left depth path ds E))"
  by (induction left depth path m E and left depth path ds E rule: build_induct[where node = node])
     (simp_all add: build_eqs)

lemma build_grows:
  "set E \<subseteq> set (snd (build node left depth path m E))"
  "set E \<subseteq> set (snd (build_all node left depth path ds E))"
  unfolding build_expands(1)[OF refl] build_expands(2)[OF refl] by auto

text \<open>Only what the root reaches is shown, and a module marked as a cycle does import itself.\<close>

definition shown_ok :: "(string \<Rightarrow> gnode) \<Rightarrow> string set \<Rightarrow> item \<Rightarrow> bool" where
  "shown_ok node from i \<longleftrightarrow> (\<exists>d \<in> from. (d, it_module i) \<in> (imports_rel node)\<^sup>*) \<and>
     (it_cycle i \<longrightarrow> (it_module i, it_module i) \<in> (imports_rel node)\<^sup>+)"

lemma build_sound:
  "\<forall>p \<in> set path. (p, m) \<in> (imports_rel node)\<^sup>+ \<Longrightarrow> i \<in> set (flattenTree (fst (build node left depth path m E))) \<Longrightarrow>
     shown_ok node {m} i"
  "\<forall>d \<in> set ds. \<forall>p \<in> set path. (p, d) \<in> (imports_rel node)\<^sup>+ \<Longrightarrow>
   i \<in> set (flat (fst (build_all node left depth path ds E))) \<Longrightarrow> shown_ok node (set ds) i"
proof (induction left depth path m E and left depth path ds E rule: build_induct[where node = node])
  case (leaf left depth path m E)
  then show ?case by (auto simp: build_leaf shown_ok_def)
next
  case (node left depth path m E)
  have "\<forall>d \<in> set (g_imports (node m)). \<forall>p \<in> set (m # path). (p, d) \<in> (imports_rel node)\<^sup>+"
    using node.prems(1) by (auto intro: imports_relI trancl_into_trancl)
  note IH = node.IH[OF this]
  from node(1) node.prems(2) consider "it_module i = m" "\<not> it_cycle i"
    | "i \<in> set (flat (fst (build_all node (left - 1) (depth + 1) (m # path) (g_imports (node m)) (m # E))))"
    by (auto simp: build_node Let_def)
  then show ?case
  proof cases
    case 2
    with IH show ?thesis by (auto simp: shown_ok_def intro: imports_relI converse_rtrancl_into_rtrancl)
  qed (simp add: shown_ok_def)
next
  case (cons left depth path d ds E)
  from cons.prems(2) consider "i \<in> set (flattenTree (fst (build node left depth path d E)))"
    | "i \<in> set (flat (fst (build_all node left depth path ds (snd (build node left depth path d E)))))"
    by (auto simp: build_all_Cons Let_def)
  then show ?case using cons by cases (auto simp: shown_ok_def)
qed simp

text \<open>A tree that was not cut shows no module it did not open somewhere, and all their imports.\<close>

definition closed_in :: "(string \<Rightarrow> gnode) \<Rightarrow> string list \<Rightarrow> string list \<Rightarrow> bool" where
  "closed_in node E E' \<longleftrightarrow> (\<forall>x \<in> set E' - set E. set (g_imports (node x)) \<subseteq> set E')"

lemma closed_in_trans:
  "closed_in node E E1 \<Longrightarrow> closed_in node E1 E2 \<Longrightarrow> set E1 \<subseteq> set E2 \<Longrightarrow> closed_in node E E2"
  unfolding closed_in_def by (metis DiffD1 DiffD2 DiffI subset_trans)

lemma build_covers:
  "set path \<subseteq> set E \<Longrightarrow> depth + left = N \<Longrightarrow> uncut N (flattenTree (fst (build node left depth path m E))) \<Longrightarrow>
     it_module ` set (flattenTree (fst (build node left depth path m E))) \<union> {m} \<subseteq> set (snd (build node left depth path m E)) \<and>
     closed_in node E (snd (build node left depth path m E))"
  "set path \<subseteq> set E \<Longrightarrow> depth + left = N \<Longrightarrow> uncut N (flat (fst (build_all node left depth path ds E))) \<Longrightarrow>
     it_module ` set (flat (fst (build_all node left depth path ds E))) \<union> set ds \<subseteq> set (snd (build_all node left depth path ds E)) \<and>
     closed_in node E (snd (build_all node left depth path ds E))"
proof (induction left depth path m E and left depth path ds E rule: build_induct[where node = node])
  case (leaf left depth path m E)
  then show ?case by (auto simp: build_leaf uncut_def closed_in_def)
next
  case (node left depth path m E)
  let ?r = "build_all node (left - 1) (depth + 1) (m # path) (g_imports (node m)) (m # E)"
  have p: "set (m # path) \<subseteq> set (m # E)" and n: "depth + 1 + (left - 1) = N" using node.prems(1,2) node(1) by auto
  have "uncut N (flat (fst ?r))" using node.prems(3) by (simp add: build_node[OF node(1)] Let_def uncut_def)
  note IH = node.IH[OF p n this]
  have grow: "set (m # E) \<subseteq> set (snd ?r)" by (rule build_grows)
  have i: "set (g_imports (node m)) \<subseteq> set (snd ?r)" using conjunct1[OF IH] by (simp only: Un_subset_iff)
  have "closed_in node E (snd ?r)"
    unfolding closed_in_def
  proof
    fix x assume "x \<in> set (snd ?r) - set E"
    then show "set (g_imports (node x)) \<subseteq> set (snd ?r)"
      using i conjunct2[OF IH] by (cases "x = m") (simp_all add: closed_in_def)
  qed
  moreover have "it_module ` set (flat (fst ?r)) \<subseteq> set (snd ?r)" using conjunct1[OF IH] by (simp only: Un_subset_iff)
  ultimately show ?case
    unfolding build_node[OF node(1)] Let_def fst_conv snd_conv flattenTree.simps using grow by simp
next
  case (cons left depth path d ds E)
  let ?b = "build node left depth path d E"
  let ?r = "build_all node left depth path ds (snd ?b)"
  have grow: "set E \<subseteq> set (snd ?b)" "set (snd ?b) \<subseteq> set (snd ?r)" by (rule build_grows)+
  have b: "uncut N (flattenTree (fst ?b))" "uncut N (flat (fst ?r))"
    using cons.prems(3) by (auto simp: build_all_Cons Let_def uncut_def)
  have path: "set path \<subseteq> set (snd ?b)" using cons.prems(1) grow by blast
  note D = cons.IH(1)[OF cons.prems(1,2) b(1)] and R = cons.IH(2)[OF path cons.prems(2) b(2)]
  have "closed_in node E (snd ?r)" using conjunct2[OF D] conjunct2[OF R] grow(2) by (rule closed_in_trans)
  moreover have "it_module ` set (flattenTree (fst ?b)) \<union> {d} \<subseteq> set (snd ?r)"
    using conjunct1[OF D] grow(2) by (rule subset_trans)
  moreover have "it_module ` set (flat (fst (?r))) \<union> set ds \<subseteq> set (snd ?r)" using conjunct1[OF R] .
  ultimately show ?case unfolding build_all_Cons Let_def fst_conv snd_conv
    by (simp only: list.map concat.simps set_append image_Un list.set Un_insert_left Un_insert_right
        Un_empty_left Un_empty_right insert_subset Un_subset_iff simp_thms)
qed (auto simp: uncut_def closed_in_def)


text \<open>
  C19. The tree of a module opens no module twice, shows only what the root imports, directly or
  through others, and marks as a cycle only a module that imports itself so; if the depth limit cut
  nothing it shows every such module.
\<close>

theorem tree_shows_imports:
  "let shown = flattenTree (treeFrom nodes root N); needed = {d. (root, d) \<in> (imports_rel (node_of nodes))\<^sup>*}
   in distinct (map it_module (filter (opened N) shown)) \<and>
      it_module ` set shown \<subseteq> needed \<and>
      it_module ` {i \<in> set shown. it_cycle i} \<subseteq> {m. (m, m) \<in> (imports_rel (node_of nodes))\<^sup>+} \<and>
      (uncut N shown \<longrightarrow> it_module ` set shown = needed)"
proof -
  define shown where "shown = flattenTree (treeFrom nodes root N)"
  define needed where "needed = {d. (root, d) \<in> (imports_rel (node_of nodes))\<^sup>*}"
  let ?b = "build (node_of nodes) N 0 [] root []"
  have shown: "shown = flattenTree (fst ?b)" by (simp add: shown_def treeFrom_def)
  have ok: "shown_ok (node_of nodes) {root} i" if "i \<in> set shown" for i
    using that build_sound(1)[of "[]"] by (simp add: shown)
  have opens: "snd ?b = rev (map it_module (filter (opened N) shown))"
    using build_expands(1)[of 0 N N "node_of nodes" "[]" root "[]"] by (simp add: shown)
  have "distinct (snd ?b)" by (rule build_distinct) simp
  then have d: "distinct (map it_module (filter (opened N) shown))" unfolding opens by simp
  have "needed \<subseteq> it_module ` set shown" if "uncut N shown"
  proof
    fix x assume "x \<in> needed"
    then have "(root, x) \<in> (imports_rel (node_of nodes))\<^sup>*" by (simp add: needed_def)
    then have "x \<in> set (snd ?b)"
    proof induction
      case base
      then show ?case using build_covers(1)[of "[]" "[]" 0 N N "node_of nodes" root] that by (simp add: shown)
    next
      case (step y z)
      then show ?case using build_covers(1)[of "[]" "[]" 0 N N "node_of nodes" root] that
        by (auto simp: shown closed_in_def imports_rel_def)
    qed
    then show "x \<in> it_module ` set shown" by (auto simp: opens)
  qed
  with d ok show ?thesis
    unfolding Let_def shown_def[symmetric] needed_def[symmetric] by (auto simp: shown_ok_def needed_def)
qed

theorem tree_shows_imports_witness:
  "it_module ` set (flattenTree (treeFrom
       [\<lparr>g_module = ''A'', g_file = [], g_present = True, g_loaded = True, g_imports = [''B'', ''B''], g_importedBy = [''B'']\<rparr>,
        \<lparr>g_module = ''B'', g_file = [], g_present = True, g_loaded = True, g_imports = [''A''], g_importedBy = [''A'']\<rparr>] ''A'' 12))
   = {d. (''A'', d) \<in> (imports_rel (node_of
       [\<lparr>g_module = ''A'', g_file = [], g_present = True, g_loaded = True, g_imports = [''B'', ''B''], g_importedBy = [''B'']\<rparr>,
        \<lparr>g_module = ''B'', g_file = [], g_present = True, g_loaded = True, g_imports = [''A''], g_importedBy = [''A'']\<rparr>]))\<^sup>*}"
  (is "it_module ` set (flattenTree (treeFrom ?n _ _)) = _")
proof -
  have "uncut 12 (flattenTree (treeFrom ?n ''A'' 12))"
    by (simp add: treeFrom_def build_eqs node_of_def uncut_def)
  with tree_shows_imports[of ?n "''A''" 12] show ?thesis by (simp only: Let_def)
qed

text \<open>The item the depth limit cuts is a leaf like any other: nothing in it says so.\<close>

lemma depth_limit_is_silent:
  "treeFrom [\<lparr>g_module = ''A'', g_file = [], g_present = True, g_loaded = True, g_imports = [''B''], g_importedBy = []\<rparr>,
     \<lparr>g_module = ''B'', g_file = [], g_present = True, g_loaded = True, g_imports = [''C''], g_importedBy = [''A'']\<rparr>] ''A'' 1
   = Item ''A'' [] LOADED 0 False False [Item ''B'' [] LOADED 1 False False []]"
  by (simp add: treeFrom_def build_eqs node_of_def statusOf_def)


section \<open>The missing modules\<close>

record need =
  nd_file :: string
  nd_symbols :: "string list"

record missing_entry =
  me_module :: string
  me_reason :: string
  me_cause :: string
  me_neededBy :: "need list"

text \<open>One missing import of a diagnosis, and the result of loading one file. \<open>null\<close> rows are left
  out by the code; the list given here has none.\<close>

record missing_import =
  mi_module :: string
  mi_reason :: string
  mi_cause :: string
  mi_symbols :: "string list"

record load_result =
  lr_fileName :: string
  lr_success :: bool
  lr_moduleName :: string
  lr_declared :: string
  lr_missing :: "missing_import list"

definition severity :: "string \<Rightarrow> nat" where
  "severity reason = (if reason = ''absent'' then 3 else if reason = ''failed'' then 2
     else if reason = ''notloaded'' then 1 else 0)"

text \<open>\<open>base\<close>: the name up to its last dot.\<close>

definition base_name :: "string \<Rightarrow> string" where
  "base_name s = (if CHR ''.'' \<in> set s then rev (tl (dropWhile (\<lambda>c. c \<noteq> CHR ''.'') (rev s))) else s)"

definition sameName :: "string \<Rightarrow> string \<Rightarrow> bool" where
  "sameName fileName moduleName \<longleftrightarrow> toLowerCase (base_name fileName) = toLowerCase moduleName"

definition merge_need :: "string \<Rightarrow> missing_import \<Rightarrow> missing_entry \<Rightarrow> missing_entry" where
  "merge_need file m e =
     e\<lparr>me_reason := (if severity (mi_reason m) > severity (me_reason e) then mi_reason m else me_reason e),
       me_cause := (if me_cause e = [] \<and> mi_cause m \<noteq> [] then mi_cause m else me_cause e),
       me_neededBy := me_neededBy e @ [\<lparr>nd_file = file, nd_symbols = mi_symbols m\<rparr>]\<rparr>"

definition new_entry :: "missing_import \<Rightarrow> missing_entry" where
  "new_entry m = \<lparr>me_module = mi_module m, me_reason = (if mi_reason m = [] then ''absent'' else mi_reason m),
     me_cause = mi_cause m, me_neededBy = []\<rparr>"

text \<open>\<open>byModule\<close> in insertion order.\<close>

fun add_missing :: "string \<Rightarrow> missing_import \<Rightarrow> missing_entry list \<Rightarrow> missing_entry list" where
  "add_missing file m [] = (if mi_module m = [] then [] else [merge_need file m (new_entry m)])"
| "add_missing file m (e # es) =
     (if mi_module m = [] then e # es
      else if me_module e = mi_module m then merge_need file m e # es else e # add_missing file m es)"

record dep_roll =
  dr_missing :: "missing_entry list"
  dr_mismatched :: "(string \<times> string) list"
  dr_loaded :: nat
  dr_failed :: nat

definition roll_step :: "dep_roll \<Rightarrow> load_result \<Rightarrow> dep_roll" where
  "roll_step r d =
     (let declared = (if lr_moduleName d \<noteq> [] then lr_moduleName d else lr_declared d)
      in \<lparr>dr_missing = foldl (\<lambda>es m. add_missing (lr_fileName d) m es) (dr_missing r) (lr_missing d),
          dr_mismatched = dr_mismatched r @
            (if declared \<noteq> [] \<and> \<not> sameName (lr_fileName d) declared then [(lr_fileName d, declared)] else []),
          dr_loaded = dr_loaded r + (if lr_success d then 1 else 0),
          dr_failed = dr_failed r + (if lr_success d then 0 else 1)\<rparr>)"

definition by_need :: "(string \<Rightarrow> string \<Rightarrow> int) \<Rightarrow> missing_entry \<Rightarrow> missing_entry \<Rightarrow> int" where
  "by_need localeCompare a b =
     (let n = int (length (me_neededBy b)) - int (length (me_neededBy a))
      in if n \<noteq> 0 then n else localeCompare (me_module a) (me_module b))"

definition dependencyRoll :: "(string \<Rightarrow> string \<Rightarrow> int) \<Rightarrow> load_result list \<Rightarrow> dep_roll" where
  "dependencyRoll localeCompare diagnostics =
     (let r = foldl roll_step \<lparr>dr_missing = [], dr_mismatched = [], dr_loaded = 0, dr_failed = 0\<rparr> diagnostics
      in r\<lparr>dr_missing := stable_sort (by_need localeCompare) (dr_missing r)\<rparr>)"

text \<open>\<open>[...seen].sort()\<close> orders by code units, which the argument \<open>cmp\<close> compares.\<close>

definition symbolsWanted :: "(string \<Rightarrow> string \<Rightarrow> int) \<Rightarrow> missing_entry \<Rightarrow> string list" where
  "symbolsWanted cmp entry = stable_sort cmp (rev (remdups (rev (concat (map nd_symbols (me_neededBy entry))))))"

section \<open>What the roll says\<close>

text \<open>The missing imports in the order they are met, each with the file that has it, and the files that
  name a module.\<close>

definition asked :: "load_result list \<Rightarrow> (string \<times> missing_import) list" where
  "asked ds = concat (map (\<lambda>d. map (\<lambda>m. (lr_fileName d, m)) (lr_missing d)) ds)"

definition mentions :: "(string \<times> missing_import) list \<Rightarrow> string \<Rightarrow> need list" where
  "mentions ps name = map (\<lambda>(f, m). \<lparr>nd_file = f, nd_symbols = mi_symbols m\<rparr>) (filter (\<lambda>(f, m). mi_module m = name) ps)"

definition needed_in :: "missing_entry list \<Rightarrow> string \<Rightarrow> need list" where
  "needed_in es name = concat (map me_neededBy (filter (\<lambda>e. me_module e = name) es))"

lemma add_missing_modules:
  "map me_module (add_missing file m es) = map me_module es @
     (if mi_module m = [] \<or> mi_module m \<in> me_module ` set es then [] else [mi_module m])"
  by (induction es) (auto simp: merge_need_def new_entry_def)

lemma distinct_key_other: "distinct (map f (a # xs)) \<Longrightarrow> x \<in> set xs \<Longrightarrow> f x \<noteq> f a"
  by (metis distinct.simps(2) image_eqI image_set list.simps(9))

lemma filter_key: "distinct (map f xs) \<Longrightarrow> x \<in> set xs \<Longrightarrow> filter (\<lambda>y. f y = f x) xs = [x]"
proof (induction xs)
  case (Cons a xs)
  have "filter (\<lambda>y. f y = f a) xs = []"
    using distinct_key_other[OF Cons.prems(1)] by (simp add: filter_empty_conv)
  with Cons show ?case by auto
qed simp

lemma add_missing_needed:
  assumes "distinct (map me_module es)" "name \<noteq> []"
  shows "needed_in (add_missing file m es) name =
     needed_in es name @ (if mi_module m = name then [\<lparr>nd_file = file, nd_symbols = mi_symbols m\<rparr>] else [])"
  using assms
proof (induction es)
  case (Cons e es)
  have none: "filter (\<lambda>x. me_module x = me_module e) es = []"
    using distinct_key_other[OF Cons.prems(1)] by (simp add: filter_empty_conv)
  show ?case
  proof (cases "me_module e = mi_module m")
    case True
    with none Cons.prems show ?thesis by (auto simp: needed_in_def merge_need_def)
  next
    case False
    then have "needed_in (add_missing file m (e # es)) name
        = (if me_module e = name then me_neededBy e else []) @ (if mi_module m = [] then needed_in es name else needed_in (add_missing file m es) name)"
      by (simp add: needed_in_def)
    also have "needed_in (e # es) name = (if me_module e = name then me_neededBy e else []) @ needed_in es name"
      by (simp add: needed_in_def)
    ultimately show ?thesis using Cons False none by auto
  qed
qed (auto simp: needed_in_def merge_need_def new_entry_def)


definition rolled :: "(string \<times> missing_import) list \<Rightarrow> missing_entry list \<Rightarrow> missing_entry list" where
  "rolled ps es = foldl (\<lambda>es (f, m). add_missing f m es) es ps"

lemma roll_missing: "dr_missing (foldl roll_step r ds) = rolled (asked ds) (dr_missing r)"
proof (induction ds arbitrary: r)
  case (Cons d ds)
  have "foldl (\<lambda>es m. add_missing f m es) es ms = rolled (map (Pair f) ms) es" for f ms es
    by (induction ms arbitrary: es) (simp_all add: rolled_def)
  with Cons show ?case by (simp add: asked_def rolled_def roll_step_def Let_def)
qed (simp add: asked_def rolled_def)

lemma roll_counts:
  "dr_loaded (foldl roll_step r ds) + dr_failed (foldl roll_step r ds) = dr_loaded r + dr_failed r + length ds"
  by (induction ds arbitrary: r) (simp_all add: roll_step_def Let_def)

lemma add_missing_worst:
  "e \<in> set (add_missing f m es) \<Longrightarrow> distinct (map me_module es) \<Longrightarrow>
     (mi_module m \<noteq> [] \<and> mi_module m = me_module e \<longrightarrow> severity (mi_reason m) \<le> severity (me_reason e)) \<and>
     (\<forall>e0 \<in> set es. me_module e0 = me_module e \<longrightarrow> severity (me_reason e0) \<le> severity (me_reason e))"
proof (induction es)
  case Nil
  then show ?case by (auto simp: merge_need_def new_entry_def severity_def split: if_splits)
next
  case (Cons a es)
  have same: "e0 = e" if "e0 \<in> set (a # es)" "e \<in> set (a # es)" "me_module e0 = me_module e" for e0
    using that Cons.prems(2) by (meson distinct_map inj_onD)
  have unique: "\<forall>e0 \<in> set (a # es). me_module e0 = me_module e \<longrightarrow> severity (me_reason e0) \<le> severity (me_reason e)"
    if "e \<in> set (a # es)"
    using same that by (metis order_refl)
  have other: "me_module x \<noteq> me_module a" if "x \<in> set es" for x
    using distinct_key_other[OF Cons.prems(2) that] .
  show ?case
  proof (cases "mi_module m = [] \<or> me_module a \<noteq> mi_module m")
    case True
    then consider "e = a" | "e \<in> set es" "mi_module m = []" | "e \<in> set (add_missing f m es)" "mi_module m \<noteq> []"
      using Cons.prems(1) by (auto split: if_splits)
    then show ?thesis
    proof cases
      case 3
      then have "me_module e \<in> set (map me_module (add_missing f m es))" by simp
      then have "me_module e \<in> me_module ` set es \<or> me_module e = mi_module m"
        unfolding add_missing_modules by (auto split: if_splits)
      then have "me_module e \<noteq> me_module a" using other True 3(2) by auto
      with 3 Cons True show ?thesis by auto
    next
      case 1
      then show ?thesis using unique True by auto
    next
      case 2
      then show ?thesis using unique by simp
    qed
  next
    case False
    then consider "e = merge_need f m a" | "e \<in> set es" using Cons.prems(1) by auto
    then show ?thesis
    proof cases
      case 1
      have "\<forall>e0 \<in> set es. me_module e0 \<noteq> me_module a" using other by blast
      with 1 False show ?thesis by (simp add: merge_need_def)
    next
      case 2
      then show ?thesis using unique False other[OF 2] by simp
    qed
  qed
qed


definition roll_inv :: "(string \<times> missing_import) list \<Rightarrow> missing_entry list \<Rightarrow> bool" where
  "roll_inv ps es \<longleftrightarrow> distinct (map me_module es) \<and>
     me_module ` set es = {mi_module m | f m. (f, m) \<in> set ps} - {[]} \<and>
     (\<forall>name. name \<noteq> [] \<longrightarrow> needed_in es name = mentions ps name) \<and>
     (\<forall>e \<in> set es. \<forall>(f, m) \<in> set ps. mi_module m = me_module e \<longrightarrow> severity (mi_reason m) \<le> severity (me_reason e))"

lemma rolled_inv: "roll_inv ps (rolled ps [])"
proof (induction ps rule: rev_induct)
  case (snoc p ps)
  obtain f m where p: "p = (f, m)" by (cases p)
  let ?es = "rolled ps []" and ?es' = "add_missing f m (rolled ps [])"
  have d: "distinct (map me_module ?es)" and s: "me_module ` set ?es = {mi_module m | f m. (f, m) \<in> set ps} - {[]}"
    and n: "\<And>name. name \<noteq> [] \<Longrightarrow> needed_in ?es name = mentions ps name"
    and w: "\<And>e f m. e \<in> set ?es \<Longrightarrow> (f, m) \<in> set ps \<Longrightarrow> mi_module m = me_module e \<Longrightarrow> severity (mi_reason m) \<le> severity (me_reason e)"
    using snoc.IH by (auto simp: roll_inv_def)
  have d': "distinct (map me_module ?es')" using d by (auto simp: add_missing_modules)
  have "me_module ` set ?es' = set (map me_module ?es')" by simp
  also have "\<dots> = {mi_module m | f m. (f, m) \<in> set (ps @ [p])} - {[]}"
    unfolding add_missing_modules using s by (auto simp: p)
  finally have s': "me_module ` set ?es' = {mi_module m | f m. (f, m) \<in> set (ps @ [p])} - {[]}" .
  have n': "needed_in ?es' name = mentions (ps @ [p]) name" if "name \<noteq> []" for name
    using n[OF that] d that by (simp add: add_missing_needed mentions_def p)
  have w': "severity (mi_reason k) \<le> severity (me_reason e)"
    if "e \<in> set ?es'" "(g, k) \<in> set (ps @ [p])" "mi_module k = me_module e" for e g k
  proof -
    have ne: "mi_module k \<noteq> []" using s' that(1,3) by (metis (mono_tags, lifting) DiffD2 imageI singletonI)
    note worst = add_missing_worst[OF that(1) d]
    show ?thesis
    proof (cases "(g, k) \<in> set ps")
      case True
      then have "mi_module k \<in> me_module ` set ?es" using s ne by blast
      then obtain e0 where "e0 \<in> set ?es" "me_module e0 = mi_module k" by force
      with worst that(3) w[OF _ True, of e0] show ?thesis by force
    next
      case False
      then show ?thesis using worst that ne p by auto
    qed
  qed
  have "rolled (ps @ [p]) [] = ?es'" by (simp add: rolled_def p)
  moreover have "\<forall>e \<in> set ?es'. \<forall>(g, k) \<in> set (ps @ [p]). mi_module k = me_module e \<longrightarrow> severity (mi_reason k) \<le> severity (me_reason e)"
    by (intro ballI, clarify) (rule w')
  ultimately show ?case using d' s' n' unfolding roll_inv_def by presburger
qed (simp add: roll_inv_def rolled_def needed_in_def mentions_def)

text \<open>
  The roll of a load counts every file once and has one row for each module some file misses,
  with exactly the files that miss it in the order they were loaded and a reason at least as bad as
  any given; the rows most files need come first.
\<close>

theorem roll_accounts:
  assumes "\<And>a b. lc a b \<le> 0 \<or> lc b a \<le> 0" "\<And>a b c. lc a b \<le> 0 \<Longrightarrow> lc b c \<le> 0 \<Longrightarrow> lc a c \<le> 0"
  shows "let r = dependencyRoll lc ds; rows = dr_missing r in
    dr_loaded r + dr_failed r = length ds \<and>
    distinct (map me_module rows) \<and>
    me_module ` set rows = {mi_module m | f m. (f, m) \<in> set (asked ds)} - {[]} \<and>
    (\<forall>e \<in> set rows. me_neededBy e = mentions (asked ds) (me_module e)) \<and>
    (\<forall>e \<in> set rows. \<forall>(f, m) \<in> set (asked ds). mi_module m = me_module e \<longrightarrow> severity (mi_reason m) \<le> severity (me_reason e)) \<and>
    sorted_wrt (\<lambda>a b. length (me_neededBy b) \<le> length (me_neededBy a)) rows"
proof -
  let ?r = "foldl roll_step \<lparr>dr_missing = [], dr_mismatched = [], dr_loaded = 0, dr_failed = 0\<rparr> ds"
  let ?es = "rolled (asked ds) []" and ?rows = "stable_sort (by_need lc) (rolled (asked ds) [])"
  have rows: "dr_missing (dependencyRoll lc ds) = ?rows"
    by (simp add: dependencyRoll_def Let_def roll_missing)
  have inv: "roll_inv (asked ds) ?es" by (rule rolled_inv)
  then have d: "distinct (map me_module ?es)" by (simp add: roll_inv_def)
  have "mset (map me_module ?rows) = mset (map me_module ?es)" by (simp add: mset_stable_sort)
  then have d': "distinct (map me_module ?rows)" using d mset_eq_imp_distinct_iff by blast
  have needs: "me_neededBy e = mentions (asked ds) (me_module e)" if "e \<in> set ?es" for e
  proof -
    have "me_module e \<in> {mi_module m | f m. (f, m) \<in> set (asked ds)} - {[]}"
      using inv that unfolding roll_inv_def by (metis (no_types, lifting) imageI)
    then have "needed_in ?es (me_module e) = mentions (asked ds) (me_module e)"
      using inv unfolding roll_inv_def by blast
    moreover have "filter (\<lambda>x. me_module x = me_module e) ?es = [e]"
      using d that by (rule filter_key)
    ultimately show ?thesis by (simp add: needed_in_def)
  qed
  have "sorted_wrt (\<lambda>a b. by_need lc a b \<le> 0) ?rows"
    by (rule stable_sort_sorts) (use assms in \<open>auto simp: by_need_def Let_def split: if_splits\<close>)
  then have sorted: "sorted_wrt (\<lambda>a b. length (me_neededBy b) \<le> length (me_neededBy a)) ?rows"
    by (rule sorted_wrt_mono_rel[rotated]) (auto simp: by_need_def Let_def split: if_splits)
  have "dr_loaded (dependencyRoll lc ds) + dr_failed (dependencyRoll lc ds) = length ds"
    using roll_counts[of "\<lparr>dr_missing = [], dr_mismatched = [], dr_loaded = 0, dr_failed = 0\<rparr>" ds]
    by (simp add: dependencyRoll_def Let_def)
  moreover have "me_module ` set ?rows = {mi_module m | f m. (f, m) \<in> set (asked ds)} - {[]}"
    using inv by (simp add: set_stable_sort roll_inv_def)
  moreover have "\<forall>e \<in> set ?rows. me_neededBy e = mentions (asked ds) (me_module e)"
    using needs by (simp add: set_stable_sort)
  moreover have "\<forall>e \<in> set ?rows. \<forall>(f, m) \<in> set (asked ds). mi_module m = me_module e \<longrightarrow> severity (mi_reason m) \<le> severity (me_reason e)"
    using inv unfolding roll_inv_def set_stable_sort(1) by blast
  ultimately show ?thesis using d' sorted unfolding Let_def rows by blast
qed


theorem roll_accounts_witness:
  "dr_loaded (dependencyRoll (\<lambda>_ _. 0) [\<lparr>lr_fileName = ''a.mib'', lr_success = False, lr_moduleName = ''A'', lr_declared = [],
       lr_missing = [\<lparr>mi_module = ''X'', mi_reason = ''absent'', mi_cause = [], mi_symbols = []\<rparr>]\<rparr>]) +
   dr_failed (dependencyRoll (\<lambda>_ _. 0) [\<lparr>lr_fileName = ''a.mib'', lr_success = False, lr_moduleName = ''A'', lr_declared = [],
       lr_missing = [\<lparr>mi_module = ''X'', mi_reason = ''absent'', mi_cause = [], mi_symbols = []\<rparr>]\<rparr>]) = 1"
  using roll_accounts[of "\<lambda>_ _. 0" "[\<lparr>lr_fileName = ''a.mib'', lr_success = False, lr_moduleName = ''A'', lr_declared = [],
       lr_missing = [\<lparr>mi_module = ''X'', mi_reason = ''absent'', mi_cause = [], mi_symbols = []\<rparr>]\<rparr>]"]
  unfolding Let_def by simp

end
