(* ===== verification/Js_Number.thy ===== *)
theory Js_Number
  imports Js_Value Js_Text
begin

text \<open>
  Numbers as the renderer reads and writes them: \<open>Number(v)\<close>, \<open>toFixed\<close>, \<open>Math.round\<close> and
  \<open>String(n)\<close>. Numbers are rationals, \<open>NaN\<close> is \<open>None\<close>. Decimal notation with an exponent
  and the hexadecimal, octal and binary prefixes are read in full; \<open>Infinity\<close> reads as
  \<open>NaN\<close>. A number is written in decimal, with the fewest digits
  up to twenty that give it back.
\<close>

section \<open>Reading\<close>

definition take_sign :: "string \<Rightarrow> bool \<times> string" where
  "take_sign s = (case s of [] \<Rightarrow> (False, [])
     | c # r \<Rightarrow> if c = CHR ''-'' then (True, r) else if c = CHR ''+'' then (False, r) else (False, s))"

definition signed :: "bool \<Rightarrow> rat \<Rightarrow> rat" where
  "signed neg q = (if neg then - q else q)"

text \<open>The power of ten after a mantissa: what is left must be empty or a whole exponent.\<close>

definition read_exponent :: "string \<Rightarrow> rat option" where
  "read_exponent r = (case r of [] \<Rightarrow> Some 1
     | c # r' \<Rightarrow> (let (neg, ds) = take_sign r'; p = (10 :: rat) ^ read_base 10 ds
                 in if (c = CHR ''e'' \<or> c = CHR ''E'') \<and> ds \<noteq> [] \<and> list_all is_ascii_digit ds
                    then Some (if neg then 1 / p else p) else None))"

definition read_decimal :: "string \<Rightarrow> rat option" where
  "read_decimal s =
     (let (neg, u) = take_sign s;
          ip = takeWhile is_ascii_digit u; r = dropWhile is_ascii_digit u;
          fp = (if starts_with r ''.'' then takeWhile is_ascii_digit (tl r) else []);
          r' = (if starts_with r ''.'' then dropWhile is_ascii_digit (tl r) else r)
      in if ip = [] \<and> fp = [] then None
         else map_option (\<lambda>e. signed neg (of_nat (read_base 10 (ip @ fp)) / 10 ^ length fp * e)) (read_exponent r'))"

text \<open>\<open>0x1F\<close>, \<open>0o17\<close> and \<open>0b11\<close>: no sign is allowed before the prefix.\<close>

definition radix_of :: "char \<Rightarrow> nat" where
  "radix_of c = (if c = CHR ''x'' then 16 else if c = CHR ''o'' then 8 else if c = CHR ''b'' then 2 else 0)"

definition radix_digit :: "nat \<Rightarrow> char \<Rightarrow> bool" where
  "radix_digit b c \<longleftrightarrow> (if 97 \<le> code c then code c < 87 + b else is_ascii_digit c \<and> code c < 48 + b)"

definition read_radix :: "string \<Rightarrow> rat option" where
  "read_radix s = (case s of c # d # ds \<Rightarrow> (let b = radix_of (lower_char d); ds' = toLowerCase ds
       in if c = CHR ''0'' \<and> b \<noteq> 0 \<and> ds \<noteq> [] \<and> list_all (radix_digit b) ds' then Some (of_nat (read_base b ds')) else None)
     | _ \<Rightarrow> None)"

fun number_of :: "jsval \<Rightarrow> rat option" where
  "number_of JUndef = None"
| "number_of JNull = Some 0"
| "number_of (JBool b) = Some (if b then 1 else 0)"
| "number_of (JNum q) = Some q"
| "number_of (JStr s) = (if trim s = [] then Some 0
     else case read_radix (trim s) of Some q \<Rightarrow> Some q | None \<Rightarrow> read_decimal (trim s))"
| "number_of (JArr xs) = (if xs = [] then Some 0 else None)"
| "number_of (JObj fs) = None"

text \<open>\<open>Number(v) || d\<close> takes the default for \<open>NaN\<close> and for zero.\<close>

definition number_or :: "jsval \<Rightarrow> rat \<Rightarrow> rat" where
  "number_or v d = (case number_of v of Some q \<Rightarrow> if q = 0 then d else q | None \<Rightarrow> d)"

section \<open>Writing\<close>

definition js_round :: "rat \<Rightarrow> int" where
  "js_round q = \<lfloor>q + 1 / 2\<rfloor>"

definition pad_zeros :: "nat \<Rightarrow> string \<Rightarrow> string" where
  "pad_zeros n s = replicate (n - length s) (CHR ''0'') @ s"

definition to_fixed :: "nat \<Rightarrow> rat \<Rightarrow> string" where
  "to_fixed f q =
     (let n = nat \<lfloor>\<bar>q\<bar> * 10 ^ f + 1 / 2\<rfloor>; ds = pad_zeros (Suc f) (show_nat n)
      in (if q < 0 then ''-'' else []) @ take (length ds - f) ds @
         (if f = 0 then [] else ''.'' @ drop (length ds - f) ds))"

definition is_int :: "rat \<Rightarrow> bool" where
  "is_int q \<longleftrightarrow> of_int \<lfloor>q\<rfloor> = q"

definition show_num :: "rat \<Rightarrow> string" where
  "show_num q = (if is_int q then show_int \<lfloor>q\<rfloor>
     else to_fixed (case List.find (\<lambda>f. is_int (q * 10 ^ f)) [1..<20] of Some f \<Rightarrow> f | None \<Rightarrow> 20) q)"

section \<open>Facts\<close>

lemma show_nat_ascii: "list_all is_ascii_digit (show_nat n)"
  using show_nat_digits by (auto simp: list_all_iff is_ascii_digit_def code_def)

lemma digit_no_space: "is_ascii_digit c \<Longrightarrow> \<not> is_space c"
  by (auto simp: is_ascii_digit_def is_space_def code_def)

lemma trim_no_space: "list_all (\<lambda>c. \<not> is_space c) s \<Longrightarrow> trim s = s"
proof -
  have dw: "dropWhile is_space u = u" if "\<forall>c \<in> set u. \<not> is_space c" for u using that by (cases u) simp_all
  show "list_all (\<lambda>c. \<not> is_space c) s \<Longrightarrow> trim s = s"
    using dw[of s] dw[of "rev s"] by (simp add: trim_def list_all_iff)
qed

lemma take_sign_digits: "list_all is_ascii_digit s \<Longrightarrow> take_sign s = (False, s)"
  by (auto simp: take_sign_def is_ascii_digit_def code_def split: list.splits)

lemma read_decimal_digits:
  assumes "list_all is_ascii_digit s" "s \<noteq> []" "take_sign u = (neg, s)"
  shows "read_decimal u = Some (signed neg (of_nat (read_base 10 s)))"
proof -
  have tw: "takeWhile is_ascii_digit s = s" and dw: "dropWhile is_ascii_digit s = []"
    using assms(1) by (simp_all add: takeWhile_eq_all_conv list_all_iff dropWhile_eq_Nil_conv)
  show ?thesis unfolding read_decimal_def assms(3) prod.case Let_def tw dw
    using assms(2) by (simp add: starts_with_def read_exponent_def)
qed

lemma read_radix_none:
  assumes "list_all is_ascii_digit s \<or> (\<exists>r. s = CHR ''-'' # r)"
  shows "read_radix s = None"
proof -
  have "radix_of (lower_char d) = 0" if "is_ascii_digit d" for d
    using that by (auto simp: radix_of_def lower_char_def is_ascii_digit_def code_def)
  with assms show ?thesis by (auto simp: read_radix_def Let_def split: list.split)
qed

lemma number_of_show_nat [simp]: "number_of (JStr (show_nat n)) = Some (of_nat n)"
proof -
  have "list_all (\<lambda>c. \<not> is_space c) (show_nat n)"
    using show_nat_ascii[of n] digit_no_space by (auto simp: list_all_iff)
  then show ?thesis
    using read_decimal_digits[OF show_nat_ascii _ take_sign_digits[OF show_nat_ascii]]
    by (simp add: trim_no_space read_show_base signed_def read_radix_none show_nat_ascii)
qed

lemma number_of_show_int [simp]: "number_of (JStr (show_int i)) = Some (of_int i)"
proof (cases "i < 0")
  case True
  have "list_all (\<lambda>c. \<not> is_space c) (CHR ''-'' # show_nat (nat (- i)))"
    using show_nat_ascii[of "nat (- i)"] digit_no_space by (auto simp: list_all_iff is_space_def code_def)
  moreover have "take_sign (CHR ''-'' # show_nat (nat (- i))) = (True, show_nat (nat (- i)))"
    by (simp add: take_sign_def)
  ultimately show ?thesis using True read_decimal_digits[OF show_nat_ascii]
    by (simp add: show_int_def trim_no_space read_show_base signed_def of_nat_nat read_radix_none)
next
  case False
  then have "(of_nat (nat i) :: rat) = of_int i" by simp
  with False number_of_show_nat[of "nat i"] show ?thesis by (simp add: show_int_def)
qed

lemma is_int_of_int [simp]: "is_int (of_int i)" by (simp add: is_int_def)

lemma show_num_of_int [simp]: "show_num (of_int i) = show_int i" by (simp add: show_num_def)

lemma show_num_of_nat [simp]: "show_num (of_nat n) = show_nat n"
  using show_num_of_int[of "int n"] by (simp add: show_int_def)

lemma js_round_of_int [simp]: "js_round (of_int i) = i"
  by (simp add: js_round_def floor_eq_iff)

end
