(* ===== verification/Polling_Store.thy ===== *)
theory Polling_Store
  imports Targets Js_Number Js_Sort
begin

text \<open>
  The monitoring sessions of the window: \<open>frontend/src/stores/pollingStore.js\<close>. The poll clock runs
  in Go; its calls are arguments that answer with an error or a result, its events are operations
  of the store. A point is the object \<open>normalisePoint\<close> makes of what Go sends. Translated texts
  are a datatype of the messages raised. The lemmas show that every buffer is the tail of the
  stream of samples, that sessions keep their identity, and what following credentials sends.
\<close>

section \<open>Points\<close>

definition MAX_DATA_POINTS :: nat where "MAX_DATA_POINTS = 5000"

definition normalisePoint :: "jsval \<Rightarrow> fields" where
  "normalisePoint p =
     [(''target'', jget p ''target''), (''timestamp'', jget p ''timestamp''),
      (''value'', coalesce (jget p ''value'') JNull), (''delta'', coalesce (jget p ''delta'') JNull),
      (''rate'', coalesce (jget p ''rate'') JNull), (''responseTimeMs'', jor (jget p ''responseTimeMs'') (JNum 0)),
      (''error'', jor (jget p ''error'') JNull), (''snmpType'', jor (jget p ''snmpType'') (JStr [])),
      (''oid'', jor (jget p ''oid'') (JStr []))]"

section \<open>Sessions\<close>

record session =
  s_id :: string
  s_name :: jsval
  s_oid :: string
  s_oids :: "string list"
  s_targets :: "string list"
  s_interval :: jsval
  s_snmpVersion :: jsval
  s_results :: "fields list"
  s_running :: bool
  s_startedAt :: jsval
  s_thresholds :: jsval
  s_needsConnection :: bool
  s_credentialRef :: jsval
  s_transport :: "fields option"
  s_preset :: jsval
  s_overrun :: jsval

definition COMMA :: char where "COMMA = CHR '',''"

text \<open>\<open>s.oid\<close> is the list joined with commas.\<close>

definition split_oids :: "string \<Rightarrow> string list" where
  "split_oids s = filter (\<lambda>x. x \<noteq> []) (map trim (split_on COMMA s))"

definition transport_of :: "jsval \<Rightarrow> fields option" where
  "transport_of conn = (if truthy conn
     then Some [(''port'', jget conn ''port''), (''timeoutSec'', jget conn ''timeoutSec''), (''retries'', jget conn ''retries'')]
     else None)"

definition sessionFromBackend :: "jsval \<Rightarrow> fields list \<Rightarrow> session" where
  "sessionFromBackend s results =
     (let oids = split_oids (str (jget s ''oid'')); conn = jget s ''conn'' in
      \<lparr>s_id = str (jget s ''id''), s_name = jor (jget s ''name'') (JStr []),
       s_oid = (case oids of [] \<Rightarrow> [] | i # _ \<Rightarrow> i), s_oids = oids,
       s_targets = map str (elems (jget s ''targets'')), s_interval = jget s ''intervalMs'',
       s_snmpVersion = jget s ''snmpVersion'', s_results = results, s_running = False,
       s_startedAt = jget s ''startedAt'', s_thresholds = jor (jget s ''thresholds'') (JObj []),
       s_needsConnection = (\<not> truthy conn), s_credentialRef = jor (jget conn ''profile'') (JStr []),
       s_transport = transport_of conn, s_preset = jor (jget s ''preset'') JNull, s_overrun = JNull\<rparr>)"

text \<open>What the store raises as toasts, and its state: the sessions, the keys of the warnings given,
  and the toasts raised.\<close>

datatype poll_message = ErrorText string | NonNumeric jsval jsval | PollingSplit nat | SessionsUpdated nat

record polling =
  sessions :: "session list"
  warned :: "string list"
  raised :: "poll_message list"

definition on_session :: "string \<Rightarrow> (session \<Rightarrow> session) \<Rightarrow> polling \<Rightarrow> polling" where
  "on_session i f st = st\<lparr>sessions := map (\<lambda>s. if s_id s = i then f s else s) (sessions st)\<rparr>"

definition raise :: "poll_message \<Rightarrow> polling \<Rightarrow> polling" where
  "raise m st = st\<lparr>raised := raised st @ [m]\<rparr>"

section \<open>What Go reports\<close>

definition warn_key :: "string \<Rightarrow> fields \<Rightarrow> string" where
  "warn_key sessionId p = sessionId @ ''|'' @ str (fget p ''oid'')"

definition warn_point :: "string \<Rightarrow> fields \<Rightarrow> polling \<Rightarrow> polling" where
  "warn_point sessionId p st =
     (if fget p ''value'' \<noteq> JNull \<or> truthy (fget p ''error'') \<or> warn_key sessionId p \<in> set (warned st) then st
      else raise (NonNumeric (fget p ''oid'') (jor (fget p ''snmpType'') (JStr ''?'')))
             (st\<lparr>warned := warned st @ [warn_key sessionId p]\<rparr>))"

definition warnAboutUngraphableValues :: "string \<Rightarrow> fields list \<Rightarrow> polling \<Rightarrow> polling" where
  "warnAboutUngraphableValues sessionId points st = foldl (\<lambda>st p. warn_point sessionId p st) st points"

text \<open>\<open>results.slice(-cap)\<close> when there are more than the cap.\<close>

definition keep_last :: "nat \<Rightarrow> 'a list \<Rightarrow> 'a list" where
  "keep_last cap xs = drop (length xs - cap) xs"

definition cap_of :: "session \<Rightarrow> nat" where
  "cap_of s = MAX_DATA_POINTS * max 1 (length (s_targets s)) * max 1 (length (s_oids s))"

definition take_samples :: "fields list \<Rightarrow> session \<Rightarrow> session" where
  "take_samples incoming s = s\<lparr>s_results := keep_last (cap_of s) (s_results s @ incoming), s_running := True\<rparr>"

definition on_samples :: "jsval \<Rightarrow> polling \<Rightarrow> polling" where
  "on_samples payload st =
     (if \<not> truthy payload \<or> \<not> truthy (jget payload ''sessionId'') \<or> \<not> is_array (jget payload ''points'') then st
      else (let i = str (jget payload ''sessionId''); incoming = map normalisePoint (elems (jget payload ''points''));
                st' = (if i \<in> s_id ` set (sessions st) then warnAboutUngraphableValues i incoming st else st)
            in on_session i (take_samples incoming) st'))"

definition on_overrun :: "jsval \<Rightarrow> polling \<Rightarrow> polling" where
  "on_overrun report st =
     (if \<not> truthy report \<or> \<not> truthy (jget report ''sessionId'') then st
      else on_session (str (jget report ''sessionId''))
             (\<lambda>s. s\<lparr>s_overrun := (if truthy (jget report ''recovered'') then JNull else report)\<rparr>) st)"

section \<open>Starting\<close>

definition oid_list :: "string list \<Rightarrow> string list" where
  "oid_list xs = dedup (filter (\<lambda>x. x \<noteq> []) (map trim xs))"

text \<open>\<open>NaN\<close>, what a band that is no number gives, is not modelled as a value: it stays \<open>JUndef\<close>.\<close>

definition bound_of :: "jsval \<Rightarrow> jsval" where
  "bound_of v = (if nullish v \<or> v = JStr [] then JNull
     else case number_of v of Some q \<Rightarrow> JNum q | None \<Rightarrow> JUndef)"

definition normal_band :: "jsval \<Rightarrow> jsval option" where
  "normal_band t =
     (let mn = bound_of (jget t ''min''); mx = bound_of (jget t ''max'') in
      if \<not> truthy t \<or> mn = JNull \<and> mx = JNull then None
      else Some (JObj [(''min'', mn), (''max'', mx), (''forSeconds'', JNum (number_or (jget t ''forSeconds'') 0)),
                       (''alertEnabled'', JBool (jget t ''alertEnabled'' \<noteq> JBool False))]))"

definition thresholds_payload :: "jsval \<Rightarrow> jsval" where
  "thresholds_payload thresholds =
     (let byOid = List.map_filter (\<lambda>(i, t). map_option (Pair i) (normal_band t)) (fields_of thresholds)
      in if byOid = [] then JNull else JObj byOid)"

datatype label = DefaultShort | CustomShort | ProfileName jsval

definition groupLabel :: "fields \<Rightarrow> jsval \<Rightarrow> label" where
  "groupLabel effective settings =
     (let ref = fget effective ''credentialRef'' in
      if ref = JStr DEFAULT_REF then DefaultShort
      else case findProfile settings ref of Some p \<Rightarrow> ProfileName (jget p ''name'') | None \<Rightarrow> CustomShort)"

text \<open>The bridge: creating a session gives its identifier or fails, a start may fail.\<close>

record create_request =
  cr_oid :: string
  cr_targets :: "string list"
  cr_interval :: jsval
  cr_version :: jsval
  cr_thresholds :: jsval
  cr_name :: string
  cr_conn :: fields

type_synonym creator = "create_request \<Rightarrow> string + string"
type_synonym starter = "string \<Rightarrow> string option"

definition start_answer :: "starter \<Rightarrow> string \<Rightarrow> polling \<Rightarrow> polling" where
  "start_answer start i st = (case start i of
     None \<Rightarrow> st
   | Some e \<Rightarrow> on_session i (\<lambda>s. s\<lparr>s_running := False\<rparr>) (raise (ErrorText e) st))"

definition new_session :: "create_request \<Rightarrow> string \<Rightarrow> jsval \<Rightarrow> session" where
  "new_session r i now =
     (sessionFromBackend (JObj [(''id'', JStr i), (''name'', JStr (cr_name r)), (''oid'', JStr (cr_oid r)),
        (''targets'', JArr (map JStr (cr_targets r))), (''intervalMs'', cr_interval r), (''snmpVersion'', cr_version r),
        (''startedAt'', now), (''thresholds'', jor (cr_thresholds r) (JObj [])), (''conn'', JObj (cr_conn r))]) [])
     \<lparr>s_running := True\<rparr>"

definition group_request ::
  "string \<Rightarrow> jsval \<Rightarrow> jsval \<Rightarrow> jsval \<Rightarrow> (fields \<Rightarrow> string) \<Rightarrow> group \<Rightarrow> create_request" where
  "group_request oidKey interval snmpVersion payload name g =
     (let version = jor (fget (g_settings g) ''snmpVersion'') snmpVersion in
      \<lparr>cr_oid = oidKey, cr_targets = g_targets g, cr_interval = interval, cr_version = version,
       cr_thresholds = payload, cr_name = name (g_settings g),
       cr_conn = buildMonitorConnection (JObj (fset ''snmpVersion'' version (g_settings g)))\<rparr>)"

fun start_groups :: "creator \<Rightarrow> starter \<Rightarrow> jsval \<Rightarrow> create_request list \<Rightarrow> polling \<Rightarrow> polling \<times> (string + string list)" where
  "start_groups create start now [] st = (st, Inr [])"
| "start_groups create start now (r # rs) st = (case create r of
     Inl e \<Rightarrow> (raise (ErrorText e) st, Inl e)
   | Inr i \<Rightarrow> (let (st', out) = start_groups create start now rs
                   (start_answer start i (st\<lparr>sessions := sessions st @ [new_session r i now]\<rparr>))
              in (st', map_sum id (Cons i) out)))"

text \<open>The name of a session of several: the name given and the group's label, those that are not empty,
  with a middle dot between. \<open>tr\<close> gives the text of a label.\<close>

definition split_name :: "(label \<Rightarrow> string) \<Rightarrow> string \<Rightarrow> jsval \<Rightarrow> fields \<Rightarrow> string" where
  "split_name tr base settings eff =
     (let l = tr (groupLabel eff settings) in
      if base \<noteq> [] \<and> l \<noteq> [] then base @ [CHR '' '', CHR 0xB7, CHR '' ''] @ l else base @ l)"

definition startPolling ::
  "(jsval \<Rightarrow> 'k) \<Rightarrow> (label \<Rightarrow> string) \<Rightarrow> creator \<Rightarrow> starter \<Rightarrow> jsval \<Rightarrow> jsval \<Rightarrow>
   string list \<Rightarrow> string list \<Rightarrow> jsval \<Rightarrow> jsval \<Rightarrow> jsval \<Rightarrow> string \<Rightarrow> polling \<Rightarrow> polling \<times> (string + string list)" where
  "startPolling stringify tr create start now settings oids targets interval thresholds snmpVersion name st =
     (let groups = groupTargets stringify (jset ''snmpVersion'' snmpVersion settings) (dedup targets);
          split = length groups > 1;
          base = trim name;
          names = (\<lambda>eff. if split then split_name tr base settings eff else base);
          requests = map (group_request (join_with COMMA (oid_list oids)) interval snmpVersion
                       (thresholds_payload thresholds) names) groups;
          (st', out) = start_groups create start now requests st
      in (case out of Inr ids \<Rightarrow> if split then raise (PollingSplit (length ids)) st' else st' | Inl e \<Rightarrow> st', out))"


section \<open>Running, stopping, removing\<close>

definition markRunning :: "string \<Rightarrow> bool \<Rightarrow> polling \<Rightarrow> polling" where
  "markRunning i running = on_session i (\<lambda>s. s\<lparr>s_running := running\<rparr>)"

definition resumeSession :: "starter \<Rightarrow> string \<Rightarrow> polling \<Rightarrow> polling" where
  "resumeSession start i st = start_answer start i (markRunning i True st)"

definition stopPolling :: "string \<Rightarrow> polling \<Rightarrow> polling" where
  "stopPolling i = markRunning i False"

definition removeSession :: "string \<Rightarrow> polling \<Rightarrow> polling" where
  "removeSession i st =
     st\<lparr>warned := filter (\<lambda>k. \<not> starts_with k (i @ ''|'')) (warned st),
        sessions := filter (\<lambda>s. s_id s \<noteq> i) (sessions st)\<rparr>"

text \<open>\<open>stopAll\<close> also gives the sessions it asks Go to stop.\<close>

definition stopAll :: "polling \<Rightarrow> polling \<times> string list" where
  "stopAll st = (st\<lparr>sessions := map (\<lambda>s. s\<lparr>s_running := False\<rparr>) (sessions st)\<rparr>,
     map s_id (filter s_running (sessions st)))"

definition acceptSlow :: "string \<Rightarrow> polling \<Rightarrow> polling" where
  "acceptSlow i = on_session i (\<lambda>s. if truthy (s_overrun s)
     then s\<lparr>s_overrun := jset ''effectiveMs'' (jget (s_overrun s) ''intervalMs'') (jset ''accepted'' (JBool True) (s_overrun s))\<rparr>
     else s)"

section \<open>Restoring\<close>

text \<open>What Go answers for the points of a session: they are asked for with a limit, and a failure
  leaves the session without points.\<close>

definition restore_limit :: "jsval \<Rightarrow> nat" where
  "restore_limit s = MAX_DATA_POINTS * (if elems (jget s ''targets'') = [] then 1 else length (elems (jget s ''targets'')))"

definition restore_session :: "(string \<Rightarrow> nat \<Rightarrow> jsval list option) \<Rightarrow> jsval \<Rightarrow> session" where
  "restore_session load s = sessionFromBackend s
     (case load (str (jget s ''id'')) (restore_limit s) of Some ps \<Rightarrow> map normalisePoint ps | None \<Rightarrow> [])"

definition reconcileWithScheduler :: "starter \<Rightarrow> string list option \<Rightarrow> jsval \<Rightarrow> polling \<Rightarrow> polling" where
  "reconcileWithScheduler start running settings st =
     (let live = (case running of Some ids \<Rightarrow> ids | None \<Rightarrow> []);
          st' = st\<lparr>sessions := map (\<lambda>s. s\<lparr>s_running := s_id s \<in> set live\<rparr>) (sessions st)\<rparr>
      in if \<not> truthy (jget (jget settings ''polling'') ''autoResume'') then st'
         else foldl (\<lambda>st s. if \<not> s_running s \<and> \<not> s_needsConnection s \<and> s_results s \<noteq> []
                            then resumeSession start (s_id s) st else st) st' (sessions st'))"

text \<open>The points of a session kept by an earlier version in local storage, as they are saved in Go.\<close>

definition legacy_point :: "string \<Rightarrow> jsval \<Rightarrow> fields" where
  "legacy_point i r =
     [(''sessionId'', JStr i), (''target'', jget r ''target''), (''timestamp'', jget r ''timestamp''),
      (''value'', jget r ''value''), (''delta'', jget r ''delta''), (''rate'', jget r ''rate''),
      (''responseTimeMs'', jor (jget r ''responseTimeMs'') (JNum 0)), (''error'', jor (jget r ''error'') (JStr [])),
      (''snmpType'', jor (jget r ''snmpType'') (JStr [])), (''oid'', jor (jget r ''oid'') (JStr []))]"

definition legacy_request :: "jsval \<Rightarrow> jsval \<Rightarrow> create_request" where
  "legacy_request settings ls =
     (let version = jor (jget ls ''snmpVersion'') (JStr ''v2c'') in
      \<lparr>cr_oid = str (jget ls ''oid''), cr_targets = map str (elems (jget ls ''targets'')),
       cr_interval = jget ls ''interval'', cr_version = version, cr_thresholds = jor (jget ls ''thresholds'') JNull,
       cr_name = str (jor (jget ls ''name'') (JStr [])),
       cr_conn = buildMonitorConnection (jset ''snmpVersion'' version settings)\<rparr>)"

text \<open>The migration: the points saved for each session that could be created, in order. The stored
  history is removed in every case in which there was one.\<close>

definition migrate_one :: "creator \<Rightarrow> jsval \<Rightarrow> jsval \<Rightarrow> fields list" where
  "migrate_one create settings ls = (if nullish ls then [] else case create (legacy_request settings ls) of
     Inl _ \<Rightarrow> [] | Inr i \<Rightarrow> map (legacy_point i) (elems (jget ls ''results'')))"

definition migrateLegacyData :: "creator \<Rightarrow> jsval \<Rightarrow> jsval option \<Rightarrow> fields list \<times> jsval option" where
  "migrateLegacyData create settings stored = (case stored of
     None \<Rightarrow> ([], None)
   | Some v \<Rightarrow> if \<not> is_array v \<or> elems v = [] then ([], None)
               else (concat (map (migrate_one create settings) (elems v)), None))"

text \<open>Loading at startup. No answer leaves the store as it is; when Go has no session, those of an
  earlier version are handed over and Go is asked \<open>again\<close>.\<close>

definition load_sessions ::
  "(string \<Rightarrow> nat \<Rightarrow> jsval list option) \<Rightarrow> starter \<Rightarrow> string list option \<Rightarrow> jsval \<Rightarrow> jsval list option \<Rightarrow> polling \<Rightarrow> polling" where
  "load_sessions load start running settings stored st = (case stored of
     None \<Rightarrow> st
   | Some [] \<Rightarrow> st
   | Some xs \<Rightarrow> reconcileWithScheduler start running settings (st\<lparr>sessions := map (restore_session load) xs\<rparr>))"

definition initFromBackend ::
  "(string \<Rightarrow> nat \<Rightarrow> jsval list option) \<Rightarrow> starter \<Rightarrow> string list option \<Rightarrow> jsval \<Rightarrow> creator \<Rightarrow>
   jsval option \<Rightarrow> jsval list option \<Rightarrow> jsval list option \<Rightarrow> polling \<Rightarrow> polling \<times> fields list \<times> jsval option" where
  "initFromBackend load start running settings create legacy again stored st =
     (if stored = Some [] then
        (let (saved, left) = migrateLegacyData create settings legacy in
         (case legacy of Some v \<Rightarrow> if is_array v \<and> elems v \<noteq> []
            then load_sessions load start running settings again st else st | None \<Rightarrow> st, saved, left))
      else (load_sessions load start running settings stored st, [], legacy))"

section \<open>Presets\<close>

definition adopt :: "session \<Rightarrow> session list \<Rightarrow> session list" where
  "adopt shaped xs =
     (if s_id shaped \<in> s_id ` set xs
      then map (\<lambda>x. if s_id x = s_id shaped then shaped\<lparr>s_results := s_results x\<rparr> else x) xs
      else xs @ [shaped])"

definition adoptSession :: "jsval \<Rightarrow> polling \<Rightarrow> polling" where
  "adoptSession s st =
     (if \<not> truthy s \<or> \<not> truthy (jget s ''id'') then st
      else st\<lparr>sessions := adopt ((sessionFromBackend s [])\<lparr>s_running := True\<rparr>) (sessions st)\<rparr>)"

text \<open>What \<open>bindPreset\<close> asks Go for: the version and the connection of that target.\<close>

definition bind_request :: "jsval \<Rightarrow> string \<Rightarrow> jsval \<times> fields" where
  "bind_request settings address =
     (let effective = getEffectiveSettings settings address;
          version = jor (fget effective ''snmpVersion'') (JStr ''v2c'')
      in (version, buildMonitorConnection (JObj (fset ''snmpVersion'' version effective))))"

definition bindPreset ::
  "(string \<Rightarrow> string \<Rightarrow> jsval \<Rightarrow> fields \<Rightarrow> jsval) \<Rightarrow> string \<Rightarrow> string \<Rightarrow> jsval \<Rightarrow> polling \<Rightarrow> polling" where
  "bindPreset bind file address settings st =
     (case bind_request settings address of (version, conn) \<Rightarrow> adoptSession (bind file address version conn) st)"

section \<open>Following credentials\<close>

definition followed_identity :: "jsval \<Rightarrow> session \<Rightarrow> fields option" where
  "followed_identity after s =
     (if s_credentialRef s = JStr DEFAULT_REF
      then Some [(''snmpVersion'', s_snmpVersion s), (''community'', jget after ''community''), (''v3'', jget after ''v3'')]
      else map_option profileIdentity (findProfile after (s_credentialRef s)))"

definition followed_conn :: "jsval \<Rightarrow> session \<Rightarrow> fields \<Rightarrow> fields \<Rightarrow> fields" where
  "followed_conn after s transport identity =
     spread (buildMonitorConnection (JObj (fset ''credentialRef'' (s_credentialRef s) (spread (fields_of after) identity))))
       [(''port'', fget transport ''port''), (''timeoutSec'', fget transport ''timeoutSec''), (''retries'', fget transport ''retries'')]"

text \<open>What is sent for one session, if anything.\<close>

definition update_for :: "jsval set \<Rightarrow> jsval \<Rightarrow> session \<Rightarrow> (string \<times> jsval \<times> fields) option" where
  "update_for refs after s =
     (if \<not> truthy (s_credentialRef s) \<or> s_credentialRef s \<notin> refs then None
      else case s_transport s of None \<Rightarrow> None
      | Some t \<Rightarrow> map_option (\<lambda>idn. (s_id s, fget idn ''snmpVersion'', followed_conn after s t idn)) (followed_identity after s))"

type_synonym connector = "string \<Rightarrow> jsval \<Rightarrow> fields \<Rightarrow> string option"

definition follow_one :: "connector \<Rightarrow> jsval set \<Rightarrow> jsval \<Rightarrow> nat \<times> polling \<Rightarrow> session \<Rightarrow> nat \<times> polling" where
  "follow_one send refs after = (\<lambda>(n, st) s. case update_for refs after s of
     None \<Rightarrow> (n, st)
   | Some (i, version, conn) \<Rightarrow> (case send i version conn of
       Some e \<Rightarrow> (n, raise (ErrorText e) st)
     | None \<Rightarrow> (n + 1, on_session i (\<lambda>x. x\<lparr>s_snmpVersion := version\<rparr>) st)))"

definition followCredentials :: "connector \<Rightarrow> bool \<Rightarrow> jsval \<Rightarrow> jsval \<Rightarrow> polling \<Rightarrow> nat \<times> polling" where
  "followCredentials send opened before after st =
     (let refs = changedCredentialRefs before after in
      if \<not> opened \<or> refs = {} then (0, st)
      else (case foldl (follow_one send refs after) (0, st) (sessions st) of (n, st') \<Rightarrow>
        (n, if n > 0 then raise (SessionsUpdated n) st' else st')))"


section \<open>Every buffer is the tail of its stream\<close>

lemma keep_last_length: "length (keep_last n xs) \<le> n"
  by (simp add: keep_last_def)

lemma keep_last_short: "length xs \<le> n \<Longrightarrow> keep_last n xs = xs"
  by (simp add: keep_last_def)

lemma keep_last_append: "keep_last n (keep_last n xs @ ys) = keep_last n (xs @ ys)"
proof (cases "length xs \<le> n")
  case False
  then have "length xs + length ys - n = length ys + (length xs - n)" by simp
  then have "drop (length xs + length ys - n) xs = drop (length ys) (drop (length xs - n) xs)"
    by (simp only: drop_drop add.commute)
  with False show ?thesis by (simp add: keep_last_def)
qed (simp add: keep_last_short)

lemma sessions_on_session [simp]:
  "sessions (on_session i f st) = map (\<lambda>s. if s_id s = i then f s else s) (sessions st)"
  by (simp add: on_session_def)

lemma sessions_raise [simp]: "sessions (raise m st) = sessions st"
  by (simp add: raise_def)

lemma sessions_warn [simp]: "sessions (warnAboutUngraphableValues i ps st) = sessions st"
proof (induction ps arbitrary: st)
  case (Cons p ps)
  then show ?case by (simp add: warnAboutUngraphableValues_def warn_point_def)
qed (simp add: warnAboutUngraphableValues_def)

text \<open>The samples a payload brings to a session.\<close>

definition brought :: "string \<Rightarrow> jsval \<Rightarrow> fields list" where
  "brought i payload =
     (if truthy payload \<and> truthy (jget payload ''sessionId'') \<and> is_array (jget payload ''points'') \<and> str (jget payload ''sessionId'') = i
      then map normalisePoint (elems (jget payload ''points'')) else [])"

definition buffer :: "session \<Rightarrow> string \<times> nat \<times> fields list" where
  "buffer s = (s_id s, cap_of s, s_results s)"

lemma take_samples_simps [simp]:
  "s_id (take_samples ps s) = s_id s" "cap_of (take_samples ps s) = cap_of s"
  "s_results (take_samples ps s) = keep_last (cap_of s) (s_results s @ ps)"
  by (simp_all add: take_samples_def cap_of_def)

lemma samples_step:
  assumes "\<forall>s \<in> set (sessions st). length (s_results s) \<le> cap_of s"
  shows "map buffer (sessions (on_samples payload st)) =
     map (\<lambda>s. (s_id s, cap_of s, keep_last (cap_of s) (s_results s @ brought (s_id s) payload))) (sessions st)"
  using assms
  by (auto simp: on_samples_def Let_def brought_def buffer_def keep_last_short)

text \<open>
  C20. After any sequence of samples every session's buffer is exactly the newest part, up to its
  cap, of everything that came for it, in order.
\<close>

theorem buffers_are_tails:
  assumes "\<forall>s \<in> set (sessions st). length (s_results s) \<le> cap_of s"
  shows "map (\<lambda>s. (s_id s, s_results s)) (sessions (foldl (\<lambda>st p. on_samples p st) st payloads)) =
    map (\<lambda>s. (s_id s, keep_last (cap_of s) (s_results s @ concat (map (brought (s_id s)) payloads)))) (sessions st)"
proof -
  have "map buffer (sessions (foldl (\<lambda>st p. on_samples p st) st payloads)) =
    map (\<lambda>s. (s_id s, cap_of s, keep_last (cap_of s) (s_results s @ concat (map (brought (s_id s)) payloads)))) (sessions st)"
    using assms
  proof (induction payloads arbitrary: st)
    case Nil
    then show ?case by (simp add: buffer_def keep_last_short)
  next
    case (Cons p payloads)
    let ?st = "on_samples p st"
    note step = samples_step[OF Cons.prems, of p]
    let ?f = "\<lambda>(i, c, rs). (i, c, keep_last c (rs @ concat (map (brought i) payloads)))"
    have "\<forall>b \<in> set (map buffer (sessions ?st)). length (snd (snd b)) \<le> fst (snd b)"
      unfolding step using keep_last_length by auto
    then have "\<forall>s \<in> set (sessions ?st). length (s_results s) \<le> cap_of s" by (simp add: buffer_def)
    from Cons.IH[OF this] have "map buffer (sessions (foldl (\<lambda>st p. on_samples p st) ?st payloads)) = map ?f (map buffer (sessions ?st))"
      by (simp add: buffer_def[abs_def] o_def)
    also have "\<dots> = map (\<lambda>s. (s_id s, cap_of s, keep_last (cap_of s) (s_results s @ concat (map (brought (s_id s)) (p # payloads))))) (sessions st)"
      unfolding step by (simp add: keep_last_append flip: append_assoc)
    finally show ?case by simp
  qed
  then have "map (\<lambda>(i, c, r). (i, r)) (map buffer (sessions (foldl (\<lambda>st p. on_samples p st) st payloads))) =
    map (\<lambda>(i, c, r). (i, r)) (map (\<lambda>s. (s_id s, cap_of s, keep_last (cap_of s) (s_results s @ concat (map (brought (s_id s)) payloads)))) (sessions st))"
    by simp
  then show ?thesis by (simp add: buffer_def o_def)
qed


theorem buffers_are_tails_witness:
  "map (\<lambda>s. (s_id s, s_results s)) (sessions (foldl (\<lambda>st p. on_samples p st)
     \<lparr>sessions = [sessionFromBackend (JObj [(''id'', JStr ''a'')]) []], warned = [], raised = []\<rparr>
     [JObj [(''sessionId'', JStr ''a''), (''points'', JArr [JObj [(''value'', JNum 1)]])]])) =
   [(''a'', [normalisePoint (JObj [(''value'', JNum 1)])])]"
proof -
  let ?st = "\<lparr>sessions = [sessionFromBackend (JObj [(''id'', JStr ''a'')]) []], warned = [], raised = []\<rparr>"
  let ?p = "[JObj [(''sessionId'', JStr ''a''), (''points'', JArr [JObj [(''value'', JNum 1)]])]]"
  have b: "map (\<lambda>s. (s_id s, s_results s)) (sessions (foldl (\<lambda>st p. on_samples p st) ?st ?p)) =
    map (\<lambda>s. (s_id s, keep_last (cap_of s) (s_results s @ concat (map (brought (s_id s)) ?p)))) (sessions ?st)"
    by (rule buffers_are_tails) (simp add: sessionFromBackend_def Let_def)
  show ?thesis unfolding b
    by (simp add: sessionFromBackend_def Let_def brought_def fget_def keep_last_def cap_of_def MAX_DATA_POINTS_def)
qed

section \<open>Following credentials\<close>

definition followed :: "connector \<Rightarrow> jsval set \<Rightarrow> jsval \<Rightarrow> session \<Rightarrow> jsval option" where
  "followed send refs after s = (case update_for refs after s of
     None \<Rightarrow> None
   | Some (i, v, c) \<Rightarrow> if send i v c = None then Some v else None)"

lemma follow_one_sessions:
  "sessions (snd (follow_one send refs after (n, st) s)) =
     (case followed send refs after s of None \<Rightarrow> sessions st
      | Some v \<Rightarrow> map (\<lambda>x. if s_id x = s_id s then x\<lparr>s_snmpVersion := v\<rparr> else x) (sessions st))"
  "fst (follow_one send refs after (n, st) s) = n + (if followed send refs after s = None then 0 else 1)"
  by (auto simp: follow_one_def followed_def update_for_def split: option.splits if_splits prod.splits)

lemma map_other: "\<forall>x \<in> set xs. s_id x \<noteq> i \<Longrightarrow> map (\<lambda>x. if s_id x = i then g x else x) xs = xs"
  by (induction xs) auto

lemma follow_fold:
  assumes "distinct (map s_id (done @ todo))" "sessions st = map f done @ todo" "\<And>s. s_id (f s) = s_id s"
  shows "sessions (snd (foldl (follow_one send refs after) (n, st) todo)) =
      map f done @ map (\<lambda>s. case followed send refs after s of Some v \<Rightarrow> s\<lparr>s_snmpVersion := v\<rparr> | None \<Rightarrow> s) todo \<and>
    fst (foldl (follow_one send refs after) (n, st) todo) = n + length (filter (\<lambda>s. followed send refs after s \<noteq> None) todo)"
  using assms
proof (induction todo arbitrary: st n "done" f)
  case (Cons s todo)
  let ?r = "follow_one send refs after (n, st) s"
  let ?s = "case followed send refs after s of Some v \<Rightarrow> s\<lparr>s_snmpVersion := v\<rparr> | None \<Rightarrow> s"
  let ?f = "\<lambda>x. if s_id x = s_id s then ?s else f x"
  have d: "\<forall>x \<in> set done. s_id x \<noteq> s_id s" "\<forall>x \<in> set todo. s_id x \<noteq> s_id s"
  proof -
    have "s_id s \<notin> s_id ` set done" "s_id s \<notin> s_id ` set todo" using Cons.prems(1) by simp_all
    then show "\<forall>x \<in> set done. s_id x \<noteq> s_id s" "\<forall>x \<in> set todo. s_id x \<noteq> s_id s" by (metis imageI)+
  qed
  have "\<forall>x \<in> set (map f done). s_id x \<noteq> s_id s" using d(1) Cons.prems(3) by simp
  note keep = map_other[OF this] map_other[OF d(2)]
  have "sessions (snd ?r) = map f done @ ?s # todo"
    unfolding follow_one_sessions(1) Cons.prems(2) map_append list.map(2) keep by (simp split: option.splits)
  also have "map f done @ ?s # todo = map ?f (done @ [s]) @ todo" using d(1) by simp
  finally have st: "sessions (snd ?r) = map ?f (done @ [s]) @ todo" .
  have "distinct (map s_id ((done @ [s]) @ todo))" using Cons.prems(1) by simp
  note dist = this
  have "s_id (?f x) = s_id x" for x using Cons.prems(3) by (simp split: option.splits)
  note ih = Cons.IH[OF dist st this, where n = "fst ?r", unfolded prod.collapse]
  have "map ?f (done @ [s]) = map f done @ [?s]" using d(1) by simp
  with ih show ?case by (simp add: follow_one_sessions(2))
qed simp

lemma identity_keys: "followed_identity after s = Some idn \<Longrightarrow> map fst idn = [''snmpVersion'', ''community'', ''v3'']"
  by (auto simp: followed_identity_def profileIdentity_def split: if_splits)

lemma update_for_conn:
  assumes "update_for refs after s = Some (i, v, c)"
  shows "\<exists>t idn. s_transport s = Some t \<and> followed_identity after s = Some idn \<and> i = s_id s \<and> v = fget idn ''snmpVersion'' \<and>
    fget c ''community'' = fget idn ''community'' \<and> fget c ''v3'' = JObj (v3Params (jor (fget idn ''v3'') (JObj []))) \<and>
    fget c ''profile'' = s_credentialRef s \<and>
    fget c ''port'' = fget t ''port'' \<and> fget c ''timeoutSec'' = fget t ''timeoutSec'' \<and> fget c ''retries'' = fget t ''retries''"
proof -
  obtain t idn where t: "s_transport s = Some t" "followed_identity after s = Some idn" "truthy (s_credentialRef s)"
    "i = s_id s" "v = fget idn ''snmpVersion''" "c = followed_conn after s t idn"
    using assms by (auto simp: update_for_def split: if_splits option.splits)
  have k: "distinct (map fst idn)" "map_of idn ''community'' = Some (fget idn ''community'')" "map_of idn ''v3'' = Some (fget idn ''v3'')"
    using identity_keys[OF t(2)] by (auto simp: fget_def map_of_eq_None_iff split: option.splits)
  have "\<not> nullish (s_credentialRef s)" using t(3) by (auto simp: nullish_def)
  then show ?thesis
    using t k by (simp add: followed_conn_def fget_spread buildMonitorConnection_def buildV3Params_def coalesce_def fget_lookup)
qed


text \<open>
  When the settings change, exactly the sessions built from identifiers that changed are given
  the new ones, each with its own transport, and those Go accepts are counted and take the new
  version; while the stored credentials are shut nothing is sent.
\<close>

theorem followCredentials_exact:
  assumes "distinct (map s_id (sessions st))"
  shows "sessions (snd (followCredentials send True before after st)) =
      map (\<lambda>s. case followed send (changedCredentialRefs before after) after s of
        Some v \<Rightarrow> s\<lparr>s_snmpVersion := v\<rparr> | None \<Rightarrow> s) (sessions st) \<and>
    fst (followCredentials send True before after st) =
      length (filter (\<lambda>s. followed send (changedCredentialRefs before after) after s \<noteq> None) (sessions st)) \<and>
    followCredentials send False before after st = (0, st) \<and>
    (\<forall>s v c. update_for (changedCredentialRefs before after) after s = Some (s_id s, v, c) \<longrightarrow>
       s_credentialRef s \<in> changedCredentialRefs before after \<and> fget c ''profile'' = s_credentialRef s \<and>
       (\<exists>t idn. s_transport s = Some t \<and> followed_identity after s = Some idn \<and>
          fget c ''community'' = fget idn ''community'' \<and>
          fget c ''port'' = fget t ''port'' \<and> fget c ''timeoutSec'' = fget t ''timeoutSec'' \<and> fget c ''retries'' = fget t ''retries''))"
proof -
  let ?refs = "changedCredentialRefs before after"
  have none: "followed send {} after s = None" for s by (simp add: followed_def update_for_def)
  note f = follow_fold[of "[]" "sessions st" st id send ?refs after 0]
  have a: "sessions (snd (followCredentials send True before after st)) =
      map (\<lambda>s. case followed send ?refs after s of Some v \<Rightarrow> s\<lparr>s_snmpVersion := v\<rparr> | None \<Rightarrow> s) (sessions st) \<and>
    fst (followCredentials send True before after st) = length (filter (\<lambda>s. followed send ?refs after s \<noteq> None) (sessions st))"
  proof (cases "?refs = {}")
    case True
    then show ?thesis by (simp add: followCredentials_def none)
  next
    case False
    with f assms show ?thesis by (auto simp: followCredentials_def Let_def case_prod_beta)
  qed
  have b: "followCredentials send False before after st = (0, st)" by (simp add: followCredentials_def)
  have c: "s_credentialRef s \<in> ?refs" if "update_for ?refs after s = Some u" for s u
    using that by (auto simp: update_for_def split: if_splits)
  show ?thesis using a b c update_for_conn[of ?refs after] by meson
qed

definition example_session :: session where
  "example_session = sessionFromBackend (JObj [(''id'', JStr ''a''), (''snmpVersion'', JStr ''v2c''),
     (''conn'', JObj [(''profile'', JStr ''default''), (''port'', JNum 1161), (''timeoutSec'', JNum 5), (''retries'', JNum 1)])]) []"

theorem followCredentials_exact_witness:
  "followCredentials (\<lambda>_ _ _. None) False (JObj []) (JObj [(''community'', JStr ''new'')])
     \<lparr>sessions = [example_session], warned = [], raised = []\<rparr> = (0, \<lparr>sessions = [example_session], warned = [], raised = []\<rparr>)"
  using followCredentials_exact[of "\<lparr>sessions = [example_session], warned = [], raised = []\<rparr>" "\<lambda>_ _ _. None" "JObj []"
      "JObj [(''community'', JStr ''new'')]"] by simp

section \<open>Starting to poll\<close>

lemma new_session_targets: "s_targets (new_session r i now) = cr_targets r" "s_id (new_session r i now) = i"
  by (simp_all add: new_session_def sessionFromBackend_def Let_def fget_lookup o_def)

definition polled :: "session \<Rightarrow> string \<times> string list" where
  "polled s = (s_id s, s_targets s)"

lemma polled_answer: "map polled (sessions (start_answer start i st)) = map polled (sessions st)"
  by (auto simp: start_answer_def polled_def split: option.splits)

lemma start_groups_sessions:
  "start_groups create start now rs st = (st', Inr ids) \<Longrightarrow>
     length ids = length rs \<and> map polled (sessions st') = map polled (sessions st) @ zip ids (map cr_targets rs)"
proof (induction rs arbitrary: st ids)
  case (Cons r rs)
  then obtain i out where i: "create r = Inr i"
      "start_groups create start now rs (start_answer start i (st\<lparr>sessions := sessions st @ [new_session r i now]\<rparr>)) = (st', out)"
      "map_sum id (Cons i) out = Inr ids"
    by (auto split: sum.splits prod.splits)
  then obtain ids' where "out = Inr ids'" "ids = i # ids'" by (cases out) auto
  with i Cons.IH[of _ ids'] show ?case
    by (auto simp: polled_answer) (simp add: polled_def new_session_targets)
qed simp

lemma sent_concat: "sent gs = mset (concat (map (g_targets \<circ> snd) gs))"
  by (induction gs) auto

lemma groups_sent:
  "mset (concat (map g_targets (groupTargets stringify settings as))) = mset as"
proof -
  let ?key = "\<lambda>a. stringify (group_key (getEffectiveSettings settings a))" and ?eff = "getEffectiveSettings settings"
  show ?thesis
    using group_all[of ?key ?eff "[]" as] by (simp add: groupTargets_def group_inv_def sent_concat)
qed

lemma groups_alike:
  assumes "g \<in> set (groupTargets stringify settings as)"
  shows "g_targets g \<noteq> [] \<and> g_settings g = getEffectiveSettings settings (hd (g_targets g)) \<and>
    (\<forall>a \<in> set (g_targets g). stringify (group_key (getEffectiveSettings settings a)) = stringify (group_key (g_settings g)))"
proof -
  let ?key = "\<lambda>a. stringify (group_key (getEffectiveSettings settings a))" and ?eff = "getEffectiveSettings settings"
  let ?gs = "foldl (group_step ?key ?eff) [] as"
  have inv: "group_inv ?key ?eff ?gs" using group_all[of ?key ?eff "[]" as] by (simp add: group_inv_def)
  obtain k where "(k, g) \<in> set ?gs" using assms by (auto simp: groupTargets_def)
  with inv have "g_targets g \<noteq> []" "\<forall>a \<in> set (g_targets g). ?key a = k" "g_settings g = ?eff (hd (g_targets g))"
    by (auto simp: group_inv_def)
  then show ?thesis by (metis hd_in_set)
qed

text \<open>
  When polling starts, every target given is watched once, by exactly one of the new sessions;
  the sessions there were stay; and each new session's connection is the one of its first target,
  whose identifiers all its targets share.
\<close>

theorem startPolling_watches_once:
  fixes stringify :: "jsval \<Rightarrow> 'k"
  assumes "startPolling stringify tr create start now settings oids targets interval thresholds version name st = (st', Inr ids)"
  shows "\<exists>groups :: group list. length groups = length ids \<and>
     map polled (sessions st') = map polled (sessions st) @ zip ids (map g_targets groups) \<and>
     mset (concat (map g_targets groups)) = mset (dedup targets) \<and> distinct (concat (map g_targets groups)) \<and>
     (\<forall>g \<in> set groups. g_targets g \<noteq> [] \<and>
        g_settings g = getEffectiveSettings (jset ''snmpVersion'' version settings) (hd (g_targets g)) \<and>
        (\<forall>a \<in> set (g_targets g). stringify (group_key (getEffectiveSettings (jset ''snmpVersion'' version settings) a))
           = stringify (group_key (g_settings g))))"
proof -
  let ?s = "jset ''snmpVersion'' version settings"
  let ?gs = "groupTargets stringify ?s (dedup targets)"
  obtain rs st1 where rs: "map cr_targets rs = map g_targets ?gs" "start_groups create start now rs st = (st1, Inr ids)"
      "sessions st' = sessions st1"
    using assms unfolding startPolling_def Let_def
    by (auto simp: group_request_def Let_def o_def split: prod.splits sum.splits if_splits intro!: that)
  note started = start_groups_sessions[OF rs(2)]
  have len: "length rs = length ?gs" using arg_cong[OF rs(1), of length] by simp
  have ms: "mset (concat (map g_targets ?gs)) = mset (dedup targets)" by (rule groups_sent)
  have "distinct (dedup targets)" by simp
  then have "distinct (concat (map g_targets ?gs))" using ms mset_eq_imp_distinct_iff by blast
  moreover have "map polled (sessions st') = map polled (sessions st) @ zip ids (map g_targets ?gs)" "length ?gs = length ids"
    using started len unfolding rs(1,3) by simp_all
  ultimately show ?thesis using ms groups_alike by (intro exI[of _ ?gs] conjI ballI) blast+
qed


definition example_start :: "polling \<times> (string + string list)" where
  "example_start = startPolling (\<lambda>v. v) (\<lambda>_. []) (\<lambda>_. Inr ''x'') (\<lambda>_. None) JNull (JObj []) [''1.3'']
     [''10.0.0.1'', ''10.0.0.2'', ''10.0.0.1''] (JNum 1000) JNull (JStr ''v2c'') [] \<lparr>sessions = [], warned = [], raised = []\<rparr>"

theorem startPolling_watches_once_witness:
  "\<exists>groups :: group list. map polled (sessions (fst example_start)) = zip [''x''] (map g_targets groups) \<and>
     mset (concat (map g_targets groups)) = mset [''10.0.0.1'', ''10.0.0.2'']"
proof -
  have "snd example_start = Inr [''x'']" by code_simp
  then have "example_start = (fst example_start, Inr [''x''])" by (simp add: prod_eq_iff)
  note r = startPolling_watches_once[OF this[unfolded example_start_def], folded example_start_def]
  have d: "dedup [''10.0.0.1'', ''10.0.0.2'', ''10.0.0.1''] = [''10.0.0.1'', ''10.0.0.2'']" by (simp add: dedup_def)
  from r show ?thesis unfolding d by simp blast
qed

section \<open>What every operation keeps\<close>

text \<open>The store as its events change it. Go gives a session it creates a new identifier, answers a
  binding it repeats with the same targets and OIDs, and a restore with distinct sessions and no
  more points than it was asked for.\<close>

inductive poll_reach :: "polling \<Rightarrow> bool" where
  empty: "poll_reach \<lparr>sessions = [], warned = [], raised = []\<rparr>"
| samples: "poll_reach st \<Longrightarrow> poll_reach (on_samples payload st)"
| overrun: "poll_reach st \<Longrightarrow> poll_reach (on_overrun report st)"
| resume: "poll_reach st \<Longrightarrow> poll_reach (resumeSession start i st)"
| stop: "poll_reach st \<Longrightarrow> poll_reach (stopPolling i st)"
| remove: "poll_reach st \<Longrightarrow> poll_reach (removeSession i st)"
| stop_all: "poll_reach st \<Longrightarrow> poll_reach (fst (stopAll st))"
| accept: "poll_reach st \<Longrightarrow> poll_reach (acceptSlow i st)"
| adopted: "poll_reach st \<Longrightarrow>
    (\<And>x. x \<in> set (sessions st) \<Longrightarrow> s_id x = str (jget v ''id'') \<Longrightarrow> cap_of x \<le> cap_of (sessionFromBackend v [])) \<Longrightarrow>
    poll_reach (adoptSession v st)"
| follow: "poll_reach st \<Longrightarrow> poll_reach (snd (followCredentials send opened before after st))"
| created: "poll_reach st \<Longrightarrow> i \<notin> s_id ` set (sessions st) \<Longrightarrow>
    poll_reach (start_answer start i (st\<lparr>sessions := sessions st @ [new_session r i now]\<rparr>))"
| restored: "poll_reach st \<Longrightarrow> distinct (map (\<lambda>s. str (jget s ''id'')) xs) \<Longrightarrow>
    (\<And>i n ps. load i n = Some ps \<Longrightarrow> length ps \<le> n) \<Longrightarrow>
    poll_reach (load_sessions load start running settings (Some xs) st)"

definition poll_inv :: "polling \<Rightarrow> bool" where
  "poll_inv st \<longleftrightarrow> distinct (map s_id (sessions st)) \<and> (\<forall>s \<in> set (sessions st). length (s_results s) \<le> cap_of s)"

text \<open>An operation that maps the sessions, keeping identity and cap and not adding points.\<close>

lemma poll_inv_map:
  assumes "poll_inv st" "sessions st' = map f (sessions st)"
    and "\<And>s. s_id (f s) = s_id s \<and> cap_of (f s) = cap_of s \<and> (s_results (f s) = s_results s \<or> length (s_results (f s)) \<le> cap_of s)"
  shows "poll_inv st'"
proof -
  have ids: "map s_id (sessions st') = map s_id (sessions st)" using assms(2,3) by simp
  have "length (s_results (f s)) \<le> cap_of (f s)" if "s \<in> set (sessions st)" for s
    using assms(1) assms(3)[of s] that by (auto simp: poll_inv_def)
  then show ?thesis using assms(1) unfolding poll_inv_def ids by (auto simp: assms(2))
qed

lemma cap_of_update [simp]:
  "cap_of (s\<lparr>s_running := b\<rparr>) = cap_of s" "cap_of (s\<lparr>s_overrun := v\<rparr>) = cap_of s"
  "cap_of (s\<lparr>s_snmpVersion := v\<rparr>) = cap_of s" "cap_of (s\<lparr>s_results := r\<rparr>) = cap_of s"
  by (simp_all add: cap_of_def)

lemma poll_inv_mark: "poll_inv st \<Longrightarrow> poll_inv (markRunning i b st)"
  by (rule poll_inv_map[where f = "\<lambda>s. if s_id s = i then s\<lparr>s_running := b\<rparr> else s"]) (simp_all add: markRunning_def)

lemma poll_inv_raise: "poll_inv st \<Longrightarrow> poll_inv (raise m st)"
  by (simp add: poll_inv_def)

lemma poll_inv_answer: "poll_inv st \<Longrightarrow> poll_inv (start_answer start i st)"
  using poll_inv_mark[OF poll_inv_raise, of st i False] by (simp add: start_answer_def markRunning_def split: option.split)

lemma poll_inv_resume: "poll_inv st \<Longrightarrow> poll_inv (resumeSession start i st)"
  unfolding resumeSession_def by (intro poll_inv_answer poll_inv_mark)


lemma poll_inv_fold_resume:
  "poll_inv st \<Longrightarrow> poll_inv (foldl (\<lambda>st s. if P s then resumeSession start (s_id s) st else st) st xs)"
  by (induction xs arbitrary: st) (simp_all add: poll_inv_resume)

lemma poll_inv_reconcile:
  assumes "poll_inv st"
  shows "poll_inv (reconcileWithScheduler start running settings st)"
proof -
  have m: "poll_inv (st\<lparr>sessions := map (\<lambda>s. s\<lparr>s_running := s_id s \<in> set (case running of Some ids \<Rightarrow> ids | None \<Rightarrow> [])\<rparr>) (sessions st)\<rparr>)"
    by (rule poll_inv_map[OF assms, where f = "\<lambda>s. s\<lparr>s_running := s_id s \<in> set (case running of Some ids \<Rightarrow> ids | None \<Rightarrow> [])\<rparr>"])
      simp_all
  show ?thesis
    unfolding reconcileWithScheduler_def Let_def
    by (rule if_split[where P = poll_inv, THEN iffD2]) (intro conjI impI poll_inv_fold_resume m)
qed

lemma restore_session_simps:
  "s_id (restore_session load v) = str (jget v ''id'')"
  "(\<And>i n ps. load i n = Some ps \<Longrightarrow> length ps \<le> n) \<Longrightarrow> length (s_results (restore_session load v)) \<le> cap_of (restore_session load v)"
proof -
  show "s_id (restore_session load v) = str (jget v ''id'')"
    by (simp add: restore_session_def sessionFromBackend_def Let_def)
  assume l: "\<And>i n ps. load i n = Some ps \<Longrightarrow> length ps \<le> n"
  have "restore_limit v \<le> cap_of (restore_session load v)"
  proof -
    have "cap_of (restore_session load v) = MAX_DATA_POINTS * max 1 (length (elems (jget v ''targets''))) * max 1 (length (split_oids (str (jget v ''oid''))))"
      by (simp add: cap_of_def restore_session_def sessionFromBackend_def Let_def)
    moreover have "restore_limit v = MAX_DATA_POINTS * max 1 (length (elems (jget v ''targets'')))"
      by (simp add: restore_limit_def max_def) (metis One_nat_def Suc_leI length_greater_0_conv)
    ultimately show ?thesis by (metis max.cobounded1 mult.right_neutral mult_le_mono2)
  qed
  moreover have "length (s_results (restore_session load v)) \<le> restore_limit v"
    using l by (auto simp: restore_session_def sessionFromBackend_def Let_def split: option.splits)
  ultimately show "length (s_results (restore_session load v)) \<le> cap_of (restore_session load v)" by simp
qed

lemma poll_inv_load:
  assumes "poll_inv st" "distinct (map (\<lambda>s. str (jget s ''id'')) xs)" "\<And>i n ps. load i n = Some ps \<Longrightarrow> length ps \<le> n"
  shows "poll_inv (load_sessions load start running settings (Some xs) st)"
proof -
  have "poll_inv (st\<lparr>sessions := map (restore_session load) xs\<rparr>)"
    using assms(2) restore_session_simps(2)[OF assms(3)] by (auto simp: poll_inv_def o_def restore_session_simps(1))
  from poll_inv_reconcile[OF this]
  have "poll_inv (reconcileWithScheduler start running settings (st\<lparr>sessions := map (restore_session load) xs\<rparr>))" .
  with assms(1) show ?thesis by (cases xs) (simp_all add: load_sessions_def)
qed

lemma poll_inv_adopt:
  assumes "poll_inv st" "\<And>x. x \<in> set (sessions st) \<Longrightarrow> s_id x = str (jget v ''id'') \<Longrightarrow> cap_of x \<le> cap_of (sessionFromBackend v [])"
  shows "poll_inv (adoptSession v st)"
proof -
  let ?n = "(sessionFromBackend v [])\<lparr>s_running := True\<rparr>"
  have n: "s_id ?n = str (jget v ''id'')" "s_results ?n = []" by (simp_all add: sessionFromBackend_def Let_def)
  show ?thesis
  proof (cases "s_id ?n \<in> s_id ` set (sessions st)")
    case True
    have ids: "map s_id (map (\<lambda>x. if s_id x = s_id ?n then ?n\<lparr>s_results := s_results x\<rparr> else x) (sessions st)) = map s_id (sessions st)"
      by simp
    have "sessions (adoptSession v st) = map (\<lambda>x. if s_id x = s_id ?n then ?n\<lparr>s_results := s_results x\<rparr> else x) (sessions st)
        \<or> adoptSession v st = st"
      using True by (simp add: adoptSession_def adopt_def)
    moreover have "length (s_results x) \<le> cap_of ?n" if "x \<in> set (sessions st)" "s_id x = s_id ?n" for x
      using assms that n by (fastforce simp: poll_inv_def)
    ultimately show ?thesis
      using assms(1) ids unfolding poll_inv_def by (elim disjE) (simp_all only: ids, auto)
  next
    case False
    then show ?thesis using assms(1) n by (auto simp: adoptSession_def adopt_def poll_inv_def)
  qed
qed

lemma poll_inv_follow: "poll_inv st \<Longrightarrow> poll_inv (snd (followCredentials send opened before after st))"
proof -
  have one: "poll_inv (snd (follow_one send refs after (n, st) s))" if "poll_inv st" for refs n st s
    using that by (rule poll_inv_map[where f = "\<lambda>x. case followed send refs after s of None \<Rightarrow> x
        | Some v \<Rightarrow> if s_id x = s_id s then x\<lparr>s_snmpVersion := v\<rparr> else x"])
      (auto simp: follow_one_sessions(1) split: option.splits)
  have "poll_inv (snd p) \<Longrightarrow> poll_inv (snd (foldl (follow_one send refs after) p xs))" for refs p xs
  proof (induction xs arbitrary: p)
    case (Cons x xs)
    have "poll_inv (snd (follow_one send refs after p x))" using one[of "snd p" refs "fst p" x] Cons.prems by simp
    from Cons.IH[OF this] show ?case by simp
  qed simp
  from this[of "(0, st)"] show "poll_inv st \<Longrightarrow> poll_inv (snd (followCredentials send opened before after st))"
    by (simp add: followCredentials_def Let_def case_prod_beta poll_inv_raise)
qed

lemma poll_reach_inv: "poll_reach st \<Longrightarrow> poll_inv st"
proof (induction rule: poll_reach.induct)
  case (samples st payload)
  have "map buffer (sessions (on_samples payload st)) =
     map (\<lambda>s. (s_id s, cap_of s, keep_last (cap_of s) (s_results s @ brought (s_id s) payload))) (sessions st)"
    using samples.IH by (intro samples_step) (simp add: poll_inv_def)
  then have "map fst (map buffer (sessions (on_samples payload st))) = map s_id (sessions st)"
    "\<forall>b \<in> set (map buffer (sessions (on_samples payload st))). length (snd (snd b)) \<le> fst (snd b)"
    using keep_last_length by auto
  then show ?case using samples.IH by (simp add: poll_inv_def buffer_def o_def)
next
  case (overrun st report)
  then show ?case
    by (auto simp: on_overrun_def intro: poll_inv_map[where f = "\<lambda>s. if s_id s = str (jget report ''sessionId'')
        then s\<lparr>s_overrun := (if truthy (jget report ''recovered'') then JNull else report)\<rparr> else s"])
next
  case (accept st i)
  then show ?case
    by (auto simp: acceptSlow_def intro: poll_inv_map[where f = "\<lambda>s. if s_id s = i then (if truthy (s_overrun s)
        then s\<lparr>s_overrun := jset ''effectiveMs'' (jget (s_overrun s) ''intervalMs'') (jset ''accepted'' (JBool True) (s_overrun s))\<rparr> else s) else s"])
next
  case (stop_all st)
  then show ?case
    by (auto simp: stopAll_def intro: poll_inv_map[where f = "\<lambda>s. s\<lparr>s_running := False\<rparr>"])
next
  case (remove st i)
  then show ?case by (auto simp: removeSession_def poll_inv_def distinct_map_filter)
next
  case (created st i start r now)
  then have "poll_inv (st\<lparr>sessions := sessions st @ [new_session r i now]\<rparr>)"
    by (auto simp: poll_inv_def new_session_targets) (simp_all add: new_session_def sessionFromBackend_def Let_def)
  then show ?case by (rule poll_inv_answer)
next
  case (restored st xs load start running settings)
  then show ?case by (intro poll_inv_load)
qed (simp_all add: poll_inv_resume stopPolling_def poll_inv_mark poll_inv_follow poll_inv_adopt poll_inv_def[of "\<lparr>sessions = [], warned = [], raised = []\<rparr>"])

text \<open>
  In every state the store reaches, no two sessions share an identifier and no buffer holds more
  points than its cap.
\<close>

theorem sessions_bounded_and_distinct:
  assumes "poll_reach st"
  shows "distinct (map s_id (sessions st)) \<and> list_all (\<lambda>s. length (s_results s) \<le> cap_of s) (sessions st)"
  using poll_reach_inv[OF assms] by (simp add: poll_inv_def list_all_iff)


theorem sessions_bounded_and_distinct_witness:
  "distinct (map s_id (sessions (on_samples JNull (start_answer (\<lambda>_. None) ''x''
     \<lparr>sessions = [new_session \<lparr>cr_oid = ''1.3'', cr_targets = [''r1''], cr_interval = JNum 1000, cr_version = JStr ''v2c'',
        cr_thresholds = JNull, cr_name = [], cr_conn = []\<rparr> ''x'' JNull], warned = [], raised = []\<rparr>))))"
  using sessions_bounded_and_distinct[OF poll_reach.samples[OF poll_reach.created[OF poll_reach.empty, of "''x''"]]]
  by fastforce

text \<open>A restored session asks for its cap divided by the number of its OIDs.\<close>

lemma restored_history_is_shared:
  "cap_of (restore_session load v) = restore_limit v * max 1 (length (split_oids (str (jget v ''oid''))))"
  by (simp add: cap_of_def restore_session_def sessionFromBackend_def Let_def restore_limit_def max_def)
     (metis One_nat_def Suc_leI length_greater_0_conv)

text \<open>What could not be handed over is removed with the rest.\<close>

lemma migration_forgets_failures:
  "xs \<noteq> [] \<Longrightarrow> migrateLegacyData (\<lambda>_. Inl e) settings (Some (JArr xs)) = ([], None)"
  by (auto simp: migrateLegacyData_def migrate_one_def)

end
