(* ===== verification/Sim_Catalogue.thy ===== *)
theory Sim_Catalogue
  imports Targets Js_Sort
begin

text \<open>
  The catalogue of models and the list of simulated devices: the rest of
  \<open>frontend/src/utils/simulator.js\<close>, and \<open>stores/simulatorStore.js\<close>. The texts of a locale (\<open>t\<close>) and
  the Unicode decomposition of \<open>fold\<close> are arguments; what a report says is a datatype of the
  messages, in place of their translation keys. The lemmas show that grouping keeps every device
  once, under its category, in the catalogue's order, and that a search only narrows.
\<close>

section \<open>Models\<close>

record sim_model =
  mo_id :: string
  mo_name :: string
  mo_vendor :: string
  mo_description :: string
  mo_category :: string
  mo_custom :: bool
  mo_notifications :: "string list"

definition modelGroups :: "sim_model list \<Rightarrow> (string \<times> sim_model list) list" where
  "modelGroups models = foldl (file_under mo_category) [] models"

definition categoriesOf :: "sim_model list \<Rightarrow> string list" where
  "categoriesOf models = map fst (modelGroups models)"

definition CATEGORY_ICONS :: "(string \<times> string) list" where
  "CATEGORY_ICONS = [(''server'', ''server''), (''network'', ''network''), (''security'', ''shield''), (''wireless'', ''wifi''),
     (''storage'', ''hard-drive''), (''power'', ''battery-charging''), (''printing'', ''printer''),
     (''environment'', ''thermometer''), (''other'', ''package'')]"

definition categoryIcon :: "string \<Rightarrow> string" where
  "categoryIcon category = (case map_of CATEGORY_ICONS category of Some i \<Rightarrow> i | None \<Rightarrow> ''package'')"

definition CUSTOM_CATEGORIES :: "string list" where
  "CUSTOM_CATEGORIES = map fst CATEGORY_ICONS"

definition modelOf :: "sim_model list \<Rightarrow> string \<Rightarrow> sim_model option" where
  "modelOf models i = List.find (\<lambda>m. mo_id m = i) models"

definition modelName :: "(string \<Rightarrow> string) \<Rightarrow> sim_model option \<Rightarrow> string \<Rightarrow> string" where
  "modelName t model i = (case model of
     None \<Rightarrow> (if starts_with i ''custom:'' then drop 7 i else i)
   | Some m \<Rightarrow> if mo_custom m then mo_name m else t (''simulator.model.'' @ mo_id m @ ''.name''))"

definition modelDescription :: "(string \<Rightarrow> string) \<Rightarrow> sim_model option \<Rightarrow> string" where
  "modelDescription t model = (case model of
     None \<Rightarrow> []
   | Some m \<Rightarrow> if mo_custom m then mo_description m else t (''simulator.model.'' @ mo_id m @ ''.description''))"

text \<open>\<open>strip\<close> decomposes and drops the combining accents. A space run separates the words.\<close>

definition fold_text :: "(string \<Rightarrow> string) \<Rightarrow> string \<Rightarrow> string" where
  "fold_text strip s = toLowerCase (strip s)"

definition words_of :: "string \<Rightarrow> string list" where
  "words_of s = filter (\<lambda>w. w \<noteq> []) (split_on CHR '' '' (map (\<lambda>c. if is_space c then CHR '' '' else c) s))"

definition model_text :: "(string \<Rightarrow> string) \<Rightarrow> sim_model \<Rightarrow> string" where
  "model_text t m = join_with CHR '' '' ([modelName t (Some m) [], mo_vendor m, modelDescription t (Some m),
     t (''simulator.category.'' @ mo_category m), mo_id m] @ mo_notifications m)"

definition filterModels ::
  "(string \<Rightarrow> string) \<Rightarrow> (string \<Rightarrow> string) \<Rightarrow> sim_model list \<Rightarrow> string \<Rightarrow> string \<Rightarrow> sim_model list" where
  "filterModels strip t models query category =
     (let words = words_of (fold_text strip query) in
      filter (\<lambda>m. (category = [] \<or> mo_category m = category) \<and>
         (words = [] \<or> list_all (\<lambda>w. indexOf (fold_text strip (model_text t m)) w 0 \<noteq> None) words)) models)"

definition notificationsOf :: "sim_model list \<Rightarrow> string \<Rightarrow> string list" where
  "notificationsOf models i = (case modelOf models i of Some m \<Rightarrow> mo_notifications m | None \<Rightarrow> [])"

section \<open>Devices by category\<close>

record device_row =
  dr_name :: string
  dr_model :: string
  dr_running :: bool

definition devicesOfModel :: "device_row list \<Rightarrow> string \<Rightarrow> device_row list" where
  "devicesOfModel devices i = filter (\<lambda>d. dr_model d = i) devices"

definition category_of :: "sim_model list \<Rightarrow> device_row \<Rightarrow> string" where
  "category_of models d = (case modelOf models (dr_model d) of
     Some m \<Rightarrow> if mo_category m = [] then ''other'' else mo_category m | None \<Rightarrow> ''other'')"

fun index_in :: "'a \<Rightarrow> 'a list \<Rightarrow> nat" where
  "index_in x [] = 0"
| "index_in x (y # ys) = (if x = y then 0 else Suc (index_in x ys))"

definition rank_of :: "string list \<Rightarrow> string \<Rightarrow> nat" where
  "rank_of order c = (if c \<in> set order then index_in c order else length order)"

definition deviceGroups :: "device_row list \<Rightarrow> sim_model list \<Rightarrow> (string \<times> device_row list) list" where
  "deviceGroups devices models =
     (let order = categoriesOf models in
      stable_sort (\<lambda>a b. int (rank_of order (fst a)) - int (rank_of order (fst b)))
        (foldl (file_under (category_of models)) [] devices))"

section \<open>Reports\<close>

datatype sim_line =
    ModelFailed jsval jsval | ModelReplaced jsval | ModelImported jsval | ModelWarning jsval jsval jsval
  | DeviceFailed jsval jsval | DeviceImported jsval | DeviceWarning jsval jsval jsval
  | TrapFailed string jsval jsval | TrapAcknowledged string jsval | TrapSent string jsval | TrapSentAll string nat

definition import_lines :: "jsval \<Rightarrow> sim_line list" where
  "import_lines r =
     (if \<not> truthy (jget r ''success'') then [ModelFailed (jget r ''file'') (jget r ''error'')]
      else (if truthy (jget r ''replaced'') then ModelReplaced else ModelImported) (jget r ''name'') #
        map (\<lambda>w. ModelWarning (jget w ''key'') (jget r ''name'') (jget w ''detail'')) (elems (jget r ''warnings'')))"

definition importReport :: "jsval list \<Rightarrow> sim_line list" where
  "importReport results = concat (map import_lines results)"

definition firstImported :: "jsval list \<Rightarrow> jsval" where
  "firstImported results = jor (case List.find (\<lambda>r. truthy (jget r ''success'')) results of Some r \<Rightarrow> jget r ''modelId'' | None \<Rightarrow> JUndef) (JStr [])"

definition device_lines :: "jsval \<Rightarrow> sim_line list" where
  "device_lines r =
     (if \<not> truthy (jget r ''success'') then [DeviceFailed (jget r ''name'') (jget r ''error'')]
      else DeviceImported (jget r ''name'') #
        map (\<lambda>w. DeviceWarning (jget w ''key'') (jget r ''name'') (jget w ''detail'')) (elems (jget r ''warnings'')))"

definition deviceImportReport :: "jsval list \<Rightarrow> sim_line list" where
  "deviceImportReport results = concat (map device_lines results)"

definition deliveryReport :: "string \<Rightarrow> jsval list \<Rightarrow> sim_line list" where
  "deliveryReport name deliveries =
     (let ok = filter (\<lambda>d. \<not> truthy (jget d ''error'')) deliveries;
          failed = map (\<lambda>d. TrapFailed name (jget d ''destination'') (jget d ''error'')) (filter (\<lambda>d. truthy (jget d ''error'')) deliveries)
      in (case ok of [] \<Rightarrow> []
          | [d] \<Rightarrow> [(if truthy (jget d ''acknowledged'') then TrapAcknowledged else TrapSent) name (jget d ''destination'')]
          | _ \<Rightarrow> [TrapSentAll name (length ok)]) @ failed)"

record trap_activity =
  ta_sent :: rat
  ta_failed :: rat
  ta_dropped :: rat
  ta_lastError :: jsval

fun num_of :: "jsval \<Rightarrow> rat" where
  "num_of (JNum q) = q"
| "num_of _ = 0"

definition activity_step :: "trap_activity \<Rightarrow> jsval \<Rightarrow> trap_activity" where
  "activity_step a d =
     \<lparr>ta_sent = ta_sent a + num_of (jget d ''sent''), ta_failed = ta_failed a + num_of (jget d ''failed''),
      ta_dropped = ta_dropped a + num_of (jget d ''dropped''),
      ta_lastError = (if truthy (jget d ''lastError'') then jget d ''lastError'' else ta_lastError a)\<rparr>"

definition trapActivity :: "jsval \<Rightarrow> trap_activity" where
  "trapActivity traps = foldl activity_step \<lparr>ta_sent = 0, ta_failed = 0, ta_dropped = 0, ta_lastError = JStr []\<rparr>
     (elems (jget traps ''destinations''))"

section \<open>Recording a device\<close>

definition recordableTargets :: "jsval \<Rightarrow> string list" where
  "recordableTargets settings = getTargetsAsArray (str (jor (jget settings ''targets'') (JStr [])))"

text \<open>Of what the form gives, an absent description or vendor is empty, an absent category \<open>other\<close>.\<close>

definition or_default :: "jsval \<Rightarrow> string \<Rightarrow> jsval" where
  "or_default v d = (if v = JUndef then JStr d else v)"

definition recordRequest :: "jsval \<Rightarrow> string \<Rightarrow> jsval \<Rightarrow> fields" where
  "recordRequest settings target form =
     spread (buildSnmpRequest (JObj (getEffectiveSettings settings target)) [target] [])
       [(''name'', jget form ''name''), (''description'', or_default (jget form ''description'') []),
        (''vendor'', or_default (jget form ''vendor'') []), (''category'', or_default (jget form ''category'') ''other'')]"

section \<open>The store\<close>

text \<open>Calls of the bridge that fail reject and leave the state as it was.\<close>

record sim_store =
  ss_models :: "sim_model list"
  ss_icons :: "(string \<times> string) list"
  ss_devices :: "device_row list"
  ss_recording :: "nat option"
  ss_loaded :: bool
  ss_subscribed :: bool

definition sim_empty :: sim_store where
  "sim_empty = \<lparr>ss_models = [], ss_icons = [], ss_devices = [], ss_recording = None, ss_loaded = False, ss_subscribed = False\<rparr>"

definition refresh :: "device_row list option \<Rightarrow> sim_store \<Rightarrow> sim_store" where
  "refresh answer s = (case answer of None \<Rightarrow> s | Some devices \<Rightarrow> s\<lparr>ss_devices := devices, ss_loaded := True\<rparr>)"

definition refreshModels :: "(sim_model list \<times> (string \<times> string) list) option \<Rightarrow> sim_store \<Rightarrow> sim_store" where
  "refreshModels answer s = (case answer of None \<Rightarrow> s | Some (models, icons) \<Rightarrow> s\<lparr>ss_models := models, ss_icons := icons\<rparr>)"

text \<open>\<open>init\<close> also says whether it subscribes; only the first call does.\<close>

definition sim_init :: "sim_store \<Rightarrow> sim_store \<times> bool" where
  "sim_init s = (s\<lparr>ss_subscribed := True\<rparr>, \<not> ss_subscribed s)"

definition on_recording :: "nat \<Rightarrow> sim_store \<Rightarrow> sim_store" where
  "on_recording objects s = (if ss_recording s = None then s else s\<lparr>ss_recording := Some objects\<rparr>)"

definition record_start :: "sim_store \<Rightarrow> sim_store" where
  "record_start s = s\<lparr>ss_recording := Some 0\<rparr>"

definition record_end :: "sim_store \<Rightarrow> sim_store" where
  "record_end s = s\<lparr>ss_recording := None\<rparr>"

definition runningSimulated :: "sim_store \<Rightarrow> nat" where
  "runningSimulated s = length (filter dr_running (ss_devices s))"


section \<open>Filing keeps every row, once, under its key\<close>

text \<open>
  The groups of the list of devices: each category some device has once, in the catalogue's
  order, with exactly its devices in the order of the list.
\<close>

theorem deviceGroups_partition:
  "distinct (map fst (deviceGroups devices models)) \<and>
   set (deviceGroups devices models) = (\<lambda>c. (c, filter (\<lambda>d. category_of models d = c) devices)) ` category_of models ` set devices \<and>
   sorted_wrt (\<lambda>a b. rank_of (categoriesOf models) (fst a) \<le> rank_of (categoriesOf models) (fst b)) (deviceGroups devices models)"
proof -
  let ?cmp = "\<lambda>a b. int (rank_of (categoriesOf models) (fst a)) - int (rank_of (categoriesOf models) (fst (b :: string \<times> device_row list)))"
  let ?g = "foldl (file_under (category_of models)) [] devices"
  have g: "deviceGroups devices models = stable_sort ?cmp ?g" by (simp add: deviceGroups_def Let_def)
  have d: "distinct (map fst ?g)" using filed[of "category_of models" devices] by blast
  have "mset (map fst (stable_sort ?cmp ?g)) = mset (map fst ?g)" by (simp add: mset_stable_sort)
  then have "distinct (map fst (deviceGroups devices models))" unfolding g using d mset_eq_imp_distinct_iff by blast
  moreover have "set (deviceGroups devices models) = (\<lambda>c. (c, filter (\<lambda>d. category_of models d = c) devices)) ` category_of models ` set devices"
    unfolding g set_stable_sort(1) by (auto simp: filed_groups)
  moreover have "sorted_wrt (\<lambda>a b. ?cmp a b \<le> 0) (stable_sort ?cmp ?g)" by (rule stable_sort_sorts) auto
  then have "sorted_wrt (\<lambda>a b. rank_of (categoriesOf models) (fst a) \<le> rank_of (categoriesOf models) (fst b)) (deviceGroups devices models)"
    unfolding g by (rule sorted_wrt_mono_rel[rotated]) simp
  ultimately show ?thesis by blast
qed

text \<open>A search for more words keeps no model a search for fewer would not.\<close>

lemma filterModels_narrows:
  assumes "set (words_of (fold_text strip q)) \<subseteq> set (words_of (fold_text strip q'))"
  shows "set (filterModels strip t models q' c) \<subseteq> set (filterModels strip t models q c)"
  using assms by (auto simp: filterModels_def Let_def list_all_iff)

lemma deliveryReport_counts:
  "length (deliveryReport name ds) =
     length (filter (\<lambda>d. truthy (jget d ''error'')) ds) + (if \<forall>d \<in> set ds. truthy (jget d ''error'') then 0 else 1)"
proof -
  have "filter (\<lambda>d. \<not> truthy (jget d ''error'')) ds = [] \<longleftrightarrow> (\<forall>d \<in> set ds. truthy (jget d ''error''))"
    by (simp add: filter_empty_conv)
  then show ?thesis by (auto simp: deliveryReport_def Let_def split: list.splits)
qed

end
