(* ===== verification/Dashboard.thy ===== *)
theory Dashboard
  imports Polling_Store
begin

text \<open>
  Several equipments on one dashboard: \<open>frontend/src/utils/dashboardGroup.js\<close>,
  \<open>stores/dashboardStore.js\<close>, \<open>utils/presetLayout.js\<close>, \<open>presetBindings.js\<close> and
  \<open>stores/monitorViewStore.js\<close>. A preset snapshot is the \<open>jsval\<close> of its session;
  \<open>JSON.stringify\<close> of a signature is an argument. The lemmas show which sessions are grouped,
  that a merged session holds every reading, and that a block of states shows only its own
  equipment's.
\<close>

section \<open>Which sessions are one dashboard\<close>

definition widgets_of :: "session \<Rightarrow> jsval list" where
  "widgets_of s = elems (jget (s_preset s) ''widgets'')"

definition widgetSignature :: "jsval list \<Rightarrow> jsval" where
  "widgetSignature widgets = JArr (map (\<lambda>w. JArr [jor (jget w ''kind'') (JStr []), jor (jget w ''title'') (JStr []),
     jor (jget w ''unit'') (JStr []), jor (jget w ''labels'') JNull, jor (jget w ''threshold'') JNull,
     jor (jget w ''layout'') JNull]) widgets)"

definition groupKey :: "(jsval \<Rightarrow> string) \<Rightarrow> session \<Rightarrow> string option" where
  "groupKey stringify s =
     (if \<not> truthy (s_preset s) \<or> \<not> is_array (jget (s_preset s) ''widgets'') \<or> widgets_of s = [] then None
      else Some (str (jor (jget (s_preset s) ''file'') (JStr [])) @ CHR 0x00 # stringify (widgetSignature (widgets_of s))))"

record dash_group =
  gr_key :: string
  gr_id :: string
  gr_file :: jsval
  gr_name :: jsval
  gr_sessions :: "session list"

definition group_of :: "string \<times> session list \<Rightarrow> dash_group" where
  "group_of = (\<lambda>(key, members).
     \<lparr>gr_key = key, gr_id = ''group:'' @ key, gr_file = jor (jget (s_preset (hd members)) ''file'') (JStr []),
      gr_name = jor (jget (s_preset (hd members)) ''name'') (JStr []), gr_sessions = members\<rparr>)"

definition keyed :: "(jsval \<Rightarrow> string) \<Rightarrow> session list \<Rightarrow> (string \<times> session list) list" where
  "keyed stringify list =
     foldl (file_under (\<lambda>s. the (groupKey stringify s))) [] (filter (\<lambda>s. groupKey stringify s \<noteq> None) list)"

definition dashboardGroups :: "(jsval \<Rightarrow> string) \<Rightarrow> session list \<Rightarrow> dash_group list" where
  "dashboardGroups stringify list = map group_of (filter (\<lambda>(key, members). length members \<ge> 2) (keyed stringify list))"

section \<open>One session standing for several\<close>

text \<open>The widget at a place in another member, if it has one there.\<close>

definition theirs :: "nat \<Rightarrow> session \<Rightarrow> jsval" where
  "theirs i s = (if i < length (widgets_of s) then jor (widgets_of s ! i) JNull else JNull)"

definition merged_widget :: "session list \<Rightarrow> nat \<Rightarrow> jsval \<Rightarrow> jsval" where
  "merged_widget list i w =
     (let oids = dedup (concat (map (\<lambda>s. elems (jget (theirs i s) ''oids'')) list));
          labels = foldl (\<lambda>fs s. spread fs (fields_of (jget (theirs i s) ''oidLabels''))) [] list;
          m = jset ''oids'' (JArr oids) w
      in if labels \<noteq> [] then jset ''oidLabels'' (JObj labels) m else m)"

definition first_wins :: "fields \<Rightarrow> fields \<Rightarrow> fields" where
  "first_wins = foldl (\<lambda>fs (k, v). if k \<in> fst ` set fs then fs else fs @ [(k, v)])"

text \<open>\<open>groupOf\<close>, a field only a merged session has, is the number beside it.\<close>

definition merged_session :: "(jsval \<Rightarrow> string) \<Rightarrow> session list \<Rightarrow> session" where
  "merged_session stringify list =
     (let first = hd list; oids = dedup (concat (map s_oids list));
          ws = map (\<lambda>(i, w). merged_widget list i w) (List.enumerate 0 (widgets_of first)) in
      first\<lparr>s_id := ''group:'' @ (case groupKey stringify first of Some k \<Rightarrow> k | None \<Rightarrow> ''null''),
        s_targets := dedup (concat (map s_targets list)), s_oids := oids, s_oid := join_with COMMA oids,
        s_results := concat (map s_results list),
        s_thresholds := JObj (foldl first_wins [] (map (\<lambda>s. fields_of (s_thresholds s)) list)),
        s_running := list_ex s_running list,
        s_preset := jset ''widgets'' (JArr ws) (s_preset first)\<rparr>)"

definition mergeGroup :: "(jsval \<Rightarrow> string) \<Rightarrow> session list \<Rightarrow> (session \<times> nat option) option" where
  "mergeGroup stringify list = (case list of
     [] \<Rightarrow> None
   | [s] \<Rightarrow> Some (s, None)
   | _ \<Rightarrow> Some (merged_session stringify list, Some (length list)))"

section \<open>A wall of states, by equipment\<close>

record status_block =
  bl_target :: jsval
  bl_oids :: "jsval list"
  bl_points :: "fields list"

definition block_for :: "fields list \<Rightarrow> jsval list \<Rightarrow> jsval \<Rightarrow> status_block" where
  "block_for all every target =
     (let mine = filter (\<lambda>p. fget p ''target'' = target \<and> fget p ''oid'' \<in> set every) all
      in \<lparr>bl_target = target,
          bl_oids = (if mine \<noteq> [] then filter (\<lambda>i. i \<in> (\<lambda>p. fget p ''oid'') ` set mine) every else every),
          bl_points = mine\<rparr>)"

definition statusBlocks :: "fields list \<Rightarrow> jsval list \<Rightarrow> jsval list \<Rightarrow> status_block list" where
  "statusBlocks all targets every =
     (if length targets < 2 then [\<lparr>bl_target = JStr [], bl_oids = every, bl_points = all\<rparr>]
      else map (block_for all every) targets)"

section \<open>What is drawn\<close>

definition dashboardView ::
  "(jsval \<Rightarrow> string) \<Rightarrow> session list \<Rightarrow> string option \<Rightarrow> session option \<Rightarrow> (session \<times> nat option) option \<times> session list" where
  "dashboardView stringify list selection fallback =
     (let back = (case fallback of Some s \<Rightarrow> (Some (s, None), [s]) | None \<Rightarrow> (None, []));
          chosen = (case List.find (\<lambda>s. Some (s_id s) = selection) list of Some s \<Rightarrow> (Some (s, None), [s]) | None \<Rightarrow> back) in
      case selection of
        None \<Rightarrow> chosen
      | Some sel \<Rightarrow> if starts_with sel ''group:''
          then (case List.find (\<lambda>g. gr_id g = sel) (dashboardGroups stringify list) of
                  Some g \<Rightarrow> (mergeGroup stringify (gr_sessions g), gr_sessions g) | None \<Rightarrow> chosen)
          else chosen)"

definition drawable :: "session \<Rightarrow> bool" where
  "drawable s \<longleftrightarrow> truthy (s_preset s) \<and> is_array (jget (s_preset s) ''widgets'') \<and> widgets_of s \<noteq> []"

definition dashboardSession :: "session list \<Rightarrow> string option \<Rightarrow> session option" where
  "dashboardSession list i = (case List.find (\<lambda>s. Some (s_id s) = i) list of
     Some s \<Rightarrow> Some s | None \<Rightarrow> List.find drawable list)"

definition dashboardCandidates :: "session list \<Rightarrow> session list" where
  "dashboardCandidates = filter drawable"

text \<open>The selection: an empty one is none.\<close>

definition dash_select :: "string \<Rightarrow> string option" where
  "dash_select sel = (if sel = [] then None else Some sel)"

definition dash_clear :: "string option" where "dash_clear = None"

definition boundPresetsFor :: "session list \<Rightarrow> string \<Rightarrow> session list" where
  "boundPresetsFor list address =
     (let addr = trim address in
      if addr = [] then [] else filter (\<lambda>s. truthy (s_preset s) \<and> addr \<in> set (s_targets s)) list)"

section \<open>Placing widgets\<close>

definition LAYOUT_COLUMNS :: rat where "LAYOUT_COLUMNS = 12"
definition MAX_LAYOUT_ROW :: rat where "MAX_LAYOUT_ROW = 64"

definition hasLayout :: "jsval list \<Rightarrow> bool" where
  "hasLayout widgets \<longleftrightarrow> list_ex (\<lambda>w. truthy (jget w ''layout'')) widgets"

definition finite_or :: "jsval \<Rightarrow> rat \<Rightarrow> rat" where
  "finite_or v d = (case number_of v of Some q \<Rightarrow> q | None \<Rightarrow> d)"

text \<open>The four properties, as numbers: column line, width, row line, height.\<close>

definition cellStyle :: "jsval \<Rightarrow> (rat \<times> rat \<times> rat \<times> rat) option" where
  "cellStyle widget = (let l = jget widget ''layout'' in if \<not> truthy l then None else
     Some (max 0 (finite_or (jget l ''x'') 0) + 1, max 1 (finite_or (jget l ''w'') 1),
           max 0 (finite_or (jget l ''y'') 0) + 1, max 1 (finite_or (jget l ''h'') 1)))"

definition style_text :: "(rat \<times> rat \<times> rat \<times> rat) option \<Rightarrow> string" where
  "style_text c = (case c of None \<Rightarrow> []
     | Some (x, w, y, h) \<Rightarrow> ''--x:'' @ show_num x @ '';--w:'' @ show_num w @ '';--y:'' @ show_num y @ '';--h:'' @ show_num h)"

definition reading_place :: "nat \<Rightarrow> jsval \<Rightarrow> rat" where
  "reading_place i w = (let l = jget w ''layout'' in
     if \<not> truthy l then (MAX_LAYOUT_ROW + 1) * LAYOUT_COLUMNS + of_nat i
     else max 0 (number_or (jget l ''y'') 0) * LAYOUT_COLUMNS + max 0 (number_or (jget l ''x'') 0))"

definition readingOrder :: "jsval list \<Rightarrow> rat list" where
  "readingOrder widgets = map (\<lambda>(i, w). reading_place i w) (List.enumerate 0 widgets)"

section \<open>View preferences\<close>

text \<open>The state is \<open>{ form, view }\<close>; every change asks for one write, after a delay, of what the state is then.\<close>

record monitor_view =
  mv_form :: fields
  mv_view :: fields
  mv_timer :: bool
  mv_stored :: "(fields \<times> fields) option"

definition mv_load :: "jsval option \<Rightarrow> monitor_view" where
  "mv_load parsed =
     (let v = (case parsed of Some v \<Rightarrow> v | None \<Rightarrow> JUndef) in
      \<lparr>mv_form = fields_of (jget v ''form''), mv_view = fields_of (jget v ''view''), mv_timer = False, mv_stored = None\<rparr>)"

definition persistSoon :: "monitor_view \<Rightarrow> monitor_view" where
  "persistSoon s = s\<lparr>mv_timer := True\<rparr>"

definition persist_fires :: "monitor_view \<Rightarrow> monitor_view" where
  "persist_fires s = (if mv_timer s then s\<lparr>mv_timer := False, mv_stored := Some (mv_form s, mv_view s)\<rparr> else s)"

definition patchForm :: "fields \<Rightarrow> monitor_view \<Rightarrow> monitor_view" where
  "patchForm changes s = persistSoon (s\<lparr>mv_form := spread (mv_form s) changes\<rparr>)"

definition saveView :: "fields \<Rightarrow> monitor_view \<Rightarrow> monitor_view" where
  "saveView view s = persistSoon (s\<lparr>mv_view := view\<rparr>)"

definition drop_from :: "string \<Rightarrow> jsval \<Rightarrow> jsval" where
  "drop_from i byId = (case byId of JObj fs \<Rightarrow> JObj (fdel i fs) | v \<Rightarrow> v)"

definition dropSession :: "string \<Rightarrow> monitor_view \<Rightarrow> monitor_view" where
  "dropSession i s = persistSoon (s\<lparr>mv_view := map (\<lambda>(g, byId). (g, drop_from i byId)) (mv_view s)\<rparr>)"


section \<open>What a group is and what it draws\<close>

definition with_key :: "(jsval \<Rightarrow> string) \<Rightarrow> string \<Rightarrow> session list \<Rightarrow> session list" where
  "with_key stringify k list = filter (\<lambda>s. groupKey stringify s = Some k) list"

lemma keyed_groups: "(k, ms) \<in> set (keyed stringify list) \<longleftrightarrow> ms = with_key stringify k list \<and> ms \<noteq> []"
proof -
  have "filter (\<lambda>s. the (groupKey stringify s) = k) (filter (\<lambda>s. groupKey stringify s \<noteq> None) list) = with_key stringify k list"
    by (auto simp: with_key_def intro: filter_cong)
  moreover have "k \<in> (\<lambda>s. the (groupKey stringify s)) ` set (filter (\<lambda>s. groupKey stringify s \<noteq> None) list) \<longleftrightarrow>
      with_key stringify k list \<noteq> []"
  proof
    assume "k \<in> (\<lambda>s. the (groupKey stringify s)) ` set (filter (\<lambda>s. groupKey stringify s \<noteq> None) list)"
    then obtain s where "s \<in> set list" "groupKey stringify s = Some k" by auto
    then have "s \<in> set (with_key stringify k list)" by (simp add: with_key_def)
    then show "with_key stringify k list \<noteq> []" by (cases "with_key stringify k list") simp_all
  next
    assume "with_key stringify k list \<noteq> []"
    then have "hd (with_key stringify k list) \<in> set (with_key stringify k list)" by simp
    then have "hd (with_key stringify k list) \<in> set list" "groupKey stringify (hd (with_key stringify k list)) = Some k"
      by (simp_all only: with_key_def set_filter mem_Collect_eq)
    then show "k \<in> (\<lambda>s. the (groupKey stringify s)) ` set (filter (\<lambda>s. groupKey stringify s \<noteq> None) list)"
      by (intro image_eqI[of _ _ "hd (with_key stringify k list)"]) simp_all
  qed
  ultimately show ?thesis unfolding keyed_def filed_groups by auto
qed

lemma keyed_distinct: "distinct (map fst (keyed stringify list))"
  unfolding keyed_def using filed[of "\<lambda>s. the (groupKey stringify s)"] by blast

lemma dashboardGroups_exact:
  "g \<in> set (dashboardGroups stringify list) \<longleftrightarrow>
     (\<exists>k. 2 \<le> length (with_key stringify k list) \<and> g = group_of (k, with_key stringify k list))"
proof
  assume "g \<in> set (dashboardGroups stringify list)"
  then obtain k ms where "(k, ms) \<in> set (keyed stringify list)" "2 \<le> length ms" "g = group_of (k, ms)"
    by (auto simp: dashboardGroups_def)
  then show "\<exists>k. 2 \<le> length (with_key stringify k list) \<and> g = group_of (k, with_key stringify k list)"
    by (auto simp: keyed_groups)
next
  assume "\<exists>k. 2 \<le> length (with_key stringify k list) \<and> g = group_of (k, with_key stringify k list)"
  then obtain k where k: "2 \<le> length (with_key stringify k list)" "g = group_of (k, with_key stringify k list)" by blast
  then have "(k, with_key stringify k list) \<in> set (keyed stringify list)" by (auto simp: keyed_groups)
  with k show "g \<in> set (dashboardGroups stringify list)" unfolding dashboardGroups_def by force
qed

lemma group_of_simps: "gr_id (group_of (k, ms)) = ''group:'' @ k" "gr_key (group_of (k, ms)) = k" "gr_sessions (group_of (k, ms)) = ms"
  by (simp_all add: group_of_def)

lemma find_group:
  assumes "2 \<le> length (with_key stringify k list)"
  shows "\<exists>g. List.find (\<lambda>g. gr_id g = ''group:'' @ k) (dashboardGroups stringify list) = Some g \<and>
    gr_sessions g = with_key stringify k list"
proof -
  have m: "group_of (k, with_key stringify k list) \<in> set (dashboardGroups stringify list)"
    unfolding dashboardGroups_exact using assms by blast
  have "List.find (\<lambda>g. gr_id g = ''group:'' @ k) (dashboardGroups stringify list) \<noteq> None"
    unfolding find_None_iff not_not using m group_of_simps(1) by blast
  then obtain g where g: "List.find (\<lambda>g. gr_id g = ''group:'' @ k) (dashboardGroups stringify list) = Some g" by blast
  then have "g \<in> set (dashboardGroups stringify list)" and i: "gr_id g = ''group:'' @ k"
    unfolding find_Some_iff using nth_mem by blast+
  then obtain k' where k': "g = group_of (k', with_key stringify k' list)" unfolding dashboardGroups_exact by blast
  with i have "k' = k" by (simp add: group_of_simps)
  with g k' show ?thesis by (simp add: group_of_simps)
qed

lemma merged_widget_oids:
  "elems (jget (merged_widget list i w) ''oids'') = dedup (concat (map (\<lambda>s. elems (jget (theirs i s) ''oids'')) list))"
  by (simp add: merged_widget_def Let_def)

text \<open>
  Selecting a dashboard of several equipments draws exactly the sessions bound from the same
  snapshot: the merged session holds every reading of each of them, all their targets and OIDs once,
  and in each widget the OIDs of every member's widget at that place.
\<close>

theorem group_view_is_whole:
  assumes "2 \<le> length (with_key stringify k list)"
  shows "let ms = with_key stringify k list; v = dashboardView stringify list (Some (''group:'' @ k)) fallback in
    snd v = ms \<and> (\<exists>m. fst v = Some (m, Some (length ms)) \<and>
      s_id m = ''group:'' @ k \<and> s_results m = concat (map s_results ms) \<and>
      distinct (s_targets m) \<and> set (s_targets m) = (\<Union>s \<in> set ms. set (s_targets s)) \<and>
      distinct (s_oids m) \<and> set (s_oids m) = (\<Union>s \<in> set ms. set (s_oids s)) \<and>
      s_running m = list_ex s_running ms \<and>
      map (\<lambda>w. set (elems (jget w ''oids''))) (widgets_of m) =
        map (\<lambda>i. \<Union>s \<in> set ms. set (elems (jget (theirs i s) ''oids''))) [0..<length (widgets_of (hd ms))])"
proof -
  let ?ms = "with_key stringify k list"
  obtain a b r where ms: "?ms = a # b # r" using assms by (cases ?ms; cases "tl ?ms") auto
  obtain g where g: "List.find (\<lambda>g. gr_id g = ''group:'' @ k) (dashboardGroups stringify list) = Some g" "gr_sessions g = ?ms"
    using find_group[OF assms] by blast
  have key: "groupKey stringify (hd ?ms) = Some k"
  proof -
    have "a \<in> set ?ms" by (simp add: ms)
    then have "groupKey stringify a = Some k" by (simp add: with_key_def)
    then show ?thesis by (simp add: ms)
  qed
  let ?m = "merged_session stringify ?ms"
  have view: "dashboardView stringify list (Some (''group:'' @ k)) fallback = (Some (?m, Some (length ?ms)), ?ms)"
    using g ms by (simp add: dashboardView_def Let_def starts_with_def mergeGroup_def)
  have w: "widgets_of ?m = map (\<lambda>(i, w). merged_widget ?ms i w) (List.enumerate 0 (widgets_of (hd ?ms)))"
    by (simp add: merged_session_def Let_def widgets_of_def)
  have "map (\<lambda>w. set (elems (jget w ''oids''))) (widgets_of ?m) =
      map (\<lambda>i. \<Union>s \<in> set ?ms. set (elems (jget (theirs i s) ''oids''))) [0..<length (widgets_of (hd ?ms))]"
    unfolding w by (rule nth_equalityI) (simp_all add: nth_enumerate_eq merged_widget_oids)
  then show ?thesis unfolding view Let_def using key
    by (simp add: merged_session_def Let_def)
qed

definition bound_session :: "string \<Rightarrow> string \<Rightarrow> session" where
  "bound_session i target = (sessionFromBackend (JObj [(''id'', JStr i)]) [])
     \<lparr>s_targets := [target], s_preset := JObj [(''file'', JStr ''f''), (''widgets'', JArr [JObj [(''oids'', JArr [JStr i])]])]\<rparr>"

theorem group_view_is_whole_witness:
  "snd (dashboardView (\<lambda>_. ''x'') [bound_session ''a'' ''h'', bound_session ''b'' ''g''] (Some (''group:f'' @ CHR 0x00 # ''x'')) None) =
     [bound_session ''a'' ''h'', bound_session ''b'' ''g'']"
proof -
  have w: "with_key (\<lambda>_. ''x'') (''f'' @ CHR 0x00 # ''x'') [bound_session ''a'' ''h'', bound_session ''b'' ''g''] =
      [bound_session ''a'' ''h'', bound_session ''b'' ''g'']"
    by (simp add: with_key_def groupKey_def bound_session_def widgets_of_def fget_lookup jor_def)
  show ?thesis
    using group_view_is_whole[of "\<lambda>_. ''x''" "''f'' @ CHR 0x00 # ''x''" "[bound_session ''a'' ''h'', bound_session ''b'' ''g'']" None]
    unfolding w Let_def by simp
qed

text \<open>
  In a wall of states split by equipment each block holds the readings of its own equipment for
  the widget's OIDs, all of them and no other's, and shows a cell for an OID only if the equipment
  answered it or has answered none yet.
\<close>

theorem blocks_do_not_mix:
  assumes "2 \<le> length targets"
  shows "map bl_target (statusBlocks all targets every) = targets \<and>
    list_all (\<lambda>b. bl_points b = filter (\<lambda>p. fget p ''target'' = bl_target b \<and> fget p ''oid'' \<in> set every) all \<and>
      set (bl_oids b) = (if bl_points b = [] then set every else (\<lambda>p. fget p ''oid'') ` set (bl_points b)))
     (statusBlocks all targets every)"
proof -
  have "map bl_target (map (block_for all every) targets) = targets"
    by (simp add: block_for_def Let_def o_def)
  with assms show ?thesis by (auto simp: statusBlocks_def block_for_def Let_def list_all_iff)
qed

theorem blocks_do_not_mix_witness:
  "map bl_target (statusBlocks [] [JStr ''h'', JStr ''g''] [JStr ''1'']) = [JStr ''h'', JStr ''g'']"
  using blocks_do_not_mix[of "[JStr ''h'', JStr ''g'']" "[]" "[JStr ''1'']"] by simp

section \<open>Preferences reach the disk\<close>

datatype mv_event = Patch fields | SaveView fields | DropSession string | TimerFires | Nothing

fun mv_step :: "mv_event \<Rightarrow> monitor_view \<Rightarrow> monitor_view" where
  "mv_step (Patch c) s = patchForm c s"
| "mv_step (SaveView v) s = saveView v s"
| "mv_step (DropSession i) s = dropSession i s"
| "mv_step TimerFires s = persist_fires s"
| "mv_step Nothing s = s"

fun mv_run :: "monitor_view \<Rightarrow> (nat \<Rightarrow> mv_event) \<Rightarrow> nat \<Rightarrow> monitor_view" where
  "mv_run s ev 0 = s"
| "mv_run s ev (Suc n) = mv_step (ev n) (mv_run s ev n)"

definition mv_saved :: "monitor_view \<Rightarrow> bool" where
  "mv_saved s \<longleftrightarrow> mv_stored s = Some (mv_form s, mv_view s)"

lemma mv_pending: "mv_timer s \<or> mv_saved s \<Longrightarrow> mv_timer (mv_step e s) \<or> mv_saved (mv_step e s)"
  by (cases e) (auto simp: patchForm_def saveView_def dropSession_def persistSoon_def persist_fires_def mv_saved_def)

lemma mv_quiet:
  "e \<in> {TimerFires, Nothing} \<Longrightarrow> mv_form (mv_step e s) = mv_form s \<and> mv_view (mv_step e s) = mv_view s \<and> (mv_saved s \<longrightarrow> mv_saved (mv_step e s))"
  by (auto simp: persist_fires_def mv_saved_def)

lemma mv_quiet_run:
  assumes "\<And>m. N \<le> m \<Longrightarrow> ev m \<in> {TimerFires, Nothing}"
  shows "mv_form (mv_run s ev (N + k)) = mv_form (mv_run s ev N) \<and> mv_view (mv_run s ev (N + k)) = mv_view (mv_run s ev N) \<and>
    (mv_saved (mv_run s ev N) \<longrightarrow> mv_saved (mv_run s ev (N + k)))"
proof (induction k)
  case (Suc k)
  from mv_quiet[OF assms[of "N + k"], of "mv_run s ev (N + k)"] Suc show ?case by simp
qed simp

text \<open>
  Once the user stops changing the view, and if a timer that was set does fire, there is a moment
  after which what is stored is what is shown, for good.
\<close>

theorem preferences_are_stored:
  assumes fair: "\<And>n. mv_timer (mv_run s ev n) \<Longrightarrow> \<exists>m \<ge> n. ev m = TimerFires"
    and quiet: "\<And>m. N \<le> m \<Longrightarrow> ev m \<in> {TimerFires, Nothing}"
    and start: "mv_timer s \<or> mv_saved s"
  shows "\<exists>m \<ge> N. \<forall>k \<ge> m. mv_stored (mv_run s ev k) = Some (mv_form (mv_run s ev N), mv_view (mv_run s ev N))"
proof -
  have pending: "mv_timer (mv_run s ev n) \<or> mv_saved (mv_run s ev n)" for n
    by (induction n) (use start in \<open>simp_all add: mv_pending\<close>)
  have "\<exists>m \<ge> N. mv_saved (mv_run s ev m)"
  proof (cases "mv_saved (mv_run s ev N)")
    case False
    then have "mv_timer (mv_run s ev N)" using pending by blast
    then obtain m where m: "m \<ge> N" "ev m = TimerFires" using fair by blast
    have "mv_saved (mv_run s ev (Suc m))"
      using pending[of m] m(2) by (auto simp: persist_fires_def mv_saved_def)
    with m(1) show ?thesis by (intro exI[of _ "Suc m"]) simp
  qed blast
  then obtain m where m: "m \<ge> N" "mv_saved (mv_run s ev m)" by blast
  have "mv_stored (mv_run s ev k) = Some (mv_form (mv_run s ev N), mv_view (mv_run s ev N))" if "k \<ge> m" for k
  proof -
    have "mv_saved (mv_run s ev (m + (k - m)))"
      using mv_quiet_run[where N = m and ev = ev and s = s and k = "k - m"] quiet m by (meson order_trans)
    moreover have "mv_form (mv_run s ev (N + (k - N))) = mv_form (mv_run s ev N) \<and> mv_view (mv_run s ev (N + (k - N))) = mv_view (mv_run s ev N)"
      using mv_quiet_run[where N = N and ev = ev and s = s and k = "k - N"] quiet by blast
    ultimately show ?thesis using that m(1) by (simp add: mv_saved_def)
  qed
  with m(1) show ?thesis by blast
qed

theorem preferences_are_stored_witness:
  "\<exists>m \<ge> 1. mv_stored (mv_run (mv_load None\<lparr>mv_stored := Some ([], [])\<rparr>)
     (\<lambda>n. if n = 0 then Patch [(''oids'', JStr ''1'')] else TimerFires) m) = Some ([(''oids'', JStr ''1'')], [])"
proof -
  let ?ev = "\<lambda>n :: nat. if n = 0 then Patch [(''oids'', JStr ''1'')] else TimerFires"
  let ?s = "mv_load None\<lparr>mv_stored := Some ([], [])\<rparr>"
  have fair: "\<exists>m \<ge> n. ?ev m = TimerFires" for n by (intro exI[of _ "Suc n"]) simp
  have "\<exists>m \<ge> 1. \<forall>k \<ge> m. mv_stored (mv_run ?s ?ev k) = Some (mv_form (mv_run ?s ?ev 1), mv_view (mv_run ?s ?ev 1))"
    by (rule preferences_are_stored) (use fair in \<open>auto simp: mv_saved_def mv_load_def\<close>)
  moreover have "mv_form (mv_run ?s ?ev 1) = [(''oids'', JStr ''1'')] \<and> mv_view (mv_run ?s ?ev 1) = []"
    by (simp add: mv_load_def patchForm_def persistSoon_def spread_def)
  ultimately show ?thesis by (metis order_refl)
qed

end
