(* ===== verification/Js_Date.thy ===== *)
theory Js_Date
  imports Js_Number
begin

text \<open>
  \<open>Date.parse\<close> and \<open>new Date\<close> on the timestamps Go writes (RFC 3339), as milliseconds since 1970;
  \<open>None\<close> is \<open>NaN\<close>. A day past the end of its month falls into the next one and a fraction of a
  second is cut to milliseconds, as V8 does; the older formats \<open>Date.parse\<close> also knows read as
  \<open>NaN\<close>.
\<close>

text \<open>The days from 1970-01-01 to a day of the Gregorian calendar.\<close>

definition days_from_civil :: "int \<Rightarrow> int \<Rightarrow> int \<Rightarrow> int" where
  "days_from_civil y m d =
     (let y' = (if m \<le> 2 then y - 1 else y); era = y' div 400; yoe = y' - era * 400;
          doy = (153 * (if m > 2 then m - 3 else m + 9) + 2) div 5 + d - 1;
          doe = yoe * 365 + yoe div 4 - yoe div 100 + doy
      in era * 146097 + doe - 719468)"

definition digits_at :: "nat \<Rightarrow> nat \<Rightarrow> string \<Rightarrow> int option" where
  "digits_at i n s = (let d = take n (drop i s) in
     if length d = n \<and> list_all is_ascii_digit d then Some (int (read_base 10 d)) else None)"

definition char_at :: "nat \<Rightarrow> char \<Rightarrow> string \<Rightarrow> bool" where
  "char_at i c s \<longleftrightarrow> take 1 (drop i s) = [c]"

text \<open>The offset in minutes of what follows the seconds.\<close>

definition zone_offset :: "string \<Rightarrow> int option" where
  "zone_offset z =
     (if z = ''Z'' then Some 0
      else case (digits_at 1 2 z, digits_at 4 2 z) of
        (Some h, Some m) \<Rightarrow>
          (if length z = 6 \<and> char_at 3 CHR '':'' z \<and> h < 24 \<and> m < 60 then
             (if char_at 0 CHR ''+'' z then Some (h * 60 + m) else if char_at 0 CHR ''-'' z then Some (- (h * 60 + m)) else None)
           else None)
      | _ \<Rightarrow> None)"

definition millis :: "string \<Rightarrow> int" where
  "millis fdigits = int (read_base 10 (take 3 (fdigits @ ''000'')))"

text \<open>The date and the time, then the fraction and the zone.\<close>

definition day_ms :: "string \<Rightarrow> int option" where
  "day_ms s = (case (digits_at 0 4 s, digits_at 5 2 s, digits_at 8 2 s) of
     (Some y, Some m, Some d) \<Rightarrow>
       (if char_at 4 CHR ''-'' s \<and> char_at 7 CHR ''-'' s \<and> 1 \<le> m \<and> m \<le> 12 \<and> 1 \<le> d \<and> d \<le> 31
        then Some (days_from_civil y m d * 86400000) else None)
   | _ \<Rightarrow> None)"

definition time_ms :: "string \<Rightarrow> int option" where
  "time_ms s = (case (digits_at 11 2 s, digits_at 14 2 s, digits_at 17 2 s) of
     (Some h, Some m, Some sec) \<Rightarrow>
       (if char_at 10 CHR ''T'' s \<and> char_at 13 CHR '':'' s \<and> char_at 16 CHR '':'' s \<and> h < 24 \<and> m < 60 \<and> sec < 60
        then Some (((h * 60 + m) * 60 + sec) * 1000) else None)
   | _ \<Rightarrow> None)"

definition date_parse :: "jsval \<Rightarrow> rat option" where
  "date_parse v = (case v of
     JStr s \<Rightarrow>
       (let rest = drop 19 s; dotted = char_at 0 CHR ''.'' rest; after = (if dotted then tl rest else rest);
            fdigits = (if dotted then takeWhile is_ascii_digit after else []);
            zone = (if dotted then dropWhile is_ascii_digit after else after) in
        case (day_ms s, time_ms s, zone_offset zone) of
          (Some d, Some t, Some z) \<Rightarrow>
            (if dotted \<and> fdigits = [] then None else Some (of_int (d + t + millis fdigits - z * 60000)))
        | _ \<Rightarrow> None)
   | _ \<Rightarrow> None)"

text \<open>\<open>new Date(v)\<close>: a number is milliseconds already, and \<open>null\<close> is zero.\<close>

definition date_value :: "jsval \<Rightarrow> rat option" where
  "date_value v = (case v of JNum q \<Rightarrow> Some q | JNull \<Rightarrow> Some 0 | _ \<Rightarrow> date_parse v)"

text \<open>Comparisons and differences with \<open>NaN\<close> in them.\<close>

definition num_less :: "rat option \<Rightarrow> rat option \<Rightarrow> bool" where
  "num_less a b \<longleftrightarrow> (case (a, b) of (Some x, Some y) \<Rightarrow> x < y | _ \<Rightarrow> False)"

definition num_le :: "rat option \<Rightarrow> rat option \<Rightarrow> bool" where
  "num_le a b \<longleftrightarrow> (case (a, b) of (Some x, Some y) \<Rightarrow> x \<le> y | _ \<Rightarrow> False)"

definition num_diff :: "rat option \<Rightarrow> rat option \<Rightarrow> rat option" where
  "num_diff a b = (case (a, b) of (Some x, Some y) \<Rightarrow> Some (x - y) | _ \<Rightarrow> None)"

lemma num_simps [simp]: "num_less (Some x) (Some y) = (x < y)" "num_le (Some x) (Some y) = (x \<le> y)"
  "num_diff (Some x) (Some y) = Some (x - y)" "\<not> num_less None b" "\<not> num_less a None" "num_diff None b = None"
  by (simp_all add: num_less_def num_le_def num_diff_def split: option.split)

lemmas date_eval = day_ms_def time_ms_def zone_offset_def millis_def digits_at_def char_at_def days_from_civil_def
  is_ascii_digit_def code_def read_base_def char_digit_def

text \<open>The calendar: a day is one more than the day before it, over month and leap-year ends.\<close>

lemma epoch: "days_from_civil 1970 1 1 = 0" by code_simp

lemma leap_days:
  "days_from_civil 2024 3 1 - days_from_civil 2024 2 28 = 2" "days_from_civil 2023 3 1 - days_from_civil 2023 2 28 = 1"
  "days_from_civil 2000 3 1 - days_from_civil 2000 2 28 = 2" "days_from_civil 2100 3 1 - days_from_civil 2100 2 28 = 1"
  by code_simp+

end
