(* ===== verification/Series_View.thy ===== *)
theory Series_View
  imports Js_Date Polling_Store
begin

text \<open>
  Reading a series: \<open>frontend/src/utils/chartPalette.js\<close>, \<open>stateColour.js\<close>,
  \<open>thresholdAlerts.js\<close>, \<open>seriesStats.js\<close>, \<open>snmpUnits.js\<close> and \<open>formatting.js\<close>. The lemmas
  show that series which are told apart have different colours, that an episode outside the band
  alerts once and when, that a counter's wrap is undone, and that the statistics are in order.
\<close>

section \<open>Colours\<close>

definition LIGHT :: "string list" where
  "LIGHT = [''#2a78d6'', ''#eb6834'', ''#1baf7a'', ''#eda100'', ''#e87ba4'', ''#008300'', ''#4a3aa7'', ''#e34948'']"

definition DARK :: "string list" where
  "DARK = [''#3987e5'', ''#d95926'', ''#199e70'', ''#c98500'', ''#d55181'', ''#008300'', ''#9085e9'', ''#e66767'']"

definition MAX_SERIES :: nat where "MAX_SERIES = length LIGHT"

definition STATUS :: "(string \<times> string) list" where
  "STATUS = [(''good'', ''#0ca30c''), (''warning'', ''#fab219''), (''serious'', ''#ec835a''), (''critical'', ''#d03b3b'')]"

text \<open>The theme attribute of the document, if it has one.\<close>

definition isDarkTheme :: "string option \<Rightarrow> bool" where
  "isDarkTheme theme \<longleftrightarrow> theme \<noteq> Some ''light''"

definition palette :: "bool \<Rightarrow> string list" where
  "palette dark = (if dark then DARK else LIGHT)"

definition seriesColor :: "nat \<Rightarrow> bool \<Rightarrow> string" where
  "seriesColor index dark = palette dark ! min index (length (palette dark) - 1)"

definition seriesKey :: "jsval \<Rightarrow> string \<Rightarrow> string" where
  "seriesKey target oid = str target @ CHR ''|'' # oid"

record series_item =
  si_oid :: string
  si_target :: jsval
  si_key :: string
  si_color :: nat
  si_capped :: bool

definition series_item_of :: "string \<Rightarrow> jsval \<Rightarrow> nat \<Rightarrow> series_item" where
  "series_item_of oid target i =
     \<lparr>si_oid = oid, si_target = target, si_key = seriesKey target oid, si_color = i, si_capped = i \<ge> MAX_SERIES\<rparr>"

definition oids_wanted :: "session \<Rightarrow> string list option \<Rightarrow> string list" where
  "oids_wanted s oids =
     (let chosen = (case oids of Some os \<Rightarrow> if os \<noteq> [] then os else [] | None \<Rightarrow> []);
          own = (if s_oids s \<noteq> [] then s_oids s else [s_oid s])
      in dedup (filter (\<lambda>oid. oid \<noteq> []) (if chosen \<noteq> [] then chosen else own)))"

definition targetsFor :: "session \<Rightarrow> string \<Rightarrow> jsval list" where
  "targetsFor s oid =
     (let seen = dedup (map (\<lambda>r. fget r ''target'')
        (filter (\<lambda>r. jor (fget r ''oid'') (JStr (s_oid s)) = JStr oid) (s_results s)))
      in if seen \<noteq> [] then seen else dedup (map JStr (s_targets s)))"

fun plan_from :: "bool \<Rightarrow> session \<Rightarrow> nat \<Rightarrow> string list \<Rightarrow> series_item list" where
  "plan_from stacked s running [] = []"
| "plan_from stacked s running (oid # oids) =
     (let targets = targetsFor s oid in
      map (\<lambda>(idx, target). series_item_of oid target (if stacked then running + idx else idx)) (List.enumerate 0 targets) @
      plan_from stacked s (running + length targets) oids)"

definition seriesPlan :: "session \<Rightarrow> string \<Rightarrow> string list option \<Rightarrow> series_item list \<times> nat" where
  "seriesPlan s layout oids =
     (let series = plan_from (layout = ''stacked'') s 0 (oids_wanted s oids) in (series, length (filter si_capped series)))"

definition css_token :: "(string \<Rightarrow> string) \<Rightarrow> string \<Rightarrow> string \<Rightarrow> string" where
  "css_token style name fallback = (let v = trim (style name) in if v \<noteq> [] then v else fallback)"

definition chartChrome :: "(string \<Rightarrow> string) \<Rightarrow> (string \<times> string) list" where
  "chartChrome style =
     [(''ink'', css_token style ''--text-color'' ''#e0e0e0''), (''muted'', css_token style ''--text-muted'' ''#898781''),
      (''grid'', css_token style ''--border-color'' ''#2c2c2a''), (''surface'', css_token style ''--bg-light-color'' ''#2a2a2a'')]"

section \<open>States\<close>

text \<open>Timestamps of one store are texts of one format, compared as texts.\<close>

definition later :: "jsval \<Rightarrow> jsval \<Rightarrow> bool" where
  "later a b \<longleftrightarrow> (case (a, b) of (JStr x, JStr y) \<Rightarrow> ord.lexordp (\<lambda>c d. code c < code d) y x
     | (JNum x, JNum y) \<Rightarrow> y < x | _ \<Rightarrow> False)"

definition latestFor :: "jsval \<Rightarrow> fields list \<Rightarrow> fields option" where
  "latestFor oid points = foldl (\<lambda>best p.
     if fget p ''oid'' \<noteq> oid then best
     else case best of None \<Rightarrow> Some p
       | Some b \<Rightarrow> if later (fget p ''timestamp'') (fget b ''timestamp'') then Some p else best) None points"

text \<open>The em dash, which is past U+00FF, is kept as its three bytes.\<close>

definition DASH :: string where "DASH = [CHR 0xE2, CHR 0x80, CHR 0x94]"

record state_of = st_key :: string st_text :: jsval st_kind :: string

definition num_or_nan :: "jsval \<Rightarrow> string" where
  "num_or_nan v = (case number_of v of Some q \<Rightarrow> show_int (js_round q) | None \<Rightarrow> ''NaN'')"

definition stateOf :: "fields option \<Rightarrow> state_of" where
  "stateOf point = (case point of
     None \<Rightarrow> \<lparr>st_key = [], st_text = JStr DASH, st_kind = ''unknown''\<rparr>
   | Some p \<Rightarrow>
       (if truthy (fget p ''error'') then \<lparr>st_key = [], st_text = fget p ''error'', st_kind = ''failed''\<rparr>
        else if nullish (fget p ''value'') then \<lparr>st_key = [], st_text = JStr DASH, st_kind = ''unknown''\<rparr>
        else \<lparr>st_key = num_or_nan (fget p ''value''), st_text = JStr [], st_kind = ''value''\<rparr>))"

definition stateText :: "fields option \<Rightarrow> jsval \<Rightarrow> jsval" where
  "stateText point labels = (let st = stateOf point in
     if st_kind st \<noteq> ''value'' then st_text st else jor (jget labels (st_key st)) (JStr (st_key st)))"

definition GOOD_WORDS :: "string list" where
  "GOOD_WORDS = [''up'', ''ok'', ''on'', ''active'', ''normal'', ''enabled'', ''good'', ''running'']"
definition BAD_WORDS :: "string list" where
  "BAD_WORDS = [''down'', ''off'', ''fail'', ''failed'', ''error'', ''critical'', ''inactive'', ''disabled'']"
definition WARN_WORDS :: "string list" where
  "WARN_WORDS = [''testing'', ''unknown'', ''dormant'', ''warning'', ''degraded'']"

definition stateKind :: "fields option \<Rightarrow> jsval \<Rightarrow> string" where
  "stateKind point labels = (let st = stateOf point; word = toLowerCase (str (jor (jget labels (st_key st)) (JStr []))) in
     if st_kind st \<noteq> ''value'' then st_kind st
     else if word \<in> set GOOD_WORDS then ''good''
     else if word \<in> set BAD_WORDS then ''bad''
     else if word \<in> set WARN_WORDS then ''warn'' else ''value'')"

section \<open>Thresholds\<close>

definition bound_set :: "jsval \<Rightarrow> bool" where
  "bound_set b \<longleftrightarrow> \<not> nullish b \<and> b \<noteq> JStr []"

definition classify :: "jsval \<Rightarrow> jsval \<Rightarrow> (string \<times> rat option) option" where
  "classify value threshold =
     (if \<not> truthy threshold \<or> jget threshold ''alertEnabled'' = JBool False then None
      else if nullish value \<or> number_of value = None then None
      else let mn = jget threshold ''min''; mx = jget threshold ''max'' in
        if bound_set mn \<and> num_less (number_of value) (number_of mn) then Some (''below'', number_of mn)
        else if bound_set mx \<and> num_less (number_of mx) (number_of value) then Some (''above'', number_of mx)
        else None)"

record breach =
  br_kind :: string
  br_start :: "rat option"
  br_fired :: bool

record alert =
  al_kind :: string
  al_bound :: "rat option"
  al_forSeconds :: rat
  al_heldSeconds :: "int option"

definition for_seconds :: "jsval \<Rightarrow> rat" where
  "for_seconds threshold = number_or (jget threshold ''forSeconds'') 0"

definition current_breach :: "breach option \<Rightarrow> string \<Rightarrow> rat option \<Rightarrow> breach" where
  "current_breach br kind start = (case br of
     Some b \<Rightarrow> if br_kind b = kind then b else \<lparr>br_kind = kind, br_start = start, br_fired = False\<rparr>
   | None \<Rightarrow> \<lparr>br_kind = kind, br_start = start, br_fired = False\<rparr>)"

definition evaluateBreach :: "breach option \<Rightarrow> fields \<Rightarrow> jsval \<Rightarrow> breach option \<times> alert option" where
  "evaluateBreach br sample threshold = (case classify (fget sample ''value'') threshold of
     None \<Rightarrow> (None, None)
   | Some (kind, bound) \<Rightarrow>
       (let now = date_parse (fget sample ''timestamp''); current = current_breach br kind now;
            held = num_diff now (br_start current) in
        if num_less held (Some (for_seconds threshold * 1000)) \<or> br_fired current then (Some current, None)
        else (Some (current\<lparr>br_fired := True\<rparr>),
              Some \<lparr>al_kind = kind, al_bound = bound, al_forSeconds = for_seconds threshold,
                    al_heldSeconds = map_option (\<lambda>h. js_round (h / 1000)) held\<rparr>)))"

section \<open>Statistics\<close>

definition STAT_KEYS :: "string list" where
  "STAT_KEYS = [''last'', ''avg'', ''min'', ''max'', ''p95'', ''stddev'', ''count'', ''errors'']"

definition DEFAULT_STATS :: "string list" where
  "DEFAULT_STATS = [''last'', ''avg'', ''min'', ''max'']"

definition percentile :: "rat list \<Rightarrow> rat \<Rightarrow> rat option" where
  "percentile xs p =
     (if xs = [] then None
      else if length xs = 1 then Some (xs ! 0)
      else let idx = of_nat (length xs - 1) * p; lo = nat \<lfloor>idx\<rfloor>; hi = nat \<lceil>idx\<rceil> in
        if lo = hi then Some (xs ! lo)
        else Some (xs ! lo + (xs ! hi - xs ! lo) * (idx - of_nat lo)))"

record series_stats =
  ss_last :: "rat option"
  ss_avg :: "rat option"
  ss_min :: "rat option"
  ss_max :: "rat option"
  ss_p95 :: "rat option"
  ss_stddev :: "real option"
  ss_count :: nat
  ss_errors :: nat

definition stat_values :: "fields list \<Rightarrow> string \<Rightarrow> rat list" where
  "stat_values points field =
     List.map_filter (\<lambda>p. let v = fget p field in if nullish v then None else number_of v) points"

definition stat_errors :: "fields list \<Rightarrow> nat" where
  "stat_errors points = length (filter (\<lambda>p. truthy (fget p ''error'') \<or> fget p ''value'' = JNull) points)"

definition mean :: "rat list \<Rightarrow> rat" where
  "mean vs = sum_list vs / of_nat (length vs)"

definition computeStats :: "fields list \<Rightarrow> string \<Rightarrow> series_stats" where
  "computeStats points field =
     (let vs = stat_values points field; errors = stat_errors points in
      if vs = [] then
        \<lparr>ss_last = None, ss_avg = None, ss_min = None, ss_max = None, ss_p95 = None, ss_stddev = None, ss_count = 0, ss_errors = errors\<rparr>
      else let xs = sort vs; avg = mean vs in
        \<lparr>ss_last = Some (last vs), ss_avg = Some avg, ss_min = Some (hd xs), ss_max = Some (last xs),
         ss_p95 = percentile xs (95 / 100), ss_stddev = Some (sqrt (of_rat (mean (map (\<lambda>v. (v - avg) * (v - avg)) vs)))),
         ss_count = length vs, ss_errors = errors\<rparr>)"

definition pointsInRange :: "fields list \<Rightarrow> jsval \<Rightarrow> fields list" where
  "pointsInRange points window =
     (if \<not> truthy window \<or> nullish (jget window ''min'') \<or> nullish (jget window ''max'') then points
      else filter (\<lambda>p. let t = date_parse (fget p ''timestamp'') in
        num_le (number_of (jget window ''min'')) t \<and> num_le t (number_of (jget window ''max''))) points)"

section \<open>Counters and units\<close>

definition COUNTER32_MAX :: rat where "COUNTER32_MAX = 2 ^ 32"
definition COUNTER64_MAX :: rat where "COUNTER64_MAX = 2 ^ 64"

text \<open>The expressions with \<open>/i\<close> are plain words, looked for whatever the case.\<close>

definition says_any :: "string list \<Rightarrow> string \<Rightarrow> bool" where
  "says_any words s \<longleftrightarrow> list_ex (\<lambda>w. indexOf (toLowerCase s) w 0 \<noteq> None) words"

definition isCounterType :: "string \<Rightarrow> bool" where
  "isCounterType t = says_any [''counter''] t"

definition counterModulus :: "string \<Rightarrow> rat" where
  "counterModulus t = (if says_any [''64''] t then COUNTER64_MAX else COUNTER32_MAX)"

definition correctedDelta :: "rat \<Rightarrow> rat \<Rightarrow> string \<Rightarrow> rat option" where
  "correctedDelta prev value t =
     (let d = value - prev; m = counterModulus t; wrapped = d + m in
      if d \<ge> 0 then Some d else if \<not> isCounterType t then Some d
      else if wrapped > 0 \<and> wrapped < m / 2 then Some wrapped else None)"

definition elapsedSeconds :: "jsval \<Rightarrow> jsval \<Rightarrow> rat option" where
  "elapsedSeconds prev now = (case num_diff (date_value now) (date_value prev) of
     None \<Rightarrow> None | Some ms \<Rightarrow> if ms / 1000 > 0 then Some (ms / 1000) else None)"

definition DECIMAL :: "string list" where "DECIMAL = [[], ''k'', ''M'', ''G'', ''T'', ''P'']"
definition BINARY :: "string list" where "BINARY = [''B'', ''KiB'', ''MiB'', ''GiB'', ''TiB'', ''PiB'']"

text \<open>The number once divided, and the step it is written with.\<close>

fun scale_down :: "rat \<Rightarrow> nat \<Rightarrow> string list \<Rightarrow> rat \<Rightarrow> rat \<times> nat" where
  "scale_down n i (a # b # r) divisor = (if n \<ge> divisor then scale_down (n / divisor) (Suc i) (b # r) divisor else (n, i))"
| "scale_down n i _ divisor = (n, i)"

definition scale :: "rat \<Rightarrow> string list \<Rightarrow> rat \<Rightarrow> string \<Rightarrow> nat \<Rightarrow> string" where
  "scale value steps divisor ending digits =
     (let sign = (if value < 0 then ''-'' else []); (n, i) = scale_down \<bar>value\<bar> 0 steps divisor;
          shown = (if i = 0 \<and> is_int n then show_num n else to_fixed digits n)
      in sign @ shown @ '' '' @ steps ! i @ ending)"

definition split_ticks :: "nat \<Rightarrow> nat \<times> nat \<times> nat \<times> nat" where
  "split_ticks s = (s div 86400, s mod 86400 div 3600, s mod 86400 mod 3600 div 60, s mod 86400 mod 3600 mod 60)"

definition ticks_text :: "rat option \<Rightarrow> string" where
  "ticks_text ticks = (case ticks of None \<Rightarrow> DASH | Some t \<Rightarrow>
     (let (d, h, m, s) = split_ticks (nat \<lfloor>\<bar>t\<bar> / 100\<rfloor>) in
      if d \<noteq> 0 then show_nat d @ ''j '' @ show_nat h @ ''h '' @ show_nat m @ ''m''
      else if h \<noteq> 0 then show_nat h @ ''h '' @ show_nat m @ ''m '' @ show_nat s @ ''s''
      else if m \<noteq> 0 then show_nat m @ ''m '' @ show_nat s @ ''s''
      else show_nat s @ ''s''))"

definition OCTET_WORDS :: "string list" where "OCTET_WORDS = [''octets'', ''bytes'', ''bandwidth'']"
definition PERCENT_WORDS :: "string list" where "PERCENT_WORDS = [''percent'', ''pct'', ''utili'', ''usage'', ''load'']"

definition or_dash :: "(rat \<Rightarrow> string) \<Rightarrow> rat option \<Rightarrow> string" where
  "or_dash f v = (case v of None \<Rightarrow> DASH | Some q \<Rightarrow> f q)"

text \<open>The label and the function that writes a value, \<open>None\<close> for no value.\<close>

definition inferUnit :: "string \<Rightarrow> string \<Rightarrow> string \<Rightarrow> string \<times> (rat option \<Rightarrow> string)" where
  "inferUnit name snmpType mode =
     (if mode = ''latency'' then (''ms'', or_dash (\<lambda>v. to_fixed 0 v @ '' ms''))
      else if says_any [''timeticks''] snmpType \<and> mode = ''raw'' then (''dur'' @ CHR 0xE9 # ''e'', ticks_text)
      else if says_any OCTET_WORDS name then
        (if mode = ''rate'' then (''bit/s'', or_dash (\<lambda>v. scale (v * 8) DECIMAL 1000 ''bit/s'' 1))
         else (''octets'', or_dash (\<lambda>v. scale v BINARY 1024 [] 1)))
      else if says_any PERCENT_WORDS name \<and> mode = ''raw'' then (''%'', or_dash (\<lambda>v. to_fixed 1 v @ '' %''))
      else if mode = ''rate'' then (''/s'', or_dash (\<lambda>v. scale v DECIMAL 1000 ''/s'' 2))
      else ([], or_dash (\<lambda>v. scale v DECIMAL 1000 [] 1)))"

section \<open>Formatting\<close>

definition formatDuration :: "rat \<Rightarrow> string" where
  "formatDuration ms = (if ms < 1000 then show_num ms @ ''ms'' else to_fixed 2 (ms / 1000) @ ''s'')"

text \<open>\<open>Number(q.toFixed(f))\<close>, as text.\<close>

definition rounded :: "nat \<Rightarrow> rat \<Rightarrow> string" where
  "rounded f q = (case read_decimal (to_fixed f q) of Some r \<Rightarrow> show_num r | None \<Rightarrow> ''NaN'')"

definition formatCadence :: "jsval \<Rightarrow> string" where
  "formatCadence ms = (case number_of ms of
     None \<Rightarrow> DASH
   | Some n \<Rightarrow> (let s = n / 1000; m = s / 60 in
       if n < 1000 then show_int (js_round n) @ '' ms''
       else if s < 60 then rounded (if s < 10 then 1 else 0) s @ '' s''
       else if m < 60 then rounded (if m < 10 then 1 else 0) m @ '' min''
       else rounded 1 (m / 60) @ '' h''))"

definition show_val :: "jsval \<Rightarrow> string" where
  "show_val v = (case v of JNum q \<Rightarrow> show_num q | JStr s \<Rightarrow> s | JNull \<Rightarrow> ''null'' | JUndef \<Rightarrow> ''undefined''
     | JBool b \<Rightarrow> (if b then ''true'' else ''false'') | _ \<Rightarrow> [])"

definition join_spaces :: "string list \<Rightarrow> string" where
  "join_spaces = join_with CHR '' ''"

definition formatTimeTicks :: "jsval \<Rightarrow> string" where
  "formatTimeTicks centi = (case (if nullish centi then None else number_of centi) of
     None \<Rightarrow> show_val centi
   | Some q \<Rightarrow>
       (if \<lfloor>q / 100\<rfloor> < 0 then show_val centi
        else let (d, h, m, s) = split_ticks (nat \<lfloor>q / 100\<rfloor>) in
          join_spaces ((if d > 0 then [show_nat d @ ''d''] else []) @
            (if h > 0 \<or> d > 0 then [show_nat h @ ''h''] else []) @
            (if m > 0 \<or> h > 0 \<or> d > 0 then [show_nat m @ ''m''] else []) @ [show_nat s @ ''s''])))"

text \<open>\<open>toLocaleString\<close> groups the digits as the machine's locale does.\<close>

definition formatLargeNumber :: "(rat \<Rightarrow> string) \<Rightarrow> jsval \<Rightarrow> string" where
  "formatLargeNumber toLocale num = (case (if nullish num then None else number_of num) of
     None \<Rightarrow> show_val num | Some q \<Rightarrow> toLocale q)"

definition formatBySnmpType :: "(rat \<Rightarrow> string) \<Rightarrow> jsval \<Rightarrow> jsval \<Rightarrow> string option" where
  "formatBySnmpType toLocale value snmpType =
     (if nullish value \<or> nullish snmpType then None
      else case number_of value of None \<Rightarrow> None
      | Some q \<Rightarrow>
          if snmpType = JStr ''TimeTicks''
          then Some (formatTimeTicks (JNum q) @ '' ('' @ formatLargeNumber toLocale (JNum q) @ '')'')
          else if \<bar>q\<bar> \<ge> 10000 then Some (formatLargeNumber toLocale (JNum q)) else None)"

section \<open>Series that are told apart\<close>

lemma plan_stacked:
  "map si_color (plan_from True s n oids) = [n..<n + length (plan_from True s n oids)]"
proof (induction oids arbitrary: n)
  case (Cons oid oids)
  have "map si_color (map (\<lambda>(idx, target). series_item_of oid target (n + idx)) (List.enumerate 0 ts)) = [n..<n + length ts]" for ts
    by (rule nth_equalityI) (simp_all add: nth_enumerate_eq series_item_of_def)
  moreover have "[n..<n + (a + b)] = [n..<n + a] @ [n + a..<n + a + b]" for a b
    by (metis add.assoc upt_add_eq_append le_add1)
  ultimately show ?case using Cons.IH[of "n + length (targetsFor s oid)"] by (simp add: Let_def del: map_map)
qed simp

lemma plan_oid:
  "distinct oids \<Longrightarrow> filter (\<lambda>x. si_oid x = oid) (plan_from False s n oids) =
     (if oid \<in> set oids then map (\<lambda>(i, t). series_item_of oid t i) (List.enumerate 0 (targetsFor s oid)) else [])"
proof (induction oids arbitrary: n)
  case (Cons oid' oids)
  have "filter (\<lambda>x. si_oid x = oid) (map (\<lambda>(i, t). series_item_of oid' t i) es) =
      (if oid' = oid then map (\<lambda>(i, t). series_item_of oid' t i) es else [])" for es
    by (induction es) (auto simp: series_item_of_def)
  with Cons show ?case by (auto simp: Let_def)
qed simp

lemma enumerate_colors: "map si_color (map (\<lambda>(i, t). series_item_of oid t i) (List.enumerate 0 ts)) = [0..<length ts]"
  by (rule nth_equalityI) (simp_all add: nth_enumerate_eq series_item_of_def)

lemma capped_color: "x \<in> set (plan_from b s n oids) \<Longrightarrow> si_capped x \<longleftrightarrow> si_color x \<ge> MAX_SERIES"
  by (induction b s n oids rule: plan_from.induct) (auto simp: Let_def series_item_of_def in_set_enumerate_eq)

lemma palette_distinct: "i < MAX_SERIES \<Longrightarrow> j < MAX_SERIES \<Longrightarrow> seriesColor i dark = seriesColor j dark \<Longrightarrow> i = j"
proof -
  have d: "distinct (palette dark)" "length (palette dark) = 8" by (cases dark; simp add: palette_def DARK_def LIGHT_def)+
  have m: "MAX_SERIES = 8" by (simp add: MAX_SERIES_def LIGHT_def)
  assume "i < MAX_SERIES" "j < MAX_SERIES" "seriesColor i dark = seriesColor j dark"
  then show ?thesis using d by (simp add: m seriesColor_def nth_eq_iff_index_eq)
qed

lemma color_inject:
  assumes "distinct (map si_color (filter P xs))" "a \<in> set xs" "b \<in> set xs" "P a" "P b" "a \<noteq> b"
  shows "si_color a \<noteq> si_color b"
  using assms by (auto simp: distinct_map dest: inj_onD)

text \<open>
  Two series that the palette can hold never share a colour where they could be confused: among
  all series on one stacked chart, and among the targets of one OID on separate charts.
\<close>

theorem series_are_told_apart:
  assumes "a \<in> set (fst (seriesPlan s layout oids))" "b \<in> set (fst (seriesPlan s layout oids))" "a \<noteq> b"
    and "\<not> si_capped a" "\<not> si_capped b" "layout = ''stacked'' \<or> si_oid a = si_oid b"
  shows "seriesColor (si_color a) dark \<noteq> seriesColor (si_color b) dark"
proof -
  let ?p = "plan_from (layout = ''stacked'') s 0 (oids_wanted s oids)"
  have ab: "a \<in> set ?p" "b \<in> set ?p" using assms by (simp_all add: seriesPlan_def Let_def)
  have "si_color a \<noteq> si_color b"
  proof (cases "layout = ''stacked''")
    case True
    have "distinct (map si_color (filter (\<lambda>_. True) ?p))" using True plan_stacked[of s 0] by simp
    from color_inject[OF this ab] assms(3) show ?thesis by simp
  next
    case False
    have "distinct (oids_wanted s oids)" by (simp add: oids_wanted_def Let_def)
    then have "distinct (map si_color (filter (\<lambda>x. si_oid x = si_oid a) ?p))"
      using False by (simp add: plan_oid enumerate_colors del: map_map)
    from color_inject[OF this ab] assms False show ?thesis by simp
  qed
  moreover have "si_color a < MAX_SERIES" "si_color b < MAX_SERIES"
    using ab[THEN capped_color] assms(4,5) by simp_all
  ultimately show ?thesis using palette_distinct by blast
qed

definition two_series :: "fields list \<Rightarrow> session" where
  "two_series results = (sessionFromBackend (JObj []) [])\<lparr>s_oids := [''1'', ''2''], s_targets := [''h'', ''g''], s_results := results\<rparr>"

lemma two_series_simps:
  "oids_wanted (two_series rs) None = [''1'', ''2'']"
  "targetsFor (two_series []) oid = [JStr ''h'', JStr ''g'']"
  "targetsFor (two_series [[(''oid'', JStr ''1''), (''target'', JStr ''h'')]]) ''1'' = [JStr ''h'']"
  "targetsFor (two_series [[(''oid'', JStr ''1''), (''target'', JStr ''h'')]]) ''2'' = [JStr ''h'', JStr ''g'']"
  by (simp_all add: oids_wanted_def two_series_def targetsFor_def dedup_def fget_lookup jor_def)

theorem series_are_told_apart_witness:
  "seriesColor (si_color (series_item_of ''1'' (JStr ''g'') 1)) True \<noteq> seriesColor (si_color (series_item_of ''2'' (JStr ''h'') 2)) True"
  by (rule series_are_told_apart[where s = "two_series []" and layout = "''stacked''" and oids = None])
    (simp_all add: seriesPlan_def two_series_simps series_item_of_def MAX_SERIES_def LIGHT_def)

text \<open>When the first reading of another OID arrives, a series of a stacked chart changes colour.\<close>

lemma colour_moves_with_data:
  "map si_color (filter (\<lambda>x. si_key x = ''h|2'') (fst (seriesPlan (two_series []) ''stacked'' None))) = [2]"
  "map si_color (filter (\<lambda>x. si_key x = ''h|2'')
     (fst (seriesPlan (two_series [[(''oid'', JStr ''1''), (''target'', JStr ''h'')]]) ''stacked'' None))) = [1]"
  by (simp_all add: seriesPlan_def two_series_simps series_item_of_def seriesKey_def)

section \<open>Episodes\<close>

fun breach_run :: "jsval \<Rightarrow> breach option \<Rightarrow> fields list \<Rightarrow> alert option list" where
  "breach_run threshold br [] = []"
| "breach_run threshold br (s # ss) = (let (br', a) = evaluateBreach br s threshold in a # breach_run threshold br' ss)"

definition ms_at :: "fields \<Rightarrow> rat" where
  "ms_at s = the (date_parse (fget s ''timestamp''))"

definition outside :: "jsval \<Rightarrow> string \<Rightarrow> rat option \<Rightarrow> fields \<Rightarrow> bool" where
  "outside threshold kind bound s \<longleftrightarrow>
     classify (fget s ''value'') threshold = Some (kind, bound) \<and> date_parse (fget s ''timestamp'') \<noteq> None"

definition too_short :: "jsval \<Rightarrow> rat \<Rightarrow> fields \<Rightarrow> bool" where
  "too_short threshold start s \<longleftrightarrow> ms_at s - start < for_seconds threshold * 1000"

definition alert_of :: "jsval \<Rightarrow> string \<Rightarrow> rat option \<Rightarrow> rat \<Rightarrow> fields \<Rightarrow> alert" where
  "alert_of threshold kind bound start s =
     \<lparr>al_kind = kind, al_bound = bound, al_forSeconds = for_seconds threshold,
      al_heldSeconds = Some (js_round ((ms_at s - start) / 1000))\<rparr>"

lemma outside_step:
  assumes "outside threshold kind bound s"
  shows "evaluateBreach br s threshold =
    (let current = current_breach br kind (Some (ms_at s)); held = num_diff (Some (ms_at s)) (br_start current) in
     if num_less held (Some (for_seconds threshold * 1000)) \<or> br_fired current then (Some current, None)
     else (Some (current\<lparr>br_fired := True\<rparr>),
       Some \<lparr>al_kind = kind, al_bound = bound, al_forSeconds = for_seconds threshold,
             al_heldSeconds = map_option (\<lambda>h. js_round (h / 1000)) held\<rparr>))"
  using assms by (auto simp: outside_def evaluateBreach_def ms_at_def Let_def)

lemma fired_stays_silent:
  assumes "\<And>s. s \<in> set ss \<Longrightarrow> outside threshold kind bound s"
  shows "breach_run threshold (Some \<lparr>br_kind = kind, br_start = st, br_fired = True\<rparr>) ss = map (\<lambda>_. None) ss"
  using assms
proof (induction ss)
  case (Cons s ss)
  then have "outside threshold kind bound s" by simp
  from Cons outside_step[OF this] show ?case by (simp add: current_breach_def Let_def)
qed simp

lemma episode_from:
  assumes "\<And>s. s \<in> set ss \<Longrightarrow> outside threshold kind bound s"
  shows "breach_run threshold (Some \<lparr>br_kind = kind, br_start = Some t, br_fired = False\<rparr>) ss =
    map (\<lambda>_. None) (takeWhile (too_short threshold t) ss) @
    (case dropWhile (too_short threshold t) ss of [] \<Rightarrow> []
     | s # r \<Rightarrow> Some (alert_of threshold kind bound t s) # map (\<lambda>_. None) r)"
  using assms
proof (induction ss)
  case (Cons s ss)
  then have out: "outside threshold kind bound s" by simp
  show ?case
  proof (cases "too_short threshold t s")
    case True
    with Cons show ?thesis by (simp add: outside_step[OF out] current_breach_def too_short_def)
  next
    case False
    with Cons.prems fired_stays_silent[of ss threshold kind bound "Some t"] show ?thesis
      by (simp add: outside_step[OF out] current_breach_def too_short_def alert_of_def)
  qed
qed simp

text \<open>
  C23. An episode outside the band, from its first sample, alerts exactly once: at the first sample
  that has held for the configured time, with how long it has held, and never if none has. A sample
  back in the band ends the episode.
\<close>

theorem episode_alerts_once:
  assumes "\<forall>s \<in> set (s0 # ss). outside threshold kind bound s" "\<forall>b. br = Some b \<longrightarrow> br_kind b \<noteq> kind"
  shows "breach_run threshold br (s0 # ss) =
      map (\<lambda>_. None) (takeWhile (too_short threshold (ms_at s0)) (s0 # ss)) @
      (case dropWhile (too_short threshold (ms_at s0)) (s0 # ss) of [] \<Rightarrow> []
       | s # r \<Rightarrow> Some (alert_of threshold kind bound (ms_at s0) s) # map (\<lambda>_. None) r) \<and>
    (classify (fget s ''value'') threshold = None \<longrightarrow> evaluateBreach br' s threshold = (None, None))"
proof -
  have c: "current_breach br kind (Some (ms_at s0)) = \<lparr>br_kind = kind, br_start = Some (ms_at s0), br_fired = False\<rparr>"
    using assms(2) by (auto simp: current_breach_def split: option.split)
  have out: "outside threshold kind bound s0" using assms(1) by simp
  have "evaluateBreach br s0 threshold = evaluateBreach (Some \<lparr>br_kind = kind, br_start = Some (ms_at s0), br_fired = False\<rparr>) s0 threshold"
    unfolding outside_step[OF out] c by (simp add: current_breach_def)
  then have "breach_run threshold br (s0 # ss) =
      breach_run threshold (Some \<lparr>br_kind = kind, br_start = Some (ms_at s0), br_fired = False\<rparr>) (s0 # ss)" by simp
  moreover have "evaluateBreach br' s threshold = (None, None)" if "classify (fget s ''value'') threshold = None"
    using that by (simp add: evaluateBreach_def)
  ultimately show ?thesis using episode_from[of "s0 # ss" threshold kind bound "ms_at s0"] assms(1) by simp
qed

definition out_sample :: "string \<Rightarrow> rat \<Rightarrow> fields" where
  "out_sample sec v = [(''value'', JNum v), (''timestamp'', JStr (''1970-01-01T00:00:'' @ sec @ ''Z''))]"

lemma epoch_parts:
  "day_ms ''1970-01-01T00:00:00Z'' = Some 0" "time_ms ''1970-01-01T00:00:00Z'' = Some 0"
  "day_ms ''1970-01-01T00:00:30Z'' = Some 0" "time_ms ''1970-01-01T00:00:30Z'' = Some 30000"
  "zone_offset ''Z'' = Some 0" "millis [] = 0" "char_at 0 CHR ''.'' ''Z'' = False"
  by (simp_all add: date_eval)

lemma out_sample_time: "date_parse (fget (out_sample ''00'' v) ''timestamp'') = Some 0"
    "date_parse (fget (out_sample ''30'' v) ''timestamp'') = Some 30000"
  by (simp_all add: out_sample_def fget_lookup date_parse_def epoch_parts)

definition over_five :: jsval where
  "over_five = JObj [(''max'', JNum 5), (''forSeconds'', JNum 30)]"

lemma over_five: "v > 5 \<Longrightarrow> classify (JNum v) over_five = Some (''above'', Some 5)" "for_seconds over_five = 30"
  by (simp_all add: classify_def over_five_def fget_lookup bound_set_def nullish_def Let_def for_seconds_def number_or_def)

theorem episode_alerts_once_witness:
  "breach_run over_five None [out_sample ''00'' 7, out_sample ''30'' 9] =
     [None, Some (alert_of over_five ''above'' (Some 5) 0 (out_sample ''30'' 9))]"
proof -
  have v: "fget (out_sample t v) ''value'' = JNum v" for t v by (simp add: out_sample_def fget_lookup)
  have m: "ms_at (out_sample ''00'' v) = 0" "ms_at (out_sample ''30'' v) = 30000" for v
    by (simp_all add: ms_at_def out_sample_time)
  have "\<forall>s \<in> set [out_sample ''00'' 7, out_sample ''30'' 9]. outside over_five ''above'' (Some 5) s"
    by (simp add: outside_def out_sample_time v over_five)
  from episode_alerts_once[OF this, of None] show ?thesis by (simp add: too_short_def m over_five)
qed

section \<open>Counters\<close>

lemma modulus_pos: "counterModulus t = of_int (if says_any [''64''] t then 2 ^ 64 else 2 ^ 32)"
  by (simp add: counterModulus_def COUNTER64_MAX_def COUNTER32_MAX_def)

text \<open>
  From two readings of a counter that wraps at its width the change is recovered exactly whenever
  less than half the width went by between them; a decrease of anything else is shown as it is.
\<close>

theorem wrap_is_undone:
  assumes "isCounterType t" "M = (if says_any [''64''] t then 2 ^ 64 else 2 ^ 32 :: int)" "0 \<le> d" "d < M div 2"
  shows "correctedDelta (of_int (n mod M)) (of_int ((n + d) mod M)) t = Some (of_int d)"
proof -
  have M: "counterModulus t = of_int M" "0 < M" "2 * (M div 2) = M" using assms(2) by (simp_all add: modulus_pos)
  define a where "a = n mod M"
  have a: "0 \<le> a" "a < M" and s: "(n + d) mod M = (a + d) mod M" using M(2) by (simp_all add: a_def mod_add_left_eq)
  show ?thesis
  proof (cases "a + d < M")
    case True
    then have "(a + d) mod M = a + d" using a assms(3) by simp
    then show ?thesis using assms(3) by (simp add: correctedDelta_def s a_def[symmetric] Let_def)
  next
    case False
    have "(a + d) mod M = (a + d - M) mod M" by (metis mod_add_self2 diff_add_cancel)
    also have "\<dots> = a + d - M" using False a assms(4) M by (intro mod_pos_pos_trivial) linarith+
    finally have e: "(a + d) mod M = a + d - M" .
    have d: "d - M < 0" "0 < d" "2 * d < M" using False a assms(3,4) M by linarith+
    have "(of_int d < (of_int M :: rat) / 2) \<longleftrightarrow> of_int (2 * d) < (of_int M :: rat)" by (simp add: field_simps)
    then have r: "(of_int (a + d - M) :: rat) - of_int a = of_int (d - M)" "(of_int (d - M) :: rat) + of_int M = of_int d"
      "(of_int d < (of_int M :: rat) / 2) = (2 * d < M)"
      unfolding of_int_less_iff by simp_all
    show ?thesis unfolding correctedDelta_def s a_def[symmetric] e M(1) Let_def r using d assms(1) by simp
  qed
qed

theorem wrap_is_undone_witness: "correctedDelta (of_int 4294967290) (of_int 4) ''Counter32'' = Some (of_int 10)"
proof -
  have c: "isCounterType ''Counter32''" "\<not> says_any [''64''] ''Counter32''" by code_simp+
  from wrap_is_undone[OF c(1) refl, of 10 4294967290] c(2) show ?thesis by simp
qed

section \<open>Statistics in order\<close>

lemma mean_bounds:
  assumes "vs \<noteq> []" "\<And>v. v \<in> set vs \<Longrightarrow> a \<le> v" "\<And>v. v \<in> set vs \<Longrightarrow> v \<le> b"
  shows "a \<le> mean vs \<and> mean vs \<le> b"
proof -
  have "of_nat (length vs) * a \<le> sum_list vs \<and> sum_list vs \<le> of_nat (length vs) * b"
    using assms(2,3) by (induction vs) (auto simp: algebra_simps intro: add_mono)
  moreover have "(0 :: rat) < of_nat (length vs)" using assms(1) by simp
  ultimately show ?thesis by (simp add: mean_def field_simps)
qed

lemma percentile_bounds:
  assumes "xs \<noteq> []" "sorted xs" "0 \<le> p" "p \<le> 1"
  shows "\<exists>q. percentile xs p = Some q \<and> hd xs \<le> q \<and> q \<le> last xs"
proof (cases "length xs = 1")
  case True
  then show ?thesis using assms(1) by (cases xs) (auto simp: percentile_def)
next
  case False
  let ?n = "length xs - 1"
  define idx where "idx = of_nat ?n * p"
  have idx: "0 \<le> idx" "idx \<le> of_nat ?n" using assms(3,4) by (simp_all add: idx_def mult_left_le)
  define lo hi where "lo = nat \<lfloor>idx\<rfloor>" and "hi = nat \<lceil>idx\<rceil>"
  have "\<lceil>idx\<rceil> \<le> int ?n" using idx(2) by (simp add: ceiling_le_iff)
  then have h: "hi \<le> ?n" by (simp add: hi_def)
  have l: "lo \<le> hi" using floor_le_ceiling[of idx] by (simp add: lo_def hi_def nat_mono)
  have n: "hi < length xs" "lo < length xs" using h l False assms(1) by (cases xs; simp)+
  have m: "hd xs \<le> xs ! lo" "xs ! lo \<le> xs ! hi" "xs ! hi \<le> last xs"
    using sorted_nth_mono[OF assms(2), of 0 lo] sorted_nth_mono[OF assms(2), of lo hi]
      sorted_nth_mono[OF assms(2), of hi ?n] n l h assms(1) by (simp_all add: hd_conv_nth last_conv_nth)
  define w where "w = idx - of_nat lo"
  have lo: "of_nat lo = (of_int \<lfloor>idx\<rfloor> :: rat)" using idx(1) by (simp add: lo_def)
  have w: "0 \<le> w" "w \<le> 1" unfolding w_def lo by (simp_all add: diff_le_eq, linarith)
  have "0 \<le> (xs ! hi - xs ! lo) * w \<and> (xs ! hi - xs ! lo) * w \<le> xs ! hi - xs ! lo"
    using w m(2) by (simp add: mult_left_le)
  then show ?thesis using m assms(1) False
    unfolding percentile_def Let_def idx_def[symmetric] lo_def[symmetric] hi_def[symmetric] w_def[symmetric] by auto
qed

text \<open>
  Whatever points and field the statistics are asked of, they are there together or not at all,
  they count the usable values, and the average and the 95th percentile lie between the minimum and the
  maximum, which are values of the series, as the last one is.
\<close>

theorem stats_in_order:
  "let vs = stat_values points field; r = computeStats points field in
    ss_count r = length vs \<and> ss_errors r \<le> length points \<and>
    (if vs = [] then ss_last r = None \<and> ss_avg r = None \<and> ss_min r = None \<and> ss_max r = None \<and> ss_p95 r = None \<and> ss_stddev r = None
     else \<exists>lst lo hi avg p dev. ss_last r = Some lst \<and> ss_min r = Some lo \<and> ss_max r = Some hi \<and> ss_avg r = Some avg \<and>
       ss_p95 r = Some p \<and> ss_stddev r = Some dev \<and> {lst, lo, hi} \<subseteq> set vs \<and> lo = Min (set vs) \<and> hi = Max (set vs) \<and>
       lo \<le> avg \<and> avg \<le> hi \<and> lo \<le> p \<and> p \<le> hi \<and> 0 \<le> dev)"
proof (cases "stat_values points field = []")
  case True
  then show ?thesis by (simp add: computeStats_def Let_def stat_errors_def)
next
  case False
  define vs where "vs = stat_values points field"
  have vs: "vs \<noteq> []" "sort vs \<noteq> []" using False by (simp_all add: vs_def) (metis sort_key_simps(1) mset.simps(1) mset_sort mset_zero_iff)
  have mn: "hd (sort vs) = Min (set vs)" 
    using vs sorted_nth_mono[OF sorted_sort[of vs], of 0]
    by (intro Min_eqI[symmetric]) (auto simp: hd_conv_nth in_set_conv_nth[of _ "sort vs", simplified])
  have mx: "last (sort vs) = Max (set vs)"
  proof (rule Max_eqI[symmetric])
    show "last (sort vs) \<in> set vs" using last_in_set[OF vs(2)] by simp
    show "v \<le> last (sort vs)" if "v \<in> set vs" for v
    proof -
      from that obtain i where "i < length (sort vs)" "v = sort vs ! i" by (metis in_set_conv_nth set_sort)
      then show ?thesis using sorted_nth_mono[OF sorted_sort[of vs], of i "length vs - 1"] vs
        by (simp add: last_conv_nth)
    qed
  qed simp
  obtain p where p: "percentile (sort vs) (95 / 100) = Some p" "Min (set vs) \<le> p" "p \<le> Max (set vs)"
    using percentile_bounds[OF vs(2) sorted_sort, of "95 / 100"] unfolding mn mx by auto
  have a: "Min (set vs) \<le> mean vs \<and> mean vs \<le> Max (set vs)" by (rule mean_bounds) (use vs in simp_all)
  have "0 \<le> mean (map (\<lambda>v. (v - mean vs) * (v - mean vs)) vs)"
    unfolding mean_def by (intro divide_nonneg_nonneg sum_list_nonneg) auto
  then have s: "0 \<le> sqrt (of_rat (mean (map (\<lambda>v. (v - mean vs) * (v - mean vs)) vs)))" by simp
  show ?thesis unfolding computeStats_def Let_def vs_def[symmetric]
    using vs(1) p a s mn mx by (simp add: stat_errors_def)
qed

end
