(* ===== verification/Editor_Drafts.thy ===== *)
theory Editor_Drafts
  imports Js_Value Js_Text
begin

text \<open>
  The MIB editor's store, \<open>frontend/src/stores/mibEditorStore.js\<close>, and the drafts it keeps on disk.
  Each point where the code waits for the bridge ends one operation and starts another, so that any
  other operation can come between: an \<open>open\<close> is first flushing, then reading the file, then reading
  its draft. The drafts are a map from their names to their texts; a write the bridge refuses leaves
  them as they are. The lemmas show that unsaved text is on disk or about to be, that an analysis is
  shown only for the text it describes, and where the store loses or brings back text.
\<close>

section \<open>Sources and drafts\<close>

record mib_source =
  src_name :: string
  src_path :: string
  src_external :: bool
  src_bundled :: bool
  src_content :: string
  src_sha :: string
  src_diagnostics :: "jsval list"

definition key_char :: "char \<Rightarrow> bool" where
  "key_char c \<longleftrightarrow> 65 \<le> code c \<and> code c \<le> 90 \<or> 97 \<le> code c \<and> code c \<le> 122 \<or> is_ascii_digit c \<or>
     c = CHR ''.'' \<or> c = CHR ''_'' \<or> c = CHR ''-''"

text \<open>\<open>replace(/[^A-Za-z0-9._-]+/g, '_')\<close>: each longest run becomes one underscore.\<close>

fun flatten_runs :: "bool \<Rightarrow> string \<Rightarrow> string" where
  "flatten_runs inrun [] = []"
| "flatten_runs inrun (c # s) =
     (if key_char c then c # flatten_runs False s
      else if inrun then flatten_runs True s else CHR ''_'' # flatten_runs True s)"

definition source_key :: "mib_source \<Rightarrow> string" where
  "source_key src = (if \<not> src_external src then src_name src
     else ''ext_'' @ flatten_runs False (if src_path src \<noteq> [] then src_path src else src_name src))"

definition draftKey :: "mib_source option \<Rightarrow> string" where
  "draftKey src = (case src of None \<Rightarrow> [] | Some f \<Rightarrow> source_key f)"

section \<open>The state\<close>

text \<open>
  \<open>draftTimer\<close> never goes back to nothing but in \<open>flushDraft\<close>: once set it holds the number of a
  timer that may have been cleared or have fired.
\<close>

datatype draft_timer = Unset | Spent | Waiting string

text \<open>An \<open>open\<close> under way, by what it waits for.\<close>

datatype open_call = Flushing string | ReadingFile string nat | ReadingDraft string nat mib_source

record editor =
  ed_source :: "mib_source option"
  ed_buffer :: string
  ed_diagnostics :: "jsval list"
  ed_missing :: "jsval list"
  ed_outline :: "jsval list"
  ed_checking :: bool
  ed_checkTimer :: bool
  ed_draftTimer :: draft_timer
  ed_token :: nat
  ed_asked :: "string list"
  ed_opens :: "open_call list"
  ed_drafts :: "string \<Rightarrow> string option"

definition ed_empty :: "editor \<Rightarrow> editor" where
  "ed_empty s = s\<lparr>ed_source := None, ed_buffer := [], ed_diagnostics := [], ed_missing := [], ed_outline := [], ed_checking := False\<rparr>"

definition ed_start :: "(string \<Rightarrow> string option) \<Rightarrow> editor" where
  "ed_start drafts = \<lparr>ed_source = None, ed_buffer = [], ed_diagnostics = [], ed_missing = [], ed_outline = [],
     ed_checking = False, ed_checkTimer = False, ed_draftTimer = Unset, ed_token = 0, ed_asked = [], ed_opens = [],
     ed_drafts = drafts\<rparr>"

definition isDirty :: "editor \<Rightarrow> bool" where
  "isDirty s \<longleftrightarrow> ed_source s \<noteq> None \<and> ed_buffer s \<noteq> src_content (the (ed_source s))"

section \<open>Drafts\<close>

definition clear_draft_timer :: "editor \<Rightarrow> editor" where
  "clear_draft_timer s = (if ed_draftTimer s = Unset then s else s\<lparr>ed_draftTimer := Spent\<rparr>)"

text \<open>\<open>MibEditorSaveDraft\<close> and \<open>MibEditorDiscardDraft\<close>, when the bridge does them.\<close>

definition save_draft :: "bool \<Rightarrow> string \<Rightarrow> string \<Rightarrow> editor \<Rightarrow> editor" where
  "save_draft done key txt s = (if done then s\<lparr>ed_drafts := (ed_drafts s)(key \<mapsto> txt)\<rparr> else s)"

definition drop_draft :: "bool \<Rightarrow> string \<Rightarrow> editor \<Rightarrow> editor" where
  "drop_draft done key s = (if done then s\<lparr>ed_drafts := (ed_drafts s)(key := None)\<rparr> else s)"

definition settle_draft :: "bool \<Rightarrow> editor \<Rightarrow> editor" where
  "settle_draft done s =
     (if isDirty s then save_draft done (draftKey (ed_source s)) (ed_buffer s) s
      else drop_draft done (draftKey (ed_source s)) s)"

definition scheduleDraft :: "editor \<Rightarrow> editor" where
  "scheduleDraft s = (case ed_source s of None \<Rightarrow> clear_draft_timer s | Some f \<Rightarrow> s\<lparr>ed_draftTimer := Waiting (source_key f)\<rparr>)"

definition draft_timer_fires :: "bool \<Rightarrow> editor \<Rightarrow> editor" where
  "draft_timer_fires done s = (case ed_draftTimer s of
     Waiting key \<Rightarrow>
       (let s' = s\<lparr>ed_draftTimer := Spent\<rparr> in
        if ed_source s = None \<or> draftKey (ed_source s) \<noteq> key then s' else settle_draft done s')
   | _ \<Rightarrow> s)"

definition flushDraft :: "bool \<Rightarrow> editor \<Rightarrow> editor" where
  "flushDraft done s =
     (if ed_draftTimer s = Unset then s
      else let s' = s\<lparr>ed_draftTimer := Unset\<rparr> in if ed_source s = None then s' else settle_draft done s')"

definition discardDraft :: "bool \<Rightarrow> string \<Rightarrow> editor \<Rightarrow> editor" where
  "discardDraft done name s =
     (let s' = clear_draft_timer s in if name = [] then s' else drop_draft done name s')"

text \<open>\<open>beforeunload\<close> and \<open>pagehide\<close>.\<close>

definition flush_on_leave :: "bool \<Rightarrow> editor \<Rightarrow> editor" where
  "flush_on_leave done s = (if isDirty s then flushDraft done s else s)"

section \<open>Analysing\<close>

definition ask_analysis :: "editor \<Rightarrow> editor" where
  "ask_analysis s = s\<lparr>ed_asked := ed_buffer s # ed_asked s\<rparr>"

text \<open>The answer to one of the analyses under way, \<open>None\<close> when it failed.\<close>

definition analysis_shown :: "string \<Rightarrow> jsval option \<Rightarrow> editor \<Rightarrow> editor" where
  "analysis_shown asked ans s = (case ans of None \<Rightarrow> s
     | Some out \<Rightarrow> (if ed_buffer s \<noteq> asked then s
         else s\<lparr>ed_diagnostics := elems (jget out ''diagnostics''), ed_missing := elems (jget out ''missing''),
                ed_outline := elems (jget out ''outline'')\<rparr>))"

definition analysis_answers :: "string \<Rightarrow> jsval option \<Rightarrow> editor \<Rightarrow> editor" where
  "analysis_answers asked ans s =
     (if asked \<notin> set (ed_asked s) then s
      else let s' = (analysis_shown asked ans s)\<lparr>ed_asked := remove1 asked (ed_asked s)\<rparr>
        in if ed_asked s' = [] then s'\<lparr>ed_checking := False\<rparr> else s')"

definition scheduleRefresh :: "editor \<Rightarrow> editor" where
  "scheduleRefresh s = s\<lparr>ed_checkTimer := True\<rparr>"

definition check_timer_fires :: "editor \<Rightarrow> editor" where
  "check_timer_fires s = (if ed_checkTimer s then ask_analysis (s\<lparr>ed_checkTimer := False\<rparr>) else s)"

section \<open>Operations\<close>

definition setBuffer :: "string \<Rightarrow> editor \<Rightarrow> editor" where
  "setBuffer buffer s = scheduleDraft (scheduleRefresh (s\<lparr>ed_buffer := buffer, ed_checking := True\<rparr>))"

definition show_source :: "mib_source \<Rightarrow> string \<Rightarrow> editor \<Rightarrow> editor" where
  "show_source src buffer s = (ed_empty s)\<lparr>ed_source := Some src, ed_buffer := buffer, ed_diagnostics := src_diagnostics src\<rparr>"

definition open_begin :: "bool \<Rightarrow> string \<Rightarrow> editor \<Rightarrow> editor" where
  "open_begin done name s = (let s' = flushDraft done s in s'\<lparr>ed_opens := Flushing name # ed_opens s'\<rparr>)"

definition open_flushed :: "string \<Rightarrow> editor \<Rightarrow> editor" where
  "open_flushed name s =
     (if Flushing name \<notin> set (ed_opens s) then s
      else let token = Suc (ed_token s) in
        s\<lparr>ed_token := token, ed_opens := ReadingFile name token # remove1 (Flushing name) (ed_opens s)\<rparr>)"

definition open_read :: "string \<Rightarrow> nat \<Rightarrow> mib_source option \<Rightarrow> editor \<Rightarrow> editor" where
  "open_read name token ans s =
     (if ReadingFile name token \<notin> set (ed_opens s) then s
      else let s' = s\<lparr>ed_opens := remove1 (ReadingFile name token) (ed_opens s)\<rparr> in
        case ans of None \<Rightarrow> s'
        | Some src \<Rightarrow> (if token \<noteq> ed_token s then s'
            else s'\<lparr>ed_opens := ReadingDraft name token src # ed_opens s'\<rparr>))"

definition recovered :: "string option \<Rightarrow> mib_source \<Rightarrow> bool" where
  "recovered draft src \<longleftrightarrow> (case draft of None \<Rightarrow> False | Some d \<Rightarrow> d \<noteq> [] \<and> d \<noteq> src_content src)"

text \<open>The draft is read from the disk, unless the bridge refuses.\<close>

definition open_done :: "bool \<Rightarrow> string \<Rightarrow> nat \<Rightarrow> mib_source \<Rightarrow> editor \<Rightarrow> editor" where
  "open_done readable name token src s =
     (if ReadingDraft name token src \<notin> set (ed_opens s) then s
      else let s' = s\<lparr>ed_opens := remove1 (ReadingDraft name token src) (ed_opens s)\<rparr>;
               draft = (if readable then ed_drafts s name else None)
        in if token \<noteq> ed_token s then s'
           else ask_analysis (show_source src (if recovered draft src then the draft else src_content src) s'))"

definition openSource :: "bool \<Rightarrow> mib_source \<Rightarrow> editor \<Rightarrow> editor" where
  "openSource done src s =
     (let s' = clear_draft_timer (s\<lparr>ed_token := Suc (ed_token s)\<rparr>)
      in discardDraft done (draftKey (Some src)) (ask_analysis (show_source src (src_content src) s')))"

text \<open>Spreading \<open>null\<close> leaves a source with no name.\<close>

definition no_source :: mib_source where
  "no_source = \<lparr>src_name = [], src_path = [], src_external = False, src_bundled = False, src_content = [], src_sha = [],
     src_diagnostics = []\<rparr>"

definition saved_source :: "string \<Rightarrow> string \<Rightarrow> mib_source option \<Rightarrow> mib_source" where
  "saved_source content sha src =
     (case src of Some f \<Rightarrow> f | None \<Rightarrow> no_source)\<lparr>src_content := content, src_sha := sha, src_external := False\<rparr>"

definition markSaved :: "bool \<Rightarrow> string \<Rightarrow> jsval list option \<Rightarrow> string option \<Rightarrow> editor \<Rightarrow> editor" where
  "markSaved done sha diagnostics written s =
     (let content = (case written of Some w \<Rightarrow> w | None \<Rightarrow> ed_buffer s);
          s' = s\<lparr>ed_source := Some (saved_source content sha (ed_source s)),
                 ed_diagnostics := (case diagnostics of Some d \<Rightarrow> d | None \<Rightarrow> ed_diagnostics s)\<rparr>
      in if ed_source s \<noteq> None \<and> content = ed_buffer s then drop_draft done (draftKey (ed_source s)) s' else s')"

definition revert :: "bool \<Rightarrow> editor \<Rightarrow> editor" where
  "revert done s =
     (let key = draftKey (ed_source s);
          s' = (case ed_source s of None \<Rightarrow> s
                | Some f \<Rightarrow> s\<lparr>ed_buffer := src_content f, ed_diagnostics := src_diagnostics f\<rparr>)
      in discardDraft done key s')"

definition close_editor :: "editor \<Rightarrow> editor" where
  "close_editor s = ed_empty (clear_draft_timer (s\<lparr>ed_checkTimer := False\<rparr>))"

section \<open>What can happen next\<close>

datatype ed_event =
    Type string | CheckTimer | DraftTimer bool | Leave bool | Answer string "jsval option"
  | Open bool string | Flushed string | FileRead string nat "mib_source option" | DraftRead bool string nat mib_source
  | OpenSource bool mib_source | Saved bool string "jsval list option" "string option" | Revert bool | Discard bool string | Close

fun ed_step :: "ed_event \<Rightarrow> editor \<Rightarrow> editor" where
  "ed_step (Type b) s = setBuffer b s"
| "ed_step CheckTimer s = check_timer_fires s"
| "ed_step (DraftTimer ok) s = draft_timer_fires ok s"
| "ed_step (Leave ok) s = flush_on_leave ok s"
| "ed_step (Answer asked ans) s = analysis_answers asked ans s"
| "ed_step (Open ok name) s = open_begin ok name s"
| "ed_step (Flushed name) s = open_flushed name s"
| "ed_step (FileRead name tok ans) s = open_read name tok ans s"
| "ed_step (DraftRead ok name tok src) s = open_done ok name tok src s"
| "ed_step (OpenSource ok src) s = openSource ok src s"
| "ed_step (Saved ok sha ds w) s = markSaved ok sha ds w s"
| "ed_step (Revert ok) s = revert ok s"
| "ed_step (Discard ok name) s = discardDraft ok name s"
| "ed_step Close s = close_editor s"

definition ed_run :: "ed_event list \<Rightarrow> editor \<Rightarrow> editor" where
  "ed_run es s = foldl (\<lambda>s e. ed_step e s) s es"

section \<open>Unsaved text is on disk or about to be\<close>

definition protected :: "editor \<Rightarrow> bool" where
  "protected s \<longleftrightarrow> (isDirty s \<longrightarrow>
     ed_drafts s (draftKey (ed_source s)) = Some (ed_buffer s) \<or> ed_draftTimer s = Waiting (draftKey (ed_source s)))"

text \<open>
  The files of the directory are read under their own names, which is what the backend is asked for, and
  its writes succeed. The user's own ways of giving text up, reverting and discarding, are steps too; the
  last is the panel's \<open>discardDraft\<close>, once there is nothing left to lose.
\<close>

inductive ed_reach :: "editor \<Rightarrow> bool" where
  start: "ed_reach (ed_start drafts)"
| type: "ed_reach s \<Longrightarrow> ed_reach (setBuffer b s)"
| check: "ed_reach s \<Longrightarrow> ed_reach (check_timer_fires s)"
| draft: "ed_reach s \<Longrightarrow> ed_reach (draft_timer_fires True s)"
| leave: "ed_reach s \<Longrightarrow> ed_reach (flush_on_leave True s)"
| answer: "ed_reach s \<Longrightarrow> ed_reach (analysis_answers asked ans s)"
| begin_open: "ed_reach s \<Longrightarrow> ed_reach (open_begin True name s)"
| flushed: "ed_reach s \<Longrightarrow> ed_reach (open_flushed name s)"
| file_read: "ed_reach s \<Longrightarrow> ed_reach (open_read name token ans s)"
| opened: "ed_reach s \<Longrightarrow> source_key src = name \<Longrightarrow> ed_reach (open_done readable name token src s)"
| given: "ed_reach s \<Longrightarrow> ed_reach (openSource done src s)"
| saved: "ed_reach s \<Longrightarrow> ed_source s = Some f \<Longrightarrow> \<not> src_external f \<Longrightarrow> isDirty s \<or> written = Some (ed_buffer s) \<Longrightarrow>
    ed_reach (markSaved done sha ds written s)"
| reverted: "ed_reach s \<Longrightarrow> ed_reach (revert done s)"
| discarded: "ed_reach s \<Longrightarrow> \<not> isDirty s \<Longrightarrow> ed_reach (discardDraft done name s)"
| closed: "ed_reach s \<Longrightarrow> ed_reach (close_editor s)"

lemmas draft_ops = clear_draft_timer_def save_draft_def drop_draft_def settle_draft_def discardDraft_def

lemma ed_same:
  assumes "ed_source s' = ed_source s" "ed_buffer s' = ed_buffer s"
  shows "isDirty s' = isDirty s"
  using assms by (simp add: isDirty_def)

lemma protected_same:
  assumes "ed_source s' = ed_source s" "ed_buffer s' = ed_buffer s" "ed_drafts s' = ed_drafts s" "ed_draftTimer s' = ed_draftTimer s"
  shows "protected s' = protected s"
  using assms ed_same[OF assms(1,2)] by (simp add: protected_def)

lemma not_dirty_protected: "\<not> isDirty s \<Longrightarrow> protected s" by (simp add: protected_def)

lemma settle_keeps [simp]:
  "ed_source (settle_draft d s) = ed_source s" "ed_buffer (settle_draft d s) = ed_buffer s"
  "ed_draftTimer (settle_draft d s) = ed_draftTimer s" "isDirty (settle_draft d s) = isDirty s"
  "ed_opens (settle_draft d s) = ed_opens s" "ed_token (settle_draft d s) = ed_token s"
  "ed_checking (settle_draft d s) = ed_checking s" "ed_checkTimer (settle_draft d s) = ed_checkTimer s" "ed_asked (settle_draft d s) = ed_asked s"
  by (simp_all add: settle_draft_def save_draft_def drop_draft_def isDirty_def)

lemma settle_writes: "isDirty s \<Longrightarrow> ed_drafts (settle_draft True s) (draftKey (ed_source s)) = Some (ed_buffer s)"
  by (simp add: settle_draft_def save_draft_def)

lemma flush_keeps [simp]:
  "ed_source (flushDraft d s) = ed_source s" "ed_buffer (flushDraft d s) = ed_buffer s" "isDirty (flushDraft d s) = isDirty s"
  "ed_opens (flushDraft d s) = ed_opens s" "ed_token (flushDraft d s) = ed_token s"
  "ed_checking (flushDraft d s) = ed_checking s" "ed_checkTimer (flushDraft d s) = ed_checkTimer s" "ed_asked (flushDraft d s) = ed_asked s"
  by (simp_all add: flushDraft_def Let_def isDirty_def)

lemma dirty_source: "isDirty s \<Longrightarrow> ed_source s \<noteq> None" by (auto simp: isDirty_def)

lemma flush_writes:
  assumes "protected s" "isDirty s"
  shows "ed_drafts (flushDraft True s) (draftKey (ed_source s)) = Some (ed_buffer s)"
proof (cases "ed_draftTimer s = Unset")
  case True
  then show ?thesis using assms by (simp add: flushDraft_def protected_def)
next
  case False
  have "isDirty (s\<lparr>ed_draftTimer := Unset\<rparr>)" using assms(2) by (simp add: isDirty_def)
  from settle_writes[OF this] False dirty_source[OF assms(2)] show ?thesis by (auto simp: flushDraft_def Let_def)
qed

lemma flush_protected: "protected s \<Longrightarrow> protected (flushDraft True s)"
  using flush_writes[of s] by (auto simp: protected_def)

lemma type_protected: "protected (setBuffer b s)"
  by (auto simp: protected_def setBuffer_def scheduleDraft_def scheduleRefresh_def draftKey_def isDirty_def clear_draft_timer_def
      split: option.splits)

lemma draft_fires_protected:
  assumes "protected s"
  shows "protected (draft_timer_fires True s)"
proof (cases "ed_draftTimer s")
  case (Waiting key)
  let ?s = "s\<lparr>ed_draftTimer := Spent\<rparr>"
  have d: "isDirty ?s = isDirty s" by (simp add: isDirty_def)
  show ?thesis
  proof (cases "ed_source s = None \<or> draftKey (ed_source s) \<noteq> key")
    case True
    then show ?thesis using assms Waiting dirty_source[of s] by (auto simp: draft_timer_fires_def protected_def d)
  next
    case False
    then show ?thesis using settle_writes[of ?s] Waiting by (auto simp: draft_timer_fires_def protected_def d)
  qed
qed (use assms in \<open>simp_all add: draft_timer_fires_def\<close>)

lemma shown_keeps [simp]:
  "ed_source (analysis_answers a v s) = ed_source s" "ed_buffer (analysis_answers a v s) = ed_buffer s"
  "ed_drafts (analysis_answers a v s) = ed_drafts s" "ed_draftTimer (analysis_answers a v s) = ed_draftTimer s"
  "ed_opens (analysis_answers a v s) = ed_opens s" "ed_token (analysis_answers a v s) = ed_token s"
  "ed_checkTimer (analysis_answers a v s) = ed_checkTimer s"
  by (simp_all add: analysis_answers_def analysis_shown_def Let_def split: option.split)

lemma opened_protected:
  assumes "protected s" "source_key src = name"
  shows "protected (open_done readable name token src s)"
proof -
  let ?s = "s\<lparr>ed_opens := remove1 (ReadingDraft name token src) (ed_opens s)\<rparr>"
  have p: "protected ?s" using protected_same[of ?s s] assms(1) by simp
  have q: "protected (ask_analysis (show_source src (src_content src) ?s))"
    by (rule not_dirty_protected) (simp add: ask_analysis_def show_source_def isDirty_def)
  have r: "protected (ask_analysis (show_source src (the (ed_drafts s name)) ?s))" if "recovered (ed_drafts s name) src"
    using that assms(2) by (auto simp: protected_def ask_analysis_def show_source_def draftKey_def recovered_def ed_empty_def split: option.splits)
  show ?thesis using assms(1) p q r by (auto simp: open_done_def Let_def recovered_def)
qed

lemma saved_protected:
  assumes "protected s" "ed_source s = Some f" "\<not> src_external f" "isDirty s \<or> written = Some (ed_buffer s)"
  shows "protected (markSaved done sha ds written s)"
proof -
  have k: "source_key (saved_source c sha (Some f)) = source_key f" "src_content (saved_source c sha (Some f)) = c" for c
    using assms(3) by (simp_all add: source_key_def saved_source_def)
  show ?thesis using assms
    by (auto simp: markSaved_def Let_def protected_def isDirty_def draftKey_def k drop_draft_def split: option.splits)
qed

lemma reach_protected: "ed_reach s \<Longrightarrow> protected s"
proof (induction rule: ed_reach.induct)
  case (start drafts)
  show ?case by (rule not_dirty_protected) (simp add: ed_start_def isDirty_def)
next
  case (check s)
  then show ?case using protected_same[of "check_timer_fires s" s] by (simp add: check_timer_fires_def ask_analysis_def)
next
  case (leave s)
  then show ?case using flush_protected by (simp add: flush_on_leave_def)
next
  case (answer s asked ans)
  then show ?case using protected_same[of "analysis_answers asked ans s" s] by simp
next
  case (begin_open s name)
  then show ?case using flush_protected[of s] protected_same[of "open_begin True name s" "flushDraft True s"]
    by (simp add: open_begin_def Let_def)
next
  case (flushed s name)
  then show ?case using protected_same[of "open_flushed name s" s] by (simp add: open_flushed_def Let_def)
next
  case (file_read s name token ans)
  then show ?case using protected_same[of "open_read name token ans s" s] by (simp add: open_read_def Let_def split: option.splits)
next
  case (given s ok src)
  show ?case by (rule not_dirty_protected)
      (simp add: openSource_def Let_def draft_ops ask_analysis_def show_source_def ed_empty_def isDirty_def)
next
  case (reverted s ok)
  show ?case by (rule not_dirty_protected) (simp add: revert_def Let_def draft_ops isDirty_def split: option.split)
next
  case (discarded s ok name)
  then show ?case by (intro not_dirty_protected) (simp add: draft_ops isDirty_def Let_def)
next
  case (closed s)
  show ?case by (rule not_dirty_protected) (simp add: close_editor_def ed_empty_def isDirty_def)
qed (simp_all add: type_protected draft_fires_protected opened_protected saved_protected)


definition mib_file :: "string \<Rightarrow> string \<Rightarrow> mib_source" where
  "mib_file name content = \<lparr>src_name = name, src_path = name, src_external = False, src_bundled = False,
     src_content = content, src_sha = [], src_diagnostics = []\<rparr>"

lemma mib_file_simps [simp]: "source_key (mib_file n c) = n" "src_content (mib_file n c) = c" "src_external (mib_file n c) = False"
  "src_name (mib_file n c) = n"
  by (simp_all add: mib_file_def source_key_def)


section \<open>Overlapping opens and analyses\<close>

fun call_token :: "open_call \<Rightarrow> nat option" where
  "call_token (Flushing name) = None"
| "call_token (ReadingFile name t) = Some t"
| "call_token (ReadingDraft name t src) = Some t"

definition open_tokens :: "editor \<Rightarrow> nat list" where
  "open_tokens s = List.map_filter call_token (ed_opens s)"

definition tokens_fresh :: "editor \<Rightarrow> bool" where
  "tokens_fresh s \<longleftrightarrow> distinct (open_tokens s) \<and> list_all (\<lambda>t. t \<le> ed_token s) (open_tokens s)"

definition shown :: "editor \<Rightarrow> mib_source option \<times> string" where
  "shown s = (ed_source s, ed_buffer s)"

lemma open_tokens_simps:
  "List.map_filter call_token (c # cs) = (case call_token c of None \<Rightarrow> List.map_filter call_token cs | Some t \<Rightarrow> t # List.map_filter call_token cs)"
  by (simp add: List.map_filter_simps)

lemma set_tokens: "t \<in> set (List.map_filter call_token cs) \<longleftrightarrow> (\<exists>c \<in> set cs. call_token c = Some t)"
  by (force simp: List.map_filter_def)

lemma tokens_remove1:
  "set (List.map_filter call_token (remove1 c cs)) \<subseteq> set (List.map_filter call_token cs)"
  by (auto simp: set_tokens) (meson notin_set_remove1)

lemma distinct_remove1:
  "distinct (List.map_filter call_token cs) \<Longrightarrow> distinct (List.map_filter call_token (remove1 c cs)) \<and>
     (c \<in> set cs \<longrightarrow> call_token c = Some t \<longrightarrow> t \<notin> set (List.map_filter call_token (remove1 c cs)))"
proof (induction cs)
  case (Cons d cs)
  then show ?case using tokens_remove1[of c cs] set_tokens[of t cs]
    by (auto simp: open_tokens_simps split: option.splits if_splits)
qed (simp add: List.map_filter_simps)

lemma tokens_same: "ed_opens s' = ed_opens s \<Longrightarrow> ed_token s \<le> ed_token s' \<Longrightarrow> tokens_fresh s \<Longrightarrow> tokens_fresh s'"
  by (auto simp: tokens_fresh_def open_tokens_def list_all_iff)

lemma keeps_opens:
  "ed_opens (clear_draft_timer s) = ed_opens s" "ed_token (clear_draft_timer s) = ed_token s"
  "ed_opens (drop_draft d k s) = ed_opens s" "ed_token (drop_draft d k s) = ed_token s"
  "ed_opens (ask_analysis s) = ed_opens s" "ed_token (ask_analysis s) = ed_token s"
  "ed_opens (ed_empty s) = ed_opens s" "ed_token (ed_empty s) = ed_token s"
  "ed_opens (show_source f b s) = ed_opens s" "ed_token (show_source f b s) = ed_token s"
  by (simp_all add: draft_ops ask_analysis_def ed_empty_def show_source_def)

lemma removed_fresh:
  assumes "tokens_fresh s"
  shows "tokens_fresh (s\<lparr>ed_opens := remove1 c (ed_opens s)\<rparr>)"
  using assms distinct_remove1[of "ed_opens s" c] tokens_remove1[of c "ed_opens s"]
  by (auto simp: tokens_fresh_def open_tokens_def list_all_iff)

lemma step_fresh:
  assumes "tokens_fresh s"
  shows "tokens_fresh (ed_step e s)"
proof (cases e)
  case (Flushed name)
  then show ?thesis using assms removed_fresh[OF assms, of "Flushing name"]
    by (auto simp: open_flushed_def Let_def tokens_fresh_def open_tokens_def open_tokens_simps list_all_iff)
next
  case (FileRead name token ans)
  show ?thesis
  proof (cases "ReadingFile name token \<in> set (ed_opens s) \<and> ans \<noteq> None \<and> token = ed_token s")
    case True
    then show ?thesis using FileRead removed_fresh[OF assms, of "ReadingFile name token"] assms
      distinct_remove1[of "ed_opens s" "ReadingFile name token" token]
      by (auto simp: open_read_def Let_def tokens_fresh_def open_tokens_def open_tokens_simps list_all_iff)
  next
    case False
    then show ?thesis using FileRead removed_fresh[OF assms, of "ReadingFile name token"] assms
      by (auto simp: open_read_def Let_def split: option.splits)
  qed
next
  case (DraftRead readable name token src)
  let ?s = "s\<lparr>ed_opens := remove1 (ReadingDraft name token src) (ed_opens s)\<rparr>"
  have "tokens_fresh (ask_analysis (show_source src b ?s))" for b
    using removed_fresh[OF assms] by (rule tokens_same[rotated 2]) (simp_all add: keeps_opens)
  then show ?thesis using DraftRead assms removed_fresh[OF assms] by (auto simp: open_done_def Let_def)
next
  case (Open d name)
  have "tokens_fresh (flushDraft d s)" using assms by (rule tokens_same[rotated 2]) simp_all
  then show ?thesis using Open
    by (simp add: open_begin_def Let_def tokens_fresh_def open_tokens_def open_tokens_simps)
qed (use assms in \<open>auto intro!: tokens_same[OF _ _ assms] simp: setBuffer_def scheduleDraft_def scheduleRefresh_def
     check_timer_fires_def draft_timer_fires_def flush_on_leave_def openSource_def markSaved_def revert_def discardDraft_def
     close_editor_def keeps_opens Let_def split: option.splits draft_timer.splits\<close>)

lemma run_fresh: "tokens_fresh (ed_run es (ed_start drafts))"
proof (induction es rule: rev_induct)
  case Nil
  show ?case by (simp add: ed_run_def ed_start_def tokens_fresh_def open_tokens_def List.map_filter_simps)
next
  case (snoc e es)
  then show ?case using step_fresh by (simp add: ed_run_def)
qed


lemma pending_step:
  assumes "ed_checking s \<longrightarrow> ed_checkTimer s \<or> ed_asked s \<noteq> []"
  shows "ed_checking (ed_step e s) \<longrightarrow> ed_checkTimer (ed_step e s) \<or> ed_asked (ed_step e s) \<noteq> []"
  using assms
  by (cases e) (auto simp: setBuffer_def scheduleDraft_def scheduleRefresh_def check_timer_fires_def ask_analysis_def draft_timer_fires_def
     flush_on_leave_def open_begin_def open_flushed_def open_read_def open_done_def analysis_answers_def analysis_shown_def
     openSource_def markSaved_def revert_def close_editor_def ed_empty_def show_source_def draft_ops Let_def
     split: option.splits draft_timer.splits)

text \<open>While the editor says it is checking, a timer is set or an analysis is under way: it never says so for ever.\<close>

lemma checking_is_pending:
  "ed_checking (ed_run es (ed_start drafts)) \<longrightarrow>
     ed_checkTimer (ed_run es (ed_start drafts)) \<or> ed_asked (ed_run es (ed_start drafts)) \<noteq> []"
proof (induction es rule: rev_induct)
  case Nil
  show ?case by (simp add: ed_run_def ed_start_def)
next
  case (snoc e es)
  from pending_step[OF this, of e] show ?case by (simp add: ed_run_def)
qed

section \<open>Where text comes back or is lost\<close>

definition open_file :: "mib_source \<Rightarrow> nat \<Rightarrow> ed_event list" where
  "open_file f t = [Open True (src_name f), Flushed (src_name f), FileRead (src_name f) t (Some f), DraftRead True (src_name f) t f]"

definition read_fresh :: "editor \<Rightarrow> mib_source \<Rightarrow> editor" where
  "read_fresh s f = ask_analysis (show_source f (if recovered (ed_drafts s (src_name f)) f then the (ed_drafts s (src_name f)) else src_content f)
     (s\<lparr>ed_token := Suc (ed_token s), ed_opens := []\<rparr>))"

lemma open_file_run:
  assumes "ed_opens s = []" "t = Suc (ed_token s)"
  shows "ed_run (open_file f t @ es) s = ed_run es (read_fresh (flushDraft True s) f)"
  using assms by (simp add: ed_run_def open_file_def open_begin_def open_flushed_def open_read_def open_done_def read_fresh_def Let_def recovered_def)

lemmas ed_eval = read_fresh_def ask_analysis_def show_source_def ed_empty_def ed_start_def setBuffer_def scheduleDraft_def
  scheduleRefresh_def flushDraft_def settle_draft_def save_draft_def drop_draft_def discardDraft_def clear_draft_timer_def
  isDirty_def draftKey_def recovered_def

text \<open>
  C7. Changes the user agreed to discard come back: the panel discards the draft and then opens the
  other file, and the open writes the buffer it finds into the draft again, because clearing the timer
  does not forget it. Opening the first file later recovers the discarded text.
\<close>

theorem discarded_changes_come_back:
  assumes "txt \<noteq> c" "txt \<noteq> []" "a \<noteq> []" "a \<noteq> b"
  shows "let s = ed_run (open_file (mib_file a c) 1 @ [Type txt, Discard True a] @ open_file (mib_file b d) 2 @ open_file (mib_file a c) 3)
      (ed_start (\<lambda>_. None)) in
    shown s = (Some (mib_file a c), txt) \<and> ed_drafts s a = Some txt"
proof -
  let ?s1 = "discardDraft True a (setBuffer txt (read_fresh (flushDraft True (ed_start (\<lambda>_. None))) (mib_file a c)))"
  have o1: "ed_opens ?s1 = []" "Suc (ed_token ?s1) = 2" by (simp_all add: ed_eval Let_def)
  let ?s2 = "read_fresh (flushDraft True ?s1) (mib_file b d)"
  have o2: "ed_opens ?s2 = []" "Suc (ed_token ?s2) = 3" by (simp_all add: ed_eval Let_def)
  have d2: "ed_drafts ?s2 a = Some txt" "ed_drafts ?s2 b = None" using assms by (simp_all add: ed_eval Let_def)
  have "ed_run (open_file (mib_file a c) 1 @ [Type txt, Discard True a] @ open_file (mib_file b d) 2 @ open_file (mib_file a c) 3) (ed_start (\<lambda>_. None)) =
      ed_run (open_file (mib_file b d) 2 @ open_file (mib_file a c) 3) ?s1"
    by (subst open_file_run) (simp_all add: ed_start_def ed_run_def)
  also have "\<dots> = ed_run (open_file (mib_file a c) 3 @ []) ?s2" by (subst open_file_run) (simp_all only: o1 append_Nil2)
  also have "\<dots> = read_fresh (flushDraft True ?s2) (mib_file a c)"
    by (subst open_file_run) (simp_all only: o2 ed_run_def foldl.simps)
  finally show ?thesis using d2 assms by (simp add: shown_def Let_def) (simp add: ed_eval Let_def)
qed

theorem discarded_changes_come_back_witness:
  "ed_drafts (ed_run (open_file (mib_file ''A'' ''x'') 1 @ [Type ''y'', Discard True ''A''] @ open_file (mib_file ''B'' ''z'') 2 @
     open_file (mib_file ''A'' ''x'') 3) (ed_start (\<lambda>_. None))) ''A'' = Some ''y''"
  using discarded_changes_come_back[of "''y''" "''x''" "''A''" "''B''" "''z''"] by (simp add: Let_def)

text \<open>What is typed while another file is being read goes nowhere: it is neither shown nor in any draft.\<close>

lemma typing_while_opening_is_lost:
  "let s = ed_run [Flushed ''B'', Type ''y'', FileRead ''B'' 2 (Some (mib_file ''B'' ''z'')), DraftRead True ''B'' 2 (mib_file ''B'' ''z''), DraftTimer True]
      (open_begin True ''B'' (read_fresh (ed_start (\<lambda>_. None)) (mib_file ''A'' ''x''))) in
    shown s = (Some (mib_file ''B'' ''z''), ''z'') \<and> ed_drafts s ''A'' = None \<and> ed_drafts s ''B'' = None"
  by (simp add: ed_run_def shown_def ed_eval open_begin_def open_flushed_def open_read_def open_done_def draft_timer_fires_def Let_def)

text \<open>A save that is answered once another file is open gives that file the text of the first.\<close>

lemma save_lands_on_another_file:
  "let s = markSaved True sha None (Some txt) (read_fresh s0 (mib_file b d)) in
    ed_source s = Some ((mib_file b d)\<lparr>src_content := txt, src_sha := sha\<rparr>) \<and> ed_buffer (revert True s) = txt"
  by (simp add: markSaved_def saved_source_def revert_def ed_eval Let_def mib_file_def)

end
