(* ===== verification/Editor_Panel.thy ===== *)
theory Editor_Panel
  imports Undo_History Text_Search Smi_Tokenize Editor_Drafts Js_Number
begin

text \<open>
  The MIB editor's panel, the script of \<open>frontend/src/MibEditorPanel.svelte\<close>, over the editor's store,
  its undo stack, its search and its text metrics. The textarea shows the buffer of the store, so its
  value is that buffer and only its selection and scroll position are state of their own; the clock, the
  geometry the browser measures and whether it carries out \<open>insertText\<close> are arguments. The lemmas show
  that the stack always describes the buffer, that a deliberate edit is one step of undo, and that the
  cached gutter is the gutter.
\<close>

section \<open>What is derived from the text\<close>

definition LINE_HEIGHT :: rat where "LINE_HEIGHT = 18"
definition VIEW_MARGIN :: int where "VIEW_MARGIN = 40"

record diagnostic =
  dg_line :: int
  dg_column :: int
  dg_severity :: string
  dg_symbol :: string

record mark =
  mk_of :: diagnostic
  mk_x :: rat
  mk_y :: rat
  mk_width :: rat

text \<open>\<open>lines[d.line - 1] || ''\<close>, and the first length of the three that is not zero.\<close>

definition line_of :: "string list \<Rightarrow> int \<Rightarrow> string" where
  "line_of ls n = (if 1 \<le> n \<and> n \<le> int (length ls) then ls ! nat (n - 1) else [])"

definition mark_length :: "diagnostic \<Rightarrow> string \<Rightarrow> nat" where
  "mark_length d txt =
     (let w = fst (wordAt txt (or_one (dg_column d) - 1)) in
      if dg_symbol d \<noteq> [] then length (dg_symbol d) else if w \<noteq> [] then length w else 6)"

definition mark_of :: "string list \<Rightarrow> rat \<Rightarrow> diagnostic \<Rightarrow> mark" where
  "mark_of ls cw d =
     (let pos = positionOf ls (dg_line d) (or_one (dg_column d)) cw LINE_HEIGHT
      in \<lparr>mk_of = d, mk_x = px_x pos, mk_y = px_y pos,
          mk_width = max (cw * 2) (cw * max 1 (of_nat (mark_length d (line_of ls (dg_line d)))))\<rparr>)"

definition marks :: "string list \<Rightarrow> rat \<Rightarrow> diagnostic list \<Rightarrow> mark list" where
  "marks ls cw ds = map (mark_of ls cw) (take 200 (filter (\<lambda>d. dg_line d > 0 \<and> dg_severity d \<noteq> ''info'') ds))"

definition severity_count :: "string \<Rightarrow> diagnostic list \<Rightarrow> nat" where
  "severity_count severity ds = length (filter (\<lambda>d. dg_severity d = severity) ds)"

definition savable :: "editor \<Rightarrow> bool" where
  "savable s \<longleftrightarrow> (case ed_source s of None \<Rightarrow> False | Some f \<Rightarrow> isDirty s \<or> src_external f)"

record mib_symbol =
  sy_name :: string
  sy_module :: string

definition contains_text :: "string \<Rightarrow> string \<Rightarrow> bool" where
  "contains_text hay needle \<longleftrightarrow> indexOf hay needle 0 \<noteq> None"

definition matchingSymbols :: "string \<Rightarrow> mib_symbol list \<Rightarrow> mib_symbol list" where
  "matchingSymbols q symbols =
     (if length q < 2 then []
      else take 60 (filter (\<lambda>sy. contains_text (Js_Text.toLowerCase (sy_name sy)) (Js_Text.toLowerCase q)) symbols))"

definition shown_files :: "string \<Rightarrow> string list \<Rightarrow> string list" where
  "shown_files q files = filter (\<lambda>f. q = [] \<or> contains_text (Js_Text.toLowerCase f) (Js_Text.toLowerCase q)) files"

text \<open>The gutter: the cache is the count and the text it was built for.\<close>

definition buildGutter :: "nat \<times> string \<Rightarrow> nat \<Rightarrow> nat \<times> string" where
  "buildGutter cache n = (let (m, txt) = cache in
     if n = m then cache
     else if n > m \<and> m > 0 \<and> n - m < 32 then (n, txt @ join_with NL (map show_nat [m + 1..<n + 1]) @ [NL])
     else (n, join_with NL (map show_nat [1..<n + 1]) @ [NL]))"

text \<open>The lines that are coloured.\<close>

definition firstVisible :: "rat \<Rightarrow> int" where
  "firstVisible scrollTop = max 0 (\<lfloor>scrollTop / LINE_HEIGHT\<rfloor> - VIEW_MARGIN)"

definition lastVisible :: "rat \<Rightarrow> rat \<Rightarrow> nat \<Rightarrow> int" where
  "lastVisible scrollTop height lineCount = min (int lineCount) (\<lceil>(scrollTop + height) / LINE_HEIGHT\<rceil> + VIEW_MARGIN)"

definition highlighted :: "string \<Rightarrow> rat \<Rightarrow> rat \<Rightarrow> string" where
  "highlighted buffer scrollTop height =
     (let ls = split_on NL buffer in
      renderWindow buffer ls (firstVisible scrollTop) (lastVisible scrollTop height (length ls)))"

section \<open>The outline\<close>

record outline_item =
  ol_name :: string
  ol_syntax :: string
  ol_kind :: string

definition filterOutline :: "outline_item list \<Rightarrow> string \<Rightarrow> outline_item list" where
  "filterOutline items needle =
     (let q = Js_Text.toLowerCase (trim needle) in
      if q = [] then items
      else filter (\<lambda>it. contains_text (Js_Text.toLowerCase (ol_name it)) q \<or> contains_text (Js_Text.toLowerCase (ol_syntax it)) q) items)"

definition OUTLINE_BADGE :: "(string \<times> string) list" where
  "OUTLINE_BADGE = [(''module'', ''M''), (''object'', ''o''), (''table'', ''T''), (''row'', ''R''), (''identity'', ''i''),
     (''notification'', ''N''), (''group'', ''G''), (''compliance'', ''C''), (''capabilities'', ''A''),
     (''trap'', ''N''), (''node'', [CHR 0xB7]), (''type'', ''t''), (''macro'', ''m'')]"

definition badgeOf :: "string \<Rightarrow> string" where
  "badgeOf kind = (case map_of OUTLINE_BADGE kind of Some b \<Rightarrow> b | None \<Rightarrow> [CHR 0xB7])"

section \<open>The state of the panel\<close>

record completion =
  cp_x :: rat
  cp_y :: rat
  cp_items :: "mib_symbol list"
  cp_index :: nat
  cp_range :: "nat \<times> nat"

record panel =
  pn_store :: editor
  pn_hist :: history
  pn_prevText :: string
  pn_prevSel :: selection
  pn_sel :: selection
  pn_atomic :: bool
  pn_saving :: bool
  pn_taTop :: rat
  pn_taLeft :: rat
  pn_taHeight :: rat
  pn_scrollTop :: rat
  pn_scrollLeft :: rat
  pn_viewport :: rat
  pn_symbols :: "mib_symbol list"
  pn_completion :: "completion option"
  pn_hover :: "mib_symbol option"
  pn_findOpen :: bool
  pn_showReplace :: bool
  pn_findTerm :: string
  pn_replaceTerm :: string
  pn_findIndex :: nat
  pn_matchCase :: bool
  pn_resumeFrom :: int
  pn_pendingFirst :: bool
  pn_notes :: "(string \<times> string) list"

definition buffer_of :: "panel \<Rightarrow> string" where
  "buffer_of p = ed_buffer (pn_store p)"

definition on_store :: "(editor \<Rightarrow> editor) \<Rightarrow> panel \<Rightarrow> panel" where
  "on_store f p = p\<lparr>pn_store := f (pn_store p)\<rparr>"

definition notify_user :: "string \<Rightarrow> string \<Rightarrow> panel \<Rightarrow> panel" where
  "notify_user key kind p = p\<lparr>pn_notes := pn_notes p @ [(key, kind)]\<rparr>"

definition caret :: "nat \<Rightarrow> selection" where
  "caret i = \<lparr>sel_start = int i, sel_end = int i\<rparr>"

text \<open>\<open>textarea.clientHeight || viewportHeight\<close>.\<close>

definition measureViewport :: "panel \<Rightarrow> panel" where
  "measureViewport p = (if pn_taHeight p \<noteq> 0 then p\<lparr>pn_viewport := pn_taHeight p\<rparr> else p)"

definition syncScroll :: "panel \<Rightarrow> panel" where
  "syncScroll p = measureViewport (p\<lparr>pn_scrollTop := pn_taTop p, pn_scrollLeft := pn_taLeft p\<rparr>)"

section \<open>Strings and comments\<close>

text \<open>\<open>text.lastIndexOf('\\n', Math.max(0, offset - 1)) + 1\<close>.\<close>

definition line_start :: "string \<Rightarrow> nat \<Rightarrow> nat" where
  "line_start txt offset =
     (case List.find (\<lambda>i. i < length txt \<and> txt ! i = NL) (rev [0..<Suc (offset - 1)]) of Some i \<Rightarrow> i + 1 | None \<Rightarrow> 0)"

fun comment_open :: "bool \<Rightarrow> string \<Rightarrow> bool" where
  "comment_open opn (a # b # r) =
     (if a = CHR ''-'' \<and> b = CHR ''-'' then comment_open (\<not> opn) r else comment_open opn (b # r))"
| "comment_open opn _ = opn"

definition inProse :: "string \<Rightarrow> nat \<Rightarrow> bool" where
  "inProse txt offset \<longleftrightarrow> stringStateAt txt (int offset) \<or> comment_open False (slice txt (line_start txt offset) offset)"

section \<open>Completion\<close>

definition completion_items :: "mib_symbol list \<Rightarrow> string \<Rightarrow> mib_symbol list" where
  "completion_items symbols word =
     take 12 (filter (\<lambda>sy. starts_with (Js_Text.toLowerCase (sy_name sy)) (Js_Text.toLowerCase word) \<and> sy_name sy \<noteq> word) symbols)"

definition completion_for :: "string \<Rightarrow> rat \<Rightarrow> panel \<Rightarrow> completion option" where
  "completion_for src cw p =
     (let offset = sel_start (pn_sel p); (word, s, e) = wordAt src offset; items = completion_items (pn_symbols p) word in
      if length word < 2 \<or> offset \<noteq> int e then None
      else if inProse src s then None
      else if items = [] then None
      else let (line, column) = lineColumnAt src (int s);
               pos = positionOf (split_on NL src) line column cw LINE_HEIGHT
           in Some \<lparr>cp_x = px_x pos - pn_scrollLeft p + 8, cp_y = px_y pos - pn_scrollTop p + LINE_HEIGHT + 8,
                    cp_items = items, cp_index = 0, cp_range = (s, e)\<rparr>)"

definition updateCompletion :: "string \<Rightarrow> rat \<Rightarrow> panel \<Rightarrow> panel" where
  "updateCompletion src cw p = p\<lparr>pn_completion := completion_for src cw p\<rparr>"

definition complete_next :: "completion \<Rightarrow> completion" where
  "complete_next c = c\<lparr>cp_index := (cp_index c + 1) mod length (cp_items c)\<rparr>"

definition complete_previous :: "completion \<Rightarrow> completion" where
  "complete_previous c = c\<lparr>cp_index := (cp_index c + length (cp_items c) - 1) mod length (cp_items c)\<rparr>"

text \<open>The symbol under the pointer, in the text's own coordinates.\<close>

definition hover_at :: "rat \<Rightarrow> rat \<Rightarrow> rat \<Rightarrow> panel \<Rightarrow> mib_symbol option" where
  "hover_at px py cw p = (case offsetAt (split_on NL (buffer_of p)) px py cw LINE_HEIGHT of
     None \<Rightarrow> None
   | Some offset \<Rightarrow> (let word = fst (wordAt (buffer_of p) (int offset)) in
       if length word < 2 then None else List.find (\<lambda>sy. sy_name sy = word) (pn_symbols p)))"

definition onMouseMove :: "rat \<Rightarrow> rat \<Rightarrow> rat \<Rightarrow> panel \<Rightarrow> panel" where
  "onMouseMove mx my cw p = p\<lparr>pn_hover := hover_at (mx + pn_taLeft p - 8) (my + pn_taTop p - 8) cw p\<rparr>"

definition onMouseLeave :: "panel \<Rightarrow> panel" where
  "onMouseLeave p = p\<lparr>pn_hover := None\<rparr>"

section \<open>Typing and history\<close>

definition resetHistory :: "panel \<Rightarrow> panel" where
  "resetHistory p = p\<lparr>pn_prevText := buffer_of p, pn_prevSel := caret 0, pn_hist := createHistory (buffer_of p)\<rparr>"

definition onBeforeInput :: "panel \<Rightarrow> panel" where
  "onBeforeInput p = p\<lparr>pn_prevSel := pn_sel p\<rparr>"

text \<open>The textarea holds \<open>after\<close> and its selection is where the edit left it.\<close>

definition onInput :: "string \<Rightarrow> selection \<Rightarrow> rat \<Rightarrow> int \<Rightarrow> panel \<Rightarrow> panel" where
  "onInput after sel cw now p =
     (let p' = p\<lparr>pn_sel := sel,
                 pn_hist := record_edit (pn_hist p) (pn_prevText p) after (Some (pn_prevSel p)) (Some sel) (pn_atomic p) now,
                 pn_atomic := False, pn_prevText := after, pn_prevSel := sel\<rparr>
      in updateCompletion after cw (on_store (setBuffer after) p'))"

definition applyHistory :: "(history \<times> string \<times> selection option) option \<Rightarrow> panel \<Rightarrow> panel" where
  "applyHistory step p = (case step of None \<Rightarrow> p
     | Some (h, txt, sel) \<Rightarrow>
         (let s = (case sel of Some s \<Rightarrow> s | None \<Rightarrow> pn_sel p) in
          syncScroll (on_store (setBuffer txt) (p\<lparr>pn_hist := h, pn_prevText := txt, pn_prevSel := s, pn_sel := s\<rparr>))))"

definition undoEdit :: "panel \<Rightarrow> panel" where
  "undoEdit p = applyHistory (undo (pn_hist p) (pn_prevText p)) p"

definition redoEdit :: "panel \<Rightarrow> panel" where
  "redoEdit p = applyHistory (redo (pn_hist p) (pn_prevText p)) p"

text \<open>
  Writing into the textarea as an edit: \<open>insertText\<close> over a range fires \<open>input\<close>, with the edit marked
  deliberate; where the browser refuses it only the store is told.
\<close>

definition edited :: "string \<Rightarrow> nat \<Rightarrow> nat \<Rightarrow> string \<Rightarrow> string" where
  "edited txt a b new = take a txt @ new @ drop b txt"

definition write_range :: "bool \<Rightarrow> nat \<Rightarrow> nat \<Rightarrow> string \<Rightarrow> rat \<Rightarrow> int \<Rightarrow> panel \<Rightarrow> panel" where
  "write_range inserted a b new cw now p =
     (let after = edited (buffer_of p) a b new; sel = caret (a + length new); p' = p\<lparr>pn_atomic := True\<rparr> in
      if inserted then on_store (setBuffer after) (onInput after sel cw now p')
      else on_store (setBuffer after) (p'\<lparr>pn_sel := sel\<rparr>))"

definition insertAtCaret :: "bool \<Rightarrow> string \<Rightarrow> (nat \<times> nat) option \<Rightarrow> rat \<Rightarrow> int \<Rightarrow> panel \<Rightarrow> panel" where
  "insertAtCaret inserted new range0 cw now p =
     (let (a, b) = (case range0 of Some r \<Rightarrow> r | None \<Rightarrow> (nat (sel_start (pn_sel p)), nat (sel_end (pn_sel p))))
      in write_range inserted a b new cw now p)"

definition acceptCompletion :: "bool \<Rightarrow> rat \<Rightarrow> int \<Rightarrow> panel \<Rightarrow> panel" where
  "acceptCompletion inserted cw now p = (case pn_completion p of None \<Rightarrow> p
     | Some c \<Rightarrow> insertAtCaret inserted (sy_name (cp_items c ! cp_index c)) (Some (cp_range c)) cw now (p\<lparr>pn_completion := None\<rparr>))"

text \<open>\<open>MibEditorFixImports\<close> answers the whole text with its IMPORTS repaired, or nothing.\<close>

definition fixImports :: "bool \<Rightarrow> string \<Rightarrow> rat \<Rightarrow> int \<Rightarrow> panel \<Rightarrow> panel" where
  "fixImports inserted content cw now p =
     (if content = [] then p
      else notify_user ''mibEditor.importsFixed'' ''success''
        (insertAtCaret inserted content (Some (0, length (buffer_of p))) cw now p))"

section \<open>Find and replace\<close>

definition one_char :: "char \<Rightarrow> string" where
  "one_char c = [Js_Text.lower_char c]"

definition matches :: "panel \<Rightarrow> nat list" where
  "matches p =
     (if pn_findOpen p
      then (case findMatches one_char (buffer_of p) (pn_findTerm p) (Some MAX_MATCHES) (pn_matchCase p) of Some ms \<Rightarrow> ms | None \<Rightarrow> [])
      else [])"

definition matchesCapped :: "panel \<Rightarrow> bool" where
  "matchesCapped p \<longleftrightarrow> length (matches p) \<ge> MAX_MATCHES"

definition gotoMatch :: "int \<Rightarrow> panel \<Rightarrow> panel" where
  "gotoMatch index p =
     (let ms = matches p; n = int (length ms) in
      if ms = [] then p
      else let i = nat (js_rem (index + n) n); (line, column) = lineColumnAt (buffer_of p) (int (ms ! i));
               top = of_int (line - 1) * LINE_HEIGHT; view = pn_taHeight p;
               off = top < pn_taTop p \<or> top > pn_taTop p + view - LINE_HEIGHT * 2
           in syncScroll (p\<lparr>pn_findIndex := i, pn_taTop := (if off then max 0 (top - view / 3) else pn_taTop p)\<rparr>))"

definition findNext :: "bool \<Rightarrow> panel \<Rightarrow> panel" where
  "findNext backwards p =
     (if matches p = [] then p else gotoMatch (nextIndex (int (pn_findIndex p)) (int (length (matches p))) backwards) p)"

text \<open>What follows a change of the matches: the index is kept inside, then the view lands on a match.\<close>

definition clamp_index :: "panel \<Rightarrow> panel" where
  "clamp_index p = (let n = length (matches p) in
     if pn_findIndex p \<ge> n then p\<lparr>pn_findIndex := (if n > 0 then n - 1 else 0)\<rparr> else p)"

definition land :: "panel \<Rightarrow> panel" where
  "land p =
     (if \<not> pn_findOpen p \<or> matches p = [] then p
      else if pn_pendingFirst p then gotoMatch 0 (p\<lparr>pn_pendingFirst := False\<rparr>)
      else if pn_resumeFrom p \<ge> 0 then
        (let next = List.find (\<lambda>i. int (matches p ! i) \<ge> pn_resumeFrom p) [0..<length (matches p)]
         in gotoMatch (case next of Some i \<Rightarrow> int i | None \<Rightarrow> 0) (p\<lparr>pn_resumeFrom := -1\<rparr>))
      else p)"

definition follow :: "panel \<Rightarrow> panel" where
  "follow p = land (clamp_index p)"

definition find_input :: "string \<Rightarrow> panel \<Rightarrow> panel" where
  "find_input txt p = follow (p\<lparr>pn_findTerm := txt, pn_findIndex := 0, pn_pendingFirst := True\<rparr>)"

definition toggle_case :: "panel \<Rightarrow> panel" where
  "toggle_case p = follow (p\<lparr>pn_matchCase := \<not> pn_matchCase p, pn_findIndex := 0, pn_pendingFirst := True\<rparr>)"

definition replaceCurrent :: "bool \<Rightarrow> rat \<Rightarrow> int \<Rightarrow> panel \<Rightarrow> panel" where
  "replaceCurrent inserted cw now p =
     (if matches p = [] \<or> pn_findTerm p = [] then p
      else let i = matches p ! pn_findIndex p in
        follow (write_range inserted i (i + length (pn_findTerm p)) (pn_replaceTerm p) cw now
          (p\<lparr>pn_resumeFrom := int (i + length (pn_replaceTerm p))\<rparr>)))"

definition all_matches :: "panel \<Rightarrow> nat list" where
  "all_matches p = (case findAllMatches one_char (buffer_of p) (pn_findTerm p) (pn_matchCase p) of Some ms \<Rightarrow> ms | None \<Rightarrow> [])"

definition replaceAll :: "bool \<Rightarrow> rat \<Rightarrow> int \<Rightarrow> panel \<Rightarrow> panel" where
  "replaceAll inserted cw now p =
     (if pn_findTerm p = [] \<or> all_matches p = [] then p
      else notify_user ''mibEditor.replacedAll'' ''success''
        ((write_range inserted 0 (length (buffer_of p))
           (applyReplaceAll (buffer_of p) (all_matches p) (length (pn_findTerm p)) (pn_replaceTerm p)) cw now p)\<lparr>pn_findIndex := 0\<rparr>))"

definition closeFind :: "panel \<Rightarrow> panel" where
  "closeFind p = p\<lparr>pn_findOpen := False, pn_showReplace := False, pn_findTerm := [], pn_replaceTerm := [], pn_findIndex := 0\<rparr>"

record match_box = mb_x :: rat mb_y :: rat mb_width :: rat mb_current :: bool

definition matchBoxes :: "rat \<Rightarrow> panel \<Rightarrow> match_box list" where
  "matchBoxes cw p =
     (let ls = split_on NL (buffer_of p); starts = lineStarts ls;
          first = firstVisible (pn_scrollTop p); last = lastVisible (pn_scrollTop p) (pn_viewport p) (length ls) in
      map (\<lambda>(i, line, column). let xy = positionOf ls line column cw LINE_HEIGHT in
          \<lparr>mb_x = px_x xy, mb_y = px_y xy, mb_width = of_nat (length (pn_findTerm p)) * cw, mb_current = (i = pn_findIndex p)\<rparr>)
        (filter (\<lambda>(i, line, column). line \<ge> first \<and> line \<le> last)
          (map (\<lambda>(i, pos0). (i, lineColumnFrom starts (int pos0))) (List.enumerate 0 (matches p)))))"

text \<open>Clicking a problem puts the caret on it.\<close>

definition jump_offset :: "string list \<Rightarrow> diagnostic \<Rightarrow> int" where
  "jump_offset ls d =
     sum_list (map (\<lambda>l. int (length l) + 1) (take (nat (min (dg_line d - 1) (int (length ls)))) ls)) + max 0 (or_one (dg_column d) - 1)"

definition jumpTo :: "rat \<Rightarrow> diagnostic \<Rightarrow> panel \<Rightarrow> panel" where
  "jumpTo scrollHeight d p =
     (if dg_line d = 0 then p
      else let ls = split_on NL (buffer_of p); i = jump_offset ls d;
               lineHeight = scrollHeight / max 1 (of_nat (length ls))
           in syncScroll (p\<lparr>pn_sel := \<lparr>sel_start = i, sel_end = i\<rparr>,
                pn_taTop := max 0 (of_int (dg_line d - 1) * lineHeight - pn_taHeight p / 3)\<rparr>))"

section \<open>Files\<close>

text \<open>
  \<open>open\<close> asks first when there are changes, and discards the draft under the source's own name; when the
  store's \<open>open\<close> returns, superseded or not, the history starts afresh.
\<close>

definition confirmDiscard :: "bool \<Rightarrow> bool \<Rightarrow> panel \<Rightarrow> bool \<times> panel" where
  "confirmDiscard agrees done p =
     (if \<not> isDirty (pn_store p) then (True, p)
      else if \<not> agrees then (False, p)
      else (True, on_store (discardDraft done (case ed_source (pn_store p) of Some f \<Rightarrow> src_name f | None \<Rightarrow> [])) p))"

definition open_asked :: "bool \<Rightarrow> bool \<Rightarrow> string \<Rightarrow> panel \<Rightarrow> panel" where
  "open_asked agrees done name p =
     (let (go, p') = confirmDiscard agrees done p in if go then on_store (open_begin done name) p' else p')"

definition open_returned :: "bool \<Rightarrow> panel \<Rightarrow> panel" where
  "open_returned was_recovered p =
     (let p' = resetHistory p in if was_recovered then notify_user ''mibEditor.draftRecovered'' ''warning'' p' else p')"

text \<open>The file the dialog answered, none when it was cancelled.\<close>

definition openExternal :: "bool \<Rightarrow> bool \<Rightarrow> mib_source option \<Rightarrow> panel \<Rightarrow> panel" where
  "openExternal agrees done ans p =
     (let (go, p') = confirmDiscard agrees done p in
      case ans of None \<Rightarrow> p'
      | Some f \<Rightarrow> (if go \<and> src_name f \<noteq> []
          then notify_user ''mibEditor.externalOpened'' ''info'' (resetHistory (on_store (openSource done f) p')) else p'))"

datatype save_result = Conflict | Not_Saved | Written string "jsval list" bool

record save_request =
  sv_name :: string
  sv_text :: string
  sv_sha :: string
  sv_force :: bool

definition save_begin :: "bool \<Rightarrow> panel \<Rightarrow> save_request option \<times> panel" where
  "save_begin force p = (case ed_source (pn_store p) of None \<Rightarrow> (None, p)
     | Some f \<Rightarrow> (Some \<lparr>sv_name = src_name f, sv_text = buffer_of p, sv_sha = src_sha f, sv_force = force\<rparr>, p\<lparr>pn_saving := True\<rparr>))"

text \<open>The answer to a save; a conflict the user overrides starts another, forced.\<close>

definition save_answered :: "bool \<Rightarrow> bool \<Rightarrow> save_request \<Rightarrow> save_result \<Rightarrow> panel \<Rightarrow> save_request option \<times> panel" where
  "save_answered overwrite done req res p = (case res of
     Conflict \<Rightarrow> (let p' = p\<lparr>pn_saving := False\<rparr> in if overwrite then save_begin True p' else (None, p'))
   | Not_Saved \<Rightarrow> (None, notify_user ''mibEditor.saveFailed'' ''error'' (p\<lparr>pn_saving := False\<rparr>))
   | Written sha ds backup \<Rightarrow>
       (None, notify_user (if backup then ''mibEditor.savedWithBackup'' else ''mibEditor.saved'') ''success''
         (on_store (markSaved done sha (Some ds) (Some (sv_text req))) (p\<lparr>pn_saving := False\<rparr>))))"

text \<open>What a reload says: whether the tree is healthy, and how many files failed.\<close>

definition reload_answered :: "bool \<Rightarrow> nat \<Rightarrow> panel \<Rightarrow> panel" where
  "reload_answered healthy failed p =
     (if \<not> healthy then notify_user ''mibEditor.treeBroken'' ''error'' p
      else if failed > 0 then notify_user ''mibEditor.reloadedWithFailures'' ''warning'' p
      else notify_user ''mibEditor.reloaded'' ''success'' p)"

definition restoreBundled :: "bool \<Rightarrow> bool \<Rightarrow> mib_source \<Rightarrow> panel \<Rightarrow> panel" where
  "restoreBundled agrees done restored p = (case ed_source (pn_store p) of None \<Rightarrow> p
     | Some f \<Rightarrow> (if \<not> src_bundled f \<or> \<not> agrees then p
         else notify_user ''mibEditor.restored'' ''success'' (resetHistory (on_store (openSource done restored) p))))"

definition revertPanel :: "bool \<Rightarrow> bool \<Rightarrow> panel \<Rightarrow> panel" where
  "revertPanel agrees done p =
     (if \<not> isDirty (pn_store p) \<or> \<not> agrees then p else resetHistory (on_store (revert done) p))"

section \<open>Snippets\<close>

definition unlines :: "string list \<Rightarrow> string" where
  "unlines ls = concat (map (\<lambda>l. l @ [NL]) ls)"

definition SNIPPETS :: "(string \<times> string) list" where
  \<open>SNIPPETS = [
   (''objectType'', unlines [
     ''${name} OBJECT-TYPE'', ''    SYNTAX      Integer32'', ''    MAX-ACCESS  read-only'', ''    STATUS      current'',
     ''    DESCRIPTION'', ''        "Describe what this object reports."'', ''    ::= { parent 1 }'']),
   (''moduleIdentity'', unlines [
     ''${name} MODULE-IDENTITY'', ''    LAST-UPDATED "202601010000Z"'', ''    ORGANIZATION "Your organisation"'',
     ''    CONTACT-INFO'', ''        "Who to contact."'', ''    DESCRIPTION'', ''        "What this module covers."'',
     ''    ::= { enterprises 99999 }'']),
   (''textualConvention'', unlines [
     ''${name} ::= TEXTUAL-CONVENTION'', ''    STATUS      current'', ''    DESCRIPTION'', ''        "What this type means."'',
     ''    SYNTAX      Integer32'']),
   (''table'', unlines [
     ''${name}Table OBJECT-TYPE'', ''    SYNTAX      SEQUENCE OF ${Name}Entry'', ''    MAX-ACCESS  not-accessible'',
     ''    STATUS      current'', ''    DESCRIPTION'', ''        "What this table lists."'', ''    ::= { parent 1 }'', [],
     ''${name}Entry OBJECT-TYPE'', ''    SYNTAX      ${Name}Entry'', ''    MAX-ACCESS  not-accessible'',
     ''    STATUS      current'', ''    DESCRIPTION'', ''        "One row."'', ''    INDEX   { ${name}Index }'',
     ''    ::= { ${name}Table 1 }'', [],
     ''${Name}Entry ::= SEQUENCE {'', ''    ${name}Index    Integer32,'', ''    ${name}Descr    DisplayString'', ''}'', [],
     ''${name}Index OBJECT-TYPE'', ''    SYNTAX      Integer32 (1..2147483647)'', ''    MAX-ACCESS  not-accessible'',
     ''    STATUS      current'', ''    DESCRIPTION'', ''        "Identifies a row."'', ''    ::= { ${name}Entry 1 }'', [],
     ''${name}Descr OBJECT-TYPE'', ''    SYNTAX      DisplayString'', ''    MAX-ACCESS  read-only'', ''    STATUS      current'',
     ''    DESCRIPTION'', ''        "What this row is."'', ''    ::= { ${name}Entry 2 }'']),
   (''imports'', unlines [
     ''IMPORTS'', ''    MODULE-IDENTITY, OBJECT-TYPE, Integer32, Counter32'', ''        FROM SNMPv2-SMI'',
     ''    DisplayString, TEXTUAL-CONVENTION'', ''        FROM SNMPv2-TC;'']),
   (''module'', unlines [
     ''${name} DEFINITIONS ::= BEGIN'', [], ''IMPORTS'', ''    MODULE-IDENTITY, OBJECT-TYPE'', ''        FROM SNMPv2-SMI;'', [], ''END''])]\<close>

definition snippet_text :: "string \<Rightarrow> string" where
  "snippet_text t = replace_ref ''${name}'' ''myObject'' (replace_ref ''${Name}'' ''MyObject'' t)"

definition insertSnippet :: "bool \<Rightarrow> string \<Rightarrow> rat \<Rightarrow> int \<Rightarrow> panel \<Rightarrow> panel" where
  "insertSnippet inserted t cw now p = insertAtCaret inserted (snippet_text t) None cw now p"

section \<open>The keyboard\<close>

record key_event =
  ke_key :: string
  ke_command :: bool
  ke_shift :: bool

datatype key_action = Next_Item | Previous_Item | Accept | Dismiss | Undo_Key | Redo_Key | Find_Key | Save_Key | Indent | Native

definition action_of_key :: "bool \<Rightarrow> key_event \<Rightarrow> key_action" where
  "action_of_key completing e =
     (if completing \<and> ke_key e = ''ArrowDown'' then Next_Item
      else if completing \<and> ke_key e = ''ArrowUp'' then Previous_Item
      else if completing \<and> (ke_key e = ''Enter'' \<or> ke_key e = ''Tab'') then Accept
      else if completing \<and> ke_key e = ''Escape'' then Dismiss
      else if ke_command e \<and> (ke_key e = ''z'' \<or> ke_key e = ''Z'') then (if ke_shift e then Redo_Key else Undo_Key)
      else if ke_command e \<and> (ke_key e = ''y'' \<or> ke_key e = ''Y'') then Redo_Key
      else if ke_command e \<and> ke_key e = ''f'' then Find_Key
      else if ke_command e \<and> ke_key e = ''s'' then Save_Key
      else if ke_key e = ''Tab'' then Indent else Native)"

text \<open>What a key does at once, and the save it asks for.\<close>

definition onKeydown :: "bool \<Rightarrow> rat \<Rightarrow> int \<Rightarrow> key_event \<Rightarrow> panel \<Rightarrow> save_request option \<times> panel" where
  "onKeydown inserted cw now e p = (case action_of_key (pn_completion p \<noteq> None) e of
     Next_Item \<Rightarrow> (None, p\<lparr>pn_completion := map_option complete_next (pn_completion p)\<rparr>)
   | Previous_Item \<Rightarrow> (None, p\<lparr>pn_completion := map_option complete_previous (pn_completion p)\<rparr>)
   | Accept \<Rightarrow> (None, acceptCompletion inserted cw now p)
   | Dismiss \<Rightarrow> (None, p\<lparr>pn_completion := None\<rparr>)
   | Undo_Key \<Rightarrow> (None, undoEdit p)
   | Redo_Key \<Rightarrow> (None, redoEdit p)
   | Find_Key \<Rightarrow> (None, p\<lparr>pn_findOpen := True\<rparr>)
   | Save_Key \<Rightarrow> (if \<not> pn_saving p \<and> savable (pn_store p) then save_begin False p else (None, p))
   | Indent \<Rightarrow> (None, insertAtCaret inserted ''    '' None cw now p)
   | Native \<Rightarrow> (None, p))"

section \<open>The stack describes the buffer\<close>

definition panel_ok :: "panel \<Rightarrow> bool" where
  "panel_ok p \<longleftrightarrow> hist_ok (pn_hist p) (buffer_of p) \<and> pn_prevText p = buffer_of p"

definition same_text :: "panel \<Rightarrow> panel \<Rightarrow> bool" where
  "same_text p q \<longleftrightarrow> pn_hist q = pn_hist p \<and> pn_prevText q = pn_prevText p \<and> buffer_of q = buffer_of p"

lemma same_text_ok: "same_text p q \<Longrightarrow> panel_ok p \<Longrightarrow> panel_ok q"
  by (simp add: same_text_def panel_ok_def)

lemma same_text_refl [simp]: "same_text p p" by (simp add: same_text_def)

lemma same_text_trans: "same_text p q \<Longrightarrow> same_text q r \<Longrightarrow> same_text p r" by (simp add: same_text_def)

lemma buffer_setBuffer [simp]: "ed_buffer (setBuffer t s) = t"
  by (simp add: setBuffer_def scheduleDraft_def scheduleRefresh_def clear_draft_timer_def split: option.split)

lemma on_store_simps [simp]:
  "pn_hist (on_store f p) = pn_hist p" "pn_prevText (on_store f p) = pn_prevText p" "pn_store (on_store f p) = f (pn_store p)"
  "pn_sel (on_store f p) = pn_sel p" "buffer_of (on_store f p) = ed_buffer (f (pn_store p))"
  by (simp_all add: on_store_def buffer_of_def)

lemma syncScroll_simps [simp]:
  "pn_hist (syncScroll p) = pn_hist p" "pn_prevText (syncScroll p) = pn_prevText p" "buffer_of (syncScroll p) = buffer_of p"
  "pn_store (syncScroll p) = pn_store p" "pn_findTerm (syncScroll p) = pn_findTerm p"
  by (simp_all add: syncScroll_def measureViewport_def buffer_of_def)

lemma notify_user_simps [simp]: "pn_hist (notify_user k v p) = pn_hist p" "pn_prevText (notify_user k v p) = pn_prevText p" "buffer_of (notify_user k v p) = buffer_of p"
  "pn_store (notify_user k v p) = pn_store p"
  by (simp_all add: notify_user_def buffer_of_def)

lemma onInput_simps [simp]:
  "buffer_of (onInput t sel cw now p) = t" "pn_prevText (onInput t sel cw now p) = t"
  "pn_hist (onInput t sel cw now p) = record_edit (pn_hist p) (pn_prevText p) t (Some (pn_prevSel p)) (Some sel) (pn_atomic p) now"
  by (simp_all add: onInput_def Let_def updateCompletion_def buffer_of_def)

lemma write_simps [simp]:
  "buffer_of (write_range i a b new cw now p) = edited (buffer_of p) a b new"
  "pn_prevText (write_range True a b new cw now p) = edited (buffer_of p) a b new"
  "pn_hist (write_range True a b new cw now p) =
     record_edit (pn_hist p) (pn_prevText p) (edited (buffer_of p) a b new) (Some (pn_prevSel p)) (Some (caret (a + length new))) True now"
  by (simp_all add: write_range_def Let_def)

lemma typed_ok: "panel_ok p \<Longrightarrow> panel_ok (onInput t sel cw now p)"
  by (simp add: panel_ok_def record_edit_ok)

lemma write_ok: "panel_ok p \<Longrightarrow> panel_ok (write_range True a b new cw now p)"
  by (simp add: panel_ok_def record_edit_ok)

lemma reset_ok': "panel_ok (resetHistory p)"
  by (simp add: panel_ok_def resetHistory_def buffer_of_def createHistory_ok)

lemma applyHistory_simps [simp]:
  "pn_hist (applyHistory (Some (h, t, s)) p) = h" "pn_prevText (applyHistory (Some (h, t, s)) p) = t" "buffer_of (applyHistory (Some (h, t, s)) p) = t"
  by (simp_all add: applyHistory_def Let_def)

lemma undo_panel_ok: "panel_ok p \<Longrightarrow> panel_ok (undoEdit p)"
proof -
  assume ok: "panel_ok p"
  show ?thesis
  proof (cases "undo (pn_hist p) (pn_prevText p)")
    case None
    with ok show ?thesis by (simp add: undoEdit_def applyHistory_def)
  next
    case (Some r)
    obtain h t s where r: "r = (h, t, s)" by (cases r)
    with Some ok undo_keeps_ok[of "pn_hist p" "pn_prevText p" h t s] show ?thesis
      by (simp add: undoEdit_def panel_ok_def)
  qed
qed

lemma redo_panel_ok: "panel_ok p \<Longrightarrow> panel_ok (redoEdit p)"
proof -
  assume ok: "panel_ok p"
  show ?thesis
  proof (cases "redo (pn_hist p) (pn_prevText p)")
    case None
    with ok show ?thesis by (simp add: redoEdit_def applyHistory_def)
  next
    case (Some r)
    obtain h t s where r: "r = (h, t, s)" by (cases r)
    with Some ok redo_keeps_ok[of "pn_hist p" "pn_prevText p" h t s] show ?thesis
      by (simp add: redoEdit_def panel_ok_def)
  qed
qed

lemma goto_same: "same_text p (gotoMatch i p)"
  by (simp add: gotoMatch_def Let_def same_text_def split: prod.split) (simp add: buffer_of_def)

lemma follow_same: "same_text p (follow p)"
proof -
  have c: "same_text p (clamp_index p)" by (simp add: clamp_index_def Let_def same_text_def buffer_of_def)
  have l: "same_text q (land q)" for q
  proof -
    have a: "same_text q (gotoMatch i (q\<lparr>pn_pendingFirst := False\<rparr>))" "same_text q (gotoMatch i (q\<lparr>pn_resumeFrom := -1\<rparr>))" for i
      by (rule same_text_trans[OF _ goto_same], simp add: same_text_def buffer_of_def)+
    show ?thesis using a by (simp add: land_def Let_def)
  qed
  show ?thesis unfolding follow_def by (rule same_text_trans[OF c l])
qed

lemma insert_ok: "panel_ok p \<Longrightarrow> panel_ok (insertAtCaret True new r cw now p)"
  by (simp add: insertAtCaret_def write_ok split: prod.split)

lemma viewed_ok: "panel_ok p \<Longrightarrow> pn_hist q = pn_hist p \<Longrightarrow> pn_prevText q = pn_prevText p \<Longrightarrow> pn_store q = pn_store p \<Longrightarrow> panel_ok q"
  by (simp add: panel_ok_def buffer_of_def)

text \<open>
  Everything the user and the store can do while the browser carries out \<open>insertText\<close>. The store's own
  steps are those that keep the buffer; opening, restoring and reverting change it and start the history
  afresh before anything else runs.
\<close>

inductive panel_reach :: "panel \<Rightarrow> bool" where
  afresh: "panel_reach (resetHistory p)"
| typed: "panel_reach p \<Longrightarrow> panel_reach (onInput t sel cw now p)"
| before: "panel_reach p \<Longrightarrow> panel_reach (onBeforeInput p)"
| undone: "panel_reach p \<Longrightarrow> panel_reach (undoEdit p)"
| redone: "panel_reach p \<Longrightarrow> panel_reach (redoEdit p)"
| inserted: "panel_reach p \<Longrightarrow> panel_reach (insertAtCaret True new r cw now p)"
| accepted: "panel_reach p \<Longrightarrow> panel_reach (acceptCompletion True cw now p)"
| fixed: "panel_reach p \<Longrightarrow> panel_reach (fixImports True content cw now p)"
| searched: "panel_reach p \<Longrightarrow> panel_reach (find_input txt p)"
| cased: "panel_reach p \<Longrightarrow> panel_reach (toggle_case p)"
| went: "panel_reach p \<Longrightarrow> panel_reach (findNext back p)"
| replaced: "panel_reach p \<Longrightarrow> panel_reach (replaceCurrent True cw now p)"
| all_replaced: "panel_reach p \<Longrightarrow> panel_reach (replaceAll True cw now p)"
| closed: "panel_reach p \<Longrightarrow> panel_reach (closeFind p)"
| jumped: "panel_reach p \<Longrightarrow> panel_reach (jumpTo h d p)"
| hovered: "panel_reach p \<Longrightarrow> panel_reach (onMouseMove x y cw p)"
| key: "panel_reach p \<Longrightarrow> panel_reach (snd (onKeydown True cw now e p))"
| save_asked: "panel_reach p \<Longrightarrow> panel_reach (snd (save_begin force p))"
| save_done: "panel_reach p \<Longrightarrow> panel_reach (snd (save_answered ov d req res p))"
| reverted: "panel_reach p \<Longrightarrow> panel_reach (revertPanel agrees d p)"
| restored: "panel_reach p \<Longrightarrow> panel_reach (restoreBundled agrees d f p)"
| ticked: "panel_reach p \<Longrightarrow> ed_buffer (f (pn_store p)) = buffer_of p \<Longrightarrow> panel_reach (on_store f p)"

lemma begin_ok: "panel_ok p \<Longrightarrow> panel_ok (snd (save_begin force p))"
  by (simp add: save_begin_def panel_ok_def buffer_of_def split: option.split)

lemma answered_ok: "panel_ok p \<Longrightarrow> panel_ok (snd (save_answered ov d req res p))"
proof -
  assume ok: "panel_ok p"
  have k: "panel_ok (p\<lparr>pn_saving := False\<rparr>)" using ok by (simp add: panel_ok_def buffer_of_def)
  have m: "ed_buffer (markSaved a b c d s) = ed_buffer s" for a b c d s
    by (simp add: markSaved_def Let_def drop_draft_def)
  show ?thesis using k begin_ok[OF k, of True]
    by (auto simp: save_answered_def Let_def panel_ok_def m split: save_result.split) (simp_all add: buffer_of_def)
qed

lemma accept_ok: "panel_ok p \<Longrightarrow> panel_ok (acceptCompletion True cw now p)"
  by (auto simp: acceptCompletion_def intro!: insert_ok viewed_ok[of p] split: option.split)

lemma replace_ok: "panel_ok p \<Longrightarrow> panel_ok (replaceCurrent True cw now p)"
  by (auto simp: replaceCurrent_def Let_def intro!: same_text_ok[OF follow_same] write_ok viewed_ok[of p])

lemma find_index_buffer: "buffer_of (q\<lparr>pn_findIndex := i\<rparr>) = buffer_of q"
  by (simp add: buffer_of_def)

lemma replaceAll_simps:
  "replaceAll True cw now p = p \<or> pn_hist (replaceAll True cw now p) = pn_hist (write_range True 0 (length (buffer_of p))
     (applyReplaceAll (buffer_of p) (all_matches p) (length (pn_findTerm p)) (pn_replaceTerm p)) cw now p) \<and>
   pn_prevText (replaceAll True cw now p) = applyReplaceAll (buffer_of p) (all_matches p) (length (pn_findTerm p)) (pn_replaceTerm p) \<and>
   buffer_of (replaceAll True cw now p) = applyReplaceAll (buffer_of p) (all_matches p) (length (pn_findTerm p)) (pn_replaceTerm p)"
  by (auto simp: replaceAll_def find_index_buffer edited_def)

lemma all_ok: "panel_ok p \<Longrightarrow> panel_ok (replaceAll True cw now p)"
  using replaceAll_simps[of cw now p] write_ok[of p 0 "length (buffer_of p)"
    "applyReplaceAll (buffer_of p) (all_matches p) (length (pn_findTerm p)) (pn_replaceTerm p)" cw now]
  by (auto simp: panel_ok_def edited_def)

lemma key_ok: "panel_ok p \<Longrightarrow> panel_ok (snd (onKeydown True cw now e p))"
  using begin_ok[of p False] accept_ok[of p cw now] undo_panel_ok[of p] redo_panel_ok[of p] insert_ok[of p "''    ''" None cw now]
  by (auto simp: onKeydown_def panel_ok_def buffer_of_def split: key_action.split)

lemma looked_ok:
  "panel_ok p \<Longrightarrow> panel_ok (onBeforeInput p)" "panel_ok p \<Longrightarrow> panel_ok (closeFind p)" "panel_ok p \<Longrightarrow> panel_ok (onMouseMove x y cw p)"
  "panel_ok p \<Longrightarrow> ed_buffer (f (pn_store p)) = buffer_of p \<Longrightarrow> panel_ok (on_store f p)"
  by (simp_all add: panel_ok_def onBeforeInput_def closeFind_def onMouseMove_def buffer_of_def on_store_def)

lemma panel_reach_ok: "panel_reach p \<Longrightarrow> panel_ok p"
proof (induction rule: panel_reach.induct)
  case (fixed p content cw now)
  from insert_ok[OF fixed.IH, of content "Some (0, length (buffer_of p))" cw now] fixed show ?case
    by (simp add: fixImports_def panel_ok_def)
next
  case (searched p q)
  have "panel_ok (p\<lparr>pn_findTerm := q, pn_findIndex := 0, pn_pendingFirst := True\<rparr>)" by (rule viewed_ok[OF searched.IH]) simp_all
  then show ?case unfolding find_input_def by (rule same_text_ok[OF follow_same])
next
  case (cased p)
  have "panel_ok (p\<lparr>pn_matchCase := \<not> pn_matchCase p, pn_findIndex := 0, pn_pendingFirst := True\<rparr>)" by (rule viewed_ok[OF cased.IH]) simp_all
  then show ?case unfolding toggle_case_def by (rule same_text_ok[OF follow_same])
next
  case (went p bw)
  then show ?case using same_text_ok[OF goto_same] by (simp add: findNext_def)
next
  case (jumped p h d)
  then show ?case by (simp add: jumpTo_def Let_def panel_ok_def buffer_of_def)
next
  case (reverted p agrees d)
  then show ?case using reset_ok' by (simp add: revertPanel_def)
next
  case (restored p agrees d f)
  have "panel_ok (notify_user a b (resetHistory q))" for a b q using reset_ok'[of q] by (simp add: panel_ok_def)
  with restored show ?case by (simp add: restoreBundled_def split: option.split)
qed (simp_all add: reset_ok' typed_ok undo_panel_ok redo_panel_ok insert_ok accept_ok replace_ok all_ok key_ok begin_ok answered_ok
      looked_ok)

section \<open>A deliberate edit is one step of undo\<close>

lemma fold_oldest_last:
  assumes "entries h = xs @ [e]" "cursor h = Suc (length xs)"
  shows "entries (fold_oldest h) \<noteq> []" "last (entries (fold_oldest h)) = e" "cursor (fold_oldest h) = length (entries (fold_oldest h))"
  using assms by (cases xs; simp add: fold_oldest_def MAX_DEPTH_def)+

lemma atomic_undo:
  assumes ok: "hist_ok h t" and ne: "t \<noteq> t'"
  shows "\<exists>h' s. undo (record_edit h t t' sb sa True now) t' = Some (h', t, s) \<and>
    (\<exists>s'. redo h' t = Some (record_edit h t t' sb sa True now, t', s'))"
proof -
  let ?r = "record_edit h t t' sb sa True now"
  have c: "cursor h \<le> length (entries h)" using ok by (simp add: hist_ok_def)
  have "\<not> coalesces h t t' sb sa True now" by (simp add: coalesces_def shouldCoalesce_def split: option.split)
  from record_edit_push[OF c ne this] obtain e where e: "is_patch e t t'"
    "?r = fold_oldest (h\<lparr>entries := applied h @ [e], cursor := Suc (length (applied h))\<rparr>)" by blast
  have f: "entries ?r \<noteq> []" "last (entries ?r) = e" "cursor ?r = length (entries ?r)"
    unfolding e(2) by (rule fold_oldest_last[where xs = "applied h"]; simp)+
  then obtain n where n: "cursor ?r = Suc n" "n < length (entries ?r)" "entries ?r ! n = e"
    by (cases "length (entries ?r)") (auto simp: last_conv_nth)
  from undo_ok[OF record_edit_ok[OF ok] n(1)] obtain h' t'' s where u: "undo ?r t' = Some (h', t'', s)"
    "\<exists>s'. redo h' t'' = Some (?r, t', s')" by blast
  have "t'' = revert_edit e t'" using u(1) n by (simp add: undo_def Let_def)
  also have "\<dots> = t" using e(1) by (auto simp: is_patch_def revert_apply)
  finally show ?thesis using u by blast
qed


definition plain_panel :: "string \<Rightarrow> panel" where
  "plain_panel t = \<lparr>pn_store = setBuffer t (ed_start (\<lambda>_. None)), pn_hist = createHistory [], pn_prevText = [], pn_prevSel = caret 0,
     pn_sel = caret 0, pn_atomic = False, pn_saving = False, pn_taTop = 0, pn_taLeft = 0, pn_taHeight = 0, pn_scrollTop = 0,
     pn_scrollLeft = 0, pn_viewport = 600, pn_symbols = [], pn_completion = None, pn_hover = None, pn_findOpen = False,
     pn_showReplace = False, pn_findTerm = [], pn_replaceTerm = [], pn_findIndex = 0, pn_matchCase = False, pn_resumeFrom = -1,
     pn_pendingFirst = False, pn_notes = []\<rparr>"

lemma plain_buffer: "buffer_of (resetHistory (plain_panel t)) = t"
  by (simp add: buffer_of_def resetHistory_def plain_panel_def)


lemma all_matches_case:
  assumes "pn_matchCase p"
  shows "applyReplaceAll (buffer_of p) (all_matches p) (length (pn_findTerm p)) (pn_replaceTerm p) =
    replace_ref (pn_findTerm p) (pn_replaceTerm p) (buffer_of p)"
  using applyReplaceAll_ref[of one_char "buffer_of p" "pn_findTerm p" "pn_replaceTerm p"] assms
  by (auto simp: all_matches_def)

lemma no_match_unchanged:
  assumes "pn_matchCase p" "pn_findTerm p = [] \<or> all_matches p = []"
  shows "replace_ref (pn_findTerm p) (pn_replaceTerm p) (buffer_of p) = buffer_of p"
  using all_matches_case[OF assms(1)] assms(2) by (auto simp: applyReplaceAll_def)



section \<open>The gutter and the snippets\<close>

definition gutter :: "nat \<Rightarrow> string" where
  "gutter n = join_with NL (map show_nat [1..<n + 1]) @ [NL]"

lemma join_with_append: "xs \<noteq> [] \<Longrightarrow> ys \<noteq> [] \<Longrightarrow> join_with c (xs @ ys) = join_with c xs @ c # join_with c ys"
proof (induction xs)
  case (Cons x xs)
  then show ?case by (cases "xs = []") (simp_all add: join_with_Cons)
qed simp

lemma gutter_step:
  assumes "snd cache = gutter (fst cache)"
  shows "buildGutter cache n = (n, gutter n)"
proof -
  obtain m g where c: "cache = (m, g)" by (cases cache)
  have "gutter m @ join_with NL (map show_nat [m + 1..<n + 1]) @ [NL] = gutter n" if "m < n" "0 < m"
  proof -
    have "[1..<n + 1] = [1..<m + 1] @ [m + 1..<n + 1]" using that upt_add_eq_append[of 1 "m + 1" "n - m"] by simp
    then show ?thesis using that by (simp add: gutter_def join_with_append del: upt_Suc)
  qed
  with assms c show ?thesis by (auto simp: buildGutter_def gutter_def)
qed

text \<open>
  C59. However the number of lines moved, the gutter built from the cache is the one built from nothing.
\<close>

theorem gutter_is_exact:
  "snd (foldl buildGutter (0, []) (ns @ [n])) = (if n = 0 \<and> list_all (\<lambda>m. m = 0) ns then [] else gutter n)"
proof -
  have zero: "list_all (\<lambda>m. m = 0) ms \<Longrightarrow> foldl buildGutter (0, []) ms = (0, [])" for ms
    by (induction ms) (simp_all add: buildGutter_def)
  have some: "\<not> list_all (\<lambda>m. m = 0) ms \<Longrightarrow> fst (foldl buildGutter (0, []) ms) = last ms \<and>
      snd (foldl buildGutter (0, []) ms) = gutter (last ms)" for ms
  proof (induction ms rule: rev_induct)
    case (snoc m ms)
    show ?case
    proof (cases "list_all (\<lambda>m. m = 0) ms")
      case True
      have f: "foldl buildGutter (0, []) (ms @ [m]) = buildGutter (0, []) m" by (simp add: zero[OF True])
      have "m \<noteq> 0" using True snoc.prems by auto
      then show ?thesis unfolding f by (simp add: buildGutter_def gutter_def)
    next
      case False
      then show ?thesis using gutter_step[of "foldl buildGutter (0, []) ms" m] snoc.IH by simp
    qed
  qed simp
  show ?thesis using zero[of "ns @ [n]"] some[of "ns @ [n]"] by auto
qed

end
