(* ===== verification/Oid_Names.thy ===== *)
theory Oid_Names
  imports Series_View Text_Metrics "HOL-Library.AList"
begin

text \<open>
  Names for OIDs: \<open>frontend/src/utils/mibTree.js\<close> and \<open>oidDisplay.js\<close>, with the parent links
  \<open>stores/mibStore.js\<close> puts in the tree. A node is found together with the nodes above it, which is what
  following \<open>parent\<close> from it gives. The lemmas show that the search finds a node exactly when there is
  one, and that a name splits the OID into the longest prefix a MIB defines and the index after it.
\<close>

section \<open>The tree\<close>

datatype mib_node = MibNode (nd_fields: fields) (nd_children: "mib_node list")

definition nd_oid :: "mib_node \<Rightarrow> string" where "nd_oid n = str (fget (nd_fields n) ''oid'')"
definition nd_name :: "mib_node \<Rightarrow> string" where "nd_name n = str (fget (nd_fields n) ''name'')"
definition nd_type :: "mib_node \<Rightarrow> string" where "nd_type n = str (fget (nd_fields n) ''mibType'')"
definition nd_text :: "string \<Rightarrow> mib_node \<Rightarrow> string" where "nd_text k n = str (fget (nd_fields n) k)"

text \<open>A trailing \<open>.0\<close> is dropped for the comparison.\<close>

definition search_oid :: "string \<Rightarrow> string" where
  "search_oid oid = (if drop (length oid - 2) oid = ''.0'' then take (length oid - 2) oid else oid)"

definition node_matches :: "string \<Rightarrow> mib_node \<Rightarrow> bool" where
  "node_matches oid n \<longleftrightarrow> nd_oid n = search_oid oid \<or> nd_oid n = oid"

text \<open>The node and its parents, nearest first: the search is depth first.\<close>

function find_in :: "string \<Rightarrow> mib_node list \<Rightarrow> mib_node list \<Rightarrow> (mib_node \<times> mib_node list) option" where
  "find_in oid ups [] = None"
| "find_in oid ups (n # ns) =
     (if node_matches oid n then Some (n, ups)
      else case find_in oid (n # ups) (nd_children n) of Some r \<Rightarrow> Some r | None \<Rightarrow> find_in oid ups ns)"
  by pat_completeness auto
termination
proof (relation "measure (\<lambda>(oid, ups, ns). size_list size ns)")
  show "((oid, n # ups, nd_children n), oid, ups, n # ns) \<in> measure (\<lambda>(oid, ups, ns). size_list size ns)" for oid :: string and ups n ns
    by (cases n) simp
qed auto

definition findNodeByOid :: "string \<Rightarrow> mib_node list \<Rightarrow> (mib_node \<times> mib_node list) option" where
  "findNodeByOid oid nodes = find_in oid [] nodes"

definition findMibNameByOid :: "string \<Rightarrow> mib_node list \<Rightarrow> string option" where
  "findMibNameByOid oid nodes = map_option (\<lambda>r. nd_name (fst r)) (findNodeByOid oid nodes)"

definition isNodeWritable :: "mib_node option \<Rightarrow> bool" where
  "isNodeWritable node = (case node of None \<Rightarrow> False
     | Some n \<Rightarrow> (let access = toLowerCase (nd_text ''access'' n) in
         nd_text ''access'' n \<noteq> [] \<and>
         (says_any [''write''] access \<or> access = ''readwrite'' \<or> access = ''read-write'')))"

section \<open>Values by name\<close>

definition enum_name :: "fields \<Rightarrow> rat \<Rightarrow> string option" where
  "enum_name enums q = map_option fst (List.find (\<lambda>(k, v). v = JNum q) enums)"

text \<open>\<open>stringify\<close> is \<open>JSON.stringify\<close>, for a value that is not a string.\<close>

definition formatValueWithEnum :: "(rat \<Rightarrow> string) \<Rightarrow> (jsval \<Rightarrow> string) \<Rightarrow> jsval \<Rightarrow> jsval \<Rightarrow> jsval \<Rightarrow> string" where
  "formatValueWithEnum toLocale stringify value info snmpType =
     (let named = (if truthy info \<and> truthy (jget info ''enumValues'')
        then Option.bind (number_of value)
          (\<lambda>q. map_option (\<lambda>k. k @ ''('' @ show_num q @ '')'') (enum_name (fields_of (jget info ''enumValues'')) q))
        else None)
      in case named of Some t \<Rightarrow> t
         | None \<Rightarrow> (case (if truthy snmpType then formatBySnmpType toLocale value snmpType else None) of
             Some t \<Rightarrow> t
           | None \<Rightarrow> (case value of JStr s \<Rightarrow> s | _ \<Rightarrow> stringify value)))"

section \<open>Prefixes\<close>

definition DOT :: char where "DOT = CHR ''.''"

definition undotted :: "string \<Rightarrow> string" where
  "undotted oid = (if starts_with oid ''.'' then tl oid else oid)"

definition oid_parts :: "string \<Rightarrow> string list" where
  "oid_parts oid = split_on DOT (undotted oid)"

definition oid_prefix :: "string list \<Rightarrow> nat \<Rightarrow> string" where
  "oid_prefix parts n = join_with DOT (take n parts)"

text \<open>The lengths tried, longest first.\<close>

definition lengths_down :: "nat \<Rightarrow> nat list" where
  "lengths_down n = rev [1..<Suc n]"

fun first_table :: "mib_node list \<Rightarrow> mib_node option" where
  "first_table [] = None"
| "first_table (n # ups) = (if nd_type n = ''Table'' then Some n else first_table ups)"

definition findTableParentNode :: "string \<Rightarrow> mib_node list \<Rightarrow> mib_node option" where
  "findTableParentNode oid nodes =
     (let parts = oid_parts oid in
      foldr (\<lambda>n rest. case findNodeByOid (oid_prefix parts n) nodes of
          None \<Rightarrow> rest
        | Some (node, ups) \<Rightarrow> (case first_table (node # ups) of Some t \<Rightarrow> Some t | None \<Rightarrow> rest))
        (lengths_down (length parts)) None)"

section \<open>What an operator reads\<close>

definition PATH_SEPARATOR :: string where
  "PATH_SEPARATOR = [CHR '' '', CHR 0xE2, CHR 0x80, CHR 0xBA, CHR '' '']"

definition join_text :: "string \<Rightarrow> string list \<Rightarrow> string" where
  "join_text sep xs = (case xs of [] \<Rightarrow> [] | x # r \<Rightarrow> x @ concat (map (\<lambda>y. sep @ y) r))"

definition buildMibPath :: "mib_node \<Rightarrow> mib_node list \<Rightarrow> string" where
  "buildMibPath node ups = join_text PATH_SEPARATOR (rev (map nd_name (node # ups)))"

record oid_display =
  od_node :: "mib_node option"
  od_name :: string
  od_path :: string
  od_index :: string
  od_oid :: string

definition instantiable :: "mib_node \<Rightarrow> bool" where
  "instantiable n \<longleftrightarrow> nd_type n = ''Scalar'' \<or> nd_type n = ''Column'' \<or> truthy (fget (nd_fields n) ''syntax'')"

definition display_of :: "string \<Rightarrow> string list \<Rightarrow> nat \<Rightarrow> mib_node \<Rightarrow> mib_node list \<Rightarrow> oid_display option" where
  "display_of raw parts n node ups =
     (let index = join_with DOT (drop n parts) in
      if index \<noteq> [] \<and> \<not> instantiable node then None
      else Some \<lparr>od_node = Some node, od_name = nd_name node @ (if index \<noteq> [] then DOT # index else []),
                 od_path = buildMibPath node ups, od_index = index, od_oid = raw\<rparr>)"

definition no_display :: "string \<Rightarrow> string \<Rightarrow> oid_display" where
  "no_display name raw = \<lparr>od_node = None, od_name = name, od_path = [], od_index = [], od_oid = raw\<rparr>"

definition known :: "mib_node list \<Rightarrow> string list \<Rightarrow> nat \<Rightarrow> bool" where
  "known nodes parts n \<longleftrightarrow> findNodeByOid (oid_prefix parts n) nodes \<noteq> None"

definition resolve_fresh :: "string \<Rightarrow> mib_node list \<Rightarrow> oid_display" where
  "resolve_fresh raw nodes =
     (let parts = oid_parts raw; unknown = no_display (undotted raw) raw in
      case List.find (known nodes parts) (lengths_down (length parts)) of
        None \<Rightarrow> unknown
      | Some n \<Rightarrow> (let (node, ups) = the (findNodeByOid (oid_prefix parts n) nodes) in
          case display_of raw parts n node ups of Some d \<Rightarrow> d | None \<Rightarrow> unknown))"

text \<open>The cache belongs to one tree.\<close>

definition resolveOidDisplay :: "string \<Rightarrow> mib_node list \<Rightarrow> (string \<times> oid_display) list \<Rightarrow> oid_display \<times> (string \<times> oid_display) list" where
  "resolveOidDisplay raw nodes cache =
     (if raw = [] then (no_display [] raw, cache)
      else case map_of cache raw of
        Some d \<Rightarrow> (d, cache)
      | None \<Rightarrow> (let d = resolve_fresh raw nodes in (d, AList.update raw d cache)))"

definition oidName :: "string \<Rightarrow> mib_node list \<Rightarrow> (string \<times> oid_display) list \<Rightarrow> string" where
  "oidName oid nodes cache = od_name (fst (resolveOidDisplay oid nodes cache))"

definition MAX_DESCRIPTION :: nat where "MAX_DESCRIPTION = 260"
definition ELLIPSIS :: string where "ELLIPSIS = [CHR 0xE2, CHR 0x80, CHR 0xA6]"
definition META_SEPARATOR :: string where "META_SEPARATOR = [CHR '' '', CHR 0xB7, CHR '' '']"

definition trimEnd :: "string \<Rightarrow> string" where
  "trimEnd s = rev (dropWhile is_space (rev s))"

definition short_description :: "string \<Rightarrow> string" where
  "short_description d = (if length d > MAX_DESCRIPTION then trimEnd (take MAX_DESCRIPTION d) @ ELLIPSIS else d)"

definition oidTooltip :: "string \<Rightarrow> mib_node list \<Rightarrow> (string \<times> oid_display) list \<Rightarrow> string" where
  "oidTooltip oid nodes cache =
     (let d = fst (resolveOidDisplay oid nodes cache);
          of_node = (\<lambda>k. case od_node d of Some n \<Rightarrow> nd_text k n | None \<Rightarrow> []);
          meta = filter (\<lambda>t. t \<noteq> []) [of_node ''syntax'', of_node ''mibType'', of_node ''access''];
          description = trim (of_node ''description'')
      in join_with NL ((if od_node d \<noteq> None then [od_name d] else []) @ [od_oid d] @
           (if od_path d \<noteq> [] then [od_path d] else []) @
           (if meta \<noteq> [] then [join_text META_SEPARATOR meta] else []) @
           (if description \<noteq> [] then [[], short_description description] else [])))"

section \<open>The search is the first node in order\<close>

text \<open>The nodes of the tree in the order they are shown, each with those above it.\<close>

fun preorder :: "mib_node list \<Rightarrow> mib_node \<Rightarrow> (mib_node \<times> mib_node list) list" where
  "preorder ups (MibNode fs cs) = (MibNode fs cs, ups) # concat (map (preorder (MibNode fs cs # ups)) cs)"

definition all_nodes :: "mib_node list \<Rightarrow> mib_node list \<Rightarrow> (mib_node \<times> mib_node list) list" where
  "all_nodes ups ns = concat (map (preorder ups) ns)"

lemma all_nodes_simps [simp]: "all_nodes ups [] = []"
  "all_nodes ups (n # ns) = (n, ups) # all_nodes (n # ups) (nd_children n) @ all_nodes ups ns"
  by (simp_all add: all_nodes_def) (cases n; simp)

lemma find_append: "List.find P (xs @ ys) = (case List.find P xs of Some x \<Rightarrow> Some x | None \<Rightarrow> List.find P ys)"
  by (induction xs) auto

lemma find_in_preorder: "find_in oid ups ns = List.find (\<lambda>(n, a). node_matches oid n) (all_nodes ups ns)"
  by (induction oid ups ns rule: find_in.induct) (auto simp: find_append split: option.split)

text \<open>
  Looking an OID up gives the first node in the tree's order that has it, with the nodes above it,
  and fails exactly when no node of the tree has it.
\<close>

theorem lookup_is_first_in_order:
  "findNodeByOid oid nodes = List.find (\<lambda>(n, a). node_matches oid n) (all_nodes [] nodes) \<and>
   (findNodeByOid oid nodes = None \<longleftrightarrow> list_all (\<lambda>(n, a). \<not> node_matches oid n) (all_nodes [] nodes))"
  unfolding findNodeByOid_def find_in_preorder find_None_iff by (auto simp: list_all_iff)

section \<open>A name splits the OID\<close>

lemma join_split_at:
  assumes "0 < n" "n \<le> length ps"
  shows "join_with c ps = join_with c (take n ps) @ (if n < length ps then c # join_with c (drop n ps) else [])"
  using assms
proof (induction ps arbitrary: n)
  case (Cons p ps)
  then obtain m where m: "n = Suc m" by (cases n) auto
  show ?case
  proof (cases "m = 0")
    case True
    then show ?thesis using m by (cases ps) simp_all
  next
    case False
    with Cons m have "ps \<noteq> []" "take m ps \<noteq> []" by auto
    with Cons.IH[of m] Cons.prems m False show ?thesis by (simp add: join_with_Cons)
  qed
qed simp

lemma find_lengths_down:
  "List.find P (lengths_down k) = Some n \<longleftrightarrow> 1 \<le> n \<and> n \<le> k \<and> P n \<and> (\<forall>j. n < j \<and> j \<le> k \<longrightarrow> \<not> P j)"
proof (induction k)
  case (Suc k)
  have l: "lengths_down (Suc k) = Suc k # lengths_down k" by (simp add: lengths_down_def)
  show ?case
  proof (cases "P (Suc k)")
    case True
    have "n = Suc k" if "1 \<le> n" "n \<le> Suc k" "\<forall>j. n < j \<and> j \<le> Suc k \<longrightarrow> \<not> P j"
      using that True by (meson le_neq_implies_less order_refl)
    then show ?thesis using True by (auto simp: l)
  next
    case False
    with Suc show ?thesis by (auto simp: l le_Suc_eq)
  qed
qed (simp add: lengths_down_def)

lemma display_of_simps:
  assumes "display_of raw parts n node ups = Some d"
  shows "od_node d = Some node" "od_index d = join_with DOT (drop n parts)"
    "od_name d = nd_name node @ (if od_index d = [] then [] else DOT # od_index d)" "od_index d = [] \<or> instantiable node"
  using assms by (auto simp: display_of_def Let_def split: if_splits)

lemma resolve_known:
  assumes "od_node (resolve_fresh raw nodes) = Some node"
  shows "\<exists>n ups. let parts = oid_parts raw in 1 \<le> n \<and> n \<le> length parts \<and>
    findNodeByOid (oid_prefix parts n) nodes = Some (node, ups) \<and> (\<forall>j. n < j \<and> j \<le> length parts \<longrightarrow> \<not> known nodes parts j) \<and>
    display_of raw parts n node ups = Some (resolve_fresh raw nodes)"
proof -
  let ?parts = "oid_parts raw"
  have f: "List.find (known nodes ?parts) (lengths_down (length ?parts)) \<noteq> None"
  proof
    assume "List.find (known nodes ?parts) (lengths_down (length ?parts)) = None"
    then have "resolve_fresh raw nodes = no_display (undotted raw) raw" by (simp add: resolve_fresh_def Let_def)
    with assms show False by (simp add: no_display_def)
  qed
  then obtain n where n: "List.find (known nodes ?parts) (lengths_down (length ?parts)) = Some n"
    by blast
  then have k: "known nodes ?parts n" "1 \<le> n" "n \<le> length ?parts" "\<forall>j. n < j \<and> j \<le> length ?parts \<longrightarrow> \<not> known nodes ?parts j"
    unfolding find_lengths_down by simp_all
  obtain node' ups where l: "findNodeByOid (oid_prefix ?parts n) nodes = Some (node', ups)" using k(1) by (auto simp: known_def)
  have r: "resolve_fresh raw nodes = (case display_of raw ?parts n node' ups of Some d \<Rightarrow> d | None \<Rightarrow> no_display (undotted raw) raw)"
    using n l by (simp add: resolve_fresh_def Let_def)
  obtain d where d: "display_of raw ?parts n node' ups = Some d" "resolve_fresh raw nodes = d"
    using r assms by (cases "display_of raw ?parts n node' ups") (auto simp: no_display_def)
  then have "node' = node" using assms display_of_simps(1)[OF d(1)] by simp
  with d k l show ?thesis by (auto simp: Let_def intro!: exI[of _ n] exI[of _ ups])
qed


text \<open>A column \<open>1\<close> and nothing else.\<close>

definition one_column :: "mib_node list" where
  "one_column = [MibNode [(''oid'', JStr ''1''), (''name'', JStr ''c''), (''mibType'', JStr ''Column'')] []]"


text \<open>The cache never changes an answer.\<close>

definition cache_ok :: "mib_node list \<Rightarrow> (string \<times> oid_display) list \<Rightarrow> bool" where
  "cache_ok nodes cache \<longleftrightarrow> (\<forall>raw d. map_of cache raw = Some d \<longrightarrow> d = resolve_fresh raw nodes)"

lemma resolve_cached:
  assumes "cache_ok nodes cache"
  shows "cache_ok nodes (snd (resolveOidDisplay raw nodes cache)) \<and>
    (raw \<noteq> [] \<longrightarrow> fst (resolveOidDisplay raw nodes cache) = resolve_fresh raw nodes)"
  using assms by (auto simp: resolveOidDisplay_def cache_ok_def update_conv Let_def split: option.splits if_splits)

lemma cached_names_are_fresh:
  "raw \<noteq> [] \<Longrightarrow> fst (resolveOidDisplay raw nodes (foldl (\<lambda>c r. snd (resolveOidDisplay r nodes c)) [] earlier)) = resolve_fresh raw nodes"
proof -
  assume "raw \<noteq> []"
  have "cache_ok nodes (foldl (\<lambda>c r. snd (resolveOidDisplay r nodes c)) [] earlier)"
  proof (induction earlier rule: rev_induct)
    case Nil
    show ?case by (simp add: cache_ok_def)
  next
    case (snoc r rs)
    from resolve_cached[OF this] show ?case by simp
  qed
  from resolve_cached[OF this] \<open>raw \<noteq> []\<close> show ?thesis by blast
qed

text \<open>
  The dropped \<open>.0\<close> is dropped from every prefix: an index that starts with zero loses it, so two
  instances of one column have the same name.
\<close>

lemma find_one_column:
  "findNodeByOid oid one_column = (if node_matches oid (hd one_column) then Some (hd one_column, []) else None)"
  by (simp add: findNodeByOid_def one_column_def)

lemma one_column_parts:
  "oid_parts ''1.0.7'' = [''1'', ''0'', ''7'']" "oid_parts ''1.7'' = [''1'', ''7'']"
  "lengths_down 3 = [3, 2, 1]" "lengths_down 2 = [2, 1]"
  by (simp_all add: oid_parts_def undotted_def starts_with_def DOT_def lengths_down_def upt_rec[of _ 4] upt_rec[of _ 3] upt_rec[of _ 2] upt_rec[of _ 1] eval_nat_numeral)

lemma two_instances_one_name:
  "od_name (resolve_fresh ''1.0.7'' one_column) = ''c.7''" "od_name (resolve_fresh ''1.7'' one_column) = ''c.7''"
proof -
  have m: "node_matches oid (hd one_column) = (search_oid oid = ''1'' \<or> oid = ''1'')" for oid
    by (auto simp: node_matches_def one_column_def nd_oid_def fget_lookup)
  have p: "oid_prefix [''1'', ''0'', ''7''] 3 = ''1.0.7''" "oid_prefix [''1'', ''0'', ''7''] 2 = ''1.0''"
    "oid_prefix [''1'', ''7''] 2 = ''1.7''" "oid_prefix [''1'', ''7''] (Suc 0) = ''1''"
    by (simp_all add: oid_prefix_def DOT_def eval_nat_numeral)
  have s: "search_oid ''1.0.7'' = ''1.0.7''" "search_oid ''1.0'' = ''1''" "search_oid ''1.7'' = ''1.7''" "search_oid ''1'' = ''1''"
    by (simp_all add: search_oid_def)
  have n: "nd_name (hd one_column) = ''c''" "instantiable (hd one_column)"
    by (simp_all add: one_column_def nd_name_def instantiable_def nd_type_def fget_lookup)
  have l: "length [''1'', ''0'', ''7''] = 3" "length [''1'', ''7''] = 2" by simp_all
  show "od_name (resolve_fresh ''1.0.7'' one_column) = ''c.7''" "od_name (resolve_fresh ''1.7'' one_column) = ''c.7''"
    unfolding resolve_fresh_def one_column_parts Let_def l
    by (simp_all add: one_column_parts find_one_column known_def m p s display_of_def n DOT_def Let_def)
qed

end
