(* ===== verification/Address_Masking.thy ===== *)
theory Address_Masking
  imports Js_Text
begin

text \<open>
  Anonymous mode: \<open>frontend/src/utils/ipText.js\<close> and \<open>anonymize.js\<close>. The expression that finds
  candidates is matched as its automaton does: every repetition in it takes as much as it can, and giving
  some back never helps, because what must follow it is a character it cannot take. The lemmas show that
  an address keeps one label, that an OID of small arcs is left alone, and which OIDs are not.
\<close>

section \<open>What an address looks like\<close>

definition is_hex :: "char \<Rightarrow> bool" where
  "is_hex c \<longleftrightarrow> is_ascii_digit c \<or> 65 \<le> code c \<and> code c \<le> 70 \<or> 97 \<le> code c \<and> code c \<le> 102"

definition zone_char :: "char \<Rightarrow> bool" where
  "zone_char c \<longleftrightarrow> is_ascii_digit c \<or> 65 \<le> code c \<and> code c \<le> 90 \<or> 97 \<le> code c \<and> code c \<le> 122 \<or> c \<in> set ''._~-''"

definition octet :: "string \<Rightarrow> bool" where
  "octet p \<longleftrightarrow> 1 \<le> length p \<and> length p \<le> 3 \<and> list_all is_ascii_digit p \<and> read_base 10 p \<le> 255"

definition isIpv4 :: "string \<Rightarrow> bool" where
  "isIpv4 s = (let parts = split_on CHR ''.'' s in length parts = 4 \<and> list_all octet parts)"

fun split_double :: "string \<Rightarrow> string list" where
  "split_double (a # b # s) =
     (if a = CHR '':'' \<and> b = CHR '':'' then [] # split_double s
      else case split_double (b # s) of h # t \<Rightarrow> (a # h) # t | [] \<Rightarrow> [[a]])"
| "split_double s = [s]"

definition colon_parts :: "string \<Rightarrow> string list" where
  "colon_parts part = (if part = [] then [] else split_on CHR '':'' part)"

definition hex_group :: "string \<Rightarrow> bool" where
  "hex_group g \<longleftrightarrow> 1 \<le> length g \<and> length g \<le> 4 \<and> list_all is_hex g"

definition isIpv6 :: "string \<Rightarrow> bool" where
  "isIpv6 s =
     (let addr = hd (split_on CHR ''%'' s); halves = split_double addr;
          groups = colon_parts (halves ! 0) @ (if length halves = 2 then colon_parts (halves ! 1) else []);
          ends4 = groups \<noteq> [] \<and> CHR ''.'' \<in> set (last groups);
          count = length groups + (if ends4 then 1 else 0);
          hexes = (if ends4 then butlast groups else groups)
      in CHR '':'' \<in> set addr \<and> length halves \<le> 2 \<and> (ends4 \<longrightarrow> isIpv4 (last groups)) \<and> list_all hex_group hexes \<and>
         (if length halves = 2 then count \<le> 7 else count = 8))"

section \<open>Candidates\<close>

text \<open>How many groups ending in a colon, and their length together.\<close>

function colon_groups :: "string \<Rightarrow> nat \<times> nat" where
  "colon_groups s =
     (let h = takeWhile is_hex (take 4 s); r = drop (length h) s in
      if starts_with r '':'' then (let (k, m) = colon_groups (tl r) in (Suc k, length h + 1 + m)) else (0, 0))"
  by pat_completeness auto
termination
proof (relation "measure length")
  show "\<And>s x xa. x = takeWhile is_hex (take 4 s) \<Longrightarrow> xa = drop (length x) s \<Longrightarrow> starts_with xa '':'' \<Longrightarrow> (tl xa, s) \<in> measure length"
  proof -
    fix s x xa :: string
    assume "xa = drop (length x) s" "starts_with xa '':''"
    then show "(tl xa, s) \<in> measure length" by (cases xa) (auto simp: starts_with_def dest: arg_cong[where f = length])
  qed
qed simp

declare colon_groups.simps [simp del]

fun dot_groups :: "nat \<Rightarrow> string \<Rightarrow> nat \<times> nat" where
  "dot_groups 0 s = (0, 0)"
| "dot_groups (Suc n) s =
     (let d = takeWhile is_ascii_digit (take 3 (tl s)) in
      if starts_with s ''.'' \<and> d \<noteq> [] then (let (k, m) = dot_groups n (drop (1 + length d) s) in (Suc k, 1 + length d + m)) else (0, 0))"

definition match6 :: "string \<Rightarrow> nat option" where
  "match6 s =
     (let (k, m) = colon_groups s; t = takeWhile is_hex (take 4 (drop m s)); a = m + length t;
          b = a + snd (dot_groups 3 (drop a s)); r = drop b s; z = takeWhile zone_char (tl r)
      in if k < 2 then None else Some (if starts_with r ''%'' \<and> z \<noteq> [] then b + 1 + length z else b))"

definition match4 :: "string \<Rightarrow> nat option" where
  "match4 s =
     (let d = takeWhile is_ascii_digit (take 3 s); (k, m) = dot_groups 3 (drop (length d) s)
      in if d \<noteq> [] \<and> k = 3 then Some (length d + m) else None)"

definition candidate_at :: "string \<Rightarrow> nat option" where
  "candidate_at s = (case match6 s of Some n \<Rightarrow> Some n | None \<Rightarrow> match4 s)"

lemma colon_groups_pos: "fst (colon_groups s) > 0 \<Longrightarrow> snd (colon_groups s) > 0"
  by (subst (asm) colon_groups.simps, subst colon_groups.simps) (auto simp: Let_def split: prod.splits if_splits)

lemma candidate_pos: "candidate_at s = Some n \<Longrightarrow> 0 < n \<and> s \<noteq> []"
proof -
  assume c: "candidate_at s = Some n"
  have "0 < n" using c colon_groups_pos[of s]
    by (auto simp: candidate_at_def match6_def match4_def Let_def split: option.splits prod.splits if_splits)
  moreover have "s \<noteq> []"
  proof
    assume "s = []"
    with c show False
      by (simp add: candidate_at_def match6_def match4_def Let_def colon_groups.simps[of "[]"] starts_with_def)
  qed
  ultimately show ?thesis by blast
qed

section \<open>Replacing them\<close>

definition digit_dot_before :: "string \<Rightarrow> bool" where
  "digit_dot_before before \<longleftrightarrow> length before \<ge> 2 \<and> last before = CHR ''.'' \<and> is_ascii_digit (last (butlast before))"

definition dot_digit_after :: "string \<Rightarrow> bool" where
  "dot_digit_after rest \<longleftrightarrow> starts_with rest ''.'' \<and> tl rest \<noteq> [] \<and> is_ascii_digit (hd (tl rest))"

definition rewritten :: "string \<Rightarrow> string \<Rightarrow> string \<Rightarrow> bool" where
  "rewritten before m rest \<longleftrightarrow> isIpv6 m \<or> isIpv4 m \<and> \<not> digit_dot_before before \<and> \<not> dot_digit_after rest"

text \<open>The replacement keeps a state of its own, the labels given so far.\<close>

function replace_from :: "(string \<Rightarrow> 's \<Rightarrow> string \<times> 's) \<Rightarrow> 's \<Rightarrow> string \<Rightarrow> string \<Rightarrow> string \<times> 's" where
  "replace_from fn st before s =
     (case candidate_at s of
        None \<Rightarrow> (case s of [] \<Rightarrow> ([], st)
          | c # r \<Rightarrow> (let (out, st') = replace_from fn st (before @ [c]) r in (c # out, st')))
      | Some n \<Rightarrow>
          (let m = take n s; rest = drop n s; (t, st1) = (if rewritten before m rest then fn m st else (m, st));
               (out, st2) = replace_from fn st1 (before @ m) rest
           in (t @ out, st2)))"
  by pat_completeness auto
termination by (relation "measure (\<lambda>(fn, st, before, s). length s)") (auto dest: candidate_pos)

declare replace_from.simps [simp del]

definition replaceAddresses :: "(string \<Rightarrow> 's \<Rightarrow> string \<times> 's) \<Rightarrow> 's \<Rightarrow> string \<Rightarrow> string \<times> 's" where
  "replaceAddresses fn st txt = replace_from fn st [] txt"

section \<open>Labels\<close>

record masks =
  ms_ips :: "(string \<times> string) list"
  ms_hosts :: "(string \<times> string) list"
  ms_ipCounter :: nat
  ms_hostCounter :: nat

definition resetMappings :: masks where
  "resetMappings = \<lparr>ms_ips = [], ms_hosts = [], ms_ipCounter = 1, ms_hostCounter = 1\<rparr>"

definition anonymizeIp :: "string \<Rightarrow> masks \<Rightarrow> string \<times> masks" where
  "anonymizeIp ip st =
     (if ip = [] then (ip, st)
      else case map_of (ms_ips st) ip of
        Some l \<Rightarrow> (l, st)
      | None \<Rightarrow> (let l = ''Device-'' @ show_nat (ms_ipCounter st) in
          (l, st\<lparr>ms_ips := ms_ips st @ [(ip, l)], ms_ipCounter := Suc (ms_ipCounter st)\<rparr>)))"

definition anonymizeHost :: "string \<Rightarrow> masks \<Rightarrow> string \<times> masks" where
  "anonymizeHost name st =
     (if name = [] then (name, st)
      else case map_of (ms_hosts st) name of
        Some l \<Rightarrow> (l, st)
      | None \<Rightarrow> (let l = ''Host-'' @ show_nat (ms_hostCounter st) in
          (l, st\<lparr>ms_hosts := ms_hosts st @ [(name, l)], ms_hostCounter := Suc (ms_hostCounter st)\<rparr>)))"

definition anonymizeText :: "string \<Rightarrow> masks \<Rightarrow> string \<times> masks" where
  "anonymizeText txt st = replaceAddresses anonymizeIp st txt"

definition BULLET :: string where "BULLET = [CHR 0xE2, CHR 0x80, CHR 0xA2]"

definition maskString :: "string \<Rightarrow> string" where
  "maskString s = (if s = [] then s else concat (replicate 6 BULLET))"

definition anonymizeCidr :: "string \<Rightarrow> masks \<Rightarrow> string \<times> masks" where
  "anonymizeCidr cidr st =
     (if cidr = [] then (cidr, st)
      else let parts = split_on CHR ''/'' cidr; (l, st') = anonymizeIp (hd parts) st in
        (l @ (if length parts > 1 \<and> parts ! 1 \<noteq> [] then CHR ''/'' # parts ! 1 else []), st'))"

definition maskSysDescr :: "string \<Rightarrow> string" where
  "maskSysDescr descr = (if descr = [] then descr else ''[device description]'')"

section \<open>One label for one address\<close>

definition device_label :: "nat \<Rightarrow> string" where
  "device_label n = ''Device-'' @ show_nat n"

definition labels_ok :: "masks \<Rightarrow> bool" where
  "labels_ok st \<longleftrightarrow> distinct (map fst (ms_ips st)) \<and> 1 \<le> ms_ipCounter st \<and>
     map snd (ms_ips st) = map device_label [1..<ms_ipCounter st]"

fun answers :: "string list \<Rightarrow> masks \<Rightarrow> string list \<times> masks" where
  "answers [] st = ([], st)"
| "answers (ip # ips) st = (let (l, st1) = anonymizeIp ip st; (ls, st2) = answers ips st1 in (l # ls, st2))"

lemma device_label_inject: "device_label m = device_label n \<longleftrightarrow> m = n"
  by (simp add: device_label_def show_base_inject)

lemma anonymizeIp_step:
  assumes "labels_ok st" "ip \<noteq> []" "anonymizeIp ip st = (l, st1)"
  shows "labels_ok st1 \<and> map_of (ms_ips st) \<subseteq>\<^sub>m map_of (ms_ips st1) \<and> map_of (ms_ips st1) ip = Some l"
proof (cases "map_of (ms_ips st) ip")
  case None
  have st1: "st1 = st\<lparr>ms_ips := ms_ips st @ [(ip, l)], ms_ipCounter := Suc (ms_ipCounter st)\<rparr>" "l = device_label (ms_ipCounter st)"
    using assms None by (auto simp: anonymizeIp_def Let_def device_label_def)
  have "ip \<notin> fst ` set (ms_ips st)" using None by (simp add: map_of_eq_None_iff)
  then show ?thesis using assms(1) None st1 by (auto simp: labels_ok_def map_le_def map_add_def)
next
  case (Some l')
  then show ?thesis using assms by (auto simp: anonymizeIp_def)
qed

lemma answers_run:
  assumes "labels_ok st" "[] \<notin> set ips" "answers ips st = (ls, st2)"
  shows "labels_ok st2 \<and> map_of (ms_ips st) \<subseteq>\<^sub>m map_of (ms_ips st2) \<and> map (map_of (ms_ips st2)) ips = map Some ls"
  using assms
proof (induction ips arbitrary: st ls)
  case (Cons ip ips)
  obtain l st1 where a: "anonymizeIp ip st = (l, st1)" by fastforce
  obtain ls' where b: "answers ips st1 = (ls', st2)" "ls = l # ls'" using Cons.prems(3) a by (auto simp: Let_def split: prod.splits)
  have s: "labels_ok st1 \<and> map_of (ms_ips st) \<subseteq>\<^sub>m map_of (ms_ips st1) \<and> map_of (ms_ips st1) ip = Some l"
    using anonymizeIp_step[OF Cons.prems(1) _ a] Cons.prems(2) by auto
  from Cons.IH[OF _ _ b(1)] s Cons.prems(2)
  have r: "labels_ok st2" "map_of (ms_ips st1) \<subseteq>\<^sub>m map_of (ms_ips st2)" "map (map_of (ms_ips st2)) ips = map Some ls'" by auto
  have "map_of (ms_ips st2) ip = Some l" using s r(2) unfolding map_le_def by (metis domI)
  moreover have "map_of (ms_ips st) \<subseteq>\<^sub>m map_of (ms_ips st2)" using s r(2) map_le_trans by blast
  ultimately show ?case using r b(2) by simp
qed simp

lemma labels_inject:
  assumes "labels_ok st" "map_of (ms_ips st) a = Some l" "map_of (ms_ips st) b = Some l"
  shows "a = b"
proof -
  have d: "distinct (map snd (ms_ips st))"
    using assms(1) by (simp add: labels_ok_def distinct_map inj_on_def device_label_inject)
  have "(a, l) \<in> set (ms_ips st)" "(b, l) \<in> set (ms_ips st)" using assms(2,3) by (simp_all add: map_of_SomeD)
  with d have "(a, l) = (b, l)" unfolding distinct_map inj_on_def by (metis snd_conv)
  then show ?thesis by simp
qed

lemma labels_range:
  assumes "labels_ok st" "map_of (ms_ips st) a = Some l"
  shows "\<exists>n. l = device_label n"
proof -
  have "l \<in> set (map snd (ms_ips st))" using map_of_SomeD[OF assms(2)] by force
  moreover have "map snd (ms_ips st) = map device_label [1..<ms_ipCounter st]" using assms(1) by (simp add: labels_ok_def)
  ultimately have "l \<in> set (map device_label [1..<ms_ipCounter st])" by (simp only:)
  then show ?thesis by auto
qed

text \<open>
  Within a session an address always has one label, no two addresses share one, and a label says
  nothing of its address: it is \<open>Device-\<close> and a number.
\<close>

theorem labels_stable_and_distinct:
  assumes "[] \<notin> set ips"
  shows "\<exists>f. inj_on f (set ips) \<and> fst (answers ips resetMappings) = map f ips \<and> f ` set ips \<subseteq> range device_label"
proof -
  obtain ls st where r: "answers ips resetMappings = (ls, st)" by fastforce
  have "labels_ok resetMappings" by (simp add: labels_ok_def resetMappings_def)
  from answers_run[OF this assms r]
  have st: "labels_ok st" "map (map_of (ms_ips st)) ips = map Some ls" by auto
  define f where "f = (\<lambda>ip. the (map_of (ms_ips st) ip))"
  have some: "map_of (ms_ips st) ip = Some (f ip)" if "ip \<in> set ips" for ip
  proof -
    from that obtain i where i: "i < length ips" "ip = ips ! i" by (metis in_set_conv_nth)
    then have "map_of (ms_ips st) ip = Some (ls ! i)"
      using arg_cong[OF st(2), of "\<lambda>xs. xs ! i"] arg_cong[OF st(2), of length] by simp
    then show ?thesis by (simp add: f_def)
  qed
  have "ls = map the (map Some ls)" by simp
  also have "\<dots> = map f ips" unfolding st(2)[symmetric] by (simp add: f_def)
  finally have l: "ls = map f ips" .
  have "inj_on f (set ips)" using labels_inject[OF st(1)] some by (metis inj_onI)
  moreover have "f ` set ips \<subseteq> range device_label" using labels_range[OF st(1)] some by blast
  ultimately show ?thesis using l r by (intro exI[of _ f]) simp
qed

theorem labels_stable_and_distinct_witness:
  "fst (answers [''10.0.0.1'', ''10.0.0.2'', ''10.0.0.1''] resetMappings) ! 0 = fst (answers [''10.0.0.1'', ''10.0.0.2'', ''10.0.0.1''] resetMappings) ! 2"
proof -
  obtain f where "fst (answers [''10.0.0.1'', ''10.0.0.2'', ''10.0.0.1''] resetMappings) = map f [''10.0.0.1'', ''10.0.0.2'', ''10.0.0.1'']"
    using labels_stable_and_distinct[of "[''10.0.0.1'', ''10.0.0.2'', ''10.0.0.1'']"] by auto
  then show ?thesis by simp
qed

section \<open>OIDs in the text\<close>

definition dotted :: "nat list \<Rightarrow> string" where
  "dotted ns = concat (map (\<lambda>n. CHR ''.'' # show_nat n) ns)"

lemma show_small: "n < 1000 \<Longrightarrow> length (show_nat n) \<le> 3"
  by (subst show_base.simps, subst show_base.simps, subst show_base.simps) auto

lemma show_digits: "list_all is_ascii_digit (show_nat n)"
  using show_nat_digits by (auto simp: list_all_iff is_ascii_digit_def code_def)

lemma digit_not: "is_ascii_digit c \<Longrightarrow> c \<noteq> CHR ''.'' \<and> c \<noteq> CHR '':''"
  by (auto simp: is_ascii_digit_def code_def)

lemma dot_no_digit: "\<not> is_ascii_digit CHR ''.''" "\<not> is_hex CHR ''.''"
  by (simp_all add: is_ascii_digit_def is_hex_def code_def)

lemma take_digits:
  assumes "list_all is_ascii_digit ds" "length ds \<le> 3" "rest = [] \<or> hd rest = CHR ''.''"
  shows "takeWhile is_ascii_digit (take 3 (ds @ rest)) = ds"
proof -
  have "take 3 (ds @ rest) = ds @ take (3 - length ds) rest" using assms(2) by simp
  moreover have "takeWhile is_ascii_digit (take k rest) = []" for k
    using assms(3) dot_no_digit by (cases rest; cases k) auto
  ultimately show ?thesis using assms(1) by (simp add: takeWhile_append2 list_all_iff)
qed

lemma dotted_hd: "dotted ns = [] \<or> hd (dotted ns) = CHR ''.''" by (cases ns) (simp_all add: dotted_def)

lemma dotted_Cons: "dotted (n # ns) = CHR ''.'' # show_nat n @ dotted ns" by (simp add: dotted_def)

lemma dot_groups_dotted:
  assumes "list_all (\<lambda>n. n < 1000) ns"
  shows "dot_groups k (dotted ns) = (min k (length ns), length (dotted (take k ns)))"
  using assms
proof (induction k arbitrary: ns)
  case (Suc k)
  show ?case
  proof (cases ns)
    case Nil
    then show ?thesis by (simp add: dotted_def starts_with_def)
  next
    case (Cons n r)
    have d: "takeWhile is_ascii_digit (take 3 (show_nat n @ dotted r)) = show_nat n"
      using Suc.prems Cons by (intro take_digits show_digits show_small dotted_hd) simp
    have "show_nat n \<noteq> []" by simp
    then show ?thesis using Suc.IH[of r] Suc.prems Cons d
      by (simp add: dotted_Cons starts_with_def Let_def)
  qed
qed (simp add: dotted_def)

lemma starts_colon: "starts_with s '':'' \<Longrightarrow> CHR '':'' \<in> set s"
  by (cases s) (auto simp: starts_with_def)

lemma no_colon_match6:
  assumes "CHR '':'' \<notin> set s"
  shows "match6 s = None"
proof -
  have "\<not> starts_with (drop n s) '':''" for n
    using assms starts_colon[of "drop n s"] in_set_dropD[of "CHR '':''" n s] by blast
  then show ?thesis by (simp add: match6_def colon_groups.simps[of s] Let_def)
qed

lemma set_dotted: "c \<in> set (dotted ns) \<Longrightarrow> c = CHR ''.'' \<or> is_ascii_digit c"
proof (induction ns)
  case (Cons n ns)
  then show ?case using show_digits[of n] by (auto simp: dotted_Cons list_all_iff)
qed (simp add: dotted_def)

lemma no_colon_dotted:
  assumes "list_all is_ascii_digit ds"
  shows "CHR '':'' \<notin> set (ds @ dotted ns)"
proof -
  have "\<not> is_ascii_digit CHR '':''" by (simp add: is_ascii_digit_def code_def)
  then show ?thesis using assms set_dotted[of "CHR '':''" ns] by (auto simp: list_all_iff)
qed

lemma set_hd_split: "set (hd (split_on c s)) \<subseteq> set s"
  using set_takeWhileD by (induction c s rule: split_on.induct) (auto split: list.splits)

lemma no_colon_isIpv6: "CHR '':'' \<notin> set s \<Longrightarrow> \<not> isIpv6 s"
  using set_hd_split[of "CHR ''%''" s] by (auto simp: isIpv6_def Let_def)

lemma candidate_dotted:
  assumes "list_all is_ascii_digit ds" "length ds \<le> 3" "list_all (\<lambda>n. n < 1000) ns"
  shows "candidate_at (ds @ dotted ns) =
    (if ds \<noteq> [] \<and> 3 \<le> length ns then Some (length (ds @ dotted (take 3 ns))) else None)"
  using no_colon_match6[OF no_colon_dotted[OF assms(1)], of ns] take_digits[OF assms(1,2) dotted_hd[of ns]] dot_groups_dotted[OF assms(3), of 3]
  by (simp add: candidate_at_def match4_def Let_def)

lemma dotted_split: "dotted ns = dotted (take k ns) @ dotted (drop k ns)"
  unfolding dotted_def by (metis append_take_drop_id concat_append map_append)

lemma dotted_last: "ns \<noteq> [] \<Longrightarrow> dotted ns \<noteq> [] \<and> is_ascii_digit (last (dotted ns))"
proof (induction ns)
  case (Cons n r)
  then show ?case
  proof (cases "r = []")
    case True
    then show ?thesis using show_digits[of n] by (simp add: dotted_def list_all_iff)
  next
    case False
    with Cons show ?thesis by (simp add: dotted_Cons)
  qed
qed simp

lemma dotted_unchanged:
  assumes "list_all is_ascii_digit ds" "length ds \<le> 3" "list_all (\<lambda>n. n < 1000) ns"
    and "if ds = [] then before \<noteq> [] \<and> is_ascii_digit (last before)
         else length ns < 3 \<or> digit_dot_before before \<or> 4 \<le> length ns"
  shows "replace_from fn st before (ds @ dotted ns) = (ds @ dotted ns, st)"
  using assms
proof (induction "length (ds @ dotted ns)" arbitrary: ds ns before rule: less_induct)
  case less
  show ?case
  proof (cases "ds = []")
    case True
    note empty = True
    show ?thesis
    proof (cases ns)
      case Nil
      then show ?thesis using empty candidate_dotted[of "[]" "[]"] by (subst replace_from.simps) (simp add: dotted_def)
    next
      case (Cons n r)
      have "replace_from fn st (before @ ''.'') (show_nat n @ dotted r) = (show_nat n @ dotted r, st)"
      proof (rule less.hyps)
        show "length (show_nat n @ dotted r) < length (ds @ dotted ns)" using Cons by (simp add: dotted_Cons)
        have b: "before \<noteq> []" "is_ascii_digit (last before)" using less.prems(4) empty by simp_all
        then have "digit_dot_before (before @ ''.'')" by (cases before) (simp_all add: digit_dot_before_def)
        then show "if show_nat n = [] then before @ ''.'' \<noteq> [] \<and> is_ascii_digit (last (before @ ''.''))
          else length r < 3 \<or> digit_dot_before (before @ ''.'') \<or> 4 \<le> length r" by simp
      qed (use less.prems(3) Cons show_digits show_small in simp_all)
      then show ?thesis using candidate_dotted[OF less.prems(1-3)] empty Cons
        by (subst replace_from.simps) (simp add: dotted_Cons)
    qed
  next
    case False
    show ?thesis
    proof (cases "3 \<le> length ns")
      case False
      obtain c ds' where c: "ds = c # ds'" using \<open>ds \<noteq> []\<close> by (cases ds) auto
      have "replace_from fn st (before @ [c]) (ds' @ dotted ns) = (ds' @ dotted ns, st)"
        using less.prems c False by (intro less.hyps) auto
      then show ?thesis using candidate_dotted[OF less.prems(1-3)] c False by (subst replace_from.simps) simp
    next
      case True
      let ?m = "ds @ dotted (take 3 ns)" let ?rest = "dotted (drop 3 ns)"
      have s: "ds @ dotted ns = ?m @ ?rest" using dotted_split[of ns 3] by simp
      have "\<not> rewritten before ?m ?rest"
      proof -
        have "\<not> isIpv6 ?m" by (rule no_colon_isIpv6[OF no_colon_dotted[OF less.prems(1)]])
        moreover have "dot_digit_after ?rest" if long: "4 \<le> length ns"
        proof -
          obtain n r where "drop 3 ns = n # r" using long by (cases "drop 3 ns") auto
          then show ?thesis using show_digits[of n]
            by (cases "show_nat n") (simp_all add: dot_digit_after_def dotted_Cons starts_with_def list_all_iff)
        qed
        ultimately show ?thesis using less.prems(4) \<open>ds \<noteq> []\<close> True by (auto simp: rewritten_def)
      qed
      moreover have "replace_from fn st (before @ ?m) ([] @ ?rest) = ([] @ ?rest, st)"
      proof (rule less.hyps)
        show "length ([] @ ?rest) < length (ds @ dotted ns)" using s \<open>ds \<noteq> []\<close> by simp
        have "take 3 ns \<noteq> []" using True by auto
        from dotted_last[OF this]
        show "if [] = ([] :: string) then before @ ?m \<noteq> [] \<and> is_ascii_digit (last (before @ ?m))
          else length (drop 3 ns) < 3 \<or> digit_dot_before (before @ ?m) \<or> 4 \<le> length (drop 3 ns)" by simp
      qed (use less.prems(3) in \<open>auto simp: list_all_iff dest: in_set_dropD\<close>)
      moreover have "take (length ?m) (ds @ dotted ns) = ?m" "drop (length ?m) (ds @ dotted ns) = ?rest" unfolding s by simp_all
      ultimately show ?thesis using candidate_dotted[OF less.prems(1-3)] True \<open>ds \<noteq> []\<close>
        by (subst replace_from.simps) (simp add: dotted_split[of ns 3, symmetric] Let_def)
    qed
  qed
qed

text \<open>
  An OID of at least five arcs, each below a thousand, is the same in anonymous mode, though its
  first four arcs are a valid address.
\<close>

theorem small_oid_untouched:
  assumes "list_all (\<lambda>n. n < 1000) (n # ns)" "4 \<le> length ns"
  shows "anonymizeText (show_nat n @ dotted ns) st = (show_nat n @ dotted ns, st)"
  unfolding anonymizeText_def replaceAddresses_def
  by (rule dotted_unchanged) (use assms in \<open>simp_all add: show_digits show_small\<close>)

theorem small_oid_untouched_witness:
  "anonymizeText (show_nat 1 @ dotted [3, 6, 1, 2, 1, 1, 1, 0]) resetMappings = (show_nat 1 @ dotted [3, 6, 1, 2, 1, 1, 1, 0], resetMappings)"
  by (rule small_oid_untouched) simp_all

text \<open>
  An OID with a longer arc may not be: the identity of a net-snmp agent, \<open>1.3.6.1.4.1.8072.3.2.10\<close>,
  loses its end to a label, because the last digits of the long arc and the three arcs after it pass for
  an address that nothing precedes.
\<close>

theorem netsnmp_oid_is_rewritten:
  "fst (anonymizeText ''1.3.6.1.4.1.8072.3.2.10'' resetMappings) = ''1.3.6.1.4.1.8Device-1''"
  by code_simp

end
