(* ===== verification/Results_View.thy ===== *)
theory Results_View
  imports Oid_Names Table_Rows Csv_Export Js_Number "HOL-Library.List_Lexorder"
begin

text \<open>
  The results of an operation: the script of \<open>frontend/src/operations/ResultsDisplay.svelte\<close>, and the key
  \<open>operations/tableRows.js\<close> sorts a table by. Regular expressions, \<open>localeCompare\<close>, \<open>String\<close> and
  \<open>JSON.stringify\<close> of a value that is not a string, and the bridge's answers about a table's INDEX are
  arguments. What the panel reads and writes is \<open>results_state\<close>; the reactive statements are one
  function, \<open>flush_panel\<close>, and the calls under way are a list, answered in any order. The lemmas show that an
  export reads back as the results, that OIDs sort by their numbers, that the view is decided once for a
  result set, and that when nothing is under way the decoded index is that of the table on screen.
\<close>

section \<open>Results\<close>

datatype reply = One jsval | Many "jsval walk_item list"

record response =
  rp_oid :: string
  rp_type :: string
  rp_value :: reply

record result_row =
  rr_target :: string
  rr_error :: string
  rr_result :: "response option"

definition walk_of :: "result_row \<Rightarrow> jsval walk_item list option" where
  "walk_of r = Option.bind (rr_result r) (\<lambda>p. case rp_value p of Many xs \<Rightarrow> Some xs | One v \<Rightarrow> None)"

definition answered :: "result_row \<Rightarrow> bool" where
  "answered r \<longleftrightarrow> rr_error r = [] \<and> walk_of r \<noteq> None"

definition is_walk :: "string \<Rightarrow> bool" where
  "is_walk op \<longleftrightarrow> op = ''WALK'' \<or> op = ''GETBULK''"

definition canShowComparison :: "string \<Rightarrow> result_row list \<Rightarrow> bool" where
  "canShowComparison op results \<longleftrightarrow> is_walk op \<and> length (filter answered results) > 1"

definition uniqueTargets :: "result_row list \<Rightarrow> string list" where
  "uniqueTargets results = dedup (map rr_target (filter (\<lambda>r. rr_error r = []) results))"

definition canCompare :: "result_row list \<Rightarrow> bool" where
  "canCompare results \<longleftrightarrow> length (uniqueTargets results) \<ge> 2"

section \<open>Filters\<close>

definition has_text :: "string \<Rightarrow> string \<Rightarrow> bool" where
  "has_text s part \<longleftrightarrow> indexOf s part 0 \<noteq> None"

text \<open>A query that is no regular expression is looked for as it is, without regard to case.\<close>

definition query_test :: "(string \<Rightarrow> (string \<Rightarrow> bool) option) \<Rightarrow> string \<Rightarrow> string \<Rightarrow> bool" where
  "query_test regexp query =
     (case regexp query of Some test \<Rightarrow> test | None \<Rightarrow> (\<lambda>s. has_text (toLowerCase s) (toLowerCase query)))"

definition info_name :: "(string \<Rightarrow> jsval) \<Rightarrow> string \<Rightarrow> string" where
  "info_name cache oid = str (jget (cache oid) ''name'')"

definition filterWalkItems ::
  "(string \<Rightarrow> (string \<Rightarrow> bool) option) \<Rightarrow> (jsval \<Rightarrow> string) \<Rightarrow> jsval walk_item list \<Rightarrow> string \<Rightarrow> (string \<Rightarrow> jsval)
    \<Rightarrow> jsval walk_item list" where
  "filterWalkItems regexp text_of items filterText cache =
     (let query = trim filterText; test = query_test regexp query in
      if query = [] then items
      else filter (\<lambda>item. test (wi_oid item) \<or> test (info_name cache (wi_oid item)) \<or> test (wi_type item) \<or>
                          test (text_of (wi_value item))) items)"

record index_part =
  ip_name :: string
  ip_display :: string
  ip_numeric :: bool
  ip_sort :: rat

type_synonym shown_row = "(jsval, index_part) drow"

definition row_matches ::
  "(string \<Rightarrow> bool) \<Rightarrow> (jsval \<Rightarrow> string) \<Rightarrow> table_column list \<Rightarrow> shown_row \<Rightarrow> bool" where
  "row_matches test text_of columns row \<longleftrightarrow>
     list_ex (\<lambda>part. test (ip_display part) \<or> test (ip_name part)) (case dr_parts row of Some ps \<Rightarrow> ps | None \<Rightarrow> []) \<or>
     test (r_index (dr_row row)) \<or>
     list_ex (\<lambda>col. case map_of (r_cells (dr_row row)) (tc_oid col) of None \<Rightarrow> False
        | Some c \<Rightarrow> test (text_of (cell_value c)) \<or> test (tc_name col) \<or> test (cell_fullOid c)) columns"

definition filterTableRows ::
  "(string \<Rightarrow> (string \<Rightarrow> bool) option) \<Rightarrow> (jsval \<Rightarrow> string) \<Rightarrow> shown_row list \<Rightarrow> table_column list \<Rightarrow> string \<Rightarrow> shown_row list" where
  "filterTableRows regexp text_of rows columns query =
     (let q = trim query in if q = [] then rows else filter (row_matches (query_test regexp q) text_of columns) rows)"

section \<open>Order\<close>

text \<open>\<open>x - y\<close>, where \<open>NaN\<close> is \<open>None\<close>.\<close>

definition difference :: "rat option \<Rightarrow> rat option \<Rightarrow> rat option" where
  "difference x y = Option.bind x (\<lambda>a. map_option (\<lambda>b. a - b) y)"

text \<open>A missing segment counts as -1; \<open>NaN\<close> differs from everything, itself included.\<close>

fun compare_segments :: "rat option list \<Rightarrow> rat option list \<Rightarrow> rat option" where
  "compare_segments [] [] = Some 0"
| "compare_segments (x # xs) [] =
     (if x = Some (-1) then compare_segments xs [] else difference x (Some (-1)))"
| "compare_segments [] (y # ys) =
     (if y = Some (-1) then compare_segments [] ys else difference (Some (-1)) y)"
| "compare_segments (x # xs) (y # ys) =
     (if x = y \<and> x \<noteq> None then compare_segments xs ys else difference x y)"

definition segments :: "string \<Rightarrow> rat option list" where
  "segments oid = map (\<lambda>s. number_of (JStr s)) (split_on DOT (stripDot oid))"

definition compareOids :: "string \<Rightarrow> string \<Rightarrow> rat option" where
  "compareOids a b = compare_segments (segments a) (segments b)"

text \<open>What \<open>sort\<close> makes of a comparator's answer.\<close>

definition sign_of :: "rat option \<Rightarrow> int" where
  "sign_of d = (case d of None \<Rightarrow> 0 | Some q \<Rightarrow> if q < 0 then -1 else if q = 0 then 0 else 1)"

definition compare_values :: "(string \<Rightarrow> string \<Rightarrow> int) \<Rightarrow> (jsval \<Rightarrow> string) \<Rightarrow> jsval \<Rightarrow> jsval \<Rightarrow> int" where
  "compare_values localeCompare text_of av bv =
     (case (number_of av, number_of bv) of
        (Some x, Some y) \<Rightarrow> sign_of (Some (x - y))
      | _ \<Rightarrow> localeCompare (if nullish av then [] else text_of av) (if nullish bv then [] else text_of bv))"

definition compare_items ::
  "(string \<Rightarrow> string \<Rightarrow> int) \<Rightarrow> (jsval \<Rightarrow> string) \<Rightarrow> string \<Rightarrow> jsval walk_item \<Rightarrow> jsval walk_item \<Rightarrow> int" where
  "compare_items localeCompare text_of key a b =
     (if key = ''oid'' then sign_of (compareOids (wi_oid a) (wi_oid b))
      else let field = (\<lambda>w. if key = ''type'' then JStr (wi_type w) else wi_value w)
           in compare_values localeCompare text_of (field a) (field b))"

definition sortWalkItems ::
  "(string \<Rightarrow> string \<Rightarrow> int) \<Rightarrow> (jsval \<Rightarrow> string) \<Rightarrow> jsval walk_item list \<Rightarrow> string option \<Rightarrow> bool
    \<Rightarrow> jsval walk_item list" where
  "sortWalkItems localeCompare text_of items key asc =
     (case key of None \<Rightarrow> items
      | Some k \<Rightarrow> stable_sort (\<lambda>a b. let cmp = compare_items localeCompare text_of k a b in if asc then cmp else - cmp) items)"

text \<open>The key of \<open>sortRows\<close>: the whole instance, one decoded part, or a column.\<close>

definition INDEX_COL :: string where "INDEX_COL = ''__index''"

definition part_at :: "rat option \<Rightarrow> index_part list option \<Rightarrow> index_part option" where
  "part_at i parts = (case (i, parts) of
     (Some q, Some ps) \<Rightarrow> if is_int q \<and> 0 \<le> q \<and> nat \<lfloor>q\<rfloor> < length ps then Some (ps ! nat \<lfloor>q\<rfloor>) else None
   | _ \<Rightarrow> None)"

definition table_sort_key :: "(jsval \<Rightarrow> string) \<Rightarrow> string \<Rightarrow> shown_row \<Rightarrow> sort_key" where
  "table_sort_key text_of sortCol row =
     (if sortCol = INDEX_COL then \<lparr>sk_text = r_index (dr_row row), sk_num = partNumber (dr_row row)\<rparr>
      else if starts_with sortCol (INDEX_COL @ '':'')
      then (case part_at (number_of (JStr (drop (length INDEX_COL + 1) sortCol))) (dr_parts row) of
              None \<Rightarrow> \<lparr>sk_text = [], sk_num = None\<rparr>
            | Some p \<Rightarrow> \<lparr>sk_text = ip_display p, sk_num = (if ip_numeric p then Some (ip_sort p) else None)\<rparr>)
      else (let v = (case map_of (r_cells (dr_row row)) sortCol of Some c \<Rightarrow> cell_value c | None \<Rightarrow> JUndef)
            in \<lparr>sk_text = (if nullish v then [] else text_of v), sk_num = number_of v\<rparr>))"

section \<open>The table of a node\<close>

text \<open>\<open>parseInt\<close> of the last segment: the digits it starts with.\<close>

definition last_number :: "string \<Rightarrow> rat option" where
  "last_number oid =
     (let (neg, r) = take_sign (trim (last (split_on DOT oid))); ds = takeWhile is_ascii_digit r
      in if ds = [] then None else Some (signed neg (of_nat (read_base 10 ds))))"

definition row_node :: "mib_node \<Rightarrow> mib_node option" where
  "row_node node = (if nd_type node = ''Table'' then List.find (\<lambda>c. nd_type c = ''Row'') (nd_children node)
                    else if nd_type node = ''Row'' then Some node else None)"

definition node_column :: "mib_node \<Rightarrow> column_def" where
  "node_column n = \<lparr>cd_name = nd_name n, cd_oid = nd_oid n, cd_syntax = nd_text ''syntax'' n, cd_wireType = [], cd_isIndex = False\<rparr>"

definition getTableColumnDefs :: "mib_node option \<Rightarrow> column_def list" where
  "getTableColumnDefs node = (case Option.bind node row_node of None \<Rightarrow> []
     | Some row \<Rightarrow> map node_column
         (stable_sort (\<lambda>a b. sign_of (difference (last_number (nd_oid a)) (last_number (nd_oid b))))
           (filter (\<lambda>c. nd_type c = ''Column'') (nd_children row))))"

definition canShowTableView :: "mib_node option \<Rightarrow> result_row list \<Rightarrow> bool" where
  "canShowTableView node results \<longleftrightarrow> (case node of None \<Rightarrow> False
     | Some n \<Rightarrow> results \<noteq> [] \<and> (nd_type n = ''Table'' \<or> nd_type n = ''Row'') \<and> getTableColumnDefs node \<noteq> [])"

definition view_table ::
  "(string \<Rightarrow> string \<Rightarrow> int) \<Rightarrow> (jsval \<Rightarrow> string) \<Rightarrow> jsval walk_item list \<Rightarrow> column_def list \<Rightarrow> string option \<Rightarrow> bool
    \<Rightarrow> index_part decoded list \<Rightarrow> (string \<times> string) list option
    \<Rightarrow> table_column list \<times> shown_row list \<times> (string \<times> string) list option" where
  "view_table localeCompare text_of walkResults columnDefs sortCol sortAsc decs indexParts =
     (let base = buildTableData walkResults columnDefs; (rows, indexColumns) = withDecodedIndexes base decs indexParts
      in (t_columns base, sortRows localeCompare (map_option (table_sort_key text_of) sortCol) sortAsc rows, indexColumns))"

text \<open>Without a table in the selection, the table is that of the first OID of the first walk.\<close>

definition first_walk :: "result_row list \<Rightarrow> jsval walk_item list option" where
  "first_walk results = Option.bind
     (List.find (\<lambda>r. rr_error r = [] \<and> (case rr_result r of Some p \<Rightarrow> rp_type p = ''WalkResponse'' | None \<Rightarrow> False) \<and>
                     (case walk_of r of Some xs \<Rightarrow> xs \<noteq> [] | None \<Rightarrow> False)) results) walk_of"

definition autoDetectedTableNode :: "string \<Rightarrow> mib_node option \<Rightarrow> result_row list \<Rightarrow> mib_node list \<Rightarrow> mib_node option" where
  "autoDetectedTableNode op selected results tree =
     (if \<not> is_walk op \<or> canShowTableView selected results \<or> results = [] \<or> tree = [] then None
      else Option.bind (first_walk results) (\<lambda>xs. findTableParentNode (wi_oid (hd xs)) tree))"

definition effectiveTableNode :: "string \<Rightarrow> mib_node option \<Rightarrow> result_row list \<Rightarrow> mib_node list \<Rightarrow> mib_node option" where
  "effectiveTableNode op selected results tree =
     (if canShowTableView selected results then selected else autoDetectedTableNode op selected results tree)"

section \<open>Exports\<close>

datatype export = Unsaved | Throws | Saved (saved_text: string) (saved_name: string) (saved_type: string)

text \<open>A text as it is, anything else as JSON.\<close>

fun reply_text :: "(reply \<Rightarrow> string) \<Rightarrow> reply \<Rightarrow> string" where
  "reply_text json (One (JStr s)) = s"
| "reply_text json r = json r"

definition csv_line :: "string list \<Rightarrow> string" where
  "csv_line cells = join_with CHR '','' (map escapeCSV cells)"

text \<open>The lines of one target; \<open>None\<close> when a property of a missing result is read.\<close>

definition item_cells :: "(reply \<Rightarrow> string) \<Rightarrow> string \<Rightarrow> jsval walk_item \<Rightarrow> string list" where
  "item_cells json target i = [target, wi_oid i, wi_type i, reply_text json (One (wi_value i))]"

definition csv_of_result :: "(reply \<Rightarrow> string) \<Rightarrow> bool \<Rightarrow> result_row \<Rightarrow> string list option" where
  "csv_of_result json multi r =
     (if multi then
        (if rr_error r \<noteq> [] then Some [escapeCSV (rr_target r) @ '',,,'' @ [QT] @ ''Error: '' @ escapeCSV (rr_error r) @ [QT]]
         else Some (map (csv_line \<circ> item_cells json (rr_target r)) (case walk_of r of Some xs \<Rightarrow> xs | None \<Rightarrow> [])))
      else if rr_error r \<noteq> [] then Some [escapeCSV (rr_target r) @ '',,,,'' @ escapeCSV (rr_error r)]
      else map_option (\<lambda>p. [csv_line [rr_target r, rp_oid p, rp_type p, reply_text json (rp_value p), []]]) (rr_result r))"

text \<open>The lines of all, unless one throws.\<close>

fun all_lines :: "('a \<Rightarrow> string list option) \<Rightarrow> 'a list \<Rightarrow> string list option" where
  "all_lines f [] = Some []"
| "all_lines f (r # rs) = Option.bind (f r) (\<lambda>ls. map_option (\<lambda>rest. ls @ rest) (all_lines f rs))"

definition csv_header :: "bool \<Rightarrow> string" where
  "csv_header multi = (if multi then ''Target,OID,Type,Value'' else ''Target,OID,Type,Value,Error'')"

definition exportAsCSV :: "(reply \<Rightarrow> string) \<Rightarrow> string \<Rightarrow> string \<Rightarrow> result_row list \<Rightarrow> export" where
  "exportAsCSV json stamp op results =
     (if results = [] then Unsaved
      else case all_lines (csv_of_result json (is_walk op)) results of None \<Rightarrow> Throws
      | Some lines \<Rightarrow> Saved (join_with NL (csv_header (is_walk op) # lines))
          (''snmp-'' @ toLowerCase op @ ''-'' @ stamp @ ''.csv'') ''text/csv'')"

definition text_of_result :: "(reply \<Rightarrow> string) \<Rightarrow> bool \<Rightarrow> result_row \<Rightarrow> string list option" where
  "text_of_result json multi r =
     map_option (\<lambda>ls. (''--- Target: '' @ rr_target r @ '' ---'') # ls @ [[]])
       (if rr_error r \<noteq> [] then Some [''  Error: '' @ rr_error r]
        else case (if multi then walk_of r else None) of
          Some xs \<Rightarrow> Some (map (\<lambda>i. ''  '' @ wi_oid i @ '' = '' @ wi_type i @ '': '' @ reply_text json (One (wi_value i))) xs @
                       [''  ('' @ show_nat (length xs) @ '' results)''])
        | None \<Rightarrow> map_option (\<lambda>p. [''  '' @ rp_oid p @ '' = '' @ rp_type p @ '': '' @ reply_text json (rp_value p)]) (rr_result r))"

definition exportAsText :: "(reply \<Rightarrow> string) \<Rightarrow> string \<Rightarrow> string \<Rightarrow> result_row list \<Rightarrow> export" where
  "exportAsText json stamp op results =
     (if results = [] then Unsaved
      else case all_lines (text_of_result json (is_walk op)) results of None \<Rightarrow> Throws
      | Some lines \<Rightarrow> Saved (join_with NL lines) (''snmp-'' @ toLowerCase op @ ''-'' @ stamp @ ''.txt'') ''text/plain'')"

text \<open>The table as it is shown, of the first walk that has one.\<close>

definition table_cells :: "(reply \<Rightarrow> string) \<Rightarrow> table_column list \<Rightarrow> (string \<times> string) list option \<Rightarrow> shown_row \<Rightarrow> string list" where
  "table_cells json columns indexColumns row =
     (case indexColumns of None \<Rightarrow> [r_index (dr_row row)]
      | Some cs \<Rightarrow> (case dr_parts row of Some ps \<Rightarrow> map ip_display ps
                    | None \<Rightarrow> r_index (dr_row row) # replicate (length cs - 1) [])) @
     map (\<lambda>c. case map_of (r_cells (dr_row row)) (tc_oid c) of None \<Rightarrow> [] | Some v \<Rightarrow> reply_text json (One (cell_value v))) columns"

definition table_header :: "table_column list \<Rightarrow> (string \<times> string) list option \<Rightarrow> string list" where
  "table_header columns indexColumns =
     (case indexColumns of None \<Rightarrow> [''Index''] | Some cs \<Rightarrow> map fst cs) @ map tc_name columns"

definition exportTableAsCSV ::
  "(reply \<Rightarrow> string) \<Rightarrow> string \<Rightarrow> result_row list \<Rightarrow> mib_node option
    \<Rightarrow> (jsval walk_item list \<Rightarrow> column_def list \<Rightarrow> table_column list \<times> shown_row list \<times> (string \<times> string) list option) \<Rightarrow> export" where
  "exportTableAsCSV json stamp results node table =
     (case List.find answered results of None \<Rightarrow> Unsaved
      | Some r \<Rightarrow> if node = None \<or> getTableColumnDefs node = [] then Unsaved
          else (let (columns, rows, indexColumns) = table (the (walk_of r)) (getTableColumnDefs node)
                in Saved (join_with NL (map csv_line (table_header columns indexColumns # map (table_cells json columns indexColumns) rows)))
                     (''snmp-table-'' @ stamp @ ''.csv'') ''text/csv''))"

definition cellText :: "(jsval \<Rightarrow> jsval \<Rightarrow> string \<Rightarrow> string) \<Rightarrow> (string \<Rightarrow> jsval) \<Rightarrow> jsval cell option \<Rightarrow> string" where
  "cellText formatted cache c = (case c of None \<Rightarrow> []
     | Some v \<Rightarrow> if cell_value v = JUndef then [] else formatted (cell_value v) (cache (cell_fullOid v)) (cell_type v))"

definition replace_each :: "char \<Rightarrow> string \<Rightarrow> string \<Rightarrow> string" where
  "replace_each c t s = concat (map (\<lambda>x. if x = c then t else [x]) s)"

definition htmlEscape :: "string \<Rightarrow> string" where
  "htmlEscape s = replace_each CHR ''>'' ''&gt;'' (replace_each CHR ''<'' ''&lt;'' (replace_each CHR ''&'' ''&amp;'' s))"

definition html_row :: "string \<Rightarrow> string list \<Rightarrow> string" where
  "html_row tag cells = ''<tr>'' @ concat (map (\<lambda>c. ''<'' @ tag @ ''>'' @ htmlEscape c @ ''</'' @ tag @ ''>'') cells) @ ''</tr>''"

definition HTML_TABLE :: string where
  "HTML_TABLE = ''<table border='' @ [QT] @ ''1'' @ [QT] @ '' cellspacing='' @ [QT] @ ''0'' @ [QT] @ '' cellpadding='' @ [QT] @ ''4'' @ [QT] @
     '' style='' @ [QT] @ ''border-collapse:collapse'' @ [QT] @ ''>''"

text \<open>The HTML and the plain text put on the clipboard.\<close>

definition copyTableForWord ::
  "(jsval cell option \<Rightarrow> string) \<Rightarrow> string \<Rightarrow> result_row list \<Rightarrow> mib_node option
    \<Rightarrow> (jsval walk_item list \<Rightarrow> column_def list \<Rightarrow> table_column list \<times> shown_row list \<times> (string \<times> string) list option)
    \<Rightarrow> (string \<times> string) option" where
  "copyTableForWord cell_text index_label results node table =
     (case List.find answered results of None \<Rightarrow> None
      | Some r \<Rightarrow> if node = None \<or> getTableColumnDefs node = [] then None
          else (let (columns, rows, indexColumns) = table (the (walk_of r)) (getTableColumnDefs node);
                    headers = index_label # map tc_name columns;
                    cells = (\<lambda>row. r_index (dr_row row) # map (\<lambda>c. cell_text (map_of (r_cells (dr_row row)) (tc_oid c))) columns)
                in Some (HTML_TABLE @ ''<thead>'' @ html_row ''th'' headers @ ''</thead><tbody>'' @
                           concat (map (html_row ''td'' \<circ> cells) rows) @ ''</tbody></table>'',
                         join_with NL (map (join_with TAB) (headers # map cells rows)))))"

section \<open>The panel\<close>

record shown_info = table_info +
  ti_oid :: string
  ti_name :: string
  ti_index :: "(string \<times> string) list"

record row_form =
  nf_target :: string
  nf_index :: "string list"
  nf_values :: "string \<rightharpoonup> string"
  nf_status :: nat
  nf_error :: string
  nf_busy :: bool

text \<open>\<open>{ ...newRow, busy: false, error }\<close> of a form that was closed has nothing but an error.\<close>

datatype new_row = NoForm | Form row_form | Torn string

record doomed_row =
  dm_index :: string
  dm_target :: string

record results_state =
  rs_op :: "string option"
  rs_tableView :: bool
  rs_sortColumn :: "string option"
  rs_sortAscending :: bool
  rs_info :: "shown_info option"
  rs_decoded :: "index_part decoded list"
  rs_indexesFor :: "string option"
  rs_autoViewApplied :: bool
  rs_lastResults :: "nat option"
  rs_rawKey :: "string option"
  rs_rawAsc :: bool
  rs_filter :: string
  rs_newRow :: new_row
  rs_destroyRow :: "doomed_row option"

definition results_start :: results_state where
  "results_start = \<lparr>rs_op = None, rs_tableView = False, rs_sortColumn = None, rs_sortAscending = True, rs_info = None,
     rs_decoded = [], rs_indexesFor = None, rs_autoViewApplied = False, rs_lastResults = None, rs_rawKey = None,
     rs_rawAsc = True, rs_filter = [], rs_newRow = NoForm, rs_destroyRow = None\<rparr>"

definition sortRaw :: "string \<Rightarrow> results_state \<Rightarrow> results_state" where
  "sortRaw key st = (if rs_rawKey st = Some key then st\<lparr>rs_rawAsc := \<not> rs_rawAsc st\<rparr>
     else st\<lparr>rs_rawKey := Some key, rs_rawAsc := True\<rparr>)"

definition handleColumnSort :: "string \<Rightarrow> results_state \<Rightarrow> results_state" where
  "handleColumnSort colId st = (if rs_sortColumn st = Some colId then st\<lparr>rs_sortAscending := \<not> rs_sortAscending st\<rparr>
     else st\<lparr>rs_sortColumn := Some colId, rs_sortAscending := True\<rparr>)"

text \<open>The two buttons and the filter.\<close>

definition show_raw :: "results_state \<Rightarrow> results_state" where
  "show_raw st = st\<lparr>rs_tableView := False\<rparr>"

definition show_table :: "results_state \<Rightarrow> results_state" where
  "show_table st = st\<lparr>rs_tableView := True, rs_sortColumn := None\<rparr>"

text \<open>The walk as the raw list shows it.\<close>

definition shown_items ::
  "(string \<Rightarrow> (string \<Rightarrow> bool) option) \<Rightarrow> (string \<Rightarrow> string \<Rightarrow> int) \<Rightarrow> (jsval \<Rightarrow> string) \<Rightarrow> (string \<Rightarrow> jsval)
    \<Rightarrow> results_state \<Rightarrow> jsval walk_item list \<Rightarrow> jsval walk_item list" where
  "shown_items regexp localeCompare text_of cache st items =
     sortWalkItems localeCompare text_of (filterWalkItems regexp text_of items (rs_filter st) cache) (rs_rawKey st) (rs_rawAsc st)"

section \<open>The cell menu\<close>

record menu_target =
  mt_row :: shown_row
  mt_col :: table_column
  mt_columns :: "table_column list"
  mt_target :: string

definition menu_cell :: "menu_target \<Rightarrow> jsval cell option" where
  "menu_cell ctx = map_of (r_cells (dr_row (mt_row ctx))) (tc_oid (mt_col ctx))"

text \<open>The actions offered, each with whether it is disabled.\<close>

definition openCellMenu :: "menu_target \<Rightarrow> shown_info option \<Rightarrow> (string \<times> bool) list" where
  "openCellMenu ctx info =
     (let off = menu_cell ctx = None in
      [(''value'', off), (''oid'', off), (''oidValue'', off), (''sep'', False), (''row'', False), (''index'', False), (''column'', False)] @
      (case info of Some i \<Rightarrow> if ti_rowStatusOid i \<noteq> [] then [(''sep'', False), (''destroyRow'', False)] else [] | None \<Rightarrow> []))"

datatype menu_effect = Nothing | Copy string | AskDestroy doomed_row

definition handleCellMenuAction :: "(jsval cell option \<Rightarrow> string) \<Rightarrow> string \<Rightarrow> menu_target option \<Rightarrow> menu_effect" where
  "handleCellMenuAction cell_text action ctx = (case ctx of None \<Rightarrow> Nothing | Some c \<Rightarrow>
     (let row = dr_row (mt_row c); cl = menu_cell c; oid = (case cl of Some v \<Rightarrow> cell_fullOid v | None \<Rightarrow> []) in
      if action = ''value'' then Copy (cell_text cl)
      else if action = ''oid'' then Copy oid
      else if action = ''oidValue'' then Copy (oid @ '' = '' @ cell_text cl)
      else if action = ''index'' then Copy (r_index row)
      else if action = ''column'' then Copy (tc_name (mt_col c))
      else if action = ''row'' then Copy (join_with TAB (r_index row # map (\<lambda>k. cell_text (map_of (r_cells row) (tc_oid k))) (mt_columns c)))
      else if action = ''destroyRow'' then AskDestroy \<lparr>dm_index = r_index row, dm_target = mt_target c\<rparr>
      else Nothing))"

section \<open>Writing a row\<close>

record row_write =
  rw_target :: string
  rw_vars :: "varbind list"
  rw_label :: string
  rw_kind :: string

definition COMMA_SPACE :: string where "COMMA_SPACE = '', ''"

definition startNewRow :: "string \<Rightarrow> results_state \<Rightarrow> results_state" where
  "startNewRow target st = (case rs_info st of None \<Rightarrow> st
     | Some info \<Rightarrow> if ti_rowStatusOid info = [] then st
         else st\<lparr>rs_newRow := Form \<lparr>nf_target = target, nf_index = map (\<lambda>p. []) (ti_index info), nf_values = Map.empty,
           nf_status = 4, nf_error = [], nf_busy = False\<rparr>\<rparr>)"

text \<open>
  The first half of \<open>submitNewRow\<close>: the index to encode, if a call is made. Without a table, reading its
  OID throws inside the \<open>try\<close>, and the form says so. A torn form has no columns to show and no button.
\<close>

definition submit_begin :: "string \<Rightarrow> results_state \<Rightarrow> results_state \<times> (string \<times> string list) option" where
  "submit_begin type_error st = (case rs_newRow st of
     Form f \<Rightarrow> if nf_busy f then (st, None)
       else (case rs_info st of
               Some info \<Rightarrow> (st\<lparr>rs_newRow := Form (f\<lparr>nf_busy := True, nf_error := []\<rparr>)\<rparr>, Some (ti_oid info, nf_index f))
             | None \<Rightarrow> (st\<lparr>rs_newRow := Form (f\<lparr>nf_busy := False, nf_error := type_error\<rparr>)\<rparr>, None))
   | _ \<Rightarrow> (st, None))"

text \<open>Its second half, when the index was refused and when it was encoded.\<close>

definition submit_failed :: "string \<Rightarrow> results_state \<Rightarrow> results_state" where
  "submit_failed message st = st\<lparr>rs_newRow := (case rs_newRow st of
     Form f \<Rightarrow> Form (f\<lparr>nf_busy := False, nf_error := message\<rparr>) | _ \<Rightarrow> Torn message)\<rparr>"

definition submit_encoded :: "string \<Rightarrow> results_state \<Rightarrow> (results_state \<times> row_write) option" where
  "submit_encoded inst st = (case (rs_newRow st, rs_info st) of
     (Form f, Some info) \<Rightarrow> Some (st\<lparr>rs_newRow := NoForm\<rparr>,
        \<lparr>rw_target = nf_target f, rw_vars = buildRowVarbinds (table_info.truncate info) inst (nf_values f) (nf_status f),
         rw_label = ti_name info @ '' ['' @ join_text COMMA_SPACE (nf_index f) @ '']'', rw_kind = ''create''\<rparr>)
   | _ \<Rightarrow> None)"

definition closeOnEscape :: "string \<Rightarrow> results_state \<Rightarrow> results_state" where
  "closeOnEscape key st = (if key \<noteq> ''Escape'' then st
     else if rs_destroyRow st \<noteq> None then st\<lparr>rs_destroyRow := None\<rparr>
     else if rs_newRow st \<noteq> NoForm then st\<lparr>rs_newRow := NoForm\<rparr> else st)"

definition askDestroy :: "doomed_row \<Rightarrow> results_state \<Rightarrow> results_state" where
  "askDestroy row st = st\<lparr>rs_destroyRow := Some row\<rparr>"

definition confirmDestroy :: "results_state \<Rightarrow> results_state \<times> row_write option" where
  "confirmDestroy st = (case (rs_destroyRow st, rs_info st) of
     (Some d, Some info) \<Rightarrow> if ti_rowStatusOid info = [] then (st, None)
       else (st\<lparr>rs_destroyRow := None\<rparr>,
         Some \<lparr>rw_target = dm_target d, rw_vars = buildDestroyVarbinds (table_info.truncate info) (dm_index d),
               rw_label = ti_name info @ '' ['' @ dm_index d @ '']'', rw_kind = ''destroy''\<rparr>)
   | _ \<Rightarrow> (st, None))"

section \<open>Loading the index\<close>

record load_call =
  lc_token :: string
  lc_oid :: string
  lc_node :: mib_node
  lc_results :: "result_row list"

definition index_token :: "string \<Rightarrow> result_row list \<Rightarrow> string" where
  "index_token oid results = oid @ ''|'' @ show_nat (length results) @ ''|'' @
     join_with CHR '','' (map (\<lambda>r. case walk_of r of Some xs \<Rightarrow> show_nat (length xs) | None \<Rightarrow> ''-1'') results)"

text \<open>The instances to decode: those of every device, once.\<close>

definition instances :: "mib_node \<Rightarrow> result_row list \<Rightarrow> string list" where
  "instances node results = dedup (concat (map
     (\<lambda>r. map r_index (t_rows (buildTableData (the (walk_of r)) (getTableColumnDefs (Some node))))) (filter answered results)))"

definition index_begin :: "mib_node option \<Rightarrow> result_row list \<Rightarrow> results_state \<Rightarrow> results_state \<times> load_call option" where
  "index_begin node results st = (case node of
     None \<Rightarrow> (st\<lparr>rs_info := None, rs_decoded := [], rs_indexesFor := None\<rparr>, None)
   | Some n \<Rightarrow> if nd_oid n = [] \<or> results = [] then (st\<lparr>rs_info := None, rs_decoded := [], rs_indexesFor := None\<rparr>, None)
       else let token = index_token (nd_oid n) results in
         if rs_indexesFor st = Some token then (st, None)
         else (st\<lparr>rs_indexesFor := Some token\<rparr>,
               Some \<lparr>lc_token = token, lc_oid = nd_oid n, lc_node = n, lc_results = results\<rparr>))"

definition publish :: "load_call \<Rightarrow> shown_info option \<Rightarrow> index_part decoded list \<Rightarrow> results_state \<Rightarrow> results_state" where
  "publish call info decs st =
     (if rs_indexesFor st = Some (lc_token call) then st\<lparr>rs_info := info, rs_decoded := decs\<rparr> else st)"

text \<open>
  The answer to \<open>MibTable\<close>, \<open>None\<close> a rejection; the second component is the call to
  \<open>MibDecodeIndexes\<close> that follows, and a rejection of that one counts as no index at all.
\<close>

definition load_info :: "load_call \<Rightarrow> shown_info option \<Rightarrow> results_state \<Rightarrow> results_state \<times> (shown_info \<times> string list) option" where
  "load_info call answer st = (case answer of
     None \<Rightarrow> (publish call None [] st, None)
   | Some info \<Rightarrow> if rs_indexesFor st \<noteq> Some (lc_token call) then (st, None)
       else let insts = instances (lc_node call) (lc_results call) in
         if insts = [] then (publish call (Some info) [] st, None) else (st, Some (info, insts)))"

definition load_decoded :: "load_call \<Rightarrow> shown_info \<Rightarrow> index_part decoded list option \<Rightarrow> results_state \<Rightarrow> results_state" where
  "load_decoded call info answer st = publish call (Some info) (case answer of Some ds \<Rightarrow> ds | None \<Rightarrow> []) st"

section \<open>The reactive statements\<close>

record view_input =
  vi_op :: string
  vi_id :: nat
  vi_results :: "result_row list"
  vi_selected :: "mib_node option"
  vi_tree :: "mib_node list"

definition input_node :: "view_input \<Rightarrow> mib_node option" where
  "input_node i = effectiveTableNode (vi_op i) (vi_selected i) (vi_results i) (vi_tree i)"

definition leave_table_view :: "view_input \<Rightarrow> results_state \<Rightarrow> results_state" where
  "leave_table_view i st = (if rs_op st = Some (vi_op i) then st
     else st\<lparr>rs_op := Some (vi_op i), rs_tableView := rs_tableView st \<and> is_walk (vi_op i)\<rparr>)"

definition new_result_set :: "view_input \<Rightarrow> results_state \<Rightarrow> results_state" where
  "new_result_set i st = (if rs_lastResults st = Some (vi_id i) then st
     else st\<lparr>rs_lastResults := Some (vi_id i), rs_filter := [], rs_rawKey := None, rs_autoViewApplied := False\<rparr>)"

definition decide_view :: "view_input \<Rightarrow> results_state \<Rightarrow> results_state" where
  "decide_view i st = (if rs_autoViewApplied st \<or> vi_results i = [] \<or> \<not> is_walk (vi_op i) then st
     else st\<lparr>rs_tableView := (case input_node i of Some n \<Rightarrow> nd_type n = ''Table'' \<or> nd_type n = ''Row'' | None \<Rightarrow> False),
             rs_autoViewApplied := True\<rparr>)"

definition flush_view :: "view_input \<Rightarrow> results_state \<Rightarrow> results_state" where
  "flush_view i st = decide_view i (new_result_set i (leave_table_view i st))"

definition flush_panel :: "view_input \<Rightarrow> results_state \<Rightarrow> results_state \<times> load_call option" where
  "flush_panel i st = (let st = flush_view i st in
     if rs_tableView st then index_begin (input_node i) (vi_results i) st else (st, None))"

section \<open>An export reads back\<close>

text \<open>The records an export is meant to hold.\<close>

definition export_cells :: "(reply \<Rightarrow> string) \<Rightarrow> bool \<Rightarrow> result_row \<Rightarrow> string list list" where
  "export_cells json multi r =
     (if multi then map (item_cells json (rr_target r)) (case walk_of r of Some xs \<Rightarrow> xs | None \<Rightarrow> [])
      else if rr_error r \<noteq> [] then [[rr_target r, [], [], [], rr_error r]]
      else case rr_result r of None \<Rightarrow> [] | Some p \<Rightarrow> [[rr_target r, rp_oid p, rp_type p, reply_text json (rp_value p), []]])"

definition exportable :: "bool \<Rightarrow> result_row \<Rightarrow> bool" where
  "exportable multi r \<longleftrightarrow> (if multi then rr_error r = [] else rr_error r \<noteq> [] \<or> rr_result r \<noteq> None)"

lemma csv_of_exportable:
  "exportable multi r \<Longrightarrow> csv_of_result json multi r = Some (map csv_line (export_cells json multi r))"
proof -
  have e: "escapeCSV [] = []" by code_simp
  show "exportable multi r \<Longrightarrow> ?thesis"
    by (auto simp: exportable_def csv_of_result_def export_cells_def csv_line_def e split: if_splits)
qed

lemma all_lines_Some: "list_all (\<lambda>r. f r = Some (g r)) rs \<Longrightarrow> all_lines f rs = Some (concat (map g rs))"
  by (induction rs) auto

lemma csv_header_line: "csv_header multi = csv_line (if multi then [''Target'', ''OID'', ''Type'', ''Value'']
    else [''Target'', ''OID'', ''Type'', ''Value'', ''Error''])"
proof -
  have "csv_line [''Target'', ''OID'', ''Type'', ''Value''] = ''Target,OID,Type,Value''"
    "csv_line [''Target'', ''OID'', ''Type'', ''Value'', ''Error''] = ''Target,OID,Type,Value,Error''" by code_simp+
  then show ?thesis by (simp add: csv_header_def)
qed


definition two_targets :: "result_row list" where
  "two_targets =
     [\<lparr>rr_target = ''10.0.0.1'', rr_error = [], rr_result = Some \<lparr>rp_oid = ''.1.3'', rp_type = ''Integer'', rp_value = One (JStr ''a,b'')\<rparr>\<rparr>,
      \<lparr>rr_target = ''10.0.0.2'', rr_error = ''timeout; gave up'', rr_result = None\<rparr>]"


section \<open>OIDs sort by their numbers\<close>

definition numeric_oid :: "string \<Rightarrow> bool" where
  "numeric_oid s \<longleftrightarrow> list_all (\<lambda>seg. seg \<noteq> [] \<and> list_all is_ascii_digit seg) (split_on DOT (stripDot s))"

definition oid_numbers :: "string \<Rightarrow> nat list" where
  "oid_numbers s = map (read_base 10) (split_on DOT (stripDot s))"

lemma number_of_digits:
  assumes "list_all is_ascii_digit s" "s \<noteq> []"
  shows "number_of (JStr s) = Some (of_nat (read_base 10 s))"
proof -
  have "trim s = s" using assms(1) digit_no_space by (intro trim_no_space) (auto simp: list_all_iff)
  then show ?thesis using assms read_decimal_digits[OF assms take_sign_digits[OF assms(1)]]
    by (simp add: read_radix_none signed_def)
qed

lemma segments_numeric: "numeric_oid s \<Longrightarrow> segments s = map (\<lambda>n. Some (of_nat n)) (oid_numbers s)"
  by (auto simp: numeric_oid_def segments_def oid_numbers_def list_all_iff number_of_digits simp del: number_of.simps)

lemma compare_segments_lex:
  "sign_of (compare_segments (map (\<lambda>n. Some (of_nat n)) xs) (map (\<lambda>n. Some (of_nat n)) ys)) =
     (if xs = ys then 0 else if xs < ys then -1 else 1)"
proof (induction xs arbitrary: ys)
  case Nil
  then show ?case by (cases ys) (simp_all add: sign_of_def difference_def)
next
  case (Cons x xs)
  show ?case
  proof (cases ys)
    case Nil
    then show ?thesis by (simp add: sign_of_def difference_def)
  next
    case (Cons y zs)
    show ?thesis
    proof (cases "x = y")
      case True
      then show ?thesis using Cons Cons.IH[of zs] by simp
    next
      case False
      then show ?thesis using Cons by (auto simp: sign_of_def difference_def)
    qed
  qed
qed

lemma compareOids_numeric:
  assumes "numeric_oid a" "numeric_oid b"
  shows "sign_of (compareOids a b) = (if oid_numbers a = oid_numbers b then 0 else if oid_numbers a < oid_numbers b then -1 else 1)"
  using compare_segments_lex[of "oid_numbers a" "oid_numbers b"] by (simp add: compareOids_def segments_numeric assms)

lemma sorted_stable_on:
  fixes cmp cmp' :: "'a \<Rightarrow> 'a \<Rightarrow> int"
  assumes "\<And>a b. a \<in> set xs \<Longrightarrow> b \<in> set xs \<Longrightarrow> cmp a b \<le> 0 \<longleftrightarrow> cmp' a b \<le> 0"
    "\<And>a b. cmp' a b \<le> 0 \<or> cmp' b a \<le> 0" "\<And>a b c. cmp' a b \<le> 0 \<Longrightarrow> cmp' b c \<le> 0 \<Longrightarrow> cmp' a c \<le> 0"
  shows "sorted_wrt (\<lambda>a b. cmp' a b \<le> 0) (stable_sort cmp xs)"
proof -
  have i: "insert_by cmp x ys = insert_by cmp' x ys" if "x \<in> set xs" "set ys \<subseteq> set xs" for x ys
    using that(2) by (induction ys) (simp_all add: assms(1) that(1))
  have "foldr (insert_by cmp) ys [] = foldr (insert_by cmp') ys []" if "set ys \<subseteq> set xs" for ys
    using that
  proof (induction ys)
    case (Cons y ys)
    then have "set (foldr (insert_by cmp') ys []) \<subseteq> set xs" using set_stable_sort(1)[of cmp' ys] by (simp add: stable_sort_def)
    with Cons i show ?case by simp
  qed simp
  then have "stable_sort cmp xs = stable_sort cmp' xs" by (simp add: stable_sort_def)
  then show ?thesis using stable_sort_sorts[OF assms(2,3)] by simp
qed

text \<open>
  Sorting a walk by OID shows the same varbinds in the order of their OIDs as sequences of
  numbers, each prefix before what extends it, or in the reverse order; so 1.2 comes before 1.10.
\<close>

theorem oid_sort_numeric:
  assumes "list_all (\<lambda>i. numeric_oid (wi_oid i)) items"
  shows "mset (sortWalkItems lc text_of items (Some ''oid'') asc) = mset items \<and>
    sorted_wrt (\<lambda>a b. if asc then oid_numbers (wi_oid a) \<le> oid_numbers (wi_oid b) else oid_numbers (wi_oid b) \<le> oid_numbers (wi_oid a))
      (sortWalkItems lc text_of items (Some ''oid'') asc)"
proof -
  let ?n = "\<lambda>i :: jsval walk_item. oid_numbers (wi_oid i)"
  let ?cmp = "\<lambda>a b. let cmp = compare_items lc text_of ''oid'' a b in if asc then cmp else - cmp"
  let ?cmp' = "\<lambda>a b. if ?n a = ?n b then 0 else if (?n a < ?n b) = asc then -1 else (1 :: int)"
  have s: "sortWalkItems lc text_of items (Some ''oid'') asc = stable_sort ?cmp items" by (simp add: sortWalkItems_def)
  have le: "?cmp' a b \<le> 0 \<longleftrightarrow> (if asc then ?n a \<le> ?n b else ?n b \<le> ?n a)" for a b
    by (cases asc) (auto simp: not_less)
  have "sorted_wrt (\<lambda>a b. ?cmp' a b \<le> 0) (stable_sort ?cmp items)"
  proof (rule sorted_stable_on)
    fix a b assume "a \<in> set items" "b \<in> set items"
    then have "sign_of (compareOids (wi_oid a) (wi_oid b)) = (if ?n a = ?n b then 0 else if ?n a < ?n b then -1 else 1)"
      using assms by (intro compareOids_numeric) (simp_all add: list_all_iff)
    then show "(?cmp a b \<le> 0) = (?cmp' a b \<le> 0)" by (cases asc) (simp_all add: compare_items_def Let_def)
  next
    fix a b show "?cmp' a b \<le> 0 \<or> ?cmp' b a \<le> 0" unfolding le by auto
  next
    fix a b c assume "?cmp' a b \<le> 0" "?cmp' b c \<le> 0"
    then show "?cmp' a c \<le> 0" unfolding le by (cases asc) auto
  qed
  then show ?thesis unfolding s le by (simp add: mset_stable_sort)
qed

theorem oid_sort_numeric_witness:
  "sorted_wrt (\<lambda>a b. oid_numbers (wi_oid a) \<le> oid_numbers (wi_oid b)) (sortWalkItems (\<lambda>a b. 0) (\<lambda>v. [])
     [\<lparr>wi_oid = ''.1.10'', wi_value = JNull, wi_type = []\<rparr>, \<lparr>wi_oid = ''.1.2'', wi_value = JNull, wi_type = []\<rparr>] (Some ''oid'') True)"
proof -
  have "numeric_oid ''.1.10''" "numeric_oid ''.1.2''" by code_simp+
  then show ?thesis using oid_sort_numeric[of "[\<lparr>wi_oid = ''.1.10'', wi_value = JNull, wi_type = []\<rparr>,
      \<lparr>wi_oid = ''.1.2'', wi_value = JNull, wi_type = []\<rparr>]" "\<lambda>a b. 0" "\<lambda>v. []" True] by simp
qed

text \<open>A column of numbers and words is in no order at all: each of these values comes before the next.\<close>

lemma mixed_values_cycle:
  assumes "lc ''10'' ''1a'' < 0" "lc ''1a'' ''9'' < 0"
  shows "compare_values lc text_of (JNum 9) (JStr ''10'') < 0" "compare_values lc str (JStr ''10'') (JStr ''1a'') < 0"
    "compare_values lc str (JStr ''1a'') (JStr ''9'') < 0"
proof -
  have t: "trim ''1a'' = ''1a''" "take_sign ''1a'' = (False, ''1a'')" "read_radix ''1a'' = None" by code_simp+
  have "is_ascii_digit CHR ''1''" "\<not> is_ascii_digit CHR ''a''" by code_simp+
  then have "number_of (JStr ''1a'') = None" by (simp add: t read_decimal_def read_exponent_def starts_with_def)
  moreover have "show_nat 10 = ''10''" "show_nat 9 = ''9''" by code_simp+
  then have "number_of (JStr ''10'') = Some 10" "number_of (JStr ''9'') = Some 9"
    using number_of_show_nat[of 10] number_of_show_nat[of 9] by (simp_all del: number_of.simps)
  ultimately show "compare_values lc text_of (JNum 9) (JStr ''10'') < 0" "compare_values lc str (JStr ''10'') (JStr ''1a'') < 0"
    "compare_values lc str (JStr ''1a'') (JStr ''9'') < 0"
    using assms by (simp_all add: compare_values_def sign_of_def nullish_def del: number_of.simps(5))
qed

section \<open>The view is decided once\<close>

text \<open>
  A new result set clears the filter and the raw order and shows the table exactly when it is a
  table's walk; after that, whatever is typed, sorted or switched, the statements change none of it
  until the results or the operation do.
\<close>

theorem view_decided_once:
  "(let st' = flush_view i st in
     rs_lastResults st \<noteq> Some (vi_id i) \<and> is_walk (vi_op i) \<and> vi_results i \<noteq> [] \<longrightarrow>
       rs_filter st' = [] \<and> rs_rawKey st' = None \<and>
       (rs_tableView st' \<longleftrightarrow> (\<exists>n. input_node i = Some n \<and> nd_type n \<in> {''Table'', ''Row''}))) \<and>
   (rs_op u = rs_op (flush_view i st) \<and> rs_lastResults u = rs_lastResults (flush_view i st) \<and>
    rs_autoViewApplied u = rs_autoViewApplied (flush_view i st) \<longrightarrow> flush_view i u = u)"
  by (auto simp: flush_view_def decide_view_def new_result_set_def leave_table_view_def Let_def split: option.splits)

text \<open>The operator switches a table's walk back to the raw list.\<close>

theorem view_decided_once_witness:
  "let i = \<lparr>vi_op = ''WALK'', vi_id = 1, vi_results = two_targets, vi_selected = None, vi_tree = []\<rparr> in
   flush_view i (show_raw (flush_view i results_start)) = show_raw (flush_view i results_start)"
  using view_decided_once[of "\<lparr>vi_op = ''WALK'', vi_id = 1, vi_results = two_targets, vi_selected = None, vi_tree = []\<rparr>"
      results_start "show_raw (flush_view \<lparr>vi_op = ''WALK'', vi_id = 1, vi_results = two_targets, vi_selected = None, vi_tree = []\<rparr> results_start)"]
  by (simp add: show_raw_def Let_def)

section \<open>The index on screen\<close>

text \<open>
  The panel with the calls under way and, for the statements below, the tables whose index it was asked
  for since the results were last cleared, latest first. \<open>info_of\<close> and \<open>decode\<close> are what the
  bridge answers, \<open>None\<close> for a rejection.
\<close>

datatype under_way = Asked load_call | Decoding load_call shown_info "string list"

record load_world =
  lw_state :: results_state
  lw_calls :: "under_way list"
  lw_shown :: "(mib_node \<times> result_row list) option"

fun call_of :: "under_way \<Rightarrow> load_call" where
  "call_of (Asked c) = c"
| "call_of (Decoding c info insts) = c"

definition has_table :: "mib_node option \<Rightarrow> result_row list \<Rightarrow> bool" where
  "has_table node results \<longleftrightarrow> results \<noteq> [] \<and> (case node of Some n \<Rightarrow> nd_oid n \<noteq> [] | None \<Rightarrow> False)"

text \<open>\<open>loadIndexes\<close> for a table, and the answers: the calls are taken in any order.\<close>

definition load_shown :: "mib_node option \<Rightarrow> result_row list \<Rightarrow> load_world \<Rightarrow> load_world" where
  "load_shown node results w =
     (let (st, call) = index_begin node results (lw_state w) in
      \<lparr>lw_state = st, lw_calls = lw_calls w @ (case call of Some c \<Rightarrow> [Asked c] | None \<Rightarrow> []),
       lw_shown = (if has_table node results then Some (the node, results) else None)\<rparr>)"

fun take_answer ::
  "(string \<Rightarrow> shown_info option) \<Rightarrow> (string \<Rightarrow> string list \<Rightarrow> index_part decoded list option) \<Rightarrow> under_way \<Rightarrow> results_state
    \<Rightarrow> results_state \<times> under_way list" where
  "take_answer info_of decode (Asked c) st =
     (case load_info c (info_of (lc_oid c)) st of
        (st', None) \<Rightarrow> (st', [])
      | (st', Some (info, insts)) \<Rightarrow> (st', [Decoding c info insts]))"
| "take_answer info_of decode (Decoding c info insts) st = (load_decoded c info (decode (ti_oid info) insts) st, [])"

text \<open>Everything else the panel does leaves the index alone.\<close>

definition same_index :: "results_state \<Rightarrow> results_state \<Rightarrow> bool" where
  "same_index st st' \<longleftrightarrow> rs_info st' = rs_info st \<and> rs_decoded st' = rs_decoded st \<and> rs_indexesFor st' = rs_indexesFor st"

inductive load_step ::
  "(string \<Rightarrow> shown_info option) \<Rightarrow> (string \<Rightarrow> string list \<Rightarrow> index_part decoded list option) \<Rightarrow> load_world \<Rightarrow> load_world \<Rightarrow> bool"
  for info_of decode where
  Shown: "load_step info_of decode w (load_shown node results w)"
| Answer: "lw_calls w = before @ u # after \<Longrightarrow> take_answer info_of decode u (lw_state w) = (st, further) \<Longrightarrow>
    load_step info_of decode w (w\<lparr>lw_state := st, lw_calls := before @ further @ after\<rparr>)"
| Other: "same_index (lw_state w) st \<Longrightarrow> load_step info_of decode w (w\<lparr>lw_state := st\<rparr>)"

inductive load_reach ::
  "(string \<Rightarrow> shown_info option) \<Rightarrow> (string \<Rightarrow> string list \<Rightarrow> index_part decoded list option) \<Rightarrow> load_world \<Rightarrow> bool"
  for info_of decode where
  Start: "load_reach info_of decode \<lparr>lw_state = results_start, lw_calls = [], lw_shown = None\<rparr>"
| Step: "load_reach info_of decode w \<Longrightarrow> load_step info_of decode w w' \<Longrightarrow> load_reach info_of decode w'"

text \<open>What a table's index is when every question has been answered.\<close>

definition index_of ::
  "(string \<Rightarrow> shown_info option) \<Rightarrow> (string \<Rightarrow> string list \<Rightarrow> index_part decoded list option) \<Rightarrow> mib_node \<Rightarrow> result_row list
    \<Rightarrow> shown_info option \<times> index_part decoded list" where
  "index_of info_of decode node results = (case info_of (nd_oid node) of None \<Rightarrow> (None, [])
     | Some info \<Rightarrow> (Some info, let insts = instances node results in
         if insts = [] then [] else case decode (ti_oid info) insts of Some ds \<Rightarrow> ds | None \<Rightarrow> []))"

definition genuine ::
  "(string \<Rightarrow> shown_info option) \<Rightarrow> under_way \<Rightarrow> bool" where
  "genuine info_of u \<longleftrightarrow> (let c = call_of u in
     lc_token c = index_token (nd_oid (lc_node c)) (lc_results c) \<and> lc_oid c = nd_oid (lc_node c) \<and>
     (case u of Asked _ \<Rightarrow> True
      | Decoding _ info insts \<Rightarrow> info_of (lc_oid c) = Some info \<and> insts = instances (lc_node c) (lc_results c) \<and> insts \<noteq> []))"

definition settled_for ::
  "(string \<Rightarrow> shown_info option) \<Rightarrow> (string \<Rightarrow> string list \<Rightarrow> index_part decoded list option) \<Rightarrow> string \<Rightarrow> results_state \<Rightarrow> bool" where
  "settled_for info_of decode token st \<longleftrightarrow> (\<exists>node results. index_token (nd_oid node) results = token \<and>
     (rs_info st, rs_decoded st) = index_of info_of decode node results)"

definition load_inv ::
  "(string \<Rightarrow> shown_info option) \<Rightarrow> (string \<Rightarrow> string list \<Rightarrow> index_part decoded list option) \<Rightarrow> load_world \<Rightarrow> bool" where
  "load_inv info_of decode w \<longleftrightarrow> (\<forall>u \<in> set (lw_calls w). genuine info_of u) \<and>
     (case lw_shown w of
        None \<Rightarrow> rs_indexesFor (lw_state w) = None \<and> rs_info (lw_state w) = None \<and> rs_decoded (lw_state w) = []
      | Some (node, results) \<Rightarrow> (let token = index_token (nd_oid node) results in
          rs_indexesFor (lw_state w) = Some token \<and>
          ((\<exists>u \<in> set (lw_calls w). lc_token (call_of u) = token) \<or> settled_for info_of decode token (lw_state w))))"

lemma publish_other: "rs_indexesFor st \<noteq> Some (lc_token c) \<Longrightarrow> publish c info decs st = st"
  by (simp add: publish_def)

text \<open>An answer to a call that is no longer the current one changes nothing.\<close>

lemma stale_answer:
  "rs_indexesFor st \<noteq> Some (lc_token (call_of u)) \<Longrightarrow> take_answer info_of decode u st = (st, [])"
  by (cases u) (auto simp: load_info_def load_decoded_def publish_other split: option.splits)

lemma current_answer:
  assumes "rs_indexesFor st = Some (lc_token (call_of u))" "genuine info_of u" "take_answer info_of decode u st = (st', further)"
  shows "rs_indexesFor st' = rs_indexesFor st \<and> (\<forall>v \<in> set further. genuine info_of v \<and> lc_token (call_of v) = lc_token (call_of u)) \<and>
    (further \<noteq> [] \<or> settled_for info_of decode (lc_token (call_of u)) st')"
proof (cases u)
  case (Asked c)
  have "settled_for info_of decode (lc_token c) s" if "(rs_info s, rs_decoded s) = index_of info_of decode (lc_node c) (lc_results c)" for s
    using that assms(2) Asked by (auto simp: settled_for_def genuine_def Let_def)
  then show ?thesis
    using assms Asked
    by (cases "info_of (lc_oid c)")
      (auto simp: load_info_def publish_def index_of_def genuine_def Let_def split: if_splits)
next
  case (Decoding c info insts)
  have "settled_for info_of decode (lc_token c) s" if "(rs_info s, rs_decoded s) = index_of info_of decode (lc_node c) (lc_results c)" for s
    using that assms(2) Decoding by (auto simp: settled_for_def genuine_def Let_def)
  then show ?thesis
    using assms Decoding by (auto simp: load_decoded_def publish_def index_of_def genuine_def Let_def)
qed

lemma settled_same: "same_index st st' \<Longrightarrow> settled_for info_of decode token st' = settled_for info_of decode token st"
  by (simp add: settled_for_def same_index_def)

lemma load_inv_shown:
  assumes "load_inv info_of decode w"
  shows "load_inv info_of decode (load_shown node results w)"
proof (cases "has_table node results")
  case False
  then show ?thesis using assms
    by (auto simp: load_inv_def load_shown_def index_begin_def has_table_def split: option.splits)
next
  case True
  then obtain n where n: "node = Some n" "nd_oid n \<noteq> []" "results \<noteq> []" by (auto simp: has_table_def split: option.splits)
  show ?thesis
  proof (cases "rs_indexesFor (lw_state w) = Some (index_token (nd_oid n) results)")
    case same: True
    then show ?thesis using assms n True
      by (auto simp: load_inv_def load_shown_def index_begin_def Let_def split: option.splits)
  next
    case False
    then show ?thesis using assms n True
      by (auto simp: load_inv_def load_shown_def index_begin_def Let_def genuine_def)
  qed
qed

lemma load_inv_step:
  assumes "load_step info_of decode w w'" "load_inv info_of decode w"
  shows "load_inv info_of decode w'"
  using assms
proof (induction rule: load_step.induct)
  case (Shown w node results)
  then show ?case by (rule load_inv_shown)
next
  case (Answer w before u after st further)
  show ?case
  proof (cases "rs_indexesFor (lw_state w) = Some (lc_token (call_of u))")
    case True
    have "genuine info_of u" using Answer by (simp add: load_inv_def)
    note now = current_answer[OF True this Answer(2)]
    obtain node results where shown: "lw_shown w = Some (node, results)"
      "lc_token (call_of u) = index_token (nd_oid node) results"
      using Answer(3) True by (auto simp: load_inv_def Let_def split: option.splits)
    have "\<forall>v \<in> set (before @ further @ after). genuine info_of v" using now Answer(1,3) by (auto simp: load_inv_def)
    moreover have "(\<exists>v \<in> set (before @ further @ after). lc_token (call_of v) = lc_token (call_of u)) \<or>
        settled_for info_of decode (lc_token (call_of u)) st"
      using now by (cases further) auto
    ultimately show ?thesis using now True shown by (simp add: load_inv_def)
  next
    case False
    from stale_answer[OF this] Answer(2) have "st = lw_state w" "further = []" by auto
    moreover have "lc_token (call_of u) \<noteq> index_token (nd_oid node) results" if "lw_shown w = Some (node, results)" for node results
      using Answer(3) False that by (auto simp: load_inv_def Let_def)
    ultimately show ?thesis using Answer(1,3)
      by (cases "lw_shown w") (auto simp: load_inv_def Let_def)
  qed
next
  case (Other w st)
  have "rs_indexesFor st = rs_indexesFor (lw_state w)" "rs_info st = rs_info (lw_state w)" "rs_decoded st = rs_decoded (lw_state w)"
    using Other(1) by (simp_all add: same_index_def)
  then show ?case using Other(2) settled_same[OF Other(1)]
    by (cases "lw_shown w") (simp_all add: load_inv_def Let_def case_prod_beta)
qed

lemma load_inv_reach: "load_reach info_of decode w \<Longrightarrow> load_inv info_of decode w"
proof (induction rule: load_reach.induct)
  case Start
  show ?case by (simp add: load_inv_def results_start_def)
next
  case (Step w w')
  then show ?case by (blast intro: load_inv_step)
qed

lemma token_inject:
  assumes "index_token o1 r1 = index_token o2 r2"
  shows "o1 = o2"
proof -
  have no: "CHR ''|'' \<notin> set (join_with CHR '','' (map (\<lambda>r. case walk_of r of Some xs \<Rightarrow> show_nat (length xs) | None \<Rightarrow> ''-1'') rs))" for rs
    by (induction rs rule: induct_list012) (auto simp: show_nat_no_char split: option.splits)
  let ?c = "\<lambda>rs. join_with CHR '','' (map (\<lambda>r. case walk_of r of Some xs \<Rightarrow> show_nat (length xs) | None \<Rightarrow> ''-1'') rs)"
  have sp: "index_token oid rs = (oid @ CHR ''|'' # show_nat (length rs)) @ CHR ''|'' # ?c rs" for oid rs
    by (simp add: index_token_def)
  have c: "?c r1 = ?c r2" using assms unfolding sp by (rule last_part_inject) (rule no)+
  then have "oid1 @ CHR ''|'' # show_nat (length r1) = oid2 @ CHR ''|'' # show_nat (length r2) \<Longrightarrow> oid1 = oid2" for oid1 oid2
  proof -
    assume e: "oid1 @ CHR ''|'' # show_nat (length r1) = oid2 @ CHR ''|'' # show_nat (length r2)"
    then have "show_nat (length r1) = show_nat (length r2)" by (rule last_part_inject) (simp_all add: show_nat_no_char)
    with e show "oid1 = oid2" by simp
  qed
  moreover have "o1 @ CHR ''|'' # show_nat (length r1) = o2 @ CHR ''|'' # show_nat (length r2)"
    using assms c unfolding sp by simp
  ultimately show ?thesis by blast
qed


definition some_table :: mib_node where
  "some_table = MibNode [(''oid'', JStr ''1''), (''mibType'', JStr ''Table'')] []"

definition some_info :: shown_info where
  "some_info = \<lparr>ti_columns = [], ti_rowStatusOid = ''1.9'', ti_oid = ''1'', ti_name = ''aTable'', ti_index = [(''i'', ''INTEGER'')]\<rparr>"


text \<open>
  A walk of the same table with as many varbinds asks for nothing: the rows that are new keep the
  raw instance.
\<close>

lemma same_counts_not_reloaded:
  assumes "index_token (nd_oid n) results' = index_token (nd_oid n) results"
    "rs_indexesFor st = Some (index_token (nd_oid n) results)" "results' \<noteq> []" "nd_oid n \<noteq> []"
  shows "index_begin (Some n) results' st = (st, None)"
  using assms by (simp add: index_begin_def Let_def)

text \<open>
  What is written is worked out from the table that is loaded when the operator confirms, not from the one
  the row was picked from: the row status of another table, at the index of this one.
\<close>

lemma destroy_takes_the_loaded_table:
  assumes "rs_info st' = Some info" "ti_rowStatusOid info \<noteq> []" "rs_destroyRow st' = rs_destroyRow (askDestroy row st)"
  shows "\<exists>w. snd (confirmDestroy st') = Some w \<and> rw_target w = dm_target row \<and>
    map vb_oid (rw_vars w) = [ti_rowStatusOid info @ ''.'' @ dm_index row]"
  using assms by (simp add: confirmDestroy_def askDestroy_def buildDestroyVarbinds_def table_info.truncate_def)

text \<open>A form that was closed while its index was encoded comes back, with nothing but the error.\<close>

lemma closed_form_comes_back:
  "rs_newRow st = Form f \<Longrightarrow> rs_destroyRow st = None \<Longrightarrow>
   rs_newRow (submit_failed message (closeOnEscape ''Escape'' st)) = Torn message"
  by (simp add: closeOnEscape_def submit_failed_def)

text \<open>An escaped cell has no tag in it.\<close>

lemma htmlEscape_no_tag: "CHR ''<'' \<notin> set (htmlEscape s)" "CHR ''>'' \<notin> set (htmlEscape s)"
  by (auto simp: htmlEscape_def replace_each_def split: if_splits)

end
