(* ===== verification/Operations_Panel.thy ===== *)
theory Operations_Panel
  imports Results_View Targets "HOL-Library.Char_ord"
begin

text \<open>
  The operations panel: the script of \<open>frontend/src/OperationsPanel.svelte\<close>. The five OID fields and
  their edit flags are functions of the operation's name; a selected node carries its identity. A handler
  is cut where it waits: \<open>op_begin\<close> up to the call, \<open>op_answered\<close> up to the resolution of names,
  \<open>op_finish\<close> or \<open>op_failed\<close> after it, each reading the state and the settings of its own moment as
  the script does. \<open>stringify\<close> is the grouping key of \<open>Targets\<close>; \<open>text_of\<close> is \<open>String\<close>. The lemmas
  show what each request carries and where it goes, and what a selection fills in.
\<close>

section \<open>The state\<close>

record ops_state =
  os_active :: string
  os_oid :: "string \<Rightarrow> string"
  os_edited :: "string \<Rightarrow> bool"
  os_value :: jsval
  os_type :: string
  os_showConfirm :: bool
  os_dontAsk :: bool
  os_maxRepetitions :: jsval
  os_nonRepeaters :: jsval
  os_results :: "result_row list"
  os_loading :: bool
  os_cache :: "string \<Rightarrow> jsval"
  os_node :: "(nat \<times> mib_node) option"
  os_previous :: "nat option"
  os_lastAutoFilled :: string
  os_instance :: string
  os_timers :: nat

definition ops_start :: ops_state where
  "ops_start = \<lparr>os_active = ''GET'', os_oid = (\<lambda>op. []), os_edited = (\<lambda>op. False), os_value = JStr [], os_type = ''string'',
     os_showConfirm = False, os_dontAsk = False, os_maxRepetitions = JNum 10, os_nonRepeaters = JNum 0, os_results = [],
     os_loading = False, os_cache = (\<lambda>oid. JUndef), os_node = None, os_previous = None, os_lastAutoFilled = [],
     os_instance = ''0'', os_timers = 0\<rparr>"

definition picked_node :: "ops_state \<Rightarrow> mib_node option" where
  "picked_node st = map_option snd (os_node st)"

definition isCurrentNodeWritable :: "ops_state \<Rightarrow> bool" where
  "isCurrentNodeWritable st = isNodeWritable (picked_node st)"

section \<open>A node is selected\<close>

definition enum_of :: "mib_node \<Rightarrow> jsval" where
  "enum_of n = fget (nd_fields n) ''enumValues''"

definition instance_oid :: "mib_node \<Rightarrow> string" where
  "instance_oid n = (if nd_type n = ''Scalar'' then nd_oid n @ ''.0''
     else if nd_type n = ''Column'' then nd_oid n @ ''.'' @ ''0'' else nd_oid n)"

definition filled_oid :: "mib_node \<Rightarrow> string \<Rightarrow> string" where
  "filled_oid n op = (if op = ''GETBULK'' \<or> op = ''WALK'' then nd_oid n else instance_oid n)"

text \<open>The first value of an enumeration, \<open>undefined\<close> when it has none.\<close>

definition first_enum :: "mib_node \<Rightarrow> jsval" where
  "first_enum n = (case fields_of (enum_of n) of [] \<Rightarrow> JUndef | (k, v) # r \<Rightarrow> v)"

definition select_node :: "(jsval \<Rightarrow> string) \<Rightarrow> jsval \<Rightarrow> ops_state \<Rightarrow> ops_state" where
  "select_node text_of settings st = (case os_node st of None \<Rightarrow> st
     | Some (ident, n) \<Rightarrow>
         if os_previous st = Some ident then st
         else st\<lparr>
           os_instance := (if nd_type n = ''Column'' then ''0'' else os_instance st),
           os_active := (if nd_type n = ''Table'' \<or> nd_type n = ''Row'' then ''WALK'' else os_active st),
           os_oid := (\<lambda>op. if os_edited st op then os_oid st op else filled_oid n op),
           os_edited := (\<lambda>op. False),
           os_type := or_else (nd_text ''syntax'' n) ''string'',
           os_value := (if truthy (enum_of n) then JStr (text_of (first_enum n)) else JStr []),
           os_lastAutoFilled := [],
           os_timers := os_timers st + (if truthy (jget settings ''autoGetEnabled'') \<and> \<not> os_loading st \<and>
             (nd_type n = ''Scalar'' \<or> nd_type n = ''Column'') then 1 else 0),
           os_previous := Some ident\<rparr>)"

text \<open>An action of the context menu.\<close>

definition take_action :: "string \<Rightarrow> string \<Rightarrow> ops_state \<Rightarrow> ops_state" where
  "take_action type oid st =
     (if type \<in> {''GET'', ''SET'', ''GETNEXT'', ''GETBULK'', ''WALK''}
      then st\<lparr>os_active := type, os_oid := (os_oid st)(type := oid)\<rparr>
      else if type = ''WALK_TABLE'' then st\<lparr>os_active := ''WALK'', os_oid := (os_oid st)(''WALK'' := oid)\<rparr>
      else st)"

section \<open>Values for a SET\<close>

definition formatValueForSet :: "(jsval \<Rightarrow> string) \<Rightarrow> jsval \<Rightarrow> mib_node option \<Rightarrow> string" where
  "formatValueForSet text_of value node = (case node of None \<Rightarrow> text_of value
     | Some n \<Rightarrow> if \<not> truthy (enum_of n) then text_of value
         else case number_of value of None \<Rightarrow> text_of value
         | Some q \<Rightarrow> if list_ex (\<lambda>(k, v). v = JNum q) (fields_of (enum_of n)) then show_num q else text_of value)"

definition BOOLEAN_PATTERNS :: "(string \<times> string) list" where
  "BOOLEAN_PATTERNS = [(''true'', ''false''), (''false'', ''true''), (''enabled'', ''disabled''), (''disabled'', ''enabled''),
     (''up'', ''down''), (''down'', ''up''), (''on'', ''off''), (''off'', ''on''), (''yes'', ''no''), (''no'', ''yes''),
     (''active'', ''inactive''), (''inactive'', ''active'')]"

definition isBooleanEnum :: "mib_node option \<Rightarrow> bool" where
  "isBooleanEnum node = (case node of None \<Rightarrow> False
     | Some n \<Rightarrow> truthy (enum_of n) \<and> length (fields_of (enum_of n)) = 2 \<and>
         (let names = sort (map (toLowerCase \<circ> fst) (fields_of (enum_of n)))
          in list_ex (\<lambda>(a, b). names = sort [a, b]) BOOLEAN_PATTERNS))"

record boolean_enum =
  be_true :: string
  be_false :: string
  be_trueLabel :: string
  be_falseLabel :: string

definition TRUE_NAMES :: "string list" where
  "TRUE_NAMES = [''true'', ''enabled'', ''up'', ''on'', ''yes'', ''active'']"

definition says_true :: "string \<times> jsval \<Rightarrow> bool" where
  "says_true e \<longleftrightarrow> toLowerCase (fst e) \<in> set TRUE_NAMES"

text \<open>The last entry that says true and the last that does not; the first two when there is no such pair.\<close>

definition last_such :: "('a \<Rightarrow> bool) \<Rightarrow> 'a list \<Rightarrow> 'a option" where
  "last_such P xs = List.find P (rev xs)"

definition getBooleanEnumValues :: "(jsval \<Rightarrow> string) \<Rightarrow> mib_node option \<Rightarrow> boolean_enum option" where
  "getBooleanEnumValues text_of node =
     (let entries = (case node of None \<Rightarrow> [] | Some n \<Rightarrow> fields_of (enum_of n));
          of_pair = (\<lambda>t f. \<lparr>be_true = text_of (snd t), be_false = text_of (snd f), be_trueLabel = fst t, be_falseLabel = fst f\<rparr>)
      in if node = None \<or> \<not> truthy (enum_of (the node))
         then Some \<lparr>be_true = ''1'', be_false = ''0'', be_trueLabel = ''True'', be_falseLabel = ''False''\<rparr>
         else case (last_such says_true entries, last_such (\<lambda>e. \<not> says_true e) entries) of
           (Some t, Some f) \<Rightarrow> Some (of_pair t f)
         | _ \<Rightarrow> (case entries of a # b # r \<Rightarrow> Some (of_pair a b) | _ \<Rightarrow> None))"

definition booleanEnumValues :: "(jsval \<Rightarrow> string) \<Rightarrow> ops_state \<Rightarrow> boolean_enum option" where
  "booleanEnumValues text_of st = (if isBooleanEnum (picked_node st) then getBooleanEnumValues text_of (picked_node st) else None)"

definition isBooleanTrue :: "(jsval \<Rightarrow> string) \<Rightarrow> ops_state \<Rightarrow> bool" where
  "isBooleanTrue text_of st = (case booleanEnumValues text_of st of None \<Rightarrow> False | Some b \<Rightarrow> os_value st = JStr (be_true b))"

definition toggle_boolean :: "(jsval \<Rightarrow> string) \<Rightarrow> ops_state \<Rightarrow> ops_state" where
  "toggle_boolean text_of st = (case booleanEnumValues text_of st of None \<Rightarrow> st
     | Some b \<Rightarrow> if isCurrentNodeWritable st
         then st\<lparr>os_value := JStr (if isBooleanTrue text_of st then be_false b else be_true b)\<rparr> else st)"

section \<open>The fields\<close>

definition oid_input :: "string \<Rightarrow> string \<Rightarrow> ops_state \<Rightarrow> ops_state" where
  "oid_input op text st = st\<lparr>os_oid := (os_oid st)(op := text), os_edited := (os_edited st)(op := True)\<rparr>"

definition handleInstanceChange :: "string \<Rightarrow> ops_state \<Rightarrow> ops_state" where
  "handleInstanceChange text st = (let st = st\<lparr>os_instance := text\<rparr> in
     case picked_node st of Some n \<Rightarrow> if nd_type n = ''Column''
         then (let oid = nd_oid n @ ''.'' @ text in st\<lparr>os_oid := (os_oid st)(''GET'' := oid, ''SET'' := oid)\<rparr>) else st
     | None \<Rightarrow> st)"

definition handleWalkResultClick :: "string \<Rightarrow> ops_state \<Rightarrow> ops_state" where
  "handleWalkResultClick fullOid st =
     st\<lparr>os_oid := (os_oid st)(''GET'' := fullOid, ''SET'' := fullOid),
        os_edited := (os_edited st)(''GET'' := True, ''SET'' := True),
        os_instance := (case picked_node st of None \<Rightarrow> os_instance st
          | Some n \<Rightarrow> if nd_type n = ''Column'' \<and> starts_with fullOid (nd_oid n @ ''.'')
              then drop (length (nd_oid n) + 1) fullOid else os_instance st),
        os_active := ''GET''\<rparr>"

definition handleLoadQuery :: "jsval \<Rightarrow> ops_state \<Rightarrow> ops_state" where
  "handleLoadQuery q st =
     (let op = str (jget q ''operation''); p = jget q ''params'';
          st = st\<lparr>os_active := op\<rparr>;
          st = (if op \<in> {''GET'', ''SET'', ''GETNEXT'', ''GETBULK'', ''WALK''}
                then st\<lparr>os_oid := (os_oid st)(op := str (jget q ''oid''))\<rparr> else st)
      in if op = ''SET''
         then st\<lparr>os_value := (if truthy (jget p ''value'') then jget p ''value'' else os_value st),
                 os_type := (if truthy (jget p ''type'') then str (jget p ''type'') else os_type st)\<rparr>
         else if op = ''GETBULK''
         then st\<lparr>os_maxRepetitions := (if truthy (jget p ''maxRepetitions'') then jget p ''maxRepetitions'' else os_maxRepetitions st),
                 os_nonRepeaters := or_undef (jget p ''nonRepeaters'') (os_nonRepeaters st)\<rparr>
         else st)"

section \<open>An operation\<close>

text \<open>What is said to the operator: the key of the text, and whether it is an error.\<close>

record said =
  sd_key :: string
  sd_kind :: string

definition say_error :: "string \<Rightarrow> said" where "say_error key = \<lparr>sd_key = key, sd_kind = ''error''\<rparr>"
definition say_done :: "string \<Rightarrow> said" where "say_done key = \<lparr>sd_key = key, sd_kind = ''success''\<rparr>"

record op_call =
  oc_op :: string
  oc_targets :: "string list"
  oc_start :: int
  oc_requests :: "fields list"

definition targets_of :: "jsval \<Rightarrow> string list" where
  "targets_of settings = getTargetsAsArray (str (jget settings ''targets''))"

text \<open>The request of one group, and the requests of \<open>executeGrouped\<close>.\<close>

definition op_request :: "(jsval \<Rightarrow> string) \<Rightarrow> string \<Rightarrow> ops_state \<Rightarrow> group \<Rightarrow> fields" where
  "op_request text_of op st g = (let s = JObj (g_settings g); oid = os_oid st op in
     if op = ''SET'' then buildSetRequest s (g_targets g) oid (JStr (text_of (os_value st))) (JStr (os_type st))
     else if op = ''GETBULK'' then buildGetBulkRequest s (g_targets g) oid (os_nonRepeaters st) (os_maxRepetitions st)
     else buildSnmpRequest s (g_targets g) oid)"

definition executeGrouped :: "(jsval \<Rightarrow> 'k) \<Rightarrow> (jsval \<Rightarrow> string) \<Rightarrow> string \<Rightarrow> jsval \<Rightarrow> ops_state \<Rightarrow> fields list" where
  "executeGrouped stringify text_of op settings st =
     map (op_request text_of op st) (groupTargetsByConfig stringify settings)"

definition op_begin ::
  "(jsval \<Rightarrow> 'k) \<Rightarrow> (jsval \<Rightarrow> string) \<Rightarrow> string \<Rightarrow> jsval \<Rightarrow> int \<Rightarrow> ops_state \<Rightarrow> ops_state \<times> said list \<times> op_call option" where
  "op_begin stringify text_of op settings now st =
     (let st = st\<lparr>os_results := [], os_loading := True\<rparr>; targets = targets_of settings in
      if targets = [] then (st\<lparr>os_loading := False\<rparr>, [say_error ''operations.enterTarget''], None)
      else if op = ''GETBULK'' \<and> jget settings ''snmpVersion'' = JStr ''v1''
      then (st\<lparr>os_loading := False\<rparr>, [say_error ''operations.getBulkV1Warning''], None)
      else (st, [], Some \<lparr>oc_op = op, oc_targets = targets, oc_start = now,
                          oc_requests = executeGrouped stringify text_of op settings st\<rparr>))"

text \<open>The OIDs whose names are asked for.\<close>

definition result_oids :: "result_row list \<Rightarrow> string list" where
  "result_oids results = dedup (concat (map (\<lambda>r. if rr_error r \<noteq> [] then [] else case rr_result r of None \<Rightarrow> []
     | Some p \<Rightarrow> if rp_type p = ''WalkResponse'' \<or> rp_type p = ''GetBulkResponse''
         then filter (\<lambda>i. i \<noteq> []) (case rp_value p of Many xs \<Rightarrow> map wi_oid xs | One v \<Rightarrow> [])
         else if rp_oid p \<noteq> [] then [rp_oid p] else []) results))"

text \<open>All the calls have answered; the OIDs to resolve, none for a SET.\<close>

definition op_answered :: "op_call \<Rightarrow> result_row list list \<Rightarrow> ops_state \<Rightarrow> ops_state \<times> string list" where
  "op_answered call answers st =
     (st\<lparr>os_results := concat answers\<rparr>, if oc_op call = ''SET'' then [] else result_oids (concat answers))"

definition op_resolved :: "(string \<Rightarrow> jsval) option \<Rightarrow> ops_state \<Rightarrow> ops_state" where
  "op_resolved answer st = (case answer of Some c \<Rightarrow> st\<lparr>os_cache := c\<rparr> | None \<Rightarrow> st)"

record op_entry =
  he_operation :: string
  he_targets :: "string list"
  he_oid :: string
  he_value :: "(string \<times> string) option"
  he_version :: jsval
  he_duration :: int
  he_results :: "result_row list option"
  he_total :: "nat option"
  he_error :: string
  he_success :: bool

definition total_results :: "result_row list \<Rightarrow> nat" where
  "total_results results = (\<Sum>r \<leftarrow> results. case walk_of r of Some xs \<Rightarrow> length xs | None \<Rightarrow> 0)"

definition history_entry :: "(jsval \<Rightarrow> string) \<Rightarrow> op_call \<Rightarrow> jsval \<Rightarrow> int \<Rightarrow> ops_state \<Rightarrow> op_entry" where
  "history_entry text_of call settings now st =
     \<lparr>he_operation = oc_op call, he_targets = oc_targets call, he_oid = os_oid st (oc_op call),
      he_value = (if oc_op call = ''SET'' then Some (text_of (os_value st), os_type st) else None),
      he_version = jget settings ''snmpVersion'', he_duration = now - oc_start call,
      he_results = Some (os_results st),
      he_total = (if is_walk (oc_op call) then Some (total_results (os_results st)) else None),
      he_error = [], he_success = list_all (\<lambda>r. rr_error r = []) (os_results st)\<rparr>"

definition failure_entry :: "(jsval \<Rightarrow> string) \<Rightarrow> op_call \<Rightarrow> string \<Rightarrow> jsval \<Rightarrow> int \<Rightarrow> ops_state \<Rightarrow> op_entry" where
  "failure_entry text_of call message settings now st =
     (history_entry text_of call settings now st)\<lparr>he_results := None, he_total := None, he_error := message, he_success := False\<rparr>"

definition COMPLETED :: "string \<Rightarrow> string" where
  "COMPLETED op = (if op = ''GET'' then ''operations.getCompleted'' else if op = ''SET'' then ''operations.setCompleted''
     else if op = ''GETNEXT'' then ''operations.getNextCompleted'' else if op = ''GETBULK'' then ''operations.getBulkCompleted''
     else ''operations.walkCompleted'')"

definition FAILED :: "string \<Rightarrow> string" where
  "FAILED op = (if op = ''GET'' then ''operations.getFailed'' else if op = ''SET'' then ''operations.setFailed''
     else if op = ''GETNEXT'' then ''operations.getNextFailed'' else if op = ''GETBULK'' then ''operations.getBulkFailed''
     else ''operations.walkFailed'')"

text \<open>\<open>Number\<close> and \<open>String\<close> of an answer; an array of varbinds is no number.\<close>

definition reply_number :: "reply \<Rightarrow> rat option" where
  "reply_number r = (case r of One v \<Rightarrow> number_of v | Many xs \<Rightarrow> if xs = [] then Some 0 else None)"

definition number_text :: "rat option \<Rightarrow> string" where
  "number_text q = (case q of Some n \<Rightarrow> show_num n | None \<Rightarrow> ''NaN'')"

definition first_value :: "result_row list \<Rightarrow> reply option" where
  "first_value results = (case results of [] \<Rightarrow> None
     | r # rs \<Rightarrow> if rr_error r \<noteq> [] then None
         else Option.bind (rr_result r) (\<lambda>p. if rp_value p = One JUndef then None else Some (rp_value p)))"

text \<open>The answer of a GET as the value of the next SET: of the node selected now.\<close>

definition auto_value :: "(reply \<Rightarrow> string) \<Rightarrow> mib_node \<Rightarrow> reply \<Rightarrow> string" where
  "auto_value reply_string n raw =
     (if truthy (enum_of n) then number_text (reply_number raw)
      else reply_string raw)"

definition autofill :: "(reply \<Rightarrow> string) \<Rightarrow> jsval \<Rightarrow> ops_state \<Rightarrow> ops_state \<times> said" where
  "autofill reply_string settings st =
     (case (picked_node st, first_value (os_results st)) of
        (Some n, Some raw) \<Rightarrow>
          if truthy (jget settings ''autoFillSetEnabled'') \<and> isCurrentNodeWritable st
          then (let t = auto_value reply_string n raw in
            (st\<lparr>os_value := JStr t, os_lastAutoFilled := t\<rparr>, say_done ''operations.getAutoFilled''))
          else (st, say_done (COMPLETED ''GET''))
      | _ \<Rightarrow> (st, say_done (COMPLETED ''GET'')))"

definition op_finish ::
  "(jsval \<Rightarrow> string) \<Rightarrow> (reply \<Rightarrow> string) \<Rightarrow> op_call \<Rightarrow> jsval \<Rightarrow> int \<Rightarrow> ops_state \<Rightarrow> ops_state \<times> said \<times> op_entry" where
  "op_finish text_of reply_string call settings now st =
     (let entry = history_entry text_of call settings now st;
          (st', said) = (if oc_op call = ''GET'' then autofill reply_string settings st else (st, say_done (COMPLETED (oc_op call))))
      in (st'\<lparr>os_loading := False\<rparr>, said, entry))"

definition op_failed ::
  "(jsval \<Rightarrow> string) \<Rightarrow> op_call \<Rightarrow> string \<Rightarrow> jsval \<Rightarrow> int \<Rightarrow> ops_state \<Rightarrow> ops_state \<times> said \<times> op_entry" where
  "op_failed text_of call message settings now st =
     (st\<lparr>os_loading := False\<rparr>, say_error (FAILED (oc_op call)), failure_entry text_of call message settings now st)"

section \<open>SET\<close>

definition setDisabledReason :: "ops_state \<Rightarrow> string" where
  "setDisabledReason st = (case picked_node st of None \<Rightarrow> ''operations.selectNodeFirst''
     | Some n \<Rightarrow> if isCurrentNodeWritable st then [] else ''operations.setNotWritable'')"

definition handleSnmpSet ::
  "(jsval \<Rightarrow> 'k) \<Rightarrow> (jsval \<Rightarrow> string) \<Rightarrow> jsval \<Rightarrow> int \<Rightarrow> ops_state \<Rightarrow> ops_state \<times> said list \<times> op_call option" where
  "handleSnmpSet stringify text_of settings now st =
     (if \<not> isCurrentNodeWritable st then (st, [say_error (setDisabledReason st)], None)
      else if targets_of settings = [] then (st, [say_error ''operations.enterTarget''], None)
      else if truthy (jget settings ''skipSetConfirm'') then op_begin stringify text_of ''SET'' settings now st
      else (st\<lparr>os_dontAsk := False, os_showConfirm := True\<rparr>, [], None))"

text \<open>The settings to save first, if any; \<open>performSnmpSet\<close> is \<open>op_begin\<close> after that.\<close>

definition confirmSetAndExecute :: "jsval \<Rightarrow> ops_state \<Rightarrow> ops_state \<times> jsval option" where
  "confirmSetAndExecute settings st =
     (st\<lparr>os_showConfirm := False\<rparr>, if os_dontAsk st then Some (jset ''skipSetConfirm'' (JBool True) settings) else None)"

section \<open>A row is written\<close>

definition varbind_json :: "varbind \<Rightarrow> jsval" where
  "varbind_json v = JObj [(''oid'', JStr (vb_oid v)), (''value'', JStr (vb_value v)), (''type'', JStr (vb_type v))]"

definition handleTableRowWrite :: "row_write \<Rightarrow> jsval \<Rightarrow> ops_state \<Rightarrow> ops_state \<times> said list \<times> fields option" where
  "handleTableRowWrite w settings st =
     (if rw_vars w = [] then (st, [], None)
      else if rw_target w = [] then (st, [say_error ''operations.enterTarget''], None)
      else (st\<lparr>os_loading := True\<rparr>, [],
            Some (buildSetMultiRequest (JObj (getEffectiveSettings settings (rw_target w))) [rw_target w]
                   (map varbind_json (rw_vars w)))))"

text \<open>The answer, and the operation that is run again: the walk or the bulk request on screen.\<close>

definition row_written :: "row_write \<Rightarrow> result_row list \<Rightarrow> ops_state \<Rightarrow> said \<times> string option" where
  "row_written w results st =
     (if list_ex (\<lambda>r. rr_error r \<noteq> []) results then (say_error ''results.rowWriteFailed'', None)
      else (say_done (if rw_kind w = ''destroy'' then ''results.rowDestroyed'' else ''results.rowCreated''),
            if is_walk (os_active st) then Some (os_active st) else None))"

definition row_write_over :: "ops_state \<Rightarrow> ops_state" where
  "row_write_over st = st\<lparr>os_loading := False\<rparr>"

section \<open>Every target is asked as itself\<close>

lemma op_request_targets: "fget (op_request text_of op st g) ''targets'' = JArr (map JStr (g_targets g))"
  by (simp add: op_request_def Let_def buildSetRequest_def buildGetBulkRequest_def buildSnmpRequest_def fget_spread_None fget_lookup)

lemma op_request_oid: "fget (op_request text_of op st g) ''oid'' = JStr (os_oid st op)"
  by (simp add: op_request_def Let_def buildSetRequest_def buildGetBulkRequest_def buildSnmpRequest_def fget_spread_None fget_lookup)

lemma same_key_same_request:
  assumes "group_key (g_settings g) = group_key (g_settings h)" "k \<noteq> ''targets''"
  shows "fget (op_request text_of op st g) k = fget (op_request text_of op st h) k"
proof -
  have s: "fget (g_settings g) j = fget (g_settings h) j"
    if "j \<in> {''community'', ''snmpVersion'', ''port'', ''timeout'', ''retries'', ''v3''}" for j
    using assms(1) that by (auto simp: group_key_def)
  then have v: "buildV3Params (JObj (g_settings g)) = buildV3Params (JObj (g_settings h))"
    by (simp add: buildV3Params_def)
  have b: "fget (buildSnmpRequest (JObj (g_settings g)) ts oid) j = fget (buildSnmpRequest (JObj (g_settings h)) ts' oid) j"
    if "j \<noteq> ''targets''" for ts ts' oid j
    using that s v by (simp add: buildSnmpRequest_def fget_lookup)
  have sp: "fget (spread (buildSnmpRequest (JObj (g_settings g)) ts oid) x) j = fget (spread (buildSnmpRequest (JObj (g_settings h)) ts' oid) x) j"
    if "distinct (map fst x)" "j \<noteq> ''targets''" for ts ts' oid j x
    using b[OF that(2)] by (simp add: fget_spread[OF that(1)] split: option.splits)
  show ?thesis
    using b[OF assms(2)] sp[OF _ assms(2)]
    by (simp add: op_request_def Let_def buildSetRequest_def buildGetBulkRequest_def)
qed

lemma op_begin_call:
  assumes "op_begin stringify text_of op settings now st = (st', said, Some call)"
  shows "oc_op call = op" "oc_targets call = targets_of settings" "said = []"
    "st' = st\<lparr>os_results := [], os_loading := True\<rparr>"
    "oc_requests call = map (op_request text_of op st') (groupTargetsByConfig stringify settings)"
  using assms by (auto simp: op_begin_def Let_def executeGrouped_def split: if_splits)

lemma op_request_state: "os_oid st' = os_oid st \<Longrightarrow> os_value st' = os_value st \<Longrightarrow> os_type st' = os_type st \<Longrightarrow>
  os_nonRepeaters st' = os_nonRepeaters st \<Longrightarrow> os_maxRepetitions st' = os_maxRepetitions st \<Longrightarrow>
  op_request text_of op st' g = op_request text_of op st g"
  by (simp add: op_request_def Let_def)

lemma image_sum_list: "image_mset f (\<Sum>x \<leftarrow> xs. g x) = (\<Sum>x \<leftarrow> xs. image_mset f (g x))"
  by (induction xs) simp_all

text \<open>
  C27. Whatever the operation, its requests name every enabled target exactly once, and but for the list
  of targets each says what a request to any of its targets alone would say: that target's identity,
  port and limits, and the OID and the value of the form.
\<close>

theorem each_target_asked_as_itself:
  assumes "inj stringify" "op_begin stringify text_of op settings now st = (st', said, Some call)"
  shows "(\<Sum>r \<leftarrow> oc_requests call. mset (elems (fget r ''targets''))) = mset (map JStr (targets_of settings)) \<and>
    (\<forall>r \<in> set (oc_requests call). \<forall>a. JStr a \<in> set (elems (fget r ''targets'')) \<longrightarrow> (\<forall>k. k \<noteq> ''targets'' \<longrightarrow>
      fget r k = fget (op_request text_of op st \<lparr>g_targets = [a], g_settings = getEffectiveSettings settings a\<rparr>) k))"
proof -
  note c = op_begin_call[OF assms(2)]
  let ?gs = "groupTargetsByConfig stringify settings"
  have gs: "?gs = groupTargets stringify settings (targets_of settings)"
    by (simp add: groupTargetsByConfig_def targets_of_def)
  note part = groupTargets_partition[of stringify settings "targets_of settings", folded gs]
  have st: "op_request text_of op st' g = op_request text_of op st g" for g
    by (rule op_request_state) (simp_all add: c(4))
  have "(\<Sum>r \<leftarrow> oc_requests call. mset (elems (fget r ''targets''))) = (\<Sum>g \<leftarrow> ?gs. image_mset JStr (mset (g_targets g)))"
    by (simp add: c(5) o_def op_request_targets)
  also have "\<dots> = image_mset JStr (\<Sum>g \<leftarrow> ?gs. mset (g_targets g))" by (simp add: image_sum_list)
  also have "\<dots> = mset (map JStr (targets_of settings))" using part by simp
  finally have a: "(\<Sum>r \<leftarrow> oc_requests call. mset (elems (fget r ''targets''))) = mset (map JStr (targets_of settings))" .
  have "fget r k = fget (op_request text_of op st \<lparr>g_targets = [a], g_settings = getEffectiveSettings settings a\<rparr>) k"
    if "r \<in> set (oc_requests call)" "JStr a \<in> set (elems (fget r ''targets''))" "k \<noteq> ''targets''" for r a k
  proof -
    from that(1) obtain g where g: "g \<in> set ?gs" "r = op_request text_of op st g" by (auto simp: c(5) st)
    with that(2) have "a \<in> set (g_targets g)" by (auto simp: op_request_targets)
    with part g(1) have "stringify (group_key (getEffectiveSettings settings a)) = stringify (group_key (g_settings g))" by blast
    with assms(1) have "group_key (getEffectiveSettings settings a) = group_key (g_settings g)" by (simp add: inj_def)
    with that(3) show ?thesis unfolding g(2) by (intro same_key_same_request) simp_all
  qed
  with a show ?thesis by blast
qed

definition two_devices :: jsval where
  "two_devices = JObj [(''targets'', JStr (''10.0.0.1'' @ [NEWLINE] @ ''10.0.0.2'')), (''community'', JStr ''public''), (''autoFillSetEnabled'', JBool True)]"

lemma two_devices_targets: "targets_of two_devices = [''10.0.0.1'', ''10.0.0.2'']"
proof -
  have "getTargetsAsArray (''10.0.0.1'' @ [NEWLINE] @ ''10.0.0.2'') = [''10.0.0.1'', ''10.0.0.2'']" by code_simp
  then show ?thesis by (simp add: targets_of_def two_devices_def fget_lookup)
qed

theorem each_target_asked_as_itself_witness:
  "\<exists>call. snd (snd (op_begin (\<lambda>v. v) (\<lambda>v. []) ''GET'' two_devices 0 ops_start)) = Some call \<and>
     (\<Sum>r \<leftarrow> oc_requests call. mset (elems (fget r ''targets''))) = {#JStr ''10.0.0.1'', JStr ''10.0.0.2''#}"
proof -
  obtain st' call where c: "op_begin (\<lambda>v. v) (\<lambda>v. []) ''GET'' two_devices 0 ops_start = (st', [], Some call)"
    by (simp add: op_begin_def two_devices_targets Let_def)
  from each_target_asked_as_itself[OF _ c] show ?thesis by (simp add: c two_devices_targets)
qed

section \<open>A row is destroyed on one device\<close>

text \<open>
  A confirmed destruction is one request, to the device the row was picked on and with that device's
  own identity, with the row status of the loaded table at the row's index as its only varbind.
\<close>

theorem destroy_reaches_one_device:
  assumes "rs_destroyRow rs = Some d" "rs_info rs = Some info" "ti_rowStatusOid info \<noteq> []" "dm_target d \<noteq> []"
  shows "\<exists>w req. snd (confirmDestroy rs) = Some w \<and> rs_destroyRow (fst (confirmDestroy rs)) = None \<and>
    handleTableRowWrite w settings st = (st\<lparr>os_loading := True\<rparr>, [], Some req) \<and>
    fget req ''targets'' = JArr [JStr (dm_target d)] \<and>
    fget req ''vars'' = JArr [JObj [(''oid'', JStr (ti_rowStatusOid info @ ''.'' @ dm_index d)), (''value'', JStr ''6''),
      (''type'', JStr ''RowStatus'')]] \<and>
    (let e = fget (getEffectiveSettings settings (dm_target d)) in
     fget req ''community'' = e ''community'' \<and> fget req ''version'' = e ''snmpVersion'' \<and> fget req ''port'' = e ''port'' \<and>
     fget req ''v3'' = JObj (buildV3Params (JObj (getEffectiveSettings settings (dm_target d)))))"
  using assms
  by (simp add: confirmDestroy_def handleTableRowWrite_def buildDestroyVarbinds_def buildSetMultiRequest_def table_info.truncate_def
      buildSnmpRequest_def fget_spread_None fget_spread fget_lookup varbind_json_def)

theorem destroy_reaches_one_device_witness:
  "\<exists>w req. snd (confirmDestroy (results_start\<lparr>rs_info := Some some_info, rs_destroyRow := Some \<lparr>dm_index = ''7'', dm_target = ''10.0.0.2''\<rparr>\<rparr>)) = Some w \<and>
     handleTableRowWrite w two_devices ops_start = (ops_start\<lparr>os_loading := True\<rparr>, [], Some req) \<and>
     fget req ''targets'' = JArr [JStr ''10.0.0.2'']"
  using destroy_reaches_one_device[of "results_start\<lparr>rs_info := Some some_info, rs_destroyRow := Some \<lparr>dm_index = ''7'', dm_target = ''10.0.0.2''\<rparr>\<rparr>"
      "\<lparr>dm_index = ''7'', dm_target = ''10.0.0.2''\<rparr>" some_info two_devices ops_start]
  by (auto simp: some_info_def)

section \<open>The answer that comes late\<close>

text \<open>
  C28. An answer is put in the SET form of the node selected when it arrives: after another, writable
  node was selected during a GET, the form holds that node's OID with the value of the OID that was
  asked, and the history says the value is that node's.
\<close>

theorem late_answer_fills_other_object:
  assumes "op_begin stringify text_of ''GET'' settings now st = (st1, said, Some call)"
    "\<not> os_edited st ''SET''" "\<not> os_edited st ''GET''" "os_previous st \<noteq> Some j" "isNodeWritable (Some b)"
    "truthy (jget settings ''autoFillSetEnabled'')" "first_value (concat answers) = Some raw"
  shows "let st2 = select_node text_of settings (st1\<lparr>os_node := Some (j, b)\<rparr>);
      (st4, toast, entry) = op_finish text_of reply_string call settings now' (op_resolved names (fst (op_answered call answers st2)))
    in list_all (\<lambda>r. fget r ''oid'' = JStr (os_oid st ''GET'')) (oc_requests call) \<and>
       os_oid st4 ''SET'' = instance_oid b \<and> os_value st4 = JStr (auto_value reply_string b raw) \<and>
       he_oid entry = instance_oid b \<and> he_results entry = Some (concat answers)"
proof -
  note c = op_begin_call[OF assms(1)]
  let ?st2 = "select_node text_of settings (st1\<lparr>os_node := Some (j, b)\<rparr>)"
  let ?st3 = "op_resolved names (fst (op_answered call answers ?st2))"
  have s2: "os_oid ?st2 ''SET'' = instance_oid b" "os_oid ?st2 ''GET'' = instance_oid b" "os_node ?st2 = Some (j, b)"
    using assms(2-4) by (simp_all add: select_node_def c(4) filled_oid_def)
  have s3: "os_oid ?st3 = os_oid ?st2" "os_node ?st3 = Some (j, b)" "os_results ?st3 = concat answers"
    using s2 by (simp_all add: op_resolved_def op_answered_def split: option.splits)
  have n: "picked_node ?st3 = Some b" using s3 by (simp add: picked_node_def)
  have "autofill reply_string settings ?st3 =
     (?st3\<lparr>os_value := JStr (auto_value reply_string b raw), os_lastAutoFilled := auto_value reply_string b raw\<rparr>, say_done ''operations.getAutoFilled'')"
    using assms(5-7) n s3(3) by (simp add: autofill_def isCurrentNodeWritable_def Let_def)
  moreover have "list_all (\<lambda>r. fget r ''oid'' = JStr (os_oid st ''GET'')) (oc_requests call)"
    by (simp add: c(4,5) list_all_iff op_request_oid)
  ultimately show ?thesis using s2 s3 c(1) by (simp add: op_finish_def history_entry_def Let_def)
qed

definition writable_node :: mib_node where
  "writable_node = MibNode [(''oid'', JStr ''1.5''), (''mibType'', JStr ''Scalar''), (''access'', JStr ''read-write'')] []"

definition late_answer :: "result_row list list" where
  "late_answer = [[\<lparr>rr_target = [], rr_error = [], rr_result = Some \<lparr>rp_oid = ''1.1.0'', rp_type = [], rp_value = One (JStr ''secret'')\<rparr>\<rparr>]]"

definition plain_reply :: "reply \<Rightarrow> string" where
  "plain_reply r = (case r of One v \<Rightarrow> str v | Many xs \<Rightarrow> [])"

theorem late_answer_fills_other_object_witness:
  "case op_begin (\<lambda>v. v) (\<lambda>v. []) ''GET'' two_devices 0 ops_start of (st1, said, Some call) \<Rightarrow>
     (let st2 = select_node (\<lambda>v. []) two_devices (st1\<lparr>os_node := Some (3, writable_node)\<rparr>);
          (st4, toast, entry) = op_finish (\<lambda>v. []) plain_reply call two_devices 0 (op_resolved None (fst (op_answered call late_answer st2)))
      in os_oid st4 ''SET'' = ''1.5.0'' \<and> os_value st4 = JStr ''secret'')
   | (st1, said, None) \<Rightarrow> False"
proof -
  obtain st1 call where c: "op_begin (\<lambda>v. v) (\<lambda>v. []) ''GET'' two_devices 0 ops_start = (st1, [], Some call)"
    by (simp add: op_begin_def two_devices_targets Let_def)
  have w: "isNodeWritable (Some writable_node)"
    by (simp add: isNodeWritable_def writable_node_def nd_text_def fget_lookup Let_def) code_simp
  have i: "instance_oid writable_node = ''1.5.0''" "truthy (enum_of writable_node) = False"
    by (simp_all add: instance_oid_def writable_node_def nd_type_def nd_oid_def enum_of_def fget_lookup)
  have a: "first_value (concat late_answer) = Some (One (JStr ''secret''))" "truthy (jget two_devices ''autoFillSetEnabled'')"
    by (simp_all add: late_answer_def first_value_def two_devices_def fget_lookup)
  have s: "\<not> os_edited ops_start ''SET''" "\<not> os_edited ops_start ''GET''" "os_previous ops_start \<noteq> Some 3"
    by (simp_all add: ops_start_def)
  show ?thesis
    using late_answer_fills_other_object[OF c s w a(2,1), of plain_reply 0 None]
    by (auto simp: c i auto_value_def plain_reply_def Let_def split: prod.splits)
qed

text \<open>
  Two operations can be under way: the GET a selection starts waits a tenth of a second and does not look
  again. The first that ends says that nothing is loading, and its history entry holds what is on screen.
\<close>

definition fire_timer ::
  "(jsval \<Rightarrow> 'k) \<Rightarrow> (jsval \<Rightarrow> string) \<Rightarrow> jsval \<Rightarrow> int \<Rightarrow> ops_state \<Rightarrow> ops_state \<times> said list \<times> op_call option" where
  "fire_timer stringify text_of settings now st = op_begin stringify text_of ''GET'' settings now (st\<lparr>os_timers := os_timers st - 1\<rparr>)"

lemma timer_starts_a_second_operation:
  assumes "targets_of settings \<noteq> []"
  shows "snd (snd (fire_timer stringify text_of settings now (st\<lparr>os_loading := True\<rparr>))) \<noteq> None"
    "os_results (fst (fire_timer stringify text_of settings now (st\<lparr>os_loading := True\<rparr>))) = []"
  using assms by (simp_all add: fire_timer_def op_begin_def Let_def)

text \<open>An emptied number field is \<open>null\<close>, and is sent as the text of it.\<close>

lemma empty_number_is_sent:
  assumes "os_value st = JNull"
  shows "fget (op_request text_of ''SET'' st g) ''value'' = JStr (text_of JNull)"
  using assms by (simp add: op_request_def Let_def buildSetRequest_def fget_spread)

end
