(* ===== verification/Target_Manager.thy ===== *)
theory Target_Manager
  imports Targets Dashboard Js_Date
begin

text \<open>
  The target manager: the script of \<open>frontend/src/TargetManager.svelte\<close>. A handler takes the panel,
  whose \<open>mg_settings\<close> is the value of the settings store, and gives it back; what it says is a list of
  message keys. \<open>panel_refresh\<close> is the reactive statements, run after every handler: the list of a group is
  worked out again only when the targets or the group shown were assigned, which is what the statement
  names. The lemmas show that what the list is written to reads back as the list, and what renaming a
  target does to how it is asked.
\<close>

section \<open>The rows\<close>

record target_row =
  tg_id :: nat
  tg_address :: string
  tg_label :: string
  tg_enabled :: bool
  tg_testing :: bool
  tg_status :: string

definition HASH :: char where "HASH = CHR ''#''"

definition address_label :: "string \<Rightarrow> string \<times> string" where
  "address_label line = (case split_on HASH line of
     a # l # r \<Rightarrow> (trim a, trim l) | [a] \<Rightarrow> (trim a, []) | [] \<Rightarrow> ([], []))"

definition parse_row :: "nat \<times> string \<Rightarrow> target_row option" where
  "parse_row p = (let line = trim (snd p); off = starts_with line ''//'';
       (a, l) = address_label (if off then trim (drop 2 line) else line)
     in if line = [] then None
        else Some \<lparr>tg_id = fst p, tg_address = a, tg_label = l, tg_enabled = \<not> off, tg_testing = False, tg_status = []\<rparr>)"

definition parseTargets :: "string \<Rightarrow> target_row list" where
  "parseTargets text = (if text = [] then [] else List.map_filter parse_row (enumerate 0 (split_on NEWLINE text)))"

definition serialize_row :: "target_row \<Rightarrow> string" where
  "serialize_row t = (if tg_enabled t then tg_address t else ''//'' @ tg_address t) @
     (if tg_label t \<noteq> [] then '' # '' @ tg_label t else [])"

definition serializeTargets :: "target_row list \<Rightarrow> string" where
  "serializeTargets ts = join_with NEWLINE (map serialize_row ts)"

definition row_key :: "target_row \<Rightarrow> string \<times> string \<times> bool" where
  "row_key t = (tg_address t, tg_label t, tg_enabled t)"

section \<open>The panel\<close>

record manager =
  mg_targets :: "target_row list"
  mg_filtered :: "target_row list"
  mg_assigned :: bool
  mg_settings :: jsval
  mg_newAddress :: string
  mg_newLabel :: string
  mg_newProfile :: string
  mg_newPreset :: string
  mg_showAdd :: bool
  mg_group :: string
  mg_newGroup :: string
  mg_showGroupMenu :: bool
  mg_editing :: "nat option"
  mg_editValue :: string
  mg_override :: "nat option"
  mg_preset :: "nat option"
  mg_rowPreset :: "(nat \<times> string) list"
  mg_rowBinding :: "nat option"
  mg_binding :: bool
  mg_identifying :: bool
  mg_identity :: jsval
  mg_presets :: "jsval list"
  mg_showImport :: bool
  mg_importText :: string

definition assigns_of :: "manager \<Rightarrow> fields" where
  "assigns_of m = fields_of (jget (mg_settings m) ''targetGroupAssignments'')"

definition overrides_of :: "manager \<Rightarrow> fields" where
  "overrides_of m = fields_of (jget (mg_settings m) ''targetOverrides'')"

definition groups_of :: "manager \<Rightarrow> jsval list" where
  "groups_of m = (let g = jget (mg_settings m) ''targetGroups'' in
     if truthy g then elems g else [JObj [(''id'', JStr ''default''), (''name'', JStr ''Default'')]])"

definition getGroupForTarget :: "manager \<Rightarrow> string \<Rightarrow> string" where
  "getGroupForTarget m address = (let g = fget (assigns_of m) address in if truthy g then str g else ''default'')"

definition getGroupTargetCount :: "manager \<Rightarrow> string \<Rightarrow> target_row list \<Rightarrow> nat" where
  "getGroupTargetCount m groupId list =
     (if groupId = ''all'' then length list else length (filter (\<lambda>t. getGroupForTarget m (tg_address t) = groupId) list))"

definition set_targets :: "target_row list \<Rightarrow> manager \<Rightarrow> manager" where
  "set_targets ts m = m\<lparr>mg_targets := ts, mg_assigned := True\<rparr>"

definition select_group :: "string \<Rightarrow> manager \<Rightarrow> manager" where
  "select_group g m = m\<lparr>mg_group := g, mg_assigned := True\<rparr>"

definition resync :: "manager \<Rightarrow> manager" where
  "resync m = (let parsed = parseTargets (str (jget (mg_settings m) ''targets''))
     in if map row_key parsed = map row_key (mg_targets m) then m else set_targets parsed m)"

definition filter_group :: "manager \<Rightarrow> manager" where
  "filter_group m = (if \<not> mg_assigned m then m
     else m\<lparr>mg_assigned := False, mg_filtered :=
       (if mg_group m = ''all'' then mg_targets m
        else filter (\<lambda>t. getGroupForTarget m (tg_address t) = mg_group m) (mg_targets m))\<rparr>)"

definition panel_refresh :: "manager \<Rightarrow> manager" where
  "panel_refresh m = filter_group (resync m)"

definition enabledTargets :: "manager \<Rightarrow> target_row list" where
  "enabledTargets m = filter tg_enabled (mg_targets m)"

definition save_with :: "fields \<Rightarrow> manager \<Rightarrow> manager" where
  "save_with changes m = m\<lparr>mg_settings := JObj (spread (fields_of (mg_settings m)) changes)\<rparr>"

definition targets_field :: "manager \<Rightarrow> fields" where
  "targets_field m = [(''targets'', JStr (serializeTargets (mg_targets m)))]"

definition saveTargets :: "manager \<Rightarrow> manager" where
  "saveTargets m = save_with (targets_field m) m"

section \<open>Adding and removing\<close>

definition group_to_fill :: "manager \<Rightarrow> string" where
  "group_to_fill m = (if mg_group m = ''all'' then ''default'' else mg_group m)"

definition fresh_row :: "nat \<Rightarrow> string \<Rightarrow> string \<Rightarrow> target_row" where
  "fresh_row i address label = \<lparr>tg_id = i, tg_address = address, tg_label = label, tg_enabled = True, tg_testing = False, tg_status = []\<rparr>"

text \<open>The second component is the preset to bind and its address, if any.\<close>

definition addTarget :: "nat \<Rightarrow> manager \<Rightarrow> manager \<times> (string \<times> string) option" where
  "addTarget now m = (let address = trim (mg_newAddress m) in
     if address = [] then (m, None)
     else let file = mg_newPreset m;
       m1 = set_targets (mg_targets m @ [fresh_row now address (trim (mg_newLabel m))]) m;
       assigns = fset address (JStr (group_to_fill m)) (assigns_of m);
       overrides = (if mg_newProfile m \<noteq> [] then JObj (assignProfile (overrides_of m) address (JStr (mg_newProfile m)))
                    else jget (mg_settings m) ''targetOverrides'');
       m2 = m1\<lparr>mg_newAddress := [], mg_newLabel := [], mg_newPreset := [], mg_showAdd := False\<rparr>
     in ((save_with (targets_field m2 @ [(''targetGroupAssignments'', JObj assigns), (''targetOverrides'', overrides)]) m2)
           \<lparr>mg_binding := mg_binding m \<or> file \<noteq> []\<rparr>, if file = [] then None else Some (file, address)))"

definition bind_answered :: "manager \<Rightarrow> manager" where
  "bind_answered m = m\<lparr>mg_binding := False\<rparr>"

definition forget_addresses :: "string list \<Rightarrow> manager \<Rightarrow> fields" where
  "forget_addresses addrs m =
     [(''targetOverrides'', JObj (foldl (\<lambda>fs a. fdel a fs) (overrides_of m) addrs)),
      (''targetGroupAssignments'', JObj (foldl (\<lambda>fs a. fdel a fs) (assigns_of m) addrs))]"

definition removeTarget :: "nat \<Rightarrow> manager \<Rightarrow> manager" where
  "removeTarget i m = (let target = List.find (\<lambda>t. tg_id t = i) (mg_targets m);
       m1 = set_targets (filter (\<lambda>t. tg_id t \<noteq> i) (mg_targets m)) m
     in save_with (targets_field m1 @ forget_addresses (case target of Some t \<Rightarrow> [tg_address t] | None \<Rightarrow> []) m) m1)"

definition map_row :: "nat \<Rightarrow> (target_row \<Rightarrow> target_row) \<Rightarrow> manager \<Rightarrow> manager" where
  "map_row i f m = set_targets (map (\<lambda>t. if tg_id t = i then f t else t) (mg_targets m)) m"

definition toggleTarget :: "nat \<Rightarrow> manager \<Rightarrow> manager" where
  "toggleTarget i m = saveTargets (map_row i (\<lambda>t. t\<lparr>tg_enabled := \<not> tg_enabled t\<rparr>) m)"

definition updateLabel :: "nat \<Rightarrow> string \<Rightarrow> manager \<Rightarrow> manager" where
  "updateLabel i label m = saveTargets (map_row i (\<lambda>t. t\<lparr>tg_label := label\<rparr>) m)"

definition startEditAddress :: "target_row \<Rightarrow> manager \<Rightarrow> manager" where
  "startEditAddress t m = m\<lparr>mg_editing := Some (tg_id t), mg_editValue := tg_address t\<rparr>"

definition cancelEditAddress :: "manager \<Rightarrow> manager" where
  "cancelEditAddress m = m\<lparr>mg_editing := None, mg_editValue := []\<rparr>"

text \<open>What was kept under the old address is moved to the new one.\<close>

definition move_field :: "string \<Rightarrow> string \<Rightarrow> fields \<Rightarrow> fields" where
  "move_field old new fs = (if fget fs old \<noteq> JUndef then fdel old (fset new (fget fs old) fs) else fs)"

definition saveEditAddress :: "target_row \<Rightarrow> manager \<Rightarrow> manager \<times> string list" where
  "saveEditAddress target m = (let new = trim (mg_editValue m); old = tg_address target in
     if new = [] \<or> new = old then (cancelEditAddress m, [])
     else if list_ex (\<lambda>t. tg_id t \<noteq> tg_id target \<and> tg_address t = new) (mg_targets m) then (m, [''targets.duplicateAddress''])
     else let m1 = map_row (tg_id target) (\<lambda>t. t\<lparr>tg_address := new, tg_status := []\<rparr>) m
       in (cancelEditAddress (save_with (targets_field m1 @
             [(''targetOverrides'', JObj (move_field old new (overrides_of m))),
              (''targetGroupAssignments'', JObj (move_field old new (assigns_of m)))]) m1), []))"

text \<open>The answer to the question is an argument.\<close>

definition deleteAllInGroup :: "bool \<Rightarrow> manager \<Rightarrow> manager" where
  "deleteAllInGroup confirmed m = (let doomed = mg_filtered m in
     if doomed = [] \<or> \<not> confirmed then m
     else let m1 = set_targets (filter (\<lambda>t. tg_id t \<notin> set (map tg_id doomed)) (mg_targets m)) m
       in save_with (targets_field m1 @ forget_addresses (dedup (map tg_address doomed)) m) m1)"

section \<open>Importing\<close>

record import_run =
  im_rows :: "target_row list"
  im_known :: "string list"
  im_assigns :: fields
  im_added :: nat
  im_skipped :: nat

definition import_line :: "nat \<Rightarrow> string \<Rightarrow> import_run \<Rightarrow> nat \<times> string \<Rightarrow> import_run" where
  "import_line now groupId r p = (let (address, label) = address_label (snd p) in
     if address = [] then r
     else if address \<in> set (im_known r) then r\<lparr>im_skipped := im_skipped r + 1\<rparr>
     else r\<lparr>im_rows := im_rows r @ [fresh_row (now + fst p) address label], im_known := address # im_known r,
            im_assigns := fset address (JStr groupId) (im_assigns r), im_added := im_added r + 1\<rparr>)"

definition typed_lines :: "string \<Rightarrow> string list" where
  "typed_lines text = filter (\<lambda>l. l \<noteq> []) (map trim (split_on NEWLINE text))"

definition run_import :: "nat \<Rightarrow> manager \<Rightarrow> import_run" where
  "run_import now m = foldl (import_line now (group_to_fill m))
     \<lparr>im_rows = mg_targets m, im_known = map tg_address (mg_targets m), im_assigns = assigns_of m, im_added = 0, im_skipped = 0\<rparr>
     (enumerate 0 (typed_lines (mg_importText m)))"

definition openImport :: "manager \<Rightarrow> manager" where
  "openImport m = m\<lparr>mg_importText := [], mg_showImport := True\<rparr>"

definition importTargets :: "nat \<Rightarrow> manager \<Rightarrow> manager \<times> (nat \<times> nat) option" where
  "importTargets now m =
     (if typed_lines (mg_importText m) = [] then (m\<lparr>mg_showImport := False\<rparr>, None)
      else let r = run_import now m; m1 = set_targets (im_rows r) m
        in ((save_with (targets_field m1 @ [(''targetGroupAssignments'', JObj (im_assigns r))]) m1)
              \<lparr>mg_importText := [], mg_showImport := False\<rparr>, Some (im_added r, im_skipped r)))"

section \<open>Testing\<close>

text \<open>The request of a test, and its answer: the error, empty when there is none.\<close>

definition test_begin :: "nat \<Rightarrow> manager \<Rightarrow> manager \<times> (string \<times> fields) option" where
  "test_begin i m = (case List.find (\<lambda>t. tg_id t = i) (mg_targets m) of
     None \<Rightarrow> (m, None)
   | Some t \<Rightarrow> (map_row i (\<lambda>t. t\<lparr>tg_testing := True, tg_status := []\<rparr>) m,
       Some (tg_address t, buildTestRequest (JObj (getEffectiveSettings (mg_settings m) (tg_address t))) (tg_address t))))"

definition test_answered :: "nat \<Rightarrow> string \<Rightarrow> manager \<Rightarrow> manager \<times> string list" where
  "test_answered i error m =
     (map_row i (\<lambda>t. t\<lparr>tg_testing := False, tg_status := (if error = [] then ''success'' else ''error'')\<rparr>) m,
      [if error = [] then ''targets.connectionOk'' else ''targets.connectionFailed''])"

text \<open>All the enabled targets, as they were when the button was pressed, one after the other.\<close>

fun test_each :: "(manager \<Rightarrow> nat \<Rightarrow> string) \<Rightarrow> nat list \<Rightarrow> manager \<Rightarrow> manager \<times> string list" where
  "test_each answer [] m = (m, [])"
| "test_each answer (i # is) m =
     (case test_begin i m of
        (m1, None) \<Rightarrow> test_each answer is m1
      | (m1, Some req) \<Rightarrow> (let (m2, said) = test_answered i (answer m1 i) m1; (m3, more) = test_each answer is m2
          in (m3, said @ more)))"

definition testAllTargets :: "(manager \<Rightarrow> nat \<Rightarrow> string) \<Rightarrow> manager \<Rightarrow> manager \<times> string list" where
  "testAllTargets answer m = test_each answer (map tg_id (enabledTargets m)) m"

section \<open>Overrides\<close>

definition hasOverrides :: "jsval \<Rightarrow> string \<Rightarrow> bool" where
  "hasOverrides settings address = list_ex (\<lambda>(k, v). k \<noteq> ''profile'') (fields_of (jget (jget settings ''targetOverrides'') address))"

definition profileOf :: "jsval \<Rightarrow> string \<Rightarrow> jsval option" where
  "profileOf settings address = findProfile settings (jget (jget (jget settings ''targetOverrides'') address) ''profile'')"

definition flip_open :: "nat \<Rightarrow> nat option \<Rightarrow> nat option" where
  "flip_open i cur = (if cur = Some i then None else Some i)"

definition toggleOverrides :: "nat \<Rightarrow> manager \<Rightarrow> manager" where
  "toggleOverrides i m = m\<lparr>mg_override := flip_open i (mg_override m)\<rparr>"

definition togglePresetRow :: "nat \<Rightarrow> manager \<Rightarrow> manager" where
  "togglePresetRow i m = m\<lparr>mg_preset := flip_open i (mg_preset m)\<rparr>"

definition cleaned :: "fields \<Rightarrow> fields" where
  "cleaned fs = filter (\<lambda>(k, v). \<not> nullish v \<and> v \<noteq> JStr []) fs"

definition saveOverride :: "string \<Rightarrow> fields \<Rightarrow> manager \<Rightarrow> manager" where
  "saveOverride address data m = (let ovs = overrides_of m in
     (save_with [(''targetOverrides'', JObj (if cleaned data \<noteq> [] then fset address (JObj (cleaned data)) ovs else fdel address ovs))] m)
       \<lparr>mg_override := None\<rparr>)"

definition clearOverride :: "string \<Rightarrow> manager \<Rightarrow> manager" where
  "clearOverride address m = (save_with [(''targetOverrides'', JObj (fdel address (overrides_of m)))] m)\<lparr>mg_override := None\<rparr>"

definition saveOverrideAsProfile :: "string \<Rightarrow> fields \<Rightarrow> fields \<Rightarrow> manager \<Rightarrow> manager" where
  "saveOverrideAsProfile address profile own m =
     (save_with [(''credentialProfiles'', JArr (profiles_of (mg_settings m) @ [JObj profile])),
        (''targetOverrides'', JObj (fset address (JObj own) (overrides_of m)))] m)\<lparr>mg_override := None\<rparr>"

section \<open>Groups\<close>

definition addGroup :: "nat \<Rightarrow> manager \<Rightarrow> manager" where
  "addGroup now m = (let name = trim (mg_newGroup m); gid = ''grp-'' @ show_nat now in
     if name = [] then m
     else select_group gid ((save_with [(''targetGroups'', JArr (groups_of m @ [JObj [(''id'', JStr gid), (''name'', JStr name)]]))] m)
            \<lparr>mg_newGroup := [], mg_showGroupMenu := False\<rparr>))"

definition renameGroup :: "string \<Rightarrow> string \<Rightarrow> manager \<Rightarrow> manager" where
  "renameGroup gid newName m = (let name = trim newName in
     if name = [] \<or> gid = ''default'' then m
     else save_with [(''targetGroups'', JArr (map (\<lambda>g. if jget g ''id'' = JStr gid then jset ''name'' (JStr name) g else g) (groups_of m)))] m)"

definition deleteGroup :: "bool \<Rightarrow> string \<Rightarrow> manager \<Rightarrow> manager" where
  "deleteGroup confirmed gid m =
     (if gid = ''default'' \<or> \<not> confirmed then m
      else let m1 = save_with [(''targetGroups'', JArr (filter (\<lambda>g. jget g ''id'' \<noteq> JStr gid) (groups_of m))),
               (''targetGroupAssignments'', JObj (map (\<lambda>(a, g). (a, if g = JStr gid then JStr ''default'' else g)) (assigns_of m)))] m
        in if mg_group m = gid then select_group ''all'' m1 else m1)"

definition moveTargetToGroup :: "string \<Rightarrow> string \<Rightarrow> manager \<Rightarrow> manager" where
  "moveTargetToGroup address gid m = save_with [(''targetGroupAssignments'', JObj (fset address (JStr gid) (assigns_of m)))] m"

section \<open>Presets\<close>

definition bindablePresets :: "manager \<Rightarrow> jsval list" where
  "bindablePresets m = filter (\<lambda>p. jget p ''problems'' = JNum 0) (mg_presets m)"

definition address_typed :: "string \<Rightarrow> manager \<Rightarrow> manager" where
  "address_typed text m = m\<lparr>mg_newAddress := text, mg_identity := JNull\<rparr>"

definition identify_begin :: "manager \<Rightarrow> manager \<times> fields option" where
  "identify_begin m = (let address = trim (mg_newAddress m) in
     if address = [] then (m, None)
     else let settings = (if mg_newProfile m \<noteq> [] then withProfile (mg_settings m) (JStr (mg_newProfile m))
              else getEffectiveSettings (mg_settings m) address)
       in (m\<lparr>mg_identifying := True, mg_identity := JNull\<rparr>, Some (buildTestRequest (JObj settings) address)))"

definition identify_answered :: "jsval \<Rightarrow> manager \<Rightarrow> manager" where
  "identify_answered result m = (let found = elems (jget result ''presets'') in
     m\<lparr>mg_identity := result, mg_identifying := False,
       mg_presets := (if found \<noteq> [] then found else mg_presets m),
       mg_newPreset := (if num_less (Some 0) (number_of (jget result ''matched'')) \<and> mg_newPreset m = []
         then (case List.find (\<lambda>p. jget p ''problems'' = JNum 0) found of Some p \<Rightarrow> str (jget p ''file'') | None \<Rightarrow> [])
         else mg_newPreset m)\<rparr>)"

definition identify_failed :: "string \<Rightarrow> manager \<Rightarrow> manager" where
  "identify_failed message m = m\<lparr>mg_identity := JObj [(''error'', JStr message)], mg_identifying := False\<rparr>"

definition pick_preset :: "nat \<Rightarrow> string \<Rightarrow> manager \<Rightarrow> manager" where
  "pick_preset i file m = m\<lparr>mg_rowPreset := AList.update i file (mg_rowPreset m)\<rparr>"

definition bindToExisting :: "target_row \<Rightarrow> manager \<Rightarrow> manager \<times> (string \<times> string) option" where
  "bindToExisting t m = (let file = (case map_of (mg_rowPreset m) (tg_id t) of Some f \<Rightarrow> f | None \<Rightarrow> []) in
     if file = [] then (m, None) else (m\<lparr>mg_rowBinding := Some (tg_id t)\<rparr>, Some (file, tg_address t)))"

definition bound_to_existing :: "bool \<Rightarrow> target_row \<Rightarrow> manager \<Rightarrow> manager" where
  "bound_to_existing ok t m = (if ok
     then m\<lparr>mg_preset := None, mg_rowPreset := AList.update (tg_id t) [] (mg_rowPreset m), mg_rowBinding := None\<rparr>
     else m\<lparr>mg_rowBinding := None\<rparr>)"

section \<open>What is written reads back\<close>

definition typed_address :: "string \<Rightarrow> bool" where
  "typed_address a \<longleftrightarrow> a \<noteq> [] \<and> trimmed a \<and> HASH \<notin> set a \<and> NEWLINE \<notin> set a \<and> \<not> starts_with a ''//''"

definition plain_label :: "string \<Rightarrow> bool" where
  "plain_label l \<longleftrightarrow> trimmed l \<and> HASH \<notin> set l \<and> NEWLINE \<notin> set l"

definition plain_row :: "target_row \<Rightarrow> bool" where
  "plain_row t \<longleftrightarrow> typed_address (tg_address t) \<and> plain_label (tg_label t)"

lemma trim_spaces: "trimmed s \<Longrightarrow> s \<noteq> [] \<Longrightarrow> trim (s @ '' '') = s" "trimmed s \<Longrightarrow> trim (CHR '' '' # s) = s"
proof -
  have sp: "is_space CHR '' ''" by code_simp
  show "trimmed s \<Longrightarrow> s \<noteq> [] \<Longrightarrow> trim (s @ '' '') = s"
    using trim_trimmed[of s] sp by (cases s) (auto simp: trim_def trimmed_def dropWhile_append)
  show "trimmed s \<Longrightarrow> trim (CHR '' '' # s) = s"
    using trim_trimmed[of s] sp by (simp add: trim_def)
qed

lemma label_reads_back:
  assumes "typed_address a" "plain_label l"
  shows "address_label (a @ (if l \<noteq> [] then '' # '' @ l else [])) = (a, l)"
proof (cases "l = []")
  case True
  then show ?thesis using assms by (simp add: address_label_def typed_address_def split_on_plain trim_trimmed)
next
  case False
  have "split_on HASH ((a @ '' '') @ HASH # (CHR '' '' # l)) = [a @ '' '', CHR '' '' # l]"
    using assms by (subst split_on_append) (auto simp: split_on_plain typed_address_def plain_label_def HASH_def)
  then have "split_on HASH (a @ '' # '' @ l) = [a @ '' '', CHR '' '' # l]" by (simp add: HASH_def)
  then show ?thesis using False assms by (simp add: address_label_def trim_spaces typed_address_def plain_label_def)
qed

lemma trimmed_line:
  assumes "typed_address a" "plain_label l"
  shows "trimmed (a @ (if l \<noteq> [] then '' # '' @ l else []))"
  using assms by (auto simp: trimmed_def typed_address_def plain_label_def)

lemma row_reads_back:
  assumes "plain_row t"
  shows "\<exists>u. parse_row (i, serialize_row t) = Some u \<and> row_key u = row_key t"
proof -
  let ?b = "tg_address t @ (if tg_label t \<noteq> [] then '' # '' @ tg_label t else [])"
  have p: "typed_address (tg_address t)" "plain_label (tg_label t)" using assms by (simp_all add: plain_row_def)
  have b: "trimmed ?b" "?b \<noteq> []" using trimmed_line[OF p] p(1) by (simp_all add: typed_address_def)
  have nb: "\<not> starts_with ?b ''//''"
  proof
    assume s: "starts_with ?b ''//''"
    obtain c cs where a: "tg_address t = c # cs" using p(1) by (cases "tg_address t") (simp_all add: typed_address_def)
    show False
    proof (cases cs)
      case Nil
      with s a p(1) show False by (cases "tg_label t") (auto simp: starts_with_def typed_address_def)
    next
      case (Cons d ds)
      with s a p(1) show False by (auto simp: starts_with_def typed_address_def split: if_splits)
    qed
  qed
  show ?thesis
  proof (cases "tg_enabled t")
    case True
    then have "serialize_row t = ?b" by (simp add: serialize_row_def)
    then show ?thesis using b nb label_reads_back[OF p] True
      by (simp add: parse_row_def trim_trimmed row_key_def)
  next
    case False
    then have s: "serialize_row t = ''//'' @ ?b" by (simp add: serialize_row_def)
    have "\<not> is_space CHR ''/''" by code_simp
    then have "trimmed (''//'' @ ?b)" using b by (auto simp: trimmed_def)
    then have "trim (serialize_row t) = ''//'' @ ?b" unfolding s by (rule trim_trimmed)
    then show ?thesis using b label_reads_back[OF p] False
      by (simp add: parse_row_def trim_trimmed row_key_def starts_with_def)
  qed
qed

lemma parse_rows:
  "list_all plain_row ts \<Longrightarrow> map row_key (List.map_filter parse_row (enumerate i (map serialize_row ts))) = map row_key ts"
proof (induction ts arbitrary: i)
  case (Cons t ts)
  from row_reads_back[of t i] Cons.prems obtain u where "parse_row (i, serialize_row t) = Some u" "row_key u = row_key t" by auto
  with Cons show ?case by (simp add: List.map_filter_def)
qed (simp add: List.map_filter_def)

lemma parse_serialize:
  assumes "list_all plain_row ts"
  shows "map row_key (parseTargets (serializeTargets ts)) = map row_key ts"
proof (cases "ts = []")
  case True
  then show ?thesis by (simp add: parseTargets_def serializeTargets_def)
next
  case False
  have nl: "\<forall>l \<in> set (map serialize_row ts). NEWLINE \<notin> set l"
    using assms by (auto simp: serialize_row_def plain_row_def typed_address_def plain_label_def list_all_iff NEWLINE_def)
  have "serializeTargets ts \<noteq> []"
  proof
    assume e: "serializeTargets ts = []"
    obtain t us where t: "ts = t # us" using False by (cases ts) auto
    with e have "serialize_row t = []" by (cases us) (simp_all add: serializeTargets_def)
    with assms t show False by (auto simp: serialize_row_def plain_row_def typed_address_def split: if_splits)
  qed
  then show ?thesis using parse_rows[OF assms, of 0] split_join[OF _ nl] False
    by (simp add: parseTargets_def serializeTargets_def)
qed

section \<open>The list and the settings agree\<close>

definition agrees :: "manager \<Rightarrow> bool" where
  "agrees m \<longleftrightarrow> list_all plain_row (mg_targets m) \<and>
     map row_key (parseTargets (str (jget (mg_settings m) ''targets''))) = map row_key (mg_targets m)"

lemma agrees_panel_refresh: "agrees m \<Longrightarrow> mg_targets (panel_refresh m) = mg_targets m \<and> mg_settings (panel_refresh m) = mg_settings m \<and> agrees (panel_refresh m)"
  by (simp add: agrees_def panel_refresh_def resync_def filter_group_def)

lemma jget_save_with:
  "distinct (map fst ch) \<Longrightarrow> jget (mg_settings (save_with ch m)) k = (case map_of ch k of Some v \<Rightarrow> v | None \<Rightarrow> jget (mg_settings m) k)"
  by (simp add: save_with_def fget_spread jget_fields[of "mg_settings m"] split: option.split)

lemma save_with_panel [simp]:
  "mg_targets (save_with ch m) = mg_targets m" "mg_group (save_with ch m) = mg_group m" "mg_filtered (save_with ch m) = mg_filtered m"
  "mg_assigned (save_with ch m) = mg_assigned m"
  by (simp_all add: save_with_def)

lemma agrees_written:
  assumes "list_all plain_row (mg_targets m)" "distinct (map fst ch)" "map_of ch ''targets'' = Some (JStr (serializeTargets (mg_targets m)))"
  shows "agrees (save_with ch m)"
  using assms by (simp add: agrees_def jget_save_with parse_serialize)

lemma agrees_kept:
  "agrees m \<Longrightarrow> mg_targets m' = mg_targets m \<Longrightarrow> jget (mg_settings m') ''targets'' = jget (mg_settings m) ''targets'' \<Longrightarrow> agrees m'"
  by (simp add: agrees_def)

lemma plain_rows_mapped:
  "list_all plain_row ts \<Longrightarrow> (\<And>t. t \<in> set ts \<Longrightarrow> plain_row t \<Longrightarrow> plain_row (f t)) \<Longrightarrow> list_all plain_row (map (\<lambda>t. if tg_id t = i then f t else t) ts)"
  by (auto simp: list_all_iff)

text \<open>The operations, with what the operator typed or answered.\<close>

datatype manager_op =
    Add nat
  | Remove nat
  | Toggle nat
  | Relabel nat string
  | StartEdit target_row
  | CancelEdit
  | SaveEdit target_row
  | DeleteAll bool
  | Import nat
  | TestStart nat
  | TestEnd nat string
  | Override string fields
  | ClearOverride string
  | MakeProfile string fields fields
  | AddGroup nat
  | RenameGroup string string
  | DeleteGroup bool string
  | MoveTo string string
  | ShowGroup string
  | TypeAddress string
  | TypeLabel string
  | TypeImport string
  | TypeEdit string

fun run_op :: "manager_op \<Rightarrow> manager \<Rightarrow> manager" where
  "run_op (Add now) m = fst (addTarget now m)"
| "run_op (Remove i) m = removeTarget i m"
| "run_op (Toggle i) m = toggleTarget i m"
| "run_op (Relabel i l) m = updateLabel i l m"
| "run_op (StartEdit t) m = startEditAddress t m"
| "run_op CancelEdit m = cancelEditAddress m"
| "run_op (SaveEdit t) m = fst (saveEditAddress t m)"
| "run_op (DeleteAll b) m = deleteAllInGroup b m"
| "run_op (Import now) m = fst (importTargets now m)"
| "run_op (TestStart i) m = fst (test_begin i m)"
| "run_op (TestEnd i e) m = fst (test_answered i e m)"
| "run_op (Override a fs) m = saveOverride a fs m"
| "run_op (ClearOverride a) m = clearOverride a m"
| "run_op (MakeProfile a p own) m = saveOverrideAsProfile a p own m"
| "run_op (AddGroup now) m = addGroup now m"
| "run_op (RenameGroup g n) m = renameGroup g n m"
| "run_op (DeleteGroup b g) m = deleteGroup b g m"
| "run_op (MoveTo a g) m = moveTargetToGroup a g m"
| "run_op (ShowGroup g) m = select_group g m"
| "run_op (TypeAddress s) m = address_typed s m"
| "run_op (TypeLabel s) m = m\<lparr>mg_newLabel := s\<rparr>"
| "run_op (TypeImport s) m = m\<lparr>mg_importText := s\<rparr>"
| "run_op (TypeEdit s) m = m\<lparr>mg_editValue := s\<rparr>"

text \<open>What is typed has no comment sign or line break in it, and an imported line is not commented out.\<close>

definition typable :: "string \<Rightarrow> bool" where
  "typable s \<longleftrightarrow> HASH \<notin> set s \<and> NEWLINE \<notin> set s"

definition plain_input :: "manager_op \<Rightarrow> manager \<Rightarrow> bool" where
  "plain_input op m = (case op of
     Add now \<Rightarrow> typable (mg_newAddress m) \<and> typable (mg_newLabel m) \<and> \<not> starts_with (trim (mg_newAddress m)) ''//''
   | Relabel i l \<Rightarrow> plain_label l
   | SaveEdit t \<Rightarrow> typable (mg_editValue m) \<and> \<not> starts_with (trim (mg_editValue m)) ''//''
   | Import now \<Rightarrow> list_all (\<lambda>l. \<not> starts_with l ''//'') (typed_lines (mg_importText m))
   | _ \<Rightarrow> True)"

lemma typable_plain: "typable s \<Longrightarrow> trim s \<noteq> [] \<Longrightarrow> \<not> starts_with (trim s) ''//'' \<Longrightarrow> typed_address (trim s)" "typable s \<Longrightarrow> plain_label (trim s)"
  using set_trim[of s] by (auto simp: typable_def typed_address_def plain_label_def trimmed_trim)

lemma import_line_plain:
  assumes "trimmed line" "NEWLINE \<notin> set line" "\<not> starts_with line ''//''" "address_label line = (a, l)" "a \<noteq> []"
  shows "typed_address a \<and> plain_label l"
proof -
  have parts: "HASH \<notin> set p \<and> NEWLINE \<notin> set p" if "p \<in> set (split_on HASH line)" for p
  proof
    show "HASH \<notin> set p" using that by (rule split_on_no_sep)
    have "set p \<subseteq> set line"
      using that
    proof (induction line arbitrary: p)
      case (Cons c cs)
      obtain x xs where s: "split_on HASH cs = x # xs" by (cases "split_on HASH cs") auto
      with Cons.IH have "set x \<subseteq> set cs" "\<And>q. q \<in> set xs \<Longrightarrow> set q \<subseteq> set cs" by simp_all
      with Cons.prems s show ?case by (cases "c = HASH") (auto split: if_splits)
    qed simp
    with assms(2) show "NEWLINE \<notin> set p" by auto
  qed
  obtain h r where h: "split_on HASH line = h # r" by (cases "split_on HASH line") auto
  have a: "a = trim h" and l: "l = [] \<or> (\<exists>x \<in> set r. l = trim x)"
    using assms(4) h by (auto simp: address_label_def split: list.splits)
  have "\<not> starts_with a ''//''"
  proof
    assume s: "starts_with a ''//''"
    have nl: "line \<noteq> []" using assms(4,5) by (auto simp: address_label_def trim_def)
    have hh: "h = fst (cut_at HASH line)" using hd_split_on[of HASH line] h by simp
    obtain p q where d: "h = p @ trim h @ q" "list_all is_space p" using trim_decomp[of h] by blast
    have "p = []"
    proof (cases p)
      case (Cons c cs)
      then have "hd line = c" using nl hh d by (cases line) (auto split: if_splits)
      then show ?thesis using Cons d(2) assms(1) nl by (auto simp: trimmed_def)
    qed simp
    with d a have "h = a @ q" by simp
    moreover have "\<exists>z. line = h @ z"
      unfolding hh by (induction line) auto
    ultimately obtain z where "line = a @ z" by auto
    with s assms(3) show False by (auto simp: starts_with_def)
  qed
  moreover have sub: "HASH \<notin> set (trim x) \<and> NEWLINE \<notin> set (trim x)" if "x \<in> set (h # r)" for x
    using parts[of x] that h set_trim[of x] by auto
  moreover have "trimmed []" by (simp add: trimmed_def)
  ultimately show ?thesis using a l assms(5)
    by (auto simp: typed_address_def plain_label_def trimmed_trim)
qed

lemma typed_lines_plain:
  assumes "l \<in> set (typed_lines text)"
  shows "trimmed l \<and> NEWLINE \<notin> set l"
proof -
  from assms obtain p where "p \<in> set (split_on NEWLINE text)" "l = trim p" by (auto simp: typed_lines_def)
  then show ?thesis using split_on_no_sep[of p NEWLINE] set_trim[of p] by (auto simp: trimmed_trim)
qed

lemma import_plain:
  assumes "list_all plain_row (im_rows r)" "\<forall>p \<in> set ls. trimmed (snd p) \<and> NEWLINE \<notin> set (snd p) \<and> \<not> starts_with (snd p) ''//''"
  shows "list_all plain_row (im_rows (foldl (import_line now g) r ls))"
  using assms
proof (induction ls arbitrary: r)
  case (Cons p ls)
  obtain a l where al: "address_label (snd p) = (a, l)" by fastforce
  have "list_all plain_row (im_rows (import_line now g r p))"
    using Cons.prems import_line_plain[of "snd p" a l] al
    by (auto simp: import_line_def fresh_row_def) (simp add: plain_row_def)
  with Cons show ?case by simp
qed simp

lemma targets_written: "map_of (targets_field m @ rest) ''targets'' = Some (JStr (serializeTargets (mg_targets m)))"
  by (simp add: targets_field_def)

lemma run_import_plain:
  assumes "list_all plain_row (mg_targets m)" "list_all (\<lambda>l. \<not> starts_with l ''//'') (typed_lines (mg_importText m))"
  shows "list_all plain_row (im_rows (run_import now m))"
  unfolding run_import_def
proof (rule import_plain)
  show "list_all plain_row (im_rows \<lparr>im_rows = mg_targets m, im_known = map tg_address (mg_targets m), im_assigns = assigns_of m,
      im_added = 0, im_skipped = 0\<rparr>)" using assms(1) by simp
  have "snd p \<in> set (typed_lines (mg_importText m))" if "p \<in> set (enumerate 0 (typed_lines (mg_importText m)))" for p
    using that by (metis map_snd_enumerate image_eqI set_map)
  then show "\<forall>p \<in> set (enumerate 0 (typed_lines (mg_importText m))). trimmed (snd p) \<and> NEWLINE \<notin> set (snd p) \<and> \<not> starts_with (snd p) ''//''"
    using typed_lines_plain assms(2) by (auto simp: list_all_iff)
qed

lemma agrees_fields:
  assumes "list_all plain_row (mg_targets m)" "mg_targets m' = mg_targets m"
    "mg_settings m' = mg_settings (save_with (targets_field m @ rest) m)" "distinct (map fst (targets_field m @ rest))"
  shows "agrees m'"
  using agrees_kept[OF agrees_written[OF assms(1,4) targets_written]] assms(2,3) by simp

lemma agrees_other_fields:
  assumes "agrees m" "mg_targets m' = mg_targets m" "mg_settings m' = mg_settings (save_with ch m)" "distinct (map fst ch)" "''targets'' \<notin> fst ` set ch"
  shows "agrees m'"
proof (rule agrees_kept[OF assms(1,2)])
  have "map_of ch ''targets'' = None" using assms(5) by (simp add: map_of_eq_None_iff)
  then show "jget (mg_settings m') ''targets'' = jget (mg_settings m) ''targets''" unfolding assms(3) by (simp add: jget_save_with assms(4))
qed

lemma agrees_add:
  assumes "agrees m" "plain_input (Add now) m"
  shows "agrees (fst (addTarget now m))"
proof -
  have p: "list_all plain_row (mg_targets m)" using assms(1) by (simp add: agrees_def)
  show ?thesis
  proof (cases "trim (mg_newAddress m) = []")
    case True
    then show ?thesis using assms(1) by (simp add: addTarget_def)
  next
    case False
    let ?row = "fresh_row now (trim (mg_newAddress m)) (trim (mg_newLabel m))"
    have "plain_row ?row" using assms(2) False typable_plain by (simp add: plain_input_def plain_row_def fresh_row_def)
    with p False show ?thesis
      by (intro agrees_fields[where m = "set_targets (mg_targets m @ [?row]) m"])
        (auto simp: addTarget_def Let_def set_targets_def save_with_def targets_field_def)
  qed
qed

lemma agrees_rename:
  assumes "agrees m" "plain_input (SaveEdit t) m"
  shows "agrees (fst (saveEditAddress t m))"
proof -
  have p: "list_all plain_row (mg_targets m)" using assms(1) by (simp add: agrees_def)
  let ?new = "trim (mg_editValue m)"
  have "typed_address ?new" if "?new \<noteq> []" using that assms(2) typable_plain by (simp add: plain_input_def)
  then have r: "?new \<noteq> [] \<Longrightarrow> list_all plain_row (mg_targets (map_row (tg_id t) (\<lambda>t. t\<lparr>tg_address := ?new, tg_status := []\<rparr>) m))"
    using p by (auto simp: map_row_def set_targets_def plain_row_def intro!: plain_rows_mapped)
  show ?thesis
  proof (cases "?new = [] \<or> ?new = tg_address t \<or> list_ex (\<lambda>u. tg_id u \<noteq> tg_id t \<and> tg_address u = ?new) (mg_targets m)")
    case True
    then have "mg_targets (fst (saveEditAddress t m)) = mg_targets m \<and> mg_settings (fst (saveEditAddress t m)) = mg_settings m"
      by (auto simp: saveEditAddress_def Let_def cancelEditAddress_def)
    then show ?thesis using agrees_kept[OF assms(1)] by simp
  next
    case False
    then have "?new \<noteq> []" "?new \<noteq> tg_address t" "\<not> list_ex (\<lambda>u. tg_id u \<noteq> tg_id t \<and> tg_address u = ?new) (mg_targets m)" by blast+
    then show ?thesis
      by (intro agrees_fields[where m = "map_row (tg_id t) (\<lambda>t. t\<lparr>tg_address := ?new, tg_status := []\<rparr>) m", OF r])
        (auto simp: saveEditAddress_def Let_def cancelEditAddress_def targets_field_def)
  qed
qed

lemma agrees_delete:
  assumes "agrees m" 
  shows "agrees (deleteAllInGroup b m)"
proof -
  have p: "list_all plain_row (mg_targets m)" using assms(1) by (simp add: agrees_def)
  show ?thesis
  proof (cases "mg_filtered m = [] \<or> \<not> b")
    case True
    then show ?thesis using assms(1) by (auto simp: deleteAllInGroup_def)
  next
    case False
    then show ?thesis using p
      by (intro agrees_fields[where m = "set_targets (filter (\<lambda>t. tg_id t \<notin> set (map tg_id (mg_filtered m))) (mg_targets m)) m"])
        (auto simp: deleteAllInGroup_def Let_def set_targets_def save_with_def targets_field_def forget_addresses_def list_all_iff)
  qed
qed

lemma agrees_import:
  assumes "agrees m" "plain_input (Import now) m"
  shows "agrees (fst (importTargets now m))"
proof -
  have p: "list_all plain_row (mg_targets m)" using assms(1) by (simp add: agrees_def)
  show ?thesis
  proof (cases "typed_lines (mg_importText m) = []")
    case True
    then show ?thesis using agrees_kept[OF assms(1)] by (simp add: importTargets_def)
  next
    case False
    have "list_all plain_row (im_rows (run_import now m))" using p assms(2) by (intro run_import_plain) (simp_all add: plain_input_def)
    with False show ?thesis
      by (intro agrees_fields[where m = "set_targets (im_rows (run_import now m)) m"])
        (auto simp: importTargets_def Let_def set_targets_def save_with_def targets_field_def)
  qed
qed

lemma agrees_op:
  assumes "agrees m" "plain_input op m"
  shows "agrees (run_op op m)"
proof -
  have p: "list_all plain_row (mg_targets m)" using assms(1) by (simp add: agrees_def)
  show ?thesis
  proof (cases op)
    case (Add now)
    then show ?thesis using agrees_add assms by simp
  next
    case (Remove i)
    then show ?thesis using p
      by (intro agrees_fields[where m = "set_targets (filter (\<lambda>t. tg_id t \<noteq> i) (mg_targets m)) m"])
        (auto simp: removeTarget_def Let_def set_targets_def save_with_def targets_field_def forget_addresses_def list_all_iff)
  next
    case (Toggle i)
    then show ?thesis using p
      by (intro agrees_fields[where m = "map_row i (\<lambda>t. t\<lparr>tg_enabled := \<not> tg_enabled t\<rparr>) m" and rest = "[]"])
        (auto simp: toggleTarget_def saveTargets_def map_row_def set_targets_def targets_field_def plain_row_def intro!: plain_rows_mapped)
  next
    case (Relabel i l)
    then show ?thesis using p assms(2)
      by (intro agrees_fields[where m = "map_row i (\<lambda>t. t\<lparr>tg_label := l\<rparr>) m" and rest = "[]"])
        (auto simp: updateLabel_def saveTargets_def map_row_def set_targets_def targets_field_def plain_row_def plain_input_def intro!: plain_rows_mapped)
  next
    case (SaveEdit t)
    then show ?thesis using agrees_rename assms by simp
  next
    case (DeleteAll b)
    then show ?thesis using agrees_delete assms by simp
  next
    case (Import now)
    then show ?thesis using agrees_import assms by simp
  next
    case (TestStart i)
    then show ?thesis using assms(1) p
      by (auto simp: test_begin_def agrees_def map_row_def set_targets_def plain_row_def row_key_def o_def if_distrib
          cong: if_cong split: option.split intro!: plain_rows_mapped)
  next
    case (TestEnd i e)
    then show ?thesis using assms(1) p
      by (auto simp: test_answered_def agrees_def map_row_def set_targets_def plain_row_def row_key_def o_def if_distrib
          cong: if_cong intro!: plain_rows_mapped)
  next
    case (Override a fs)
    then show ?thesis by (intro agrees_other_fields[OF assms(1)]) (auto simp: saveOverride_def Let_def)
  next
    case (MakeProfile a q own)
    then show ?thesis by (intro agrees_other_fields[OF assms(1)]) (auto simp: saveOverrideAsProfile_def)
  next
    case (ClearOverride a)
    then show ?thesis by (intro agrees_other_fields[OF assms(1)]) (auto simp: clearOverride_def)
  next
    case (AddGroup now)
    show ?thesis
    proof (cases "trim (mg_newGroup m) = []")
      case True
      then show ?thesis using assms(1) by (simp add: AddGroup addGroup_def)
    next
      case False
      then show ?thesis by (intro agrees_other_fields[OF assms(1)]) (auto simp: AddGroup addGroup_def Let_def select_group_def)
    qed
  next
    case (RenameGroup g n)
    show ?thesis
    proof (cases "trim n = [] \<or> g = ''default''")
      case True
      then show ?thesis using assms(1) by (auto simp: RenameGroup renameGroup_def)
    next
      case False
      then show ?thesis by (intro agrees_other_fields[OF assms(1)]) (auto simp: RenameGroup renameGroup_def Let_def)
    qed
  next
    case (DeleteGroup b g)
    show ?thesis
    proof (cases "g = ''default'' \<or> \<not> b")
      case True
      then show ?thesis using assms(1) by (auto simp: DeleteGroup deleteGroup_def)
    next
      case False
      then show ?thesis by (intro agrees_other_fields[OF assms(1)]) (auto simp: DeleteGroup deleteGroup_def Let_def select_group_def)
    qed
  next
    case (MoveTo a g)
    then show ?thesis by (intro agrees_other_fields[OF assms(1)]) (auto simp: moveTargetToGroup_def)
  qed (use agrees_kept[OF assms(1)] in \<open>auto simp: startEditAddress_def cancelEditAddress_def select_group_def address_typed_def\<close>)
qed

inductive mg_reach :: "manager \<Rightarrow> manager \<Rightarrow> bool" for start where
  Opened: "mg_reach start (panel_refresh start)"
| Done: "mg_reach start m \<Longrightarrow> plain_input op m \<Longrightarrow> mg_reach start (panel_refresh (run_op op m))"

lemma agrees_reach: "mg_reach start m \<Longrightarrow> agrees start \<Longrightarrow> agrees m"
  by (induction rule: mg_reach.induct) (blast dest: agrees_panel_refresh agrees_op)+

lemma asked_are_parsed: "getTargetsAsArray text = map tg_address (filter tg_enabled (parseTargets text))"
proof -
  have h: "fst (address_label l) = trim (hd (split_on HASH l))" for l
    by (auto simp: address_label_def split: list.splits)
  have "map (\<lambda>t. trim (hd (split_on CHR ''#'' t))) (filter (\<lambda>t. length t > 0 \<and> \<not> starts_with t ''//'') (map trim ls)) =
      map tg_address (filter tg_enabled (List.map_filter parse_row (enumerate i ls)))" for i ls
  proof (induction ls arbitrary: i)
    case (Cons l ls)
    then show ?case by (auto simp: List.map_filter_def parse_row_def Let_def h[symmetric] HASH_def[symmetric] split: prod.splits)
  qed (simp add: List.map_filter_def)
  then show ?thesis by (simp add: getTargetsAsArray_def parseTargets_def)
qed

lemma addresses_by_key: "map tg_address (filter tg_enabled ts) = map fst (filter (\<lambda>k. snd (snd k)) (map row_key ts))"
  by (induction ts) (simp_all add: row_key_def)


definition empty_manager :: manager where
  "empty_manager = \<lparr>mg_targets = [], mg_filtered = [], mg_assigned = True, mg_settings = JObj [], mg_newAddress = ''10.0.0.1'', mg_newLabel = [],
     mg_newProfile = [], mg_newPreset = [], mg_showAdd = False, mg_group = ''all'', mg_newGroup = [], mg_showGroupMenu = False,
     mg_editing = None, mg_editValue = [], mg_override = None, mg_preset = None, mg_rowPreset = [], mg_rowBinding = None,
     mg_binding = False, mg_identifying = False, mg_identity = JNull, mg_presets = [], mg_showImport = False, mg_importText = []\<rparr>"


section \<open>Renaming\<close>

lemma fget_move: "fget (move_field old new fs) k =
   (if fget fs old = JUndef then fget fs k else if k = old then JUndef else if k = new then fget fs old else fget fs k)"
  by (simp add: move_field_def)

text \<open>The settings after a rename, one property at a time.\<close>

lemma renamed_settings:
  assumes "trim (mg_editValue m) = new" "new \<noteq> []" "new \<noteq> tg_address t"
    "\<not> list_ex (\<lambda>u. tg_id u \<noteq> tg_id t \<and> tg_address u = new) (mg_targets m)"
  shows "jget (mg_settings (fst (saveEditAddress t m))) k =
    (if k = ''targetOverrides'' then JObj (move_field (tg_address t) new (overrides_of m))
     else if k = ''targetGroupAssignments'' then JObj (move_field (tg_address t) new (assigns_of m))
     else if k = ''targets'' then jget (mg_settings (fst (saveEditAddress t m))) ''targets'' else jget (mg_settings m) k)"
proof -
  let ?m1 = "map_row (tg_id t) (\<lambda>t. t\<lparr>tg_address := new, tg_status := []\<rparr>) m"
  have "fst (saveEditAddress t m) = cancelEditAddress (save_with (targets_field ?m1 @
      [(''targetOverrides'', JObj (move_field (tg_address t) new (overrides_of m))),
       (''targetGroupAssignments'', JObj (move_field (tg_address t) new (assigns_of m)))]) ?m1)"
    using assms by (simp add: saveEditAddress_def Let_def)
  moreover have "mg_settings ?m1 = mg_settings m" by (simp add: map_row_def set_targets_def)
  ultimately show ?thesis by (simp add: cancelEditAddress_def jget_save_with targets_field_def)
qed

lemma effective_same:
  assumes "\<And>k. k \<notin> {''targets'', ''targetOverrides'', ''targetGroupAssignments''} \<Longrightarrow> jget s' k = jget s k"
    "jget (jget s' ''targetOverrides'') b = jget (jget s ''targetOverrides'') a" "portOf b = portOf a"
    "k \<notin> {''targets'', ''targetOverrides'', ''targetGroupAssignments''}"
  shows "fget (getEffectiveSettings s' b) k = fget (getEffectiveSettings s a) k"
proof -
  have i: "identity_of s' ov = identity_of s ov" for ov
  proof -
    have "jget s' ''v3'' = jget s ''v3''" "jget s' ''credentialProfiles'' = jget s ''credentialProfiles''" by (rule assms(1), simp)+
    then show ?thesis by (simp add: identity_of_def findProfile_def profiles_of_def split: option.split)
  qed
  have k: "jget s' k = jget s k" using assms(1,4) by blast
  show ?thesis unfolding effective_fget Let_def i k assms(2,3) by (rule refl)
qed

text \<open>
  A target whose address is edited is asked as it was before, under its new address and in its
  group, if nothing was kept under that address; and no other target is asked differently.
\<close>

theorem rename_keeps_identity:
  assumes "trim (mg_editValue m) = new" "new \<noteq> []" "new \<noteq> tg_address t"
    "\<not> list_ex (\<lambda>u. tg_id u \<noteq> tg_id t \<and> tg_address u = new) (mg_targets m)"
    "fget (overrides_of m) new = JUndef" "fget (assigns_of m) new = JUndef" "portOf new = portOf (tg_address t)"
    "k \<notin> {''targets'', ''targetOverrides'', ''targetGroupAssignments''}"
  shows "let m' = fst (saveEditAddress t m) in
    fget (getEffectiveSettings (mg_settings m') new) k = fget (getEffectiveSettings (mg_settings m) (tg_address t)) k \<and>
    getGroupForTarget m' new = getGroupForTarget m (tg_address t) \<and>
    (a \<notin> {new, tg_address t} \<longrightarrow>
      fget (getEffectiveSettings (mg_settings m') a) k = fget (getEffectiveSettings (mg_settings m) a) k \<and>
      getGroupForTarget m' a = getGroupForTarget m a)"
proof -
  let ?m' = "fst (saveEditAddress t m)"
  note s = renamed_settings[OF assms(1-4)]
  have o: "jget (jget (mg_settings ?m') ''targetOverrides'') b = fget (move_field (tg_address t) new (overrides_of m)) b" for b
    by (simp add: s)
  have o': "jget (jget (mg_settings m) ''targetOverrides'') b = fget (overrides_of m) b" for b
    by (simp add: overrides_of_def jget_fields)
  have g: "assigns_of ?m' = move_field (tg_address t) new (assigns_of m)" by (simp add: assigns_of_def s[of "''targetGroupAssignments''"])
  have "fget (getEffectiveSettings (mg_settings ?m') new) k = fget (getEffectiveSettings (mg_settings m) (tg_address t)) k"
    using assms(3,5,7,8) by (intro effective_same) (simp_all add: s o o' fget_move)
  moreover have "fget (getEffectiveSettings (mg_settings ?m') a) k = fget (getEffectiveSettings (mg_settings m) a) k"
    if "a \<notin> {new, tg_address t}"
    using that assms(8) by (intro effective_same) (simp_all add: s o o' fget_move)
  ultimately show ?thesis using assms(3,6)
    by (auto simp: Let_def getGroupForTarget_def g fget_move)
qed

definition one_target :: manager where
  "one_target = empty_manager\<lparr>mg_targets := [fresh_row 0 ''a'' []], mg_editValue := ''b'',
     mg_settings := JObj [(''targetOverrides'', JObj [(''a'', JObj [(''community'', JStr ''x'')])]), (''v3'', JNull)]\<rparr>"

theorem rename_keeps_identity_witness:
  "fget (getEffectiveSettings (mg_settings (fst (saveEditAddress (fresh_row 0 ''a'' []) one_target))) ''b'') ''community'' =
   fget (getEffectiveSettings (mg_settings one_target) ''a'') ''community''"
proof -
  have "trim ''b'' = ''b''" "portOf ''b'' = portOf ''a''" by code_simp+
  then have e: "trim (mg_editValue one_target) = ''b''" "portOf ''b'' = portOf ''a''" by (simp_all add: one_target_def)
  show ?thesis
    using rename_keeps_identity[OF e(1), of "fresh_row 0 ''a'' []" "''community''" "''b''"] e(2)
    by (simp add: one_target_def empty_manager_def fresh_row_def overrides_of_def assigns_of_def fget_lookup Let_def)
qed

section \<open>What the list does not see\<close>

text \<open>An address can be added twice; removing one of the rows forgets what the other is asked with.\<close>

lemma added_twice:
  assumes "trim (mg_newAddress m) = tg_address t" "t \<in> set (mg_targets m)" "tg_address t \<noteq> []"
  shows "length (filter (\<lambda>u. tg_address u = tg_address t) (mg_targets (fst (addTarget now m)))) \<ge> 2"
proof -
  have "mg_targets (fst (addTarget now m)) = mg_targets m @ [fresh_row now (tg_address t) (trim (mg_newLabel m))]"
    using assms by (simp add: addTarget_def Let_def set_targets_def save_with_def)
  moreover have "filter (\<lambda>u. tg_address u = tg_address t) (mg_targets m) \<noteq> []" using assms(2) by (auto simp: filter_empty_conv)
  then have "length (filter (\<lambda>u. tg_address u = tg_address t) (mg_targets m)) \<ge> 1" by (cases "filter (\<lambda>u. tg_address u = tg_address t) (mg_targets m)") simp_all
  ultimately show ?thesis by (simp add: fresh_row_def)
qed

lemma removing_one_forgets_both:
  assumes "t \<in> set (mg_targets m)" "u \<in> set (mg_targets m)" "tg_address u = tg_address t" "tg_id u \<noteq> tg_id t"
    "distinct (map tg_id (mg_targets m))"
  shows "u \<in> set (mg_targets (removeTarget (tg_id t) m)) \<and> fget (overrides_of (removeTarget (tg_id t) m)) (tg_address u) = JUndef"
proof -
  have "find (\<lambda>x. tg_id x = tg_id t) (mg_targets m) = Some t"
  proof -
    have "find (\<lambda>x. tg_id x = tg_id t) ts = Some t" if "t \<in> set ts" "distinct (map tg_id ts)" for ts
      using that by (induction ts) (auto simp: rev_image_eqI)
    then show ?thesis using assms(1,5) by blast
  qed
  then show ?thesis using assms(2-4)
    by (simp add: removeTarget_def Let_def set_targets_def overrides_of_def save_with_def forget_addresses_def targets_field_def fget_spread)
qed

text \<open>The list of a group is not worked out again when a target is moved out of it, and deleting the group's targets deletes it.\<close>

lemma moved_target_stays_listed:
  assumes "agrees m" "\<not> mg_assigned m"
  shows "mg_filtered (panel_refresh (moveTargetToGroup address g m)) = mg_filtered m"
proof -
  let ?m = "moveTargetToGroup address g m"
  have "agrees ?m" by (rule agrees_other_fields[OF assms(1), of _ "[(''targetGroupAssignments'', JObj (fset address (JStr g) (assigns_of m)))]"])
      (simp_all add: moveTargetToGroup_def)
  then show ?thesis using assms(2) by (simp add: agrees_def panel_refresh_def resync_def filter_group_def moveTargetToGroup_def)
qed

lemma moved_target_is_deleted:
  assumes "agrees m" "\<not> mg_assigned m" "t \<in> set (mg_filtered m)"
  shows "tg_id t \<notin> set (map tg_id (mg_targets (deleteAllInGroup True (panel_refresh (moveTargetToGroup (tg_address t) g m)))))"
proof -
  let ?m = "panel_refresh (moveTargetToGroup (tg_address t) g m)"
  have "mg_filtered ?m = mg_filtered m" by (rule moved_target_stays_listed[OF assms(1,2)])
  moreover have "mg_filtered m \<noteq> []" using assms(3) by (cases "mg_filtered m") simp_all
  ultimately have "mg_targets (deleteAllInGroup True ?m) = filter (\<lambda>x. tg_id x \<notin> tg_id ` set (mg_filtered m)) (mg_targets ?m)"
    by (simp add: deleteAllInGroup_def Let_def set_targets_def)
  moreover have "tg_id t \<in> tg_id ` set (mg_filtered m)" using assms(3) by (rule imageI)
  ultimately show ?thesis by auto
qed

text \<open>A label is cut at its first comment sign.\<close>

lemma label_is_cut: "address_label (serialize_row (fresh_row 0 ''10.0.0.1'' ''core #2'')) = (''10.0.0.1'', ''core'')"
  by code_simp

text \<open>What a device said is shown for the address typed since it was asked.\<close>

lemma identity_of_another_address:
  "mg_identity (identify_answered result (address_typed b m)) = result" "mg_newAddress (identify_answered result (address_typed b m)) = b"
  by (simp_all add: identify_answered_def address_typed_def Let_def)

end
