(* ===== verification/Override_Form.thy ===== *)
theory Override_Form
  imports Target_Manager Address_Masking
begin

text \<open>
  The form of one target's overrides: the script of \<open>frontend/src/TargetOverrideForm.svelte\<close>. A field of
  the form is a JavaScript value, since an emptied number field holds \<open>null\<close>; \<open>NaN\<close> is
  \<open>JNull\<close>, as it is once stored. The id of a new profile and the translated fallback name are
  arguments. The lemmas show that a saved form opens as it was saved, and what an emptied number becomes.
\<close>

section \<open>The form\<close>

record override_form =
  fm_identity :: string
  fm_local :: "string \<Rightarrow> jsval"
  fm_v3 :: "string \<Rightarrow> jsval"
  fm_enabled :: "string \<Rightarrow> bool"

definition open_form :: "jsval \<Rightarrow> jsval \<Rightarrow> override_form" where
  "open_form settings overrides =
     \<lparr>fm_identity = (if findProfile settings (jget overrides ''profile'') \<noteq> None then str (jget overrides ''profile'')
        else if hasCustomCredentials overrides then ''custom'' else ''default''),
      fm_local = (\<lambda>k. coalesce (jget overrides k) (JStr [])),
      fm_v3 = (\<lambda>k. coalesce (jget (jget overrides ''v3'') k) (JStr [])),
      fm_enabled = (\<lambda>k. jget overrides k \<noteq> JUndef)\<rparr>"

definition keep :: "bool \<Rightarrow> string \<Rightarrow> jsval \<Rightarrow> fields" where
  "keep b k v = (if b then [(k, v)] else [])"

definition as_number :: "jsval \<Rightarrow> jsval" where
  "as_number v = (case number_of v of Some q \<Rightarrow> JNum q | None \<Rightarrow> JNull)"

definition transport :: "string \<Rightarrow> override_form \<Rightarrow> fields" where
  "transport address f =
     keep (fm_enabled f ''port'' \<and> fm_local f ''port'' \<noteq> JStr [] \<and> portOf address = None) ''port'' (as_number (fm_local f ''port'')) @
     keep (fm_enabled f ''timeout'' \<and> fm_local f ''timeout'' \<noteq> JStr []) ''timeout'' (as_number (fm_local f ''timeout'')) @
     keep (fm_enabled f ''retries'' \<and> fm_local f ''retries'' \<noteq> JStr []) ''retries'' (as_number (fm_local f ''retries''))"

definition OWN_V3 :: "string list" where
  "OWN_V3 = [''user'', ''authProto'', ''authPass'', ''privProto'', ''privPass'', ''secLevel'', ''contextName'']"

definition own_v3 :: "override_form \<Rightarrow> fields" where
  "own_v3 f = map (\<lambda>k. (k, fm_v3 f k)) (filter (\<lambda>k. truthy (fm_v3 f k)) OWN_V3)"

definition ownIdentity :: "override_form \<Rightarrow> fields" where
  "ownIdentity f =
     keep (fm_enabled f ''community'' \<and> truthy (fm_local f ''community'')) ''community'' (fm_local f ''community'') @
     keep (fm_enabled f ''snmpVersion'' \<and> truthy (fm_local f ''snmpVersion'')) ''snmpVersion'' (fm_local f ''snmpVersion'') @
     keep (fm_enabled f ''v3'' \<and> own_v3 f \<noteq> []) ''v3'' (JObj (own_v3 f))"

definition handleSave :: "string \<Rightarrow> override_form \<Rightarrow> fields" where
  "handleSave address f = transport address f @
     (if fm_identity f = ''custom'' then ownIdentity f
      else if fm_identity f \<noteq> ''default'' then [(''profile'', JStr (fm_identity f))] else [])"

definition MIDDLE_DOT :: string where "MIDDLE_DOT = [CHR '' '', CHR 0xB7, CHR '' '']"

definition describe :: "jsval \<Rightarrow> bool \<Rightarrow> string" where
  "describe profile anon =
     (if jget profile ''version'' \<noteq> JStr ''v3'' then str (jget profile ''version'')
      else let user = str (jget (jget profile ''v3'') ''user'')
        in ''v3'' @ MIDDLE_DOT @ (if anon then maskString user else user) @ MIDDLE_DOT @ str (jget (jget profile ''v3'') ''secLevel''))"

text \<open>The profile made of what the target authenticates with, or the first thing wrong with it.\<close>

definition draft_profile :: "string \<Rightarrow> string \<Rightarrow> jsval \<Rightarrow> override_form \<Rightarrow> fields" where
  "draft_profile ident name settings f =
     (let own = JObj (ownIdentity f);
          version = jor (jget own ''snmpVersion'') (jor (jget settings ''snmpVersion'') (JStr ''v2c''));
          draft = fset ''name'' (JStr name) (blankProfile ident (str version))
      in if fget draft ''version'' = JStr ''v3''
         then fset ''v3'' (JObj (spread (spread (fields_of (fget draft ''v3'')) (fields_of (jget settings ''v3''))) (fields_of (jget own ''v3'')))) draft
         else fset ''community'' (coalesce (jget own ''community'') (coalesce (jget settings ''community'') (JStr []))) draft)"

datatype profile_made = Refused "string \<times> string" | Made fields fields | NoName

definition saveAsProfile :: "string \<Rightarrow> string \<Rightarrow> string \<Rightarrow> string \<Rightarrow> bool \<Rightarrow> jsval \<Rightarrow> override_form \<Rightarrow> profile_made" where
  "saveAsProfile ident profileName fallback address anon settings f =
     (let profiles = profiles_of settings; typed = trim profileName in
      case uniqueName (if typed \<noteq> [] then typed else if anon then [] else fallback) profiles JUndef of
        None \<Rightarrow> NoName
      | Some name \<Rightarrow> (case normaliseProfile (JObj (draft_profile ident name settings f)) of
          None \<Rightarrow> NoName
        | Some profile \<Rightarrow> (case vd_errors (validateProfile (JObj profile) profiles) of
            e # es \<Rightarrow> Refused e
          | [] \<Rightarrow> Made profile (transport address f @ [(''profile'', fget profile ''id'')]))))"

section \<open>A saved form opens as it was saved\<close>

lemma fget_keep [simp]: "fget (keep b k v @ fs) j = (if b \<and> k = j then v else fget fs j)" "fget (keep b k v) j = (if b \<and> k = j then v else JUndef)"
  by (simp_all add: keep_def fget_def)

lemma fget_nil [simp]: "fget [] k = JUndef"
  by (simp add: fget_def)

lemma fget_one [simp]: "fget [(k, v)] j = (if k = j then v else JUndef)"
  by (simp add: fget_def)

definition number_field :: "jsval \<Rightarrow> bool" where
  "number_field v \<longleftrightarrow> v = JStr [] \<or> number_of v \<noteq> None"

text \<open>The identity is the default one, the target's own, or a profile that exists.\<close>

definition form_ok :: "jsval \<Rightarrow> override_form \<Rightarrow> bool" where
  "form_ok settings f \<longleftrightarrow> number_field (fm_local f ''port'') \<and> number_field (fm_local f ''timeout'') \<and> number_field (fm_local f ''retries'') \<and>
     (fm_identity f = ''custom'' \<or> fm_identity f = ''default'' \<or> findProfile settings (JStr (fm_identity f)) \<noteq> None)"

lemma as_number_again: "number_field v \<Longrightarrow> v \<noteq> JStr [] \<Longrightarrow> as_number (coalesce (as_number v) (JStr [])) = as_number v"
  "number_field v \<Longrightarrow> v \<noteq> JStr [] \<Longrightarrow> coalesce (as_number v) (JStr []) \<noteq> JStr []"
  "number_field v \<Longrightarrow> v \<noteq> JStr [] \<Longrightarrow> as_number v \<noteq> JUndef"
  by (auto simp: number_field_def as_number_def coalesce_def nullish_def)

lemma truthy_not_nullish: "truthy v \<Longrightarrow> coalesce v (JStr []) = v" "truthy v \<Longrightarrow> v \<noteq> JUndef"
  by (cases v; simp add: coalesce_def nullish_def)+

lemma fget_own_v3: "fget (own_v3 f) k = (if k \<in> set OWN_V3 \<and> truthy (fm_v3 f k) then fm_v3 f k else JUndef)"
proof -
  have "fget (map (\<lambda>k. (k, g k)) ks) k = (if k \<in> set ks then g k else JUndef)" for g ks
    by (induction ks) (auto simp: fget_lookup)
  then show ?thesis by (simp add: own_v3_def)
qed

lemma own_v3_again:
  assumes "fm_v3 g = (\<lambda>k. coalesce (fget (own_v3 f) k) (JStr []))"
  shows "own_v3 g = own_v3 f"
proof -
  have e: "fm_v3 g k = (if truthy (fm_v3 f k) then fm_v3 f k else JStr [])" if "k \<in> set OWN_V3" for k
    using that truthy_not_nullish[of "fm_v3 f k"] by (auto simp: assms fget_own_v3 coalesce_def nullish_def)
  have "filter (\<lambda>k. truthy (fm_v3 g k)) OWN_V3 = filter (\<lambda>k. truthy (fm_v3 f k)) OWN_V3"
    by (rule filter_cong) (auto simp: e split: if_splits)
  then show ?thesis unfolding own_v3_def by (auto simp: e)
qed

lemma saved_fields:
  "fget (handleSave address f) ''port'' = (if fm_enabled f ''port'' \<and> fm_local f ''port'' \<noteq> JStr [] \<and> portOf address = None then as_number (fm_local f ''port'') else JUndef)"
  "fget (handleSave address f) ''timeout'' = (if fm_enabled f ''timeout'' \<and> fm_local f ''timeout'' \<noteq> JStr [] then as_number (fm_local f ''timeout'') else JUndef)"
  "fget (handleSave address f) ''retries'' = (if fm_enabled f ''retries'' \<and> fm_local f ''retries'' \<noteq> JStr [] then as_number (fm_local f ''retries'') else JUndef)"
  by (simp_all add: handleSave_def transport_def ownIdentity_def)

lemma saved_identity:
  "fget (handleSave address f) ''profile'' = (if fm_identity f \<noteq> ''custom'' \<and> fm_identity f \<noteq> ''default'' then JStr (fm_identity f) else JUndef)"
  "k \<in> {''community'', ''snmpVersion''} \<Longrightarrow> fget (handleSave address f) k =
     (if fm_identity f = ''custom'' \<and> fm_enabled f k \<and> truthy (fm_local f k) then fm_local f k else JUndef)"
  "fget (handleSave address f) ''v3'' = (if fm_identity f = ''custom'' \<and> fm_enabled f ''v3'' \<and> own_v3 f \<noteq> [] then JObj (own_v3 f) else JUndef)"
proof -
  show "k \<in> {''community'', ''snmpVersion''} \<Longrightarrow> fget (handleSave address f) k =
     (if fm_identity f = ''custom'' \<and> fm_enabled f k \<and> truthy (fm_local f k) then fm_local f k else JUndef)"
    by (elim insertE emptyE; hypsubst; simp add: handleSave_def transport_def ownIdentity_def)
qed (simp_all add: handleSave_def transport_def ownIdentity_def)

lemma number_again:
  assumes "s = (if b then as_number v else JUndef)" "b \<Longrightarrow> number_field v \<and> v \<noteq> JStr [] \<and> c"
  shows "keep (s \<noteq> JUndef \<and> coalesce s (JStr []) \<noteq> JStr [] \<and> c) k (as_number (coalesce s (JStr []))) = keep b k (as_number v)"
proof (cases b)
  case True
  then have v: "number_field v" "v \<noteq> JStr []" c using assms(2) by blast+
  have s: "s = as_number v" using assms(1) True by simp
  show ?thesis unfolding s using as_number_again[OF v(1,2)] True v(3) by simp
qed (simp add: assms(1) keep_def)

lemma transport_again:
  assumes "form_ok settings f"
  shows "transport address (open_form settings (JObj (handleSave address f))) = transport address f"
proof -
  let ?g = "open_form settings (JObj (handleSave address f))"
  have g: "fm_enabled ?g k = (fget (handleSave address f) k \<noteq> JUndef)" "fm_local ?g k = coalesce (fget (handleSave address f) k) (JStr [])" for k
    by (simp_all add: open_form_def)
  note p = number_again[OF saved_fields(1)[of address f], of "portOf address = None" "''port''"]
  note t = number_again[OF saved_fields(2)[of address f], of True "''timeout''"]
  note r = number_again[OF saved_fields(3)[of address f], of True "''retries''"]
  show ?thesis using p t r assms unfolding transport_def g form_ok_def by simp
qed

lemma own_again:
  assumes "fm_identity f = ''custom''"
  shows "ownIdentity (open_form settings (JObj (handleSave address f))) = ownIdentity f"
proof -
  let ?g = "open_form settings (JObj (handleSave address f))"
  have l: "fm_enabled ?g k \<and> truthy (fm_local ?g k) \<longleftrightarrow> fm_enabled f k \<and> truthy (fm_local f k)"
    "fm_enabled f k \<and> truthy (fm_local f k) \<Longrightarrow> fm_local ?g k = fm_local f k" if "k \<in> {''community'', ''snmpVersion''}" for k
    using that assms truthy_not_nullish[of "fm_local f k"] by (auto simp: open_form_def saved_identity(2)[OF that] coalesce_def nullish_def)
  have v: "own_v3 ?g = own_v3 f" if "fm_enabled f ''v3'' \<and> own_v3 f \<noteq> []"
    using that assms by (intro own_v3_again) (simp add: open_form_def saved_identity(3) fun_eq_iff)
  have e: "fm_enabled ?g ''v3'' \<longleftrightarrow> fm_enabled f ''v3'' \<and> own_v3 f \<noteq> []"
    using assms by (simp add: open_form_def saved_identity(3))
  have "keep (fm_enabled ?g k \<and> truthy (fm_local ?g k)) k (fm_local ?g k) = keep (fm_enabled f k \<and> truthy (fm_local f k)) k (fm_local f k)"
    if "k \<in> {''community'', ''snmpVersion''}" for k
    using l[OF that] by (auto simp: keep_def)
  then have c: "keep (fm_enabled ?g ''community'' \<and> truthy (fm_local ?g ''community'')) ''community'' (fm_local ?g ''community'') =
      keep (fm_enabled f ''community'' \<and> truthy (fm_local f ''community'')) ''community'' (fm_local f ''community'')"
    "keep (fm_enabled ?g ''snmpVersion'' \<and> truthy (fm_local ?g ''snmpVersion'')) ''snmpVersion'' (fm_local ?g ''snmpVersion'') =
      keep (fm_enabled f ''snmpVersion'' \<and> truthy (fm_local f ''snmpVersion'')) ''snmpVersion'' (fm_local f ''snmpVersion'')" by blast+
  have "keep (fm_enabled ?g ''v3'' \<and> own_v3 ?g \<noteq> []) ''v3'' (JObj (own_v3 ?g)) = keep (fm_enabled f ''v3'' \<and> own_v3 f \<noteq> []) ''v3'' (JObj (own_v3 f))"
    using v e by (auto simp: keep_def)
  with c show ?thesis unfolding ownIdentity_def by simp
qed

text \<open>The form opens on the identity that was saved; an own identity with nothing in it is the default one.\<close>

lemma identity_again:
  assumes "form_ok settings f"
  shows "fm_identity (open_form settings (JObj (handleSave address f))) = fm_identity f \<or>
    fm_identity f = ''custom'' \<and> ownIdentity f = [] \<and> fm_identity (open_form settings (JObj (handleSave address f))) = ''default''"
proof (cases "fm_identity f = ''custom'' \<or> fm_identity f = ''default''")
  case True
  have "findProfile settings JUndef = None" by (simp add: findProfile_def)
  then show ?thesis using True truthy_not_nullish
    by (auto simp: open_form_def saved_identity hasCustomCredentials_def ownIdentity_def keep_def)
next
  case False
  then show ?thesis using assms by (auto simp: open_form_def saved_identity form_ok_def)
qed

lemma cleaned_keep: "cleaned (keep b k v @ fs) = (if b \<and> (nullish v \<or> v = JStr []) then [] else keep b k v) @ cleaned fs"
  by (auto simp: cleaned_def keep_def)

lemma cleaned_nil: "cleaned [] = []" by (simp add: cleaned_def)

lemma saved_is_clean:
  assumes "form_ok settings f"
  shows "cleaned (handleSave address f) = handleSave address f"
proof -
  have n: "\<not> nullish (as_number v) \<and> as_number v \<noteq> JStr []" if "number_field v" "v \<noteq> JStr []" for v
    using that by (auto simp: number_field_def as_number_def nullish_def)
  have "keep (b \<and> v \<noteq> JStr []) k (as_number v) = keep (b \<and> v \<noteq> JStr []) k (as_number v)" for b v k by simp
  have t: "list_all (\<lambda>(k, v). \<not> nullish v \<and> v \<noteq> JStr []) (transport address f)"
    using assms n by (auto simp: transport_def keep_def form_ok_def)
  have o: "list_all (\<lambda>(k, v). \<not> nullish v \<and> v \<noteq> JStr []) (ownIdentity f)"
    by (auto simp: ownIdentity_def keep_def nullish_def)
  have "fm_identity f \<noteq> []" using assms by (auto simp: form_ok_def findProfile_def)
  then have "list_all (\<lambda>(k, v). \<not> nullish v \<and> v \<noteq> JStr []) (handleSave address f)"
    using t o by (auto simp: handleSave_def nullish_def)
  then show ?thesis unfolding cleaned_def by (simp add: filter_id_conv list_all_iff)
qed

text \<open>
  C30. What the form of a target saves, the target manager keeps as it is, and the form opened on it
  and saved again saves the same.
\<close>

theorem saved_form_reopens:
  assumes "form_ok settings f"
  shows "cleaned (handleSave address f) = handleSave address f \<and>
    handleSave address (open_form settings (JObj (handleSave address f))) = handleSave address f"
proof -
  let ?g = "open_form settings (JObj (handleSave address f))"
  have "handleSave address ?g = handleSave address f"
    using identity_again[OF assms, of address]
  proof
    assume "fm_identity ?g = fm_identity f"
    then show ?thesis using transport_again[OF assms, of address] own_again[of f settings address]
      unfolding handleSave_def[of address ?g] by (simp only: handleSave_def[of address f, symmetric] if_True refl) (simp add: handleSave_def[of address f])
  next
    assume "fm_identity f = ''custom'' \<and> ownIdentity f = [] \<and> fm_identity ?g = ''default''"
    then show ?thesis using transport_again[OF assms, of address] by (simp add: handleSave_def[of address ?g]) (simp add: handleSave_def)
  qed
  with saved_is_clean[OF assms] show ?thesis by blast
qed

definition sample_form :: override_form where
  "sample_form = \<lparr>fm_identity = ''custom'', fm_local = (\<lambda>k. if k = ''port'' then JNum 1161 else JStr ''x''), fm_v3 = (\<lambda>k. JStr []), fm_enabled = (\<lambda>k. k \<noteq> ''timeout'')\<rparr>"

theorem saved_form_reopens_witness:
  "handleSave ''a'' (open_form (JObj []) (JObj (handleSave ''a'' (sample_form\<lparr>fm_local := (\<lambda>k. JNum 1)\<rparr>)))) =
   handleSave ''a'' (sample_form\<lparr>fm_local := (\<lambda>k. JNum 1)\<rparr>)"
proof -
  have "form_ok (JObj []) (sample_form\<lparr>fm_local := (\<lambda>k. JNum 1)\<rparr>)" by (simp add: form_ok_def sample_form_def number_field_def)
  from saved_form_reopens[OF this] show ?thesis by blast
qed

text \<open>A number field that was emptied holds \<open>null\<close>, and a port of zero is saved and asked.\<close>

lemma emptied_port_is_zero:
  assumes "fm_enabled f ''port''" "fm_local f ''port'' = JNull" "portOf address = None"
  shows "fget (handleSave address f) ''port'' = JNum 0"
  using assms by (simp add: saved_fields as_number_def)

end
