(* ===== verification/History_View.thy ===== *)
theory History_View
  imports Results_View Live_Feeds
begin

text \<open>
  The history of operations: the scripts of \<open>frontend/src/HistoryPanel.svelte\<close>,
  \<open>history/HistoryEntry.svelte\<close> and \<open>DiffModal.svelte\<close>. Entries are the objects of the history store.
  \<open>text_of\<close> is \<open>String\<close>, \<open>hide\<close> the label of an address in anonymous mode, and
  \<open>localeCompare\<close>, \<open>JSON.stringify\<close> and the answers of the bridge are arguments; scrolling to an entry
  is the browser's. The lemmas show that the pages are the filtered list, that an entry asked for is on the page
  shown, and what the comparison of two walks lists.
\<close>

section \<open>Reading an entry\<close>

definition entry_text :: "string \<Rightarrow> jsval \<Rightarrow> string" where
  "entry_text k e = str (jget e k)"

definition entry_targets :: "jsval \<Rightarrow> string list" where
  "entry_targets e = map str (elems (jget e ''targets''))"

definition entry_results :: "jsval \<Rightarrow> jsval list" where
  "entry_results e = elems (jget e ''results'')"

definition result_value :: "jsval \<Rightarrow> jsval" where
  "result_value r = jget (jget r ''result'') ''value''"

definition countEntryResults :: "jsval \<Rightarrow> nat" where
  "countEntryResults e = sum_list (map (\<lambda>r. if truthy (jget r ''error'') then 0
     else if is_array (result_value r) then length (elems (result_value r))
     else if truthy (jget r ''result'') then 1 else 0) (entry_results e))"

definition getDisplayName :: "string \<Rightarrow> mib_node list \<Rightarrow> string" where
  "getDisplayName oid tree = (case findMibNameByOid oid tree of Some (c # cs) \<Rightarrow> c # cs | _ \<Rightarrow> oid)"

section \<open>Filter and order\<close>

record history_filter =
  hf_operation :: string
  hf_status :: string
  hf_search :: string
  hf_sortKey :: string
  hf_sortAsc :: bool

definition entry_matches :: "history_filter \<Rightarrow> jsval \<Rightarrow> bool" where
  "entry_matches f e \<longleftrightarrow>
     (hf_operation f = ''all'' \<or> jget e ''operation'' = JStr (hf_operation f)) \<and>
     (hf_status f = ''success'' \<longrightarrow> truthy (jget e ''success'')) \<and> (hf_status f = ''error'' \<longrightarrow> \<not> truthy (jget e ''success'')) \<and>
     (hf_search f = [] \<or> (let holds = (\<lambda>s. has_text (toLowerCase s) (toLowerCase (hf_search f))) in
        jget e ''oid'' = JStr (entry_text ''oid'' e) \<and> holds (entry_text ''oid'' e) \<or> list_ex holds (entry_targets e) \<or>
        jget e ''operation'' = JStr (entry_text ''operation'' e) \<and> holds (entry_text ''operation'' e) \<or>
        jget e ''error'' = JStr (entry_text ''error'' e) \<and> holds (entry_text ''error'' e)))"

definition number_or_zero :: "jsval \<Rightarrow> rat" where
  "number_or_zero v = (case jor v (JNum 0) of JNum q \<Rightarrow> q | _ \<Rightarrow> 0)"

definition compareEntries :: "(string \<Rightarrow> string \<Rightarrow> int) \<Rightarrow> (jsval \<Rightarrow> string) \<Rightarrow> string \<Rightarrow> jsval \<Rightarrow> jsval \<Rightarrow> int" where
  "compareEntries localeCompare text_of key a b =
     (if key = ''operation'' then localeCompare (entry_text ''operation'' a) (entry_text ''operation'' b)
      else if key = ''target'' then localeCompare (case entry_targets a of t # r \<Rightarrow> t | [] \<Rightarrow> []) (case entry_targets b of t # r \<Rightarrow> t | [] \<Rightarrow> [])
      else if key = ''duration'' then sign_of (Some (number_or_zero (jget a ''duration'') - number_or_zero (jget b ''duration'')))
      else if key = ''status'' then (if jget a ''success'' = jget b ''success'' then 0 else if truthy (jget a ''success'') then 1 else -1)
      else localeCompare (text_of (jget a ''timestamp'')) (text_of (jget b ''timestamp'')))"

definition filteredHistory ::
  "(string \<Rightarrow> string \<Rightarrow> int) \<Rightarrow> (jsval \<Rightarrow> string) \<Rightarrow> history_filter \<Rightarrow> jsval list \<Rightarrow> jsval list" where
  "filteredHistory localeCompare text_of f history =
     stable_sort (\<lambda>a b. (if hf_sortAsc f then 1 else -1) * compareEntries localeCompare text_of (hf_sortKey f) a b)
       (filter (entry_matches f) history)"

definition toggleSort :: "string \<Rightarrow> history_filter \<Rightarrow> history_filter" where
  "toggleSort key f = (if hf_sortKey f = key then f\<lparr>hf_sortAsc := \<not> hf_sortAsc f\<rparr>
     else f\<lparr>hf_sortKey := key, hf_sortAsc := (key \<noteq> ''timestamp'')\<rparr>)"

section \<open>Pages\<close>

definition PAGE_SIZE :: nat where "PAGE_SIZE = 20"

definition totalPages :: "'a list \<Rightarrow> nat" where
  "totalPages xs = max 1 ((length xs + PAGE_SIZE - 1) div PAGE_SIZE)"

definition current_page :: "nat \<Rightarrow> 'a list \<Rightarrow> nat" where
  "current_page page xs = (if page > totalPages xs then totalPages xs else page)"

definition pagedHistory :: "nat \<Rightarrow> 'a list \<Rightarrow> 'a list" where
  "pagedHistory page xs = slice xs ((page - 1) * PAGE_SIZE) (page * PAGE_SIZE)"

section \<open>The panel\<close>

record history_panel =
  hp_page :: nat
  hp_expanded :: "string list"
  hp_flash :: "string option"
  hp_cache :: fields
  hp_diffMode :: bool
  hp_diffA :: "jsval option"
  hp_diffB :: "jsval option"
  hp_showDiff :: bool
  hp_selectMode :: bool
  hp_selected :: "jsval list"
  hp_scope :: string
  hp_showExport :: bool
  hp_highlight :: "string option"

definition entry_id :: "jsval \<Rightarrow> jsval" where "entry_id e = jget e ''id''"

definition add_once :: "'a \<Rightarrow> 'a list \<Rightarrow> 'a list" where
  "add_once x xs = (if x \<in> set xs then xs else xs @ [x])"

definition index_of_entry :: "string \<Rightarrow> jsval list \<Rightarrow> nat option" where
  "index_of_entry i list = List.find (\<lambda>k. entry_id (list ! k) = JStr i) [0..<length list]"

text \<open>An entry that is not in the list keeps its request for a later try; the parent clears it otherwise.\<close>

definition revealEntry :: "string \<Rightarrow> jsval list \<Rightarrow> history_panel \<Rightarrow> history_panel" where
  "revealEntry i list p = (case index_of_entry i list of None \<Rightarrow> p
     | Some k \<Rightarrow> p\<lparr>hp_page := k div PAGE_SIZE + 1, hp_expanded := add_once i (hp_expanded p), hp_flash := Some i, hp_highlight := None\<rparr>)"

definition flash_over :: "string \<Rightarrow> history_panel \<Rightarrow> history_panel" where
  "flash_over i p = (if hp_flash p = Some i then p\<lparr>hp_flash := None\<rparr> else p)"

definition toggleExpand :: "string \<Rightarrow> history_panel \<Rightarrow> history_panel" where
  "toggleExpand i p = p\<lparr>hp_expanded := (if i \<in> set (hp_expanded p) then removeAll i (hp_expanded p) else hp_expanded p @ [i])\<rparr>"

text \<open>The OIDs of an entry whose names are not known yet.\<close>

definition entry_oids :: "jsval \<Rightarrow> jsval list" where
  "entry_oids e = dedup ((if truthy (jget e ''oid'') then [jget e ''oid''] else []) @
     concat (map (\<lambda>r. if is_array (result_value r) then filter truthy (map (\<lambda>i. jget i ''oid'') (elems (result_value r)))
       else if truthy (jget (jget r ''result'') ''oid'') then [jget (jget r ''result'') ''oid''] else []) (entry_results e)))"

definition resolveEntryOidsById :: "string \<Rightarrow> jsval list \<Rightarrow> history_panel \<Rightarrow> jsval list" where
  "resolveEntryOidsById ident history p = (case List.find (\<lambda>e. entry_id e = JStr ident) history of None \<Rightarrow> []
     | Some e \<Rightarrow> filter (\<lambda>i. str i \<notin> fst ` set (hp_cache p)) (entry_oids e))"

definition names_resolved :: "fields \<Rightarrow> history_panel \<Rightarrow> history_panel" where
  "names_resolved answer p = p\<lparr>hp_cache := spread (hp_cache p) answer\<rparr>"

section \<open>Comparing and selecting\<close>

definition isDiffEligible :: "jsval \<Rightarrow> bool" where
  "isDiffEligible e \<longleftrightarrow> jget e ''operation'' = JStr ''WALK'' \<or> jget e ''operation'' = JStr ''GETBULK''"

definition holds_entry :: "jsval option \<Rightarrow> jsval \<Rightarrow> bool" where
  "holds_entry slot e \<longleftrightarrow> (case slot of Some a \<Rightarrow> entry_id a = entry_id e | None \<Rightarrow> False)"

definition toggleDiffSelection :: "jsval \<Rightarrow> history_panel \<Rightarrow> history_panel" where
  "toggleDiffSelection e p =
     (if \<not> isDiffEligible e then p
      else if holds_entry (hp_diffA p) e then p\<lparr>hp_diffA := None\<rparr>
      else if holds_entry (hp_diffB p) e then p\<lparr>hp_diffB := None\<rparr>
      else if hp_diffA p = None then p\<lparr>hp_diffA := Some e\<rparr>
      else if hp_diffB p = None then p\<lparr>hp_diffB := Some e\<rparr>
      else p)"

definition isDiffSelected :: "jsval \<Rightarrow> history_panel \<Rightarrow> bool" where
  "isDiffSelected e p \<longleftrightarrow> holds_entry (hp_diffA p) e \<or> holds_entry (hp_diffB p) e"

definition openDiff :: "history_panel \<Rightarrow> history_panel" where
  "openDiff p = (if hp_diffA p \<noteq> None \<and> hp_diffB p \<noteq> None then p\<lparr>hp_showDiff := True\<rparr> else p)"

definition enterDiffMode :: "history_panel \<Rightarrow> history_panel" where
  "enterDiffMode p = p\<lparr>hp_diffMode := True, hp_selectMode := False, hp_selected := []\<rparr>"

definition exitDiffMode :: "history_panel \<Rightarrow> history_panel" where
  "exitDiffMode p = p\<lparr>hp_diffMode := False, hp_diffA := None, hp_diffB := None\<rparr>"

definition enterSelectMode :: "history_panel \<Rightarrow> history_panel" where
  "enterSelectMode p = exitDiffMode (p\<lparr>hp_selectMode := True\<rparr>)"

definition exitSelectMode :: "history_panel \<Rightarrow> history_panel" where
  "exitSelectMode p = p\<lparr>hp_selectMode := False, hp_selected := []\<rparr>"

definition toggleSelect :: "jsval \<Rightarrow> history_panel \<Rightarrow> history_panel" where
  "toggleSelect i p = p\<lparr>hp_selected := (if i \<in> set (hp_selected p) then removeAll i (hp_selected p) else hp_selected p @ [i])\<rparr>"

definition selectAllFiltered :: "jsval list \<Rightarrow> history_panel \<Rightarrow> history_panel" where
  "selectAllFiltered list p = p\<lparr>hp_selected := dedup (map entry_id list)\<rparr>"

definition clearSelection :: "history_panel \<Rightarrow> history_panel" where
  "clearSelection p = p\<lparr>hp_selected := []\<rparr>"

text \<open>The ids to remove from the store, if any.\<close>

definition deleteSelected :: "hist \<Rightarrow> history_panel \<Rightarrow> hist \<times> history_panel" where
  "deleteSelected h p = (if hp_selected p = [] then (h, p) else (hist_removeMany (hp_selected p) h, p\<lparr>hp_selected := []\<rparr>))"

definition openExport :: "string \<Rightarrow> history_panel \<Rightarrow> history_panel" where
  "openExport scope p = p\<lparr>hp_scope := scope, hp_showExport := True\<rparr>"

section \<open>Exporting\<close>

definition entriesForScope :: "string \<Rightarrow> jsval list \<Rightarrow> jsval list \<Rightarrow> jsval list \<Rightarrow> jsval list" where
  "entriesForScope scope all filtered sel =
     (if scope = ''selected'' then filter (\<lambda>e. entry_id e \<in> set sel) all else if scope = ''filtered'' then filtered else all)"

definition single_op :: "jsval \<Rightarrow> bool" where
  "single_op e \<longleftrightarrow> jget e ''operation'' \<in> {JStr ''GET'', JStr ''SET'', JStr ''GETNEXT''}"

definition first_result_value :: "jsval \<Rightarrow> jsval" where
  "first_result_value e = (case entry_results e of r # rs \<Rightarrow> result_value r | [] \<Rightarrow> JUndef)"

definition node_info :: "string \<Rightarrow> mib_node list \<Rightarrow> jsval" where
  "node_info oid tree = (case findNodeByOid oid tree of Some (n, ups) \<Rightarrow> JObj (nd_fields n) | None \<Rightarrow> JNull)"

definition entry_total :: "jsval \<Rightarrow> rat" where
  "entry_total e = (case coalesce (jget e ''totalResults'') (JNum (of_nat (countEntryResults e))) of JNum q \<Rightarrow> q | _ \<Rightarrow> 0)"

text \<open>\<open>formatted\<close> is \<open>formatValueWithEnum\<close> without a type.\<close>

definition exportValueCell :: "(jsval \<Rightarrow> jsval \<Rightarrow> string) \<Rightarrow> mib_node list \<Rightarrow> jsval \<Rightarrow> string" where
  "exportValueCell formatted tree e =
     (let v = first_result_value e in
      if truthy (jget e ''error'') then []
      else if single_op e \<and> v \<noteq> JUndef \<and> \<not> is_array v then formatted v (node_info (entry_text ''oid'' e) tree)
      else if entry_total e > 0 then show_num (entry_total e) else [])"

definition SEMICOLON :: string where "SEMICOLON = ''; ''"

definition cell_or_empty :: "(jsval \<Rightarrow> string) \<Rightarrow> jsval \<Rightarrow> string" where
  "cell_or_empty text_of v = (if nullish v then [] else text_of v)"

definition CSV_COLUMNS :: "string list" where
  "CSV_COLUMNS = [''timestamp'', ''operation'', ''targets'', ''oid'', ''name'', ''value'', ''version'', ''durationMs'', ''success'', ''error'']"

definition entry_cells :: "(jsval \<Rightarrow> string) \<Rightarrow> (jsval \<Rightarrow> jsval \<Rightarrow> string) \<Rightarrow> mib_node list \<Rightarrow> jsval \<Rightarrow> string list" where
  "entry_cells text_of formatted tree e =
     [cell_or_empty text_of (jget e ''timestamp''), cell_or_empty text_of (jget e ''operation''), join_text SEMICOLON (entry_targets e),
      entry_text ''oid'' e, getDisplayName (entry_text ''oid'' e) tree, exportValueCell formatted tree e, entry_text ''version'' e,
      cell_or_empty text_of (jget e ''duration''), if truthy (jget e ''success'') then ''true'' else ''false'', entry_text ''error'' e]"

definition toCsv :: "(jsval \<Rightarrow> string) \<Rightarrow> (jsval \<Rightarrow> jsval \<Rightarrow> string) \<Rightarrow> mib_node list \<Rightarrow> jsval list \<Rightarrow> string" where
  "toCsv text_of formatted tree listed =
     join_text [CR, NL] (join_with CHR '','' CSV_COLUMNS # map (csv_line \<circ> entry_cells text_of formatted tree) listed)"

definition anonymizeEntry :: "(string \<Rightarrow> string) \<Rightarrow> jsval \<Rightarrow> jsval" where
  "anonymizeEntry hide e =
     (let out = jset ''targets'' (JArr (map (JStr \<circ> hide) (entry_targets e))) e in
      if is_array (jget e ''results'')
      then jset ''results'' (JArr (map (\<lambda>r. if truthy r \<and> truthy (jget r ''target'')
             then jset ''target'' (JStr (hide (str (jget r ''target'')))) r else r) (entry_results e))) out
      else out)"

definition buildExportData ::
  "(string \<Rightarrow> string) \<Rightarrow> (jsval list \<Rightarrow> string) \<Rightarrow> (jsval list \<Rightarrow> string) \<Rightarrow> string \<Rightarrow> string \<Rightarrow> jsval list \<Rightarrow> jsval list \<Rightarrow> jsval list \<Rightarrow> bool \<Rightarrow> string" where
  "buildExportData hide csv json scope format all filtered sel anon =
     (let listed = entriesForScope scope all filtered sel; listed = (if anon then map (anonymizeEntry hide) listed else listed)
      in if format = ''csv'' then csv listed else json listed)"

section \<open>One entry on screen\<close>

definition getDisplayValue :: "(jsval \<Rightarrow> jsval \<Rightarrow> string) \<Rightarrow> (rat \<Rightarrow> string) \<Rightarrow> mib_node list \<Rightarrow> jsval \<Rightarrow> string option" where
  "getDisplayValue formatted count_text tree e =
     (let v = first_result_value e in
      if entry_results e = [] then None
      else if single_op e \<and> v \<noteq> JUndef \<and> \<not> is_array v then Some (formatted v (node_info (entry_text ''oid'' e) tree))
      else if entry_total e > 0 then Some (count_text (entry_total e)) else None)"

record badge =
  bd_text :: string
  bd_kind :: string
  bd_title :: string

definition getValueBadge :: "(jsval \<Rightarrow> jsval \<Rightarrow> string) \<Rightarrow> (rat \<Rightarrow> string) \<Rightarrow> string \<Rightarrow> string \<Rightarrow> mib_node list \<Rightarrow> jsval \<Rightarrow> badge" where
  "getValueBadge formatted count_text error_text empty_text tree e =
     (if \<not> truthy (jget e ''success'')
      then \<lparr>bd_text = error_text, bd_kind = ''error'', bd_title = (if truthy (jget e ''error'') then entry_text ''error'' e else error_text)\<rparr>
      else case getDisplayValue formatted count_text tree e of
        Some (c # cs) \<Rightarrow> \<lparr>bd_text = c # cs, bd_kind = ''value'', bd_title = c # cs\<rparr>
      | _ \<Rightarrow> \<lparr>bd_text = empty_text, bd_kind = ''empty'', bd_title = []\<rparr>)"

section \<open>The difference of two walks\<close>

record diff_cell =
  dc_value :: string
  dc_type :: jsval

definition diff_items :: "jsval \<Rightarrow> jsval list" where
  "diff_items r = (let res = jget r ''result'' in
     if truthy (jget r ''error'') \<or> \<not> truthy res then []
     else if jget res ''type'' = JStr ''WalkResponse'' \<or> jget res ''type'' = JStr ''GetBulkResponse'' then elems (jget res ''value'')
     else [res])"

definition value_text :: "(jsval \<Rightarrow> string) \<Rightarrow> jsval \<Rightarrow> string" where
  "value_text json v = (case v of JStr s \<Rightarrow> s | _ \<Rightarrow> json v)"

definition buildOidMap :: "(jsval \<Rightarrow> string) \<Rightarrow> jsval \<Rightarrow> (string \<times> diff_cell) list" where
  "buildOidMap json e = foldl (\<lambda>m i. AList.update (str (jget i ''oid'')) \<lparr>dc_value = value_text json (jget i ''value''), dc_type = jget i ''type''\<rparr> m)
     [] (concat (map diff_items (entry_results e)))"

definition oid_segments :: "string \<Rightarrow> rat option list" where
  "oid_segments oid = map (\<lambda>s. number_of (JStr s)) (split_on DOT oid)"

record diff_row =
  df_oid :: string
  df_valueA :: string
  df_valueB :: string
  df_status :: string

definition diff_status :: "diff_cell option \<Rightarrow> diff_cell option \<Rightarrow> string" where
  "diff_status a b = (case (a, b) of
     (Some x, Some y) \<Rightarrow> if dc_value x = dc_value y then ''identical'' else ''modified''
   | (Some x, None) \<Rightarrow> ''removed'' | _ \<Rightarrow> ''added'')"

definition cell_text_of :: "diff_cell option \<Rightarrow> string" where
  "cell_text_of c = (case c of Some x \<Rightarrow> dc_value x | None \<Rightarrow> [])"

definition diffRows :: "(string \<times> diff_cell) list \<Rightarrow> (string \<times> diff_cell) list \<Rightarrow> diff_row list" where
  "diffRows mapA mapB =
     map (\<lambda>oid. \<lparr>df_oid = oid, df_valueA = cell_text_of (map_of mapA oid), df_valueB = cell_text_of (map_of mapB oid),
                 df_status = diff_status (map_of mapA oid) (map_of mapB oid)\<rparr>)
       (stable_sort (\<lambda>a b. sign_of (compare_segments (oid_segments a) (oid_segments b))) (dedup (map fst mapA @ map fst mapB)))"

definition visibleRows :: "bool \<Rightarrow> diff_row list \<Rightarrow> diff_row list" where
  "visibleRows showIdentical rows = (if showIdentical then rows else filter (\<lambda>r. df_status r \<noteq> ''identical'') rows)"

definition diff_stats :: "string \<Rightarrow> diff_row list \<Rightarrow> nat" where
  "diff_stats status rows = length (filter (\<lambda>r. df_status r = status) rows)"

definition exportDiffCSV :: "bool \<Rightarrow> diff_row list \<Rightarrow> string" where
  "exportDiffCSV showIdentical rows = join_with NL (''Status,OID,Value A,Value B'' #
     map (\<lambda>r. df_status r @ '','' @ csv_line [df_oid r, df_valueA r, df_valueB r]) (visibleRows showIdentical rows))"

section \<open>The pages are the list\<close>

lemma slices_join: "concat (map (\<lambda>k. take n (drop (k * n) xs)) [0..<m]) = take (m * n) xs"
proof (induction m)
  case (Suc m)
  have "take (Suc m * n) xs = take (m * n) xs @ take n (drop (m * n) xs)" by (metis add.commute mult_Suc take_add)
  with Suc show ?case by simp
qed simp

lemma page_slice: "0 < page \<Longrightarrow> pagedHistory page xs = take PAGE_SIZE (drop ((page - 1) * PAGE_SIZE) xs)"
  by (cases page) (simp_all add: pagedHistory_def slice_def)

lemma pages_cover: "length xs \<le> totalPages xs * PAGE_SIZE"
proof -
  have "length xs \<le> (length xs + 19) div 20 * 20" by linarith
  moreover have "(length xs + 19) div 20 * 20 \<le> totalPages xs * 20" by (simp add: totalPages_def PAGE_SIZE_def)
  ultimately have "length xs \<le> totalPages xs * 20" by linarith
  then show ?thesis by (simp add: PAGE_SIZE_def)
qed

lemma find_index:
  assumes "index_of_entry i xs = Some k"
  shows "k < length xs \<and> entry_id (xs ! k) = JStr i"
  using assms by (auto simp: index_of_entry_def find_Some_iff)

text \<open>
  C31. The pages one after the other are the filtered history, none is longer than twenty entries, and the
  page shown is always one of them. An entry that is asked for and is in the list is on the page shown,
  and is open.
\<close>

theorem pages_are_the_list:
  "concat (map (\<lambda>k. pagedHistory (Suc k) xs) [0..<totalPages xs]) = xs \<and>
   length (pagedHistory page xs) \<le> PAGE_SIZE \<and>
   (1 \<le> page \<longrightarrow> 1 \<le> current_page page xs \<and> current_page page xs \<le> totalPages xs) \<and>
   (list_ex (\<lambda>e. entry_id e = JStr i) hist \<longrightarrow>
     (let p' = revealEntry i hist p in
      list_ex (\<lambda>e. entry_id e = JStr i) (pagedHistory (hp_page p') hist) \<and> hp_page p' \<le> totalPages hist \<and> i \<in> set (hp_expanded p')))"
proof -
  have "concat (map (\<lambda>k. pagedHistory (Suc k) xs) [0..<totalPages xs]) = xs"
    using slices_join[of PAGE_SIZE xs "totalPages xs"] pages_cover[of xs] by (simp add: page_slice)
  moreover have "length (pagedHistory page xs) \<le> PAGE_SIZE"
    by (cases page) (simp_all add: pagedHistory_def slice_def)
  moreover have "1 \<le> page \<longrightarrow> 1 \<le> current_page page xs \<and> current_page page xs \<le> totalPages xs"
  proof -
    have "1 \<le> totalPages xs" by (simp add: totalPages_def)
    then show ?thesis by (auto simp: current_page_def)
  qed
  moreover have "let p' = revealEntry i hist p in
      list_ex (\<lambda>e. entry_id e = JStr i) (pagedHistory (hp_page p') hist) \<and> hp_page p' \<le> totalPages hist \<and> i \<in> set (hp_expanded p')"
    if h: "list_ex (\<lambda>e. entry_id e = JStr i) hist"
  proof -
    have "index_of_entry i hist \<noteq> None"
    proof
      assume "index_of_entry i hist = None"
      then have "\<forall>k < length hist. entry_id (hist ! k) \<noteq> JStr i" by (auto simp: index_of_entry_def find_None_iff)
      with h show False by (auto simp: list_ex_iff in_set_conv_nth)
    qed
    then obtain k where k: "index_of_entry i hist = Some k" by blast
    note kk = find_index[OF k]
    define q r where "q = k div PAGE_SIZE" and "r = k mod PAGE_SIZE"
    have m: "k = q * PAGE_SIZE + r" "r < PAGE_SIZE" by (simp_all add: q_def r_def PAGE_SIZE_def)
    have "drop (q * PAGE_SIZE) hist ! r = hist ! k" using m kk by simp
    moreover have "r < length (drop (q * PAGE_SIZE) hist)" unfolding length_drop using m kk by linarith
    ultimately have "hist ! k \<in> set (take PAGE_SIZE (drop (q * PAGE_SIZE) hist))"
      using m(2) by (metis in_set_conv_nth length_take min_less_iff_conj nth_take)
    then have on: "list_ex (\<lambda>e. entry_id e = JStr i) (pagedHistory (q + 1) hist)" using kk by (auto simp: page_slice list_ex_iff)
    have "q * PAGE_SIZE < totalPages hist * PAGE_SIZE" using m(1) kk pages_cover[of hist] by linarith
    then have "q < totalPages hist" by simp
    with on show ?thesis by (simp add: revealEntry_def k Let_def add_once_def q_def)
  qed
  ultimately show ?thesis by blast
qed

definition two_entries :: "jsval list" where
  "two_entries = [JObj [(''id'', JStr ''a'')], JObj [(''id'', JStr ''b'')]]"

definition idle_panel :: history_panel where
  "idle_panel = \<lparr>hp_page = 1, hp_expanded = [], hp_flash = None, hp_cache = [], hp_diffMode = False, hp_diffA = None, hp_diffB = None,
     hp_showDiff = False, hp_selectMode = False, hp_selected = [], hp_scope = ''all'', hp_showExport = False, hp_highlight = Some ''b''\<rparr>"

theorem pages_are_the_list_witness: "''b'' \<in> set (hp_expanded (revealEntry ''b'' two_entries idle_panel))"
  using pages_are_the_list[of two_entries 1 "''b''" two_entries idle_panel] by (simp add: two_entries_def entry_id_def fget_lookup Let_def)

section \<open>The list is what matches\<close>

lemma filtered_members: "mset (filteredHistory lc text_of f history) = mset (filter (entry_matches f) history)"
  by (simp add: filteredHistory_def mset_stable_sort)

text \<open>Newest first, when the time stamps are compared by a total preorder.\<close>

lemma filtered_sorted:
  assumes "\<And>a b. lc a b \<le> 0 \<or> lc b a \<le> 0" "\<And>a b c. lc a b \<le> 0 \<Longrightarrow> lc b c \<le> 0 \<Longrightarrow> lc a c \<le> 0"
    "hf_sortKey f = ''timestamp''" "hf_sortAsc f"
  shows "sorted_wrt (\<lambda>a b. lc (text_of (jget a ''timestamp'')) (text_of (jget b ''timestamp'')) \<le> 0) (filteredHistory lc text_of f history)"
proof -
  have "compareEntries lc text_of ''timestamp'' = (\<lambda>a b. lc (text_of (jget a ''timestamp'')) (text_of (jget b ''timestamp'')))"
    by (simp add: compareEntries_def fun_eq_iff)
  then show ?thesis unfolding filteredHistory_def assms(3) using assms(4) by simp (rule stable_sort_sorts, (use assms(1,2) in blast)+)
qed

section \<open>One mode at a time\<close>

inductive history_reach :: "history_panel \<Rightarrow> bool" where
  "history_reach idle_panel"
| "history_reach p \<Longrightarrow> history_reach (toggleDiffSelection e p)"
| "history_reach p \<Longrightarrow> history_reach (enterDiffMode p)"
| "history_reach p \<Longrightarrow> history_reach (exitDiffMode p)"
| "history_reach p \<Longrightarrow> history_reach (enterSelectMode p)"
| "history_reach p \<Longrightarrow> history_reach (exitSelectMode p)"
| "history_reach p \<Longrightarrow> history_reach (openDiff p)"
| "history_reach p \<Longrightarrow> history_reach (snd (deleteSelected h p))"
| "history_reach p \<Longrightarrow> history_reach (revealEntry i list p)"
| "history_reach p \<Longrightarrow> history_reach (openExport scope p)"

lemma one_mode:
  "history_reach p \<Longrightarrow> \<not> (hp_diffMode p \<and> hp_selectMode p) \<and>
     (\<forall>a b. hp_diffA p = Some a \<and> hp_diffB p = Some b \<longrightarrow> entry_id a \<noteq> entry_id b)"
proof (induction rule: history_reach.induct)
  case (2 p e)
  then show ?case by (auto simp: toggleDiffSelection_def holds_entry_def split: option.splits)
qed (auto simp: idle_panel_def enterDiffMode_def exitDiffMode_def enterSelectMode_def exitSelectMode_def openDiff_def deleteSelected_def
       revealEntry_def openExport_def split: option.splits)

section \<open>A comparison lists every OID once\<close>

lemma buildOidMap_distinct: "distinct (map fst (buildOidMap json e))"
proof -
  have "distinct (map fst m) \<Longrightarrow> distinct (map fst (foldl (\<lambda>m i. AList.update (str (jget i ''oid''))
      \<lparr>dc_value = value_text json (jget i ''value''), dc_type = jget i ''type''\<rparr> m) m vs))" for m vs
    by (induction vs arbitrary: m) (simp_all add: distinct_update)
  then show ?thesis by (simp add: buildOidMap_def)
qed

text \<open>
  The difference of two walks has one row for every OID of either and no other: removed with the
  first's value when only the first has it, added with the second's when only the second does, and
  otherwise identical exactly when the two values are the same; and the four counts add up to the rows.
\<close>

theorem diff_lists_every_oid:
  "let rows = diffRows mapA mapB in
   distinct (map df_oid rows) \<and> set (map df_oid rows) = fst ` set mapA \<union> fst ` set mapB \<and>
   (\<forall>r \<in> set rows. case (map_of mapA (df_oid r), map_of mapB (df_oid r)) of
      (Some x, None) \<Rightarrow> df_status r = ''removed'' \<and> df_valueA r = dc_value x
    | (None, Some y) \<Rightarrow> df_status r = ''added'' \<and> df_valueB r = dc_value y
    | (Some x, Some y) \<Rightarrow> df_valueA r = dc_value x \<and> df_valueB r = dc_value y \<and>
        df_status r = (if dc_value x = dc_value y then ''identical'' else ''modified'')
    | (None, None) \<Rightarrow> False) \<and>
   diff_stats ''added'' rows + diff_stats ''removed'' rows + diff_stats ''modified'' rows + diff_stats ''identical'' rows = length rows"
proof -
  let ?oids = "stable_sort (\<lambda>a b. sign_of (compare_segments (oid_segments a) (oid_segments b))) (dedup (map fst mapA @ map fst mapB))"
  have m: "mset ?oids = mset (dedup (map fst mapA @ map fst mapB))" by (rule mset_stable_sort)
  have d: "distinct ?oids" using mset_eq_imp_distinct_iff[OF m] by simp
  have s: "set ?oids = fst ` set mapA \<union> fst ` set mapB" by (simp add: set_stable_sort)
  have o: "map df_oid (diffRows mapA mapB) = ?oids" by (simp add: diffRows_def o_def)
  have "case (map_of mapA (df_oid r), map_of mapB (df_oid r)) of
      (Some x, None) \<Rightarrow> df_status r = ''removed'' \<and> df_valueA r = dc_value x
    | (None, Some y) \<Rightarrow> df_status r = ''added'' \<and> df_valueB r = dc_value y
    | (Some x, Some y) \<Rightarrow> df_valueA r = dc_value x \<and> df_valueB r = dc_value y \<and>
        df_status r = (if dc_value x = dc_value y then ''identical'' else ''modified'')
    | (None, None) \<Rightarrow> False" if "r \<in> set (diffRows mapA mapB)" for r
  proof -
    from that obtain oid where oid: "oid \<in> set ?oids" "r = \<lparr>df_oid = oid, df_valueA = cell_text_of (map_of mapA oid),
        df_valueB = cell_text_of (map_of mapB oid), df_status = diff_status (map_of mapA oid) (map_of mapB oid)\<rparr>"
      by (auto simp: diffRows_def)
    have "map_of mapA oid \<noteq> None \<or> map_of mapB oid \<noteq> None" using oid(1) s by (auto simp: map_of_eq_None_iff)
    then show ?thesis unfolding oid(2) by (auto simp: diff_status_def cell_text_of_def split: option.split)
  qed
  moreover have "df_status r \<in> {''added'', ''removed'', ''modified'', ''identical''}" if "r \<in> set (diffRows mapA mapB)" for r
  proof -
    have "diff_status a b \<in> {''added'', ''removed'', ''modified'', ''identical''}" for a b by (simp add: diff_status_def split: option.split)
    moreover from that obtain a b where "df_status r = diff_status a b" by (auto simp: diffRows_def)
    ultimately show ?thesis by simp
  qed
  then have "diff_stats ''added'' rows + diff_stats ''removed'' rows + diff_stats ''modified'' rows + diff_stats ''identical'' rows = length rows"
    if "set rows \<subseteq> set (diffRows mapA mapB)" for rows
    using that by (induction rows) (auto simp: diff_stats_def)
  ultimately show ?thesis using d s o unfolding Let_def by auto
qed

theorem diff_lists_every_oid_witness:
  "set (map df_oid (diffRows [(''1'', \<lparr>dc_value = ''x'', dc_type = JNull\<rparr>)] [(''2'', \<lparr>dc_value = ''y'', dc_type = JNull\<rparr>)])) = {''1'', ''2''}"
  using diff_lists_every_oid[of "[(''1'', \<lparr>dc_value = ''x'', dc_type = JNull\<rparr>)]" "[(''2'', \<lparr>dc_value = ''y'', dc_type = JNull\<rparr>)]"]
  by (simp add: Let_def insert_commute)

text \<open>
  The map of an entry has no room for the target: of two devices that answered the same OID it keeps the
  last, so what changed on the first is not seen.
\<close>

definition walk_entry :: "jsval list \<Rightarrow> jsval" where
  "walk_entry vs = JObj [(''results'', JArr (map (\<lambda>v. JObj [(''result'', JObj [(''type'', JStr ''WalkResponse''),
     (''value'', JArr [JObj [(''oid'', JStr ''1''), (''value'', v)]])])]) vs))]"

lemma first_device_is_not_compared: "buildOidMap json (walk_entry [v, w]) = buildOidMap json (walk_entry [v', w])"
  by (simp add: buildOidMap_def walk_entry_def entry_results_def diff_items_def fget_lookup Let_def)

text \<open>Anonymous mode masks the targets of an entry and leaves the text of its error as it is.\<close>

lemma error_is_not_masked: "jget (anonymizeEntry hide e) ''error'' = jget e ''error''"
  by (simp add: anonymizeEntry_def Let_def)

end
