(* ===== verification/Monitor_Chart.thy ===== *)
theory Monitor_Chart
  imports Text_Metrics Series_View Csv_Export Js_Sort
begin

text \<open>
  The chart of a polled session: the script of \<open>frontend/src/monitor/MonitorChart.svelte\<close> and
  \<open>monitor/chartSync.js\<close>. \<open>shown\<close> is the label of a target (masked in anonymous mode), \<open>name\<close> is
  \<open>oidName\<close> on the tree in use and \<open>to_iso\<close> is \<open>toISOString\<close>, \<open>text_of\<close> is \<open>String\<close>. The chart library is three arguments: the
  scale a chart is laid out with, the window a zoom leaves, and what is left of one after a reset. The
  lemmas show that the shaded stretches are the samples where every target failed, and that charts of one group
  stay on one window.
\<close>

section \<open>Series\<close>

definition FIELD :: "(string \<times> string) list" where
  "FIELD = [(''raw'', ''value''), (''delta'', ''delta''), (''rate'', ''rate''), (''latency'', ''responseTimeMs'')]"

definition field_of_mode :: "string \<Rightarrow> string" where
  "field_of_mode mode = (case map_of FIELD mode of Some f \<Rightarrow> f | None \<Rightarrow> ''value'')"

text \<open>An OID that is not given is the empty text.\<close>

definition point_oid :: "session \<Rightarrow> fields \<Rightarrow> jsval" where
  "point_oid s r = jor (fget r ''oid'') (JStr (s_oid s))"

definition snmpTypeOf :: "string \<Rightarrow> session \<Rightarrow> jsval" where
  "snmpTypeOf oid s = (case List.find (\<lambda>r. truthy (fget r ''snmpType'') \<and> (oid = [] \<or> point_oid s r = JStr oid)) (s_results s) of
     Some r \<Rightarrow> fget r ''snmpType'' | None \<Rightarrow> JStr [])"

definition forOid :: "string \<Rightarrow> fields list \<Rightarrow> session \<Rightarrow> fields list" where
  "forOid oid rs s = (if oid = [] then rs else filter (\<lambda>r. jor (point_oid s r) (JStr oid) = JStr oid) rs)"

definition chart_oid :: "string \<Rightarrow> session \<Rightarrow> string" where
  "chart_oid oid s = (if oid \<noteq> [] then oid else s_oid s)"

definition chart_unit :: "(string \<Rightarrow> string) \<Rightarrow> string \<Rightarrow> session \<Rightarrow> string \<Rightarrow> string \<times> (rat option \<Rightarrow> string)" where
  "chart_unit name oid s mode = inferUnit (name (chart_oid oid s)) (str (snmpTypeOf oid s)) mode"

type_synonym sample = "rat option \<times> jsval"

record dataset =
  ds_label :: string
  ds_axis :: string
  ds_data :: "sample list"
  ds_color :: string

record axis =
  ax_id :: string
  ax_index :: nat
  ax_oid :: string
  ax_unit :: "string \<times> (rat option \<Rightarrow> string)"
  ax_color :: string

definition sample_of :: "string \<Rightarrow> fields \<Rightarrow> sample" where
  "sample_of field r = (date_parse (fget r ''timestamp''), coalesce (fget r field) JNull)"

definition samples_for :: "string \<Rightarrow> jsval \<Rightarrow> fields list \<Rightarrow> sample list" where
  "samples_for field target rs = map (sample_of field) (filter (\<lambda>r. fget r ''target'' = target) rs)"

text \<open>The middle dot between a target and its OID.\<close>

definition MID_DOT :: string where "MID_DOT = [CHR '' '', CHR 0xB7, CHR '' '']"

text \<open>One OID of a stacked chart: its axis, if it draws anything, and its curves.\<close>

definition stacked_oid ::
  "(jsval \<Rightarrow> string) \<Rightarrow> (string \<Rightarrow> string) \<Rightarrow> string list \<Rightarrow> bool \<Rightarrow> session \<Rightarrow> string \<Rightarrow> series_item list \<Rightarrow>
   dataset list \<times> axis list \<Rightarrow> nat \<times> string \<Rightarrow> dataset list \<times> axis list" where
  "stacked_oid shown name hidden dark s mode series acc entry =
     (let (datasets, axes) = acc; (i, oid) = entry;
          items = filter (\<lambda>it. si_oid it = oid) series; drawable = filter (\<lambda>it. \<not> si_capped it) items;
          scoped = filter (\<lambda>r. point_oid s r = JStr oid) (s_results s); axis_id = CHR ''y'' # show_nat i;
          kind = (case List.find (\<lambda>r. truthy (fget r ''snmpType'')) scoped of Some r \<Rightarrow> str (fget r ''snmpType'') | None \<Rightarrow> []) in
      if drawable = [] then acc
      else (datasets @ map (\<lambda>it. \<lparr>ds_label = (if length items > 1 then shown (si_target it) @ MID_DOT else []) @ name oid,
                ds_axis = axis_id, ds_data = samples_for (field_of_mode mode) (si_target it) scoped,
                ds_color = seriesColor (si_color it) dark\<rparr>) (filter (\<lambda>it. si_key it \<notin> set hidden) drawable),
            axes @ [\<lparr>ax_id = axis_id, ax_index = length axes, ax_oid = oid, ax_unit = inferUnit (name oid) kind mode,
                ax_color = seriesColor (si_color (hd drawable)) dark\<rparr>]))"

definition buildStacked ::
  "(jsval \<Rightarrow> string) \<Rightarrow> (string \<Rightarrow> string) \<Rightarrow> string list \<Rightarrow> string list \<Rightarrow> bool \<Rightarrow> session \<Rightarrow> string \<Rightarrow>
   (dataset list \<times> axis list) \<times> nat" where
  "buildStacked shown name stacked hidden dark s mode =
     (let (series, dropped) = seriesPlan s ''stacked'' (Some stacked) in
      (foldl (stacked_oid shown name hidden dark s mode series) ([], []) (List.enumerate 0 stacked), dropped))"

definition bucket_field :: "string \<Rightarrow> string" where
  "bucket_field mode = (if mode = ''rate'' then ''avgRate'' else if mode = ''latency'' then ''avgLatency'' else ''avgValue'')"

definition bucket_data :: "string \<Rightarrow> jsval \<Rightarrow> fields list \<Rightarrow> sample list" where
  "bucket_data mode target bs =
     map (\<lambda>b. (date_parse (fget b ''timestamp''), fget b (bucket_field mode))) (filter (\<lambda>b. fget b ''target'' = target) bs)"

definition bucket_datasets :: "(jsval \<Rightarrow> string) \<Rightarrow> string \<Rightarrow> bool \<Rightarrow> string \<Rightarrow> fields list \<Rightarrow> dataset list" where
  "bucket_datasets shown oid dark mode buckets =
     (let scoped = (if oid = [] then buckets else filter (\<lambda>b. \<not> truthy (fget b ''oid'') \<or> fget b ''oid'' = JStr oid) buckets);
          targets = take MAX_SERIES (dedup (map (\<lambda>b. fget b ''target'') scoped)) in
      map (\<lambda>(i, t). \<lparr>ds_label = shown t, ds_axis = ''y'', ds_data = bucket_data mode t scoped, ds_color = seriesColor i dark\<rparr>)
        (List.enumerate 0 targets))"

text \<open>The number of series left out is not touched where buckets are drawn.\<close>

definition buildDatasets ::
  "(jsval \<Rightarrow> string) \<Rightarrow> string \<Rightarrow> string list \<Rightarrow> bool \<Rightarrow> session \<Rightarrow> string \<Rightarrow> fields list option \<Rightarrow> fields list option \<Rightarrow> nat \<Rightarrow>
   dataset list \<times> nat" where
  "buildDatasets shown oid hidden dark s mode override buckets notice =
     (case buckets of Some (b # bs) \<Rightarrow> (bucket_datasets shown oid dark mode (b # bs), notice)
      | _ \<Rightarrow>
        (let source = forOid oid (case override of Some ps \<Rightarrow> ps | None \<Rightarrow> s_results s) s; key = chart_oid oid s;
             (series, dropped) = seriesPlan s ''separate'' (if key \<noteq> [] then Some [key] else None) in
         (map (\<lambda>it. \<lparr>ds_label = shown (si_target it), ds_axis = ''y'',
                 ds_data = samples_for (field_of_mode mode) (si_target it) source, ds_color = seriesColor (si_color it) dark\<rparr>)
            (filter (\<lambda>it. \<not> si_capped it \<and> si_key it \<notin> set hidden) series), dropped)))"

section \<open>Outages\<close>

definition point_failed :: "fields \<Rightarrow> bool" where
  "point_failed r \<longleftrightarrow> truthy (fget r ''error'') \<or> fget r ''value'' = JNull"

definition stamp :: "fields \<Rightarrow> rat option" where
  "stamp r = date_parse (fget r ''timestamp'')"

text \<open>Every point of that time failed; a time that does not parse compares as the same as any.\<close>

definition down_at :: "fields list \<Rightarrow> rat option \<Rightarrow> bool" where
  "down_at source t = (let here = filter (\<lambda>r. stamp r = t) source in
     length here > 0 \<and> length (filter point_failed here) = length here)"

definition by_time :: "rat option \<Rightarrow> rat option \<Rightarrow> int" where
  "by_time a b = (case num_diff a b of Some d \<Rightarrow> if d < 0 then - 1 else if d > 0 then 1 else 0 | None \<Rightarrow> 0)"

fun outage_scan :: "(rat option \<Rightarrow> bool) \<Rightarrow> rat option option \<Rightarrow> rat option option \<Rightarrow> rat option list \<Rightarrow> (rat option \<times> rat option) list" where
  "outage_scan down start prev [] = (case (start, prev) of (Some a, Some p) \<Rightarrow> [(a, p)] | _ \<Rightarrow> [])"
| "outage_scan down start prev (t # ts) =
     (if down t then outage_scan down (case start of None \<Rightarrow> Some t | Some a \<Rightarrow> Some a) (Some t) ts
      else (case start of None \<Rightarrow> [] | Some a \<Rightarrow> [(a, case prev of Some p \<Rightarrow> p | None \<Rightarrow> t)]) @ outage_scan down None (Some t) ts)"

definition outageRanges :: "string \<Rightarrow> session \<Rightarrow> fields list option \<Rightarrow> (rat option \<times> rat option) list" where
  "outageRanges oid s override =
     (let source = forOid oid (case override of Some ps \<Rightarrow> ps | None \<Rightarrow> s_results s) s in
      outage_scan (down_at source) None None (stable_sort by_time (dedup (map stamp source))))"

section \<open>Bands\<close>

definition thresholdTargets ::
  "string \<Rightarrow> bool \<Rightarrow> axis list \<Rightarrow> (string \<Rightarrow> string) \<Rightarrow> string \<Rightarrow> session \<Rightarrow> (string \<times> jsval \<times> string) list" where
  "thresholdTargets mode stacked axes name oid s =
     (let bands = s_thresholds s; band = jget bands (chart_oid oid s) in
      if mode \<noteq> ''raw'' then []
      else if stacked then filter (\<lambda>(_, th, _). truthy th) (map (\<lambda>a. (ax_id a, jget bands (ax_oid a), name (ax_oid a))) axes)
      else if truthy band then [(''y'', band, [])] else [])"

text \<open>
  A bound as it is painted: the tinted stretch as its top and its height, and where the rule is on
  the chart, its position and its words. \<open>pixel\<close> is the scale, \<open>None\<close> for no finite position.
\<close>

record painted =
  pt_tint :: "(rat \<times> rat) option"
  pt_rule :: "(rat \<times> string) option"

definition bound_words :: "(rat option \<Rightarrow> string) \<Rightarrow> jsval \<Rightarrow> string \<Rightarrow> jsval \<Rightarrow> bool \<Rightarrow> string" where
  "bound_words format th label value is_max =
     (if label \<noteq> [] then label @ '' '' else []) @ (if is_max then ''max '' else ''min '') @ format (number_of value) @
     (if truthy (jget th ''forSeconds'') then MID_DOT @ show_val (jget th ''forSeconds'') @ ''s'' else [])"

definition drawBound ::
  "(rat option \<Rightarrow> rat option) \<Rightarrow> rat \<Rightarrow> rat \<Rightarrow> (rat option \<Rightarrow> string) \<Rightarrow> jsval \<Rightarrow> string \<Rightarrow> jsval \<Rightarrow> bool \<Rightarrow> painted option" where
  "drawBound pixel upper lower format th label value is_max =
     (if nullish value \<or> value = JStr [] then None
      else case pixel (number_of value) of None \<Rightarrow> None
      | Some y \<Rightarrow> Some
          \<lparr>pt_tint = (if is_max \<and> y > upper then Some (upper, min y lower - upper)
              else if \<not> is_max \<and> y < lower then Some (max y upper, lower - max y upper) else None),
           pt_rule = (if y \<ge> upper \<and> y \<le> lower then Some (y, bound_words format th label value is_max) else None)\<rparr>)"

definition outage_rect :: "(rat option \<Rightarrow> rat) \<Rightarrow> rat \<Rightarrow> rat \<Rightarrow> rat option \<times> rat option \<Rightarrow> (rat \<times> rat) option" where
  "outage_rect pixel left right r =
     (let x1 = pixel (fst r); x2 = pixel (snd r); a = max left (min x1 x2); b = min right (max x1 x2) in
      if b > a then Some (a, max (b - a) 2) else None)"

record y_scale =
  ys_id :: string
  ys_type :: string
  ys_right :: bool
  ys_zero :: bool
  ys_title :: "string option"
  ys_grid :: bool

definition buildYScales :: "(string \<Rightarrow> string) \<Rightarrow> string \<Rightarrow> bool \<Rightarrow> string \<Rightarrow> axis list \<Rightarrow> y_scale list" where
  "buildYScales name scale_type zero unit_label axes =
     (if axes = [] then [\<lparr>ys_id = ''y'', ys_type = scale_type, ys_right = False, ys_zero = zero,
         ys_title = (if unit_label \<noteq> [] then Some unit_label else None), ys_grid = True\<rparr>]
      else map (\<lambda>a. \<lparr>ys_id = ax_id a, ys_type = scale_type, ys_right = ax_index a mod 2 \<noteq> 0, ys_zero = zero,
         ys_title = Some (name (ax_oid a) @ (if fst (ax_unit a) \<noteq> [] then '' ('' @ fst (ax_unit a) @ '')'' else [])),
         ys_grid = (ax_index a = 0)\<rparr>) axes)"

section \<open>The window\<close>

type_synonym window = "rat \<times> rat"

datatype sync_entry = SyncRange string rat rat | SyncLive string rat

fun source_of :: "sync_entry \<Rightarrow> string" where
  "source_of (SyncRange src _ _) = src"
| "source_of (SyncLive src _) = src"

type_synonym sync_store = "(string \<times> sync_entry) list"

definition set_entry :: "string \<Rightarrow> sync_entry \<Rightarrow> sync_store \<Rightarrow> sync_store" where
  "set_entry grp e store = (grp, e) # filter (\<lambda>(g, _). g \<noteq> grp) store"

definition broadcastRange :: "string \<Rightarrow> string \<Rightarrow> window \<Rightarrow> sync_entry option" where
  "broadcastRange grp src w = (if grp = [] then None else Some (SyncRange src (fst w) (snd w)))"

definition broadcastLive :: "string \<Rightarrow> string \<Rightarrow> rat \<Rightarrow> sync_entry option" where
  "broadcastLive grp src ms = (if grp = [] then None else Some (SyncLive src ms))"

text \<open>A chart component; \<open>ch_pinned\<close> are the bounds in its options, \<open>ch_shown\<close> the scale drawn.\<close>

record chart =
  ch_id :: string
  ch_group :: string
  ch_mounted :: bool
  ch_historical :: bool
  ch_follow :: bool
  ch_windowMs :: rat
  ch_data :: "dataset list"
  ch_pinned :: "window option"
  ch_shown :: window
  ch_range :: "window option"

text \<open>The outer option is the \<open>null\<close> of a chart without samples, the inner one a time that does not parse.\<close>

definition latestX :: "dataset list \<Rightarrow> rat option option" where
  "latestX ds = foldl (\<lambda>newest d. if ds_data d = [] then newest
     else let x = fst (last (ds_data d)) in
       case newest of None \<Rightarrow> Some x | Some m \<Rightarrow> if num_less m x then Some x else newest) None ds"

text \<open>Bounds that are not numbers count as none for the chart library.\<close>

definition applyWindow :: "chart \<Rightarrow> chart" where
  "applyWindow c =
     (if \<not> ch_mounted c \<or> \<not> ch_follow c \<or> ch_historical c then c
      else if ch_windowMs c = 0 then c\<lparr>ch_pinned := None\<rparr>
      else case latestX (ch_data c) of None \<Rightarrow> c
        | Some None \<Rightarrow> c\<lparr>ch_pinned := None\<rparr>
        | Some (Some x) \<Rightarrow> c\<lparr>ch_pinned := Some (x - ch_windowMs c, x)\<rparr>)"

type_synonym layout = "dataset list \<Rightarrow> window option \<Rightarrow> window"

definition update_chart :: "layout \<Rightarrow> chart \<Rightarrow> chart" where
  "update_chart lay c = c\<lparr>ch_shown := lay (ch_data c) (ch_pinned c)\<rparr>"

definition emitRange :: "chart \<Rightarrow> chart" where
  "emitRange c = (if ch_mounted c then c\<lparr>ch_range := Some (ch_shown c)\<rparr> else c)"

definition publishRange :: "bool \<Rightarrow> bool \<Rightarrow> chart \<Rightarrow> chart \<times> sync_entry option" where
  "publishRange programmatic applying c =
     (let c' = emitRange c; c'' = (if applying then c' else c'\<lparr>ch_follow := False\<rparr>) in
      if programmatic then (c', None)
      else if ch_group c = [] \<or> applying then (c'', None)
      else (c'', broadcastRange (ch_group c) (ch_id c) (ch_shown c)))"

text \<open>The zoom plugin: a reset tells \<open>publishRange\<close>, with \<open>programmaticZoom\<close> set.\<close>

definition reset_zoom :: "layout \<Rightarrow> (dataset list \<Rightarrow> window option) \<Rightarrow> chart \<Rightarrow> chart" where
  "reset_zoom lay left_over c =
     fst (publishRange True False (update_chart lay (c\<lparr>ch_pinned := left_over (ch_data c)\<rparr>)))"

definition goLive :: "layout \<Rightarrow> (dataset list \<Rightarrow> window option) \<Rightarrow> bool \<Rightarrow> chart \<Rightarrow> chart \<times> sync_entry option" where
  "goLive lay left_over propagate c =
     (let c' = c\<lparr>ch_follow := True\<rparr>;
          c'' = (if ch_mounted c then emitRange (update_chart lay (applyWindow (reset_zoom lay left_over c'))) else c') in
      (c'', if propagate then broadcastLive (ch_group c) (ch_id c) (ch_windowMs c) else None))"

definition setTimebase :: "layout \<Rightarrow> (dataset list \<Rightarrow> window option) \<Rightarrow> rat \<Rightarrow> chart \<Rightarrow> chart \<times> sync_entry option" where
  "setTimebase lay left_over ms c = goLive lay left_over True (c\<lparr>ch_windowMs := ms\<rparr>)"

definition deliver :: "layout \<Rightarrow> (window \<Rightarrow> window) \<Rightarrow> (dataset list \<Rightarrow> window option) \<Rightarrow> sync_store \<Rightarrow> chart \<Rightarrow> chart" where
  "deliver lay zoomed left_over store c =
     (if ch_group c = [] \<or> \<not> ch_mounted c then c
      else case map_of store (ch_group c) of None \<Rightarrow> c
        | Some e \<Rightarrow>
            if source_of e = ch_id c then c
            else case e of SyncLive _ ms \<Rightarrow> fst (goLive lay left_over False (c\<lparr>ch_windowMs := ms\<rparr>))
              | SyncRange _ lo hi \<Rightarrow>
                  (let c' = c\<lparr>ch_follow := False\<rparr> in
                   if ch_shown c = (lo, hi) then c'
                   else emitRange (update_chart lay (c'\<lparr>ch_pinned := Some (zoomed (lo, hi))\<rparr>))))"

definition create_chart :: "layout \<Rightarrow> bool \<Rightarrow> dataset list \<Rightarrow> chart \<Rightarrow> chart" where
  "create_chart lay visible ds c =
     (if ch_mounted c \<or> \<not> visible then c
      else emitRange (update_chart lay (applyWindow (c\<lparr>ch_mounted := True, ch_data := ds, ch_pinned := None\<rparr>))))"

definition refresh_chart :: "layout \<Rightarrow> bool \<Rightarrow> dataset list \<Rightarrow> chart \<Rightarrow> chart" where
  "refresh_chart lay visible ds c =
     (if \<not> ch_mounted c then create_chart lay visible ds c
      else emitRange (update_chart lay (applyWindow (c\<lparr>ch_data := ds\<rparr>))))"

text \<open>Another theme or another set of axes: the chart is destroyed and created again.\<close>

definition rebuild :: "layout \<Rightarrow> bool \<Rightarrow> dataset list \<Rightarrow> chart \<Rightarrow> chart" where
  "rebuild lay visible ds c = (if ch_mounted c then create_chart lay visible ds (c\<lparr>ch_mounted := False\<rparr>) else c)"

definition structure_of :: "string list option \<Rightarrow> string \<Rightarrow> string" where
  "structure_of stacked mode = (case stacked of Some oids \<Rightarrow> join_with CHR ''|'' oids | None \<Rightarrow> ''single'') @ ''::'' @ mode"

section \<open>The charts on screen\<close>

record charts =
  cs_store :: sync_store
  cs_charts :: "chart list"

datatype chart_event = UserZoom window | GoLive | SetTimebase rat | NewData "dataset list"

definition user_zoom :: "layout \<Rightarrow> (window \<Rightarrow> window) \<Rightarrow> window \<Rightarrow> chart \<Rightarrow> chart \<times> sync_entry option" where
  "user_zoom lay zoomed w c =
     (if ch_mounted c then publishRange False False (update_chart lay (c\<lparr>ch_pinned := Some (zoomed w)\<rparr>)) else (c, None))"

fun chart_act :: "layout \<Rightarrow> (window \<Rightarrow> window) \<Rightarrow> (dataset list \<Rightarrow> window option) \<Rightarrow> chart_event \<Rightarrow> chart \<Rightarrow> chart \<times> sync_entry option" where
  "chart_act lay zoomed left_over (UserZoom w) c = user_zoom lay zoomed w c"
| "chart_act lay zoomed left_over GoLive c = goLive lay left_over True c"
| "chart_act lay zoomed left_over (SetTimebase ms) c = setTimebase lay left_over ms c"
| "chart_act lay zoomed left_over (NewData ds) c = (refresh_chart lay True ds c, None)"

text \<open>What one chart broadcasts is told to every chart, whatever its group.\<close>

definition chart_step ::
  "layout \<Rightarrow> (window \<Rightarrow> window) \<Rightarrow> (dataset list \<Rightarrow> window option) \<Rightarrow> charts \<Rightarrow> nat \<times> chart_event \<Rightarrow> charts" where
  "chart_step lay zoomed left_over w ev =
     (if fst ev \<ge> length (cs_charts w) then w
      else let old = cs_charts w ! fst ev; (c, told) = chart_act lay zoomed left_over (snd ev) old;
               all = (cs_charts w)[fst ev := c] in
        case told of None \<Rightarrow> w\<lparr>cs_charts := all\<rparr>
        | Some e \<Rightarrow> (let store = set_entry (ch_group c) e (cs_store w) in
            \<lparr>cs_store = store, cs_charts = map (deliver lay zoomed left_over store) all\<rparr>))"

section \<open>Export and size\<close>

text \<open>The points drawn: a time that does not parse is not outside the window, and ends the export.\<close>

definition point_rows :: "(jsval \<Rightarrow> string) \<Rightarrow> (rat \<Rightarrow> string) \<Rightarrow> window \<Rightarrow> string \<Rightarrow> dataset \<Rightarrow> string list option" where
  "point_rows text_of to_iso w unit_label d =
     (if \<exists>p\<in>set (ds_data d). fst p = None then None
      else Some (List.map_filter (\<lambda>p. case fst p of None \<Rightarrow> None
        | Some x \<Rightarrow> if x < fst w \<or> x > snd w then None
            else Some (join_with COMMA (map escapeCSV [to_iso x, ds_label d, text_of (coalesce (snd p) (JStr [])), unit_label])))
          (ds_data d)))"

definition exportVisibleCsv :: "(jsval \<Rightarrow> string) \<Rightarrow> (rat \<Rightarrow> string) \<Rightarrow> string \<Rightarrow> string \<Rightarrow> chart \<Rightarrow> string option" where
  "exportVisibleCsv text_of to_iso mode unit_label c =
     (if \<not> ch_mounted c \<or> list_ex (\<lambda>d. point_rows text_of to_iso (ch_shown c) unit_label d = None) (ch_data c) then None
      else Some (join_with NL (join_with COMMA [''timestamp'', ''target'', mode, ''unit''] #
        concat (map (\<lambda>d. the (point_rows text_of to_iso (ch_shown c) unit_label d)) (ch_data c)))))"

definition MIN_H :: int where "MIN_H = 160"
definition MAX_H :: int where "MAX_H = 900"

definition clamp_height :: "int \<Rightarrow> int" where
  "clamp_height h = max MIN_H (min MAX_H h)"

definition startResize :: "int \<Rightarrow> int \<Rightarrow> int \<Rightarrow> int" where
  "startResize startH startY y = clamp_height (startH + y - startY)"

definition resizeKey :: "string \<Rightarrow> bool \<Rightarrow> int \<Rightarrow> int option" where
  "resizeKey key shift h =
     (let step = (if shift then 40 else 10) in
      if key = ''ArrowUp'' then Some (clamp_height (h - step))
      else if key = ''ArrowDown'' then Some (clamp_height (h + step))
      else if key = ''Home'' then Some (clamp_height MIN_H)
      else if key = ''End'' then Some (clamp_height MAX_H) else None)"

section \<open>Outages are shaded\<close>

definition shaded :: "(rat option \<times> rat option) list \<Rightarrow> rat \<Rightarrow> bool" where
  "shaded rs t \<longleftrightarrow> (\<exists>(a, b)\<in>set rs. num_le a (Some t) \<and> num_le (Some t) b)"

lemma shaded_simps [simp]:
  "\<not> shaded [] t" "shaded ((Some a, Some b) # rs) t \<longleftrightarrow> a \<le> t \<and> t \<le> b \<or> shaded rs t"
  by (simp_all add: shaded_def num_le_def)

lemma scan_covers:
  fixes ts :: "rat list"
  assumes "sorted_wrt (<) ts"
  shows "(\<forall>x\<in>set ts. shaded (outage_scan down None p (map Some ts)) x \<longleftrightarrow> down (Some x)) \<and>
      (\<forall>x. (\<forall>y\<in>set ts. x < y) \<longrightarrow> \<not> shaded (outage_scan down None p (map Some ts)) x)"
    and "a \<le> q \<Longrightarrow> \<forall>y\<in>set ts. q < y \<Longrightarrow>
      (\<forall>x\<in>set ts. shaded (outage_scan down (Some (Some a)) (Some (Some q)) (map Some ts)) x \<longleftrightarrow> down (Some x)) \<and>
      (\<forall>x. a \<le> x \<and> x \<le> q \<longrightarrow> shaded (outage_scan down (Some (Some a)) (Some (Some q)) (map Some ts)) x) \<and>
      (\<forall>x<a. \<not> shaded (outage_scan down (Some (Some a)) (Some (Some q)) (map Some ts)) x)"
  using assms
proof (induction ts arbitrary: a q p)
  case (Cons t ts)
  note ih = Cons.IH
  case 1
  then have s: "sorted_wrt (<) ts" "\<forall>y\<in>set ts. t < y" by simp_all
  show ?case
  proof (cases "down (Some t)")
    case True
    with ih(2)[of t t, OF _ s(2) s(1)] show ?thesis by auto
  next
    case False
    then show ?thesis using ih(1)[OF s(1), of "Some (Some t)"] s(2) by fastforce
  qed
next
  case (Cons t ts)
  note ih = Cons.IH
  case 2
  then have s: "sorted_wrt (<) ts" "\<forall>y\<in>set ts. t < y" "q < t" "a \<le> t" by auto
  show ?case
  proof (cases "down (Some t)")
    case True
    with ih(2)[of a t, OF s(4) s(2) s(1)] s 2 show ?thesis by auto
  next
    case False
    have "\<not> x \<le> q" if "x \<in> set ts" for x using that s by force
    moreover have "\<not> shaded (outage_scan down None (Some (Some t)) (map Some ts)) x" if "x \<le> q" for x
      using ih(1)[OF s(1), of "Some (Some t)"] s that by (meson le_less_trans less_trans)
    ultimately show ?thesis using False ih(1)[OF s(1), of "Some (Some t)"] s 2 by auto
  qed
qed (auto)

definition order_of :: "rat \<Rightarrow> rat \<Rightarrow> int" where
  "order_of a b = by_time (Some a) (Some b)"

lemma sort_times: "stable_sort by_time (map Some qs) = map Some (stable_sort order_of qs)"
proof -
  have "insert_by by_time (Some q) (map Some xs) = map Some (insert_by order_of q xs)" for q xs
    by (induction xs) (auto simp: order_of_def)
  then show ?thesis by (induction qs) (auto simp: stable_sort_def)
qed

lemma sort_strict:
  assumes "distinct qs"
  shows "sorted_wrt (<) (stable_sort order_of qs)"
proof -
  have o: "order_of a b \<le> 0 \<longleftrightarrow> a \<le> b" for a b by (auto simp: order_of_def by_time_def num_diff_def)
  have "sorted_wrt (\<lambda>a b. order_of a b \<le> 0) (stable_sort order_of qs)" by (rule stable_sort_sorts) (auto simp: o)
  then have "sorted_wrt (\<le>) (stable_sort order_of qs)" by (simp add: o)
  moreover have "distinct (stable_sort order_of qs)" using assms by (metis mset_stable_sort mset_eq_imp_distinct_iff)
  ultimately show ?thesis by (simp add: strict_sorted_iff)
qed

lemma times_sorted:
  assumes "\<forall>r\<in>set source. stamp r \<noteq> None"
  shows "\<exists>ts. stable_sort by_time (dedup (map stamp source)) = map Some ts \<and> sorted_wrt (<) ts \<and>
    (\<forall>x. x \<in> set ts \<longleftrightarrow> (\<exists>r\<in>set source. stamp r = Some x))"
proof -
  let ?qs = "map the (dedup (map stamp source))"
  have all: "\<forall>t\<in>set (dedup (map stamp source)). \<exists>q. t = Some q" using assms by auto
  then have m: "dedup (map stamp source) = map Some ?qs" by (auto intro!: map_idI[symmetric])
  have d: "distinct ?qs" using all by (auto simp: distinct_map inj_on_def) (metis option.sel)
  have "\<forall>x. x \<in> set ?qs \<longleftrightarrow> (\<exists>r\<in>set source. stamp r = Some x)" using assms by (auto simp: image_iff) force+
  then show ?thesis
    using sort_times[of ?qs] sort_strict[OF d] set_stable_sort(1)[of order_of ?qs] m[symmetric] by (intro exI[of _ "stable_sort order_of ?qs"]) simp
qed

lemma all_of_them: "length (filter P xs) = length xs \<longleftrightarrow> (\<forall>x\<in>set xs. P x)"
  by (metis filter_True filter_id_conv length_filter_less less_irrefl)

text \<open>
  C32. A sample's time is within a shaded stretch exactly if every target polled at that time failed, so an outage is
  never drawn over and a good sample never shaded.
\<close>

theorem outages_exact:
  assumes "\<forall>r\<in>set (forOid oid (s_results s) s). stamp r \<noteq> None"
    and "r \<in> set (forOid oid (s_results s) s)" "stamp r = Some t"
  shows "shaded (outageRanges oid s None) t \<longleftrightarrow>
    (\<forall>p\<in>set (forOid oid (s_results s) s). stamp p = Some t \<longrightarrow> point_failed p)"
proof -
  let ?src = "forOid oid (s_results s) s"
  obtain ts where ts: "stable_sort by_time (dedup (map stamp ?src)) = map Some ts" "sorted_wrt (<) ts"
    "\<forall>x. x \<in> set ts \<longleftrightarrow> (\<exists>r\<in>set ?src. stamp r = Some x)" using times_sorted[OF assms(1)] by blast
  have "t \<in> set ts" using ts(3) assms(2,3) by blast
  then have "shaded (outageRanges oid s None) t \<longleftrightarrow> down_at ?src (Some t)"
    using scan_covers(1)[OF ts(2), of "down_at ?src" None] by (simp add: outageRanges_def ts(1))
  also have "\<dots> \<longleftrightarrow> (\<forall>p\<in>set ?src. stamp p = Some t \<longrightarrow> point_failed p)"
    using assms(2,3) by (auto simp: down_at_def Let_def filter_empty_conv all_of_them)
  finally show ?thesis .
qed

definition failing_session :: session where
  "failing_session = \<lparr>s_id = ''p'', s_name = JStr ''p'', s_oid = ''1.3'', s_oids = [''1.3''], s_targets = [''a''], s_interval = JNum 1,
     s_snmpVersion = JStr ''v2c'',
     s_results = [[(''timestamp'', JStr ''2024-01-01T00:00:00Z''), (''target'', JStr ''a''), (''error'', JStr ''timeout'')],
       [(''timestamp'', JStr ''2024-01-01T00:01:00Z''), (''target'', JStr ''a''), (''value'', JNum 3)]],
     s_running = True, s_startedAt = JNull, s_thresholds = JNull, s_needsConnection = False, s_credentialRef = JNull,
     s_transport = None, s_preset = JNull, s_overrun = JNull\<rparr>"

theorem outages_exact_witness:
  "shaded (outageRanges ''1.3'' failing_session None) 1704067200000 \<and> \<not> shaded (outageRanges ''1.3'' failing_session None) 1704067260000"
proof -
  have s: "forOid ''1.3'' (s_results failing_session) failing_session = s_results failing_session" by code_simp
  have t: "map stamp (s_results failing_session) = [Some 1704067200000, Some 1704067260000]" by code_simp
  have f: "map point_failed (s_results failing_session) = [True, False]" by code_simp
  obtain a b where ab: "s_results failing_session = [a, b]" by (simp add: failing_session_def)
  show ?thesis using t f outages_exact[of "''1.3''" failing_session a 1704067200000] outages_exact[of "''1.3''" failing_session b 1704067260000]
    by (simp add: s[unfolded ab] ab)
qed

section \<open>One window for a group\<close>

text \<open>What the entry of a group says, once it is taken up.\<close>

lemma set_entry_lookup: "map_of (set_entry g e store) g' = (if g' = g then Some e else map_of store g')"
proof -
  have "g' \<noteq> g \<Longrightarrow> map_of (filter (\<lambda>(x, _). x \<noteq> g) store) g' = map_of store g'" by (induction store) auto
  then show ?thesis by (auto simp: set_entry_def)
qed

lemma applyWindow_keeps:
  "ch_id (applyWindow c) = ch_id c" "ch_group (applyWindow c) = ch_group c" "ch_mounted (applyWindow c) = ch_mounted c"
  "ch_follow (applyWindow c) = ch_follow c" "ch_windowMs (applyWindow c) = ch_windowMs c" "\<not> ch_follow c \<Longrightarrow> applyWindow c = c"
  "ch_data (applyWindow c) = ch_data c"
  by (auto simp: applyWindow_def split: option.splits)

lemma goLive_fields:
  "ch_id (fst (goLive lay left_over b c)) = ch_id c" "ch_group (fst (goLive lay left_over b c)) = ch_group c"
  "ch_mounted (fst (goLive lay left_over b c)) = ch_mounted c" "ch_follow (fst (goLive lay left_over b c))"
  "ch_windowMs (fst (goLive lay left_over b c)) = ch_windowMs c"
  by (auto simp: goLive_def Let_def emitRange_def update_chart_def reset_zoom_def publishRange_def applyWindow_keeps)

lemma deliver_keeps: "ch_id (deliver lay zoomed left_over store c) = ch_id c" "ch_group (deliver lay zoomed left_over store c) = ch_group c"
  by (auto simp: deliver_def Let_def emitRange_def update_chart_def goLive_fields split: option.splits sync_entry.splits)

lemma deliver_range:
  assumes "\<And>ds w. lay ds (Some w) = w" "zoomed (lo, hi) = (lo, hi)" "ch_mounted c" "ch_group c \<noteq> []"
    "map_of store (ch_group c) = Some (SyncRange src lo hi)" "src \<noteq> ch_id c"
  shows "\<not> ch_follow (deliver lay zoomed left_over store c) \<and> ch_shown (deliver lay zoomed left_over store c) = (lo, hi)"
  using assms by (auto simp: deliver_def emitRange_def update_chart_def Let_def)

lemma deliver_live:
  assumes "ch_mounted c" "ch_group c \<noteq> []" "map_of store (ch_group c) = Some (SyncLive src ms)" "src \<noteq> ch_id c"
  shows "ch_follow (deliver lay zoomed left_over store c) \<and> ch_windowMs (deliver lay zoomed left_over store c) = ms"
  using assms by (auto simp: deliver_def goLive_fields)

lemma deliver_own: "map_of store (ch_group c) = Some e \<Longrightarrow> source_of e = ch_id c \<Longrightarrow> deliver lay zoomed left_over store c = c"
  by (simp add: deliver_def)

lemma deliver_mounted: "ch_mounted (deliver lay zoomed left_over store c) = ch_mounted c"
  by (auto simp: deliver_def Let_def emitRange_def update_chart_def goLive_fields split: option.splits sync_entry.splits)

text \<open>What a chart of the group becomes that an entry of its group reaches.\<close>

definition agrees_with :: "sync_entry \<Rightarrow> chart \<Rightarrow> bool" where
  "agrees_with e c \<longleftrightarrow> (case e of SyncRange _ lo hi \<Rightarrow> \<not> ch_follow c \<and> ch_shown c = (lo, hi)
     | SyncLive _ ms \<Rightarrow> ch_follow c \<and> ch_windowMs c = ms)"

lemma told_all:
  assumes lay: "\<And>ds w. lay ds (Some w) = w" and z: "\<And>src lo hi. e = SyncRange src lo hi \<Longrightarrow> zoomed (lo, hi) = (lo, hi)"
    and d: "distinct (map ch_id cs)" and c: "i < length cs" "ch_id c = ch_id (cs ! i)" "ch_group c = g" "g \<noteq> []"
    and e: "source_of e = ch_id c" "agrees_with e c"
    and x: "x \<in> set (map (deliver lay zoomed left_over (set_entry g e store)) (cs[i := c]))" "ch_mounted x" "ch_group x = g"
  shows "agrees_with e x"
proof -
  obtain j where j: "j < length cs" "x = deliver lay zoomed left_over (set_entry g e store) (cs[i := c] ! j)"
    using x(1) by (auto simp: in_set_conv_nth)
  show ?thesis
  proof (cases "j = i")
    case True
    then show ?thesis using j c e by (simp add: deliver_own[of _ _ e] set_entry_lookup)
  next
    case False
    let ?y = "cs ! j"
    have y: "x = deliver lay zoomed left_over (set_entry g e store) ?y" using j False by simp
    have "ch_id ?y \<noteq> ch_id (cs ! i)" using d j(1) c(1) False by (auto simp: distinct_conv_nth)
    moreover have "ch_mounted ?y" "ch_group ?y = g" using x(2,3) y by (simp_all add: deliver_mounted deliver_keeps)
    ultimately show ?thesis
      using deliver_range[OF lay, of zoomed _ _ ?y "set_entry g e store"] deliver_live[of ?y "set_entry g e store"] c e(1) z y
      by (cases e) (auto simp: agrees_with_def set_entry_lookup)
  qed
qed

lemma step_tells:
  "i < length (cs_charts w) \<Longrightarrow> chart_act lay zoomed left_over ev (cs_charts w ! i) = (c, Some e) \<Longrightarrow>
   cs_charts (chart_step lay zoomed left_over w (i, ev)) =
     map (deliver lay zoomed left_over (set_entry (ch_group c) e (cs_store w))) ((cs_charts w)[i := c])"
  by (simp add: chart_step_def Let_def)

text \<open>
  Zooming one chart, going live or choosing a time base takes every chart of its group along: in whatever
  state they were, they all show the zoomed window and stop following, or all follow with that time base.
\<close>

theorem group_moves_together:
  assumes "\<And>ds w. lay ds (Some w) = w" "\<And>w. zoomed (zoomed w) = zoomed w"
    and "i < length (cs_charts w)" "ch_mounted (cs_charts w ! i)" "ch_group (cs_charts w ! i) = g" "g \<noteq> []"
    and "distinct (map ch_id (cs_charts w))"
    and "x \<in> set (cs_charts (chart_step lay zoomed left_over w (i, ev)))" "ch_mounted x" "ch_group x = g"
  shows "case ev of UserZoom win \<Rightarrow> \<not> ch_follow x \<and> ch_shown x = zoomed win
    | GoLive \<Rightarrow> ch_follow x \<and> ch_windowMs x = ch_windowMs (cs_charts w ! i)
    | SetTimebase ms \<Rightarrow> ch_follow x \<and> ch_windowMs x = ms
    | NewData _ \<Rightarrow> True"
proof -
  let ?c = "cs_charts w ! i"
  obtain c told where a: "chart_act lay zoomed left_over ev ?c = (c, told)" by (meson surj_pair)
  note told = told_all[where lay = lay and c = c and left_over = left_over and store = "cs_store w" and zoomed = zoomed, OF assms(1) _ assms(7,3) _ _ assms(6) _ _ _ assms(9,10)]
  have step: "told = Some e \<Longrightarrow> cs_charts (chart_step lay zoomed left_over w (i, ev)) =
      map (deliver lay zoomed left_over (set_entry (ch_group c) e (cs_store w))) ((cs_charts w)[i := c])" for e
    using step_tells[OF assms(3)] a by blast
  note live = goLive_fields[of lay left_over True]
  show ?thesis
  proof (cases ev)
    case (UserZoom win)
    then have "told = Some (SyncRange (ch_id ?c) (fst (zoomed win)) (snd (zoomed win)))" "ch_id c = ch_id ?c" "ch_group c = g"
      "\<not> ch_follow c" "ch_shown c = zoomed win"
      using a assms(1,4-6) by (auto simp: user_zoom_def publishRange_def emitRange_def update_chart_def broadcastRange_def Let_def)
    then show ?thesis
      using told[of "SyncRange (ch_id ?c) (fst (zoomed win)) (snd (zoomed win))"] assms(2,8) step UserZoom
      by (simp add: agrees_with_def)
  next
    case GoLive
    then have "told = Some (SyncLive (ch_id ?c) (ch_windowMs ?c))" "c = fst (goLive lay left_over True ?c)"
      using a assms(5,6) by (auto simp: goLive_def broadcastLive_def Let_def)
    then show ?thesis using told[of "SyncLive (ch_id ?c) (ch_windowMs ?c)"] assms(5,8) step GoLive live
      by (simp add: agrees_with_def)
  next
    case (SetTimebase ms)
    then have "told = Some (SyncLive (ch_id ?c) ms)" "c = fst (goLive lay left_over True (?c\<lparr>ch_windowMs := ms\<rparr>))"
      using a assms(5,6) by (auto simp: setTimebase_def goLive_def broadcastLive_def Let_def)
    then show ?thesis using told[of "SyncLive (ch_id ?c) ms"] assms(5,8) step SetTimebase live
      by (simp add: agrees_with_def)
  qed simp
qed

definition plain_layout :: layout where
  "plain_layout ds p = (case p of None \<Rightarrow> (0, 100) | Some w \<Rightarrow> w)"

definition live_chart :: "string \<Rightarrow> string \<Rightarrow> chart" where
  "live_chart i grp = \<lparr>ch_id = i, ch_group = grp, ch_mounted = True, ch_historical = False, ch_follow = True, ch_windowMs = 300000,
     ch_data = [], ch_pinned = None, ch_shown = (0, 100), ch_range = None\<rparr>"

definition two_charts :: charts where
  "two_charts = \<lparr>cs_store = [], cs_charts = [live_chart ''a'' ''s'', live_chart ''b'' ''s'']\<rparr>"

theorem group_moves_together_witness:
  "let x = cs_charts (chart_step plain_layout (\<lambda>w. w) (\<lambda>_. None) two_charts (0, UserZoom (10, 20))) ! 1 in
   \<not> ch_follow x \<and> ch_shown x = (10, 20)"
proof -
  let ?cs = "cs_charts (chart_step plain_layout (\<lambda>w. w) (\<lambda>_. None) two_charts (0, UserZoom (10, 20)))"
  have len: "length ?cs = 2" by code_simp
  have m: "ch_mounted (?cs ! 1)" "ch_group (?cs ! 1) = ''s''" by code_simp+
  show ?thesis
    using group_moves_together[of plain_layout "\<lambda>w. w" 0 two_charts "''s''" "?cs ! 1" "\<lambda>_. None" "UserZoom (10, 20)"] len m
    by (simp add: two_charts_def live_chart_def plain_layout_def)
qed

text \<open>
  The entry of a group outlives its charts: a new chart of that group, live, is taken back to the old window by a
  zoom in another group.
\<close>

lemma stale_window_comes_back:
  "(let w = chart_step plain_layout (\<lambda>w. w) (\<lambda>_. None) \<lparr>cs_store = [], cs_charts = [live_chart ''a'' ''s'', live_chart ''x'' ''t'']\<rparr> (0, UserZoom (10, 20));
        again = w\<lparr>cs_charts := [live_chart ''a2'' ''s'', live_chart ''x'' ''t'']\<rparr>;
        c = cs_charts (chart_step plain_layout (\<lambda>w. w) (\<lambda>_. None) again (1, UserZoom (50, 60))) ! 0
    in \<not> ch_follow c \<and> ch_shown c = (10, 20))"
  by code_simp

text \<open>A chart rebuilt for another theme while it does not follow shows everything and still does not follow.\<close>

lemma rebuilt_chart_leaves_window:
  "(let c = rebuild plain_layout True [] (fst (user_zoom plain_layout (\<lambda>w. w) (10, 20) (live_chart ''a'' ''s'')))
    in \<not> ch_follow c \<and> ch_shown c = (0, 100))"
  by code_simp

text \<open>What a zoomed chart shows stays while samples arrive.\<close>

lemma zoomed_window_stays:
  assumes "\<And>ds w. lay ds (Some w) = w" "ch_mounted c" "\<not> ch_follow c" "ch_pinned c = Some w"
  shows "ch_shown (refresh_chart lay visible ds c) = w" "ch_pinned (refresh_chart lay visible ds c) = Some w"
  using assms by (simp_all add: refresh_chart_def applyWindow_keeps emitRange_def update_chart_def)

lemma following_shows_newest:
  assumes "\<And>ds w. lay ds (Some w) = w" "ch_mounted c" "ch_follow c" "\<not> ch_historical c" "ch_windowMs c \<noteq> 0"
    "latestX ds = Some (Some x)"
  shows "ch_shown (refresh_chart lay visible ds c) = (x - ch_windowMs c, x)"
  using assms by (simp add: refresh_chart_def applyWindow_def emitRange_def update_chart_def)

lemma height_kept: "MIN_H \<le> clamp_height h" "clamp_height h \<le> MAX_H" "resizeKey k b h = Some h' \<Longrightarrow> MIN_H \<le> h' \<and> h' \<le> MAX_H"
  by (auto simp: clamp_height_def MIN_H_def MAX_H_def resizeKey_def Let_def split: if_splits)

text \<open>
  The axis of a rate of octets is in bits per second and its format multiplies by eight; the export
  writes the octets with the unit of the axis.
\<close>

lemma exported_rate_is_in_octets:
  "(let u = inferUnit ''ifInOctets'' ''Counter32'' ''rate'' in
    fst u = ''bit/s'' \<and> snd u (Some 100) = ''800 bit/s'' \<and>
    point_rows (\<lambda>v. case v of JNum q \<Rightarrow> show_num q | JStr s \<Rightarrow> s | _ \<Rightarrow> []) (\<lambda>_. ''t'') (0, 10) (fst u)
      \<lparr>ds_label = ''r1'', ds_axis = ''y'', ds_data = [(Some 5, JNum 100)], ds_color = []\<rparr> = Some [''t,r1,100,bit/s''])"
  by code_simp

end
