(* ===== verification/Mib_Browser.thy ===== *)
theory Mib_Browser
  imports Oid_Names Live_Feeds
begin

text \<open>
  The tree of loaded objects: the scripts of \<open>frontend/src/MibPanel.svelte\<close>, \<open>TreeNode.svelte\<close> and
  \<open>Breadcrumb.svelte\<close>, and \<open>addParentReferences\<close> of \<open>stores/mibStore.js\<close>. Nodes are objects that are mutated, so
  each has an identity: where it stands in the loaded tree, or the copy of it that a search made. Scrolling, the
  clipboard and the tooltip's place are not modelled. The lemmas show what a search keeps and that going to a favourite
  shows it.
\<close>

section \<open>The tree\<close>

text \<open>
  The place of a node is its index among its siblings, then the place of its parent; the number is the load it
  comes from, and for a copy first the search that made it.
\<close>

datatype ident = Loaded nat "nat list" | Copied nat nat "nat list"

fun load_of :: "ident \<Rightarrow> nat" where
  "load_of (Loaded l p) = l"
| "load_of (Copied _ l p) = l"

fun place :: "ident \<Rightarrow> nat list" where
  "place (Loaded l p) = p"
| "place (Copied _ l p) = p"

datatype tnode = TNode (tn_id: ident) (tn_fields: fields) (tn_children: "tnode list")

definition tn_get :: "string \<Rightarrow> tnode \<Rightarrow> string" where
  "tn_get k n = str (fget (tn_fields n) k)"

definition tn_oid :: "tnode \<Rightarrow> string" where "tn_oid n = tn_get ''oid'' n"
definition tn_name :: "tnode \<Rightarrow> string" where "tn_name n = tn_get ''name'' n"
definition tn_type :: "tnode \<Rightarrow> string" where "tn_type n = tn_get ''mibType'' n"

function addParentReferences :: "nat \<Rightarrow> nat list \<Rightarrow> nat \<Rightarrow> mib_node list \<Rightarrow> tnode list" where
  "addParentReferences l up i [] = []"
| "addParentReferences l up i (n # ns) =
     TNode (Loaded l (i # up)) (nd_fields n) (addParentReferences l (i # up) 0 (nd_children n)) # addParentReferences l up (Suc i) ns"
  by pat_completeness auto
termination
proof (relation "measure (\<lambda>(l, up, i, ns). size_list size ns)")
  show "((l, i # up, 0, nd_children n), l, up, i, n # ns) \<in> measure (\<lambda>(l, up, i, ns). size_list size ns)" for l i :: nat and up n ns
    by (cases n) simp
qed auto

text \<open>Every object of a list of trees, in the order shown, and the one with an identity.\<close>

fun objects :: "tnode \<Rightarrow> tnode list" where
  "objects (TNode i fs cs) = TNode i fs cs # concat (map objects cs)"

definition object_of :: "tnode list \<Rightarrow> ident \<Rightarrow> tnode option" where
  "object_of tree i = List.find (\<lambda>n. tn_id n = i) (concat (map objects tree))"

text \<open>The parents of a node are objects of the loaded tree, nearest first.\<close>

fun parent_places :: "nat list \<Rightarrow> nat list list" where
  "parent_places [] = []"
| "parent_places (i # up) = (if up = [] then [] else up # parent_places up)"

definition parents_of :: "tnode list \<Rightarrow> tnode \<Rightarrow> tnode list" where
  "parents_of loaded n = List.map_filter (\<lambda>p. object_of loaded (Loaded (load_of (tn_id n)) p)) (parent_places (place (tn_id n)))"

definition parent_of :: "tnode list \<Rightarrow> tnode \<Rightarrow> tnode option" where
  "parent_of loaded n = (case parents_of loaded n of [] \<Rightarrow> None | p # _ \<Rightarrow> Some p)"

text \<open>The separator of a path, between spaces, as its three bytes.\<close>

definition ARROW :: string where "ARROW = [CHR '' '', CHR 0xE2, CHR 0x80, CHR 0xBA, CHR '' '']"

definition buildPath :: "tnode list \<Rightarrow> tnode option \<Rightarrow> tnode list" where
  "buildPath loaded selected = (case selected of None \<Rightarrow> [] | Some n \<Rightarrow> rev (parents_of loaded n) @ [n])"

definition buildNodePath :: "tnode list \<Rightarrow> tnode \<Rightarrow> string" where
  "buildNodePath loaded n = join_text ARROW (map tn_name (buildPath loaded (Some n)))"

section \<open>Search\<close>

definition includes_text :: "string \<Rightarrow> string \<Rightarrow> bool" where
  "includes_text s term \<longleftrightarrow> indexOf s term 0 \<noteq> None"

definition normalizeAccess :: "string \<Rightarrow> string" where
  "normalizeAccess access =
     (let a = toLowerCase access in
      if access = [] then ''unknown'' else if includes_text a ''write'' then ''read-write''
      else if a = ''readonly'' \<or> a = ''read-only'' then ''read-only''
      else if a = ''notaccessible'' \<or> a = ''not-accessible'' then ''not-accessible'' else a)"

definition enum_names :: "tnode \<Rightarrow> string list" where
  "enum_names n = map fst (fields_of (fget (tn_fields n) ''enumValues''))"

definition term_matches :: "string \<Rightarrow> tnode \<Rightarrow> bool" where
  "term_matches term n \<longleftrightarrow> includes_text (toLowerCase (tn_name n)) term \<or> includes_text (tn_oid n) term \<or>
     (tn_get ''description'' n \<noteq> [] \<and> includes_text (toLowerCase (tn_get ''description'' n)) term) \<or>
     (tn_get ''syntax'' n \<noteq> [] \<and> includes_text (toLowerCase (tn_get ''syntax'' n)) term) \<or>
     list_ex (\<lambda>e. includes_text (toLowerCase e) term) (enum_names n)"

record tree_query =
  tq_term :: string
  tq_types :: "string list"
  tq_accesses :: "string list"

definition wants :: "tree_query \<Rightarrow> tnode \<Rightarrow> bool" where
  "wants q n \<longleftrightarrow> (tq_types q = [] \<or> tn_type n \<in> set (tq_types q)) \<and>
     (tq_accesses q = [] \<or> normalizeAccess (tn_get ''access'' n) \<in> set (tq_accesses q)) \<and>
     (tq_term q = [] \<or> term_matches (toLowerCase (tq_term q)) n)"

text \<open>A node that matches is kept with all below it; one kept for what is below it is a new object.\<close>

fun filter_node :: "nat \<Rightarrow> (tnode \<Rightarrow> bool) \<Rightarrow> tnode \<Rightarrow> tnode list" where
  "filter_node gen predicate (TNode i fs cs) =
     (if predicate (TNode i fs cs) then [TNode i fs cs]
      else let kept = concat (map (filter_node gen predicate) cs) in
        if cs \<noteq> [] \<and> kept \<noteq> [] then [TNode (Copied gen (load_of i) (place i)) fs kept] else [])"

definition filterTree :: "nat \<Rightarrow> (tnode \<Rightarrow> bool) \<Rightarrow> tnode list \<Rightarrow> tnode list" where
  "filterTree gen predicate nodes = concat (map (filter_node gen predicate) nodes)"

text \<open>Every tree loaded stays an object: a selected node may be of an earlier one.\<close>

record mib_panel =
  mp_tree :: "tnode list"
  mp_loaded :: "tnode list"
  mp_filtered :: "tnode list"
  mp_expanded :: "ident set"
  mp_selected :: "tnode option"
  mp_query :: tree_query
  mp_gen :: nat
  mp_compact :: bool
  mp_help :: bool
  mp_menu :: "tnode option"

definition query_active :: "tree_query \<Rightarrow> bool" where
  "query_active q \<longleftrightarrow> tq_term q \<noteq> [] \<or> tq_types q \<noteq> [] \<or> tq_accesses q \<noteq> []"

text \<open>A copy is expanded if the node was when it was copied.\<close>

definition copied_expansion :: "nat \<Rightarrow> ident set \<Rightarrow> ident set" where
  "copied_expansion gen E = E \<union> (\<lambda>i. Copied gen (load_of i) (place i)) ` E"

definition flush_tree :: "mib_panel \<Rightarrow> mib_panel" where
  "flush_tree p =
     (if query_active (mp_query p)
      then p\<lparr>mp_filtered := filterTree (mp_gen p) (wants (mp_query p)) (mp_tree p),
             mp_expanded := copied_expansion (mp_gen p) (mp_expanded p), mp_gen := Suc (mp_gen p)\<rparr>
      else p\<lparr>mp_filtered := mp_tree p\<rparr>)"

definition toggled :: "string \<Rightarrow> string list \<Rightarrow> string list" where
  "toggled x xs = (if x \<in> set xs then filter (\<lambda>y. y \<noteq> x) xs else xs @ [x])"

definition toggleTypeFilter :: "string \<Rightarrow> mib_panel \<Rightarrow> mib_panel" where
  "toggleTypeFilter t p = flush_tree (p\<lparr>mp_query := (mp_query p)\<lparr>tq_types := toggled t (tq_types (mp_query p))\<rparr>\<rparr>)"

definition toggleAccessFilter :: "string \<Rightarrow> mib_panel \<Rightarrow> mib_panel" where
  "toggleAccessFilter a p = flush_tree (p\<lparr>mp_query := (mp_query p)\<lparr>tq_accesses := toggled a (tq_accesses (mp_query p))\<rparr>\<rparr>)"

definition search_for :: "string \<Rightarrow> mib_panel \<Rightarrow> mib_panel" where
  "search_for t p = flush_tree (p\<lparr>mp_query := (mp_query p)\<lparr>tq_term := t\<rparr>\<rparr>)"

definition new_tree :: "mib_node list \<Rightarrow> mib_panel \<Rightarrow> mib_panel" where
  "new_tree nodes p =
     (let tree = addParentReferences (mp_gen p) [] 0 nodes in
      flush_tree (p\<lparr>mp_tree := tree, mp_loaded := mp_loaded p @ tree, mp_gen := Suc (mp_gen p)\<rparr>))"

section \<open>Moving\<close>

text \<open>The nodes shown, in order.\<close>

fun shown_objects :: "ident set \<Rightarrow> tnode \<Rightarrow> tnode list" where
  "shown_objects E (TNode i fs cs) =
     TNode i fs cs # (if i \<in> E \<and> cs \<noteq> [] then concat (map (shown_objects E) cs) else [])"

definition getFlatNodeList :: "mib_panel \<Rightarrow> tnode list" where
  "getFlatNodeList p = concat (map (shown_objects (mp_expanded p)) (mp_filtered p))"

definition first_with :: "string \<Rightarrow> tnode list \<Rightarrow> nat option" where
  "first_with oid ns = (let i = length (takeWhile (\<lambda>n. tn_oid n \<noteq> oid) ns) in if i < length ns then Some i else None)"

definition getSelectedNodeIndex :: "mib_panel \<Rightarrow> nat option" where
  "getSelectedNodeIndex p = (case mp_selected p of None \<Rightarrow> None | Some n \<Rightarrow> first_with (tn_oid n) (getFlatNodeList p))"

text \<open>A selection is told to the application: the node is the second result.\<close>

definition select_object :: "tnode \<Rightarrow> mib_panel \<Rightarrow> mib_panel \<times> tnode option" where
  "select_object n p = (p\<lparr>mp_selected := Some n\<rparr>, Some n)"

definition navigateDown :: "mib_panel \<Rightarrow> mib_panel \<times> tnode option" where
  "navigateDown p = (let flat = getFlatNodeList p in
     if flat = [] then (p, None)
     else case getSelectedNodeIndex p of
       None \<Rightarrow> select_object (flat ! 0) p
     | Some i \<Rightarrow> if i < length flat - 1 then select_object (flat ! Suc i) p else (p, None))"

definition navigateUp :: "mib_panel \<Rightarrow> mib_panel \<times> tnode option" where
  "navigateUp p = (let flat = getFlatNodeList p in
     if flat = [] then (p, None)
     else case getSelectedNodeIndex p of
       None \<Rightarrow> select_object (flat ! 0) p
     | Some i \<Rightarrow> if i > 0 then select_object (flat ! (i - 1)) p else (p, None))"

definition set_expanded :: "bool \<Rightarrow> ident \<Rightarrow> mib_panel \<Rightarrow> mib_panel" where
  "set_expanded b i p = p\<lparr>mp_expanded := (if b then insert i (mp_expanded p) else mp_expanded p - {i})\<rparr>"

definition navigateRight :: "mib_panel \<Rightarrow> mib_panel \<times> tnode option" where
  "navigateRight p = (case mp_selected p of None \<Rightarrow> (p, None)
     | Some n \<Rightarrow> (case tn_children n of [] \<Rightarrow> (p, None)
         | c # _ \<Rightarrow> if tn_id n \<notin> mp_expanded p then (set_expanded True (tn_id n) p, None) else select_object c p))"

definition navigateLeft :: "mib_panel \<Rightarrow> mib_panel \<times> tnode option" where
  "navigateLeft p = (case mp_selected p of None \<Rightarrow> (p, None)
     | Some n \<Rightarrow>
         if tn_id n \<in> mp_expanded p \<and> tn_children n \<noteq> [] then (set_expanded False (tn_id n) p, None)
         else case parent_of (mp_loaded p) n of None \<Rightarrow> (p, None) | Some up \<Rightarrow> select_object up p)"

definition toggleNode :: "mib_panel \<Rightarrow> mib_panel \<times> tnode option" where
  "toggleNode p = (case mp_selected p of None \<Rightarrow> (p, None)
     | Some n \<Rightarrow> if tn_children n = [] then (p, None) else (set_expanded (tn_id n \<notin> mp_expanded p) (tn_id n) p, None))"

definition navigateToFirst :: "mib_panel \<Rightarrow> mib_panel \<times> tnode option" where
  "navigateToFirst p = (let flat = getFlatNodeList p in if flat = [] then (p, None) else select_object (hd flat) p)"

definition navigateToLast :: "mib_panel \<Rightarrow> mib_panel \<times> tnode option" where
  "navigateToLast p = (let flat = getFlatNodeList p in if flat = [] then (p, None) else select_object (last flat) p)"

text \<open>Every node below that has children, whether it is shown or not.\<close>

definition toggleAll :: "bool \<Rightarrow> mib_panel \<Rightarrow> mib_panel" where
  "toggleAll b p = (let is = tn_id ` set (filter (\<lambda>n. tn_children n \<noteq> []) (concat (map objects (mp_filtered p)))) in
     p\<lparr>mp_expanded := (if b then mp_expanded p \<union> is else mp_expanded p - is)\<rparr>)"

datatype key_target = SearchBox | OtherInput | Elsewhere

text \<open>Only \<open>/\<close> and Escape touch the focus, which is the third result.\<close>

definition handleKeyboardNavigation :: "key_target \<Rightarrow> string \<Rightarrow> mib_panel \<Rightarrow> (mib_panel \<times> tnode option) \<times> string" where
  "handleKeyboardNavigation target key p =
     (if target \<noteq> Elsewhere then ((p, None), if key = ''Escape'' \<and> target = SearchBox then ''blur'' else [])
      else if key = ''ArrowDown'' then (navigateDown p, [])
      else if key = ''ArrowUp'' then (navigateUp p, [])
      else if key = ''ArrowRight'' then (navigateRight p, [])
      else if key = ''ArrowLeft'' then (navigateLeft p, [])
      else if key = ''Enter'' then (toggleNode p, [])
      else if key = ''Home'' then (navigateToFirst p, [])
      else if key = ''End'' then (navigateToLast p, [])
      else if key = ''/'' then ((p, None), ''focus'')
      else if key = ''?'' then ((p\<lparr>mp_help := \<not> mp_help p\<rparr>, None), [])
      else ((p, None), []))"

definition handleNodeClick :: "tnode \<Rightarrow> mib_panel \<Rightarrow> mib_panel \<times> tnode option" where
  "handleNodeClick n p = select_object n p"

definition expandPathToNode :: "tnode \<Rightarrow> mib_panel \<Rightarrow> mib_panel" where
  "expandPathToNode n p = p\<lparr>mp_expanded := mp_expanded p \<union> tn_id ` set (parents_of (mp_loaded p) n)\<rparr>"

definition handleBreadcrumbNavigation :: "tnode \<Rightarrow> mib_panel \<Rightarrow> mib_panel \<times> tnode option" where
  "handleBreadcrumbNavigation n p = select_object n (expandPathToNode n p)"

definition tree_find :: "tnode list \<Rightarrow> jsval \<Rightarrow> tnode option" where
  "tree_find nodes oid = List.find (\<lambda>n. fget (tn_fields n) ''oid'' = oid) (concat (map objects nodes))"

text \<open>Whether the node was found is the second result.\<close>

definition handleFavoriteClick :: "fields \<Rightarrow> mib_panel \<Rightarrow> mib_panel \<times> bool" where
  "handleFavoriteClick favorite p = (case tree_find (mp_filtered p) (fget favorite ''oid'') of
     Some n \<Rightarrow> (fst (select_object n (expandPathToNode n p)), True)
   | None \<Rightarrow> (p, False))"

section \<open>Rows\<close>

text \<open>From a node down while it has one child only.\<close>

fun buildCompactPath :: "tnode \<Rightarrow> tnode list" where
  "buildCompactPath (TNode i fs [c]) = TNode i fs [c] # buildCompactPath c"
| "buildCompactPath n = [n]"

definition getCompactEndNode :: "tnode \<Rightarrow> tnode" where
  "getCompactEndNode n = last (buildCompactPath n)"

definition expandCompactPath :: "tnode \<Rightarrow> mib_panel \<Rightarrow> mib_panel" where
  "expandCompactPath n p = p\<lparr>mp_expanded := mp_expanded p \<union> tn_id ` set (buildCompactPath n)\<rparr>"

definition toggle_row :: "tnode \<Rightarrow> mib_panel \<Rightarrow> mib_panel \<times> tnode option" where
  "toggle_row n p = handleNodeClick n
     (if mp_compact p \<and> tn_id n \<notin> mp_expanded p then expandCompactPath n p
      else set_expanded (tn_id n \<notin> mp_expanded p) (tn_id n) p)"

definition getNodeIcon :: "string \<Rightarrow> string" where
  "getNodeIcon t = (case map_of [(''Scalar'', ''circle-dot''), (''Column'', ''columns-3''), (''Table'', ''table''),
     (''Notification'', ''bell''), (''Node'', ''folder''), (''Group'', ''layers'')] t of Some i \<Rightarrow> i | None \<Rightarrow> ''file'')"

definition truncateAround :: "string \<Rightarrow> string \<Rightarrow> nat \<Rightarrow> string" where
  "truncateAround s term max_len = (case indexOf (toLowerCase s) term 0 of
     None \<Rightarrow> take max_len s @ ''...''
   | Some idx \<Rightarrow> (let start = idx - 30; stop = min (length s) (idx + length term + 50) in
       (if start > 0 then ''...'' else []) @ slice s start stop @ (if stop < length s then ''...'' else [])))"

datatype matched = InDescription string | InSyntax string | InEnum string

definition getMatchedField :: "tnode \<Rightarrow> string \<Rightarrow> matched option" where
  "getMatchedField n term =
     (let says = (\<lambda>s. s \<noteq> [] \<and> includes_text (toLowerCase s) term); description = tn_get ''description'' n; syn = tn_get ''syntax'' n in
      if includes_text (toLowerCase (tn_name n)) term \<or> includes_text (tn_oid n) term then None
      else if says description then Some (InDescription (truncateAround description term 80))
      else if says syn then Some (InSyntax syn)
      else map_option InEnum (List.find (\<lambda>e. includes_text (toLowerCase e) term) (enum_names n)))"

section \<open>The menu\<close>

definition menuWritable :: "tnode \<Rightarrow> bool" where
  "menuWritable n = (let access = tn_get ''access'' n; a = toLowerCase access in
     access = [] \<or> includes_text a ''write'' \<or> a = ''readwrite'' \<or> a = ''read-write'')"

text \<open>The action of an item and whether it can be chosen.\<close>

definition buildContextMenuItems :: "fields list \<Rightarrow> tnode \<Rightarrow> (string \<times> bool) list" where
  "buildContextMenuItems favorites n = (let t = tn_type n in
     [(''copyOid'', True), (''copyName'', True), (''copyPath'', True), (''separator'', True)] @
     (if t = ''Scalar'' \<or> t = ''Column'' then [(''snmpGet'', True), (''snmpGetNext'', True), (''snmpSet'', menuWritable n)] else []) @
     (if t \<in> {''Table'', ''Row'', ''Node'', ''Group''} then [(''snmpWalk'', True), (''snmpGetBulk'', True)] else []) @
     (if t = ''Table'' \<or> t = ''Row'' then [(''walkAsTable'', True)] else []) @
     [(''separator'', True), (if isFavorite (fget (tn_fields n) ''oid'') favorites then ''removeFavorite'' else ''addFavorite'', True)])"

datatype menu_result = Copy string | Ask string string string | AddFavorite tnode string | RemoveFavorite string | Ignored

definition handleContextMenuAction :: "string \<Rightarrow> mib_panel \<Rightarrow> menu_result" where
  "handleContextMenuAction action p = (case mp_menu p of None \<Rightarrow> Ignored
     | Some n \<Rightarrow>
         (case map_of [(''snmpGet'', ''GET''), (''snmpSet'', ''SET''), (''snmpGetNext'', ''GETNEXT''), (''snmpGetBulk'', ''GETBULK''),
              (''snmpWalk'', ''WALK''), (''walkAsTable'', ''WALK_TABLE'')] action of
            Some op \<Rightarrow> Ask op (tn_oid n) (tn_name n)
          | None \<Rightarrow>
              if action = ''copyOid'' then Copy (tn_oid n)
              else if action = ''copyName'' then Copy (tn_name n)
              else if action = ''copyPath'' then Copy (buildNodePath (mp_loaded p) n)
              else if action = ''addFavorite'' then AddFavorite n (buildNodePath (mp_loaded p) n)
              else if action = ''removeFavorite'' then RemoveFavorite (tn_oid n) else Ignored))"

definition handleDblClickNode :: "tnode \<Rightarrow> menu_result" where
  "handleDblClickNode n = Ask ''GET'' (tn_oid n) (tn_name n)"

definition tree_menu :: "tnode \<Rightarrow> mib_panel \<Rightarrow> mib_panel" where
  "tree_menu n p = p\<lparr>mp_menu := Some n\<rparr>"

definition close_tree_menu :: "mib_panel \<Rightarrow> mib_panel" where
  "close_tree_menu p = p\<lparr>mp_menu := None\<rparr>"

section \<open>What a search keeps\<close>

lemma self_object [simp]: "n \<in> set (objects n)"
  by (cases n) simp

lemma in_objects: "x \<in> set ns \<Longrightarrow> x \<in> set (concat (map objects ns))"
  by (simp, rule bexI[of _ x]) simp_all

lemma objects_trans: "y \<in> set (objects t) \<Longrightarrow> x \<in> set (objects y) \<Longrightarrow> x \<in> set (objects t)"
  by (induction t rule: objects.induct) auto

lemma child_object: "x \<in> set (objects (TNode i fs cs)) \<longleftrightarrow> x = TNode i fs cs \<or> (\<exists>c\<in>set cs. x \<in> set (objects c))"
  by auto

definition kin :: "tnode \<Rightarrow> tnode \<Rightarrow> bool" where
  "kin x y \<longleftrightarrow> x \<in> set (objects y) \<or> y \<in> set (objects x)"

lemma filter_sound:
  "m \<in> set (concat (map objects (filter_node gen P t))) \<Longrightarrow>
   \<exists>x\<in>set (objects t). place (tn_id x) = place (tn_id m) \<and> tn_fields x = tn_fields m \<and> (\<exists>y\<in>set (objects t). P y \<and> kin x y)"
proof (induction t arbitrary: m)
  case (TNode i fs cs)
  let ?t = "TNode i fs cs" and ?kept = "concat (map (filter_node gen P) cs)"
  have below: "\<exists>x\<in>set (objects ?t). place (tn_id x) = place (tn_id k) \<and> tn_fields x = tn_fields k \<and> (\<exists>y\<in>set (objects ?t). P y \<and> kin x y)"
    if k: "k \<in> set (concat (map objects ?kept))" for k
  proof -
    obtain k0 where k0: "k0 \<in> set ?kept" "k \<in> set (objects k0)" using k by auto
    then obtain c where "c \<in> set cs" "k0 \<in> set (filter_node gen P c)" by auto
    then have "c \<in> set cs" "k \<in> set (concat (map objects (filter_node gen P c)))" using k0 by auto
    then obtain x y where "x \<in> set (objects c)" "place (tn_id x) = place (tn_id k)" "tn_fields x = tn_fields k"
      "y \<in> set (objects c)" "P y" "kin x y" using TNode.IH[of c k] by blast
    then show ?thesis using \<open>c \<in> set cs\<close> child_object by meson
  qed
  show ?case
  proof (cases "P ?t")
    case True
    then have "m \<in> set (objects ?t)" using TNode.prems by simp
    then show ?thesis using True self_object[of ?t] unfolding kin_def by blast
  next
    case False
    then have k: "?kept \<noteq> []" "m = TNode (Copied gen (load_of i) (place i)) fs ?kept \<or> m \<in> set (concat (map objects ?kept))"
      using TNode.prems by (auto simp: Let_def split: if_splits)
    then obtain k0 where "k0 \<in> set ?kept" by (cases ?kept) auto
    then have "k0 \<in> set (concat (map objects ?kept))" by (rule in_objects)
    from below[OF this] obtain y where "y \<in> set (objects ?t)" "P y" by blast
    moreover have "kin ?t y" if "y \<in> set (objects ?t)" for y using that by (simp add: kin_def)
    ultimately have "\<exists>y\<in>set (objects ?t). P y \<and> kin ?t y" by blast
    then show ?thesis using k(2) below[of m] self_object[of ?t] by (metis place.simps(2) tnode.sel(1,2))
  qed
qed

lemma filter_complete:
  "x \<in> set (objects t) \<Longrightarrow> y \<in> set (objects t) \<Longrightarrow> P y \<Longrightarrow> kin x y \<Longrightarrow>
   \<exists>m\<in>set (concat (map objects (filter_node gen P t))). place (tn_id m) = place (tn_id x) \<and> tn_fields m = tn_fields x"
proof (induction t arbitrary: x y)
  case (TNode i fs cs)
  let ?t = "TNode i fs cs" and ?kept = "concat (map (filter_node gen P) cs)"
  show ?case
  proof (cases "P ?t")
    case True
    then show ?thesis using TNode.prems(1) by auto
  next
    case False
    have below: "\<exists>m\<in>set (concat (map objects ?kept)). place (tn_id m) = place (tn_id z) \<and> tn_fields m = tn_fields z"
      if "z \<in> set (objects c)" "y \<in> set (objects c)" "kin z y" "c \<in> set cs" for z c
      using TNode.IH[OF that(4,1,2) TNode.prems(3) that(3)] that(4) by fastforce
    obtain c where c: "c \<in> set cs" "y \<in> set (objects c)" using False TNode.prems(2,3) by (auto simp: child_object)
    have "kin y y" by (simp add: kin_def)
    from below[OF c(2,2) this c(1)] have kept: "?kept \<noteq> []" by (intro notI) simp
    then have cs: "cs \<noteq> []" by auto
    have f: "filter_node gen P ?t = [TNode (Copied gen (load_of i) (place i)) fs ?kept]" using False kept cs by (simp add: Let_def)
    show ?thesis
    proof (cases "x = ?t")
      case True
      then show ?thesis unfolding f by simp
    next
      case x: False
      then obtain d where d: "d \<in> set cs" "x \<in> set (objects d)" using TNode.prems(1) by auto
      have "\<exists>c\<in>set cs. x \<in> set (objects c) \<and> y \<in> set (objects c)"
        using TNode.prems(4) c d objects_trans unfolding kin_def by blast
      then show ?thesis using below TNode.prems(4) unfolding f by (fastforce simp del: map_concat)
    qed
  qed
qed

fun placed :: "nat \<Rightarrow> nat list \<Rightarrow> tnode \<Rightarrow> bool" where
  "placed l up (TNode i fs cs) \<longleftrightarrow> (\<exists>k. i = Loaded l (k # up)) \<and> (\<forall>c\<in>set cs. placed l (place i) c)"

lemma placed_tree: "\<forall>t\<in>set (addParentReferences l up i ns). placed l up t"
  by (induction l up i ns rule: addParentReferences.induct) auto

lemma placed_below: "placed l up t \<Longrightarrow> x \<in> set (objects t) \<Longrightarrow> \<exists>up'. placed l up' x \<and> (\<exists>qs. qs \<noteq> [] \<and> place (tn_id x) = qs @ up)"
proof (induction t arbitrary: up)
  case (TNode i fs cs)
  show ?case
  proof (cases "x = TNode i fs cs")
    case True
    then show ?thesis using TNode.prems(1) by force
  next
    case False
    then obtain c where c: "c \<in> set cs" "x \<in> set (objects c)" using TNode.prems by auto
    obtain k where k: "i = Loaded l (k # up)" using TNode.prems by auto
    obtain up' qs where "placed l up' x" "qs \<noteq> []" "place (tn_id x) = qs @ place i"
      using TNode.IH[OF c(1) _ c(2), of "place i"] TNode.prems(1) c(1) by auto
    then have "placed l up' x" "qs @ [k] \<noteq> []" "place (tn_id x) = (qs @ [k]) @ up" using k by simp_all
    then show ?thesis by blast
  qed
qed

lemma placed_id: "placed l up x \<Longrightarrow> tn_id x = Loaded l (place (tn_id x))"
  by (cases x) auto

lemma placed_children: "placed l up t \<Longrightarrow> x \<in> set (objects t) \<Longrightarrow> x \<noteq> t \<Longrightarrow> \<exists>qs. qs \<noteq> [] \<and> place (tn_id x) = qs @ place (tn_id t)"
  using placed_below by (cases t) fastforce

lemma places_from:
  "x \<in> set (concat (map objects (addParentReferences l up i ns))) \<Longrightarrow> \<exists>qs j. j \<ge> i \<and> place (tn_id x) = qs @ j # up"
proof (induction l up i ns rule: addParentReferences.induct)
  case (2 l up i n ns)
  let ?t = "TNode (Loaded l (i # up)) (nd_fields n) (addParentReferences l (i # up) 0 (nd_children n))"
  show ?case
  proof (cases "x \<in> set (objects ?t)")
    case True
    have "placed l up ?t" using placed_tree[of l "i # up" 0 "nd_children n"] by auto
    from placed_children[OF this True] show ?thesis by (cases "x = ?t") (auto intro: exI[of _ "[]"])
  next
    case False
    then have "x \<in> set (concat (map objects (addParentReferences l up (Suc i) ns)))" using 2(3) by auto
    from 2(2)[OF this] show ?thesis using Suc_leD by blast
  qed
qed simp

lemma inj_more: "inj_on f A \<Longrightarrow> (\<And>x. x \<in> A \<Longrightarrow> f t \<noteq> f x) \<Longrightarrow> inj_on f (insert t A)"
  by (auto simp: inj_on_def) metis+

lemma inj_both: "inj_on f A \<Longrightarrow> inj_on f B \<Longrightarrow> (\<And>x y. x \<in> A \<Longrightarrow> y \<in> B \<Longrightarrow> f x \<noteq> f y) \<Longrightarrow> inj_on f (A \<union> B)"
  by (auto simp: inj_on_def) metis+

lemma places_distinct: "inj_on (\<lambda>n. place (tn_id n)) (set (concat (map objects (addParentReferences l up i ns))))"
proof (induction l up i ns rule: addParentReferences.induct)
  case (2 l up i n ns)
  let ?cs = "addParentReferences l (i # up) 0 (nd_children n)"
  let ?A = "set (concat (map objects ?cs))" and ?B = "set (concat (map objects (addParentReferences l up (Suc i) ns)))"
  let ?t = "TNode (Loaded l (i # up)) (nd_fields n) ?cs"
  have a: "\<exists>qs j. place (tn_id x) = qs @ j # i # up" if "x \<in> ?A" for x using places_from[OF that] by blast
  have b: "\<exists>qs j. j \<ge> Suc i \<and> place (tn_id x) = qs @ j # up" if "x \<in> ?B" for x using places_from[OF that] by blast
  have "place (tn_id x) \<noteq> place (tn_id y)" if xy: "x \<in> insert ?t ?A" "y \<in> ?B" for x y
  proof -
    obtain qs j where "j \<ge> Suc i" "place (tn_id y) = qs @ j # up" using b[OF xy(2)] by blast
    moreover obtain rs where "place (tn_id x) = rs @ i # up" using xy(1) a[of x] by (cases "x = ?t") force+
    ultimately show ?thesis by (auto simp: append_eq_append_conv2 append_eq_Cons_conv Cons_eq_append_conv)
  qed
  note apart = this
  have root: "place (tn_id ?t) \<noteq> place (tn_id x)" if "x \<in> ?A" for x using a[OF that] by auto
  from inj_more[OF 2(1) root] have "inj_on (\<lambda>n. place (tn_id n)) (insert ?t ?A)" .
  from inj_both[OF this 2(2) apart] have "inj_on (\<lambda>n. place (tn_id n)) (insert ?t ?A \<union> ?B)" .
  moreover have "set (concat (map objects (addParentReferences l up i (n # ns)))) = insert ?t ?A \<union> ?B" by simp
  ultimately show ?case by (simp only:)
qed simp

text \<open>
  C33. Below a filter the tree holds exactly the objects that match, those above one that matches and those below
  one, each with what it says.
\<close>

theorem search_keeps_exactly:
  fixes nodes :: "mib_node list" and p :: mib_panel
  defines "tree \<equiv> addParentReferences (mp_gen p) [] 0 nodes"
  assumes "query_active (mp_query p)" "x \<in> set (concat (map objects tree))"
  shows "(\<exists>m\<in>set (concat (map objects (mp_filtered (new_tree nodes p)))). place (tn_id m) = place (tn_id x) \<and> tn_fields m = tn_fields x) \<longleftrightarrow>
    (\<exists>y\<in>set (concat (map objects tree)). wants (mp_query p) y \<and> kin x y)"
proof -
  obtain g where f: "mp_filtered (new_tree nodes p) = filterTree g (wants (mp_query p)) tree"
    using assms(2) by (simp add: new_tree_def flush_tree_def tree_def Let_def)
  show ?thesis unfolding f filterTree_def
  proof (intro iffI; elim bexE conjE)
    fix m assume "m \<in> set (concat (map objects (concat (map (filter_node g (wants (mp_query p))) tree))))" and mx: "place (tn_id m) = place (tn_id x)"
    then obtain t where t: "t \<in> set tree" "m \<in> set (concat (map objects (filter_node g (wants (mp_query p)) t)))" by fastforce
    with mx obtain z y where z: "z \<in> set (objects t)" "place (tn_id z) = place (tn_id x)" "y \<in> set (objects t)" "wants (mp_query p) y" "kin z y"
      using filter_sound[OF t(2)] by auto
    have "z = x" using inj_onD[OF places_distinct[of "mp_gen p" "[]" 0 nodes], of z x] z(1,2) t(1) assms(3) by (auto simp: tree_def)
    then show "\<exists>y\<in>set (concat (map objects tree)). wants (mp_query p) y \<and> kin x y" using z t(1) by auto
  next
    fix y assume y: "y \<in> set (concat (map objects tree))" "wants (mp_query p) y" "kin x y"
    then obtain t where "t \<in> set tree" "x \<in> set (objects t)" "y \<in> set (objects t)"
      using assms(3) objects_trans unfolding kin_def by fastforce
    then show "\<exists>m\<in>set (concat (map objects (concat (map (filter_node g (wants (mp_query p))) tree)))).
        place (tn_id m) = place (tn_id x) \<and> tn_fields m = tn_fields x"
      using filter_complete[of x t y "wants (mp_query p)" g] y by fastforce
  qed
qed

definition leaf :: "string \<Rightarrow> string \<Rightarrow> mib_node" where
  "leaf oid name = MibNode [(''oid'', JStr oid), (''name'', JStr name), (''mibType'', JStr ''Scalar'')] []"

definition small_tree :: "mib_node list" where
  "small_tree = [MibNode [(''oid'', JStr ''1''), (''name'', JStr ''iso'')]
     [MibNode [(''oid'', JStr ''1.3''), (''name'', JStr ''org'')] [leaf ''1.3.1'' ''sysDescr'', leaf ''1.3.2'' ''sysName'']]]"

definition empty_panel :: mib_panel where
  "empty_panel = \<lparr>mp_tree = [], mp_loaded = [], mp_filtered = [], mp_expanded = {}, mp_selected = None,
     mp_query = \<lparr>tq_term = [], tq_types = [], tq_accesses = []\<rparr>, mp_gen = 0, mp_compact = True, mp_help = False, mp_menu = None\<rparr>"

definition searching :: mib_panel where
  "searching = empty_panel\<lparr>mp_query := \<lparr>tq_term = ''sysName'', tq_types = [], tq_accesses = []\<rparr>\<rparr>"

text \<open>Searching \<open>sysName\<close> keeps the node two levels above it.\<close>

theorem search_keeps_exactly_witness:
  "\<exists>m\<in>set (concat (map objects (mp_filtered (new_tree small_tree searching)))). place (tn_id m) = [0] \<and> tn_name m = ''iso''"
proof -
  let ?tree = "addParentReferences 0 [] 0 small_tree"
  let ?x = "hd ?tree" and ?y = "concat (map objects ?tree) ! 3"
  have q: "query_active (mp_query searching)" by code_simp
  have g: "mp_gen searching = 0" by code_simp
  have x: "?x \<in> set (concat (map objects ?tree))" "place (tn_id ?x) = [0]" "tn_name ?x = ''iso''" by code_simp+
  have y: "?y \<in> set (concat (map objects ?tree))" "wants (mp_query searching) ?y" by code_simp+
  have "?y \<in> set (objects ?x)" by code_simp
  then have "kin ?x ?y" by (simp add: kin_def)
  then obtain m where "m \<in> set (concat (map objects (mp_filtered (new_tree small_tree searching))))"
      "place (tn_id m) = place (tn_id ?x)" "tn_fields m = tn_fields ?x"
    using search_keeps_exactly[of searching ?x small_tree] q x(1) y unfolding g by blast
  moreover from this have "tn_name m = ''iso''" using x(3) by (simp add: tn_name_def tn_get_def)
  ultimately show ?thesis using x(2) by metis
qed

section \<open>A favourite is shown\<close>

lemma found_in: "List.find P xs = Some x \<Longrightarrow> P x \<and> x \<in> set xs"
  by (induction xs) (auto split: if_splits)

lemma found_if: "x \<in> set xs \<Longrightarrow> P x \<Longrightarrow> \<exists>y. List.find P xs = Some y \<and> P y"
  by (induction xs) auto

lemma parent_places_suffix: "qs \<noteq> [] \<Longrightarrow> s \<noteq> [] \<Longrightarrow> s \<in> set (parent_places (qs @ s))"
proof (induction qs)
  case (Cons q qs)
  then show ?case by (cases qs) auto
qed simp

lemma shown_when_expanded:
  "x \<in> set (objects t) \<Longrightarrow> (\<And>m. m \<in> set (objects t) \<Longrightarrow> x \<in> set (objects m) \<Longrightarrow> m \<noteq> x \<Longrightarrow> tn_id m \<in> E) \<Longrightarrow> x \<in> set (shown_objects E t)"
proof (induction t)
  case (TNode i fs cs)
  show ?case
  proof (cases "x = TNode i fs cs")
    case False
    then obtain c where c: "c \<in> set cs" "x \<in> set (objects c)" using TNode.prems(1) by auto
    have "i \<in> E" using TNode.prems(2)[of "TNode i fs cs"] TNode.prems(1) False by simp
    moreover have "x \<in> set (shown_objects E c)" using TNode.IH[OF c] TNode.prems(2) c(1) by auto
    ultimately show ?thesis using c(1) by auto
  qed simp
qed

text \<open>The tree on screen is a loaded one, whose objects are where their identity says.\<close>

definition browsable :: "mib_panel \<Rightarrow> bool" where
  "browsable p \<longleftrightarrow> (\<exists>l. \<forall>t\<in>set (mp_tree p). placed l [] t) \<and> set (mp_tree p) \<subseteq> set (mp_loaded p) \<and>
     (\<not> query_active (mp_query p) \<longrightarrow> mp_filtered p = mp_tree p)"

lemma browsable_kept:
  "browsable (new_tree nodes p)" "browsable p \<Longrightarrow> browsable (search_for s p)"
  "browsable p \<Longrightarrow> browsable (toggleTypeFilter s p)" "browsable p \<Longrightarrow> browsable (toggleAccessFilter s p)"
  "browsable p \<Longrightarrow> browsable (toggleAll b p)" "browsable p \<Longrightarrow> browsable (expandPathToNode n p)"
  "browsable p \<Longrightarrow> browsable (fst (toggle_row n p))"
  using placed_tree[of "mp_gen p" "[]" 0 nodes]
  by (auto simp: browsable_def new_tree_def search_for_def toggleTypeFilter_def toggleAccessFilter_def flush_tree_def
      toggleAll_def expandPathToNode_def toggle_row_def handleNodeClick_def select_object_def expandCompactPath_def set_expanded_def Let_def)

lemma keyboard_keeps_browsable:
  assumes "browsable p"
  shows "browsable (fst (fst (handleKeyboardNavigation target key p)))"
proof -
  have keep: "browsable (p\<lparr>mp_selected := s\<rparr>)" "browsable (set_expanded b i p)" "browsable (p\<lparr>mp_help := h\<rparr>)" for s b i h
    using assms by (simp_all add: browsable_def set_expanded_def)
  show ?thesis using assms keep
    by (auto simp: handleKeyboardNavigation_def navigateDown_def navigateUp_def navigateRight_def navigateLeft_def toggleNode_def
        navigateToFirst_def navigateToLast_def select_object_def Let_def split: option.splits list.splits)
qed

text \<open>
  C34. Going to a favourite, in a tree that is not filtered, selects the object with its OID and opens every node
  above it, so that it is on screen.
\<close>

theorem favourite_is_revealed:
  assumes "browsable p" "\<not> query_active (mp_query p)" "handleFavoriteClick f p = (p', True)"
  shows "\<exists>n. mp_selected p' = Some n \<and> fget (tn_fields n) ''oid'' = fget f ''oid'' \<and> n \<in> set (getFlatNodeList p')"
proof -
  from assms(1,2) obtain l where tree: "\<forall>t\<in>set (mp_tree p). placed l [] t" "set (mp_tree p) \<subseteq> set (mp_loaded p)" "mp_filtered p = mp_tree p"
    by (auto simp: browsable_def)
  obtain n where n: "tree_find (mp_tree p) (fget f ''oid'') = Some n" "p' = (expandPathToNode n p)\<lparr>mp_selected := Some n\<rparr>"
    using assms(3) tree(3) by (auto simp: handleFavoriteClick_def select_object_def split: option.splits)
  have oid: "fget (tn_fields n) ''oid'' = fget f ''oid''" "n \<in> set (concat (map objects (mp_tree p)))"
    using found_in[OF n(1)[unfolded tree_find_def]] by blast+
  then obtain t where t: "t \<in> set (mp_tree p)" "n \<in> set (objects t)" by auto
  have "tn_id m \<in> mp_expanded p'" if m: "m \<in> set (objects t)" "n \<in> set (objects m)" "m \<noteq> n" for m
  proof -
    obtain up where up: "placed l up m" using placed_below[OF _ m(1)] tree(1) t(1) by blast
    obtain qs where qs: "qs \<noteq> []" "place (tn_id n) = qs @ place (tn_id m)" using placed_children[OF up m(2)] m(3) by blast
    obtain up' where "placed l up' n" using placed_below[OF _ t(2)] tree(1) t(1) by blast
    then have "load_of (tn_id n) = l" by (metis placed_id load_of.simps(1))
    have "place (tn_id m) \<noteq> []" using up by (cases m) auto
    then have "place (tn_id m) \<in> set (parent_places (place (tn_id n)))" using qs parent_places_suffix by simp
    moreover have "\<exists>x. object_of (mp_loaded p) (Loaded l (place (tn_id m))) = Some x \<and> tn_id x = tn_id m"
    proof -
      have "m \<in> set (concat (map objects (mp_loaded p)))" using m(1) t(1) tree(2) by auto
      from found_if[OF this, of "\<lambda>x. tn_id x = tn_id m"] show ?thesis using placed_id[OF up] by (simp add: object_of_def)
    qed
    ultimately have "tn_id m \<in> tn_id ` set (parents_of (mp_loaded p) n)"
      using \<open>load_of (tn_id n) = l\<close> by (auto simp: parents_of_def map_filter_def image_iff)
    then show ?thesis by (simp add: n(2) expandPathToNode_def)
  qed
  from shown_when_expanded[OF t(2) this] have "n \<in> set (shown_objects (mp_expanded p') t)" .
  moreover have "mp_filtered p' = mp_tree p" using n(2) tree(3) by (simp add: expandPathToNode_def)
  ultimately show ?thesis using n(2) oid(1) t(1) by (auto simp: getFlatNodeList_def)
qed

definition open_tree :: mib_panel where "open_tree = new_tree small_tree empty_panel"

text \<open>The favourite is two levels down in a tree that is all closed.\<close>

theorem favourite_is_revealed_witness:
  "\<exists>n. tn_name n = ''sysName'' \<and> n \<in> set (getFlatNodeList (fst (handleFavoriteClick [(''oid'', JStr ''1.3.2'')] open_tree)))"
proof -
  let ?p = "fst (handleFavoriteClick [(''oid'', JStr ''1.3.2'')] open_tree)"
  have b: "browsable open_tree" by (simp add: open_tree_def browsable_kept)
  have q: "\<not> query_active (mp_query open_tree)" by code_simp
  have f: "snd (handleFavoriteClick [(''oid'', JStr ''1.3.2'')] open_tree)" by code_simp
  have s: "map_option tn_name (mp_selected ?p) = Some ''sysName''" by code_simp
  have "handleFavoriteClick [(''oid'', JStr ''1.3.2'')] open_tree = (?p, True)" using f by (simp add: prod_eq_iff)
  from favourite_is_revealed[OF b q this] show ?thesis using s by auto
qed

text \<open>
  Below a filter the parents on screen are copies, and the parents that are opened are the loaded objects: the
  favourite is selected and stays hidden.
\<close>

lemma favourite_stays_hidden:
  "(let (p, found) = handleFavoriteClick [(''oid'', JStr ''1.3.2'')] (new_tree small_tree searching) in
    found \<and> map_option tn_name (mp_selected p) = Some ''sysName'' \<and> map tn_name (getFlatNodeList p) = [''iso''])"
  by code_simp

text \<open>The menu says that an object which is accessible for notification only cannot be set; the comment says it can.\<close>

lemma notify_is_not_writable:
  "\<not> menuWritable (TNode (Loaded 0 [0]) [(''access'', JStr ''accessible-for-notify'')] [])"
  by code_simp

text \<open>An object without access is writable for the menu and not for the panel of operations.\<close>

lemma writable_twice:
  "menuWritable (TNode i [] []) \<and> \<not> isNodeWritable (Some (MibNode [] []))"
  by code_simp

section \<open>The keyboard\<close>

lemma first_with_nth: "distinct (map tn_oid ns) \<Longrightarrow> i < length ns \<Longrightarrow> first_with (tn_oid (ns ! i)) ns = Some i"
proof (induction ns arbitrary: i)
  case (Cons n ns)
  show ?case
  proof (cases i)
    case (Suc j)
    then have "tn_oid n \<noteq> tn_oid (ns ! j)" using Cons.prems by (metis Suc_less_eq distinct.simps(2) length_Cons length_map list.simps(9) nth_map nth_mem)
    then show ?thesis using Cons.IH[of j] Cons.prems Suc by (simp add: first_with_def Let_def split: if_splits)
  qed (simp add: first_with_def)
qed simp

lemma flat_selected [simp]: "getFlatNodeList (p\<lparr>mp_selected := s\<rparr>) = getFlatNodeList p"
  by (simp add: getFlatNodeList_def)

text \<open>With OIDs that differ, Down goes to the next row, Up back, and both stop at the ends.\<close>

lemma down_is_next:
  assumes "distinct (map tn_oid (getFlatNodeList p))" "getSelectedNodeIndex p = Some i" "Suc i < length (getFlatNodeList p)"
  shows "getSelectedNodeIndex (fst (navigateDown p)) = Some (Suc i)"
    "getSelectedNodeIndex (fst (navigateUp (fst (navigateDown p)))) = Some i"
proof -
  have "i < length (getFlatNodeList p) - 1" "getFlatNodeList p \<noteq> []" using assms(3) by auto
  then have d: "fst (navigateDown p) = p\<lparr>mp_selected := Some (getFlatNodeList p ! Suc i)\<rparr>"
    using assms(2) by (simp add: navigateDown_def select_object_def Let_def)
  show at_next: "getSelectedNodeIndex (fst (navigateDown p)) = Some (Suc i)"
    unfolding d using first_with_nth[OF assms(1,3)] by (simp add: getSelectedNodeIndex_def)
  have "fst (navigateUp (fst (navigateDown p))) = p\<lparr>mp_selected := Some (getFlatNodeList p ! i)\<rparr>"
    using at_next \<open>getFlatNodeList p \<noteq> []\<close> by (simp add: navigateUp_def[of "fst (navigateDown p)"] select_object_def Let_def) (simp add: d)
  then show "getSelectedNodeIndex (fst (navigateUp (fst (navigateDown p)))) = Some i"
    using first_with_nth[OF assms(1), of i] assms(3) by (simp add: getSelectedNodeIndex_def)
qed

lemma selection_is_on_screen:
  assumes "handleKeyboardNavigation Elsewhere key p = ((p', Some n), fx)" "key \<in> {''ArrowDown'', ''ArrowUp'', ''Home'', ''End''}"
  shows "n \<in> set (getFlatNodeList p')" "mp_selected p' = Some n"
  using assms
  by (auto simp: handleKeyboardNavigation_def navigateDown_def navigateUp_def navigateToFirst_def navigateToLast_def select_object_def Let_def
      getSelectedNodeIndex_def first_with_def split: option.splits if_splits)

end
