(* ===== verification/Sim_Modal.thy ===== *)
theory Sim_Modal
  imports Sim_Device Sim_Catalogue
begin

text \<open>
  The dialog of the simulated devices: the scripts of \<open>frontend/src/SimulatorModal.svelte\<close>,
  \<open>simulator/ModelPicker.svelte\<close> and \<open>simulator/RecordForm.svelte\<close>. A call of the bridge is two steps, what is
  asked and what is done with the answer, so that anything can happen between; \<open>t\<close> translates a key. The lemmas show
  that the preview on screen is the answer to the last question, in whatever order answers arrive.
\<close>

section \<open>The dialog\<close>

record sim_modal =
  sm_editing :: "sim_device option"
  sm_saving :: bool
  sm_saveError :: string
  sm_busy :: "(string \<times> bool) list"
  sm_confirmDelete :: string
  sm_tab :: string
  sm_defaultName :: string
  sm_preview :: "jsval option"
  sm_previewError :: string
  sm_previewBusy :: bool
  sm_previewSeq :: nat
  sm_openedAt :: rat
  sm_filter :: string
  sm_dynamicOnly :: bool
  sm_widths :: "(string \<times> int) list"
  sm_resizing :: "(string \<times> int \<times> int) option"
  sm_exportIds :: "string list option"
  sm_stopRequested :: bool
  sm_recordOpen :: bool

definition PREVIEW_COLUMNS :: "string list" where
  "PREVIEW_COLUMNS = [''oid'', ''name'', ''type'', ''behaviour'', ''value'']"

definition sim_modal_start :: sim_modal where
  "sim_modal_start = \<lparr>sm_editing = None, sm_saving = False, sm_saveError = [], sm_busy = [], sm_confirmDelete = [], sm_tab = ''identity'',
     sm_defaultName = [], sm_preview = None, sm_previewError = [], sm_previewBusy = False, sm_previewSeq = 0, sm_openedAt = 0,
     sm_filter = [], sm_dynamicOnly = False,
     sm_widths = [(''oid'', 165), (''name'', 185), (''type'', 100), (''behaviour'', 85), (''value'', 185)],
     sm_resizing = None, sm_exportIds = None, sm_stopRequested = False, sm_recordOpen = False\<rparr>"

definition on_edited :: "(sim_device \<Rightarrow> sim_device) \<Rightarrow> sim_modal \<Rightarrow> sim_modal" where
  "on_edited f s = s\<lparr>sm_editing := map_option f (sm_editing s)\<rparr>"

definition set_busy :: "string \<Rightarrow> bool \<Rightarrow> sim_modal \<Rightarrow> sim_modal" where
  "set_busy i b s = s\<lparr>sm_busy := (i, b) # filter (\<lambda>(j, _). j \<noteq> i) (sm_busy s)\<rparr>"

definition is_busy :: "string \<Rightarrow> sim_modal \<Rightarrow> bool" where
  "is_busy i s \<longleftrightarrow> map_of (sm_busy s) i = Some True"

section \<open>Columns\<close>

definition width_of :: "string \<Rightarrow> sim_modal \<Rightarrow> int" where
  "width_of col s = (case map_of (sm_widths s) col of Some w \<Rightarrow> w | None \<Rightarrow> 0)"

definition previewTableWidth :: "sim_modal \<Rightarrow> int" where
  "previewTableWidth s = foldl (\<lambda>n c. n + width_of c s) 0 PREVIEW_COLUMNS"

definition set_width :: "string \<Rightarrow> int \<Rightarrow> sim_modal \<Rightarrow> sim_modal" where
  "set_width col w s = s\<lparr>sm_widths := map (\<lambda>(c, v). (c, if c = col then min 800 (max 60 w) else v)) (sm_widths s)\<rparr>"

definition startColumnResize :: "int \<Rightarrow> string \<Rightarrow> sim_modal \<Rightarrow> sim_modal" where
  "startColumnResize x col s = s\<lparr>sm_resizing := Some (col, x, width_of col s)\<rparr>"

definition onWindowMouseMove :: "int \<Rightarrow> sim_modal \<Rightarrow> sim_modal" where
  "onWindowMouseMove x s = (case sm_resizing s of None \<Rightarrow> s | Some (col, from_x, w) \<Rightarrow> set_width col (w + x - from_x) s)"

definition onWindowMouseUp :: "sim_modal \<Rightarrow> sim_modal" where
  "onWindowMouseUp s = s\<lparr>sm_resizing := None\<rparr>"

definition resizeColumnKey :: "string \<Rightarrow> bool \<Rightarrow> string \<Rightarrow> sim_modal \<Rightarrow> sim_modal" where
  "resizeColumnKey key shift col s = (let step = (if shift then 50 else 10) in
     if key = ''ArrowLeft'' then set_width col (width_of col s - step) s
     else if key = ''ArrowRight'' then set_width col (width_of col s + step) s else s)"

section \<open>Preview\<close>

definition openTab :: "rat \<Rightarrow> string \<Rightarrow> sim_modal \<Rightarrow> sim_modal" where
  "openTab now i s =
     (if i = ''data'' \<and> sm_tab s \<noteq> ''data'' then s\<lparr>sm_openedAt := now, sm_preview := None, sm_tab := i\<rparr> else s\<lparr>sm_tab := i\<rparr>)"

type_synonym preview_request = "fields \<times> fields"

text \<open>What is asked, with its number, and what is done with the answer: an error on the left.\<close>

definition preview_begin :: "rat \<Rightarrow> sim_modal \<Rightarrow> sim_modal \<times> (nat \<times> preview_request) option" where
  "preview_begin now s = (case sm_editing s of None \<Rightarrow> (s, None)
     | Some d \<Rightarrow> (s\<lparr>sm_previewSeq := Suc (sm_previewSeq s), sm_previewBusy := True\<rparr>,
         Some (Suc (sm_previewSeq s), previewPayload d, previewQuery (sm_filter s) (sm_dynamicOnly s) (sm_openedAt s) now)))"

definition preview_answer :: "nat \<Rightarrow> string + jsval \<Rightarrow> sim_modal \<Rightarrow> sim_modal" where
  "preview_answer seq answer s =
     (if seq \<noteq> sm_previewSeq s then s
      else (case answer of Inr page \<Rightarrow> s\<lparr>sm_preview := Some page, sm_previewError := []\<rparr> | Inl e \<Rightarrow> s\<lparr>sm_previewError := e\<rparr>)
        \<lparr>sm_previewBusy := False\<rparr>)"

text \<open>What a timer asks every five seconds.\<close>

definition live_preview :: "rat \<Rightarrow> sim_modal \<Rightarrow> sim_modal \<times> (nat \<times> preview_request) option" where
  "live_preview now s = (if sm_tab s = ''data'' \<and> sm_editing s \<noteq> None \<and> \<not> sm_previewBusy s then preview_begin now s else (s, None))"

definition usmMessages :: "(string \<Rightarrow> string) \<Rightarrow> problem list \<Rightarrow> problem list" where
  "usmMessages t users = map (\<lambda>u. List.map_filter (\<lambda>key. map_option (\<lambda>p. (key, t (''simulator.problem.'' @ p))) (map_of u key))
     [''user'', ''authPass'', ''privPass'']) users"

section \<open>The editor\<close>

text \<open>Whether the dialog is to close is the second result.\<close>

definition onWindowKey :: "string \<Rightarrow> sim_modal \<Rightarrow> sim_modal \<times> bool" where
  "onWindowKey key s =
     (if key \<noteq> ''Escape'' then (s, False)
      else if sm_exportIds s \<noteq> None then (s\<lparr>sm_exportIds := None\<rparr>, False)
      else if sm_editing s \<noteq> None then (s\<lparr>sm_editing := None\<rparr>, False)
      else (s, True))"

definition nameFor :: "(string \<Rightarrow> string) \<Rightarrow> sim_model list \<Rightarrow> string \<Rightarrow> nat \<Rightarrow> string" where
  "nameFor t models i devices = modelName t (modelOf models i) i @ '' '' @ show_nat (devices + 1)"

definition first_model :: "sim_model list \<Rightarrow> string" where
  "first_model models = (case models of m # _ \<Rightarrow> if mo_id m \<noteq> [] then mo_id m else ''linux-server'' | [] \<Rightarrow> ''linux-server'')"

text \<open>The address suggested is undefined where the bridge refuses.\<close>

definition newDevice :: "(string \<Rightarrow> string) \<Rightarrow> sim_model list \<Rightarrow> nat \<Rightarrow> jsval \<Rightarrow> sim_modal \<Rightarrow> sim_modal" where
  "newDevice t models devices suggestion s =
     (let model = first_model models; name = nameFor t models model devices in
      s\<lparr>sm_editing := Some ((blankDevice model suggestion)\<lparr>dv_name := name\<rparr>), sm_defaultName := name, sm_saveError := [], sm_tab := ''identity''\<rparr>)"

definition fit_schedule :: "string list \<Rightarrow> schedule \<Rightarrow> schedule" where
  "fit_schedule names sc = (if sc_notification sc \<noteq> [] \<and> sc_notification sc \<notin> set names then sc\<lparr>sc_notification := []\<rparr> else sc)"

definition onModel :: "(string \<Rightarrow> string) \<Rightarrow> sim_model list \<Rightarrow> nat \<Rightarrow> string \<Rightarrow> sim_modal \<Rightarrow> sim_modal" where
  "onModel t models devices i s = (case sm_editing s of None \<Rightarrow> s
     | Some d \<Rightarrow>
         if dv_id d \<noteq> [] then s
         else let follows = (dv_name d = sm_defaultName s); name = (if follows then nameFor t models i devices else dv_name d);
                  names = notificationsOf models i in
           s\<lparr>sm_defaultName := (if follows then name else sm_defaultName s),
             sm_editing := Some (d\<lparr>dv_model := i, dv_name := name, dv_params := [],
               dv_traps := (dv_traps d)\<lparr>tr_schedules := map (fit_schedule names) (tr_schedules (dv_traps d))\<rparr>\<rparr>)\<rparr>)"

definition edit_opened :: "jsval \<Rightarrow> jsval \<Rightarrow> sim_modal \<Rightarrow> sim_modal" where
  "edit_opened device creds s = s\<lparr>sm_editing := Some (editableDevice device creds), sm_saveError := [], sm_tab := ''identity''\<rparr>"

definition toggleVersion :: "string \<Rightarrow> sim_modal \<Rightarrow> sim_modal" where
  "toggleVersion v = on_edited (\<lambda>d. d\<lparr>dv_versions :=
     (if v \<in> set (dv_versions d) then filter (\<lambda>w. w \<noteq> v) (dv_versions d) else dv_versions d @ [v])\<rparr>)"

definition without :: "nat \<Rightarrow> 'a list \<Rightarrow> 'a list" where
  "without i xs = map snd (filter (\<lambda>(j, _). j \<noteq> i) (List.enumerate 0 xs))"

definition addUser :: "sim_modal \<Rightarrow> sim_modal" where
  "addUser = on_edited (\<lambda>d. d\<lparr>dv_users := dv_users d @ [blankV3 (length (dv_users d) + 1)]\<rparr>)"

definition removeUser :: "nat \<Rightarrow> sim_modal \<Rightarrow> sim_modal" where
  "removeUser i = on_edited (\<lambda>d. d\<lparr>dv_users := without i (dv_users d)\<rparr>)"

definition userNames :: "sim_user list \<Rightarrow> string list" where
  "userNames users = filter (\<lambda>n. n \<noteq> []) (map (\<lambda>u. trim (su_user u)) users)"

definition setTraps :: "(sim_traps \<Rightarrow> sim_traps) \<Rightarrow> sim_modal \<Rightarrow> sim_modal" where
  "setTraps f = on_edited (\<lambda>d. d\<lparr>dv_traps := f (dv_traps d)\<rparr>)"

definition addDestination :: "jsval \<Rightarrow> sim_modal \<Rightarrow> sim_modal" where
  "addDestination trapPort = setTraps (\<lambda>t. t\<lparr>tr_destinations := tr_destinations t @ [blankDestination trapPort]\<rparr>)"

definition removeDestination :: "nat \<Rightarrow> sim_modal \<Rightarrow> sim_modal" where
  "removeDestination i = setTraps (\<lambda>t. t\<lparr>tr_destinations := without i (tr_destinations t)\<rparr>)"

definition addSchedule :: "sim_modal \<Rightarrow> sim_modal" where
  "addSchedule = setTraps (\<lambda>t. t\<lparr>tr_schedules := tr_schedules t @ [blankSchedule]\<rparr>)"

definition removeSchedule :: "nat \<Rightarrow> sim_modal \<Rightarrow> sim_modal" where
  "removeSchedule i = setTraps (\<lambda>t. t\<lparr>tr_schedules := without i (tr_schedules t)\<rparr>)"

definition addOverride :: "sim_modal \<Rightarrow> sim_modal" where
  "addOverride = on_edited (\<lambda>d. d\<lparr>dv_overrides := dv_overrides d @ [blankOverride]\<rparr>)"

definition removeOverride :: "nat \<Rightarrow> sim_modal \<Rightarrow> sim_modal" where
  "removeOverride i = on_edited (\<lambda>d. d\<lparr>dv_overrides := without i (dv_overrides d)\<rparr>)"

definition destination_version :: "sim_user list \<Rightarrow> destination \<Rightarrow> destination" where
  "destination_version users dest =
     (let dest' = (if ds_version dest = ''v3'' \<and> ds_user dest = []
         then dest\<lparr>ds_user := (case userNames users of n # _ \<Rightarrow> n | [] \<Rightarrow> [])\<rparr> else dest) in
      if ds_version dest = ''v1'' then dest'\<lparr>ds_inform := False\<rparr> else dest')"

text \<open>The destination is the one at its place in the device being edited.\<close>

definition at_destination :: "nat \<Rightarrow> (destination \<Rightarrow> destination) \<Rightarrow> sim_modal \<Rightarrow> sim_modal" where
  "at_destination i f = setTraps (\<lambda>t. t\<lparr>tr_destinations :=
     (if i < length (tr_destinations t) then (tr_destinations t)[i := f (tr_destinations t ! i)] else tr_destinations t)\<rparr>)"

definition onDestinationVersion :: "nat \<Rightarrow> sim_modal \<Rightarrow> sim_modal" where
  "onDestinationVersion i s = (case sm_editing s of None \<Rightarrow> s | Some d \<Rightarrow> at_destination i (destination_version (dv_users d)) s)"

definition useListenerEngine :: "nat \<Rightarrow> string option \<Rightarrow> sim_modal \<Rightarrow> sim_modal" where
  "useListenerEngine i answer s = (case answer of None \<Rightarrow> s | Some e \<Rightarrow> at_destination i (\<lambda>d. d\<lparr>ds_engineId := e\<rparr>) s)"

section \<open>Calls\<close>

definition device_save :: "sim_modal \<Rightarrow> sim_modal \<times> fields option" where
  "device_save s = (s\<lparr>sm_saving := True, sm_saveError := []\<rparr>, map_option devicePayload (sm_editing s))"

text \<open>The device saved, then the list read again; either can fail.\<close>

definition device_saved :: "string option \<Rightarrow> string option \<Rightarrow> sim_modal \<Rightarrow> sim_modal" where
  "device_saved save_failed refresh_failed s =
     (case save_failed of Some e \<Rightarrow> s\<lparr>sm_saveError := e\<rparr>
      | None \<Rightarrow> s\<lparr>sm_editing := None, sm_saveError := (case refresh_failed of Some e \<Rightarrow> e | None \<Rightarrow> sm_saveError s)\<rparr>)\<lparr>sm_saving := False\<rparr>"

definition run_device :: "string \<Rightarrow> sim_modal \<Rightarrow> sim_modal" where
  "run_device i s = set_busy i True s"

definition run_ended :: "string \<Rightarrow> sim_modal \<Rightarrow> sim_modal" where
  "run_ended i s = set_busy i False s"

text \<open>The first press asks; whether the device is removed is the second result.\<close>

definition remove_device :: "string \<Rightarrow> sim_modal \<Rightarrow> sim_modal \<times> bool" where
  "remove_device i s = (if sm_confirmDelete s \<noteq> i then (s\<lparr>sm_confirmDelete := i\<rparr>, False) else (s\<lparr>sm_confirmDelete := []\<rparr>, True))"

definition import_ended :: "(string \<Rightarrow> string) \<Rightarrow> sim_model list \<Rightarrow> nat \<Rightarrow> jsval list \<Rightarrow> sim_modal \<Rightarrow> sim_modal \<times> sim_line list" where
  "import_ended t models devices results s =
     (if truthy (firstImported results) then onModel t models devices (str (firstImported results)) s else s, importReport results)"

datatype record_message = RecordLines "sim_line list" | RecordStopped | RecordFailed string string

definition record_ended ::
  "(string \<Rightarrow> string) \<Rightarrow> (string \<Rightarrow> string) \<Rightarrow> bool \<Rightarrow> sim_model list \<Rightarrow> nat \<Rightarrow> string \<Rightarrow> string + jsval \<Rightarrow> sim_modal \<Rightarrow> sim_modal \<times> record_message" where
  "record_ended t maskString anon models devices target answer s = (case answer of
     Inr r \<Rightarrow> (if truthy (jget r ''success'') then onModel t models devices (str (jget r ''modelId'')) (s\<lparr>sm_recordOpen := False\<rparr>) else s,
         RecordLines (importReport [r]))
   | Inl e \<Rightarrow> (s, if sm_stopRequested s then RecordStopped else RecordFailed (if anon then maskString target else target) e))"

definition record_begin :: "sim_modal \<Rightarrow> sim_modal" where
  "record_begin s = s\<lparr>sm_stopRequested := False\<rparr>"

definition stopRecording :: "sim_modal \<Rightarrow> sim_modal" where
  "stopRecording s = s\<lparr>sm_stopRequested := True\<rparr>"

definition model_deleted :: "(string \<Rightarrow> string) \<Rightarrow> sim_model list \<Rightarrow> nat \<Rightarrow> string \<Rightarrow> sim_modal \<Rightarrow> sim_modal" where
  "model_deleted t models devices i s =
     (if map_option dv_model (sm_editing s) = Some i then onModel t models devices (first_model models) s else s)"

definition mask_line :: "(string \<Rightarrow> string) \<Rightarrow> bool \<Rightarrow> sim_line \<Rightarrow> sim_line" where
  "mask_line maskString anon l = (let hide = (\<lambda>d. if anon \<and> truthy d then JStr (maskString (str d)) else d) in
     case l of TrapFailed n d e \<Rightarrow> TrapFailed n (hide d) e | TrapAcknowledged n d \<Rightarrow> TrapAcknowledged n (hide d)
       | TrapSent n d \<Rightarrow> TrapSent n (hide d) | _ \<Rightarrow> l)"

definition trap_sent :: "(string \<Rightarrow> string) \<Rightarrow> bool \<Rightarrow> string \<Rightarrow> jsval list \<Rightarrow> sim_line list" where
  "trap_sent maskString anon name deliveries = map (mask_line maskString anon) (deliveryReport name deliveries)"

definition askExport :: "string list \<Rightarrow> sim_modal \<Rightarrow> sim_modal" where
  "askExport ids s = s\<lparr>sm_exportIds := Some ids\<rparr>"

definition exportDevices :: "sim_modal \<Rightarrow> sim_modal" where
  "exportDevices s = s\<lparr>sm_exportIds := None\<rparr>"

text \<open>The message once faults are applied.\<close>

definition applyFaults :: "jsval \<Rightarrow> string" where
  "applyFaults faults = (if faultChips faults \<noteq> [] then ''simulator.faults.applied'' else ''simulator.faults.cleared'')"

section \<open>Choosing a model\<close>

record picker =
  pk_value :: string
  pk_confirmDelete :: string

definition choose_model :: "string \<Rightarrow> picker \<Rightarrow> picker \<times> string option" where
  "choose_model i p = (if i = pk_value p then (p, None) else (\<lparr>pk_value = i, pk_confirmDelete = []\<rparr>, Some i))"

definition onSearchKey :: "string \<Rightarrow> sim_model list \<Rightarrow> picker \<Rightarrow> picker \<times> string option" where
  "onSearchKey key models p =
     (let here = index_in (pk_value p) (map mo_id models); missing = (here \<ge> length models);
          go = (\<lambda>i. choose_model (mo_id (models ! i)) p) in
      if models = [] then (p, None)
      else if key = ''ArrowDown'' then go (if missing then 0 else min (here + 1) (length models - 1))
      else if key = ''ArrowUp'' then go (if missing then 0 else here - 1)
      else if key = ''Enter'' then go (if missing then 0 else here)
      else (p, None))"

definition picker_remove :: "string \<Rightarrow> picker \<Rightarrow> picker \<times> bool" where
  "picker_remove i p = (if pk_confirmDelete p \<noteq> i then (p\<lparr>pk_confirmDelete := i\<rparr>, False) else (p\<lparr>pk_confirmDelete := []\<rparr>, True))"

definition record_submit :: "string \<Rightarrow> string \<Rightarrow> string \<Rightarrow> string \<Rightarrow> bool \<Rightarrow> (string \<times> string) list option" where
  "record_submit target name vendor category recording =
     (if trim target = [] \<or> trim name = [] \<or> recording then None
      else Some [(''target'', trim target), (''name'', trim name), (''vendor'', trim vendor), (''category'', category)])"

section \<open>The preview answers the last question\<close>

datatype preview_event = PreviewAsk rat | PreviewAnswer nat | Typed "sim_device option"

record preview_run =
  pr_modal :: sim_modal
  pr_asked :: "preview_request list"

fun preview_step :: "(preview_request \<Rightarrow> string + jsval) \<Rightarrow> preview_run \<Rightarrow> preview_event \<Rightarrow> preview_run" where
  "preview_step answer r (PreviewAsk now) = (case preview_begin now (pr_modal r) of
     (s, None) \<Rightarrow> r | (s, Some (_, q)) \<Rightarrow> \<lparr>pr_modal = s, pr_asked = pr_asked r @ [q]\<rparr>)"
| "preview_step answer r (PreviewAnswer k) =
     (if k < length (pr_asked r) then r\<lparr>pr_modal := preview_answer (Suc k) (answer (pr_asked r ! k)) (pr_modal r)\<rparr> else r)"
| "preview_step answer r (Typed d) = r\<lparr>pr_modal := (pr_modal r)\<lparr>sm_editing := d\<rparr>\<rparr>"

definition preview_shows :: "string + jsval \<Rightarrow> sim_modal \<Rightarrow> bool" where
  "preview_shows answer s \<longleftrightarrow> (case answer of Inr page \<Rightarrow> sm_preview s = Some page \<and> sm_previewError s = [] | Inl e \<Rightarrow> sm_previewError s = e)"

definition preview_inv :: "(preview_request \<Rightarrow> string + jsval) \<Rightarrow> preview_run \<Rightarrow> bool" where
  "preview_inv answer r \<longleftrightarrow> sm_previewSeq (pr_modal r) = length (pr_asked r) \<and>
     (\<not> sm_previewBusy (pr_modal r) \<and> pr_asked r \<noteq> [] \<longrightarrow> preview_shows (answer (last (pr_asked r))) (pr_modal r))"

lemma preview_inv_step: "preview_inv answer r \<Longrightarrow> preview_inv answer (preview_step answer r e)"
proof (cases e)
  case (PreviewAnswer k)
  assume i: "preview_inv answer r"
  show ?thesis
  proof (cases "k < length (pr_asked r) \<and> Suc k = length (pr_asked r)")
    case True
    then have "pr_asked r ! k = last (pr_asked r)" by (metis last_conv_nth length_0_conv diff_Suc_1 nat.distinct(1))
    then show ?thesis using i True PreviewAnswer
      by (auto simp: preview_inv_def preview_answer_def preview_shows_def split: sum.splits)
  next
    case False
    then show ?thesis using i PreviewAnswer by (auto simp: preview_inv_def preview_answer_def)
  qed
qed (auto simp: preview_inv_def preview_begin_def preview_shows_def split: option.splits sum.splits)

text \<open>
  C35. Answers of the bridge overlap and arrive in any order while the device is edited: once the dialog waits for no
  answer, it shows the answer to the last question asked.
\<close>

theorem preview_is_last_asked:
  assumes "sm_previewSeq s = 0" "\<not> sm_previewBusy (pr_modal r)" "pr_asked r \<noteq> []"
    and "r = foldl (preview_step answer) \<lparr>pr_modal = s, pr_asked = []\<rparr> events"
  shows "preview_shows (answer (last (pr_asked r))) (pr_modal r)"
proof -
  have "preview_inv answer (foldl (preview_step answer) r0 es)" if "preview_inv answer r0" for r0 es
    using that by (induction es arbitrary: r0) (auto simp: preview_inv_step)
  from this[of "\<lparr>pr_modal = s, pr_asked = []\<rparr>" events] show ?thesis
    using assms by (simp add: preview_inv_def)
qed

definition open_editor :: sim_modal where
  "open_editor = sim_modal_start\<lparr>sm_editing := Some (blankDevice ''router'' JUndef)\<rparr>"

definition by_filter :: "preview_request \<Rightarrow> string + jsval" where
  "by_filter q = Inr (fget (fst q) ''name'')"

text \<open>Two questions, the second with another name; the answer to the first arrives last.\<close>

theorem preview_is_last_asked_witness:
  "sm_preview (pr_modal (foldl (preview_step by_filter) \<lparr>pr_modal = open_editor, pr_asked = []\<rparr>
     [PreviewAsk 1, Typed (Some ((blankDevice ''router'' JUndef)\<lparr>dv_name := ''b''\<rparr>)), PreviewAsk 2, PreviewAnswer 1, PreviewAnswer 0])) = Some (JStr ''b'')"
proof -
  let ?es = "[PreviewAsk 1, Typed (Some ((blankDevice ''router'' JUndef)\<lparr>dv_name := ''b''\<rparr>)), PreviewAsk 2, PreviewAnswer 1, PreviewAnswer 0]"
  let ?r = "foldl (preview_step by_filter) \<lparr>pr_modal = open_editor, pr_asked = []\<rparr> ?es"
  have "sm_previewSeq open_editor = 0" by (simp add: open_editor_def sim_modal_start_def)
  moreover have "\<not> sm_previewBusy (pr_modal ?r)" by code_simp
  moreover have "pr_asked ?r \<noteq> []" by code_simp
  moreover have "by_filter (last (pr_asked ?r)) = Inr (JStr ''b'')" by code_simp
  ultimately show ?thesis using preview_is_last_asked[of open_editor ?r by_filter ?es] by (simp add: preview_shows_def)
qed

text \<open>The number of the question is not the editor's: a late answer for one device shows in the next one's preview.\<close>

lemma late_preview_shows_elsewhere:
  "(let (asked, q) = preview_begin 1 (openTab 0 ''data'' (open_editor\<lparr>sm_tab := ''identity''\<rparr>));
        other = openTab 2 ''data'' (edit_opened (JObj [(''id'', JStr ''other'')]) JUndef (fst (onWindowKey ''Escape'' asked)))
    in sm_preview other = None \<and> sm_preview (preview_answer 1 (Inr (JStr ''page'')) other) = Some (JStr ''page'') \<and>
       map_option dv_id (sm_editing other) = Some ''other'')"
  by code_simp

text \<open>The end of a save closes the editor that is open, whoever it belongs to.\<close>

lemma save_closes_other_editor:
  "(let saving = fst (device_save open_editor);
        other = edit_opened (JObj [(''id'', JStr ''other'')]) JUndef (fst (onWindowKey ''Escape'' saving))
    in sm_editing other \<noteq> None \<and> sm_editing (device_saved None None other) = None)"
  by code_simp

text \<open>After a change of model every notification scheduled is one the model sends, or one at random.\<close>

lemma model_change_fits_schedules:
  assumes "sm_editing s = Some d" "dv_id d = []" "sm_editing (onModel t models n i s) = Some d'" "sc \<in> set (tr_schedules (dv_traps d'))"
  shows "sc_notification sc = [] \<or> sc_notification sc \<in> set (notificationsOf models i)" "dv_model d' = i" "dv_params d' = []"
  using assms by (auto simp: onModel_def Let_def fit_schedule_def)

lemma model_change_follows_name:
  assumes "sm_editing s = Some d" "dv_id d = []" "dv_name d \<noteq> sm_defaultName s" "sm_editing (onModel t models n i s) = Some d'"
  shows "dv_name d' = dv_name d"
  using assms by (auto simp: onModel_def Let_def)

lemma widths_bounded: "set_width c w s = s' \<Longrightarrow> (k, v) \<in> set (sm_widths s') \<Longrightarrow> (k, v) \<in> set (sm_widths s) \<or> 60 \<le> v \<and> v \<le> 800"
  by (auto simp: set_width_def split: if_splits)

lemma without_nth: "i < length xs \<Longrightarrow> without i xs = take i xs @ drop (Suc i) xs"
proof -
  have "map snd (filter (\<lambda>(j, _). j \<noteq> n + i) (List.enumerate n xs)) = take i xs @ drop (Suc i) xs" if "i < length xs" for n
    using that
  proof (induction xs arbitrary: i n)
    case (Cons x xs)
    show ?case
    proof (cases i)
      case 0
      have "filter (\<lambda>(j, _). j \<noteq> n) (List.enumerate (Suc n) xs) = List.enumerate (Suc n) xs"
        by (rule filter_True) (auto simp: in_set_enumerate_eq)
      then show ?thesis using 0 by simp
    next
      case (Suc j)
      then show ?thesis using Cons.IH[of j "Suc n"] Cons.prems by simp
    qed
  qed simp
  from this[of 0] show "i < length xs \<Longrightarrow> without i xs = take i xs @ drop (Suc i) xs" by (simp add: without_def)
qed

end
