(* ===== verification/Mib_Files.thy ===== *)
theory Mib_Files
  imports Js_Value Js_Text Mib_Graph
begin

text \<open>
  Which files are loaded: \<open>frontend/src/stores/mibPathsStore.js\<close>, \<open>stores/mibStore.js\<close> and the script of
  \<open>settings/MibSettings.svelte\<close>. The bridge answers with what a directory holds and with what a load gave; an
  answer that fails is \<open>None\<close> or the error on the left. The lemmas show that a file is loaded exactly if it is
  there and not switched off, and that a file switched off stays so whatever is scanned.
\<close>

section \<open>Paths\<close>

text \<open>The two objects of the state, by path; the flags of a path by file.\<close>

record mib_paths =
  pa_custom :: "string list"
  pa_detected :: "(string \<times> string list) list"
  pa_enabled :: "(string \<times> (string \<times> bool) list) list"

definition no_paths :: mib_paths where
  "no_paths = \<lparr>pa_custom = [], pa_detected = [], pa_enabled = []\<rparr>"

fun put :: "'k \<Rightarrow> 'v \<Rightarrow> ('k \<times> 'v) list \<Rightarrow> ('k \<times> 'v) list" where
  "put k v [] = [(k, v)]"
| "put k v ((k', v') # r) = (if k' = k then (k, v) # r else (k', v') # put k v r)"

lemma map_of_put: "map_of (put k v xs) = (map_of xs)(k \<mapsto> v)"
  by (induction k v xs rule: put.induct) auto

definition flags_of :: "string \<Rightarrow> mib_paths \<Rightarrow> (string \<times> bool) list" where
  "flags_of path s = (case map_of (pa_enabled s) path of Some fs \<Rightarrow> fs | None \<Rightarrow> [])"

definition flag :: "string \<Rightarrow> string \<Rightarrow> mib_paths \<Rightarrow> bool option" where
  "flag path mib s = map_of (flags_of path s) mib"

definition set_flag :: "string \<Rightarrow> string \<Rightarrow> bool \<Rightarrow> mib_paths \<Rightarrow> mib_paths" where
  "set_flag path mib b s = s\<lparr>pa_enabled := put path (put mib b (flags_of path s)) (pa_enabled s)\<rparr>"

text \<open>Whether the state is written is the second result: it is not where nothing was to be done.\<close>

definition addPath :: "string \<Rightarrow> mib_paths \<Rightarrow> mib_paths \<times> bool" where
  "addPath path s = (if path \<in> set (pa_custom s) then (s, False) else (s\<lparr>pa_custom := pa_custom s @ [path]\<rparr>, True))"

definition removePath :: "string \<Rightarrow> mib_paths \<Rightarrow> mib_paths" where
  "removePath path s = s\<lparr>pa_custom := filter (\<lambda>p. p \<noteq> path) (pa_custom s), pa_detected := filter (\<lambda>(p, _). p \<noteq> path) (pa_detected s)\<rparr>"

definition enable_new :: "string \<Rightarrow> mib_paths \<Rightarrow> string \<Rightarrow> mib_paths" where
  "enable_new path s mib = (if flag path mib s = None then set_flag path mib True s else s)"

definition setDetectedMibs :: "string \<Rightarrow> string list \<Rightarrow> mib_paths \<Rightarrow> mib_paths" where
  "setDetectedMibs path mibs s = foldl (enable_new path) (s\<lparr>pa_detected := put path mibs (pa_detected s)\<rparr>) mibs"

definition toggleMib :: "string \<Rightarrow> string \<Rightarrow> mib_paths \<Rightarrow> mib_paths" where
  "toggleMib path mib s = set_flag path mib (flag path mib s \<noteq> Some True) s"

definition set_all :: "bool \<Rightarrow> string \<Rightarrow> mib_paths \<Rightarrow> mib_paths \<times> bool" where
  "set_all b path s = (case map_of (pa_detected s) path of None \<Rightarrow> (s, False)
     | Some mibs \<Rightarrow> (foldl (\<lambda>s mib. set_flag path mib b s) s mibs, True))"

definition enableAllInPath :: "string \<Rightarrow> mib_paths \<Rightarrow> mib_paths \<times> bool" where
  "enableAllInPath = set_all True"

definition disableAllInPath :: "string \<Rightarrow> mib_paths \<Rightarrow> mib_paths \<times> bool" where
  "disableAllInPath = set_all False"

text \<open>What the storage holds once parsed, if it holds anything.\<close>

definition load_paths :: "mib_paths option \<Rightarrow> mib_paths \<Rightarrow> mib_paths" where
  "load_paths stored s = (case stored of Some s' \<Rightarrow> s' | None \<Rightarrow> s)"

section \<open>Loading\<close>

definition switched_on :: "string \<Rightarrow> string \<Rightarrow> mib_paths \<Rightarrow> bool" where
  "switched_on path mib s \<longleftrightarrow> flag path mib s \<noteq> Some False"

definition getEnabledMibFiles :: "string \<Rightarrow> string list option \<Rightarrow> mib_paths \<Rightarrow> string list" where
  "getEnabledMibFiles defaultPath listed s =
     (let detected = (\<lambda>p. case map_of (pa_detected s) p of Some ms \<Rightarrow> ms | None \<Rightarrow> []);
          onDisk = (case listed of Some ms \<Rightarrow> ms | None \<Rightarrow> detected defaultPath) in
      filter (\<lambda>m. switched_on defaultPath m s) onDisk @
      concat (map (\<lambda>p. filter (\<lambda>m. switched_on p m s) (detected p)) (pa_custom s)))"

record 'd mib_state =
  mt_tree :: "'d list"
  mt_isLoading :: bool
  mt_error :: "string option"

datatype load_message = LoadedSome nat nat | LoadedNothing | LoadFailed string

definition mibs_loading :: "'d mib_state \<Rightarrow> 'd mib_state" where
  "mibs_loading s = s\<lparr>mt_isLoading := True, mt_error := None\<rparr>"

text \<open>The tree, the diagnostics and what is said: on the left the error of any of the calls.\<close>

definition mibs_loaded :: "bool \<Rightarrow> string + 'd list \<times> load_result list \<Rightarrow> 'd mib_state \<times> load_result list \<times> load_message list" where
  "mibs_loaded silent answer = (case answer of
     Inl e \<Rightarrow> (\<lparr>mt_tree = [], mt_isLoading = False, mt_error = Some e\<rparr>, [], if silent then [] else [LoadFailed e])
   | Inr (tree, diags) \<Rightarrow>
       (\<lparr>mt_tree = tree, mt_isLoading = False, mt_error = None\<rparr>, diags,
        if silent then []
        else if tree \<noteq> [] then [LoadedSome (length (filter lr_success diags)) (length (filter (\<lambda>d. \<not> lr_success d) diags))]
        else [LoadedNothing]))"

section \<open>The settings\<close>

record mib_settings =
  ms_newPath :: string
  ms_graph :: "gnode list"
  ms_graphOpen :: bool
  ms_graphRoot :: string
  ms_graphLoading :: bool
  ms_diagnosis :: "jsval option"
  ms_diagnosisFor :: string
  ms_diagnosing :: string
  ms_token :: nat

definition graph_begin :: "mib_settings \<Rightarrow> mib_settings" where
  "graph_begin s = s\<lparr>ms_graphLoading := True\<rparr>"

definition graph_end :: "gnode list option \<Rightarrow> mib_settings \<Rightarrow> mib_settings" where
  "graph_end answer s = (case answer of None \<Rightarrow> s\<lparr>ms_graph := []\<rparr>
     | Some g \<Rightarrow> s\<lparr>ms_graph := g, ms_graphRoot := (if ms_graphRoot s \<in> g_module ` set g then ms_graphRoot s
         else (case rootsOf g of n # _ \<Rightarrow> g_module n | [] \<Rightarrow> []))\<rparr>)\<lparr>ms_graphLoading := False\<rparr>"

text \<open>Whether the graph is asked for is the second result.\<close>

definition toggleGraph :: "mib_settings \<Rightarrow> mib_settings \<times> bool" where
  "toggleGraph s = (s\<lparr>ms_graphOpen := \<not> ms_graphOpen s\<rparr>, \<not> ms_graphOpen s \<and> ms_graph s = [])"

text \<open>A choice of the dialog, or of the prompt where the dialog fails.\<close>

definition handleBrowseFolder :: "string option + string option \<Rightarrow> mib_settings \<Rightarrow> mib_settings" where
  "handleBrowseFolder chosen s = (case (case chosen of Inl p \<Rightarrow> p | Inr p \<Rightarrow> p) of
     Some p \<Rightarrow> if trim p \<noteq> [] then s\<lparr>ms_newPath := trim p\<rparr> else s | None \<Rightarrow> s)"

definition scanPathForMibs :: "string \<Rightarrow> string list option \<Rightarrow> mib_paths \<Rightarrow> mib_paths" where
  "scanPathForMibs path listed = setDetectedMibs path (case listed of Some ms \<Rightarrow> ms | None \<Rightarrow> [])"

definition handleAddPath :: "string list option \<Rightarrow> mib_settings \<Rightarrow> mib_paths \<Rightarrow> mib_settings \<times> mib_paths" where
  "handleAddPath listed s p = (let path = trim (ms_newPath s) in
     if path = [] then (s, p) else (s\<lparr>ms_newPath := []\<rparr>, scanPathForMibs path listed (fst (addPath path p))))"

definition handleRemovePath :: "bool \<Rightarrow> string \<Rightarrow> mib_paths \<Rightarrow> mib_paths" where
  "handleRemovePath confirmed path p = (if confirmed then removePath path p else p)"

text \<open>Whether the file is opened, and whether the editor is then asked for.\<close>

definition openInEditor :: "bool \<Rightarrow> bool \<Rightarrow> string option \<Rightarrow> bool \<times> string option" where
  "openInEditor dirty confirmed failure =
     (if dirty \<and> \<not> confirmed then (False, None) else case failure of Some e \<Rightarrow> (True, None) | None \<Rightarrow> (True, Some ''mibeditor''))"

definition diagnosis_begin :: "string \<Rightarrow> mib_settings \<Rightarrow> mib_settings \<times> nat" where
  "diagnosis_begin file s = (s\<lparr>ms_token := Suc (ms_token s), ms_diagnosing := file\<rparr>, Suc (ms_token s))"

definition diagnosis_end :: "nat \<Rightarrow> string \<Rightarrow> string + jsval \<Rightarrow> mib_settings \<Rightarrow> mib_settings" where
  "diagnosis_end token file answer s =
     (if token \<noteq> ms_token s then s
      else s\<lparr>ms_diagnosis := Some (case answer of Inr d \<Rightarrow> d
          | Inl e \<Rightarrow> JObj [(''stage'', JStr []), (''summary'', JStr e), (''fileName'', JStr file)]),
        ms_diagnosisFor := file, ms_diagnosing := []\<rparr>)"

section \<open>What is loaded\<close>

lemma flag_set [simp]: "flag path mib (set_flag path' mib' b s) = (if path' = path \<and> mib' = mib then Some b else flag path mib s)"
  by (simp add: flag_def flags_of_def set_flag_def map_of_put)

lemma set_flag_rest [simp]: "pa_custom (set_flag p m b s) = pa_custom s" "pa_detected (set_flag p m b s) = pa_detected s"
  by (simp_all add: set_flag_def)

lemma flag_enable_new: "flag p m (enable_new path s mib) = (if p = path \<and> m = mib \<and> flag p m s = None then Some True else flag p m s)"
  by (auto simp: enable_new_def)

lemma enable_new_rest [simp]: "pa_custom (enable_new path s mib) = pa_custom s" "pa_detected (enable_new path s mib) = pa_detected s"
  by (simp_all add: enable_new_def)

lemma flag_fold: "flag p m (foldl (enable_new path) s mibs) = (if p = path \<and> m \<in> set mibs \<and> flag p m s = None then Some True else flag p m s)"
proof (cases "p = path")
  case True
  show ?thesis unfolding True by (induction mibs arbitrary: s) (auto simp: flag_enable_new)
next
  case False
  then show ?thesis by (induction mibs arbitrary: s) (auto simp: flag_enable_new)
qed

lemma fold_rest: "pa_custom (foldl (enable_new path) s mibs) = pa_custom s" "pa_detected (foldl (enable_new path) s mibs) = pa_detected s"
  by (induction mibs arbitrary: s) auto

lemma flag_update [simp]: "flag p m (s\<lparr>pa_detected := d\<rparr>) = flag p m s" "flag p m (s\<lparr>pa_custom := c\<rparr>) = flag p m s"
  by (simp_all add: flag_def flags_of_def)

lemma flag_detected: "flag p m (setDetectedMibs path mibs s) = (if p = path \<and> m \<in> set mibs \<and> flag p m s = None then Some True else flag p m s)"
  by (auto simp: setDetectedMibs_def flag_fold)

lemma flag_all: "flag p m (foldl (\<lambda>s mib. set_flag path mib b s) s mibs) = (if p = path \<and> m \<in> set mibs then Some b else flag p m s)"
  by (induction mibs arbitrary: s) auto

text \<open>The choices for a path outlive it: a path that is added again has them.\<close>

lemma removed_path_is_remembered: "flag p m (removePath path s) = flag p m s"
  by (simp add: removePath_def flag_def flags_of_def)

text \<open>A scan, an added path or a removed one: what happens to the list without the operator touching a file.\<close>

datatype path_event = Scanned string "string list option" | PathAdded string | PathRemoved string

fun path_step :: "mib_paths \<Rightarrow> path_event \<Rightarrow> mib_paths" where
  "path_step s (Scanned p listed) = scanPathForMibs p listed s"
| "path_step s (PathAdded p) = fst (addPath p s)"
| "path_step s (PathRemoved p) = removePath p s"

lemma step_keeps_off: "flag p m s = Some False \<Longrightarrow> flag p m (path_step s e) = Some False"
  by (cases e) (simp_all add: scanPathForMibs_def flag_detected addPath_def removed_path_is_remembered)

text \<open>
  C36. A file the operator switched off in the default directory is not loaded, however often directories are scanned,
  added and removed after that, unless a directory added by hand has a file of the same name that is on.
\<close>

theorem switched_off_stays_off:
  assumes "flag path mib s = Some True" "s' = foldl path_step (toggleMib path mib s) events"
    and "\<And>p ms. p \<in> set (pa_custom s') \<Longrightarrow> map_of (pa_detected s') p = Some ms \<Longrightarrow> mib \<in> set ms \<Longrightarrow> flag p mib s' = Some False"
  shows "mib \<notin> set (getEnabledMibFiles path (Some files) s')"
proof -
  have "flag path mib (foldl path_step (toggleMib path mib s) es) = Some False" for es
    using assms(1) by (induction es rule: rev_induct) (auto simp: step_keeps_off toggleMib_def)
  then have "flag path mib s' = Some False" using assms(2) by simp
  then show ?thesis using assms(3) by (fastforce simp: getEnabledMibFiles_def switched_on_def split: option.splits)
qed

text \<open>Off, then the directory scanned again and another one added.\<close>

theorem switched_off_stays_off_witness:
  "''A'' \<notin> set (getEnabledMibFiles ''d'' (Some [''A'', ''B''])
     (foldl path_step (toggleMib ''d'' ''A'' (setDetectedMibs ''d'' [''A''] no_paths)) [Scanned ''d'' (Some [''A'', ''B'']), PathAdded ''e'']))"
proof -
  let ?s = "setDetectedMibs ''d'' [''A''] no_paths" and ?es = "[Scanned ''d'' (Some [''A'', ''B'']), PathAdded ''e'']"
  let ?s' = "foldl path_step (toggleMib ''d'' ''A'' ?s) ?es"
  have f: "flag ''d'' ''A'' ?s = Some True" by code_simp
  have "pa_custom ?s' = [''e'']" "map_of (pa_detected ?s') ''e'' = None" by code_simp+
  then show ?thesis using switched_off_stays_off[OF f refl, of ?es "[''A'', ''B'']"] by simp
qed

text \<open>A file that is on disk and was never switched off is loaded, known to the store or not.\<close>

lemma on_disk_is_loaded:
  "listed = Some files \<Longrightarrow> mib \<in> set files \<Longrightarrow> flag path mib s \<noteq> Some False \<Longrightarrow> mib \<in> set (getEnabledMibFiles path listed s)"
  by (simp add: getEnabledMibFiles_def switched_on_def)

text \<open>A file without a flag counts as on, and its first toggle writes that it is on.\<close>

lemma first_toggle_does_nothing:
  "flag path mib s = None \<Longrightarrow> switched_on path mib s \<and> switched_on path mib (toggleMib path mib s)"
  by (simp add: switched_on_def toggleMib_def)

lemma all_off: "map_of (pa_detected s) path = Some ms \<Longrightarrow> m \<in> set ms \<Longrightarrow> flag path m (fst (disableAllInPath path s)) = Some False"
  by (simp add: disableAllInPath_def set_all_def flag_all)

text \<open>The diagnosis of a file asked for earlier does not replace the one asked for last.\<close>

lemma late_diagnosis_dropped:
  "diagnosis_begin f s = (s1, t1) \<Longrightarrow> diagnosis_begin g s1 = (s2, t2) \<Longrightarrow>
   ms_diagnosis (diagnosis_end t1 f a (diagnosis_end t2 g b s2)) = ms_diagnosis (diagnosis_end t2 g b s2) \<and>
   ms_diagnosisFor (diagnosis_end t1 f a (diagnosis_end t2 g b s2)) = g"
  by (auto simp: diagnosis_begin_def diagnosis_end_def)

end
