(* ===== verification/App_Shell.thy ===== *)
theory App_Shell
  imports Mib_Files Js_Number
begin

text \<open>
  The shell: the scripts of \<open>frontend/src/App.svelte\<close> and \<open>SettingsModal.svelte\<close>, and the stores
  \<open>tabRequest.js\<close>, \<open>settingsRequest.js\<close> and \<open>updateStore.js\<close>. What happens outside is an argument: answers of
  the bridge, the theme of the system, the document. The lemmas show where a dropped file goes and that it is
  accounted for, that the size of the panel stays within its bounds, and which dialogs close.
\<close>

section \<open>The panel of the tree\<close>

text \<open>A width that is not a number is \<open>None\<close>.\<close>

record side_panel =
  sp_width :: "int option"
  sp_collapsed :: bool
  sp_resizing :: "(int \<times> int option) option"
  sp_saved :: "(string \<times> string) list"

definition MIN_PANEL :: int where "MIN_PANEL = 250"
definition MAX_PANEL :: int where "MAX_PANEL = 800"

definition parse_int :: "string \<Rightarrow> int option" where
  "parse_int s = (let (neg, r) = take_sign (dropWhile is_space s); ds = takeWhile is_ascii_digit r in
     if ds = [] then None else Some (if neg then - int (read_base 10 ds) else int (read_base 10 ds)))"

definition loadPanelWidth :: "side_panel \<Rightarrow> side_panel" where
  "loadPanelWidth p =
     p\<lparr>sp_width := (case map_of (sp_saved p) ''snmplens_panel_width'' of Some (c # cs) \<Rightarrow> parse_int (c # cs) | _ \<Rightarrow> sp_width p),
       sp_collapsed := (map_of (sp_saved p) ''snmplens_panel_collapsed'' = Some ''1'')\<rparr>"

definition savePanelWidth :: "side_panel \<Rightarrow> side_panel" where
  "savePanelWidth p = p\<lparr>sp_saved :=
     put ''snmplens_panel_collapsed'' (if sp_collapsed p then ''1'' else ''0'')
       (put ''snmplens_panel_width'' (case sp_width p of Some w \<Rightarrow> show_int w | None \<Rightarrow> ''NaN'') (sp_saved p))\<rparr>"

definition clamp_width :: "int \<Rightarrow> int" where
  "clamp_width w = max MIN_PANEL (min MAX_PANEL w)"

definition panel_drag_start :: "int \<Rightarrow> side_panel \<Rightarrow> side_panel" where
  "panel_drag_start x p = (if sp_collapsed p then p else p\<lparr>sp_resizing := Some (x, sp_width p)\<rparr>)"

definition handleMouseMove :: "int \<Rightarrow> side_panel \<Rightarrow> side_panel" where
  "handleMouseMove x p = (case sp_resizing p of None \<Rightarrow> p
     | Some (from_x, w) \<Rightarrow> p\<lparr>sp_width := map_option (\<lambda>w. clamp_width (w + (x - from_x))) w\<rparr>)"

definition stopResize :: "side_panel \<Rightarrow> side_panel" where
  "stopResize p = (if sp_resizing p = None then p else savePanelWidth (p\<lparr>sp_resizing := None\<rparr>))"

definition panel_key :: "string \<Rightarrow> bool \<Rightarrow> side_panel \<Rightarrow> side_panel" where
  "panel_key key shift p = (let step = (if shift then 50 else 10) in
     if sp_collapsed p then p
     else if key = ''ArrowLeft'' then p\<lparr>sp_width := map_option (\<lambda>w. clamp_width (w - step)) (sp_width p)\<rparr>
     else if key = ''ArrowRight'' then p\<lparr>sp_width := map_option (\<lambda>w. clamp_width (w + step)) (sp_width p)\<rparr>
     else if key = ''Home'' then p\<lparr>sp_width := Some (clamp_width MIN_PANEL)\<rparr>
     else if key = ''End'' then p\<lparr>sp_width := Some (clamp_width MAX_PANEL)\<rparr> else p)"

definition toggleMibPanel :: "side_panel \<Rightarrow> side_panel" where
  "toggleMibPanel p = savePanelWidth (p\<lparr>sp_collapsed := \<not> sp_collapsed p\<rparr>)"

section \<open>Theme\<close>

text \<open>The attribute of the document, if it is to have one.\<close>

definition applyTheme :: "bool \<Rightarrow> string \<Rightarrow> string option" where
  "applyTheme system_dark setting =
     (let resolved = (if setting = ''light'' \<or> setting = ''dark'' then setting else if system_dark then ''dark'' else ''light'') in
      if resolved = ''dark'' then None else Some ''light'')"

definition onSystemThemeChange :: "bool \<Rightarrow> string \<Rightarrow> string option \<Rightarrow> string option" where
  "onSystemThemeChange system_dark setting current =
     (if setting = ''system'' \<or> setting = [] then applyTheme system_dark ''system'' else current)"

section \<open>Dropped files\<close>

record copy_result =
  cr_file :: string
  cr_success :: bool
  cr_skipped :: bool
  cr_error :: string

record load_diagnostic =
  ld_file :: string
  ld_ok :: bool
  ld_error :: string

record preset_result =
  pt_file :: string
  pt_success :: bool
  pt_error :: string
  pt_problems :: int
  pt_skipped :: bool

datatype app_message =
    PresetFailed string string | PresetProblems string int | PresetImported string | ImportFailed string
  | AllSkipped nat | DropDone nat nat bool | NoFiles

definition is_preset :: "string \<Rightarrow> bool" where
  "is_preset p \<longleftrightarrow> (let e = drop (length p - 5) p in map lower_char e = ''.json'')"

text \<open>What one drop hands to each importer, in order.\<close>

definition split_drop :: "string list \<Rightarrow> string list \<times> string list" where
  "split_drop paths = (filter is_preset paths, filter (\<lambda>p. \<not> is_preset p) paths)"

definition preset_line :: "preset_result \<Rightarrow> app_message list" where
  "preset_line r = (if \<not> pt_success r then [PresetFailed (pt_file r) (pt_error r)]
     else if pt_problems r > 0 then [PresetProblems (pt_file r) (pt_problems r)]
     else if \<not> pt_skipped r then [PresetImported (pt_file r)] else [])"

definition importDroppedPresets :: "string + preset_result list \<Rightarrow> app_message list" where
  "importDroppedPresets answer = (case answer of Inl e \<Rightarrow> [ImportFailed e] | Inr rs \<Rightarrow> concat (map preset_line rs))"

text \<open>The name of a file after the last separator.\<close>

definition file_of_path :: "string \<Rightarrow> string" where
  "file_of_path p = rev (takeWhile (\<lambda>c. c \<noteq> CHR ''/'' \<and> c \<noteq> CHR 0x5C) (rev p))"

definition load_failures :: "string \<Rightarrow> string list \<Rightarrow> load_diagnostic list \<Rightarrow> (string \<times> string) list" where
  "load_failures parse_error copied diags =
     map (\<lambda>d. (ld_file d, if ld_error d \<noteq> [] then ld_error d else parse_error))
       (filter (\<lambda>d. \<not> ld_ok d \<and> ld_file d \<in> set copied) diags)"

definition copied_names :: "copy_result list \<Rightarrow> string list" where
  "copied_names rs = map cr_file (filter (\<lambda>r. cr_success r \<and> \<not> cr_skipped r) rs)"

definition copy_failures :: "copy_result list \<Rightarrow> (string \<times> string) list" where
  "copy_failures rs = map (\<lambda>r. (cr_file r, cr_error r)) (filter (\<lambda>r. \<not> cr_success r) rs)"

definition skipped_files :: "copy_result list \<Rightarrow> nat" where
  "skipped_files rs = length (filter (\<lambda>r. cr_success r \<and> cr_skipped r) rs)"

text \<open>
  The messages and the errors the dialog lists. The reload is asked for only where a file is new; a failure on the
  way, of the copy or of the reload, lists the names dropped as one error.
\<close>

definition mib_drop ::
  "string \<Rightarrow> string list \<Rightarrow> string + copy_result list \<Rightarrow> string + load_diagnostic list \<Rightarrow> app_message list \<times> (string \<times> string) list" where
  "mib_drop parse_error paths copied reload =
     (let dropped = concat (case map file_of_path paths of [] \<Rightarrow> [] | n # ns \<Rightarrow> n # map (\<lambda>m. '', '' @ m) ns) in
      case copied of Inl e \<Rightarrow> ([], [(dropped, e)])
      | Inr rs \<Rightarrow>
         (let failed = copy_failures rs; skipped = skipped_files rs; names = copied_names rs in
          if names = [] \<and> failed = [] then ([AllSkipped skipped], [])
          else if names = [] then ([], failed)
          else case reload of Inl e \<Rightarrow> ([], [(dropped, e)])
            | Inr diags \<Rightarrow>
               (let bad = load_failures parse_error names diags; errors = failed @ bad; good = int (length names) - int (length bad) in
                ((if good > 0 \<or> skipped > 0 then [DropDone (nat good) skipped (errors \<noteq> [])] else []) @
                 (if errors \<noteq> [] \<and> good = 0 \<and> skipped = 0 then [NoFiles] else []), errors))))"

text \<open>Nothing is asked of an importer that has no file.\<close>

definition handleFileDrop ::
  "string \<Rightarrow> (string list \<Rightarrow> string + preset_result list) \<Rightarrow> (string list \<Rightarrow> string + copy_result list) \<Rightarrow> string + load_diagnostic list \<Rightarrow>
   string list \<Rightarrow> app_message list \<times> (string \<times> string) list" where
  "handleFileDrop parse_error import_presets import_mibs reload paths =
     (let (presets, mibs) = split_drop paths;
          said = (if presets \<noteq> [] then importDroppedPresets (import_presets presets) else []) in
      if mibs = [] then (said, [])
      else let (msgs, errors) = mib_drop parse_error mibs (import_mibs mibs) reload in (said @ msgs, errors))"

section \<open>Tabs and dialogs\<close>

record shell =
  sh_tab :: string
  sh_highlight :: "string option"
  sh_settings :: bool
  sh_target :: "(string \<times> string) option"
  sh_targets :: bool
  sh_simulator :: bool
  sh_importErrors :: bool
  sh_pending :: "(string \<times> string \<times> string) option"
  sh_anonymous :: bool
  sh_panel :: side_panel

definition goToHistory :: "shell \<Rightarrow> shell" where
  "goToHistory s = s\<lparr>sh_tab := ''history''\<rparr>"

definition goToHistoryEntry :: "string option \<Rightarrow> shell \<Rightarrow> shell" where
  "goToHistoryEntry i s = s\<lparr>sh_highlight := i, sh_tab := ''history''\<rparr>"

text \<open>A request is taken once: the stores hold one value, which is cleared.\<close>

definition take_tab_request :: "string \<Rightarrow> shell \<Rightarrow> shell" where
  "take_tab_request name s = s\<lparr>sh_tab := name, sh_settings := False\<rparr>"

definition take_settings_request :: "string \<times> string \<Rightarrow> shell \<Rightarrow> shell" where
  "take_settings_request r s = s\<lparr>sh_target := Some r, sh_settings := True\<rparr>"

definition close_settings :: "shell \<Rightarrow> shell" where
  "close_settings s = s\<lparr>sh_settings := False, sh_target := None\<rparr>"

definition open_settings :: "shell \<Rightarrow> shell" where
  "open_settings s = s\<lparr>sh_settings := True\<rparr>"

definition handleSnmpAction :: "string \<times> string \<times> string \<Rightarrow> shell \<Rightarrow> shell" where
  "handleSnmpAction a s = s\<lparr>sh_tab := ''operations'', sh_pending := Some a\<rparr>"

definition pending_over :: "shell \<Rightarrow> shell" where
  "pending_over s = s\<lparr>sh_pending := None\<rparr>"

definition TAB_KEYS :: "(string \<times> string) list" where
  "TAB_KEYS = [(''1'', ''operations''), (''2'', ''traps''), (''3'', ''history''), (''4'', ''monitor''), (''5'', ''discovery''),
     (''6'', ''events''), (''7'', ''mibeditor''), (''8'', ''dashboard'')]"

record key_press =
  kp_key :: string
  kp_ctrl :: bool
  kp_shift :: bool
  kp_alt :: bool

definition handleGlobalKeydown :: "key_press \<Rightarrow> shell \<Rightarrow> shell" where
  "handleGlobalKeydown k s =
     (let s1 = (if kp_ctrl k \<and> \<not> kp_shift k \<and> \<not> kp_alt k
          then (case map_of TAB_KEYS (kp_key k) of Some t \<Rightarrow> s\<lparr>sh_tab := t\<rparr>
            | None \<Rightarrow> if kp_key k = ''b'' then s\<lparr>sh_panel := toggleMibPanel (sh_panel s)\<rparr>
                else if kp_key k = '','' then open_settings s else s)
          else s);
          s2 = (if kp_ctrl k \<and> kp_shift k \<and> kp_key k = ''A'' then s1\<lparr>sh_anonymous := \<not> sh_anonymous s1\<rparr> else s1) in
      if kp_key k = ''Escape''
      then (if sh_importErrors s2 then s2\<lparr>sh_importErrors := False\<rparr> else if sh_targets s2 then s2\<lparr>sh_targets := False\<rparr> else s2)
      else s2)"

definition targetCount :: "string \<Rightarrow> nat" where
  "targetCount targets = (if targets = [] then 0 else length (filter (\<lambda>t. trim t \<noteq> []) (split_on CHR 0x0A targets)))"

section \<open>The settings dialog\<close>

definition SECTIONS :: "string list" where
  "SECTIONS = [''general'', ''mibs'', ''presets'', ''snmp'', ''notify'', ''service'']"

definition opening_section :: "(string \<times> string) option \<Rightarrow> string" where
  "opening_section initial = (case initial of Some (section, _) \<Rightarrow> if section \<in> set SECTIONS then section else ''general'' | None \<Rightarrow> ''general'')"

text \<open>The copy being edited is replaced by every change of the store.\<close>

record 'a settings_dialog =
  sd_store :: 'a
  sd_edited :: 'a

definition store_changed :: "'a \<Rightarrow> 'a settings_dialog \<Rightarrow> 'a settings_dialog" where
  "store_changed v d = \<lparr>sd_store = v, sd_edited = v\<rparr>"

text \<open>What is saved, and what sessions follow: the settings before and after.\<close>

definition settings_save :: "'a settings_dialog \<Rightarrow> 'a settings_dialog \<times> 'a \<times> 'a" where
  "settings_save d = (store_changed (sd_edited d) d, sd_store d, sd_edited d)"

section \<open>Updates\<close>

record update_state =
  up_current :: string
  up_available :: bool
  up_checking :: bool
  up_latest :: string
  up_notes :: string
  up_url :: string
  up_asset :: string
  up_selfApply :: bool
  up_downloading :: bool
  up_progress :: rat
  up_error :: "string option"

definition strip_v :: "string \<Rightarrow> string" where
  "strip_v v = (case v of c # r \<Rightarrow> if c = CHR ''v'' \<or> c = CHR ''V'' then r else v | [] \<Rightarrow> [])"

definition update_initial :: update_state where
  "update_initial = \<lparr>up_current = [], up_available = False, up_checking = False, up_latest = [], up_notes = [], up_url = [], up_asset = [],
     up_selfApply = False, up_downloading = False, up_progress = 0, up_error = None\<rparr>"

definition on_progress :: "jsval \<Rightarrow> update_state \<Rightarrow> update_state" where
  "on_progress pct s = (case pct of JNum q \<Rightarrow> s\<lparr>up_progress := q\<rparr> | _ \<Rightarrow> s)"

definition loadVersion :: "string option \<Rightarrow> update_state \<Rightarrow> update_state" where
  "loadVersion answer s = (case answer of Some v \<Rightarrow> s\<lparr>up_current := strip_v v\<rparr> | None \<Rightarrow> s)"

definition check_begin :: "update_state \<Rightarrow> update_state" where
  "check_begin s = s\<lparr>up_checking := True, up_error := None\<rparr>"

text \<open>Whether the failure is thrown on is the second result.\<close>

definition check_end :: "bool \<Rightarrow> string + jsval \<Rightarrow> update_state \<Rightarrow> update_state \<times> bool" where
  "check_end silent answer s = (case answer of
     Inl e \<Rightarrow> (s\<lparr>up_checking := False, up_error := Some e\<rparr>, \<not> silent)
   | Inr info \<Rightarrow> (let word = (\<lambda>k. case jget info k of JStr v \<Rightarrow> v | _ \<Rightarrow> []); current = strip_v (word ''currentVersion'') in
       (s\<lparr>up_checking := False, up_error := (if word ''error'' \<noteq> [] then Some (word ''error'') else None),
          up_current := (if current \<noteq> [] then current else up_current s), up_available := truthy (jget info ''available''),
          up_latest := strip_v (word ''latestVersion''), up_notes := word ''releaseNotes'', up_url := word ''releaseUrl'',
          up_asset := word ''assetUrl'', up_selfApply := truthy (jget info ''canSelfApply'')\<rparr>, False)))"

definition update_applying :: "update_state \<Rightarrow> update_state" where
  "update_applying s = s\<lparr>up_downloading := True, up_progress := 0, up_error := None\<rparr>"

definition update_applied :: "string option \<Rightarrow> update_state \<Rightarrow> update_state" where
  "update_applied failure s = (case failure of Some e \<Rightarrow> s\<lparr>up_downloading := False, up_error := Some e\<rparr>
     | None \<Rightarrow> s\<lparr>up_downloading := False, up_available := False\<rparr>)"

definition dismiss_update :: "update_state \<Rightarrow> update_state" where
  "dismiss_update s = s\<lparr>up_available := False\<rparr>"

section \<open>Every dropped file is accounted for\<close>

lemma drop_split: "length (fst (split_drop ps)) + length (snd (split_drop ps)) = length ps"
  by (induction ps) (auto simp: split_drop_def)

lemma copies_add_up: "length (copied_names rs) + length (copy_failures rs) + skipped_files rs = length rs"
  by (induction rs) (auto simp: copied_names_def copy_failures_def skipped_files_def)

text \<open>With one diagnostic for a file at most, no more files can fail to load than were copied.\<close>

lemma failures_bounded:
  assumes "distinct (map ld_file diags)"
  shows "length (load_failures e names diags) \<le> length names"
proof -
  let ?fs = "filter (\<lambda>d. \<not> ld_ok d \<and> ld_file d \<in> set names) diags"
  have d: "distinct (map ld_file ?fs)" using assms by (simp add: distinct_map_filter)
  have "length (load_failures e names diags) = card (set (map ld_file ?fs))" unfolding distinct_card[OF d] by (simp add: load_failures_def)
  also have "\<dots> \<le> card (set names)" by (rule card_mono) auto
  also have "\<dots> \<le> length names" by (rule card_length)
  finally show ?thesis .
qed


definition three_copies :: "copy_result list" where
  "three_copies = [\<lparr>cr_file = ''A.mib'', cr_success = True, cr_skipped = False, cr_error = []\<rparr>,
     \<lparr>cr_file = ''B.mib'', cr_success = True, cr_skipped = False, cr_error = []\<rparr>,
     \<lparr>cr_file = ''C.txt'', cr_success = False, cr_skipped = False, cr_error = ''not a MIB''\<rparr>]"


section \<open>Bounds and dialogs\<close>

lemma clamp_bounds: "MIN_PANEL \<le> clamp_width w" "clamp_width w \<le> MAX_PANEL"
  by (simp_all add: clamp_width_def MIN_PANEL_def MAX_PANEL_def)

definition width_ok :: "side_panel \<Rightarrow> bool" where
  "width_ok p \<longleftrightarrow> (\<exists>w. sp_width p = Some w \<and> MIN_PANEL \<le> w \<and> w \<le> MAX_PANEL) \<and> (\<forall>x w. sp_resizing p = Some (x, w) \<longrightarrow> w \<noteq> None)"

text \<open>Within its bounds once, the panel stays there, whatever the mouse and the keys do.\<close>

lemma width_kept:
  assumes "width_ok p"
  shows "width_ok (panel_drag_start x p)" "width_ok (handleMouseMove x p)" "width_ok (stopResize p)"
    "width_ok (panel_key k b p)" "width_ok (toggleMibPanel p)"
proof -
  have save: "width_ok (savePanelWidth q) = width_ok q" for q by (simp add: width_ok_def savePanelWidth_def)
  obtain w where w: "sp_width p = Some w" "MIN_PANEL \<le> w" "w \<le> MAX_PANEL" "\<forall>x v. sp_resizing p = Some (x, v) \<longrightarrow> v \<noteq> None"
    using assms by (auto simp: width_ok_def)
  show "width_ok (panel_drag_start x p)" using w by (simp add: width_ok_def panel_drag_start_def)
  show "width_ok (handleMouseMove x p)" using w clamp_bounds by (auto simp: width_ok_def handleMouseMove_def split: option.splits)
  show "width_ok (stopResize p)" using assms w save by (simp add: stopResize_def) (simp add: width_ok_def)
  show "width_ok (panel_key k b p)" using w clamp_bounds by (simp add: width_ok_def panel_key_def Let_def)
  show "width_ok (toggleMibPanel p)" using w save by (simp add: toggleMibPanel_def) (simp add: width_ok_def)
qed

text \<open>The width read at the start is not held to them: what is stored can be out of bounds or no number.\<close>

lemma stored_width_not_checked:
  "sp_width (loadPanelWidth \<lparr>sp_width = Some 350, sp_collapsed = False, sp_resizing = None, sp_saved = [(''snmplens_panel_width'', ''9000'')]\<rparr>) = Some 9000"
  "sp_width (loadPanelWidth \<lparr>sp_width = Some 350, sp_collapsed = False, sp_resizing = None, sp_saved = [(''snmplens_panel_width'', ''NaN'')]\<rparr>) = None"
  by code_simp+

text \<open>The keys move the handle as the mouse does, but what they set is not written.\<close>

lemma key_resize_not_saved:
  "sp_saved (panel_key k b p) = sp_saved p"
  "sp_resizing p \<noteq> None \<Longrightarrow> sp_width p = Some w \<Longrightarrow> map_of (sp_saved (stopResize p)) ''snmplens_panel_width'' = Some (show_int w)"
  by (simp add: panel_key_def Let_def) (auto simp: stopResize_def savePanelWidth_def map_of_put)

text \<open>
  A place in the settings that was asked for outlives them where a tab request closes them: the shortcut, which is
  to open the first section, opens there.
\<close>

lemma stale_settings_target:
  "opening_section (sh_target (open_settings (take_tab_request ''mibeditor'' (take_settings_request (''snmp'', a) s)))) = ''snmp''"
  "opening_section (sh_target (open_settings (close_settings (take_settings_request (''snmp'', a) s)))) = ''general''"
  by (simp_all add: opening_section_def SECTIONS_def open_settings_def take_tab_request_def take_settings_request_def close_settings_def)

text \<open>A change of the settings made elsewhere, such as the shortcut of anonymous mode, discards what the dialog edits.\<close>

lemma edits_lost_to_change: "sd_edited (store_changed v (d\<lparr>sd_edited := e\<rparr>)) = v"
  by (simp add: store_changed_def)

text \<open>A check that was not answered never reads as up to date.\<close>

lemma unanswered_check_is_an_error:
  "check_end silent (Inl e) s = (s', thrown) \<Longrightarrow> up_error s' = Some e \<and> up_available s' = up_available s \<and> (thrown \<longleftrightarrow> \<not> silent)"
  "jget info ''error'' = JStr (c # cs) \<Longrightarrow> up_error (fst (check_end silent (Inr info) s)) = Some (c # cs)"
  by (auto simp: check_end_def Let_def)

end
