(* ===== verification/Monitor_Panel.thy ===== *)
theory Monitor_Panel
  imports Polling_Store Series_View Oid_Names
begin

text \<open>
  The panel of monitored sessions: the script of \<open>frontend/src/MonitorPanel.svelte\<close>. The form keeps a list of
  OIDs and, beside it by index, a list of alert bands that can have holes; what is shown of a session is kept by its
  id. Calls of the bridge are two steps. The lemmas show which band goes with which OID, and what a removed row does
  to them.
\<close>

section \<open>Bands by row\<close>

text \<open>An array with holes: \<open>None\<close> is an index that was never written.\<close>

type_synonym slots = "jsval option list"

definition slot_at :: "slots \<Rightarrow> nat \<Rightarrow> jsval" where
  "slot_at xs i = (if i < length xs then (case xs ! i of Some v \<Rightarrow> v | None \<Rightarrow> JUndef) else JUndef)"

text \<open>A spread reads holes as undefined, an assignment past the end leaves them, and a filter passes over them.\<close>

definition spread_slots :: "slots \<Rightarrow> slots" where
  "spread_slots xs = map (\<lambda>x. Some (case x of Some v \<Rightarrow> v | None \<Rightarrow> JUndef)) xs"

definition write_slot :: "nat \<Rightarrow> jsval \<Rightarrow> slots \<Rightarrow> slots" where
  "write_slot i v xs = (if i < length xs then xs[i := Some v] else xs @ replicate (i - length xs) None @ [Some v])"

definition filter_index :: "(nat \<Rightarrow> bool) \<Rightarrow> 'a list \<Rightarrow> 'a list" where
  "filter_index P xs = map snd (filter (\<lambda>(i, x). P i) (List.enumerate 0 xs))"

definition filter_slots :: "(nat \<Rightarrow> bool) \<Rightarrow> slots \<Rightarrow> slots" where
  "filter_slots P xs = filter (\<lambda>x. x \<noteq> None) (filter_index P xs)"

definition BLANK_BAND :: fields where
  "BLANK_BAND = [(''min'', JStr []), (''max'', JStr []), (''forSeconds'', JNum 0), (''enabled'', JBool True)]"

definition thresholdAt :: "slots \<Rightarrow> nat \<Rightarrow> fields" where
  "thresholdAt xs i = (let v = slot_at xs i in if truthy v then fields_of v else BLANK_BAND)"

definition patchThreshold :: "nat \<Rightarrow> fields \<Rightarrow> slots \<Rightarrow> slots" where
  "patchThreshold i changes xs = (let n = spread_slots xs in write_slot i (JObj (spread (thresholdAt n i) changes)) n)"

definition bound_given :: "jsval \<Rightarrow> bool" where
  "bound_given v \<longleftrightarrow> v \<noteq> JStr [] \<and> \<not> nullish v"

definition hasThreshold :: "slots \<Rightarrow> nat \<Rightarrow> bool" where
  "hasThreshold xs i \<longleftrightarrow> (let t = slot_at xs i in truthy t \<and> jget t ''enabled'' \<noteq> JBool False \<and>
     (bound_given (jget t ''min'') \<or> bound_given (jget t ''max'')))"

text \<open>A number that is not one is written as null.\<close>

definition bound_number :: "jsval \<Rightarrow> jsval" where
  "bound_number v = (if bound_given v then (case number_of v of Some q \<Rightarrow> JNum q | None \<Rightarrow> JNull) else JNull)"

definition band_payload :: "fields \<Rightarrow> jsval" where
  "band_payload t = JObj [(''min'', bound_number (fget t ''min'')), (''max'', bound_number (fget t ''max'')),
     (''forSeconds'', JNum (number_or (fget t ''forSeconds'') 0)), (''alertEnabled'', JBool True)]"

definition buildThresholdMap :: "string list \<Rightarrow> slots \<Rightarrow> fields" where
  "buildThresholdMap oids xs = foldl (\<lambda>m (i, raw). let oid = trim raw in
     if oid = [] \<or> \<not> hasThreshold xs i then m else fset oid (band_payload (thresholdAt xs i)) m) [] (List.enumerate 0 oids)"

section \<open>The form\<close>

definition MAX_OIDS :: nat where "MAX_OIDS = 8"

record poll_form =
  pf_name :: string
  pf_oids :: "string list"
  pf_bands :: slots
  pf_open :: "nat option"
  pf_interval :: rat
  pf_version :: string
  pf_excluded :: "string list"

definition addOid :: "poll_form \<Rightarrow> poll_form" where
  "addOid f = (if length (pf_oids f) < MAX_OIDS then f\<lparr>pf_oids := pf_oids f @ [[]]\<rparr> else f)"

definition removeOid :: "nat \<Rightarrow> poll_form \<Rightarrow> poll_form" where
  "removeOid i f = (let oids = filter_index (\<lambda>j. j \<noteq> i) (pf_oids f) in
     f\<lparr>pf_oids := (if oids = [] then [[]] else oids), pf_bands := filter_slots (\<lambda>j. j \<noteq> i) (pf_bands f),
       pf_open := (if pf_open f = Some i then None else pf_open f)\<rparr>)"

definition togglePollTarget :: "string \<Rightarrow> poll_form \<Rightarrow> poll_form" where
  "togglePollTarget t f = f\<lparr>pf_excluded := (if t \<in> set (pf_excluded f) then filter (\<lambda>x. x \<noteq> t) (pf_excluded f) else pf_excluded f @ [t])\<rparr>"

definition setAllTargets :: "bool \<Rightarrow> string list \<Rightarrow> poll_form \<Rightarrow> poll_form" where
  "setAllTargets on available f = f\<lparr>pf_excluded := (if on then [] else available)\<rparr>"

definition selectedTargets :: "string list \<Rightarrow> poll_form \<Rightarrow> string list" where
  "selectedTargets available f = filter (\<lambda>t. t \<notin> set (pf_excluded f)) available"

datatype start_message = EnterOid | ConfigureTarget | NoTarget

record start_call =
  st_oids :: "string list"
  st_targets :: "string list"
  st_interval :: rat
  st_bands :: fields
  st_version :: string
  st_name :: string

definition handleStartPolling :: "string list \<Rightarrow> poll_form \<Rightarrow> start_message + start_call" where
  "handleStartPolling available f =
     (let oids = filter (\<lambda>x. x \<noteq> []) (map trim (pf_oids f)); targets = selectedTargets available f in
      if oids = [] then Inl EnterOid
      else if available = [] then Inl ConfigureTarget
      else if targets = [] then Inl NoTarget
      else Inr \<lparr>st_oids = oids, st_targets = targets, st_interval = pf_interval f, st_bands = buildThresholdMap (pf_oids f) (pf_bands f),
        st_version = pf_version f, st_name = trim (pf_name f)\<rparr>)"

text \<open>A band in words; \<open>name\<close> is \<open>oidName\<close> on the tree.\<close>

definition band_text :: "jsval \<Rightarrow> string" where
  "band_text t =
     (let parts = (if \<not> nullish (jget t ''min'') then [''min '' @ show_val (jget t ''min'')] else []) @
          (if \<not> nullish (jget t ''max'') then [''max '' @ show_val (jget t ''max'')] else []) @
          (if truthy (jget t ''forSeconds'') then [show_val (jget t ''forSeconds'') @ ''s''] else [])
      in if parts = [] then DASH else join_text [CHR '' '', CHR 0xB7, CHR '' ''] parts)"

definition describeThresholds :: "(string \<Rightarrow> string) \<Rightarrow> jsval \<Rightarrow> string" where
  "describeThresholds name bands = join_with CHR 0x0A (map (\<lambda>(o', t). name o' @ '' : '' @ band_text t) (fields_of bands))"

section \<open>What is shown\<close>

record session_views =
  vw_viewModes :: "(string \<times> string) list"
  vw_displayModes :: "(string \<times> string) list"
  vw_layoutModes :: "(string \<times> string) list"
  vw_hidden :: "(string \<times> string list) list"
  vw_chartOpts :: "(string \<times> string) list"
  vw_statsSel :: "(string \<times> string list) list"
  vw_statsScope :: "(string \<times> string) list"
  vw_collapsed :: "(string \<times> bool) list"
  vw_showStats :: "(string \<times> bool) list"
  vw_showLatency :: "(string \<times> bool) list"
  vw_showTable :: "(string \<times> bool) list"
  vw_ranges :: "(string \<times> rat \<times> rat) list"
  vw_autoMode :: "string list"
  vw_stats :: "(string \<times> jsval) list"

definition put_key :: "string \<Rightarrow> 'v \<Rightarrow> (string \<times> 'v) list \<Rightarrow> (string \<times> 'v) list" where
  "put_key k v xs = (k, v) # filter (\<lambda>(k', _). k' \<noteq> k) xs"

definition unkeyed :: "string \<Rightarrow> (string \<times> 'v) list \<Rightarrow> (string \<times> 'v) list" where
  "unkeyed k xs = filter (\<lambda>(k', _). k' \<noteq> k) xs"

definition flipped :: "string \<Rightarrow> (string \<times> bool) list \<Rightarrow> (string \<times> bool) list" where
  "flipped k xs = put_key k (map_of xs k \<noteq> Some True) xs"

definition toggleCollapsed :: "string \<Rightarrow> session_views \<Rightarrow> session_views" where
  "toggleCollapsed i v = v\<lparr>vw_collapsed := flipped i (vw_collapsed v)\<rparr>"

definition statsFor :: "session_views \<Rightarrow> string \<Rightarrow> string list" where
  "statsFor v i = (case map_of (vw_statsSel v) i of Some l \<Rightarrow> l | None \<Rightarrow> DEFAULT_STATS)"

definition scopeFor :: "session_views \<Rightarrow> string \<Rightarrow> string" where
  "scopeFor v i = (case map_of (vw_statsScope v) i of Some (c # cs) \<Rightarrow> c # cs | _ \<Rightarrow> ''window'')"

definition setStats :: "string \<Rightarrow> string list \<Rightarrow> session_views \<Rightarrow> session_views" where
  "setStats i l v = v\<lparr>vw_statsSel := put_key i l (vw_statsSel v)\<rparr>"

definition setScope :: "string \<Rightarrow> string \<Rightarrow> session_views \<Rightarrow> session_views" where
  "setScope i s v = v\<lparr>vw_statsScope := put_key i s (vw_statsScope v)\<rparr>"

definition noteRange :: "string \<Rightarrow> rat \<times> rat \<Rightarrow> session_views \<Rightarrow> session_views" where
  "noteRange i r v = (if map_of (vw_ranges v) i = Some r then v else v\<lparr>vw_ranges := put_key i r (vw_ranges v)\<rparr>)"

definition saveChartOpts :: "string \<Rightarrow> string \<Rightarrow> session_views \<Rightarrow> session_views" where
  "saveChartOpts i opts v = (if map_of (vw_chartOpts v) i = Some opts then v else v\<lparr>vw_chartOpts := put_key i opts (vw_chartOpts v)\<rparr>)"

definition setHidden :: "string \<Rightarrow> string list \<Rightarrow> session_views \<Rightarrow> session_views" where
  "setHidden i keys v = v\<lparr>vw_hidden := put_key i keys (vw_hidden v)\<rparr>"

definition setLayout :: "string \<Rightarrow> string \<Rightarrow> session_views \<Rightarrow> session_views" where
  "setLayout i l v = v\<lparr>vw_layoutModes := put_key i l (vw_layoutModes v)\<rparr>"

definition setViewMode :: "string \<Rightarrow> string \<Rightarrow> session_views \<Rightarrow> session_views" where
  "setViewMode i m v = v\<lparr>vw_viewModes := put_key i m (vw_viewModes v)\<rparr>"

definition setDisplayMode :: "string \<Rightarrow> string \<Rightarrow> session_views \<Rightarrow> session_views" where
  "setDisplayMode i m v = v\<lparr>vw_displayModes := put_key i m (vw_displayModes v)\<rparr>"

definition toggleLatency :: "string \<Rightarrow> session_views \<Rightarrow> session_views" where
  "toggleLatency i v = v\<lparr>vw_showLatency := flipped i (vw_showLatency v)\<rparr>"

definition toggleHistoryTable :: "string \<Rightarrow> session_views \<Rightarrow> session_views" where
  "toggleHistoryTable i v = v\<lparr>vw_showTable := flipped i (vw_showTable v)\<rparr>"

text \<open>Whether the statistics are asked for is the second result.\<close>

definition toggleStats :: "string \<Rightarrow> session_views \<Rightarrow> session_views \<times> bool" where
  "toggleStats i v = (let v' = v\<lparr>vw_showStats := flipped i (vw_showStats v)\<rparr> in
     (v', map_of (vw_showStats v') i = Some True \<and> (case map_of (vw_stats v) i of Some s \<Rightarrow> \<not> truthy s | None \<Rightarrow> True)))"

definition loadStats :: "string \<Rightarrow> jsval option \<Rightarrow> session_views \<Rightarrow> session_views" where
  "loadStats i answer v = (case answer of Some s \<Rightarrow> v\<lparr>vw_stats := put_key i s (vw_stats v)\<rparr> | None \<Rightarrow> v)"

definition view_mode :: "session_views \<Rightarrow> string \<Rightarrow> string" where
  "view_mode v i = (case map_of (vw_viewModes v) i of Some (c # cs) \<Rightarrow> c # cs | _ \<Rightarrow> ''raw'')"

definition first_type :: "session \<Rightarrow> jsval option" where
  "first_type s = map_option (\<lambda>r. fget r ''snmpType'') (List.find (\<lambda>r. truthy (fget r ''snmpType'')) (s_results s))"

definition auto_mode :: "session_views \<Rightarrow> session \<Rightarrow> session_views" where
  "auto_mode v s = (case first_type s of None \<Rightarrow> v
     | Some t \<Rightarrow>
         if s_id s \<in> set (vw_autoMode v) then v
         else let v' = v\<lparr>vw_autoMode := s_id s # vw_autoMode v\<rparr> in
           if isCounterType (str t) \<and> view_mode v (s_id s) = ''raw'' then setViewMode (s_id s) ''rate'' v' else v')"

definition auto_modes :: "session list \<Rightarrow> session_views \<Rightarrow> session_views" where
  "auto_modes ss v = foldl auto_mode v ss"

text \<open>What the start does once the sessions are there.\<close>

definition polling_started :: "string list \<Rightarrow> session_views \<Rightarrow> session_views" where
  "polling_started ids v = foldl (\<lambda>v i. setLayout i ''separate'' (setDisplayMode i ''graph'' (setViewMode i ''raw'' v))) v ids"

definition handleRemove :: "string \<Rightarrow> session_views \<Rightarrow> session_views" where
  "handleRemove i v = v\<lparr>vw_chartOpts := unkeyed i (vw_chartOpts v), vw_collapsed := unkeyed i (vw_collapsed v),
     vw_statsSel := unkeyed i (vw_statsSel v), vw_statsScope := unkeyed i (vw_statsScope v), vw_ranges := unkeyed i (vw_ranges v),
     vw_hidden := unkeyed i (vw_hidden v), vw_layoutModes := unkeyed i (vw_layoutModes v),
     vw_viewModes := unkeyed i (vw_viewModes v), vw_displayModes := unkeyed i (vw_displayModes v)\<rparr>"

section \<open>Stored history\<close>

definition TWO_HOURS_MS :: rat where "TWO_HOURS_MS = 2 * 3600 * 1000"
definition TARGET_BUCKETS :: rat where "TARGET_BUCKETS = 500"

record stored_history =
  hv_loading :: bool
  hv_results :: "fields list option"
  hv_buckets :: "fields list option"
  hv_info :: "(bool \<times> int \<times> nat) option"

datatype history_call = RawPoints | Buckets int
datatype history_message = InvalidRange | NoHistoricalData | Aggregated nat int | HistoryLoaded nat | HistoryFailed

definition bucket_seconds :: "rat \<Rightarrow> int" where
  "bucket_seconds ms = max 60 (js_round (ms / 1000 / TARGET_BUCKETS))"

text \<open>The times as numbers; a range that is empty, reversed or no number is refused.\<close>

definition history_begin :: "rat option \<Rightarrow> rat option \<Rightarrow> stored_history \<Rightarrow> stored_history \<times> (history_message + history_call)" where
  "history_begin from to h = (case num_diff to from of
     Some ms \<Rightarrow> if ms > 0
       then (h\<lparr>hv_loading := True, hv_results := None, hv_buckets := None\<rparr>,
             Inr (if ms > TWO_HOURS_MS then Buckets (bucket_seconds ms) else RawPoints))
       else (h, Inl InvalidRange)
   | None \<Rightarrow> (h, Inl InvalidRange))"

definition history_answer :: "history_call \<Rightarrow> fields list option \<Rightarrow> stored_history \<Rightarrow> stored_history \<times> history_message" where
  "history_answer call answer h =
     (case answer of None \<Rightarrow> (h\<lparr>hv_loading := False\<rparr>, HistoryFailed)
      | Some [] \<Rightarrow> (h\<lparr>hv_loading := False\<rparr>, NoHistoricalData)
      | Some rows \<Rightarrow> (case call of
            Buckets sec \<Rightarrow> (h\<lparr>hv_buckets := Some rows, hv_info := Some (True, sec, length rows), hv_loading := False\<rparr>, Aggregated (length rows) sec)
          | RawPoints \<Rightarrow> (h\<lparr>hv_results := Some rows, hv_info := Some (False, 0, length rows), hv_loading := False\<rparr>, HistoryLoaded (length rows))))"

definition clearHistorical :: "stored_history \<Rightarrow> stored_history" where
  "clearHistorical h = h\<lparr>hv_results := None, hv_buckets := None, hv_info := None\<rparr>"

section \<open>A band stays with its OID\<close>

lemma filter_index_shift: "map snd (filter (\<lambda>(j, _). j \<noteq> n + i) (List.enumerate n xs)) = take i xs @ drop (Suc i) xs"
proof (induction xs arbitrary: i n)
  case (Cons x xs)
  show ?case
  proof (cases i)
    case 0
    have "filter (\<lambda>(j, _). j \<noteq> n) (List.enumerate (Suc n) xs) = List.enumerate (Suc n) xs"
      by (rule filter_True) (auto simp: in_set_enumerate_eq)
    then show ?thesis using 0 by simp
  next
    case (Suc j)
    then show ?thesis using Cons.IH[of "Suc n" j] by simp
  qed
qed simp

lemma filter_index_without: "filter_index (\<lambda>j. j \<noteq> i) xs = take i xs @ drop (Suc i) xs"
  using filter_index_shift[of 0 i xs] by (simp add: filter_index_def)

definition no_holes :: "slots \<Rightarrow> bool" where
  "no_holes xs \<longleftrightarrow> None \<notin> set xs"

lemma filter_slots_without: "no_holes xs \<Longrightarrow> filter_slots (\<lambda>j. j \<noteq> i) xs = take i xs @ drop (Suc i) xs"
  unfolding filter_slots_def filter_index_without
  by (rule filter_True) (metis Un_iff in_set_dropD in_set_takeD no_holes_def set_append)

lemma slot_at_without: "slot_at (take i xs @ drop (Suc i) xs) j = slot_at xs (if j < i then j else Suc j)"
  by (cases "i < length xs") (auto simp: slot_at_def nth_append min_def)

text \<open>
  C38. Removing a row of the form keeps every other OID with its alert band, as long as the list of bands was written
  without gaps.
\<close>

theorem bands_follow_their_oid:
  assumes "no_holes (pf_bands f)" "i < length (pf_oids f)" "j < length (pf_oids f) - 1"
  shows "pf_oids (removeOid i f) ! j = pf_oids f ! (if j < i then j else Suc j) \<and>
    thresholdAt (pf_bands (removeOid i f)) j = thresholdAt (pf_bands f) (if j < i then j else Suc j) \<and>
    (hasThreshold (pf_bands (removeOid i f)) j \<longleftrightarrow> hasThreshold (pf_bands f) (if j < i then j else Suc j))"
proof (intro conjI)
  have ne: "take i (pf_oids f) @ drop (Suc i) (pf_oids f) \<noteq> []" using assms(2,3) by (cases i) auto
  show "pf_oids (removeOid i f) ! j = pf_oids f ! (if j < i then j else Suc j)"
  proof -
    have "pf_oids (removeOid i f) = take i (pf_oids f) @ drop (Suc i) (pf_oids f)"
      unfolding removeOid_def filter_index_without Let_def using ne by (simp del: append_is_Nil_conv)
    then show ?thesis using assms(2,3) by (simp add: nth_append min_def)
  qed
  show "thresholdAt (pf_bands (removeOid i f)) j = thresholdAt (pf_bands f) (if j < i then j else Suc j)"
    "hasThreshold (pf_bands (removeOid i f)) j \<longleftrightarrow> hasThreshold (pf_bands f) (if j < i then j else Suc j)"
    using assms(1) by (simp_all add: removeOid_def filter_slots_without Let_def thresholdAt_def hasThreshold_def slot_at_without)
qed

definition three_rows :: "slots \<Rightarrow> poll_form" where
  "three_rows bands = \<lparr>pf_name = [], pf_oids = [''a'', ''b'', ''c''], pf_bands = bands, pf_open = Some 2, pf_interval = 5000,
     pf_version = ''v2c'', pf_excluded = []\<rparr>"

definition high_band :: jsval where
  "high_band = JObj [(''min'', JStr []), (''max'', JNum 90), (''forSeconds'', JNum 0), (''enabled'', JBool True)]"

theorem bands_follow_their_oid_witness:
  "pf_oids (removeOid 0 (three_rows [Some JNull, Some JNull, Some high_band])) ! 1 = ''c'' \<and>
   hasThreshold (pf_bands (removeOid 0 (three_rows [Some JNull, Some JNull, Some high_band]))) 1"
proof -
  let ?f = "three_rows [Some JNull, Some JNull, Some high_band]"
  have h: "no_holes (pf_bands ?f)" "0 < length (pf_oids ?f)" "1 < length (pf_oids ?f) - 1" by code_simp+
  have "pf_oids ?f ! 2 = ''c''" "hasThreshold (pf_bands ?f) 2" by code_simp+
  then show ?thesis using bands_follow_their_oid[OF h] by (simp add: numeral_2_eq_2)
qed

text \<open>
  The band of the third row only: the list has gaps, which a removal closes, so the band goes to the second row's OID.
\<close>

lemma band_moves_to_another_oid:
  "(let f = three_rows (patchThreshold 2 (fields_of high_band) []); g = removeOid 0 f in
    map fst (buildThresholdMap (pf_oids f) (pf_bands f)) = [''c''] \<and>
    map fst (buildThresholdMap (pf_oids g) (pf_bands g)) = [''b''])"
  by code_simp

text \<open>The band editor stays open at its index, so after a removal it is another row's.\<close>

lemma open_editor_is_not_shifted:
  "pf_open (removeOid 0 (three_rows [])) = Some 2 \<and> length (pf_oids (removeOid 0 (three_rows []))) = 2"
  by code_simp

lemma spread_no_holes: "no_holes (spread_slots xs)"
  by (auto simp: no_holes_def spread_slots_def)

lemma patch_in_place: "i \<le> length xs \<Longrightarrow> no_holes (patchThreshold i c xs)"
proof -
  assume "i \<le> length xs"
  then have "no_holes (write_slot i v (spread_slots xs))" for v
    using spread_no_holes[of xs] set_update_subset_insert[of "spread_slots xs" i "Some v"]
    by (auto simp: no_holes_def write_slot_def spread_slots_def)
  then show ?thesis by (simp add: patchThreshold_def Let_def)
qed

section \<open>Modes and history\<close>

lemma put_key_lookup [simp]: "map_of (put_key k v xs) k' = (if k' = k then Some v else map_of xs k')"
proof -
  have "k' \<noteq> k \<Longrightarrow> map_of (filter (\<lambda>(x, _). x \<noteq> k) xs) k' = map_of xs k'" by (induction xs) auto
  then show ?thesis by (auto simp: put_key_def)
qed

lemma unkeyed_lookup [simp]: "map_of (unkeyed k xs) k' = (if k' = k then None else map_of xs k')"
  by (induction xs) (auto simp: unkeyed_def)

text \<open>A counter is switched to its rate once; a choice made after that stands.\<close>

lemma auto_mode_once: "s_id s \<in> set (vw_autoMode v) \<Longrightarrow> auto_mode v s = v"
  by (simp add: auto_mode_def split: option.splits)

lemma auto_mode_rate:
  assumes "first_type s = Some t" "isCounterType (str t)" "s_id s \<notin> set (vw_autoMode v)" "view_mode v (s_id s) = ''raw''"
  shows "view_mode (auto_mode v s) (s_id s) = ''rate''" "s_id s \<in> set (vw_autoMode (auto_mode v s))"
  using assms by (simp_all add: auto_mode_def setViewMode_def view_mode_def)

text \<open>
  The start answers when the last group is created. A first sample that arrives before has the counter shown as a
  rate, and the start puts it back to raw, for good.
\<close>

lemma counter_left_raw:
  assumes "first_type s = Some t"
  shows "view_mode (auto_mode (polling_started [s_id s] (auto_mode v s)) s) (s_id s) = ''raw''"
proof -
  have "s_id s \<in> set (vw_autoMode (polling_started [s_id s] (auto_mode v s)))"
    using assms by (auto simp: polling_started_def auto_mode_def setLayout_def setDisplayMode_def setViewMode_def Let_def)
  then show ?thesis
    by (simp add: auto_mode_once) (simp add: polling_started_def setLayout_def setDisplayMode_def setViewMode_def view_mode_def)
qed

lemma removed_session_forgotten:
  "view_mode (handleRemove i v) i = ''raw''" "statsFor (handleRemove i v) i = DEFAULT_STATS" "map_of (vw_hidden (handleRemove i v)) i = None"
  "i' \<noteq> i \<Longrightarrow> view_mode (handleRemove i v) i' = view_mode v i'"
  by (simp_all add: handleRemove_def view_mode_def statsFor_def)

text \<open>A long range asks for buckets of a minute at least, about five hundred of them.\<close>

lemma bucket_seconds_bounds:
  assumes "TWO_HOURS_MS < ms"
  shows "60 \<le> bucket_seconds ms" "ms / 1000 \<le> of_int (bucket_seconds ms) * (TARGET_BUCKETS + 500)"
proof -
  show "60 \<le> bucket_seconds ms" by (simp add: bucket_seconds_def)
  let ?q = "ms / 1000 / 500"
  have r: "?q \<le> of_int (js_round ?q) + 1" unfolding js_round_def by linarith
  have m: "js_round ?q \<le> bucket_seconds ms" "60 \<le> bucket_seconds ms" by (simp_all add: bucket_seconds_def TARGET_BUCKETS_def)
  then have "?q \<le> of_int (bucket_seconds ms) + 1" using r by linarith
  moreover have "(60 :: rat) \<le> of_int (bucket_seconds ms)" using m(2) by linarith
  ultimately have "ms / 1000 \<le> of_int (bucket_seconds ms) * 1000" by linarith
  then show "ms / 1000 \<le> of_int (bucket_seconds ms) * (TARGET_BUCKETS + 500)" by (simp add: TARGET_BUCKETS_def)
qed

text \<open>Two ranges asked for one after the other: both answers are kept, whichever was asked last.\<close>

lemma history_of_two_ranges:
  assumes "history_begin a b h = (h1, Inr (Buckets n))" "history_begin c d h1 = (h2, Inr RawPoints)"
  shows "(let (h3, _) = history_answer RawPoints (Some (p # ps)) h2; (h4, _) = history_answer (Buckets n) (Some (q # qs)) h3
    in hv_results h4 = Some (p # ps) \<and> hv_buckets h4 = Some (q # qs) \<and> hv_info h4 = Some (True, n, Suc (length qs)))"
  by (simp add: history_answer_def)

end
