(* ===== verification/Notify_Settings.thy ===== *)
theory Notify_Settings
  imports Mib_Files Oid_Names Js_Number
begin

text \<open>
  Notification settings: the script of \<open>frontend/src/settings/NotifySettings.svelte\<close>. A destination (sink) is an
  object with nested objects, and the form edits the nested ones in place, so they live in a store of objects and a
  row of the list or the form refers to them. The bridge is an argument. The lemmas show that headers and recipients
  read back, that a typed priority is kept, and what closing the form leaves behind.
\<close>

definition CATEGORIES :: "string list" where
  "CATEGORIES = [''trap'', ''threshold'', ''reachability'', ''system'']"

definition SEVERITIES :: "string list" where
  "SEVERITIES = [''info'', ''warning'', ''minor'', ''major'', ''critical'']"

definition DELIVERY_STATES :: "(string \<times> string) list" where
  "DELIVERY_STATES = [([], ''deliveryStateAll''), (''pending'', ''deliveryStatePending''), (''sent'', ''deliveryStateSent''),
     (''dead'', ''deliveryStateDead'')]"

section \<open>Blank forms\<close>

definition newSink :: "string \<Rightarrow> fields" where
  "newSink kind =
     [(''id'', JStr []), (''name'', JStr []), (''kind'', JStr kind), (''enabled'', JBool True), (''redact'', JBool False),
      (''secret'', JStr []), (''hasSecret'', JBool False),
      (''template'', JObj [(''subject'', JStr []), (''body'', JStr [])]),
      (''syslog'', JObj [(''address'', JStr []), (''protocol'', JStr ''udp''), (''facility'', JNum 16), (''hostname'', JStr []),
         (''appName'', JStr ''SnmpLens''), (''timeout'', JNum 5), (''caCert'', JStr []), (''serverName'', JStr []),
         (''insecureSkipVerify'', JBool False), (''clientCert'', JStr []), (''omitStructuredData'', JBool False)]),
      (''webhook'', JObj [(''url'', JStr []), (''method'', JStr ''POST''), (''headers'', JObj []), (''timeout'', JNum 10),
         (''payloadMode'', JStr ''envelope''), (''bodyFormat'', JStr ''json''), (''allowPlaintextHttp'', JBool False),
         (''caCert'', JStr []), (''serverName'', JStr []), (''insecureSkipVerify'', JBool False)]),
      (''email'', JObj [(''host'', JStr []), (''port'', JNum 587), (''username'', JStr []), (''from'', JStr []), (''to'', JArr []),
         (''format'', JStr ''text''), (''encryption'', JStr ''starttls''), (''authMethod'', JStr ''plain''),
         (''insecureSkipVerify'', JBool False), (''timeout'', JNum 20), (''caCert'', JStr []), (''serverName'', JStr [])])]"

definition newRoute :: fields where
  "newRoute =
     [(''id'', JStr []), (''name'', JStr []), (''enabled'', JBool True), (''priority'', JNum 100), (''stop'', JBool False),
      (''sinkIds'', JArr []),
      (''match'', JObj [(''categories'', JArr []), (''kinds'', JArr []), (''minSeverity'', JStr []), (''sources'', JArr []),
         (''oidPrefix'', JStr []), (''sessionIds'', JArr []), (''states'', JArr []), (''contains'', JStr []), (''quietHours'', JNull)])]"

section \<open>Lists typed on one line\<close>

text \<open>\<open>s.split(/[...]+/)\<close>: the pieces between runs of separators.\<close>

fun split_runs :: "('a \<Rightarrow> bool) \<Rightarrow> 'a list \<Rightarrow> 'a list list" where
  "split_runs P [] = [[]]"
| "split_runs P (c # cs) =
     (if P c then (if cs \<noteq> [] \<and> P (hd cs) then split_runs P cs else [] # split_runs P cs)
      else (c # hd (split_runs P cs)) # tl (split_runs P cs))"

definition typed_list :: "(char \<Rightarrow> bool) \<Rightarrow> string \<Rightarrow> string list" where
  "typed_list P s = filter (\<lambda>x. x \<noteq> []) (map trim (split_runs P s))"

definition comma_or_semicolon :: "char \<Rightarrow> bool" where
  "comma_or_semicolon c \<longleftrightarrow> c = CHR '','' \<or> c = CHR '';''"

definition comma_or_space :: "char \<Rightarrow> bool" where
  "comma_or_space c \<longleftrightarrow> comma_or_semicolon c \<or> is_space c"

lemma split_runs_nonempty [simp]: "split_runs P xs \<noteq> []"
  by (induction P xs rule: split_runs.induct) auto

lemma split_runs_no_sep: "l \<in> set (split_runs P xs) \<Longrightarrow> c \<in> set l \<Longrightarrow> \<not> P c"
proof (induction P xs arbitrary: l rule: split_runs.induct)
  case (2 P a as)
  then show ?case by (cases "split_runs P as") (fastforce split: if_splits)+
qed simp

text \<open>Every entry is trimmed, not empty and free of separators.\<close>

lemma typed_list_clean:
  assumes "x \<in> set (typed_list P s)"
  shows "x \<noteq> [] \<and> trim x = x \<and> (\<forall>c \<in> set x. \<not> P c)"
proof -
  obtain l where l: "l \<in> set (split_runs P s)" "x = trim l" "x \<noteq> []"
    using assms by (auto simp: typed_list_def)
  then show ?thesis using split_runs_no_sep[OF l(1)] set_trim[of l] by auto
qed

lemma split_runs_plain: "\<forall>c \<in> set l. \<not> P c \<Longrightarrow> split_runs P l = [l]"
  by (induction l) auto

lemma split_runs_append:
  "\<forall>c \<in> set l. \<not> P c \<Longrightarrow> P c \<Longrightarrow> ys = [] \<or> \<not> P (hd ys) \<Longrightarrow> split_runs P (l @ c # ys) = l # split_runs P ys"
  by (induction l) auto

definition clean_entry :: "(char \<Rightarrow> bool) \<Rightarrow> string \<Rightarrow> bool" where
  "clean_entry P x \<longleftrightarrow> x \<noteq> [] \<and> trimmed x \<and> (\<forall>c \<in> set x. \<not> P c)"

text \<open>The entries joined by a separator and anything that is trimmed away are read back as they were.\<close>

lemma typed_list_Cons:
  assumes "clean_entry P x" "P c" "ys = [] \<or> \<not> P (hd ys)"
  shows "typed_list P (x @ c # ys) = x # typed_list P ys"
  using assms by (simp add: clean_entry_def typed_list_def split_runs_append trim_trimmed)

lemma typed_list_one: "clean_entry P x \<Longrightarrow> typed_list P x = [x]"
  by (simp add: clean_entry_def typed_list_def split_runs_plain trim_trimmed)

lemma typed_list_join:
  assumes "\<forall>x \<in> set xs. clean_entry P x" "P c"
  shows "typed_list P (join_with c xs) = xs"
  using assms
proof (induction c xs rule: join_with.induct)
  case (1 sep)
  then show ?case by (simp add: typed_list_def trim_def)
next
  case (3 sep l l' ls)
  have "\<not> P (hd (join_with sep (l' # ls)))"
  proof (cases ls)
    case Nil
    with 3 show ?thesis by (auto simp: clean_entry_def)
  next
    case Cons
    with 3 show ?thesis by (auto simp: clean_entry_def)
  qed
  then have "typed_list P (l @ sep # join_with sep (l' # ls)) = l # typed_list P (join_with sep (l' # ls))"
    using 3(2,3) by (intro typed_list_Cons) auto
  also have "\<dots> = l # l' # ls" using 3 by simp
  finally show ?case by simp
qed (simp add: typed_list_one)

section \<open>Headers as lines\<close>

text \<open>Headers are kept in the order in which they were written.\<close>

definition headersToText :: "(string \<times> string) list \<Rightarrow> string" where
  "headersToText headers = join_with (CHR 0x0A) (map (\<lambda>(k, v). k @ '': '' @ v) headers)"

definition read_header :: "(string \<times> string) list \<Rightarrow> string \<Rightarrow> (string \<times> string) list" where
  "read_header out line = (case cut_at (CHR '':'') line of
       (before, Some after) \<Rightarrow> if before = [] then out else if trim before \<noteq> [] then put (trim before) (trim after) out else out
     | _ \<Rightarrow> out)"

definition textToHeaders :: "string \<Rightarrow> (string \<times> string) list" where
  "textToHeaders s = foldl read_header [] (split_on (CHR 0x0A) s)"

definition header_ok :: "string \<times> string \<Rightarrow> bool" where
  "header_ok h \<longleftrightarrow> (case h of (k, v) \<Rightarrow> k \<noteq> [] \<and> trimmed k \<and> trimmed v \<and> CHR '':'' \<notin> set k \<and> CHR 0x0A \<notin> set k \<and> CHR 0x0A \<notin> set v)"

lemma put_new: "k \<notin> fst ` set xs \<Longrightarrow> put k v xs = xs @ [(k, v)]"
  by (induction xs) auto

lemma trim_space: "trim (CHR '' '' # s) = trim s"
  by (simp add: trim_def is_space_def code_def)

lemma read_header_line:
  assumes "header_ok (k, v)" "k \<notin> fst ` set out"
  shows "read_header out (k @ '': '' @ v) = out @ [(k, v)]"
  using assms by (simp add: header_ok_def read_header_def cut_at_append trim_trimmed trim_space put_new)

lemma read_header_lines:
  "list_all header_ok hs \<Longrightarrow> distinct (map fst (out @ hs)) \<Longrightarrow>
     foldl read_header out (map (\<lambda>(k, v). k @ '': '' @ v) hs) = out @ hs"
proof (induction hs arbitrary: out)
  case (Cons h hs)
  obtain k v where h: "h = (k, v)" by (cases h)
  from Cons.prems h have "read_header out (k @ '': '' @ v) = out @ [(k, v)]"
    by (intro read_header_line) auto
  moreover have "distinct (map fst ((out @ [(k, v)]) @ hs))" using Cons.prems(2) h by auto
  ultimately show ?case using Cons.IH[of "out @ [(k, v)]"] Cons.prems(1) h by simp
qed simp

lemma headers_read_back_aux:
  assumes "list_all header_ok hs" "distinct (map fst hs)"
  shows "textToHeaders (headersToText hs) = hs"
proof (cases "hs = []")
  case True
  then show ?thesis by (simp add: textToHeaders_def headersToText_def read_header_def)
next
  case False
  have "split_on (CHR 0x0A) (headersToText hs) = map (\<lambda>(k, v). k @ '': '' @ v) hs"
    unfolding headersToText_def using assms(1) False by (intro split_join) (auto simp: list_all_iff header_ok_def)
  then show ?thesis using read_header_lines[OF assms(1), of "[]"] assms(2) by (simp add: textToHeaders_def)
qed

text \<open>Whatever is typed, the headers that are kept read back.\<close>

lemma put_keys: "fst ` set (put k v xs) = insert k (fst ` set xs)"
  by (induction k v xs rule: put.induct) auto

lemma put_distinct: "distinct (map fst xs) \<Longrightarrow> distinct (map fst (put k v xs))"
  by (induction k v xs rule: put.induct) (auto simp: put_keys)

lemma put_all: "list_all Q xs \<Longrightarrow> Q (k, v) \<Longrightarrow> list_all Q (put k v xs)"
  by (induction k v xs rule: put.induct) auto

lemma cut_at_pieces: "cut_at c s = (a, r) \<Longrightarrow> set a \<subseteq> set s \<and> (\<forall>b. r = Some b \<longrightarrow> set b \<subseteq> set s)"
  by (induction s arbitrary: a r) (auto split: if_splits simp: prod_eq_iff)

lemma read_header_ok:
  assumes "list_all header_ok out \<and> distinct (map fst out)" "CHR 0x0A \<notin> set line"
  shows "list_all header_ok (read_header out line) \<and> distinct (map fst (read_header out line))"
proof -
  obtain a r where c: "cut_at (CHR '':'') line = (a, r)" by fastforce
  have a: "CHR '':'' \<notin> set a" using cut_at_fst[of "CHR '':''" line] c by simp
  have p: "set a \<subseteq> set line" "\<And>b. r = Some b \<Longrightarrow> set b \<subseteq> set line" using cut_at_pieces[OF c] by auto
  show ?thesis
  proof (cases r)
    case (Some b)
    have "header_ok (trim a, trim b)" if "trim a \<noteq> []"
      using that a p Some assms(2) set_trim[of a] set_trim[of b] by (auto simp: header_ok_def trimmed_trim)
    then show ?thesis using c Some assms(1) by (auto simp: read_header_def intro: put_all put_distinct)
  qed (use c assms in \<open>simp add: read_header_def\<close>)
qed

lemma textToHeaders_ok: "list_all header_ok (textToHeaders s) \<and> distinct (map fst (textToHeaders s))"
proof -
  have g: "list_all header_ok (foldl read_header out ls) \<and> distinct (map fst (foldl read_header out ls))"
    if "list_all header_ok out \<and> distinct (map fst out)" "\<forall>l \<in> set ls. CHR 0x0A \<notin> set l" for out ls
    using that by (induction ls arbitrary: out) (auto simp: read_header_ok)
  then show ?thesis unfolding textToHeaders_def by (intro g) (auto dest: split_on_no_sep)
qed

lemma typed_headers_read_back: "textToHeaders (headersToText (textToHeaders s)) = textToHeaders s"
  using headers_read_back_aux textToHeaders_ok by blast


section \<open>Small readings\<close>

definition isPlaintextURL :: "string \<Rightarrow> bool" where
  "isPlaintextURL url \<longleftrightarrow> starts_with (toLowerCase (trim url)) ''http://''"

definition toggleIn :: "'a list \<Rightarrow> 'a \<Rightarrow> 'a list" where
  "toggleIn xs v = (if v \<in> set xs then filter (\<lambda>x. x \<noteq> v) xs else xs @ [v])"

lemma toggleIn_set: "set (toggleIn xs v) = (if v \<in> set xs then set xs - {v} else insert v (set xs))"
  by (auto simp: toggleIn_def)

lemma toggleIn_twice: "distinct xs \<Longrightarrow> set (toggleIn (toggleIn xs v) v) = set xs"
  by (auto simp: toggleIn_set)

definition sinkName :: "string \<Rightarrow> fields list \<Rightarrow> jsval" where
  "sinkName sid sinks = (case List.find (\<lambda>x. fget x ''id'' = JStr sid) sinks of Some s \<Rightarrow> fget s ''name'' | None \<Rightarrow> JStr sid)"

text \<open>The dash and the arrow are not among the characters of the model, and an argument.\<close>

definition describeSink :: "(jsval \<Rightarrow> string) \<Rightarrow> string \<Rightarrow> string \<Rightarrow> fields \<Rightarrow> string" where
  "describeSink text_of dash arrow s =
     (let or_dash = (\<lambda>v. if truthy v then text_of v else dash) in
      if fget s ''kind'' = JStr ''syslog'' then
        text_of (jor (jget (fget s ''syslog'') ''protocol'') (JStr ''udp'')) @ ''://'' @ or_dash (jget (fget s ''syslog'') ''address'')
      else if fget s ''kind'' = JStr ''webhook'' then or_dash (jget (fget s ''webhook'') ''url'')
      else if fget s ''kind'' = JStr ''email'' then
        or_dash (jget (fget s ''email'') ''host'') @ arrow @
        (let tos = join_text '', '' (map text_of (elems (jget (fget s ''email'') ''to''))) in if tos = [] then dash else tos)
      else [])"

definition stateLabel :: "(string \<Rightarrow> string) \<Rightarrow> string \<Rightarrow> string" where
  "stateLabel tr state = (case List.find (\<lambda>p. fst p = state) DELIVERY_STATES of Some p \<Rightarrow> tr (''notify.'' @ snd p) | None \<Rightarrow> state)"

section \<open>The screen\<close>

record delivery =
  de_id :: string
  de_state :: string

datatype notify_message =
    NameRequired | SinkSaved | SecretUnbound | Failed string | Thrown | DeliveryRetried | SecretCleared | TestSent
  | TestFailed string | RouteSaved

text \<open>A row of the list, and the form: its own fields, and where its nested objects are.\<close>

record sink_ref =
  sk_top :: fields
  sk_parts :: "(string \<times> nat) list"

record notify_screen =
  ns_objects :: "fields list"
  ns_sinks :: "sink_ref list"
  ns_routes :: "fields list"
  ns_deliveries :: "delivery list"
  ns_filter :: string
  ns_editing :: "sink_ref option"
  ns_route :: "fields option"
  ns_testing :: "string option"
  ns_backend :: string
  ns_said :: "notify_message list"

definition notify_screen0 :: notify_screen where
  "notify_screen0 = \<lparr>ns_objects = [], ns_sinks = [], ns_routes = [], ns_deliveries = [], ns_filter = [], ns_editing = None,
     ns_route = None, ns_testing = None, ns_backend = [], ns_said = []\<rparr>"

definition say :: "notify_message \<Rightarrow> notify_screen \<Rightarrow> notify_screen" where
  "say m s = s\<lparr>ns_said := ns_said s @ [m]\<rparr>"

text \<open>A new object, each nested object in a place of its own; and the value that stands there.\<close>

fun place_sink :: "fields \<Rightarrow> fields list \<Rightarrow> sink_ref \<times> fields list" where
  "place_sink [] h = (\<lparr>sk_top = [], sk_parts = []\<rparr>, h)"
| "place_sink ((k, v) # fs) h = (case v of
       JObj os \<Rightarrow> (case place_sink fs (h @ [os]) of (r, h') \<Rightarrow> (r\<lparr>sk_parts := (k, length h) # sk_parts r\<rparr>, h'))
     | _ \<Rightarrow> (case place_sink fs h of (r, h') \<Rightarrow> (r\<lparr>sk_top := (k, v) # sk_top r\<rparr>, h')))"

fun place_all :: "fields list \<Rightarrow> fields list \<Rightarrow> sink_ref list \<times> fields list" where
  "place_all [] h = ([], h)"
| "place_all (f # fs) h = (case place_sink f h of (r, h') \<Rightarrow> (case place_all fs h' of (rs, h'') \<Rightarrow> (r # rs, h'')))"

definition standing :: "fields list \<Rightarrow> sink_ref \<Rightarrow> fields" where
  "standing h r = sk_top r @ map (\<lambda>(k, a). (k, JObj (h ! a))) (sk_parts r)"

definition sink_values :: "notify_screen \<Rightarrow> fields list" where
  "sink_values s = map (standing (ns_objects s)) (ns_sinks s)"

text \<open>\<open>editingSink.part.key = v\<close> writes where the part stands; \<open>editingSink.key = v\<close> writes the form's own field.\<close>

definition part_of :: "string \<Rightarrow> sink_ref \<Rightarrow> nat option" where
  "part_of p r = map_of (sk_parts r) p"

definition set_part :: "string \<Rightarrow> string \<Rightarrow> jsval \<Rightarrow> notify_screen \<Rightarrow> notify_screen" where
  "set_part p k v s = (case Option.bind (ns_editing s) (part_of p) of
       Some a \<Rightarrow> s\<lparr>ns_objects := (ns_objects s)[a := fset k v (ns_objects s ! a)]\<rparr> | None \<Rightarrow> s)"

definition set_own :: "string \<Rightarrow> jsval \<Rightarrow> notify_screen \<Rightarrow> notify_screen" where
  "set_own k v s = s\<lparr>ns_editing := map_option (\<lambda>r. r\<lparr>sk_top := fset k v (sk_top r)\<rparr>) (ns_editing s)\<rparr>"

definition open_new :: "string \<Rightarrow> notify_screen \<Rightarrow> notify_screen" where
  "open_new kind s = (case place_sink (newSink kind) (ns_objects s) of (r, h) \<Rightarrow> s\<lparr>ns_editing := Some r, ns_objects := h\<rparr>)"

text \<open>Editing a row copies its own fields and its template, and shares the rest.\<close>

definition open_edit :: "sink_ref \<Rightarrow> notify_screen \<Rightarrow> notify_screen" where
  "open_edit r s =
     (let tpl = (case part_of ''template'' r of Some a \<Rightarrow> ns_objects s ! a | None \<Rightarrow> [(''subject'', JStr []), (''body'', JStr [])]) in
      s\<lparr>ns_editing := Some (r\<lparr>sk_parts := put ''template'' (length (ns_objects s)) (sk_parts r)\<rparr>),
        ns_objects := ns_objects s @ [tpl]\<rparr>)"

definition cancel_sink :: "notify_screen \<Rightarrow> notify_screen" where
  "cancel_sink s = s\<lparr>ns_editing := None\<rparr>"

definition type_recipients :: "string \<Rightarrow> notify_screen \<Rightarrow> notify_screen" where
  "type_recipients s = set_part ''email'' ''toRaw'' (JStr s)"

definition type_headers :: "string \<Rightarrow> notify_screen \<Rightarrow> notify_screen" where
  "type_headers s = set_part ''webhook'' ''headers'' (JObj (map (\<lambda>(k, v). (k, JStr v)) (textToHeaders s)))"

definition escape_key :: "notify_screen \<Rightarrow> notify_screen \<times> bool" where
  "escape_key s = (if ns_editing s \<noteq> None then (s\<lparr>ns_editing := None\<rparr>, True)
     else if ns_route s \<noteq> None then (s\<lparr>ns_route := None\<rparr>, True) else (s, False))"


section \<open>Calls and their answers\<close>

record notify_answers =
  na_sinks :: "string + fields list"
  na_routes :: "string + fields list"
  na_deliveries :: "string \<Rightarrow> string + delivery list"

definition show_sinks :: "fields list \<Rightarrow> notify_screen \<Rightarrow> notify_screen" where
  "show_sinks fs s = (case place_all fs (ns_objects s) of (rs, h) \<Rightarrow> s\<lparr>ns_sinks := rs, ns_objects := h\<rparr>)"

text \<open>Loading: each list is replaced as its answer arrives, the first failure ends it.\<close>

definition reload :: "notify_answers \<Rightarrow> notify_screen \<Rightarrow> notify_screen" where
  "reload w s = (case na_sinks w of Inl e \<Rightarrow> say (Failed e) s
     | Inr fs \<Rightarrow> (let s1 = show_sinks fs s in case na_routes w of Inl e \<Rightarrow> say (Failed e) s1
     | Inr rs \<Rightarrow> (let s2 = s1\<lparr>ns_routes := rs\<rparr> in case na_deliveries w (ns_filter s2) of Inl e \<Rightarrow> say (Failed e) s2
     | Inr ds \<Rightarrow> s2\<lparr>ns_deliveries := ds\<rparr>)))"

definition mounted :: "notify_answers \<Rightarrow> string option \<Rightarrow> notify_screen \<Rightarrow> notify_screen" where
  "mounted w backend s = (reload w s)\<lparr>ns_backend := (case backend of Some b \<Rightarrow> b | None \<Rightarrow> ''unavailable'')\<rparr>"

definition deliveries_asked :: "string \<Rightarrow> notify_screen \<Rightarrow> notify_screen" where
  "deliveries_asked state s = s\<lparr>ns_filter := state\<rparr>"

definition deliveries_answer :: "string + delivery list \<Rightarrow> notify_screen \<Rightarrow> notify_screen" where
  "deliveries_answer answer s = (case answer of Inl e \<Rightarrow> say (Failed e) s | Inr ds \<Rightarrow> s\<lparr>ns_deliveries := ds\<rparr>)"

text \<open>A retry answers, and then the list of the filter of that moment is asked for.\<close>

definition delivery_retried :: "string option \<Rightarrow> notify_screen \<Rightarrow> notify_screen \<times> string option" where
  "delivery_retried failure s = (case failure of Some e \<Rightarrow> (say (Failed e) s, None)
     | None \<Rightarrow> (deliveries_asked (ns_filter s) (say DeliveryRetried s), Some (ns_filter s)))"

definition deadLetters :: "notify_screen \<Rightarrow> nat" where
  "deadLetters s = length (filter (\<lambda>d. de_state d = ''dead'') (ns_deliveries s))"

text \<open>Saving. What the call is given, and whether a stored credential was in use.\<close>

definition raw_recipients :: "notify_screen \<Rightarrow> notify_screen" where
  "raw_recipients s = (case Option.bind (ns_editing s) (part_of ''email'') of
       Some a \<Rightarrow> (case fget (ns_objects s ! a) ''toRaw'' of
           JStr raw \<Rightarrow> s\<lparr>ns_objects := (ns_objects s)[a :=
             fdel ''toRaw'' (fset ''to'' (JArr (map JStr (typed_list comma_or_semicolon raw))) (ns_objects s ! a))]\<rparr>
         | _ \<Rightarrow> s)
     | None \<Rightarrow> s)"

definition name_blank :: "fields \<Rightarrow> bool" where
  "name_blank fs \<longleftrightarrow> (case fget fs ''name'' of JStr n \<Rightarrow> trim n = [] | _ \<Rightarrow> True)"

definition save_sink_begin :: "notify_screen \<Rightarrow> notify_screen \<times> (fields \<times> bool) option" where
  "save_sink_begin s = (case ns_editing s of None \<Rightarrow> (s, None)
     | Some r \<Rightarrow>
        if name_blank (sk_top r) then (say NameRequired s, None)
        else if part_of ''email'' r = None then (say Thrown s, None)
        else (let s' = raw_recipients s in
          (s', Some (standing (ns_objects s') r, truthy (fget (sk_top r) ''hasSecret'') \<and> \<not> truthy (fget (sk_top r) ''secret'')))))"

definition save_sink_end :: "bool \<Rightarrow> string + jsval \<Rightarrow> notify_answers \<Rightarrow> notify_screen \<Rightarrow> notify_screen" where
  "save_sink_end had answer w s = (case answer of Inl e \<Rightarrow> say (Failed e) s
     | Inr saved \<Rightarrow> (let s' = say SinkSaved (reload w (s\<lparr>ns_editing := None\<rparr>)) in
         if had \<and> truthy saved \<and> \<not> truthy (jget saved ''hasSecret'') then say SecretUnbound s' else s'))"

text \<open>The form the answer finds is the one that is told its credential is gone.\<close>

definition clear_secret_end :: "string option \<Rightarrow> notify_screen \<Rightarrow> notify_screen" where
  "clear_secret_end failure s = (case failure of Some e \<Rightarrow> say (Failed e) s
     | None \<Rightarrow> if ns_editing s = None then say Thrown s
               else say SecretCleared (set_own ''secret'' (JStr []) (set_own ''hasSecret'' (JBool False) s)))"

definition clearSecret :: "string \<Rightarrow> string option" where
  "clearSecret sid = (if sid = [] then None else Some sid)"

definition removed :: "string option \<Rightarrow> notify_answers \<Rightarrow> notify_screen \<Rightarrow> notify_screen" where
  "removed failure w s = (case failure of Some e \<Rightarrow> say (Failed e) s | None \<Rightarrow> reload w s)"

definition sink_test_begin :: "string \<Rightarrow> notify_screen \<Rightarrow> notify_screen" where
  "sink_test_begin sid s = s\<lparr>ns_testing := Some (if sid = [] then ''new'' else sid)\<rparr>"

definition sink_test_end :: "string option \<Rightarrow> notify_screen \<Rightarrow> notify_screen" where
  "sink_test_end failure s =
     (say (case failure of Some e \<Rightarrow> TestFailed e | None \<Rightarrow> TestSent) s)\<lparr>ns_testing := None\<rparr>"

section \<open>Routes\<close>

definition open_route :: "fields \<Rightarrow> notify_screen \<Rightarrow> notify_screen" where
  "open_route r s = s\<lparr>ns_route := Some r\<rparr>"

definition set_route :: "string \<Rightarrow> jsval \<Rightarrow> notify_screen \<Rightarrow> notify_screen" where
  "set_route k v s = s\<lparr>ns_route := map_option (fset k v) (ns_route s)\<rparr>"

definition set_match :: "string \<Rightarrow> jsval \<Rightarrow> notify_screen \<Rightarrow> notify_screen" where
  "set_match k v s = s\<lparr>ns_route := map_option (\<lambda>r. fset ''match'' (jset k v (fget r ''match'')) r) (ns_route s)\<rparr>"

definition raw_sources :: "fields \<Rightarrow> fields" where
  "raw_sources r = (case jget (fget r ''match'') ''sourcesRaw'' of
       JStr raw \<Rightarrow> fset ''match'' (JObj (fdel ''sourcesRaw'' (fset ''sources''
           (JArr (map JStr (typed_list comma_or_space raw))) (fields_of (fget r ''match''))))) r
     | _ \<Rightarrow> r)"

text \<open>\<open>String(raw).trim() !== ''\<close>, for what the number field holds: a number, a text, or nothing.\<close>

definition priority_of :: "jsval \<Rightarrow> jsval" where
  "priority_of raw =
     (let given = raw \<noteq> JNull \<and> raw \<noteq> JUndef \<and> (case raw of JStr t \<Rightarrow> trim t \<noteq> [] | _ \<Rightarrow> True) in
      case number_of raw of Some q \<Rightarrow> if given then JNum q else JNum 100 | None \<Rightarrow> JNum 100)"

definition route_payload :: "fields \<Rightarrow> fields" where
  "route_payload r = fset ''priority'' (priority_of (fget r ''priority'')) (raw_sources r)"

definition save_route_begin :: "notify_screen \<Rightarrow> notify_screen \<times> fields option" where
  "save_route_begin s = (case ns_route s of None \<Rightarrow> (s, None)
     | Some r \<Rightarrow> if name_blank r then (say NameRequired s, None)
               else (s\<lparr>ns_route := Some (route_payload r)\<rparr>, Some (route_payload r)))"

definition save_route_end :: "string option \<Rightarrow> notify_answers \<Rightarrow> notify_screen \<Rightarrow> notify_screen" where
  "save_route_end failure w s = (case failure of Some e \<Rightarrow> say (Failed e) s
     | None \<Rightarrow> say RouteSaved (reload w (s\<lparr>ns_route := None\<rparr>)))"

section \<open>What the screen does\<close>

lemma blank_priority: "priority_of JNull = JNum 100" "priority_of (JStr []) = JNum 100" "priority_of JUndef = JNum 100"
  by (simp_all add: priority_of_def trim_def)

text \<open>A number is kept, zero included.\<close>

lemma typed_priority_is_kept: "fget (route_payload (fset ''priority'' (JNum q) r)) ''priority'' = JNum q"
  by (simp add: route_payload_def priority_of_def raw_sources_def split: jsval.splits)

lemma set_part_rows: "ns_sinks (set_part p k v s) = ns_sinks s"
  by (simp add: set_part_def split: option.splits)

lemma set_own_rows: "sink_values (set_own k v s) = sink_values s"
  by (simp add: sink_values_def set_own_def)

text \<open>The form's own fields are a copy: what is typed there leaves with the form.\<close>

lemma own_fields_leave: "sink_values (cancel_sink (set_own k v s)) = sink_values s"
  by (simp add: sink_values_def set_own_def cancel_sink_def)

definition stored_sink :: fields where
  "stored_sink = [(''id'', JStr ''s1''), (''name'', JStr ''noc''), (''kind'', JStr ''email''), (''hasSecret'', JBool True),
     (''email'', JObj [(''host'', JStr ''mail''), (''to'', JArr [JStr ''a@x''])])]"

text \<open>The nested objects are shared: the row of a form that was cancelled shows what was typed in it.\<close>

lemma cancelled_edit_stays:
  "map (\<lambda>f. jget (fget f ''email'') ''host'') (sink_values (cancel_sink (set_part ''email'' ''host'' (JStr ''evil'')
     (open_edit (hd (ns_sinks (show_sinks [stored_sink] notify_screen0))) (show_sinks [stored_sink] notify_screen0)))))
   = [JStr ''evil'']"
  by code_simp

text \<open>The form of another destination is the one the answer marks; with none open the success is reported as an error.\<close>

lemma secret_cleared_on_other_form:
  "map_option (\<lambda>r. fget (sk_top r) ''hasSecret'') (ns_editing (clear_secret_end None
     (open_edit (hd (ns_sinks (show_sinks [stored_sink] notify_screen0))) (show_sinks [stored_sink] notify_screen0)))) = Some (JBool False)"
  "ns_said (clear_secret_end None notify_screen0) = [Thrown]"
  by code_simp+

lemma save_closes_another_form: "ns_editing (save_sink_end h (Inr v) w s) = None"
  by (auto simp: save_sink_end_def reload_def say_def show_sinks_def Let_def split: sum.splits prod.splits)

text \<open>The answer of the filter before is shown under the filter of now.\<close>

lemma late_deliveries_win:
  "ns_deliveries (deliveries_answer (Inr old) (deliveries_answer (Inr new) (deliveries_asked now (deliveries_asked before s)))) = old"
  "ns_filter (deliveries_answer (Inr old) (deliveries_answer (Inr new) (deliveries_asked now (deliveries_asked before s)))) = now"
  by (simp_all add: deliveries_answer_def deliveries_asked_def)

text \<open>A failed call of any kind leaves what is listed as it is, and says so.\<close>

lemma failure_is_said:
  "save_sink_end h (Inl e) w s = say (Failed e) s" "save_route_end (Some e) w s = say (Failed e) s"
  "removed (Some e) w s = say (Failed e) s" "deliveries_answer (Inl e) s = say (Failed e) s"
  "clear_secret_end (Some e) s = say (Failed e) s"
  by (simp_all add: save_sink_end_def save_route_end_def removed_def deliveries_answer_def clear_secret_end_def)

text \<open>The recipients that are sent are the entries typed.\<close>

lemma recipients_sent:
  assumes e: "ns_editing s = Some r" "part_of ''email'' r = Some a" "a < length (ns_objects s)"
    and n: "\<not> name_blank (sk_top r)"
  shows "\<exists>f h. snd (save_sink_begin (type_recipients raw s)) = Some (f, h) \<and>
    f = standing (ns_objects (fst (save_sink_begin (type_recipients raw s)))) r \<and>
    fget (ns_objects (fst (save_sink_begin (type_recipients raw s))) ! a) ''to'' = JArr (map JStr (typed_list comma_or_semicolon raw))"
  using assms by (auto simp: type_recipients_def set_part_def save_sink_begin_def raw_recipients_def Let_def)

lemma route_cancelled_unchanged: "ns_routes (fst (escape_key (set_match k v (open_route r s)))) = ns_routes s"
  by (simp add: escape_key_def set_match_def open_route_def)

end
