(* ===== verification/Profile_Editor.thy ===== *)
theory Profile_Editor
  imports Targets Address_Masking Oid_Names
begin

text \<open>
  The editor of credential profiles: the script of \<open>frontend/src/settings/CredentialProfiles.svelte\<close>, over the
  profiles of \<open>Credential_Profiles\<close> and the targets of \<open>Targets\<close>. It edits a draft and the addresses ticked for it;
  the settings change when the draft is applied. Translations, masking and the answers of a test are arguments. The
  lemmas show what applying and deleting write, and that nothing is written before.
\<close>

section \<open>State\<close>

record profile_edit =
  ed_draft :: fields
  ed_new :: bool
  ed_assigned :: "string list"

record profile_editor =
  pe_settings :: fields
  pe_editing :: "profile_edit option"
  pe_tried :: bool
  pe_pending :: "jsval option"
  pe_query :: string
  pe_target :: string
  pe_testing :: bool
  pe_result :: "(string + jsval) option"

definition editor_profiles :: "profile_editor \<Rightarrow> jsval list" where
  "editor_profiles s = profiles_of (JObj (pe_settings s))"

definition editor_targets :: "profile_editor \<Rightarrow> target_line list" where
  "editor_targets s = parseTargetLines (str (fget (pe_settings s) ''targets''))"

definition draft_check :: "profile_editor \<Rightarrow> verdict option" where
  "draft_check s = map_option (\<lambda>e. validateProfile
     (JObj (case normaliseProfile (JObj (ed_draft e)) of Some p \<Rightarrow> p | None \<Rightarrow> ed_draft e)) (editor_profiles s)) (pe_editing s)"

text \<open>What is said at each field: a warning always, an error once applying was tried, which then covers the warning.\<close>

definition problemsOf :: "verdict option \<Rightarrow> bool \<Rightarrow> (string \<times> bool \<times> string) list" where
  "problemsOf result show_errors = (case result of None \<Rightarrow> []
     | Some r \<Rightarrow> foldl (\<lambda>out (f, k). (f, True, k) # filter (\<lambda>p. fst p \<noteq> f) out)
         (foldl (\<lambda>out (f, k). (f, False, k) # filter (\<lambda>p. fst p \<noteq> f) out) [] (vd_warnings r))
         (if show_errors then vd_errors r else []))"

section \<open>Opening\<close>

definition open_draft :: "bool \<Rightarrow> fields \<Rightarrow> bool \<Rightarrow> string list \<Rightarrow> profile_editor \<Rightarrow> profile_editor" where
  "open_draft anon draft is_new assigned s =
     s\<lparr>pe_editing := Some \<lparr>
         ed_draft = fset ''v3'' (JObj (spread NEW_V3 (fields_of (fget draft ''v3''))))
           (spread [(''community'', JStr []), (''acceptTraps'', JBool True)] draft),
         ed_new = is_new, ed_assigned = assigned\<rparr>,
       pe_tried := False, pe_pending := None, pe_query := [], pe_result := None,
       pe_target := (if anon then [] else
         case assigned of (c # cs) # _ \<Rightarrow> c # cs
         | _ \<Rightarrow> (case List.find tl_enabled (editor_targets s) of Some t \<Rightarrow> tl_address t | None \<Rightarrow> []))\<rparr>"

definition openNew :: "bool \<Rightarrow> string \<Rightarrow> string \<Rightarrow> profile_editor \<Rightarrow> profile_editor" where
  "openNew anon fresh version s = open_draft anon (blankProfile fresh version) True [] s"

definition openEdit :: "bool \<Rightarrow> jsval \<Rightarrow> profile_editor \<Rightarrow> profile_editor" where
  "openEdit anon profile s =
     open_draft anon (fields_of profile) False (profileUsage (JObj (pe_settings s)) (jget profile ''id'')) s"

definition openDuplicate :: "bool \<Rightarrow> string \<Rightarrow> (string \<Rightarrow> string) \<Rightarrow> jsval \<Rightarrow> profile_editor \<Rightarrow> profile_editor option" where
  "openDuplicate anon fresh copy_of profile s =
     map_option (\<lambda>nm. open_draft anon (fset ''name'' (JStr nm) (fset ''id'' (JStr fresh) (fields_of profile))) True [] s)
       (uniqueName (copy_of (sfield profile ''name'')) (editor_profiles s) JUndef)"

definition edit_draft :: "string \<Rightarrow> jsval \<Rightarrow> profile_editor \<Rightarrow> profile_editor" where
  "edit_draft k v s = s\<lparr>pe_editing := map_option (\<lambda>e. e\<lparr>ed_draft := fset k v (ed_draft e)\<rparr>) (pe_editing s)\<rparr>"

definition toggleAssigned :: "string \<Rightarrow> profile_editor \<Rightarrow> profile_editor" where
  "toggleAssigned address s = s\<lparr>pe_editing := map_option (\<lambda>e. e\<lparr>ed_assigned :=
     (if address \<in> set (ed_assigned e) then filter (\<lambda>a. a \<noteq> address) (ed_assigned e) else ed_assigned e @ [address])\<rparr>) (pe_editing s)\<rparr>"

definition toggleTraps :: "jsval \<Rightarrow> profile_editor \<Rightarrow> profile_editor" where
  "toggleTraps i s = s\<lparr>pe_settings := fset ''credentialProfiles''
     (JArr (map (\<lambda>p. if jget p ''id'' = i then jset ''acceptTraps'' (JBool (jget p ''acceptTraps'' = JBool False)) p else p)
       (editor_profiles s))) (pe_settings s)\<rparr>"

definition close_profile_editor :: "profile_editor \<Rightarrow> profile_editor" where
  "close_profile_editor s = s\<lparr>pe_editing := None\<rparr>"

text \<open>Whether the key was taken, so that the dialog around does not see it.\<close>

definition editor_escape :: "string \<Rightarrow> profile_editor \<Rightarrow> profile_editor \<times> bool" where
  "editor_escape key s = (if key \<noteq> ''Escape'' \<or> pe_editing s = None then (s, False) else (close_profile_editor s, True))"

section \<open>Applying\<close>

definition assign_step :: "jsval \<Rightarrow> string list \<Rightarrow> fields \<Rightarrow> string \<Rightarrow> fields" where
  "assign_step i ticked overrides a =
     (let has = (jget (fget overrides a) ''profile'' = i); wants = a \<in> set ticked in
      if wants \<and> \<not> has then assignProfile overrides a i
      else if \<not> wants \<and> has then assignProfile overrides a JNull
      else overrides)"

definition applied_list :: "bool \<Rightarrow> fields \<Rightarrow> jsval list \<Rightarrow> jsval list" where
  "applied_list is_new profile profiles =
     (if is_new then profiles @ [JObj profile]
      else map (\<lambda>p. if jget p ''id'' = fget profile ''id'' then JObj profile else p) profiles)"

definition apply_draft :: "profile_editor \<Rightarrow> profile_editor" where
  "apply_draft s = (case pe_editing s of None \<Rightarrow> s
     | Some e \<Rightarrow> (case normaliseProfile (JObj (ed_draft e)) of None \<Rightarrow> s
     | Some profile \<Rightarrow>
        if vd_errors (validateProfile (JObj profile) (editor_profiles s)) \<noteq> [] then s\<lparr>pe_tried := True\<rparr>
        else s\<lparr>pe_settings := fset ''targetOverrides''
              (JObj (foldl (assign_step (fget profile ''id'') (ed_assigned e)) (fields_of (fget (pe_settings s) ''targetOverrides''))
                (map tl_address (editor_targets s))))
              (fset ''credentialProfiles'' (JArr (applied_list (ed_new e) profile (editor_profiles s))) (pe_settings s)),
            pe_editing := None\<rparr>))"

section \<open>Deleting\<close>

definition remove_profile :: "jsval \<Rightarrow> profile_editor \<Rightarrow> profile_editor" where
  "remove_profile i s =
     s\<lparr>pe_settings := removeProfile (JObj (pe_settings s)) i, pe_pending := None,
       pe_editing := (case pe_editing s of Some e \<Rightarrow> if fget (ed_draft e) ''id'' = i then None else Some e | None \<Rightarrow> None)\<rparr>"

definition requestDelete :: "jsval \<Rightarrow> profile_editor \<Rightarrow> profile_editor" where
  "requestDelete profile s =
     (if profileUsage (JObj (pe_settings s)) (jget profile ''id'') = [] then remove_profile (jget profile ''id'') s
      else s\<lparr>pe_pending := Some (jget profile ''id'')\<rparr>)"

section \<open>Testing\<close>

text \<open>What is asked of the bridge, or the failure to put it together.\<close>

definition test_request :: "profile_editor \<Rightarrow> profile_edit \<Rightarrow> fields option" where
  "test_request s e =
     (let address = trim (pe_target s) in
      map_option (\<lambda>p. buildTestRequest (JObj (spread (getEffectiveSettings (JObj (pe_settings s)) address) (profileIdentity (JObj p)))) address)
        (normaliseProfile (JObj (ed_draft e))))"

definition test_draft :: "profile_editor \<Rightarrow> profile_editor \<times> fields option" where
  "test_draft s = (case pe_editing s of None \<Rightarrow> (s, None)
     | Some e \<Rightarrow> if trim (pe_target s) = [] then (s, None)
               else (s\<lparr>pe_testing := True, pe_result := None\<rparr>, test_request s e))"

definition test_answer :: "string + jsval \<Rightarrow> profile_editor \<Rightarrow> profile_editor" where
  "test_answer answer s = s\<lparr>pe_result := Some answer, pe_testing := False\<rparr>"

section \<open>What the rows show\<close>

definition profile_summary :: "(string \<Rightarrow> string) \<Rightarrow> string \<Rightarrow> bool \<Rightarrow> jsval \<Rightarrow> string" where
  "profile_summary tr dot anon profile =
     (if jget profile ''version'' \<noteq> JStr ''v3''
      then tr (if truthy (jget profile ''community'') then ''profiles.summaryCommunity'' else ''profiles.summaryNoCommunity'')
      else (let v = jget profile ''v3''; level = sfield v ''secLevel'' in
        join_text dot (filter (\<lambda>x. x \<noteq> [])
          ([if anon then maskString (sfield v ''user'') else sfield v ''user'', level] @
           (if usesAuth level then [protocolLabel AUTH_PROTOCOLS (sfield v ''authProto'')] else []) @
           (if usesPriv level then [protocolLabel PRIV_PROTOCOLS (sfield v ''privProto'')] else [])))))"

definition isWeak :: "jsval \<Rightarrow> bool" where
  "isWeak profile \<longleftrightarrow> (let v = jget profile ''v3''; level = sfield v ''secLevel'' in
     jget profile ''version'' = JStr ''v3'' \<and> truthy v \<and>
     (usesAuth level \<and> jget v ''authProto'' = JStr ''MD5'' \<or> usesPriv level \<and> jget v ''privProto'' = JStr ''DES''))"

definition otherProfile :: "jsval \<Rightarrow> string \<Rightarrow> jsval \<Rightarrow> jsval option" where
  "otherProfile s address i =
     (let ref = jget (jget (jget s ''targetOverrides'') address) ''profile'' in
      if truthy ref \<and> ref \<noteq> i then findProfile s ref else None)"

definition ownIdentifiers :: "jsval \<Rightarrow> string \<Rightarrow> bool" where
  "ownIdentifiers s address \<longleftrightarrow> (let ov = jget (jget s ''targetOverrides'') address in
     \<not> truthy (jget ov ''profile'') \<and> hasCustomCredentials ov)"

definition matching_targets :: "target_line list \<Rightarrow> string \<Rightarrow> target_line list" where
  "matching_targets ts query =
     (let q = toLowerCase (trim query); has = (\<lambda>s. indexOf (toLowerCase s) q 0 \<noteq> None) in
      if q = [] then ts else filter (\<lambda>t. has (tl_address t) \<or> has (tl_label t)) ts)"

section \<open>What applying writes\<close>

lemma parse_lines_distinct:
  "distinct (map tl_address (parse_lines seen ls)) \<and> set (map tl_address (parse_lines seen ls)) \<inter> set seen = {}"
proof (induction ls arbitrary: seen)
  case (Cons raw rest)
  obtain a r where c: "cut_at CHR ''#'' (if \<not> starts_with (trim raw) ''//'' then trim raw else trim (drop 2 (trim raw))) = (a, r)"
    by fastforce
  show ?case
    using Cons.IH[of seen] Cons.IH[of "trim a # seen"] by (simp only: parse_lines.simps Let_def c prod.case) auto
qed simp

lemma editor_targets_distinct: "distinct (map tl_address (editor_targets s))"
  using parse_lines_distinct by (simp add: editor_targets_def parseTargetLines_def)

text \<open>What one address holds afterwards, in terms of what it held.\<close>

definition held :: "jsval option \<Rightarrow> jsval" where
  "held ov = (case ov of Some v \<Rightarrow> v | None \<Rightarrow> JUndef)"

definition with_profile :: "jsval \<Rightarrow> jsval \<Rightarrow> jsval" where
  "with_profile i v = JObj (fset ''profile'' i (fdel ''v3'' (fdel ''snmpVersion'' (fdel ''community'' (fields_of v)))))"

definition assigned_override :: "jsval \<Rightarrow> bool \<Rightarrow> jsval option \<Rightarrow> jsval option" where
  "assigned_override i wants ov =
     (if wants \<and> jget (held ov) ''profile'' \<noteq> i then Some (with_profile i (held ov))
      else if \<not> wants \<and> jget (held ov) ''profile'' = i then without_profile (held ov) else ov)"

lemma fget_held: "fget fs a = held (map_of fs a)"
  by (simp add: fget_def held_def split: option.splits)

lemma fset_nonempty [simp]: "fset k v fs \<noteq> []"
  by (induction k v fs rule: fset.induct) auto

lemma assign_some: "truthy i \<Longrightarrow> map_of (assignProfile ovs a i) = (map_of ovs)(a \<mapsto> with_profile i (fget ovs a))"
  by (simp add: assignProfile_def Let_def with_profile_def map_of_fset)

lemma map_of_assign_step:
  "truthy i \<Longrightarrow> map_of (assign_step i ticked ovs a) =
     (map_of ovs)(a := assigned_override i (a \<in> set ticked) (map_of ovs a))"
  by (simp add: assign_step_def assigned_override_def Let_def assign_none assign_some fget_held)

lemma map_of_assign_all:
  "truthy i \<Longrightarrow> distinct as \<Longrightarrow> map_of (foldl (assign_step i ticked) ovs as) =
     (\<lambda>a. if a \<in> set as then assigned_override i (a \<in> set ticked) (map_of ovs a) else map_of ovs a)"
  by (induction as arbitrary: ovs) (auto simp: map_of_assign_step fun_eq_iff)

lemma jget_without: "jget (held (without_profile v)) k = (if k = ''profile'' then JUndef else jget v k)"
proof -
  have "jget (held (without_profile v)) k = fget (fdel ''profile'' (fields_of v)) k"
    by (simp add: without_profile_def held_def Let_def jget_fields fget_def)
  then show ?thesis by (simp add: jget_fields)
qed

lemma jget_with: "k \<notin> {''community'', ''snmpVersion'', ''v3''} \<Longrightarrow> jget (with_profile i v) k = (if k = ''profile'' then i else jget v k)"
  by (simp add: with_profile_def jget_fields)

lemma held_Some [simp]: "held (Some v) = v"
  by (simp add: held_def)

lemma assigned_profile:
  "truthy i \<Longrightarrow> jget (held (assigned_override i w ov)) ''profile'' = i \<longleftrightarrow> w"
  by (auto simp: assigned_override_def jget_without jget_with)

lemma assigned_other:
  "k \<notin> {''profile'', ''community'', ''snmpVersion'', ''v3''} \<Longrightarrow> jget (held (assigned_override i w ov)) k = jget (held ov) k"
  by (simp add: assigned_override_def jget_without jget_with)

lemma profile_id_string: "normaliseProfile raw = Some p \<Longrightarrow> truthy (fget p ''id'')"
  using normalise_clean by (fastforce simp: clean_profile_def id_pattern_def)

definition override_of :: "profile_editor \<Rightarrow> string \<Rightarrow> jsval" where
  "override_of s a = jget (fget (pe_settings s) ''targetOverrides'') a"

lemma override_of_map: "override_of s a = held (map_of (fields_of (fget (pe_settings s) ''targetOverrides'')) a)"
  by (simp add: override_of_def jget_fields fget_held)

lemma apply_writes:
  assumes "pe_editing s = Some e" "normaliseProfile (JObj (ed_draft e)) = Some p"
    "vd_errors (validateProfile (JObj p) (editor_profiles s)) = []"
  shows "map_of (fields_of (fget (pe_settings (apply_draft s)) ''targetOverrides'')) =
      (\<lambda>a. if a \<in> tl_address ` set (editor_targets s)
           then assigned_override (fget p ''id'') (a \<in> set (ed_assigned e)) (map_of (fields_of (fget (pe_settings s) ''targetOverrides'')) a)
           else map_of (fields_of (fget (pe_settings s) ''targetOverrides'')) a)"
    "editor_profiles (apply_draft s) = applied_list (ed_new e) p (editor_profiles s)"
  using assms profile_id_string[OF assms(2)]
  by (simp_all add: apply_draft_def map_of_assign_all editor_targets_distinct editor_profiles_def profiles_of_def)

lemma applied_found:
  assumes "normaliseProfile raw = Some p" "fresh \<longleftrightarrow> fget p ''id'' \<notin> (\<lambda>q. jget q ''id'') ` set ps"
    "list_all truthy ps"
  shows "List.find (\<lambda>q. truthy q \<and> jget q ''id'' = fget p ''id'') (applied_list fresh p ps) = Some (JObj p)"
proof (cases fresh)
  case True
  then have "fget p ''id'' \<notin> (\<lambda>q. jget q ''id'') ` set ps" using assms(2) by simp
  then have "List.find (\<lambda>q. truthy q \<and> jget q ''id'' = fget p ''id'') (ps @ [JObj p]) = Some (JObj p)"
    by (induction ps) auto
  with True show ?thesis by (simp add: applied_list_def)
next
  case False
  then have "fget p ''id'' \<in> (\<lambda>q. jget q ''id'') ` set ps" using assms(2) by simp
  then have "List.find (\<lambda>q. truthy q \<and> jget q ''id'' = fget p ''id'')
      (map (\<lambda>q. if jget q ''id'' = fget p ''id'' then JObj p else q) ps) = Some (JObj p)"
    by (induction ps) auto
  with False show ?thesis by (simp add: applied_list_def)
qed


definition editor_example :: profile_editor where
  "editor_example = toggleAssigned ''10.0.0.1'' (toggleAssigned ''10.0.0.2'' (edit_draft ''name'' (JStr ''core'') (openEdit False
     (JObj [(''id'', JStr ''p-abcd''), (''version'', JStr ''v2c''), (''name'', JStr ''old''), (''community'', JStr ''public'')])
     \<lparr>pe_settings = [(''targets'', JStr (''10.0.0.1'' @ [NEWLINE] @ ''10.0.0.2'')),
        (''credentialProfiles'', JArr [JObj [(''id'', JStr ''p-abcd''), (''version'', JStr ''v2c''), (''name'', JStr ''old''), (''community'', JStr ''public'')]]),
        (''targetOverrides'', JObj [(''10.0.0.2'', JObj [(''profile'', JStr ''p-abcd''), (''port'', JNum 1161)]), (''10.0.0.9'', JObj [(''profile'', JStr ''p-abcd'')])])],
      pe_editing = None, pe_tried = False, pe_pending = None, pe_query = [], pe_target = [], pe_testing = False, pe_result = None\<rparr>)))"

definition edit_example :: profile_edit where "edit_example = the (pe_editing editor_example)"
definition profile_example :: fields where "profile_example = the (normaliseProfile (JObj (ed_draft edit_example)))"

lemma editor_example_parts:
  "pe_editing editor_example = Some edit_example" "normaliseProfile (JObj (ed_draft edit_example)) = Some profile_example"
  "vd_errors (validateProfile (JObj profile_example) (editor_profiles editor_example)) = []"
  "ed_new edit_example \<longleftrightarrow> fget profile_example ''id'' \<notin> (\<lambda>q. jget q ''id'') ` set (editor_profiles editor_example)"
  "list_all truthy (editor_profiles editor_example)" "fget profile_example ''id'' = JStr ''p-abcd''"
  "map tl_address (editor_targets editor_example) = [''10.0.0.1'', ''10.0.0.2'']"
  "''10.0.0.1'' \<in> set (ed_assigned edit_example)" "''10.0.0.2'' \<notin> set (ed_assigned edit_example)"
  by code_simp+


section \<open>Before applying\<close>

text \<open>Only applying, the switch of a row and deleting write the settings.\<close>

lemma draft_keeps_settings:
  "pe_settings (open_draft an d n as s) = pe_settings s" "pe_settings (edit_draft k v s) = pe_settings s"
  "pe_settings (toggleAssigned a s) = pe_settings s" "pe_settings (close_profile_editor s) = pe_settings s"
  "pe_settings (fst (editor_escape key s)) = pe_settings s" "pe_settings (fst (test_draft s)) = pe_settings s"
  "pe_settings (test_answer r s) = pe_settings s"
  by (simp_all add: open_draft_def edit_draft_def toggleAssigned_def close_profile_editor_def editor_escape_def test_draft_def
      test_answer_def split: option.splits)

text \<open>A draft with errors is not applied: the errors are shown, the editor stays open.\<close>

lemma refused_draft:
  assumes "pe_editing s = Some e" "normaliseProfile (JObj (ed_draft e)) = Some p"
    "vd_errors (validateProfile (JObj p) (editor_profiles s)) \<noteq> []"
  shows "apply_draft s = s\<lparr>pe_tried := True\<rparr>"
  using assms by (simp add: apply_draft_def)

text \<open>An error covers the warning of its field, and no error is missing.\<close>

lemma field_marks:
  "(f, b, k) \<in> set (foldl (\<lambda>out (f, k). (f, c, k) # filter (\<lambda>p. fst p \<noteq> f) out) out es) \<Longrightarrow>
     (f, b, k) \<in> set out \<or> b = c \<and> (f, k) \<in> set es"
  by (induction es arbitrary: out) fastforce+

lemma problems_exist:
  assumes "(f, b, k) \<in> set (problemsOf (Some r) shown)"
  shows "if b then shown \<and> (f, k) \<in> set (vd_errors r) else (f, k) \<in> set (vd_warnings r)"
  using assms by (auto simp: problemsOf_def split: if_splits dest!: field_marks)

section \<open>Deleting and testing\<close>

lemma delete_asks_first:
  "profileUsage (JObj (pe_settings s)) (jget p ''id'') \<noteq> [] \<Longrightarrow>
     pe_settings (requestDelete p s) = pe_settings s \<and> pe_pending (requestDelete p s) = Some (jget p ''id'')"
  by (simp add: requestDelete_def)

lemma removed_is_gone:
  "findProfile (JObj (pe_settings (remove_profile i s))) i = None"
  by (auto simp: remove_profile_def findProfile_def removeProfile_def profiles_of_def Let_def find_None_iff)

text \<open>The identity tested is the draft's and not that of the settings.\<close>

lemma test_uses_the_draft:
  assumes "pe_editing s = Some e" "trim (pe_target s) \<noteq> []" "normaliseProfile (JObj (ed_draft e)) = Some p"
  shows "\<exists>r. snd (test_draft s) = Some r \<and> fget r ''target'' = JStr (trim (pe_target s)) \<and>
    fget r ''version'' = fget p ''version'' \<and>
    fget r ''port'' = fget (getEffectiveSettings (JObj (pe_settings s)) (trim (pe_target s))) ''port''"
proof -
  have v: "fget p ''version'' = JStr ''v3'' \<Longrightarrow> fget (profileIdentity (JObj p)) ''snmpVersion'' = JStr ''v3''"
    by (simp add: profileIdentity_def fget_def)
  have i: "distinct (map fst (profileIdentity (JObj p)))" "''port'' \<notin> fst ` set (profileIdentity (JObj p))"
    by (simp_all add: profileIdentity_def)
  have "map_of (profileIdentity (JObj p)) ''snmpVersion'' = Some (fget p ''version'')"
    by (simp add: profileIdentity_def)
  then have "fget (spread x (profileIdentity (JObj p))) ''snmpVersion'' = fget p ''version''" for x
    by (simp add: fget_def map_of_spread[OF i(1)])
  then show ?thesis
    using assms fget_spread_None[OF i(2)] by (simp add: test_draft_def test_request_def Let_def buildTestRequest_def fget_def[of "(_, _) # _"])
qed

text \<open>An answer to a test is shown by whatever editor is open when it arrives.\<close>

lemma late_test_other_editor:
  "pe_result (test_answer r (openNew an i v (fst (test_draft s)))) = Some r"
  by (simp add: test_answer_def)

text \<open>The name of the user is not in the summary of a masked row.\<close>

lemma masked_summary:
  "sfield (jget p ''v3'') ''user'' = u \<Longrightarrow> sfield (jget p' ''v3'') ''user'' = u' \<Longrightarrow> u \<noteq> [] \<Longrightarrow> u' \<noteq> [] \<Longrightarrow>
   jget p ''version'' = jget p' ''version'' \<Longrightarrow> jget p ''community'' = jget p' ''community'' \<Longrightarrow>
   (\<forall>k. k \<noteq> ''user'' \<longrightarrow> jget (jget p ''v3'') k = jget (jget p' ''v3'') k) \<Longrightarrow>
   profile_summary tr dot True p = profile_summary tr dot True p'"
  by (simp add: profile_summary_def sfield_def Let_def maskString_def)

end
