(* ===== verification/Walk_Comparison.thy ===== *)
theory Walk_Comparison
  imports Results_View Mib_Files
begin

text \<open>
  Comparing the answers of several targets: the script of \<open>frontend/src/operations/ResultsComparison.svelte\<close>.
  \<open>text_of\<close> is \<open>String\<close>, \<open>locale\<close> the order of \<open>localeCompare\<close>; numbers are exact, and a text that begins with
  \<open>Infinity\<close> is outside of the model. The lemmas show that the table has one row for each OID that was answered and
  what the status of a row says, and where it says less than it seems to.
\<close>

section \<open>\<open>parseFloat\<close>\<close>

text \<open>The longest beginning that is a decimal number.\<close>

definition parse_float :: "string \<Rightarrow> rat option" where
  "parse_float s = (let t = dropWhile is_space s in
     case List.find (\<lambda>n. read_decimal (take n t) \<noteq> None) (rev [0..<Suc (length t)]) of
       Some n \<Rightarrow> read_decimal (take n t) | None \<Rightarrow> None)"

section \<open>The matrix\<close>

record matrix =
  mx_targets :: "string list"
  mx_oids :: "string list"
  mx_data :: "(string \<times> (string \<times> jsval) list) list"

fun units_less :: "string \<Rightarrow> string \<Rightarrow> bool" where
  "units_less [] b = (b \<noteq> [])"
| "units_less (x # a) [] = False"
| "units_less (x # a) (y # b) = (code x < code y \<or> x = y \<and> units_less a b)"

definition code_order :: "string \<Rightarrow> string \<Rightarrow> int" where
  "code_order a b = (if a = b then 0 else if units_less a b then -1 else 1)"

definition result_items :: "result_row \<Rightarrow> jsval walk_item list" where
  "result_items r = (case walk_of r of Some xs \<Rightarrow> xs | None \<Rightarrow> [])"

definition column_of :: "result_row \<Rightarrow> (string \<times> jsval) list" where
  "column_of r = foldl (\<lambda>d i. put (wi_oid i) (wi_value i) d) [] (result_items r)"

definition buildComparisonData :: "result_row list \<Rightarrow> matrix" where
  "buildComparisonData results = (let rs = filter answered results in
     \<lparr>mx_targets = map rr_target rs,
      mx_oids = stable_sort code_order (dedup (concat (map (\<lambda>r. map wi_oid (result_items r)) rs))),
      mx_data = foldl (\<lambda>d r. put (rr_target r) (column_of r) d) [] rs\<rparr>)"

definition matrix_cell :: "(string \<times> (string \<times> jsval) list) list \<Rightarrow> string \<Rightarrow> string \<Rightarrow> jsval" where
  "matrix_cell data oid t = (case map_of data t of None \<Rightarrow> JUndef | Some col \<Rightarrow> (case map_of col oid of None \<Rightarrow> JUndef | Some v \<Rightarrow> v))"

definition valuesDiffer :: "string \<Rightarrow> string list \<Rightarrow> (string \<times> (string \<times> jsval) list) list \<Rightarrow> bool" where
  "valuesDiffer oid targets data \<longleftrightarrow> (case map (matrix_cell data oid) targets of [] \<Rightarrow> False | v # vs \<Rightarrow> list_ex (\<lambda>w. w \<noteq> v) (v # vs))"

definition matrix_row :: "(jsval \<Rightarrow> string \<Rightarrow> string) \<Rightarrow> (string \<Rightarrow> jsval) \<Rightarrow> matrix \<Rightarrow> string \<Rightarrow> string list" where
  "matrix_row fmt cache m oid = [oid, info_name cache oid] @
     map (\<lambda>t. let v = matrix_cell (mx_data m) oid t in if v \<noteq> JUndef then fmt v oid else []) (mx_targets m)"

text \<open>The text that is saved, if any.\<close>

definition exportComparisonCSV :: "(jsval \<Rightarrow> string \<Rightarrow> string) \<Rightarrow> (string \<Rightarrow> jsval) \<Rightarrow> result_row list \<Rightarrow> string option" where
  "exportComparisonCSV fmt cache results = (let m = buildComparisonData results in
     if mx_oids m = [] then None
     else Some (csv_text (([''OID'', ''Name''] @ mx_targets m) # map (matrix_row fmt cache m) (mx_oids m))))"

section \<open>The table of differences\<close>

record cmp_value =
  cv_value :: string
  cv_type :: string
  cv_num :: "rat option"

record cmp_row =
  cw_oid :: string
  cw_name :: string
  cw_values :: "cmp_value option list"
  cw_numeric :: bool
  cw_delta :: "rat option"
  cw_percent :: "rat option"
  cw_status :: string

definition item_json :: "jsval walk_item \<Rightarrow> jsval" where
  "item_json i = JObj [(''oid'', JStr (wi_oid i)), (''type'', JStr (wi_type i)), (''value'', wi_value i)]"

text \<open>The items of an answer: of a walk its list, of anything else the answer itself.\<close>

definition compared_items :: "result_row \<Rightarrow> jsval walk_item list" where
  "compared_items r = (case rr_result r of None \<Rightarrow> []
     | Some p \<Rightarrow> if rp_type p = ''WalkResponse'' \<or> rp_type p = ''GetBulkResponse'' then result_items r
       else [\<lparr>wi_oid = rp_oid p,
              wi_value = (case rp_value p of One v \<Rightarrow> v | Many xs \<Rightarrow> JArr (map item_json xs)), wi_type = rp_type p\<rparr>])"

definition compared_value :: "(jsval \<Rightarrow> string) \<Rightarrow> jsval walk_item \<Rightarrow> cmp_value" where
  "compared_value text_of i =
     \<lparr>cv_value = (case wi_value i of JStr s \<Rightarrow> s | v \<Rightarrow> if nullish v then [] else text_of v),
      cv_type = wi_type i,
      cv_num = (case wi_value i of JStr s \<Rightarrow> parse_float s | v \<Rightarrow> if nullish v then None else parse_float (text_of v))\<rparr>"

text \<open>One answer written into the table: by OID, and there by target.\<close>

definition note_item :: "(jsval \<Rightarrow> string) \<Rightarrow> string \<Rightarrow> (string \<times> (string \<times> cmp_value) list) list \<Rightarrow> jsval walk_item
    \<Rightarrow> (string \<times> (string \<times> cmp_value) list) list" where
  "note_item text_of t m i =
     put (wi_oid i) (put t (compared_value text_of i) (case map_of m (wi_oid i) of Some vs \<Rightarrow> vs | None \<Rightarrow> [])) m"

definition oid_table :: "(jsval \<Rightarrow> string) \<Rightarrow> result_row list \<Rightarrow> (string \<times> (string \<times> cmp_value) list) list" where
  "oid_table text_of results =
     foldl (\<lambda>m r. foldl (note_item text_of (rr_target r)) m (compared_items r)) [] (filter (\<lambda>r. rr_error r = []) results)"

definition percent_of :: "rat \<Rightarrow> rat \<Rightarrow> rat \<Rightarrow> rat" where
  "percent_of delta base other = (if base \<noteq> 0 then delta / \<bar>base\<bar> * 100 else if other \<noteq> 0 then 100 else 0)"

definition two_targets_row :: "cmp_value option \<Rightarrow> cmp_value option \<Rightarrow> bool \<Rightarrow> rat list \<Rightarrow> rat option \<times> rat option \<times> string" where
  "two_targets_row vA vB numeric nums = (case (vA, vB) of
       (Some a, Some b) \<Rightarrow>
         (case nums of [x, y] \<Rightarrow>
            if numeric then (Some \<bar>x - y\<bar>, Some (percent_of \<bar>x - y\<bar> x y), if \<bar>x - y\<bar> = 0 then ''identical'' else ''different'')
            else (None, None, if cv_value a = cv_value b then ''identical'' else ''different'')
          | _ \<Rightarrow> (None, None, if cv_value a = cv_value b then ''identical'' else ''different''))
     | _ \<Rightarrow> (None, None, ''missing''))"

definition many_targets_row :: "cmp_value option list \<Rightarrow> bool \<Rightarrow> rat list \<Rightarrow> rat option \<times> rat option \<times> string" where
  "many_targets_row vs numeric nums =
     (let texts = map cv_value (List.map_filter id vs);
          status = (if length texts < length vs then ''missing''
                    else if list_all (\<lambda>x. x = hd texts) texts then ''identical'' else ''different'')
      in if numeric \<and> length nums \<ge> 2
         then (let lo = foldl min (hd nums) nums; hi = foldl max (hd nums) nums in
               (Some (hi - lo), Some (percent_of (hi - lo) lo hi), status))
         else (None, None, status))"

definition compare_row :: "(string \<Rightarrow> jsval) \<Rightarrow> string list \<Rightarrow> string \<times> (string \<times> cmp_value) list \<Rightarrow> cmp_row" where
  "compare_row cache targets entry = (case entry of (oid, by_target) \<Rightarrow>
     let vs = map (map_of by_target) targets; present = List.map_filter id vs;
         numeric = list_all (\<lambda>v. cv_num v \<noteq> None) present; nums = List.map_filter cv_num present;
         (delta, percent, status) = (if length targets = 2 then two_targets_row (vs ! 0) (vs ! 1) numeric nums
                                     else many_targets_row vs numeric nums)
     in \<lparr>cw_oid = oid, cw_name = info_name cache oid, cw_values = vs, cw_numeric = numeric, cw_delta = delta,
         cw_percent = percent, cw_status = status\<rparr>)"

definition buildEnhancedComparisonData :: "(jsval \<Rightarrow> string) \<Rightarrow> (string \<Rightarrow> jsval) \<Rightarrow> result_row list \<Rightarrow> string list \<times> cmp_row list" where
  "buildEnhancedComparisonData text_of cache results = (let targets = uniqueTargets results in
     if length targets < 2 then ([], []) else (targets, map (compare_row cache targets) (oid_table text_of results)))"

section \<open>Order and export\<close>

record compare_sort =
  cs_key :: string
  cs_asc :: bool

definition rat_order :: "rat option \<Rightarrow> rat option \<Rightarrow> int" where
  "rat_order a b = (let x = (case a of Some q \<Rightarrow> q | None \<Rightarrow> -1); y = (case b of Some q \<Rightarrow> q | None \<Rightarrow> -1) in
     if x < y then -1 else if y < x then 1 else 0)"

definition row_order :: "(string \<Rightarrow> string \<Rightarrow> int) \<Rightarrow> compare_sort \<Rightarrow> cmp_row \<Rightarrow> cmp_row \<Rightarrow> int" where
  "row_order loc s a b = (let c = (if cs_key s = ''delta'' then rat_order (cw_delta a) (cw_delta b)
       else if cs_key s = ''percent'' then rat_order (cw_percent a) (cw_percent b) else loc (cw_oid a) (cw_oid b))
     in if cs_asc s then c else - c)"

definition sortedComparisonRows :: "(string \<Rightarrow> string \<Rightarrow> int) \<Rightarrow> compare_sort \<Rightarrow> cmp_row list \<Rightarrow> cmp_row list" where
  "sortedComparisonRows loc s rows = stable_sort (row_order loc s) rows"

definition toggleCompareSort :: "string \<Rightarrow> compare_sort \<Rightarrow> compare_sort" where
  "toggleCompareSort key s = (if cs_key s = key then s\<lparr>cs_asc := \<not> cs_asc s\<rparr> else \<lparr>cs_key = key, cs_asc = True\<rparr>)"

definition enhanced_line :: "cmp_row \<Rightarrow> string" where
  "enhanced_line r = join_with CHR '',''
     ([escapeCSV (cw_oid r), escapeCSV (cw_name r)] @
      map (\<lambda>v. escapeCSV (case v of Some c \<Rightarrow> cv_value c | None \<Rightarrow> [])) (cw_values r) @
      [(case cw_delta r of Some d \<Rightarrow> to_fixed 2 d | None \<Rightarrow> []),
       (case cw_percent r of Some p \<Rightarrow> to_fixed 1 p @ ''%'' | None \<Rightarrow> []), cw_status r])"

definition exportEnhancedComparisonCSV :: "string list \<times> cmp_row list \<Rightarrow> string" where
  "exportEnhancedComparisonCSV d =
     join_with NL (join_with CHR '','' (map escapeCSV ([''OID'', ''Name''] @ fst d @ [''Delta'', ''% Diff'', ''Status''])) # map enhanced_line (snd d))"


section \<open>What the table shows\<close>

text \<open>Every value that was answered without an error, in the order of the answers, with its target.\<close>

definition all_answers :: "result_row list \<Rightarrow> (string \<times> jsval walk_item) list" where
  "all_answers results = concat (map (\<lambda>r. map (Pair (rr_target r)) (compared_items r)) (filter (\<lambda>r. rr_error r = []) results))"

definition last_answer :: "(jsval \<Rightarrow> string) \<Rightarrow> (string \<times> jsval walk_item) list \<Rightarrow> string \<Rightarrow> string \<Rightarrow> cmp_value option" where
  "last_answer text_of as t oid =
     map_option (\<lambda>p. compared_value text_of (snd p)) (List.find (\<lambda>p. fst p = t \<and> wi_oid (snd p) = oid) (rev as))"

definition note_pair :: "(jsval \<Rightarrow> string) \<Rightarrow> (string \<times> (string \<times> cmp_value) list) list \<Rightarrow> string \<times> jsval walk_item
    \<Rightarrow> (string \<times> (string \<times> cmp_value) list) list" where
  "note_pair text_of m p = note_item text_of (fst p) m (snd p)"

lemma oid_table_pairs: "oid_table text_of results = foldl (note_pair text_of) [] (all_answers results)"
proof -
  have i: "foldl (note_item text_of t) m js = foldl (note_pair text_of) m (map (Pair t) js)" for t m js
    by (induction js arbitrary: m) (simp_all add: note_pair_def)
  have "foldl (\<lambda>m r. foldl (note_item text_of (rr_target r)) m (compared_items r)) m rs =
      foldl (note_pair text_of) m (concat (map (\<lambda>r. map (Pair (rr_target r)) (compared_items r)) rs))" for m rs
    by (induction rs arbitrary: m) (simp_all add: i)
  then show ?thesis by (simp add: oid_table_def all_answers_def)
qed

definition in_table :: "(string \<times> (string \<times> cmp_value) list) list \<Rightarrow> string \<Rightarrow> string \<Rightarrow> cmp_value option" where
  "in_table m oid t = Option.bind (map_of m oid) (\<lambda>vs. map_of vs t)"

lemma in_table_note:
  "in_table (note_pair text_of m p) oid t =
     (if fst p = t \<and> wi_oid (snd p) = oid then Some (compared_value text_of (snd p)) else in_table m oid t)"
  by (auto simp: in_table_def note_pair_def note_item_def map_of_put split: option.splits)

lemma in_table_last: "in_table (foldl (note_pair text_of) [] as) oid t = last_answer text_of as t oid"
proof (induction as rule: rev_induct)
  case Nil
  show ?case by (simp add: in_table_def last_answer_def)
next
  case (snoc p as)
  then show ?case by (simp add: in_table_note last_answer_def)
qed

lemma keys_put: "fst ` set (put k v xs) = insert k (fst ` set xs)"
  by (induction k v xs rule: put.induct) auto

lemma distinct_put: "distinct (map fst xs) \<Longrightarrow> distinct (map fst (put k v xs))"
  by (induction k v xs rule: put.induct) (auto simp: keys_put)

lemma table_keys:
  "distinct (map fst (foldl (note_pair text_of) [] as)) \<and>
   fst ` set (foldl (note_pair text_of) [] as) = (\<lambda>p. wi_oid (snd p)) ` set as"
  by (induction as rule: rev_induct) (auto simp: note_pair_def note_item_def distinct_put keys_put)

lemma row_values:
  assumes "(oid, vs) \<in> set (foldl (note_pair text_of) [] as)"
  shows "map_of vs t = last_answer text_of as t oid"
proof -
  have "map_of (foldl (note_pair text_of) [] as) oid = Some vs"
    using assms table_keys[of text_of as] by simp
  then show ?thesis using in_table_last[of text_of as oid t] by (simp add: in_table_def)
qed

lemma map_filter_id: "List.map_filter id vs = map the (filter (\<lambda>v. v \<noteq> None) vs)"
  by (induction vs) (auto simp: List.map_filter_simps)

lemma missing_count: "length (List.map_filter id vs) < length vs \<longleftrightarrow> None \<in> set vs"
proof (cases "None \<in> set vs")
  case True
  then have "length (filter (\<lambda>v. v \<noteq> None) vs) < length vs" by (intro length_filter_less) auto
  with True show ?thesis by (simp add: map_filter_id)
next
  case False
  then have "filter (\<lambda>v. v \<noteq> None) vs = vs" by (intro filter_True) metis
  then have "length (List.map_filter id vs) = length vs" by (simp add: map_filter_id)
  with False show ?thesis by simp
qed

lemma parse_float_empty: "parse_float [] = None"
  by code_simp

lemma compared_num: "cv_num (compared_value text_of i) = parse_float (cv_value (compared_value text_of i))"
  by (simp add: compared_value_def parse_float_empty nullish_def split: jsval.splits)

lemma last_answer_num: "last_answer text_of as t oid = Some c \<Longrightarrow> cv_num c = parse_float (cv_value c)"
  by (auto simp: last_answer_def compared_num)

definition texts_differ :: "cmp_value option list \<Rightarrow> bool" where
  "texts_differ vs \<longleftrightarrow> (\<exists>a b. Some a \<in> set vs \<and> Some b \<in> set vs \<and> cv_value a \<noteq> cv_value b)"

lemma two_status:
  assumes "vs = [vA, vB]" "\<forall>c. Some c \<in> set vs \<longrightarrow> cv_num c = parse_float (cv_value c)"
    and st_def: "st = snd (snd (two_targets_row vA vB (list_all (\<lambda>v. cv_num v \<noteq> None) (List.map_filter id vs)) (List.map_filter cv_num (List.map_filter id vs))))"
  shows "st = ''missing'' \<longleftrightarrow> None \<in> set vs" "st = ''different'' \<Longrightarrow> texts_differ vs"
proof -
  show "st = ''missing'' \<longleftrightarrow> None \<in> set vs"
    by (auto simp: assms(1) st_def two_targets_row_def Let_def split: option.splits list.splits)
  show "texts_differ vs" if d: "st = ''different''"
  proof (cases "vA = None \<or> vB = None")
    case True
    then show ?thesis using d by (cases vA) (auto simp: st_def two_targets_row_def)
  next
    case False
    then obtain a b where ab: "vA = Some a" "vB = Some b" by auto
    have n: "cv_num a = parse_float (cv_value a)" "cv_num b = parse_float (cv_value b)"
      using assms(2)[rule_format, of a] assms(2)[rule_format, of b] ab by (simp_all add: assms(1))
    have "cv_value a \<noteq> cv_value b"
    proof
      assume eq: "cv_value a = cv_value b"
      then have "cv_num b = cv_num a" using n by simp
      with eq d show False
        by (cases "cv_num a") (simp_all add: st_def two_targets_row_def assms(1) ab List.map_filter_simps)
    qed
    then show ?thesis by (auto simp: texts_differ_def assms(1) ab)
  qed
qed

lemma many_status:
  assumes "vs \<noteq> []"
    and st_def: "st = snd (snd (many_targets_row vs n nums))"
  shows "st = ''missing'' \<longleftrightarrow> None \<in> set vs" "st = ''different'' \<Longrightarrow> texts_differ vs"
    "st = ''identical'' \<Longrightarrow> \<exists>x. \<forall>v \<in> set vs. map_option cv_value v = Some x"
proof -
  let ?t = "map cv_value (List.map_filter id vs)"
  have st: "st = (if length ?t < length vs then ''missing''
                    else if list_all (\<lambda>x. x = hd ?t) ?t then ''identical'' else ''different'')"
    by (simp add: st_def many_targets_row_def Let_def)
  then show m: "st = ''missing'' \<longleftrightarrow> None \<in> set vs" using missing_count[of vs] by simp
  have mem: "x \<in> set ?t \<longleftrightarrow> (\<exists>a. Some a \<in> set vs \<and> cv_value a = x)" for x
    by (force simp: map_filter_id)
  show "texts_differ vs" if "st = ''different''"
  proof -
    have "None \<notin> set vs" using that m by auto
    then have ne: "?t \<noteq> []" using assms(1) by (cases vs) (auto simp: List.map_filter_simps split: option.splits)
    have "\<not> list_all (\<lambda>x. x = hd ?t) ?t"
      using that st by (cases "length ?t < length vs"; cases "list_all (\<lambda>x. x = hd ?t) ?t") simp_all
    then obtain x where x: "x \<in> set ?t" "x \<noteq> hd ?t" by (simp only: list_all_iff) blast
    with mem[of x] mem[of "hd ?t"] ne show ?thesis unfolding texts_differ_def by (metis hd_in_set)
  qed
  show "\<exists>x. \<forall>v \<in> set vs. map_option cv_value v = Some x" if "st = ''identical''"
  proof (intro exI ballI)
    fix v
    assume v: "v \<in> set vs"
    have "None \<notin> set vs" using that m by auto
    then obtain a where a: "v = Some a" using v by (cases v) auto
    then have "cv_value a \<in> set ?t" using mem v by blast
    moreover have "list_all (\<lambda>x. x = hd ?t) ?t"
      using that st by (cases "length ?t < length vs"; cases "list_all (\<lambda>x. x = hd ?t) ?t") simp_all
    ultimately have "cv_value a = hd ?t" by (simp only: list_all_iff)
    with a show "map_option cv_value v = Some (hd ?t)" by simp
  qed
qed

lemma compare_row_status:
  "cw_status (compare_row cache ts (oid, vs)) = (let us = map (map_of vs) ts; n = list_all (\<lambda>v. cv_num v \<noteq> None) (List.map_filter id us);
       nums = List.map_filter cv_num (List.map_filter id us)
     in snd (snd (if length ts = 2 then two_targets_row (us ! 0) (us ! 1) n nums else many_targets_row us n nums)))"
  by (simp only: compare_row_def Let_def prod.case split: prod.splits) simp


definition walk_row :: "string \<Rightarrow> string \<Rightarrow> result_row" where
  "walk_row t v = \<lparr>rr_target = t, rr_error = [], rr_result = Some \<lparr>rp_oid = ''.1'', rp_type = ''WalkResponse'',
     rp_value = Many [\<lparr>wi_oid = ''.1.1'', wi_value = JStr v, wi_type = ''IPAddress''\<rparr>]\<rparr>\<rparr>"


text \<open>Two addresses are read as the number they begin with, and called identical.\<close>

lemma address_number: "parse_float ''10.0.0.1'' = Some 10" "parse_float ''10.0.5.9'' = Some 10"
  by (simp_all add: parse_float_def read_decimal_def take_sign_def is_space_def is_ascii_digit_def code_def read_exponent_def
      read_base_def char_digit_def starts_with_def signed_def upt_rec)

lemma other_address_is_identical:
  "map cw_status (snd (buildEnhancedComparisonData (\<lambda>v. []) (\<lambda>k. JUndef) [walk_row ''a'' ''10.0.0.1'', walk_row ''b'' ''10.0.5.9''])) = [''identical'']"
proof -
  have t: "uniqueTargets [walk_row ''a'' ''10.0.0.1'', walk_row ''b'' ''10.0.5.9''] = [''a'', ''b'']" by code_simp
  show ?thesis
    by (simp add: buildEnhancedComparisonData_def t[unfolded walk_row_def] Let_def oid_table_def walk_row_def compared_items_def result_items_def walk_of_def
        note_item_def compare_row_status compared_value_def address_number two_targets_row_def List.map_filter_simps)
qed

section \<open>The matrix, the order and the export\<close>

lemma valuesDiffer_exact:
  "targets \<noteq> [] \<Longrightarrow> valuesDiffer oid targets data \<longleftrightarrow> (\<exists>t \<in> set targets. \<exists>u \<in> set targets. matrix_cell data oid t \<noteq> matrix_cell data oid u)"
  by (cases targets) (auto simp: valuesDiffer_def list_ex_iff, metis+)

lemma column_last: "map_of (column_of r) oid = map_option wi_value (List.find (\<lambda>i. wi_oid i = oid) (rev (result_items r)))"
proof -
  have "map_of (foldl (\<lambda>d i. put (wi_oid i) (wi_value i) d) [] xs) oid = map_option wi_value (List.find (\<lambda>i. wi_oid i = oid) (rev xs))" for xs
    by (induction xs rule: rev_induct) (simp_all add: map_of_put)
  then show ?thesis by (simp add: column_of_def)
qed

lemma matrix_oids: "set (mx_oids (buildComparisonData results)) = (\<Union>r \<in> {r \<in> set results. answered r}. wi_oid ` set (result_items r))"
  by (auto simp: buildComparisonData_def Let_def set_stable_sort)

text \<open>A target that answered twice has two columns, both with its last answer.\<close>

lemma target_twice:
  "mx_targets (buildComparisonData [walk_row ''a'' ''1'', walk_row ''a'' ''2'']) = [''a'', ''a'']"
  "map (matrix_cell (mx_data (buildComparisonData [walk_row ''a'' ''1'', walk_row ''a'' ''2''])) ''.1.1'') [''a'', ''a''] = [JStr ''2'', JStr ''2'']"
  by code_simp+

lemma sorted_rows_are_the_rows: "mset (sortedComparisonRows loc s rows) = mset rows"
  by (simp add: sortedComparisonRows_def mset_stable_sort)

lemma toggle_twice_reverses: "toggleCompareSort k (toggleCompareSort k s) = \<lparr>cs_key = k, cs_asc = (if cs_key s = k then cs_asc s else False)\<rparr>"
  by (cases s) (simp add: toggleCompareSort_def)

text \<open>The matrix that is saved reads back as it is shown, its cells neutralised.\<close>

lemma matrix_reads_back:
  assumes "exportComparisonCSV fmt cache results = Some csv"
  shows "csv_records csv = map (map neutralise) (([''OID'', ''Name''] @ mx_targets (buildComparisonData results)) #
    map (matrix_row fmt cache (buildComparisonData results)) (mx_oids (buildComparisonData results)))"
proof -
  have "csv = csv_text (([''OID'', ''Name''] @ mx_targets (buildComparisonData results)) #
    map (matrix_row fmt cache (buildComparisonData results)) (mx_oids (buildComparisonData results)))"
    using assms by (simp add: exportComparisonCSV_def Let_def split: if_splits)
  then show ?thesis by (simp only:) (rule read_rows, auto simp: matrix_row_def)
qed

end
