(* ===== verification/Discovery_Panel.thy ===== *)
theory Discovery_Panel
  imports Targets Csv_Export Mib_Files
begin

text \<open>
  Discovery, ping and traceroute: the script of \<open>frontend/src/DiscoveryPanel.svelte\<close>. The settings are read and
  written as the store has them; the answers of the bridge are arguments and each wait splits an operation in two. The
  lemmas show that adding devices loses no line and adds each device once, and what the panel says that is not so.
\<close>

section \<open>State\<close>

record device =
  dd_ip :: string
  dd_name :: string
  dd_descr :: string
  dd_uptime :: string
  dd_time :: string
  dd_reachable :: bool

datatype discovery_message =
    EnterCidr | ScanComplete nat nat | ScanFailed string | AlreadyTarget string | TargetAdded string
  | ManyAdded "string list" | AllAlready | PingFailed | TraceFailed

record discovery =
  dc_settings :: fields
  dc_cidr :: string
  dc_timeout :: nat
  dc_scanning :: bool
  dc_results :: "device list"
  dc_counted :: nat
  dc_only :: bool
  dc_profile :: string
  dc_pinging :: bool
  dc_ping :: "jsval option"
  dc_tracing :: bool
  dc_hops :: "jsval list"
  dc_traced :: bool
  dc_said :: "discovery_message list"

definition tell :: "discovery_message \<Rightarrow> discovery \<Rightarrow> discovery" where
  "tell m s = s\<lparr>dc_said := dc_said s @ [m]\<rparr>"

text \<open>The count is kept by a reactive statement, which runs when what is running has ended.\<close>

definition settle :: "discovery \<Rightarrow> discovery" where
  "settle s = s\<lparr>dc_counted := length (filter dd_reachable (dc_results s)),
     dc_profile := (if dc_profile s \<noteq> [] \<and> findProfile (JObj (dc_settings s)) (JStr (dc_profile s)) = None then [] else dc_profile s)\<rparr>"

definition filteredResults :: "discovery \<Rightarrow> device list" where
  "filteredResults s = (if dc_only s then filter dd_reachable (dc_results s) else dc_results s)"

section \<open>Scanning\<close>

definition scan_begin :: "discovery \<Rightarrow> discovery \<times> fields option" where
  "scan_begin s = (if trim (dc_cidr s) = [] then (tell EnterCidr s, None)
     else (settle (s\<lparr>dc_scanning := True, dc_results := []\<rparr>),
           Some (buildDiscoverRequest (JObj (withProfile (JObj (dc_settings s)) (JStr (dc_profile s)))) (trim (dc_cidr s)) (JNum (of_nat (dc_timeout s))))))"

definition scan_end :: "string + device list \<Rightarrow> discovery \<Rightarrow> discovery" where
  "scan_end answer s = settle ((case answer of
       Inl e \<Rightarrow> tell (ScanFailed e) s
     | Inr ds \<Rightarrow> tell (ScanComplete (dc_counted s) (length ds)) (s\<lparr>dc_results := ds\<rparr>))\<lparr>dc_scanning := False\<rparr>)"

section \<open>Adding to the targets\<close>

definition withScanProfile :: "string \<Rightarrow> fields \<Rightarrow> string list \<Rightarrow> fields" where
  "withScanProfile profile overrides addresses =
     (if profile = [] then overrides else foldl (\<lambda>ovs a. assignProfile ovs a (JStr profile)) overrides addresses)"

definition line_list :: "string \<Rightarrow> string list" where
  "line_list t = filter (\<lambda>l. l \<noteq> []) (map trim (split_on NEWLINE t))"

definition target_lines :: "discovery \<Rightarrow> string list" where
  "target_lines s = line_list (str (fget (dc_settings s) ''targets''))"

definition save_targets :: "string list \<Rightarrow> string list \<Rightarrow> discovery \<Rightarrow> discovery" where
  "save_targets lines added s = s\<lparr>dc_settings := fset ''targetOverrides''
     (JObj (withScanProfile (dc_profile s) (fields_of (fget (dc_settings s) ''targetOverrides'')) added))
     (fset ''targets'' (JStr (join_with NEWLINE lines)) (dc_settings s))\<rparr>"

definition addToTargets :: "string \<Rightarrow> discovery \<Rightarrow> discovery" where
  "addToTargets ip s = (if ip \<in> set (target_lines s) then tell (AlreadyTarget ip) s
     else tell (TargetAdded ip) (save_targets (target_lines s @ [ip]) [ip] s))"

fun fresh_devices :: "string list \<Rightarrow> device list \<Rightarrow> string list" where
  "fresh_devices lines [] = []"
| "fresh_devices lines (r # rs) =
     (if dd_reachable r \<and> dd_ip r \<notin> set lines then dd_ip r # fresh_devices (lines @ [dd_ip r]) rs else fresh_devices lines rs)"

definition addAllReachable :: "discovery \<Rightarrow> discovery" where
  "addAllReachable s = (let lines = target_lines s; added = fresh_devices lines (dc_results s) in
     if added \<noteq> [] then tell (ManyAdded added) (save_targets (lines @ added) added s) else tell AllAlready s)"

definition discovery_csv :: "discovery \<Rightarrow> string" where
  "discovery_csv s = join_with NL (''IP,SysName,SysDescr,SysUpTime,ResponseTime(ms),Reachable'' #
     map (\<lambda>r. join_with CHR '','' [escapeCSV (dd_ip r), escapeCSV (dd_name r), escapeCSV (dd_descr r), escapeCSV (dd_uptime r),
       dd_time r, if dd_reachable r then ''true'' else ''false'']) (filteredResults s))"

section \<open>Ping and traceroute\<close>

definition ping_begin :: "string \<Rightarrow> discovery \<Rightarrow> discovery" where
  "ping_begin target s = (if trim target = [] \<or> dc_pinging s then s else s\<lparr>dc_pinging := True, dc_ping := None\<rparr>)"

definition ping_end :: "jsval option \<Rightarrow> discovery \<Rightarrow> discovery" where
  "ping_end answer s = (case answer of Some r \<Rightarrow> s\<lparr>dc_ping := Some r, dc_pinging := False\<rparr>
     | None \<Rightarrow> (tell PingFailed s)\<lparr>dc_pinging := False\<rparr>)"

definition trace_begin :: "string \<Rightarrow> discovery \<Rightarrow> discovery" where
  "trace_begin target s = (if trim target = [] \<or> dc_tracing s then s
     else s\<lparr>dc_tracing := True, dc_hops := [], dc_traced := False\<rparr>)"

definition trace_hop :: "jsval \<Rightarrow> discovery \<Rightarrow> discovery" where
  "trace_hop hop s = (if dc_tracing s then s\<lparr>dc_hops := dc_hops s @ [hop]\<rparr> else s)"

text \<open>An answer that is no list keeps the hops that came one by one.\<close>

definition trace_end :: "jsval list option option \<Rightarrow> discovery \<Rightarrow> discovery" where
  "trace_end answer s = (case answer of None \<Rightarrow> (tell TraceFailed s)\<lparr>dc_tracing := False\<rparr>
     | Some hops \<Rightarrow> s\<lparr>dc_hops := (case hops of Some hs \<Rightarrow> hs | None \<Rightarrow> dc_hops s), dc_traced := True, dc_tracing := False\<rparr>)"

section \<open>What adding does\<close>

lemma fresh_devices_exact:
  "set (fresh_devices lines rs) = {dd_ip r |r. r \<in> set rs \<and> dd_reachable r} - set lines \<and> distinct (fresh_devices lines rs)"
proof (induction lines rs rule: fresh_devices.induct)
  case (2 lines r rs)
  then show ?case by (cases "dd_reachable r \<and> dd_ip r \<notin> set lines") auto
qed simp

definition ip_text :: "string \<Rightarrow> bool" where
  "ip_text ip \<longleftrightarrow> ip \<noteq> [] \<and> trimmed ip \<and> NEWLINE \<notin> set ip"

lemma saved_lines:
  assumes "\<forall>l \<in> set lines. l \<noteq> [] \<and> trimmed l \<and> NEWLINE \<notin> set l"
  shows "target_lines (save_targets lines added s) = lines"
proof (cases "lines = []")
  case True
  then show ?thesis by (simp add: target_lines_def line_list_def save_targets_def trim_def)
next
  case False
  have "split_on NEWLINE (join_with NEWLINE lines) = lines" using assms False by (intro split_join) auto
  moreover have "map trim lines = lines" using assms by (intro map_idI) (simp add: trim_trimmed)
  moreover have "filter (\<lambda>l. l \<noteq> []) lines = lines" using assms by (intro filter_True) auto
  ultimately show ?thesis by (simp add: target_lines_def line_list_def save_targets_def)
qed

lemma target_lines_clean: "l \<in> set (target_lines s) \<Longrightarrow> l \<noteq> [] \<and> trimmed l \<and> NEWLINE \<notin> set l"
  using set_trim by (fastforce simp: target_lines_def line_list_def trimmed_trim dest: split_on_no_sep)

text \<open>Every line is kept and every reachable device is a line afterwards, added once at the end.\<close>

lemma all_reachable_are_added:
  assumes "\<forall>r \<in> set (dc_results s). ip_text (dd_ip r)"
  shows "\<exists>added. target_lines (addAllReachable s) = target_lines s @ added \<and> distinct added \<and>
    set added = {dd_ip r |r. r \<in> set (dc_results s) \<and> dd_reachable r} - set (target_lines s)"
proof -
  let ?new = "fresh_devices (target_lines s) (dc_results s)"
  note f = fresh_devices_exact[of "target_lines s" "dc_results s"]
  have tell: "target_lines (tell m u) = target_lines u" for m u by (simp add: tell_def target_lines_def)
  have "\<forall>l \<in> set (target_lines s @ ?new). l \<noteq> [] \<and> trimmed l \<and> NEWLINE \<notin> set l"
    using target_lines_clean f assms by (auto simp: ip_text_def)
  then have "target_lines (addAllReachable s) = target_lines s @ ?new"
    by (simp add: addAllReachable_def Let_def tell saved_lines)
  with f show ?thesis by blast
qed

lemma added_again: "ip_text ip \<Longrightarrow> addToTargets ip (addToTargets ip s) = tell (AlreadyTarget ip) (addToTargets ip s)"
proof -
  assume ip: "ip_text ip"
  have tell: "target_lines (tell m u) = target_lines u" for m u by (simp add: tell_def target_lines_def)
  have "\<forall>l \<in> set (target_lines s @ [ip]). l \<noteq> [] \<and> trimmed l \<and> NEWLINE \<notin> set l"
    using target_lines_clean ip by (auto simp: ip_text_def)
  then have "ip \<in> set (target_lines (addToTargets ip s))" by (auto simp: addToTargets_def tell saved_lines)
  then show ?thesis by (simp add: addToTargets_def)
qed

text \<open>A device that answered to the identifiers of a profile is added with that profile.\<close>

lemma fset_not_empty: "fset k v fs \<noteq> []"
  by (induction k v fs rule: fset.induct) auto

lemma added_with_profile:
  assumes "dc_profile s \<noteq> []" "ip \<notin> set (target_lines s)"
  shows "jget (jget (fget (dc_settings (addToTargets ip s)) ''targetOverrides'') ip) ''profile'' = JStr (dc_profile s)"
  using assms by (simp add: addToTargets_def tell_def save_targets_def withScanProfile_def assignProfile_def Let_def jget_fields map_of_fset fset_not_empty)

section \<open>What is not as it seems\<close>

text \<open>The message is put together before the count has followed the results: it says none was reached.\<close>

lemma scan_says_none_reached:
  "trim (dc_cidr s) \<noteq> [] \<Longrightarrow> ScanComplete 0 (length ds) \<in> set (dc_said (scan_end (Inr ds) (fst (scan_begin s))))"
  by (simp add: scan_end_def scan_begin_def settle_def tell_def)

text \<open>A target with a label is another line, so its device is added again and asked twice; a disabled one stays disabled.\<close>

definition with_target :: "string \<Rightarrow> string \<Rightarrow> string" where
  "with_target t ip = (if ip \<in> set (line_list t) then t else join_with NEWLINE (line_list t @ [ip]))"

lemma targets_after_adding:
  "str (fget (dc_settings (addToTargets ip s)) ''targets'') = with_target (str (fget (dc_settings s) ''targets'')) ip"
  by (simp add: addToTargets_def tell_def save_targets_def target_lines_def with_target_def)

lemma labelled_target_added_again:
  "str (fget (dc_settings s) ''targets'') = ''r1 # c'' \<Longrightarrow>
     getTargetsAsArray (str (fget (dc_settings (addToTargets ''r1'' s)) ''targets'')) = [''r1'', ''r1'']"
proof -
  have "getTargetsAsArray (with_target ''r1 # c'' ''r1'') = [''r1'', ''r1'']" by code_simp
  then show "str (fget (dc_settings s) ''targets'') = ''r1 # c'' \<Longrightarrow> ?thesis" by (simp only: targets_after_adding)
qed

lemma disabled_target_stays_disabled:
  "str (fget (dc_settings s) ''targets'') = ''//r1'' \<Longrightarrow>
     map tl_enabled (parseTargetLines (str (fget (dc_settings (addToTargets ''r1'' s)) ''targets''))) = [False]"
proof -
  have "map tl_enabled (parseTargetLines (with_target ''//r1'' ''r1'')) = [False]" by code_simp
  then show "str (fget (dc_settings s) ''targets'') = ''//r1'' \<Longrightarrow> ?thesis" by (simp only: targets_after_adding)
qed

end
