(* ===== verification/Trap_Panel.thy ===== *)
theory Trap_Panel
  imports Trap_Feed Series_View Address_Masking Oid_Names Mib_Browser Csv_Export Credential_Profiles Js_Date
begin

text \<open>
  The trap panel: the scripts of \<open>frontend/src/TrapPanel.svelte\<close> and \<open>Trap.svelte\<close>. \<open>text_of\<close> is \<open>String\<close>,
  \<open>stringify\<close> is \<open>JSON.stringify\<close>, a lookup is \<open>None\<close> where it throws, and a reading of the list that throws is
  \<open>None\<close> too. The lemmas show what the filters keep, when the list is cleared, and that a sent inform is reported as
  received only when it was acknowledged.
\<close>

section \<open>Filters\<close>

record trap_filter =
  tf_search :: string
  tf_version :: string
  tf_pdu :: string
  tf_minutes :: "nat option"

text \<open>The first variable that matches decides; what is not a text, or not there, throws when it is looked at.\<close>

definition lower_has :: "jsval \<Rightarrow> string \<Rightarrow> bool option" where
  "lower_has v q = (case v of JStr s \<Rightarrow> Some (indexOf (toLowerCase s) q 0 \<noteq> None) | _ \<Rightarrow> None)"

fun variables_match :: "(jsval \<Rightarrow> string) \<Rightarrow> string \<Rightarrow> jsval list \<Rightarrow> bool option" where
  "variables_match stringify q [] = Some False"
| "variables_match stringify q (v # vs) =
     (case lower_has (jget v ''oid'') q of None \<Rightarrow> None | Some True \<Rightarrow> Some True
      | Some False \<Rightarrow> (if jget v ''value'' = JUndef then None
          else if indexOf (toLowerCase (stringify (jget v ''value''))) q 0 \<noteq> None then Some True
          else variables_match stringify q vs))"

definition trap_matches :: "(jsval \<Rightarrow> string) \<Rightarrow> string \<Rightarrow> fields \<Rightarrow> bool option" where
  "trap_matches stringify q trap =
     (case lower_has (fget trap ''source'') q of None \<Rightarrow> None | Some True \<Rightarrow> Some True
      | Some False \<Rightarrow> (case fget trap ''variables'' of JArr vs \<Rightarrow> variables_match stringify q vs | _ \<Rightarrow> None))"

fun filter_throwing :: "('a \<Rightarrow> bool option) \<Rightarrow> 'a list \<Rightarrow> 'a list option" where
  "filter_throwing f [] = Some []"
| "filter_throwing f (x # xs) = (case f x of None \<Rightarrow> None
     | Some b \<Rightarrow> map_option (\<lambda>ys. if b then x # ys else ys) (filter_throwing f xs))"

definition in_version :: "string \<Rightarrow> fields \<Rightarrow> bool" where
  "in_version v t \<longleftrightarrow> v = ''All'' \<or> fget t ''version'' = JStr v"

definition in_pdu :: "string \<Rightarrow> fields \<Rightarrow> bool" where
  "in_pdu p t \<longleftrightarrow> p = ''All'' \<or> jor (fget t ''pduType'') (JStr ''Trap'') = JStr p"

definition in_time :: "rat \<Rightarrow> nat option \<Rightarrow> fields \<Rightarrow> bool" where
  "in_time now minutes t \<longleftrightarrow> (case minutes of None \<Rightarrow> True
     | Some m \<Rightarrow> truthy (fget t ''timestamp'') \<and> num_le (Some (now - of_nat m * 60 * 1000)) (date_value (fget t ''timestamp'')))"

definition filteredTraps :: "(jsval \<Rightarrow> string) \<Rightarrow> rat \<Rightarrow> trap_filter \<Rightarrow> fields list \<Rightarrow> fields list option" where
  "filteredTraps stringify now f ts =
     map_option (\<lambda>found. filter (in_time now (tf_minutes f)) (filter (in_pdu (tf_pdu f)) (filter (in_version (tf_version f)) found)))
       (if tf_search f = [] then Some ts else filter_throwing (trap_matches stringify (toLowerCase (tf_search f))) ts)"

definition trap_csv_line :: "(jsval \<Rightarrow> string) \<Rightarrow> (jsval \<Rightarrow> string) \<Rightarrow> fields \<Rightarrow> string" where
  "trap_csv_line text_of stringify trap = join_with CHR '','' (map escapeCSV
     [text_of (fget trap ''timestamp''), text_of (fget trap ''source''), text_of (fget trap ''version''), text_of (fget trap ''pduType''),
      join_text ''; '' (map (\<lambda>v. text_of (jget v ''oid'') @ ''='' @ stringify (jget v ''value'')) (elems (fget trap ''variables'')))])"

definition trap_csv :: "(jsval \<Rightarrow> string) \<Rightarrow> (jsval \<Rightarrow> string) \<Rightarrow> fields list \<Rightarrow> string" where
  "trap_csv text_of stringify ts = join_with NL (''Timestamp,Source,Version,Type,Variables'' # map (trap_csv_line text_of stringify) ts)"

section \<open>Clearing\<close>

text \<open>Whether the next click clears, and when the timers of earlier clicks take that back.\<close>

record clear_button =
  cb_confirm :: bool
  cb_timers :: "nat list"
  cb_cleared :: nat

definition clear_click :: "nat \<Rightarrow> clear_button \<Rightarrow> clear_button" where
  "clear_click now b = (if cb_confirm b then b\<lparr>cb_confirm := False, cb_cleared := cb_cleared b + 1\<rparr>
     else b\<lparr>cb_confirm := True, cb_timers := cb_timers b @ [now + 3000]\<rparr>)"

definition clear_timer :: "nat \<Rightarrow> clear_button \<Rightarrow> clear_button" where
  "clear_timer now b = (if \<exists>t \<in> set (cb_timers b). t \<le> now
     then b\<lparr>cb_confirm := False, cb_timers := filter (\<lambda>t. now < t) (cb_timers b)\<rparr> else b)"

section \<open>Sending\<close>

record sent_variable =
  tv_oid :: string
  tv_type :: string
  tv_value :: string

record send_form =
  sf_kind :: string
  sf_target :: string
  sf_port :: jsval
  sf_community :: string
  sf_version :: string
  sf_oid :: string
  sf_varbinds :: "sent_variable list"
  sf_sending :: bool

datatype send_message =
    EnterTarget | EnterTrapOid | InformFailed string | InformAcked string jsval | TrapSent string jsval | SendFailed string

definition addVarbind :: "send_form \<Rightarrow> send_form" where
  "addVarbind f = f\<lparr>sf_varbinds := sf_varbinds f @ [\<lparr>tv_oid = [], tv_type = ''OctetString'', tv_value = []\<rparr>]\<rparr>"

definition removeVarbind :: "nat \<Rightarrow> send_form \<Rightarrow> send_form" where
  "removeVarbind i f = f\<lparr>sf_varbinds := take i (sf_varbinds f) @ drop (Suc i) (sf_varbinds f)\<rparr>"

definition choose_kind :: "string \<Rightarrow> send_form \<Rightarrow> send_form" where
  "choose_kind k f = f\<lparr>sf_kind := k, sf_version := (if k = ''inform'' \<and> sf_version f = ''v1'' then ''v2c'' else sf_version f)\<rparr>"

record send_call =
  sn_inform :: bool
  sn_target :: string
  sn_port :: jsval
  sn_community :: jsval
  sn_version :: string
  sn_oid :: string
  sn_varbinds :: "sent_variable list"

definition send_begin :: "jsval \<Rightarrow> send_form \<Rightarrow> send_form \<times> (send_message + send_call)" where
  "send_begin settings f =
     (if trim (sf_target f) = [] then (f, Inl EnterTarget)
      else if trim (sf_oid f) = [] then (f, Inl EnterTrapOid)
      else (f\<lparr>sf_sending := True\<rparr>, Inr \<lparr>sn_inform = (sf_kind f = ''inform''), sn_target = trim (sf_target f), sn_port = sf_port f,
        sn_community = (if sf_community f = [] then jget settings ''community'' else JStr (sf_community f)),
        sn_version = sf_version f, sn_oid = trim (sf_oid f),
        sn_varbinds = filter (\<lambda>v. trim (tv_oid v) \<noteq> []) (sf_varbinds f)\<rparr>))"

text \<open>The target and the port named are those of the form when the answer comes.\<close>

definition send_end :: "string \<Rightarrow> bool \<Rightarrow> string + jsval \<Rightarrow> send_form \<Rightarrow> send_form \<times> send_message" where
  "send_end no_ack inform answer f = (f\<lparr>sf_sending := False\<rparr>, case answer of
       Inl e \<Rightarrow> SendFailed e
     | Inr res \<Rightarrow> if \<not> inform then TrapSent (sf_target f) (sf_port f)
         else if truthy (jget res ''error'') \<or> \<not> truthy (jget res ''acknowledged'')
         then InformFailed (if truthy (jget res ''error'') then str (jget res ''error'') else no_ack)
         else InformAcked (sf_target f) (jget res ''responseTimeMs''))"

section \<open>Who is heard\<close>

definition acceptedUsers :: "jsval \<Rightarrow> reception list" where
  "acceptedUsers settings = filter rc_accepted (trapReception settings)"

definition excludedUsers :: "jsval \<Rightarrow> reception list" where
  "excludedUsers settings = filter (\<lambda>u. \<not> rc_accepted u) (trapReception settings)"

definition refusalOf :: "reception \<Rightarrow> (string \<times> string) list \<Rightarrow> string option" where
  "refusalOf u refusals = map_option snd (List.find (\<lambda>r. JStr (fst r) = rc_user u) refusals)"

definition userTitle :: "(string \<Rightarrow> string \<Rightarrow> string) \<Rightarrow> (string \<Rightarrow> string) \<Rightarrow> reception \<Rightarrow> (string \<times> string) list \<Rightarrow> bool \<Rightarrow> string" where
  "userTitle line_of refused_text u refusals anon =
     (let line = line_of (if anon then maskString (str (rc_user u)) else str (rc_user u)) (str (rc_level u)) in
      case refusalOf u refusals of Some reason \<Rightarrow> line @ [CHR 0x0A] @ refused_text reason | None \<Rightarrow> line)"

definition excludedTitle :: "(string \<Rightarrow> string) \<Rightarrow> string \<Rightarrow> reception list \<Rightarrow> string" where
  "excludedTitle title_of default_name us = title_of (join_text '', ''
     (map (\<lambda>u. if rc_ref u = JStr DEFAULT_REF then default_name else str (rc_name u)) us))"

definition listener_click :: "'u trap_store \<Rightarrow> bool" where
  "listener_click s = (\<not> isListening s)"

section \<open>A trap of the list\<close>

record trap_entry =
  te_open :: bool
  te_message :: string
  te_vars :: "jsval list"

definition trap_var :: "(jsval \<Rightarrow> string) \<Rightarrow> fields \<Rightarrow> jsval option" where
  "trap_var text_of t = List.find (is_trap_oid text_of) (elems (fget t ''variables''))"

definition trapDescription :: "(jsval \<Rightarrow> string) \<Rightarrow> (string \<Rightarrow> jsval option) \<Rightarrow> string \<Rightarrow> string \<Rightarrow> fields \<Rightarrow> string" where
  "trapDescription text_of details v1_text other_text t =
     (case trap_var text_of t of
        Some v \<Rightarrow> if truthy (jget v ''value'') then
            (let oid = strip_dot (text_of (jget v ''value'')) in
             case details oid of Some d \<Rightarrow> if truthy (jget d ''name'') then text_of (jget d ''name'') else oid | None \<Rightarrow> oid)
          else if fget t ''version'' = JStr ''SNMPv1'' then v1_text else other_text
      | None \<Rightarrow> if fget t ''version'' = JStr ''SNMPv1'' then v1_text else other_text)"

definition message_var :: "fields \<Rightarrow> jsval option" where
  "message_var t = List.find (\<lambda>v. ends_with ''.1.4.1.8955.1.8.1.6'' (str (jget v ''oid''))) (elems (fget t ''variables''))"

definition mainTrapMessage :: "(jsval \<Rightarrow> string) \<Rightarrow> string \<Rightarrow> fields \<Rightarrow> string" where
  "mainTrapMessage text_of description t = (case message_var t of
       Some v \<Rightarrow> if truthy (jget v ''value'') then description @ '': '' @ text_of (jget v ''value'') else description
     | None \<Rightarrow> description)"

definition translate_variable :: "(jsval \<Rightarrow> string) \<Rightarrow> (string \<Rightarrow> jsval option) \<Rightarrow> jsval \<Rightarrow> jsval" where
  "translate_variable text_of details v =
     (let clean = strip_dot (str (jor (jget v ''oid'') (JStr []))) in
      jset ''name'' (case details clean of
          Some d \<Rightarrow> if truthy (jget d ''name'') then jget d ''name'' else JStr clean | None \<Rightarrow> JStr clean)
        (jset ''oid'' (JStr clean) v))"

text \<open>Resolving: what is shown goes at once, then the message, then the variables come.\<close>

definition resolve_begin :: "trap_entry \<Rightarrow> trap_entry" where
  "resolve_begin e = e\<lparr>te_message := [], te_vars := []\<rparr>"

definition resolve_message :: "(jsval \<Rightarrow> string) \<Rightarrow> (string \<Rightarrow> jsval option) \<Rightarrow> string \<Rightarrow> string \<Rightarrow> fields \<Rightarrow> trap_entry \<Rightarrow> trap_entry" where
  "resolve_message text_of details v1_text other_text t e =
     e\<lparr>te_message := mainTrapMessage text_of (trapDescription text_of details v1_text other_text t) t\<rparr>"

definition resolve_variables :: "(jsval \<Rightarrow> string) \<Rightarrow> (string \<Rightarrow> jsval option) \<Rightarrow> fields \<Rightarrow> trap_entry \<Rightarrow> trap_entry" where
  "resolve_variables text_of details t e =
     e\<lparr>te_vars := map (translate_variable text_of details) (elems (fget t ''variables''))\<rparr>"

definition toggle_trap :: "trap_entry \<Rightarrow> trap_entry" where
  "toggle_trap e = e\<lparr>te_open := \<not> te_open e\<rparr>"

definition formatTrapValue :: "(rat \<Rightarrow> string) \<Rightarrow> (jsval \<Rightarrow> string) \<Rightarrow> (jsval \<Rightarrow> string) \<Rightarrow> jsval \<Rightarrow> string" where
  "formatTrapValue toLocale text_of stringify v =
     (let x = jget v ''value'' in
      if nullish x then ''-''
      else case formatBySnmpType toLocale x (jget v ''type'') of Some t \<Rightarrow> t
         | None \<Rightarrow> (case x of JArr xs \<Rightarrow> stringify x | JObj fs \<Rightarrow> stringify x | _ \<Rightarrow> text_of x))"

section \<open>What the panel shows\<close>

lemma filter_throwing_Some: "filter_throwing f xs = Some ys \<Longrightarrow> ys = filter (\<lambda>x. f x = Some True) xs \<and> (\<forall>x \<in> set xs. f x \<noteq> None)"
  by (induction xs arbitrary: ys) (auto split: option.splits)

text \<open>The traps listed are those of the store that pass every filter that is set, in their order.\<close>

lemma listed_traps_exact:
  assumes "filteredTraps stringify now f ts = Some out"
  shows "out = filter (\<lambda>t. (tf_search f = [] \<or> trap_matches stringify (toLowerCase (tf_search f)) t = Some True) \<and>
    in_version (tf_version f) t \<and> in_pdu (tf_pdu f) t \<and> in_time now (tf_minutes f) t) ts"
  using assms by (cases "tf_search f = []") (auto simp: filteredTraps_def conj_ac dest!: filter_throwing_Some)

lemma no_filter_shows_all: "filteredTraps stringify now \<lparr>tf_search = [], tf_version = ''All'', tf_pdu = ''All'', tf_minutes = None\<rparr> ts = Some ts"
  by (simp add: filteredTraps_def in_version_def in_pdu_def in_time_def)

text \<open>A trap that has no list of variables stops the search for all of them, unless its source matches.\<close>

lemma search_throws:
  "fget t ''source'' = JStr s \<Longrightarrow> indexOf (toLowerCase s) (toLowerCase q) 0 = None \<Longrightarrow> fget t ''variables'' = JNull \<Longrightarrow> q \<noteq> [] \<Longrightarrow> t \<in> set ts \<Longrightarrow>
     filteredTraps stringify now \<lparr>tf_search = q, tf_version = v, tf_pdu = p, tf_minutes = m\<rparr> ts = None"
  using filter_throwing_Some[of "trap_matches stringify (toLowerCase q)" ts]
  by (cases "filter_throwing (trap_matches stringify (toLowerCase q)) ts")
     (auto simp: filteredTraps_def trap_matches_def lower_has_def)

text \<open>Clearing takes two clicks, the second within three seconds of a first.\<close>

lemma clear_needs_confirmation: "cb_cleared (clear_click now b) = cb_cleared b + (if cb_confirm b then 1 else 0)"
  by (simp add: clear_click_def)

lemma confirmation_ends: "cb_timers b \<noteq> [] \<Longrightarrow> \<forall>t \<in> set (cb_timers b). t \<le> now \<Longrightarrow> \<not> cb_confirm (clear_timer now b)"
  by (cases "cb_timers b") (auto simp: clear_timer_def)

text \<open>The timer of a click whose list is cleared already takes back the confirmation asked for after it.\<close>

lemma earlier_timer_ends_confirmation:
  "let b = clear_click 2900 (clear_click 1000 (clear_click 0 \<lparr>cb_confirm = False, cb_timers = [], cb_cleared = 0\<rparr>)) in
   cb_confirm b \<and> \<not> cb_confirm (clear_timer 3000 b)"
  by (simp add: clear_click_def clear_timer_def Let_def)

text \<open>An inform is reported as received only when it was acknowledged without an error.\<close>

lemma inform_acked: "snd (send_end no_ack True answer f) = InformAcked t ms \<Longrightarrow>
    \<exists>res. answer = Inr res \<and> truthy (jget res ''acknowledged'') \<and> \<not> truthy (jget res ''error'')"
  by (auto simp: send_end_def split: sum.splits if_splits)

lemma inform_is_not_v1: "k = ''inform'' \<Longrightarrow> sf_version (choose_kind k f) \<noteq> ''v1''"
  by (simp add: choose_kind_def)

lemma sent_call:
  "snd (send_begin settings f) = Inr c \<Longrightarrow> sn_target c \<noteq> [] \<and> sn_oid c \<noteq> [] \<and> trim (sn_target c) = sn_target c \<and>
     (\<forall>v \<in> set (sn_varbinds c). v \<in> set (sf_varbinds f) \<and> trim (tv_oid v) \<noteq> [])"
  by (auto simp: send_begin_def split: if_splits)

text \<open>The message names the target the form holds by then.\<close>

lemma message_names_other_target: "snd (send_end no_ack False (Inr res) (f\<lparr>sf_target := other\<rparr>)) = TrapSent other (sf_port f)"
  by (simp add: send_end_def)

lemma users_split: "mset (acceptedUsers s) + mset (excludedUsers s) = mset (trapReception s)"
  by (simp only: acceptedUsers_def excludedUsers_def mset_filter multiset_partition[symmetric])

text \<open>An answer for the trap before is shown for the trap of now when it comes last.\<close>

lemma late_name_of_other_trap:
  "te_message (resolve_message text_of details a b old (resolve_message text_of details a b new (resolve_begin (resolve_begin e)))) =
     mainTrapMessage text_of (trapDescription text_of details a b old) old"
  by (simp add: resolve_message_def)

end
