(* ===== verification/Events_Panel.thy ===== *)
theory Events_Panel
  imports Event_Journal Burst_Gate Address_Masking Csv_Export Targets Js_Date
begin

text \<open>
  The journal on the screen: the scripts of \<open>frontend/src/EventsPanel.svelte\<close> and \<open>monitor/AlertTimeline.svelte\<close>.
  A reactive statement runs when what is running has ended, which is \<open>settle_filter\<close>. An event is an object here, as the
  bridge gives it; translations are arguments. The lemmas show what is masked, what the timeline keeps, and which
  filter a click loads.
\<close>

section \<open>The filter\<close>

definition EVENT_CATEGORIES :: "string list" where
  "EVENT_CATEGORIES = [''trap'', ''threshold'', ''reachability'', ''system'']"

definition EVENT_SEVERITIES :: "string list" where
  "EVENT_SEVERITIES = [''critical'', ''major'', ''minor'', ''warning'', ''info'']"

record event_filter =
  ef_categories :: "string list"
  ef_severity :: string
  ef_search :: string
  ef_unacked :: bool
  ef_limit :: nat

record events_panel =
  ep_categories :: "string list"
  ep_severity :: string
  ep_search :: string
  ep_unacked :: bool
  ep_filter :: event_filter
  ep_loads :: "event_filter list"
  ep_selected :: "string list"
  ep_payload :: "(string \<times> string) option"
  ep_confirm :: bool
  ep_said :: "string list"

definition wanted_filter :: "events_panel \<Rightarrow> event_filter" where
  "wanted_filter p = \<lparr>ef_categories = ep_categories p, ef_severity = ep_severity p, ef_search = trim (ep_search p),
     ef_unacked = ep_unacked p, ef_limit = 100\<rparr>"

definition settle_filter :: "events_panel \<Rightarrow> events_panel" where
  "settle_filter p = p\<lparr>ep_filter := wanted_filter p\<rparr>"

definition events_panel0 :: events_panel where
  "events_panel0 = settle_filter \<lparr>ep_categories = [], ep_severity = [], ep_search = [], ep_unacked = False,
     ep_filter = \<lparr>ef_categories = [], ef_severity = [], ef_search = [], ef_unacked = False, ef_limit = 0\<rparr>, ep_loads = [],
     ep_selected = [], ep_payload = None, ep_confirm = False, ep_said = []\<rparr>"

definition reload_events :: "events_panel \<Rightarrow> events_panel" where
  "reload_events p = p\<lparr>ep_loads := ep_loads p @ [ep_filter p], ep_selected := []\<rparr>"

definition flip_member :: "'a \<Rightarrow> 'a list \<Rightarrow> 'a list" where
  "flip_member x xs = (if x \<in> set xs then filter (\<lambda>y. y \<noteq> x) xs else xs @ [x])"

definition toggleCategory :: "string \<Rightarrow> events_panel \<Rightarrow> events_panel" where
  "toggleCategory c p = settle_filter (reload_events (p\<lparr>ep_categories := flip_member c (ep_categories p)\<rparr>))"

definition setSeverity :: "string \<Rightarrow> events_panel \<Rightarrow> events_panel" where
  "setSeverity v p = settle_filter (reload_events (p\<lparr>ep_severity := (if ep_severity p = v then [] else v)\<rparr>))"

text \<open>Typing settles before the change is reported.\<close>

definition search_typed :: "string \<Rightarrow> events_panel \<Rightarrow> events_panel" where
  "search_typed q p = settle_filter (p\<lparr>ep_search := q\<rparr>)"

definition toggleSelectedEvent :: "string \<Rightarrow> events_panel \<Rightarrow> events_panel" where
  "toggleSelectedEvent i p = p\<lparr>ep_selected := flip_member i (ep_selected p)\<rparr>"

definition ack_selected :: "events_panel \<Rightarrow> journal \<Rightarrow> events_panel \<times> journal" where
  "ack_selected p j = (p\<lparr>ep_selected := []\<rparr>, ack (ep_selected p) j)"

definition remove_selected :: "events_panel \<Rightarrow> journal \<Rightarrow> events_panel \<times> journal" where
  "remove_selected p j = (p\<lparr>ep_selected := []\<rparr>, remove_events (ep_selected p) j)"

text \<open>\<open>Inr body\<close> is the payload that was fetched.\<close>

definition payload_answer :: "string \<Rightarrow> string + string \<Rightarrow> events_panel \<Rightarrow> events_panel" where
  "payload_answer i answer p = (case answer of Inr body \<Rightarrow> p\<lparr>ep_payload := Some (i, body)\<rparr> | Inl e \<Rightarrow> p\<lparr>ep_said := ep_said p @ [e]\<rparr>)"

definition showPayload :: "fields \<Rightarrow> string option" where
  "showPayload ev = (if truthy (fget ev ''payloadSize'') then Some (str (fget ev ''id'')) else None)"

definition events_escape :: "events_panel \<Rightarrow> events_panel" where
  "events_escape p = p\<lparr>ep_payload := None\<rparr>"

definition confirmClear :: "string \<Rightarrow> events_panel \<Rightarrow> events_panel" where
  "confirmClear cleared p = p\<lparr>ep_confirm := False, ep_said := ep_said p @ [cleared]\<rparr>"

section \<open>Text\<close>

text \<open>\<open>mask_text\<close> is \<open>anonymizeText\<close>.\<close>

definition anonParams :: "(string \<Rightarrow> string) \<Rightarrow> bool \<Rightarrow> fields \<Rightarrow> fields" where
  "anonParams mask_text anon params =
     (if \<not> anon then params else map (\<lambda>(k, v). (k, case v of JStr s \<Rightarrow> JStr (mask_text s) | _ \<Rightarrow> v)) params)"

text \<open>\<open>translate\<close> gives the empty text where a key is not known.\<close>

definition renderTitle :: "(string \<Rightarrow> fields \<Rightarrow> string) \<Rightarrow> (string \<Rightarrow> string) \<Rightarrow> bool \<Rightarrow> fields \<Rightarrow> string" where
  "renderTitle translate mask_text anon ev =
     (let key = str (fget ev ''titleKey''); t = translate key (anonParams mask_text anon (fields_of (fget ev ''params'')));
          summary = str (fget ev ''summary'') in
      if t \<noteq> [] \<and> t \<noteq> key then t else if anon then mask_text summary else summary)"

definition tooltipText :: "(string \<Rightarrow> string) \<Rightarrow> bool \<Rightarrow> string \<Rightarrow> string" where
  "tooltipText mask_text anon s = (if s = [] then [] else if anon then mask_text s else s)"

definition displaySource :: "(string \<Rightarrow> string) \<Rightarrow> (string \<times> string) list \<Rightarrow> bool \<Rightarrow> string \<Rightarrow> string \<Rightarrow> string" where
  "displaySource mask_ip labels anon dash source = (if source = [] then dash else displayTarget mask_ip source labels anon)"

definition EVENT_COLUMNS :: "string list" where
  "EVENT_COLUMNS = [''timestamp'', ''severity'', ''category'', ''kind'', ''source'', ''oid'', ''summary'']"

definition event_cells :: "fields \<Rightarrow> string list" where
  "event_cells e = map (\<lambda>k. str (fget e k)) [''ts'', ''severity'', ''category'', ''kind'', ''source'', ''oid'', ''summary'']"

definition events_csv :: "fields list \<Rightarrow> string option" where
  "events_csv evs = (if evs = [] then None
     else Some (join_with NL (join_with CHR '','' EVENT_COLUMNS # map (\<lambda>e. join_with CHR '','' (map escapeCSV (event_cells e))) evs)))"

section \<open>The timeline of a session\<close>

definition MAX_INCIDENTS :: nat where "MAX_INCIDENTS = 500"
definition MAX_LISTED :: nat where "MAX_LISTED = 12"

record incident_line =
  tm_session :: string
  tm_incidents :: "fields list"

text \<open>What is asked for, when a session is shown.\<close>

definition timeline_query :: "string \<Rightarrow> fields option" where
  "timeline_query sid = (if sid = [] then None else Some [(''sessionId'', JStr sid),
     (''categories'', JArr [JStr ''threshold'', JStr ''reachability'']), (''limit'', JNum 50)])"

definition show_session :: "string \<Rightarrow> incident_line \<Rightarrow> incident_line" where
  "show_session sid t = t\<lparr>tm_session := sid\<rparr>"

definition timeline_answer :: "fields list option \<Rightarrow> incident_line \<Rightarrow> incident_line" where
  "timeline_answer answer t = (case answer of Some evs \<Rightarrow> t\<lparr>tm_incidents := evs\<rparr> | None \<Rightarrow> t)"

definition on_incident :: "fields \<Rightarrow> incident_line \<Rightarrow> incident_line" where
  "on_incident ev t =
     (if fget ev ''sessionId'' \<noteq> JStr (tm_session t) then t
      else if fget ev ''category'' \<noteq> JStr ''threshold'' \<and> fget ev ''category'' \<noteq> JStr ''reachability'' then t
      else t\<lparr>tm_incidents := capNewestFirst (ev # tm_incidents t) MAX_INCIDENTS\<rparr>)"

definition openings :: "incident_line \<Rightarrow> fields list" where
  "openings t = filter (\<lambda>e. fget e ''state'' \<noteq> JStr ''resolved'') (tm_incidents t)"

text \<open>A mark for each opening, in percent of the time the samples cover; a date that is not read gives no place.\<close>

definition clamp100 :: "rat \<Rightarrow> rat" where
  "clamp100 q = max 0 (min 100 q)"

definition left_of :: "rat option \<Rightarrow> rat option \<Rightarrow> rat option \<Rightarrow> rat option" where
  "left_of t0 t1 t = (case (t0, t1, t) of
       (Some f, lst, Some x) \<Rightarrow> Some (clamp100 ((x - f) / (case lst of Some l \<Rightarrow> if l - f = 0 then 1 else l - f | None \<Rightarrow> 1) * 100))
     | _ \<Rightarrow> None)"

definition timeline_marks :: "fields list \<Rightarrow> fields list \<Rightarrow> (fields \<times> rat option) list" where
  "timeline_marks evs points = (if points = [] \<or> evs = [] then []
     else map (\<lambda>e. (e, left_of (date_parse (fget (hd points) ''timestamp'')) (date_parse (fget (List.last points) ''timestamp''))
       (date_parse (fget e ''ts'')))) evs)"

section \<open>What is shown\<close>

text \<open>
  A click on a category or a severity loads with the filter of before the click: the statement that puts the filter
  together runs only afterwards.
\<close>

lemma category_loads_previous_filter: "last (ep_loads (toggleCategory c p)) = ep_filter p"
  by (simp add: toggleCategory_def reload_events_def settle_filter_def)

lemma severity_loads_previous_filter: "last (ep_loads (setSeverity v p)) = ep_filter p"
  by (simp add: setSeverity_def reload_events_def settle_filter_def)

lemma first_category_loads_all:
  "ef_categories (last (ep_loads (toggleCategory c events_panel0))) = [] \<and> ep_categories (toggleCategory c events_panel0) = [c]"
  by (simp add: toggleCategory_def reload_events_def settle_filter_def events_panel0_def wanted_filter_def flip_member_def)

text \<open>A search typed before it is loaded is the one that is loaded.\<close>

lemma search_loads_what_was_typed: "ef_search (last (ep_loads (reload_events (search_typed q p)))) = trim q"
  by (simp add: reload_events_def search_typed_def settle_filter_def wanted_filter_def)

lemma reload_forgets_selection: "ep_selected (reload_events p) = []"
  by (simp add: reload_events_def)

lemma selection_is_a_set: "distinct (ep_selected p) \<Longrightarrow> distinct (ep_selected (toggleSelectedEvent i p))"
  by (simp add: toggleSelectedEvent_def flip_member_def)

lemma acked_are_the_selected:
  "j_items (snd (ack_selected p j)) = map (\<lambda>e. if ev_id e \<in> set (ep_selected p) then e\<lparr>ev_acked := True\<rparr> else e) (j_items j)"
  by (cases "ep_selected p") (auto simp: ack_selected_def ack_def intro!: nth_equalityI)

text \<open>No text of the parameters reaches the title in anonymous mode unless the mask lets it through.\<close>

lemma masked_params: "(k, v) \<in> set (anonParams mk True ps) \<Longrightarrow> \<exists>w. (k, w) \<in> set ps \<and> (v = w \<or> (\<exists>s. w = JStr s \<and> v = JStr (mk s)))"
  by (auto simp: anonParams_def split: jsval.splits)

lemma masked_title:
  assumes "anonParams mk True (fields_of (fget a ''params'')) = anonParams mk True (fields_of (fget b ''params''))"
    "fget a ''titleKey'' = fget b ''titleKey''" "mk (str (fget a ''summary'')) = mk (str (fget b ''summary''))"
  shows "renderTitle tr mk True a = renderTitle tr mk True b"
  using assms by (simp add: renderTitle_def Let_def)

lemma events_read_back:
  assumes "evs \<noteq> []"
  shows "map_option csv_records (events_csv evs) = Some (map (map neutralise) (EVENT_COLUMNS # map event_cells evs))"
proof -
  have h: "join_with CHR '','' EVENT_COLUMNS = join_with CHR '','' (map escapeCSV EVENT_COLUMNS)" by code_simp
  have "events_csv evs = Some (csv_text (EVENT_COLUMNS # map event_cells evs))"
    using assms by (simp add: events_csv_def csv_text_def h o_def)
  then show ?thesis by (simp only: option.map) (rule arg_cong[of _ _ Some], rule read_rows, auto simp: EVENT_COLUMNS_def event_cells_def)
qed

text \<open>The timeline takes incidents of its own session only, and never more than it may hold.\<close>

lemma incidents_bounded: "length (tm_incidents t) \<le> MAX_INCIDENTS \<Longrightarrow> length (tm_incidents (on_incident ev t)) \<le> MAX_INCIDENTS"
  by (simp add: on_incident_def)

lemma incident_of_this_session:
  "on_incident ev t \<noteq> t \<Longrightarrow> fget ev ''sessionId'' = JStr (tm_session t) \<and> tm_session (on_incident ev t) = tm_session t"
  by (auto simp: on_incident_def split: if_splits)

lemma marks_within: "(e, Some q) \<in> set (timeline_marks evs points) \<Longrightarrow> 0 \<le> q \<and> q \<le> 100"
  by (auto simp: timeline_marks_def left_of_def clamp100_def split: if_splits option.splits)

text \<open>The answer for the session before is shown for the session of now, and an incident that came during a wait is gone.\<close>

lemma late_incidents_of_other_session:
  "tm_session (timeline_answer (Some old) (timeline_answer (Some new) (show_session b (show_session a t)))) = b"
  "tm_incidents (timeline_answer (Some old) (timeline_answer (Some new) (show_session b (show_session a t)))) = old"
  by (simp_all add: timeline_answer_def show_session_def)

lemma incident_lost_to_answer: "ev \<notin> set evs \<Longrightarrow> ev \<notin> set (tm_incidents (timeline_answer (Some evs) (on_incident ev t)))"
  by (simp add: timeline_answer_def)

text \<open>The live list asks neither for the severity nor for the words searched: an event that the filter leaves out is shown.\<close>

definition journal_filter :: "event_filter \<Rightarrow> jfilter" where
  "journal_filter f = \<lparr>f_categories = ef_categories f, f_unackedOnly = ef_unacked f, f_sessionId = []\<rparr>"

lemma live_event_below_severity:
  assumes "j_filter j = journal_filter (wanted_filter p)" "ep_categories p = []" "\<not> ev_acked ev" "j_nextCursor j = 0"
    "ev_id ev \<notin> ev_id ` set (j_items j)"
  shows "ev \<in> set (j_items (on_event ev j))"
proof -
  have "\<not> list_ex (\<lambda>e. ev_id e = ev_id ev) (j_items j)" using assms(5) unfolding list_ex_iff by (metis image_eqI)
  then show ?thesis
    using assms(1-4) by (simp add: on_event_def Let_def matchesFilter_def journal_filter_def wanted_filter_def slice_def MAX_LIVE_ITEMS_def)
qed

end
