(* ===== verification/Preset_Library.thy ===== *)
theory Preset_Library
  imports Event_Journal Series_View
begin

text \<open>
  The library of presets, \<open>frontend/src/settings/PresetSettings.svelte\<close>, the background of a map,
  \<open>monitor/MapTile.svelte\<close>, and the log of packets, \<open>DebugPanel.svelte\<close>. Each asks the bridge and shows what comes
  back; a wait splits an operation in two. The lemmas show which answer is shown.
\<close>

section \<open>Presets\<close>

record import_result =
  ir_file :: string
  ir_success :: bool
  ir_error :: string
  ir_problems :: int
  ir_skipped :: bool

datatype preset_message = Loud string string | WithProblems string int | Imported string | Failure string

record preset_screen =
  pl_presets :: "jsval list"
  pl_open :: string
  pl_detail :: "jsval option"
  pl_loading :: bool
  pl_backgrounds :: "jsval list"
  pl_said :: "preset_message list"

definition presets_listed :: "jsval list option \<Rightarrow> preset_screen \<Rightarrow> preset_screen" where
  "presets_listed answer s = s\<lparr>pl_presets := (case answer of Some ps \<Rightarrow> ps | None \<Rightarrow> [])\<rparr>"

definition backgrounds_listed :: "jsval list option \<Rightarrow> preset_screen \<Rightarrow> preset_screen" where
  "backgrounds_listed answer s = s\<lparr>pl_backgrounds := (case answer of Some bs \<Rightarrow> bs | None \<Rightarrow> [])\<rparr>"

text \<open>The file to read, if one is opened.\<close>

definition open_preset :: "string \<Rightarrow> preset_screen \<Rightarrow> preset_screen \<times> string option" where
  "open_preset f s = (if pl_open s = f then (s\<lparr>pl_open := [], pl_detail := None\<rparr>, None)
     else (s\<lparr>pl_loading := True, pl_open := f, pl_detail := None\<rparr>, Some f))"

definition preset_read :: "string + jsval \<Rightarrow> preset_screen \<Rightarrow> preset_screen" where
  "preset_read answer s = (case answer of
       Inr d \<Rightarrow> s\<lparr>pl_detail := Some d, pl_loading := False\<rparr>
     | Inl e \<Rightarrow> s\<lparr>pl_open := [], pl_loading := False, pl_said := pl_said s @ [Failure e]\<rparr>)"

definition preset_result_line :: "import_result \<Rightarrow> preset_message list" where
  "preset_result_line r = (if \<not> ir_success r then [Loud (ir_file r) (ir_error r)]
     else if ir_problems r > 0 then [WithProblems (ir_file r) (ir_problems r)]
     else if \<not> ir_skipped r then [Imported (ir_file r)] else [])"

definition reportImport :: "import_result list \<Rightarrow> preset_message list" where
  "reportImport rs = concat (map preset_result_line rs)"

definition presets_imported :: "string + import_result list \<Rightarrow> jsval list option \<Rightarrow> preset_screen \<Rightarrow> preset_screen" where
  "presets_imported answer listed s = (case answer of
       Inl e \<Rightarrow> s\<lparr>pl_said := pl_said s @ [Failure e]\<rparr>
     | Inr rs \<Rightarrow> presets_listed listed (s\<lparr>pl_said := pl_said s @ reportImport rs\<rparr>))"

definition preset_deleted :: "string \<Rightarrow> string option \<Rightarrow> jsval list option \<Rightarrow> preset_screen \<Rightarrow> preset_screen" where
  "preset_deleted f failure listed s = (case failure of
       Some e \<Rightarrow> s\<lparr>pl_said := pl_said s @ [Failure e]\<rparr>
     | None \<Rightarrow> presets_listed listed (if pl_open s = f then s\<lparr>pl_open := [], pl_detail := None\<rparr> else s))"

definition background_line :: "import_result \<Rightarrow> preset_message" where
  "background_line r = (if ir_success r then Imported (ir_file r) else Loud (ir_file r) (ir_error r))"

definition backgrounds_imported :: "string + import_result list \<Rightarrow> jsval list option \<Rightarrow> preset_screen \<Rightarrow> preset_screen" where
  "backgrounds_imported answer listed s = (case answer of
       Inl e \<Rightarrow> s\<lparr>pl_said := pl_said s @ [Failure e]\<rparr>
     | Inr rs \<Rightarrow> backgrounds_listed listed (s\<lparr>pl_said := pl_said s @ map background_line rs\<rparr>))"

definition background_deleted :: "string option \<Rightarrow> jsval list option \<Rightarrow> preset_screen \<Rightarrow> preset_screen" where
  "background_deleted failure listed s = (case failure of
       Some e \<Rightarrow> s\<lparr>pl_said := pl_said s @ [Failure e]\<rparr> | None \<Rightarrow> backgrounds_listed listed s)"

section \<open>The background of a map\<close>

record map_background =
  mb_loaded :: string
  mb_image :: string
  mb_error :: string

definition background_asked :: "string \<Rightarrow> map_background \<Rightarrow> map_background \<times> string option" where
  "background_asked f b = (if f = mb_loaded b then (b, None)
     else (\<lparr>mb_loaded = f, mb_image = [], mb_error = []\<rparr>, if f = [] then None else Some f))"

definition background_answer :: "string + string \<Rightarrow> map_background \<Rightarrow> map_background" where
  "background_answer answer b = (case answer of Inr d \<Rightarrow> b\<lparr>mb_image := d\<rparr> | Inl e \<Rightarrow> b\<lparr>mb_error := e\<rparr>)"

text \<open>The points of the first target, where there are several.\<close>

definition forFirst :: "fields list \<Rightarrow> jsval \<Rightarrow> fields list" where
  "forFirst every targets = (case targets of JArr (t # u # ts) \<Rightarrow> filter (\<lambda>p. fget p ''target'' = t) every | _ \<Rightarrow> every)"

definition number_or_else :: "jsval \<Rightarrow> rat \<Rightarrow> rat" where
  "number_or_else v d = (case number_of v of Some q \<Rightarrow> q | None \<Rightarrow> d)"

text \<open>Left and top, and for a rectangle width and height, in percent.\<close>

definition shapeStyle :: "jsval \<Rightarrow> (rat \<times> rat) \<times> (rat \<times> rat) option" where
  "shapeStyle s = ((number_or_else (jget s ''x'') 0, number_or_else (jget s ''y'') 0),
     if jget s ''type'' = JStr ''rect'' then Some (number_or_else (jget s ''w'') 1, number_or_else (jget s ''h'') 1) else None)"

definition shape_title :: "(string \<Rightarrow> string) \<Rightarrow> jsval \<Rightarrow> string" where
  "shape_title name_of s = (let oid = str (jget s ''oid''); nm = name_of oid in
     if oid = [] then str (jget s ''text'') else if nm \<noteq> [] \<and> nm \<noteq> oid then nm @ '' '' @ DASH @ '' '' @ oid else oid)"

definition kindOf :: "jsval \<Rightarrow> fields list \<Rightarrow> jsval \<Rightarrow> string" where
  "kindOf s every labels = (if truthy (jget s ''oid'') then stateKind (latestFor (jget s ''oid'') every) labels else ''plain'')"

definition shape_text :: "(jsval \<Rightarrow> string) \<Rightarrow> jsval \<Rightarrow> fields list \<Rightarrow> jsval \<Rightarrow> string" where
  "shape_text text_of s every labels = (if \<not> truthy (jget s ''oid'') then str (jget s ''text'')
     else let v = text_of (stateText (latestFor (jget s ''oid'') every) labels) in
       if truthy (jget s ''text'') then str (jget s ''text'') @ '' '' @ v else v)"

definition aspectOf :: "jsval \<Rightarrow> rat" where
  "aspectOf d = (case (if truthy d then number_of (jget d ''aspect'') else number_of d) of
       Some q \<Rightarrow> if 1 / 5 \<le> q \<and> q \<le> 12 then q else 16 / 9 | None \<Rightarrow> 16 / 9)"

definition map_lines :: "jsval list \<Rightarrow> jsval list" where
  "map_lines shapes = filter (\<lambda>s. jget s ''type'' = JStr ''line'') shapes"

definition map_solids :: "jsval list \<Rightarrow> jsval list" where
  "map_solids shapes = filter (\<lambda>s. jget s ''type'' \<noteq> JStr ''line'') shapes"

section \<open>The log of packets\<close>

record debug_panel =
  dg_entries :: "string list"
  dg_enabled :: bool
  dg_polling :: bool

text \<open>\<open>MAX_DEBUG_ENTRIES\<close> is what the client keeps of the log.\<close>

definition MAX_DEBUG_ENTRIES :: nat where "MAX_DEBUG_ENTRIES = 500"

definition debug_switch :: "debug_panel \<Rightarrow> debug_panel" where
  "debug_switch d = d\<lparr>dg_enabled := \<not> dg_enabled d\<rparr>"

definition debug_switched :: "debug_panel \<Rightarrow> debug_panel" where
  "debug_switched d = d\<lparr>dg_polling := dg_enabled d\<rparr>"

definition log_answer :: "string list option \<Rightarrow> debug_panel \<Rightarrow> debug_panel" where
  "log_answer answer d = (case answer of None \<Rightarrow> d
     | Some es \<Rightarrow> if length es \<noteq> length (dg_entries d) then d\<lparr>dg_entries := es\<rparr> else d)"

definition log_cleared :: "debug_panel \<Rightarrow> debug_panel" where
  "log_cleared d = d\<lparr>dg_entries := []\<rparr>"

definition kept_log :: "string list \<Rightarrow> string list" where
  "kept_log es = drop (length es - MAX_DEBUG_ENTRIES) es"

section \<open>What is shown\<close>

text \<open>Every file of an import that failed or has problems is named, and one line is said of each.\<close>

lemma import_failures_named: "r \<in> set rs \<Longrightarrow> \<not> ir_success r \<Longrightarrow> Loud (ir_file r) (ir_error r) \<in> set (reportImport rs)"
  by (auto simp: reportImport_def preset_result_line_def)

lemma import_lines_bounded: "length (reportImport rs) \<le> length rs"
  by (induction rs) (auto simp: reportImport_def preset_result_line_def)

lemma opened_twice_is_closed: "pl_open (fst (open_preset f (fst (open_preset f s)))) = [] \<or> pl_open s = f"
  by (simp add: open_preset_def)

lemma deleted_is_closed: "pl_open (preset_deleted f None l s) \<noteq> f \<or> f = []"
  by (auto simp: preset_deleted_def presets_listed_def)

text \<open>A preset opened while another is read shows the other when its answer comes last, and closes when that one fails.\<close>

lemma late_preset_under_other_name:
  assumes "pl_open s \<noteq> a" "a \<noteq> b"
  shows "pl_open (preset_read (Inr d) (fst (open_preset b (fst (open_preset a s))))) = b"
    "pl_detail (preset_read (Inr d) (fst (open_preset b (fst (open_preset a s))))) = Some d"
    "pl_open (preset_read (Inl e) (fst (open_preset b (fst (open_preset a s))))) = []"
  using assms by (simp_all add: open_preset_def preset_read_def)

lemma late_background_of_other_map:
  assumes "mb_loaded m \<noteq> a" "a \<noteq> b"
  shows "mb_loaded (background_answer (Inr old) (background_answer (Inr new) (fst (background_asked b (fst (background_asked a m)))))) = b"
    "mb_image (background_answer (Inr old) (background_answer (Inr new) (fst (background_asked b (fst (background_asked a m)))))) = old"
  using assms by (simp_all add: background_asked_def background_answer_def)

lemma background_asked_once: "background_asked f (fst (background_asked f m)) = (fst (background_asked f m), None)"
  by (simp add: background_asked_def)

lemma aspect_bounded: "1 / 5 \<le> aspectOf d \<and> aspectOf d \<le> 12"
  by (auto simp: aspectOf_def split: option.splits)

lemma shapes_are_lines_or_solids: "length (map_lines ss) + length (map_solids ss) = length ss"
  unfolding map_lines_def map_solids_def by (rule sum_length_filter_compl)

lemma first_target_only: "p \<in> set (forFirst ps (JArr (t # u # ts))) \<Longrightarrow> fget p ''target'' = t"
  by (simp add: forFirst_def)

text \<open>
  The client keeps the last entries of the log only. Once it holds as many as it may, every answer is as long as what
  is shown, and nothing new is ever shown.
\<close>

lemma log_follows: "length es < MAX_DEBUG_ENTRIES \<Longrightarrow> dg_entries d = kept_log es \<Longrightarrow> dg_entries (log_answer (Some (kept_log (es @ [e]))) d) = es @ [e]"
  by (simp add: log_answer_def kept_log_def)

lemma length_kept_log: "length (kept_log es) = min (length es) MAX_DEBUG_ENTRIES"
  by (simp add: kept_log_def)

lemma full_log_stands_still:
  "MAX_DEBUG_ENTRIES \<le> length es \<Longrightarrow> dg_entries d = kept_log es \<Longrightarrow> dg_entries (log_answer (Some (kept_log (es @ more_entries))) d) = kept_log es"
  by (simp add: log_answer_def length_kept_log)

end
