(* ===== verification/Metric_Tiles.thy ===== *)
theory Metric_Tiles
  imports Dashboard Series_View Oid_Names
begin

text \<open>
  The widgets beside a chart: the scripts of \<open>monitor/MetricTiles.svelte\<close>, \<open>monitor/ChannelsModal.svelte\<close>,
  \<open>monitor/StatusTile.svelte\<close> and \<open>DashboardPanel.svelte\<close> under \<open>frontend/src\<close>. Names of OIDs and translations are
  arguments; the values of a series are numbers or missing. The lemmas show which series have a row, what colour it
  wears and that hiding and showing channels does what the dialog says.
\<close>

section \<open>Tiles\<close>

definition STAT_FIELD :: "string \<Rightarrow> string" where
  "STAT_FIELD mode = (if mode = ''delta'' then ''delta'' else if mode = ''rate'' then ''rate''
     else if mode = ''latency'' then ''responseTimeMs'' else ''value'')"

definition SPARK_POINTS :: nat where "SPARK_POINTS = 40"

definition formatStat :: "string \<Rightarrow> rat option \<Rightarrow> (rat option \<Rightarrow> string) \<Rightarrow> string" where
  "formatStat key value u = (case value of None \<Rightarrow> DASH
     | Some q \<Rightarrow> if key = ''count'' \<or> key = ''errors'' then show_int (js_round q) else u value)"

definition tile_oids :: "session \<Rightarrow> string list option \<Rightarrow> string list" where
  "tile_oids s oids = filter (\<lambda>i. i \<noteq> []) (case oids of Some (c # cs) \<Rightarrow> c # cs | _ \<Rightarrow> [s_oid s])"

record tile_row =
  tw_oid :: string
  tw_color :: string
  tw_unit :: "string \<times> (rat option \<Rightarrow> string)"
  tw_summary :: series_stats
  tw_spark :: "rat list"
  tw_trend :: rat
  tw_failing :: bool
  tw_outside :: bool

definition series_of :: "session \<Rightarrow> jsval \<Rightarrow> string \<Rightarrow> fields list" where
  "series_of s target i = filter (\<lambda>r. fget r ''target'' = target \<and> jor (fget r ''oid'') (JStr (s_oid s)) = JStr i) (s_results s)"

definition recent_values :: "rat list \<Rightarrow> rat list" where
  "recent_values vs = drop (length vs - SPARK_POINTS) vs"

definition trend_of :: "rat list \<Rightarrow> rat" where
  "trend_of recent = (if length recent < 4 then 0
     else let m = mean (butlast recent) in if m \<noteq> 0 then (last recent - m) / \<bar>m\<bar> * 100 else 0)"

definition last_failing :: "fields list \<Rightarrow> bool" where
  "last_failing series \<longleftrightarrow> series \<noteq> [] \<and> (truthy (fget (last series) ''error'') \<or> fget (last series) ''value'' = JNull)"

definition type_of_series :: "fields list \<Rightarrow> string" where
  "type_of_series series = (case List.find (\<lambda>r. truthy (fget r ''snmpType'')) series of Some r \<Rightarrow> str (fget r ''snmpType'') | None \<Rightarrow> [])"

definition tile_row_of :: "(string \<Rightarrow> string) \<Rightarrow> session \<Rightarrow> string \<Rightarrow> string \<Rightarrow> jsval \<Rightarrow> bool \<Rightarrow> series_item \<Rightarrow> fields list \<Rightarrow> tile_row" where
  "tile_row_of name_of s mode scope window dark item series =
     (let field = STAT_FIELD mode; vs = stat_values series field; recent = recent_values vs;
          latest = (if vs = [] then JNull else JNum (last vs)); i = si_oid item in
      \<lparr>tw_oid = i, tw_color = seriesColor (si_color item) dark, tw_unit = inferUnit (name_of i) (type_of_series series) mode,
       tw_summary = computeStats (if scope = ''window'' then pointsInRange series window else series) field,
       tw_spark = recent, tw_trend = trend_of recent, tw_failing = last_failing series,
       tw_outside = (mode = ''raw'' \<and> classify latest (jget (s_thresholds s) i) \<noteq> None)\<rparr>)"

text \<open>The row of one series: none where it is not planned, too many, hidden or without samples.\<close>

definition tile_rows :: "(string \<Rightarrow> string) \<Rightarrow> session \<Rightarrow> string \<Rightarrow> string \<Rightarrow> jsval \<Rightarrow> bool \<Rightarrow> string list \<Rightarrow> series_item list \<Rightarrow> jsval \<Rightarrow> string \<Rightarrow> tile_row list" where
  "tile_rows name_of s mode scope window dark hidden plan target i =
     (case List.find (\<lambda>it. si_key it = seriesKey target i) (rev plan) of
        None \<Rightarrow> []
      | Some item \<Rightarrow> if si_capped item \<or> si_key item \<in> set hidden \<or> series_of s target i = [] then []
          else [tile_row_of name_of s mode scope window dark item (series_of s target i)])"

definition buildTiles :: "(string \<Rightarrow> string) \<Rightarrow> session \<Rightarrow> string \<Rightarrow> string list \<Rightarrow> string \<Rightarrow> jsval \<Rightarrow> string \<Rightarrow> string \<Rightarrow> string list option
    \<Rightarrow> (jsval \<times> tile_row list) list" where
  "buildTiles name_of s mode hidden scope window layout theme oids =
     (let wanted = tile_oids s oids; plan = fst (seriesPlan s layout (Some wanted)) in
      filter (\<lambda>t. snd t \<noteq> []) (map (\<lambda>target. (target,
          concat (map (tile_rows name_of s mode scope window (theme \<noteq> ''light'') hidden plan target) wanted)))
        (dedup (map (\<lambda>r. fget r ''target'') (s_results s)))))"

definition spark_y :: "rat \<Rightarrow> rat \<Rightarrow> rat \<Rightarrow> rat" where
  "spark_y lo height v = 18 - (v - lo) / height * 16"

definition spark_points :: "rat list \<Rightarrow> (rat \<times> rat) list" where
  "spark_points vs = (if length vs < 2 then []
     else let lo = foldl min (hd vs) vs; hi = foldl max (hd vs) vs; height = (if hi - lo = 0 then 1 else hi - lo);
              step = 100 / of_nat (length vs - 1) in
       map (\<lambda>(i, v). (of_nat i * step, spark_y lo height v)) (List.enumerate 0 vs))"

definition sparkPath :: "rat list \<Rightarrow> string" where
  "sparkPath vs = join_with CHR '' '' (map (\<lambda>(x, y). to_fixed 2 x @ '','' @ to_fixed 2 y) (spark_points vs))"

section \<open>Channels\<close>

definition channel_oids :: "session \<Rightarrow> string list" where
  "channel_oids s = dedup (filter (\<lambda>i. i \<noteq> []) (if s_oids s \<noteq> [] then s_oids s else [s_oid s]))"

definition buildChannels :: "session \<Rightarrow> string \<Rightarrow> bool \<Rightarrow> (series_item \<times> string) list" where
  "buildChannels s layout dark = map (\<lambda>it. (it, seriesColor (si_color it) dark)) (fst (seriesPlan s layout (Some (channel_oids s))))"

definition visibleCount :: "(series_item \<times> string) list \<Rightarrow> string list \<Rightarrow> nat" where
  "visibleCount channels hidden = length (filter (\<lambda>c. si_key (fst c) \<notin> set hidden) channels)"

definition toggle_channel :: "string \<Rightarrow> string list \<Rightarrow> string list" where
  "toggle_channel k hidden = (if k \<in> set hidden then filter (\<lambda>x. x \<noteq> k) (dedup hidden) else dedup hidden @ [k])"

definition show_all_channels :: "string list" where "show_all_channels = []"

definition showOnly :: "(series_item \<times> string) list \<Rightarrow> string \<Rightarrow> string list" where
  "showOnly channels k = filter (\<lambda>x. x \<noteq> k) (map (\<lambda>c. si_key (fst c)) channels)"

definition toggleStat :: "string \<Rightarrow> string list \<Rightarrow> string list" where
  "toggleStat k stats = (if k \<in> set stats then filter (\<lambda>x. x \<noteq> k) stats else stats @ [k])"

section \<open>States\<close>

definition instanceOf :: "string \<Rightarrow> string" where
  "instanceOf oid = last (split_on DOT oid)"

definition fullName :: "(string \<Rightarrow> string) \<Rightarrow> string \<Rightarrow> string" where
  "fullName name_of oid = (let nm = name_of oid in if nm \<noteq> [] \<and> nm \<noteq> oid then nm @ DOT # instanceOf oid else oid)"

section \<open>The dashboard\<close>

definition dash_target :: "(string \<Rightarrow> string) \<Rightarrow> bool \<Rightarrow> session option \<Rightarrow> string" where
  "dash_target mask_ip masked s = (let a = (case s of Some t \<Rightarrow> (case s_targets t of x # xs \<Rightarrow> x | [] \<Rightarrow> []) | None \<Rightarrow> [])
     in if masked then mask_ip a else a)"

definition sessionLabel :: "(string \<Rightarrow> string) \<Rightarrow> bool \<Rightarrow> session \<Rightarrow> string" where
  "sessionLabel mask_ip masked s = (let a = dash_target mask_ip masked (Some s) in
     if truthy (s_name s) then str (s_name s) @ '' '' @ DASH @ '' '' @ a else a)"

definition dash_group_label :: "(string \<Rightarrow> nat \<Rightarrow> string) \<Rightarrow> string \<Rightarrow> string \<Rightarrow> nat \<Rightarrow> string" where
  "dash_group_label all_of nm f n = all_of (if nm \<noteq> [] then nm else f) n"

definition unitOf :: "jsval \<Rightarrow> jsval" where
  "unitOf widget = jor (jget widget ''unit'') (JStr [])"

definition hasData :: "session \<Rightarrow> jsval \<Rightarrow> bool" where
  "hasData s widget \<longleftrightarrow> list_ex (\<lambda>r. fget r ''oid'' \<in> set (elems (jget widget ''oids''))) (s_results s)"

definition syncGroup :: "session option \<Rightarrow> string option" where
  "syncGroup s = map_option (\<lambda>x. ''dashboard:'' @ s_id x) s"

section \<open>What is shown\<close>

lemma find_hit: "List.find P xs = Some x \<Longrightarrow> x \<in> set xs \<and> P x"
  by (induction xs) (auto split: if_splits)

lemma tile_row_color: "tw_color (tile_row_of nm s mode scope w dark item series) = seriesColor (si_color item) dark"
  by (simp add: tile_row_of_def Let_def)

lemma tile_row_exact:
  assumes "r \<in> set (tile_rows nm s mode scope w dark hidden plan target i)"
  shows "\<exists>item \<in> set plan. si_key item = seriesKey target i \<and> \<not> si_capped item \<and> si_key item \<notin> set hidden \<and>
       series_of s target i \<noteq> [] \<and> tw_color r = seriesColor (si_color item) dark"
proof -
  show ?thesis
  proof (cases "List.find (\<lambda>it. si_key it = seriesKey target i) (rev plan)")
    case None
    then show ?thesis using assms by (simp add: tile_rows_def)
  next
    case (Some item)
    with find_hit[OF Some] assms show ?thesis by (auto simp: tile_rows_def tile_row_color split: if_splits)
  qed
qed

text \<open>A tile is drawn for a target only when it has a row, and a hidden series has none.\<close>

lemma tiles_not_empty: "t \<in> set (buildTiles nm s mode hidden scope w layout theme oids) \<Longrightarrow> snd t \<noteq> []"
  by (simp add: buildTiles_def Let_def)

lemma tiles_one_per_target: "distinct (map fst (buildTiles nm s mode hidden scope w layout theme oids))"
  by (simp add: buildTiles_def Let_def distinct_map_filter o_def)

lemma hidden_has_no_row: "seriesKey target i \<in> set hidden \<Longrightarrow> tile_rows nm s mode scope w dark hidden plan target i = []"
  by (auto simp: tile_rows_def dest!: find_hit split: option.splits)

text \<open>A tile is marked outside exactly when the classifier of the alerts says so of the last value.\<close>

lemma outside_as_alerted:
  "tw_outside (tile_row_of nm s ''raw'' scope w dark item series) \<longleftrightarrow>
     classify (if stat_values series ''value'' = [] then JNull else JNum (last (stat_values series ''value''))) (jget (s_thresholds s) (si_oid item)) \<noteq> None"
  by (simp add: tile_row_of_def Let_def STAT_FIELD_def)

lemma spark_bounded: "length (recent_values vs) \<le> SPARK_POINTS"
  by (simp add: recent_values_def)

lemma foldl_min_le: "foldl min a vs \<le> (a::rat) \<and> (\<forall>v \<in> set vs. foldl min a vs \<le> v)"
  by (induction vs arbitrary: a) (auto intro: order_trans simp: min_le_iff_disj, metis min.cobounded1 order_trans, metis min.cobounded2 order_trans)

lemma foldl_max_ge: "(a::rat) \<le> foldl max a vs \<and> (\<forall>v \<in> set vs. v \<le> foldl max a vs)"
  by (induction vs arbitrary: a) (auto, metis max.cobounded1 order_trans, metis max.cobounded2 order_trans)

text \<open>The line stays inside the box it is drawn in.\<close>

lemma spark_within:
  assumes "(x, y) \<in> set (spark_points vs)"
  shows "2 \<le> y \<and> y \<le> 18"
proof -
  let ?lo = "foldl min (hd vs) vs" and ?hi = "foldl max (hd vs) vs"
  let ?h = "if ?hi - ?lo = 0 then 1 else ?hi - ?lo"
  obtain n where n: "n < length vs" "y = spark_y ?lo ?h (vs ! n)"
    using assms by (auto simp: spark_points_def Let_def in_set_enumerate_eq split: if_splits)
  define v where "v = vs ! n"
  have v: "v \<in> set vs" "y = spark_y ?lo ?h v" using n by (auto simp: v_def)
  have lo: "?lo \<le> v" and hi: "v \<le> ?hi" using v(1) foldl_min_le foldl_max_ge by blast+
  then have h: "0 < ?h" by auto
  have "0 \<le> (v - ?lo) / ?h" using lo h by simp
  moreover have "(v - ?lo) / ?h \<le> 1" using lo hi h by (simp add: divide_le_eq)
  ultimately show ?thesis using v(2) unfolding spark_y_def by linarith
qed

lemma one_of_distinct: "distinct (map f xs) \<Longrightarrow> k \<in> f ` set xs \<Longrightarrow> length (filter (\<lambda>d. f d = k) xs) = 1"
proof (induction xs)
  case (Cons x xs)
  show ?case
  proof (cases "f x = k")
    case True
    then have "filter (\<lambda>d. f d = k) xs = []" using Cons.prems(1) by (auto simp: filter_empty_conv) (metis image_eqI)
    with True show ?thesis by simp
  qed (use Cons in auto)
qed simp

lemma show_only_hides_the_rest:
  assumes "distinct (map (\<lambda>c. si_key (fst c)) channels)" "k \<in> (\<lambda>c. si_key (fst c)) ` set channels"
  shows "visibleCount channels (showOnly channels k) = 1"
proof -
  have "filter (\<lambda>c. si_key (fst c) \<notin> set (showOnly channels k)) channels = filter (\<lambda>c. si_key (fst c) = k) channels"
    by (intro filter_cong) (auto simp: showOnly_def)
  then show ?thesis using one_of_distinct[OF assms] by (simp add: visibleCount_def)
qed

lemma toggle_channel_exact: "set (toggle_channel k hidden) = (if k \<in> set hidden then set hidden - {k} else insert k (set hidden))"
  by (auto simp: toggle_channel_def)

lemma all_shown: "visibleCount channels show_all_channels = length channels"
  by (simp add: visibleCount_def show_all_channels_def)

text \<open>The first statistic is the large one: switching another on does not change it.\<close>

lemma hero_stays: "stats \<noteq> [] \<Longrightarrow> k \<notin> set stats \<Longrightarrow> hd (toggleStat k stats) = hd stats"
  by (cases stats) (auto simp: toggleStat_def)

text \<open>The name of an OID carries its instance already, and the title of a cell repeats it.\<close>

lemma instance_is_repeated:
  "nm = base @ DOT # instanceOf oid \<Longrightarrow> nm \<noteq> oid \<Longrightarrow> fullName (\<lambda>i. nm) oid = base @ DOT # instanceOf oid @ DOT # instanceOf oid"
  by (simp add: fullName_def Let_def)

end
