(* ===== verification/Template_Editor.thy ===== *)
theory Template_Editor
  imports Notify_Settings Live_Feeds Targets Js_Date
begin

text \<open>
  The smaller forms: the template of a notification (\<open>settings/TemplateEditor.svelte\<close>), the pages of the settings
  (\<open>settings/GeneralSettings.svelte\<close>, \<open>SnmpSettings.svelte\<close>, \<open>ServiceSettings.svelte\<close>), saved queries and recent
  operations (\<open>operations/SavedQueries.svelte\<close>, \<open>RecentHistory.svelte\<close>), the tooltip (\<open>Tooltip.svelte\<close>) and \<open>utils/clipboard.js\<close>, \<open>utils/nativeNotify.js\<close>
  and \<open>i18n/index.js\<close>. The bridge, the clipboard and the locale of the browser are arguments.
\<close>

section \<open>The template of a message\<close>

definition bodyFormat :: "fields \<Rightarrow> string" where
  "bodyFormat sink =
     (if fget sink ''kind'' = JStr ''webhook'' \<and> jget (fget sink ''webhook'') ''payloadMode'' = JStr ''template''
      then str (jor (jget (fget sink ''webhook'') ''bodyFormat'') (JStr ''json''))
      else if fget sink ''kind'' = JStr ''email'' \<and> jget (fget sink ''email'') ''format'' = JStr ''html'' then ''html'' else [])"

definition hasDefaultBody :: "string \<Rightarrow> bool" where
  "hasDefaultBody f \<longleftrightarrow> f = ''json'' \<or> f = ''html''"

record preview_view =
  pw_wire :: string
  pw_payload :: bool
  pw_checked :: bool
  pw_valid :: string
  pw_invalid :: string
  pw_subject :: bool

text \<open>What is said about a preview follows the format that was answered.\<close>

definition preview_shown :: "jsval \<Rightarrow> preview_view" where
  "preview_shown preview = (let wire = str (jor (jget preview ''format'') (JStr ''text'')) in
     \<lparr>pw_wire = wire, pw_payload = (wire \<noteq> ''text''), pw_checked = (wire = ''json'' \<or> wire = ''xml''),
      pw_valid = (if wire = ''xml'' then ''notify.xmlValid'' else ''notify.jsonValid''),
      pw_invalid = (if wire = ''xml'' then ''notify.xmlInvalid'' else ''notify.jsonInvalid''), pw_subject = (wire = ''text'')\<rparr>)"

definition WIRE_LABEL :: "(string \<times> string) list" where
  "WIRE_LABEL = [(''syslog'', ''notify.previewSyslog''), (''email'', ''notify.previewEmail''), (''json'', ''notify.previewPayload''),
     (''xml'', ''notify.previewPayload''), (''form'', ''notify.previewPayload''), (''text'', ''notify.templatePreview'')]"

record template_editor =
  tp_subject :: string
  tp_body :: string
  tp_on_subject :: bool
  tp_preview :: jsval
  tp_timer :: bool

definition token_of :: "string \<Rightarrow> string" where
  "token_of nm = ''{{'' @ nm @ ''}}''"

text \<open>The caret is \<open>None\<close> where there is no field on the screen; the new one stands after the token.\<close>

definition insert_token :: "string \<Rightarrow> (nat \<times> nat) option \<Rightarrow> string \<Rightarrow> string \<times> nat" where
  "insert_token nm caret current = (case caret of
       None \<Rightarrow> (current @ token_of nm, length (current @ token_of nm))
     | Some (i, j) \<Rightarrow> (take i current @ token_of nm @ drop j current, i + length (token_of nm)))"

definition insert_variable :: "string \<Rightarrow> (nat \<times> nat) option \<Rightarrow> template_editor \<Rightarrow> template_editor" where
  "insert_variable nm caret e = (if tp_on_subject e then e\<lparr>tp_subject := fst (insert_token nm caret (tp_subject e))\<rparr>
     else e\<lparr>tp_body := fst (insert_token nm caret (tp_body e))\<rparr>)"

definition refreshPreview :: "template_editor \<Rightarrow> template_editor" where
  "refreshPreview e = e\<lparr>tp_timer := True\<rparr>"

definition preview_timer :: "template_editor \<Rightarrow> template_editor" where
  "preview_timer e = e\<lparr>tp_timer := False\<rparr>"

definition template_previewed :: "jsval option \<Rightarrow> template_editor \<Rightarrow> template_editor" where
  "template_previewed answer e = e\<lparr>tp_preview := (case answer of Some p \<Rightarrow> p | None \<Rightarrow> JNull)\<rparr>"

definition default_answer :: "string option \<Rightarrow> template_editor \<Rightarrow> template_editor" where
  "default_answer answer e = (case answer of Some (c # cs) \<Rightarrow> e\<lparr>tp_body := c # cs\<rparr> | _ \<Rightarrow> e)"

definition errorsFor :: "string \<Rightarrow> jsval \<Rightarrow> jsval list" where
  "errorsFor field p = filter (\<lambda>e. jget e ''field'' = JStr field) (elems (jget p ''errors''))"

lemma inserted_once:
  "i \<le> j \<Longrightarrow> j \<le> length t \<Longrightarrow> take i (fst (insert_token nm (Some (i, j)) t)) = take i t \<and>
     drop (snd (insert_token nm (Some (i, j)) t)) (fst (insert_token nm (Some (i, j)) t)) = drop j t \<and>
     slice (fst (insert_token nm (Some (i, j)) t)) i (snd (insert_token nm (Some (i, j)) t)) = token_of nm"
  by (simp add: insert_token_def slice_def)

lemma other_field_kept: "tp_on_subject e \<Longrightarrow> tp_body (insert_variable nm c e) = tp_body e"
  by (simp add: insert_variable_def)

text \<open>The preview of an older template is shown when its answer comes last, and a default body asked for another format is taken.\<close>

lemma late_preview_shown: "tp_preview (template_previewed (Some old) (template_previewed (Some new) e)) = old"
  by (simp add: template_previewed_def)

lemma default_of_other_format: "tp_body (default_answer (Some (c # cs)) (e\<lparr>tp_body := typed_since\<rparr>)) = c # cs"
  by (simp add: default_answer_def)

section \<open>The pages of the settings\<close>

datatype page_message = UpdateFailed string | UpToDate | EnterTestTarget | TestOk string | TestBad string | TestThrew string
  | ServiceSaved | LoginRegistered | LoginRemoved | Trouble string

definition update_checked :: "string + jsval \<Rightarrow> page_message list" where
  "update_checked answer = (case answer of
       Inl e \<Rightarrow> [UpdateFailed e]
     | Inr info \<Rightarrow> if \<not> truthy info then [] else if truthy (jget info ''error'') then [UpdateFailed (str (jget info ''error''))]
         else if \<not> truthy (jget info ''available'') then [UpToDate] else [])"

text \<open>The locale of the window is changed at once, the settings being edited with it.\<close>

definition handleLocaleChange :: "string \<Rightarrow> fields \<times> string \<Rightarrow> fields \<times> string" where
  "handleLocaleChange l s = (fset ''locale'' (JStr l) (fst s), l)"

definition cleanup_days :: "fields \<Rightarrow> jsval" where
  "cleanup_days settings = jor (jget (fget settings ''polling'') ''retentionDays'') (JNum 30)"

record test_page =
  ct_target :: string
  ct_identity :: string
  ct_version :: string
  ct_testing :: bool
  ct_result :: "(string + jsval) option"

definition settle_identity :: "fields \<Rightarrow> test_page \<Rightarrow> test_page" where
  "settle_identity settings p = (if ct_identity p \<noteq> [] \<and> findProfile (JObj settings) (JStr (ct_identity p)) = None
     then p\<lparr>ct_identity := []\<rparr> else p)"

definition connection_test :: "fields \<Rightarrow> test_page \<Rightarrow> page_message + fields" where
  "connection_test settings p = (if trim (ct_target p) = [] then Inl EnterTestTarget
     else Inr (buildTestRequest (JObj (if ct_identity p \<noteq> [] then withProfile (JObj settings) (JStr (ct_identity p))
       else fset ''snmpVersion'' (JStr (ct_version p)) settings)) (trim (ct_target p))))"

definition connection_tested :: "string + jsval \<Rightarrow> test_page \<Rightarrow> test_page \<times> page_message" where
  "connection_tested answer p = (p\<lparr>ct_result := Some answer, ct_testing := False\<rparr>, case answer of
       Inl e \<Rightarrow> TestThrew e
     | Inr r \<Rightarrow> if truthy (jget r ''error'') then TestBad (str (jget r ''error'')) else TestOk (ct_target p))"

record service_page =
  sv_status :: "jsval option"
  sv_autostart :: "jsval option"
  sv_saving :: bool

definition autostart_answer :: "jsval option \<Rightarrow> service_page \<Rightarrow> service_page" where
  "autostart_answer answer p = p\<lparr>sv_autostart := answer\<rparr>"

definition service_apply :: "fields \<Rightarrow> service_page \<Rightarrow> service_page \<times> jsval option" where
  "service_apply changes p = (case sv_status p of None \<Rightarrow> (p, None)
     | Some s \<Rightarrow> (p\<lparr>sv_saving := True\<rparr>, Some (JObj (spread (fields_of (jget s ''config'')) changes))))"

definition service_answer :: "string + jsval \<Rightarrow> service_page \<Rightarrow> service_page \<times> page_message" where
  "service_answer answer p = (case answer of
       Inr s \<Rightarrow> (p\<lparr>sv_status := Some s, sv_saving := False\<rparr>, ServiceSaved)
     | Inl e \<Rightarrow> (p\<lparr>sv_saving := False\<rparr>, Trouble e))"

text \<open>After a failure the system is asked again, so that what is shown is what it has.\<close>

definition autostart_set :: "bool \<Rightarrow> string + jsval \<Rightarrow> jsval option \<Rightarrow> service_page \<Rightarrow> service_page \<times> page_message" where
  "autostart_set enabled answer again p = (case answer of
       Inr a \<Rightarrow> (p\<lparr>sv_autostart := Some a, sv_saving := False\<rparr>, if enabled then LoginRegistered else LoginRemoved)
     | Inl e \<Rightarrow> ((autostart_answer again p)\<lparr>sv_saving := False\<rparr>, Trouble e))"

definition trayMissing :: "service_page \<Rightarrow> bool" where
  "trayMissing p \<longleftrightarrow> (case sv_status p of None \<Rightarrow> False
     | Some s \<Rightarrow> truthy (jget (jget s ''config'') ''runInBackground'') \<and> \<not> truthy (jget s ''trayAvailable''))"

lemma failed_check_is_not_up_to_date: "truthy (jget info ''error'') \<Longrightarrow> UpToDate \<notin> set (update_checked (Inr info))"
  by (simp add: update_checked_def)

text \<open>The window keeps the language chosen though the dialog is closed without saving.\<close>

lemma language_survives_cancel: "snd (handleLocaleChange l s) = l \<and> fget (fst (handleLocaleChange l s)) ''locale'' = JStr l"
  by (simp add: handleLocaleChange_def)

lemma test_asks_as_chosen:
  "ct_identity p = [] \<Longrightarrow> trim (ct_target p) \<noteq> [] \<Longrightarrow>
     \<exists>r. connection_test settings p = Inr r \<and> fget r ''version'' = JStr (ct_version p) \<and> fget r ''community'' = fget settings ''community''"
  by (simp add: connection_test_def buildTestRequest_def fget_def[of "(_, _) # _"])

lemma service_keeps_other_options:
  "service_apply changes p = (p', Some c) \<Longrightarrow> k \<notin> fst ` set changes \<Longrightarrow>
     \<exists>s. sv_status p = Some s \<and> jget c k = jget (jget s ''config'') k"
  by (auto simp: service_apply_def jget_fields fget_spread_None split: option.splits)

section \<open>Saved queries and recent operations\<close>

record query_form =
  qf_operation :: string
  qf_oids :: "(string \<times> string) list"
  qf_value :: jsval
  qf_type :: jsval
  qf_repetitions :: jsval
  qf_repeaters :: jsval
  qf_name :: string

definition form_oid :: "query_form \<Rightarrow> string" where
  "form_oid f = (let op = (if qf_operation f \<in> {''GET'', ''SET'', ''GETNEXT'', ''GETBULK''} then qf_operation f else ''WALK'')
     in case map_of (qf_oids f) op of Some v \<Rightarrow> v | None \<Rightarrow> [])"

definition saved_query :: "query_form \<Rightarrow> fields" where
  "saved_query f =
     (let nm = (if trim (qf_name f) \<noteq> [] then trim (qf_name f) else qf_operation f @ '' '' @ form_oid f) in
      [(''name'', JStr nm), (''operation'', JStr (qf_operation f)), (''oid'', JStr (form_oid f)),
       (''params'', JObj (if qf_operation f = ''SET'' then [(''value'', qf_value f), (''type'', qf_type f)]
          else if qf_operation f = ''GETBULK'' then [(''maxRepetitions'', qf_repetitions f), (''nonRepeaters'', qf_repeaters f)] else []))])"

definition saveCurrentQuery :: "bool \<Rightarrow> rat \<Rightarrow> string \<Rightarrow> query_form \<times> store \<Rightarrow> query_form \<times> store" where
  "saveCurrentQuery written i stamp s = ((fst s)\<lparr>qf_name := []\<rparr>, query_add written i stamp (saved_query (fst s)) (snd s))"

definition loadQuery :: "bool \<Rightarrow> fields \<Rightarrow> string \<Rightarrow> store \<Rightarrow> store \<times> fields" where
  "loadQuery written q stamp s = (query_markUsed written (fget q ''id'') stamp s, q)"

text \<open>\<open>n_results\<close> is the translated number of results; nothing is shown where no branch returns.\<close>

definition getHistoryValue :: "(jsval \<Rightarrow> jsval) \<Rightarrow> fields \<Rightarrow> jsval" where
  "getHistoryValue n_results entry =
     (let results = elems (fget entry ''results''); op = fget entry ''operation'';
          v = (case results of r # rs \<Rightarrow> jget (jget r ''result'') ''value'' | [] \<Rightarrow> JUndef) in
      if results = [] then JNull
      else if op \<in> {JStr ''GET'', JStr ''SET'', JStr ''GETNEXT''} \<and> v \<noteq> JUndef then v
      else if op \<in> {JStr ''WALK'', JStr ''GETBULK''} \<and> truthy (fget entry ''totalResults'') then n_results (fget entry ''totalResults'')
      else JNull)"

definition recent_entries :: "fields list \<Rightarrow> fields list" where
  "recent_entries es = slice es 0 5"

lemma saved_query_named: "\<exists>nm. fget (saved_query f) ''name'' = JStr nm \<and> nm \<noteq> []"
  by (simp add: saved_query_def Let_def fget_def)

lemma query_is_first: "\<exists>q. items (snd (saveCurrentQuery w i stamp (f, s))) = take MAX_QUERIES (q # items s) \<and> fget q ''oid'' = JStr (form_oid f)"
proof -
  have "fget (spread x (saved_query f)) ''oid'' = JStr (form_oid f)" for x
  proof -
    have "distinct (map fst (saved_query f))" by (simp add: saved_query_def Let_def)
    then show ?thesis by (simp add: fget_def map_of_spread) (simp add: saved_query_def Let_def)
  qed
  then show ?thesis by (auto simp: saveCurrentQuery_def query_add_def save_items_def query_push_def slice_def)
qed

section \<open>The tooltip\<close>

text \<open>Where the box is put: moved left and up where it would leave the window, and never within ten pixels of its edge.\<close>

definition adjustPosition :: "int \<times> int \<Rightarrow> int \<times> int \<Rightarrow> int \<times> int \<Rightarrow> int \<times> int" where
  "adjustPosition pos box window = (case (pos, box, window) of ((x, y), (w, h), (vw, vh)) \<Rightarrow>
     (max 10 (if x + w > vw - 10 then vw - w - 10 else x), max 10 (if y + h > vh - 10 then y - h - 10 else y)))"

definition tooltip_icon :: "string \<Rightarrow> string" where
  "tooltip_icon t = (case map_of [(''Scalar'', ''circle-dot''), (''Column'', ''columns-3''), (''Table'', ''table''), (''Notification'', ''bell''),
     (''Node'', ''folder''), (''Group'', ''layers'')] t of Some i \<Rightarrow> i | None \<Rightarrow> ''file'')"

definition formatAccess :: "fields \<Rightarrow> jsval" where
  "formatAccess node = (let a = fget node ''access'' in
     if truthy a \<and> a \<noteq> JStr ''AccessUnknown'' \<and> a \<noteq> JStr ''Unknown'' then a
     else if fget node ''mibType'' = JStr ''Table'' then JStr ''not-accessible''
     else if fget node ''mibType'' = JStr ''Column'' then JStr ''read-only'' else JNull)"

definition getSyntax :: "fields \<Rightarrow> jsval" where
  "getSyntax node = (if truthy (fget node ''syntax'') then fget node ''syntax'' else if truthy (fget node ''type'') then fget node ''type'' else JNull)"

lemma tooltip_inside:
  assumes "adjustPosition (x, y) (w, h) (vw, vh) = (ax, ay)" "w + 20 \<le> vw" "h + 20 \<le> vh" "y \<le> vh"
  shows "10 \<le> ax \<and> ax + w \<le> vw - 10 \<and> 10 \<le> ay \<and> ay + h \<le> vh - 10"
  using assms by (auto simp: adjustPosition_def max_def split: if_splits)

section \<open>Clipboard, notifications and language\<close>

text \<open>Copying rich text: whether the rich write exists, and which of the writes succeed.\<close>

datatype copied = CopiedRich | CopiedPlain | CopyError

definition copyRich :: "bool \<Rightarrow> bool \<Rightarrow> bool \<Rightarrow> copied" where
  "copyRich has_rich rich_ok plain_ok =
     (if has_rich then (if rich_ok then CopiedRich else if plain_ok then CopiedPlain else CopyError)
      else if plain_ok then CopiedPlain else CopyError)"

definition copyToClipboard :: "bool \<Rightarrow> copied" where
  "copyToClipboard ok = (if ok then CopiedPlain else CopyError)"

record native_state =
  nn_initialized :: bool
  nn_available :: bool
  nn_counter :: nat

text \<open>Both arguments are \<open>None\<close> where the call throws.\<close>

definition initNotifications :: "bool option \<Rightarrow> bool \<Rightarrow> native_state \<Rightarrow> native_state" where
  "initNotifications avail init_ok s = (case avail of None \<Rightarrow> s
     | Some b \<Rightarrow> s\<lparr>nn_available := b, nn_initialized := (if b \<and> init_ok then True else nn_initialized s)\<rparr>)"

definition sendNativeNotification :: "string \<Rightarrow> string \<Rightarrow> native_state \<Rightarrow> native_state \<times> (string \<times> string \<times> string) option" where
  "sendNativeNotification title body s = (if \<not> nn_initialized s \<or> \<not> nn_available s then (s, None)
     else (s\<lparr>nn_counter := nn_counter s + 1\<rparr>, Some (''snmplens-'' @ show_nat (nn_counter s + 1), title, body)))"

definition SUPPORTED :: "string list" where "SUPPORTED = [''en'', ''fr'', ''de'', ''es'', ''zh'']"

definition initial_locale :: "jsval \<Rightarrow> string option \<Rightarrow> string" where
  "initial_locale saved navigator =
     (let detected = (case navigator of Some n \<Rightarrow> (if fst (cut_at CHR ''-'' n) = [] then ''en'' else fst (cut_at CHR ''-'' n)) | None \<Rightarrow> ''en'') in
      case saved of JStr s \<Rightarrow> if s \<in> set SUPPORTED then s else if detected \<in> set SUPPORTED then detected else ''en''
        | _ \<Rightarrow> if detected \<in> set SUPPORTED then detected else ''en'')"

lemma locale_supported: "initial_locale saved navigator \<in> set SUPPORTED"
  by (auto simp: initial_locale_def Let_def SUPPORTED_def split: jsval.splits)

lemma notification_ids_differ:
  "sendNativeNotification a b s = (s1, Some (i, r)) \<Longrightarrow> sendNativeNotification c d s1 = (s2, Some (j, q)) \<Longrightarrow> i \<noteq> j"
  by (auto simp: sendNativeNotification_def show_base_inject split: if_splits)

lemma copy_reported: "copyRich a b c = CopyError \<longleftrightarrow> \<not> c \<and> \<not> (a \<and> b)"
  by (simp add: copyRich_def)

end
