(* ===== verification/Shared_Dialogs.thy ===== *)
theory Shared_Dialogs
  imports Operations_Panel Sim_Device Sim_Catalogue App_Shell Live_Feeds Credential_Profiles
begin

text \<open>
  The small components the panels share: the dialogs (\<open>ConfirmDialog.svelte\<close>, \<open>operations/SetConfirmModal.svelte\<close>,
  \<open>history/HistoryExportModal.svelte\<close>, \<open>utils/modal.js\<close>), \<open>ContextMenu.svelte\<close>, \<open>SecretInput.svelte\<close>,
  \<open>settings/UsmFields.svelte\<close>, \<open>UpdateBanner.svelte\<close>, \<open>operations/OperationTabs.svelte\<close>, \<open>mib/FavoritesPanel.svelte\<close>,
  \<open>mib/MibDiagnosis.svelte\<close>, \<open>mib/NodeDetails.svelte\<close>, \<open>simulator/FaultsPanel.svelte\<close>, \<open>simulator/ModelIcon.svelte\<close>
  and the one-shot requests (\<open>stores/tabRequest.js\<close>, \<open>stores/settingsRequest.js\<close>). A component without a state of its own
  is a function of its properties: what is shown, and the events a gesture dispatches. An element of the page is a number.
\<close>

section \<open>Dialogs\<close>

text \<open>A press of a key, a press of the pointer on an element heard by an element, or one of the buttons.\<close>

datatype gesture = Key string | Press nat nat | Cancel_Button | Confirm_Button | Copy_Button | Download_Button

definition onBackdrop :: "'a list \<Rightarrow> nat \<Rightarrow> nat \<Rightarrow> 'a list" where
  "onBackdrop dismiss target currentTarget = (if target = currentTarget then dismiss else [])"

definition on_escape :: "string \<Rightarrow> 'a list \<Rightarrow> 'a list" where
  "on_escape k dismiss = (if k = ''Escape'' then dismiss else [])"

fun confirm_events :: "gesture \<Rightarrow> string list" where
  "confirm_events (Key k) = on_escape k [''cancel'']"
| "confirm_events (Press t c) = onBackdrop [''cancel''] t c"
| "confirm_events Cancel_Button = [''cancel'']"
| "confirm_events Confirm_Button = [''confirm'']"
| "confirm_events _ = []"

fun export_events :: "gesture \<Rightarrow> string list" where
  "export_events (Key k) = on_escape k [''close'']"
| "export_events (Press t c) = onBackdrop [''close''] t c"
| "export_events Cancel_Button = [''close'']"
| "export_events Copy_Button = [''copy'']"
| "export_events Download_Button = [''download'']"
| "export_events Confirm_Button = []"

record export_choice =
  ec_scope :: string
  ec_format :: string

definition export_initial :: export_choice where
  "export_initial = \<lparr>ec_scope = ''all'', ec_format = ''json''\<rparr>"

definition choose_scope :: "nat \<Rightarrow> string \<Rightarrow> export_choice \<Rightarrow> export_choice" where
  "choose_scope selectedCount s e = (if s = ''selected'' \<and> selectedCount = 0 then e else e\<lparr>ec_scope := s\<rparr>)"

definition choose_format :: "string \<Rightarrow> export_choice \<Rightarrow> export_choice" where
  "choose_format f e = e\<lparr>ec_format := f\<rparr>"

text \<open>What is shown before a SET is sent: the object, the value, its type and the targets, in the settings' own words.\<close>

fun comma_list :: "string list \<Rightarrow> string" where
  "comma_list [] = []"
| "comma_list [x] = x"
| "comma_list (x # y # r) = x @ '', '' @ comma_list (y # r)"

definition set_details :: "string \<Rightarrow> string \<Rightarrow> string \<Rightarrow> string \<Rightarrow> string list \<Rightarrow> string list" where
  "set_details oid nodeName v type ts =
     [oid @ (if nodeName \<noteq> [] then '' ('' @ nodeName @ '')'' else []), v, type, comma_list ts]"

section \<open>The context menu\<close>

record menu_item =
  mi_label :: string
  mi_icon :: string
  mi_action :: string
  mi_disabled :: bool
  mi_why :: string

datatype menu_event = Menu_Action string | Menu_Close

definition handleClick :: "menu_item \<Rightarrow> menu_event list" where
  "handleClick i = (if mi_disabled i then [] else [Menu_Action (mi_action i), Menu_Close])"

definition menu_key :: "string \<Rightarrow> menu_event list" where
  "menu_key k = on_escape k [Menu_Close]"

datatype menu_row = Separator | Menu_Item bool string string

definition item_row :: "menu_item \<Rightarrow> menu_row" where
  "item_row i = (if mi_label i = ''---'' then Separator
     else Menu_Item (mi_disabled i)
       (if mi_disabled i then (if mi_why i \<noteq> [] then mi_why i else ''This action is not available'') else [])
       (mi_label i))"

section \<open>Secrets and identities\<close>

record secret_input =
  si_type :: string
  si_eye :: bool
  si_label :: string

definition secret_view :: "bool \<Rightarrow> bool \<Rightarrow> secret_input" where
  "secret_view revealed masked =
     \<lparr>si_type = (if revealed \<and> \<not> masked then ''text'' else ''password''), si_eye = (\<not> masked),
      si_label = (if revealed then ''common.hideSecret'' else ''common.showSecret'')\<rparr>"

definition press_eye :: "bool \<Rightarrow> bool \<Rightarrow> bool \<Rightarrow> bool" where
  "press_eye masked disabled revealed = (if masked \<or> disabled then revealed else \<not> revealed)"

text \<open>The inputs of an identity: the field, whether it is disabled, and the type of its input (none for a choice).\<close>

definition usm_inputs :: "string \<Rightarrow> bool \<Rightarrow> bool \<Rightarrow> bool \<Rightarrow> (string \<times> bool \<times> string) list" where
  "usm_inputs secLevel masked revealed showContext =
     (let pass = si_type (secret_view revealed masked) in
      [(''user'', False, if masked then ''password'' else ''text''), (''secLevel'', False, []),
       (''authProto'', \<not> usesAuth secLevel, []), (''authPass'', \<not> usesAuth secLevel, pass),
       (''privProto'', \<not> usesPriv secLevel, []), (''privPass'', \<not> usesPriv secLevel, pass)] @
      (if showContext then [(''contextName'', False, ''text'')] else []))"

section \<open>The banner of an update\<close>

record banner_view =
  bv_version :: string
  bv_current :: string
  bv_notes_button :: bool
  bv_progress :: "rat option"
  bv_buttons :: "string list"
  bv_notes :: string
  bv_error :: string

definition banner :: "bool \<Rightarrow> update_state \<Rightarrow> banner_view option" where
  "banner showNotes u = (if \<not> up_available u then None else Some
     \<lparr>bv_version = up_latest u, bv_current = up_current u, bv_notes_button = (up_notes u \<noteq> []),
      bv_progress = (if up_downloading u then Some (up_progress u) else None),
      bv_buttons = (if up_downloading u then []
        else [if up_selfApply u then ''update.install'' else ''update.download'', ''update.later'']),
      bv_notes = (if showNotes then up_notes u else []),
      bv_error = (case up_error u of Some e \<Rightarrow> e | None \<Rightarrow> [])\<rparr>)"

section \<open>The tabs of the operations\<close>

definition TABS :: "(string \<times> string \<times> string) list" where
  "TABS = [(''GET'', ''download'', ''operations.get''), (''SET'', ''upload'', ''operations.set''),
     (''GETNEXT'', ''arrow-right-to-line'', ''operations.getNext''), (''GETBULK'', ''layers'', ''operations.getBulk''),
     (''WALK'', ''footprints'', ''operations.walk'')]"

definition tab_disabled :: "string \<Rightarrow> string \<Rightarrow> bool" where
  "tab_disabled snmpVersion op \<longleftrightarrow> op = ''GETBULK'' \<and> snmpVersion = ''v1''"

definition press_tab :: "string \<Rightarrow> string \<Rightarrow> string \<Rightarrow> string" where
  "press_tab snmpVersion op activeOperation = (if tab_disabled snmpVersion op then activeOperation else op)"

section \<open>Favourites\<close>

definition favourite_icon :: "string \<Rightarrow> string" where
  "favourite_icon type = (case map_of [(''Scalar'', ''circle-dot''), (''Column'', ''columns-3''), (''Table'', ''table''),
       (''Notification'', ''bell''), (''Node'', ''folder''), (''Group'', ''layers'')] type of
     Some i \<Rightarrow> i | None \<Rightarrow> ''file'')"

text \<open>The text of a template is taken as it is written: the backslash and the letter of the title are two characters of it.\<close>

definition favourite_title :: "string \<Rightarrow> string \<Rightarrow> string" where
  "favourite_title path oid = path @ [CHR 0x5C, CHR ''n''] @ ''OID: '' @ oid"

definition press_clear :: "bool \<Rightarrow> store \<Rightarrow> store \<times> string list" where
  "press_clear confirmed s = (if confirmed then (favorites_clear s, [''favorites.cleared'']) else (s, []))"

definition favourite_key :: "string \<Rightarrow> bool" where
  "favourite_key k \<longleftrightarrow> k = ''Enter''"

section \<open>The diagnosis of a MIB file\<close>

definition first_text :: "string \<Rightarrow> jsval \<Rightarrow> string" where
  "first_text a v = (if a \<noteq> [] then a else if truthy v then str v else [])"

definition shownName :: "string \<Rightarrow> jsval \<Rightarrow> string" where
  "shownName fileName diagnosis = first_text fileName (jget diagnosis ''fileName'')"

definition shownSummary :: "string \<Rightarrow> jsval \<Rightarrow> string" where
  "shownSummary summary diagnosis = first_text summary (jget diagnosis ''summary'')"

definition summary_ok :: "jsval \<Rightarrow> bool" where
  "summary_ok diagnosis \<longleftrightarrow> truthy (jget diagnosis ''loaded'') \<and> jget diagnosis ''stage'' = JStr ''loaded''"

text \<open>The place of a message is written for a line above zero only.\<close>

definition diagnosis_lines :: "jsval \<Rightarrow> ((jsval \<times> jsval) option \<times> jsval) list" where
  "diagnosis_lines diagnosis =
     map (\<lambda>d. ((case jget d ''line'' of JNum q \<Rightarrow> if q > 0 then Some (JNum q, jget d ''column'') else None | _ \<Rightarrow> None), jget d ''message''))
       (take 12 (elems (jget diagnosis ''diagnostics'')))"

definition missing_rows :: "jsval \<Rightarrow> (jsval \<times> string \<times> string) list" where
  "missing_rows diagnosis =
     map (\<lambda>m. (jget m ''module'', ''app.mibDrop.reason.'' @ str (jget m ''reason''), comma_list (map str (elems (jget m ''symbols'')))))
       (elems (jget diagnosis ''missing''))"

section \<open>The details of a node\<close>

text \<open>The string method replaces the first occurrence only.\<close>

fun replace_first :: "char \<Rightarrow> string \<Rightarrow> string" where
  "replace_first c [] = []"
| "replace_first c (x # r) = (if x = c then r else x # replace_first c r)"

definition access_class :: "string \<Rightarrow> string" where
  "access_class access = replace_first CHR ''-'' (toLowerCase access)"

definition access_styles :: "string list" where
  "access_styles = [''readonly'', ''readwrite'', ''writeonly'', ''notaccessible'']"

definition DETAILS :: "(string \<times> string) list" where
  "DETAILS = [(''nodeDetails.type'', ''mibType''), (''nodeDetails.syntax'', ''syntax''), (''nodeDetails.access'', ''access''),
     (''nodeDetails.status'', ''status''), (''nodeDetails.units'', ''units''), (''nodeDetails.parent'', ''parent'')]"

definition filled_rows :: "(string \<Rightarrow> string) \<Rightarrow> (string \<times> string) list \<Rightarrow> (string \<times> string) list" where
  "filled_rows node rows = filter (\<lambda>r. snd r \<noteq> []) (map (\<lambda>r. (fst r, node (snd r))) rows)"

definition detail_rows :: "(string \<Rightarrow> string) \<Rightarrow> nat \<Rightarrow> (string \<times> string) list" where
  "detail_rows node children =
     [(''nodeDetails.name'', node ''name''), (''nodeDetails.oid'', node ''oid'')] @ filled_rows node DETAILS @
     (if children > 0 then [(''nodeDetails.children'', show_nat children)] else []) @
     filled_rows node [(''nodeDetails.description'', ''description'')]"

section \<open>The panel of the faults\<close>

record faults_panel =
  fa_form :: fields
  fa_sent :: "fault_payload list"

definition open_faults :: "jsval \<Rightarrow> faults_panel" where
  "open_faults faults = \<lparr>fa_form = editableFaults faults, fa_sent = []\<rparr>"

definition type_fault :: "string \<Rightarrow> jsval \<Rightarrow> faults_panel \<Rightarrow> faults_panel" where
  "type_fault k v p = p\<lparr>fa_form := fset k v (fa_form p)\<rparr>"

definition apply_faults :: "bool \<Rightarrow> faults_panel \<Rightarrow> faults_panel" where
  "apply_faults busy p = (if busy then p else p\<lparr>fa_sent := fa_sent p @ [faultsPayload (JObj (fa_form p))]\<rparr>)"

definition clear_faults :: "bool \<Rightarrow> faults_panel \<Rightarrow> faults_panel" where
  "clear_faults busy p = (if busy then p else apply_faults False (p\<lparr>fa_form := blankFaults\<rparr>))"

definition model_picture :: "string \<Rightarrow> string \<Rightarrow> string + string" where
  "model_picture icon category = (if icon \<noteq> [] then Inl icon else Inr (categoryIcon category))"

section \<open>One-shot requests\<close>

definition requestTab :: "string \<Rightarrow> string option \<Rightarrow> string option" where
  "requestTab name request = Some name"

definition requestSettings :: "string \<Rightarrow> string \<Rightarrow> (string \<times> string) option \<Rightarrow> (string \<times> string) option" where
  "requestSettings page anchor request = Some (page, anchor)"

section \<open>Facts\<close>

text \<open>A press inside a dialog never closes it: only Escape, the backdrop and the button do, and only the button confirms.\<close>

lemma dialog_closed_by:
  "''cancel'' \<in> set (confirm_events g) \<longleftrightarrow> g = Key ''Escape'' \<or> (\<exists>b. g = Press b b) \<or> g = Cancel_Button"
  "''confirm'' \<in> set (confirm_events g) \<longleftrightarrow> g = Confirm_Button"
  by (cases g; auto simp: on_escape_def onBackdrop_def split: if_splits)+

text \<open>The dialog of an export and the one of a SET close on the same gestures.\<close>

lemma dialogs_close_alike: "''close'' \<in> set (export_events g) \<longleftrightarrow> ''cancel'' \<in> set (confirm_events g)"
  by (cases g) (auto simp: on_escape_def onBackdrop_def split: if_splits)

text \<open>With nothing selected, the scope of an export never becomes the selection.\<close>

lemma scope_needs_selection: "ec_scope (foldl (\<lambda>e s. choose_scope 0 s e) export_initial ss) \<noteq> ''selected''"
proof -
  have "ec_scope e \<noteq> ''selected'' \<Longrightarrow> ec_scope (foldl (\<lambda>e s. choose_scope 0 s e) e ss) \<noteq> ''selected''" for e
    by (induction ss arbitrary: e) (auto simp: choose_scope_def)
  then show ?thesis by (simp add: export_initial_def)
qed

text \<open>The confirmation of a SET takes no heed of the anonymous mode: an address of the settings is a part of what is shown.\<close>

lemma set_details_name_targets: "set_details oid n v ty [address] ! 3 = address"
  by (simp add: set_details_def)

lemma disabled_item_is_inert: "mi_disabled i \<Longrightarrow> handleClick i = [] \<and> (\<forall>t l. item_row i = Menu_Item False t l \<longrightarrow> False)"
  by (auto simp: handleClick_def item_row_def)

text \<open>In the anonymous mode a secret is never shown, and the eye cannot change what is remembered; a secret shown before is
  shown again when the mode ends.\<close>

lemma secret_masked:
  "si_type (secret_view revealed True) = ''password'' \<and> \<not> si_eye (secret_view revealed True)"
  "press_eye True d revealed = revealed"
  by (simp_all add: secret_view_def press_eye_def)

text \<open>A field of an identity that is edited is one its level uses.\<close>

lemma enabled_fields_used:
  assumes "(f, False, t) \<in> set (usm_inputs l a r c)"
  shows "f \<in> {''authProto'', ''authPass''} \<Longrightarrow> usesAuth l" "f \<in> {''privProto'', ''privPass''} \<Longrightarrow> usesPriv l"
  using assms by (auto simp: usm_inputs_def Let_def split: if_splits)

text \<open>A banner is there exactly while an update is offered, and its two buttons are gone while one is downloaded.\<close>

lemma banner_of_offer: "banner n u = None \<longleftrightarrow> \<not> up_available u"
  "banner n (dismiss_update u) = None"
  "banner n (update_applying u) = Some b \<Longrightarrow> bv_buttons b = [] \<and> bv_progress b = Some 0 \<and> bv_error b = []"
  by (auto simp: banner_def dismiss_update_def update_applying_def split: if_splits)

text \<open>The tab of GETBULK cannot be chosen for SNMPv1; chosen before the version was changed, it stays.\<close>

lemma bulk_tab: "op \<noteq> ''GETBULK'' \<Longrightarrow> press_tab v1 op' op = ''GETBULK'' \<Longrightarrow> v1 \<noteq> ''v1''"
  "press_tab ''v1'' ''GETBULK'' (press_tab ''v2c'' ''GETBULK'' op) = ''GETBULK''"
  by (auto simp: press_tab_def tab_disabled_def split: if_splits)

text \<open>The title of a favourite has no line break of its own: its two parts are joined by a backslash and a letter.\<close>

lemma favourite_title_is_one_line:
  "NEWLINE \<notin> set path \<Longrightarrow> NEWLINE \<notin> set oid \<Longrightarrow> NEWLINE \<notin> set (favourite_title path oid)"
  by (simp add: favourite_title_def NEWLINE_def)

lemma clear_asks_first: "press_clear False s = (s, [])" "items (fst (press_clear True s)) = []"
  by (simp_all add: press_clear_def favorites_clear_def)

text \<open>At most twelve messages of a diagnosis are shown, and nothing tells that there are more.\<close>

lemma diagnosis_cut:
  "length (diagnosis_lines d) = min 12 (length (elems (jget d ''diagnostics'')))"
  "take 12 (elems (jget d ''diagnostics'')) = take 12 (elems (jget d' ''diagnostics'')) \<Longrightarrow> diagnosis_lines d = diagnosis_lines d'"
  by (simp_all add: diagnosis_lines_def min.commute)

text \<open>One hyphen is removed of an access; the access that has two is none of the styled ones.\<close>

lemma access_with_two_hyphens:
  "access_class ''read-only'' \<in> set access_styles" "access_class ''not-accessible'' \<in> set access_styles"
  "access_class ''accessible-for-notify'' = ''accessiblefor-notify''"
  "access_class ''accessible-for-notify'' \<notin> set access_styles"
  by code_simp+

text \<open>Every row below the name and the object identifier has a text.\<close>

lemma detail_rows_filled: assumes "r \<in> set (drop 2 (detail_rows node n))" shows "snd r \<noteq> []"
proof -
  have "r \<in> set (filled_rows node ks) \<Longrightarrow> snd r \<noteq> []" for ks by (simp add: filled_rows_def)
  moreover have "show_nat n \<noteq> []" using show_base_nonempty[of 10 n] by simp
  ultimately show ?thesis using assms by (auto simp: detail_rows_def simp del: show_base.simps split: if_splits)
qed

text \<open>The form of the faults is read once: what is applied is brought into its bounds, and what was typed stays in the form.\<close>

lemma typed_latency_stays:
  defines "p \<equiv> apply_faults False (type_fault ''latencyMs'' (JNum 60000) (open_faults JUndef))"
  shows "map fp_latencyMs (fa_sent p) = [MAX_LATENCY_MS]" "fget (fa_form p) ''latencyMs'' = JNum 60000"
  unfolding p_def by code_simp+

lemma cleared_faults:
  "fa_sent (clear_faults False p) = fa_sent p @ [faultsPayload (JObj blankFaults)]"
  "\<not> fp_mute (faultsPayload (JObj blankFaults)) \<and> fp_latencyMs (faultsPayload (JObj blankFaults)) = 0
     \<and> fp_error (faultsPayload (JObj blankFaults)) = [] \<and> fp_counterSpeed (faultsPayload (JObj blankFaults)) = 1"
  by (simp add: clear_faults_def apply_faults_def) code_simp

text \<open>A request not yet answered is replaced by the next one.\<close>

lemma last_request_wins: "requestTab b (requestTab a r) = Some b" "requestSettings q y (requestSettings p x t) = Some (q, y)"
  by (simp_all add: requestTab_def requestSettings_def)

end
